(* ===== verification/Prelude.thy ===== *)
theory Prelude imports Main "HOL-Library.Word" begin

text \<open>
  Shared vocabulary of the development: the machine integers of the Rust code as words, octet
  strings, \<open>Result\<close> values as sums with their sequencing, big-endian conversion
  (\<open>to_be_bytes\<close> / \<open>from_be_bytes\<close>), and Rust strings as the list of their UTF-8 octets together
  with the UTF-8 check of \<open>std::str::from_utf8\<close>.
\<close>

unbundle bit_operations_syntax

type_synonym u8 = "8 word"
type_synonym u16 = "16 word"
type_synonym u32 = "32 word"
type_synonym u64 = "64 word"
type_synonym bytes = "u8 list"

named_theorems wire "encoding and decoding facts used as rewrite rules"
named_theorems runs "one-step facts of the state machines"
named_theorems evals "rules that evaluate the codecs on concrete octets"

section \<open>Results\<close>

text \<open>\<open>Result<T, E>\<close> is \<open>'e + 'a\<close>; \<open>?\<close> is \<open>bindE\<close>, \<open>map_err\<close> (and the
  \<open>From\<close> conversion \<open>?\<close> applies) is \<open>map_errE\<close>, \<open>ok_or\<close> is \<open>ok_or\<close>.\<close>

fun bindE :: "'e + 'a \<Rightarrow> ('a \<Rightarrow> 'e + 'b) \<Rightarrow> 'e + 'b" where
  "bindE (Inl e) f = Inl e"
| "bindE (Inr x) f = f x"

fun map_errE :: "('e \<Rightarrow> 'f) \<Rightarrow> 'e + 'a \<Rightarrow> 'f + 'a" where
  "map_errE g (Inl e) = Inl (g e)"
| "map_errE g (Inr x) = Inr x"

fun ok_or :: "'e \<Rightarrow> 'a option \<Rightarrow> 'e + 'a" where
  "ok_or e None = Inl e"
| "ok_or e (Some x) = Inr x"

text \<open>\<open>Option::is_none_or\<close> and \<open>Option::is_some_and\<close>.\<close>

definition is_none_or :: "('a \<Rightarrow> bool) \<Rightarrow> 'a option \<Rightarrow> bool" where
  "is_none_or P x = (case x of None \<Rightarrow> True | Some y \<Rightarrow> P y)"

definition is_some_and :: "('a \<Rightarrow> bool) \<Rightarrow> 'a option \<Rightarrow> bool" where
  "is_some_and P x = (case x of None \<Rightarrow> False | Some y \<Rightarrow> P y)"

lemma bindE_cong [fundef_cong]:
  "m = m' \<Longrightarrow> (\<And>x. m' = Inr x \<Longrightarrow> f x = f' x) \<Longrightarrow> bindE m f = bindE m' f'"
  by (cases m') auto

lemma bindE_Inr_iff: "bindE m f = Inr y \<longleftrightarrow> (\<exists>x. m = Inr x \<and> f x = Inr y)"
  by (cases m) auto

lemma bindE_Inl_iff: "bindE m f = Inl e \<longleftrightarrow> m = Inl e \<or> (\<exists>x. m = Inr x \<and> f x = Inl e)"
  by (cases m) auto

lemma map_errE_Inr_iff [simp]: "map_errE g m = Inr y \<longleftrightarrow> m = Inr y"
  by (cases m) auto

lemma map_errE_Inl_iff: "map_errE g m = Inl e \<longleftrightarrow> (\<exists>e'. m = Inl e' \<and> e = g e')"
  by (cases m) auto

lemma ok_or_Inr_iff [simp]: "ok_or e m = Inr y \<longleftrightarrow> m = Some y"
  by (cases m) auto

lemma ok_or_Inl_iff [simp]: "ok_or e m = Inl f \<longleftrightarrow> m = None \<and> f = e"
  by (cases m) auto

section \<open>Slices\<close>

text \<open>\<open>slice.get(i)\<close> and \<open>slice.get(a..b)\<close>: \<open>None\<close> out of range.\<close>

definition get_at :: "'a list \<Rightarrow> nat \<Rightarrow> 'a option" where
  "get_at xs i = (if i < length xs then Some (xs ! i) else None)"

definition get_range :: "'a list \<Rightarrow> nat \<Rightarrow> nat \<Rightarrow> 'a list option" where
  "get_range xs a b = (if a \<le> b \<and> b \<le> length xs then Some (take (b - a) (drop a xs)) else None)"

definition get_from :: "'a list \<Rightarrow> nat \<Rightarrow> 'a list option" where
  "get_from xs a = (if a \<le> length xs then Some (drop a xs) else None)"

lemma get_at_Nil [simp]: "get_at [] i = None"
  by (simp add: get_at_def)

lemma get_at_Cons_0 [simp]: "get_at (x # xs) 0 = Some x"
  by (simp add: get_at_def)

lemma get_at_Cons_Suc [simp]: "get_at (x # xs) (Suc i) = get_at xs i"
  by (simp add: get_at_def)

lemma get_at_append_right: "get_at (xs @ ys) (length xs + i) = get_at ys i"
  by (simp add: get_at_def nth_append)

lemma get_range_append_mid:
  "get_range (xs @ ys @ zs) (length xs) (length xs + length ys) = Some ys"
  by (simp add: get_range_def)

lemma get_from_append: "get_from (xs @ ys) (length xs) = Some ys"
  by (simp add: get_from_def)

section \<open>Big-endian conversion\<close>

text \<open>\<open>be_bytes n v\<close> is \<open>v.to_be_bytes()\<close> for an integer of \<open>n\<close> octets, on the value as a
  natural number; \<open>be_nat\<close> is the value \<open>from_be_bytes\<close> reads.\<close>

fun be_bytes :: "nat \<Rightarrow> nat \<Rightarrow> bytes" where
  "be_bytes 0 v = []"
| "be_bytes (Suc n) v = word_of_nat (v div 256 ^ n) # be_bytes n v"

fun be_nat :: "bytes \<Rightarrow> nat" where
  "be_nat [] = 0"
| "be_nat (b # bs) = unat b * 256 ^ length bs + be_nat bs"

lemma length_be_bytes [simp]: "length (be_bytes n v) = n"
  by (induction n) auto

lemma unat_u8_less [simp]: "unat (b :: u8) < 256"
  using unsigned_less [of b, where ?'a = nat] by simp

lemma be_nat_bound: "be_nat bs < 256 ^ length bs"
proof (induction bs)
  case Nil
  then show ?case by simp
next
  case (Cons b bs)
  have "unat b * 256 ^ length bs \<le> 255 * 256 ^ length bs"
    using unat_u8_less [of b] by (intro mult_le_mono1) linarith
  then have "unat b * 256 ^ length bs + be_nat bs < 256 * 256 ^ length bs"
    using Cons.IH by linarith
  then show ?case by simp
qed

lemma unat_word_of_nat_u8 [simp]: "unat (word_of_nat v :: u8) = v mod 256"
  by (simp add: unat_of_nat)

lemma be_nat_be_bytes: "be_nat (be_bytes n v) = v mod 256 ^ n"
proof (induction n)
  case 0
  then show ?case by simp
next
  case (Suc n)
  have "v mod 256 ^ Suc n = 256 ^ n * (v div 256 ^ n mod 256) + v mod 256 ^ n"
    by (metis mod_mult2_eq power_Suc2)
  with Suc.IH show ?case
    by (simp add: mult.commute)
qed

lemma be_nat_be_bytes_id: "v < 256 ^ n \<Longrightarrow> be_nat (be_bytes n v) = v"
  by (simp add: be_nat_be_bytes)

lemma be_bytes_mod: "be_bytes n (v mod 256 ^ m) = be_bytes n v" if "n \<le> m"
  using that
proof (induction n)
  case 0
  then show ?case by simp
next
  case (Suc n)
  then have le: "Suc n \<le> m" and IH: "be_bytes n (v mod 256 ^ m) = be_bytes n v"
    by auto
  have "(v mod 256 ^ m) div 256 ^ n mod 256 = v div 256 ^ n mod 256"
  proof -
    have "(256::nat) ^ m = 256 ^ n * 256 ^ (m - n)"
      using le by (simp flip: power_add)
    then have "(v mod 256 ^ m) div 256 ^ n = (v div 256 ^ n) mod 256 ^ (m - n)"
      by (simp add: mod_mult2_eq)
    moreover have "(256::nat) dvd 256 ^ (m - n)"
      using le by (intro dvd_power) auto
    ultimately show ?thesis
      by (simp add: mod_mod_cancel)
  qed
  then have "(word_of_nat ((v mod 256 ^ m) div 256 ^ n) :: u8) = word_of_nat (v div 256 ^ n)"
    by (intro word_unat_eq_iff [THEN iffD2]) simp
  with IH show ?case by simp
qed

lemma be_bytes_be_nat: "be_bytes (length bs) (be_nat bs) = bs"
proof (induction bs)
  case Nil
  then show ?case by simp
next
  case (Cons b bs)
  let ?n = "length bs"
  have "(unat b * 256 ^ ?n + be_nat bs) div 256 ^ ?n = unat b"
    using be_nat_bound [of bs] by simp
  moreover have "be_bytes ?n (unat b * 256 ^ ?n + be_nat bs) = be_bytes ?n (be_nat bs)"
    using be_bytes_mod [of ?n ?n "unat b * 256 ^ ?n + be_nat bs"]
      be_bytes_mod [of ?n ?n "be_nat bs"] by simp
  ultimately show ?case
    using Cons.IH by simp
qed

lemma be_nat_append: "be_nat (xs @ ys) = be_nat xs * 256 ^ length ys + be_nat ys"
  by (induction xs) (auto simp: power_add algebra_simps)

text \<open>The accumulator loops of the decoders, \<open>acc = (acc << 8) | b as u64\<close>.\<close>

definition shl8_or :: "'a::len word \<Rightarrow> u8 \<Rightarrow> 'a word" where
  "shl8_or a b = push_bit 8 a OR ucast b"

definition be_acc :: "'a::len word \<Rightarrow> bytes \<Rightarrow> 'a word" where
  "be_acc = foldl shl8_or"

lemma bit_ucast_u8: "bit (ucast (b :: u8) :: 'a::len word) n \<Longrightarrow> n < 8"
  by (auto simp: bit_simps dest: bit_imp_le_length)

lemma shl8_or_add: "shl8_or a b = a * 256 + ucast b"
proof -
  have "push_bit 8 a OR ucast b = push_bit 8 a + ucast b"
    by (intro disjunctive_add [symmetric]) (auto simp: bit_simps dest: bit_imp_le_length)
  then show ?thesis
    by (simp add: shl8_or_def push_bit_eq_mult)
qed

lemma be_acc_eq: "be_acc a bs = a * 256 ^ length bs + word_of_nat (be_nat bs)"
proof (induction bs arbitrary: a)
  case Nil
  then show ?case by (simp add: be_acc_def)
next
  case (Cons b bs)
  have "be_acc a (b # bs) = be_acc (shl8_or a b) bs"
    by (simp add: be_acc_def)
  then show ?case
    by (simp add: Cons.IH shl8_or_add algebra_simps)
qed

lemma be_acc_0: "be_acc 0 bs = word_of_nat (be_nat bs)"
  by (simp add: be_acc_eq)

text \<open>\<open>to_be_bytes\<close> and \<open>from_be_bytes\<close> of the unsigned types, by the width of the word.\<close>

definition to_be :: "'a::len word \<Rightarrow> bytes" where
  "to_be w = be_bytes (LENGTH('a) div 8) (unat w)"

definition from_be :: "bytes \<Rightarrow> 'a::len word" where
  "from_be bs = word_of_nat (be_nat bs)"

definition to_le :: "'a::len word \<Rightarrow> bytes" where
  "to_le w = rev (to_be w)"

definition from_le :: "bytes \<Rightarrow> 'a::len word" where
  "from_le bs = from_be (rev bs)"

lemma length_to_be [simp]:
  "length (to_be (a :: u16)) = 2" "length (to_be (b :: u32)) = 4" "length (to_be (c :: u64)) = 8"
  by (simp_all add: to_be_def)

lemma length_to_le [simp]:
  "length (to_le (a :: u16)) = 2" "length (to_le (b :: u32)) = 4" "length (to_le (c :: u64)) = 8"
  by (simp_all add: to_le_def)

lemma to_be_nonempty [simp]:
  "to_be (a :: u16) \<noteq> []" "to_be (b :: u32) \<noteq> []" "to_be (c :: u64) \<noteq> []"
  using length_to_be by (metis list.size(3) zero_neq_numeral)+

lemma from_be_to_be_gen:
  assumes "8 * (LENGTH('a) div 8) = LENGTH('a)"
  shows "from_be (to_be (w :: 'a::len word)) = w"
proof -
  have "(2::nat) ^ LENGTH('a) = (2 ^ 8) ^ (LENGTH('a) div 8)"
    by (metis assms power_mult)
  then have "(256::nat) ^ (LENGTH('a) div 8) = 2 ^ LENGTH('a)"
    by simp
  then show ?thesis
    by (simp add: from_be_def to_be_def be_nat_be_bytes)
qed

lemma from_be_to_be [simp]:
  "from_be (to_be (a :: u16)) = a" "from_be (to_be (b :: u32)) = b" "from_be (to_be (c :: u64)) = c"
  by (simp_all add: from_be_to_be_gen)

lemma from_le_to_le [simp]:
  "from_le (to_le (a :: u16)) = a" "from_le (to_le (b :: u32)) = b" "from_le (to_le (c :: u64)) = c"
  by (simp_all add: from_le_def to_le_def)

lemma to_be_from_be:
  assumes "length bs = LENGTH('a) div 8" "be_nat bs < 2 ^ LENGTH('a)"
  shows "to_be (from_be bs :: 'a::len word) = bs"
proof -
  have "unat (from_be bs :: 'a word) = be_nat bs"
    using assms(2) by (simp add: from_be_def unat_of_nat)
  then show ?thesis
    using assms(1) be_bytes_be_nat [of bs] by (simp add: to_be_def)
qed

lemma to_be_u16_elim:
  obtains x y where "to_be (w :: u16) = [x, y]" "from_be [x, y] = w"
proof -
  have "length (to_be w) = 2" by simp
  then obtain x y where "to_be w = [x, y]"
    by (metis (no_types, opaque_lifting) One_nat_def Suc_1 length_0_conv length_Suc_conv)
  then show thesis using that from_be_to_be(1) [of w] by metis
qed

text \<open>Facts on single octets: the low seven bits and the top bit.\<close>

lemma and_0x7F: "(w :: 'a::len word) AND 0x7F = take_bit 7 w"
proof -
  have "w AND mask 7 = take_bit 7 w" by (simp add: take_bit_eq_mask)
  then show ?thesis by (simp add: mask_numeral)
qed
lemma unat_take_bit_word: "unat (take_bit n (w :: 'a::len word)) = unat w mod 2 ^ n"
  by (metis take_bit_eq_mod unsigned_take_bit_eq)
lemma unat_ucast_mod: "unat (ucast (w :: 'a::len word) :: 'b::len word) = unat w mod 2 ^ LENGTH('b)"
  by (metis take_bit_eq_mod unsigned_ucast_eq)

lemma u8_msb_iff: "bit (b :: u8) 7 \<longleftrightarrow> \<not> b < 0x80"
proof -
  have "bit b 7 \<longleftrightarrow> bit (unat b) 7"
    by (simp add: bit_unsigned_iff)
  also have "\<dots> \<longleftrightarrow> odd (unat b div 128)"
    by (simp add: bit_iff_odd)
  also have "\<dots> \<longleftrightarrow> \<not> unat b < 128"
  proof -
    have "unat b div 128 = (if unat b < 128 then 0 else 1)"
      using unat_u8_less [of b] by (auto intro: div_nat_eqI)
    then show ?thesis by simp
  qed
  finally show ?thesis
    by (simp add: word_less_nat_alt)
qed
lemma u8_and_msb: "(b :: u8) AND 0x80 = 0 \<longleftrightarrow> b < 0x80"
  using and_exp_eq_0_iff_not_bit [of b 7] by (simp add: u8_msb_iff)
lemma u8_and_low: "(b :: u8) < 0x80 \<Longrightarrow> b AND 0x7F = b"
  by (simp add: and_0x7F word_unat_eq_iff unat_take_bit_word word_less_nat_alt)
lemma u8_set_msb_add: "(b :: u8) < 0x80 \<Longrightarrow> b OR 0x80 = b + 0x80"
proof -
  assume "b < 0x80"
  moreover have "bit ((2 :: u8) ^ 7) n \<Longrightarrow> n = 7" for n
    by (simp only: bit_exp_iff)
  ultimately have "b OR 2 ^ 7 = b + 2 ^ 7"
    by (intro disjunctive_add [symmetric]) (metis u8_msb_iff)
  then show ?thesis by simp
qed
lemma unat_u8_set_msb: "(b :: u8) < 0x80 \<Longrightarrow> unat (b OR 0x80) = unat b + 128"
  by (simp add: u8_set_msb_add unat_word_ariths word_less_nat_alt)
lemma u8_set_msb: "b < 0x80 \<Longrightarrow> ((b :: u8) OR 0x80) AND 0x7F = b" "((b :: u8) OR 0x80) AND 0x80 \<noteq> 0"
proof -
  show "b < 0x80 \<Longrightarrow> (b OR 0x80) AND 0x7F = b"
    by (simp add: and_0x7F word_unat_eq_iff unat_take_bit_word unat_u8_set_msb word_less_nat_alt)
  have "bit (b OR 0x80) 7" using bit_exp_iff [where ?'a = u8, of 7 7] by (simp add: bit_simps)
  then show "(b OR 0x80) AND 0x80 \<noteq> 0" by (simp add: u8_and_msb u8_msb_iff)
qed
text \<open>The base-128 accumulator, \<open>acc = (acc << 7) | (b & 0x7F)\<close>.\<close>

definition shl7_or :: "'a::len word \<Rightarrow> u8 \<Rightarrow> 'a word" where
  "shl7_or a b = push_bit 7 a OR ucast (b AND 0x7F)"

lemma shl7_or_add: "shl7_or a b = a * 128 + ucast (b AND 0x7F)"
proof -
  have "push_bit 7 a OR ucast (b AND 0x7F) = push_bit 7 a + ucast (b AND 0x7F)"
    by (intro disjunctive_add [symmetric]) (auto simp: and_0x7F bit_simps)
  then show ?thesis
    by (simp add: shl7_or_def push_bit_eq_mult)
qed

section \<open>Strings\<close>

text \<open>A Rust \<open>String\<close> is the list of its UTF-8 octets, one \<open>char\<close> per octet (\<open>char\<close> has eight
  bits), so \<open>length\<close> is Rust's \<open>len\<close>. \<open>from_utf8\<close> makes the check of \<open>std::str::from_utf8\<close>:
  well-formed UTF-8, with no overlong form, surrogate or code point above U+10FFFF.\<close>

definition byte_of_char :: "char \<Rightarrow> u8" where
  "byte_of_char c = word_of_nat (of_char c)"

definition char_of_byte :: "u8 \<Rightarrow> char" where
  "char_of_byte b = char_of (unat b)"

definition as_bytes :: "string \<Rightarrow> bytes" where
  "as_bytes s = map byte_of_char s"

definition utf8_cont :: "u8 \<Rightarrow> bool" where
  "utf8_cont c \<longleftrightarrow> 0x80 \<le> c \<and> c \<le> 0xBF"

text \<open>\<open>utf8_next\<close> checks one encoded character and returns the octets after it.\<close>

fun utf8_next :: "bytes \<Rightarrow> bytes option" where
  "utf8_next [] = None"
| "utf8_next (b # bs) =
    (if b < 0x80 then Some bs
     else if 0xC2 \<le> b \<and> b \<le> 0xDF then
       (case bs of c1 # r \<Rightarrow> if utf8_cont c1 then Some r else None | _ \<Rightarrow> None)
     else if 0xE0 \<le> b \<and> b \<le> 0xEF then
       (case bs of c1 # c2 # r \<Rightarrow>
          if (if b = 0xE0 then 0xA0 \<le> c1 \<and> c1 \<le> 0xBF
              else if b = 0xED then 0x80 \<le> c1 \<and> c1 \<le> 0x9F
              else utf8_cont c1) \<and> utf8_cont c2
          then Some r else None
        | _ \<Rightarrow> None)
     else if 0xF0 \<le> b \<and> b \<le> 0xF4 then
       (case bs of c1 # c2 # c3 # r \<Rightarrow>
          if (if b = 0xF0 then 0x90 \<le> c1 \<and> c1 \<le> 0xBF
              else if b = 0xF4 then 0x80 \<le> c1 \<and> c1 \<le> 0x8F
              else utf8_cont c1) \<and> utf8_cont c2 \<and> utf8_cont c3
          then Some r else None
        | _ \<Rightarrow> None)
     else None)"

lemma utf8_next_length: "utf8_next bs = Some r \<Longrightarrow> length r < length bs"
  by (cases bs) (auto split: if_splits list.splits)

function utf8_valid :: "bytes \<Rightarrow> bool" where
  "utf8_valid bs = (bs = [] \<or> (case utf8_next bs of None \<Rightarrow> False | Some r \<Rightarrow> utf8_valid r))"
  by pat_completeness auto
termination
  by (relation "measure length") (auto dest: utf8_next_length)

declare utf8_valid.simps [simp del]

definition from_utf8 :: "bytes \<Rightarrow> string option" where
  "from_utf8 bs = (if utf8_valid bs then Some (map char_of_byte bs) else None)"

text \<open>The invariant of the type \<open>String\<close>.\<close>

definition str_ok :: "string \<Rightarrow> bool" where
  "str_ok s = utf8_valid (as_bytes s)"

lemma char_of_byte_of_char [simp]: "char_of_byte (byte_of_char c) = c"
proof -
  have "(of_char c :: nat) < 256"
    by (metis of_char_mod_256 mod_less_divisor zero_less_numeral)
  then show ?thesis
    by (simp add: char_of_byte_def byte_of_char_def)
qed

lemma byte_of_char_of_byte [simp]: "byte_of_char (char_of_byte b) = b"
  by (simp add: char_of_byte_def byte_of_char_def of_char_mod_256)

lemma length_as_bytes [simp]: "length (as_bytes s) = length s"
  by (simp add: as_bytes_def)

lemma as_bytes_append: "as_bytes (s @ t) = as_bytes s @ as_bytes t"
  by (simp add: as_bytes_def)

lemma from_utf8_as_bytes [simp]: "str_ok s \<Longrightarrow> from_utf8 (as_bytes s) = Some s"
  by (simp add: str_ok_def from_utf8_def as_bytes_def comp_def)

lemma from_utf8_SomeD: "from_utf8 bs = Some s \<Longrightarrow> as_bytes s = bs \<and> str_ok s"
  by (auto simp: str_ok_def from_utf8_def as_bytes_def comp_def split: if_splits)

lemma utf8_valid_Nil [simp]: "utf8_valid []"
  by (simp add: utf8_valid.simps)

lemma utf8_next_append: "utf8_next xs = Some r \<Longrightarrow> utf8_next (xs @ ys) = Some (r @ ys)"
  by (cases xs) (auto split: if_splits list.splits)

lemma utf8_valid_append: "utf8_valid xs \<Longrightarrow> utf8_valid ys \<Longrightarrow> utf8_valid (xs @ ys)"
proof (induction xs rule: utf8_valid.induct)
  case (1 xs)
  show ?case
  proof (cases "xs = []")
    case True
    with "1.prems" show ?thesis by simp
  next
    case False
    with "1.prems" obtain r where r: "utf8_next xs = Some r" and "utf8_valid r"
      by (auto simp: utf8_valid.simps [of xs] split: option.splits)
    with "1.IH" "1.prems" False have "utf8_valid (r @ ys)" by blast
    with r False show ?thesis
      by (simp add: utf8_valid.simps [of "xs @ ys"] utf8_next_append)
  qed
qed

lemma str_ok_append: "str_ok s \<Longrightarrow> str_ok t \<Longrightarrow> str_ok (s @ t)"
  by (simp add: str_ok_def as_bytes_append utf8_valid_append)

lemma str_ok_Nil [simp]: "str_ok []"
  by (simp add: str_ok_def as_bytes_def)

lemma utf8_valid_ascii: "\<forall>b \<in> set bs. b < 0x80 \<Longrightarrow> utf8_valid bs"
proof (induction bs)
  case Nil
  then show ?case by simp
next
  case (Cons b bs)
  then show ?case by (simp add: utf8_valid.simps [of "b # bs"])
qed

text \<open>The octets of the UTF-8 letters \<open>o\<close>, \<open>i\<close> and \<open>a\<close> with an acute accent, and \<open>n\<close> with a tilde,
  for the error texts.\<close>

definition n_tilde :: string where
  "n_tilde = [char_of (0xC3 :: nat), char_of (0xB1 :: nat)]"

definition o_acute :: string where
  "o_acute = [char_of (0xC3 :: nat), char_of (0xB3 :: nat)]"

definition i_acute :: string where
  "i_acute = [char_of (0xC3 :: nat), char_of (0xAD :: nat)]"

definition a_acute :: string where
  "a_acute = [char_of (0xC3 :: nat), char_of (0xA1 :: nat)]"

text \<open>\<open>str::split\<close>, \<open>str::split_once\<close>, \<open>str::rfind\<close> of an ASCII character, and joining.\<close>

fun split_on :: "'a \<Rightarrow> 'a list \<Rightarrow> 'a list list" where
  "split_on c [] = [[]]"
| "split_on c (x # xs) =
    (if x = c then [] # split_on c xs
     else (case split_on c xs of [] \<Rightarrow> [[x]] | p # ps \<Rightarrow> (x # p) # ps))"

fun split_once :: "'a \<Rightarrow> 'a list \<Rightarrow> ('a list \<times> 'a list) option" where
  "split_once c [] = None"
| "split_once c (x # xs) =
    (if x = c then Some ([], xs) else map_option (\<lambda>(a, b). (x # a, b)) (split_once c xs))"

fun rfind :: "'a \<Rightarrow> 'a list \<Rightarrow> nat option" where
  "rfind c [] = None"
| "rfind c (x # xs) =
    (case rfind c xs of Some i \<Rightarrow> Some (Suc i) | None \<Rightarrow> if x = c then Some 0 else None)"

definition prepend_all :: "'a \<Rightarrow> 'a list list \<Rightarrow> 'a list" where
  "prepend_all c ps = concat (map (\<lambda>p. c # p) ps)"

lemma split_on_nonempty [simp]: "split_on c s \<noteq> []"
  by (cases s) (auto split: list.splits)

lemma split_on_plain: "c \<notin> set s \<Longrightarrow> split_on c s = [s]"
  by (induction s) auto

lemma split_on_Cons: "c \<notin> set p \<Longrightarrow> split_on c (p @ c # s) = p # split_on c s"
  by (induction p) auto

text \<open>A string is its first part and, after separators, the others.\<close>

lemma split_on_prepend:
  assumes "c \<notin> set p" "\<forall>q \<in> set ps. c \<notin> set q"
  shows "split_on c (p @ prepend_all c ps) = p # ps"
  using assms
proof (induction ps arbitrary: p)
  case Nil
  then show ?case by (simp add: prepend_all_def split_on_plain)
next
  case (Cons q qs)
  then show ?case by (simp add: prepend_all_def split_on_Cons)
qed

lemma split_on_join: "split_on c s = p # ps \<Longrightarrow> s = p @ prepend_all c ps"
proof (induction s arbitrary: p ps)
  case Nil
  then show ?case by (simp add: prepend_all_def)
next
  case (Cons x s)
  show ?case
  proof (cases "x = c")
    case True
    obtain q qs where q: "split_on c s = q # qs" by (cases "split_on c s") auto
    have "p = []" "ps = q # qs" using Cons.prems True q by simp_all
    then show ?thesis
      using True Cons.IH [OF q] by (simp add: prepend_all_def)
  next
    case False
    obtain q qs where q: "split_on c s = q # qs" by (cases "split_on c s") auto
    from Cons.IH [OF q] Cons.prems False q show ?thesis by auto
  qed
qed

lemma split_on_parts: "p \<in> set (split_on c s) \<Longrightarrow> c \<notin> set p"
  by (induction s arbitrary: p) (auto split: if_splits list.splits)

lemma split_once_append: "c \<notin> set a \<Longrightarrow> split_once c (a @ c # b) = Some (a, b)"
  by (induction a) auto

lemma split_once_Some: "split_once c s = Some (a, b) \<Longrightarrow> s = a @ c # b \<and> c \<notin> set a"
  by (induction s arbitrary: a) (auto split: if_splits)

lemma rfind_None: "rfind c s = None \<longleftrightarrow> c \<notin> set s"
  by (induction s) (auto split: option.splits)

lemma rfind_append: "c \<notin> set b \<Longrightarrow> rfind c (a @ c # b) = Some (length a)"
proof (induction a)
  case Nil
  then have "rfind c b = None" by (simp add: rfind_None)
  then show ?case by simp
qed simp

lemma rfind_Some: "rfind c s = Some i \<Longrightarrow> i < length s \<and> s ! i = c \<and> c \<notin> set (drop (Suc i) s)"
proof (induction s arbitrary: i)
  case (Cons x s)
  then show ?case
    by (cases "rfind c s") (auto simp: rfind_None split: if_splits)
qed simp

text \<open>\<open>str::trim\<close>: the characters of the Unicode property \<open>White_Space\<close>, as their octets.\<close>

definition white_space :: "string list" where
  "white_space = map (map char_of)
    ([[9], [10], [11], [12], [13], [32], [0xC2, 0x85], [0xC2, 0xA0], [0xE1, 0x9A, 0x80],
      [0xE2, 0x80, 0x80], [0xE2, 0x80, 0x81], [0xE2, 0x80, 0x82], [0xE2, 0x80, 0x83],
      [0xE2, 0x80, 0x84], [0xE2, 0x80, 0x85], [0xE2, 0x80, 0x86], [0xE2, 0x80, 0x87],
      [0xE2, 0x80, 0x88], [0xE2, 0x80, 0x89], [0xE2, 0x80, 0x8A], [0xE2, 0x80, 0xA8],
      [0xE2, 0x80, 0xA9], [0xE2, 0x80, 0xAF], [0xE2, 0x81, 0x9F], [0xE3, 0x80, 0x80]] :: nat list list)"

definition starts_with :: "'a list \<Rightarrow> 'a list \<Rightarrow> bool" where
  "starts_with w s \<longleftrightarrow> take (length w) s = w"

definition ends_with :: "'a list \<Rightarrow> 'a list \<Rightarrow> bool" where
  "ends_with w s \<longleftrightarrow> length w \<le> length s \<and> drop (length s - length w) s = w"

text \<open>A visible ASCII character is neither the first nor the last octet of a white space.\<close>

definition visible :: "char \<Rightarrow> bool" where
  "visible c \<longleftrightarrow> 32 < (of_char c :: nat) \<and> (of_char c :: nat) < 127"

lemma white_space_ends:
  "list_all (\<lambda>w. w \<noteq> [] \<and> \<not> visible (hd w) \<and> \<not> visible (last w)) white_space"
  by (simp add: white_space_def visible_def)

lemma find_white_space: "find P white_space = Some w \<Longrightarrow> P w \<and> w \<noteq> []"
  using white_space_ends by (auto simp: find_Some_iff list_all_iff)

function trim_start :: "string \<Rightarrow> string" where
  "trim_start s = (case find (\<lambda>w. starts_with w s) white_space of
     None \<Rightarrow> s | Some w \<Rightarrow> trim_start (drop (length w) s))"
  by pat_completeness auto
termination
proof (relation "measure length")
  fix s :: string and w
  assume "find (\<lambda>w. starts_with w s) white_space = Some w"
  then have "take (length w) s = w" "w \<noteq> []"
    using find_white_space [of "\<lambda>w. starts_with w s" w] by (simp_all add: starts_with_def)
  then have "s \<noteq> []" "w \<noteq> []" by auto
  then show "(drop (length w) s, s) \<in> measure length" by simp
qed simp

function trim_end :: "string \<Rightarrow> string" where
  "trim_end s = (case find (\<lambda>w. ends_with w s) white_space of
     None \<Rightarrow> s | Some w \<Rightarrow> trim_end (take (length s - length w) s))"
  by pat_completeness auto
termination
proof (relation "measure length")
  fix s :: string and w
  assume "find (\<lambda>w. ends_with w s) white_space = Some w"
  then have "w \<noteq> []" "length w \<le> length s"
    using find_white_space [of "\<lambda>w. ends_with w s" w] by (simp_all add: ends_with_def)
  then have "0 < length w" "length w \<le> length s" by simp_all
  then have "length s - length w < length s" by linarith
  then show "(take (length s - length w) s, s) \<in> measure length" by simp
qed simp

declare trim_start.simps [simp del] trim_end.simps [simp del]

definition trim :: "string \<Rightarrow> string" where
  "trim s = trim_end (trim_start s)"

lemma trim_visible:
  assumes "s = [] \<or> visible (hd s) \<and> visible (last s)"
  shows "trim s = s"
proof -
  have a: "s \<noteq> [] \<and> hd s = hd w" if "starts_with w s" "w \<noteq> []" for w
    using that by (cases s; cases w) (auto simp: starts_with_def)
  have b: "s \<noteq> [] \<and> last s = last w" if "ends_with w s" "w \<noteq> []" for w
  proof -
    have "s = take (length s - length w) s @ w"
      using that(1) append_take_drop_id [of "length s - length w" s] by (simp add: ends_with_def)
    then show ?thesis using that(2) by (metis append_is_Nil_conv last_append)
  qed
  have none: "find P white_space = None" if "\<And>w. P w \<Longrightarrow> w \<noteq> [] \<Longrightarrow> visible (hd w) \<or> visible (last w)" for P
    using that white_space_ends by (auto simp: find_None_iff list_all_iff)
  have "find (\<lambda>w. starts_with w s) white_space = None" "find (\<lambda>w. ends_with w s) white_space = None"
    by (rule none; use a b assms in metis)+
  then show ?thesis by (simp add: trim_def trim_start.simps [of s] trim_end.simps [of s])
qed

text \<open>\<open>Display\<close> of an unsigned integer: decimal without leading zeros.\<close>

fun show_nat :: "nat \<Rightarrow> string" where
  "show_nat n = (if n < 10 then [char_of (48 + n)]
     else show_nat (n div 10) @ [char_of (48 + n mod 10)])"

declare show_nat.simps [simp del]

text \<open>The decimal form of an \<open>i64\<close>.\<close>

definition show_i64 :: "u64 \<Rightarrow> string" where
  "show_i64 v = (if sint v < 0 then ''-'' @ show_nat (nat (- sint v)) else show_nat (nat (sint v)))"

text \<open>The decimal form of an integer, and a hexadecimal digit.\<close>

definition show_int :: "int \<Rightarrow> string" where
  "show_int i = (if i < 0 then ''-'' @ show_nat (nat (- i)) else show_nat (nat i))"

definition hex_digit :: "nat \<Rightarrow> char" where
  "hex_digit n = ''0123456789ABCDEF'' ! n"

definition or_else :: "'a option \<Rightarrow> 'a option \<Rightarrow> 'a option" where
  "or_else a b = (case a of Some x \<Rightarrow> Some x | None \<Rightarrow> b)"

lemma or_else_simps [simp]: "or_else (Some x) b = Some x" "or_else None b = b" "or_else a None = a"
  "or_else (or_else a b) c = or_else a (or_else b c)"
  by (cases a; simp add: or_else_def)+

lemma length_concat_member: "x \<in> set xs \<Longrightarrow> length x \<le> length (concat xs)"
  by (induction xs) auto

lemma digit_chars: "char_of (48 :: nat) = CHR ''0''" "char_of (49 :: nat) = CHR ''1''" "char_of (50 :: nat) = CHR ''2''"
  "char_of (51 :: nat) = CHR ''3''" "char_of (52 :: nat) = CHR ''4''" "char_of (53 :: nat) = CHR ''5''"
  "char_of (54 :: nat) = CHR ''6''" "char_of (55 :: nat) = CHR ''7''" "char_of (56 :: nat) = CHR ''8''"
  "char_of (57 :: nat) = CHR ''9''"
  by (simp_all add: char_of_def bit_0)

section \<open>Evaluation\<close>

lemma be_bytes_numeral [evals]:
  "be_bytes (numeral k) v = word_of_nat (v div 256 ^ pred_numeral k) # be_bytes (pred_numeral k) v"
  by (simp add: numeral_eq_Suc)

lemmas prelude_evals [evals] = to_be_def from_be_def to_le_def from_le_def shl8_or_def be_acc_def
  get_at_def get_range_def get_from_def as_bytes_def byte_of_char_def char_of_byte_def str_ok_def
  from_utf8_def utf8_valid.simps Let_def

end
