(* ===== verification/BerTagLength.thy ===== *)
theory BerTagLength imports Prelude begin

text \<open>
  BER identifiers and lengths: \<open>crates/iec61850-ber/src/error.rs\<close>, \<open>ber/length.rs\<close> and
  \<open>ber/tag.rs\<close>. A \<open>usize\<close> is a natural number (64-bit target; the bound is written out where
  the code checks it), a tag number a 32-bit word. The lemmas give the round trips of both
  encodings in front of arbitrary further octets, the exact size of an encoded length, and the
  bound that keeps the five-octet stack of \<open>Tag::encode\<close> in range.
\<close>

section \<open>Errors\<close>

text \<open>\<open>UnexpectedTag\<close> carries the expected and the found tag as text, as the code does;
  \<open>BerStructure\<close> is \<open>BerError::Structure\<close>.\<close>

datatype ber_error =
    UnexpectedEof
  | IndefiniteLength
  | LengthOverflow
  | UnexpectedTag string string
  | BadInteger
  | BadBool
  | BadOid
  | BadString
  | BadBitString
  | TrailingData
  | BerStructure string
  | DepthExceeded

section \<open>Lengths\<close>

definition usize_limit :: nat where
  "usize_limit = 2 ^ 64"

text \<open>\<open>bytes.iter().position(|&b| b != 0).unwrap_or(bytes.len() - 1)\<close>.\<close>

definition first_nonzero :: "bytes \<Rightarrow> nat" where
  "first_nonzero bs =
    (let k = length (takeWhile (\<lambda>b. b = 0) bs)
     in if k < length bs then k else length bs - 1)"

definition encode_len :: "nat \<Rightarrow> bytes" where
  "encode_len len =
    (if len < 0x80 then [word_of_nat len]
     else let bs = be_bytes 8 len;
              significant = drop (first_nonzero bs) bs
          in (0x80 OR word_of_nat (length significant)) # significant)"

definition len_encoded_size :: "nat \<Rightarrow> nat" where
  "len_encoded_size len =
    (if len < 0x80 then 1
     else let bs = be_bytes 8 len in 1 + (length bs - first_nonzero bs))"

text \<open>The loop of \<open>decode_len\<close>: \<open>n\<close> further octets are accumulated; a missing one is an
  error.\<close>

fun decode_len_loop :: "bytes \<Rightarrow> nat \<Rightarrow> nat \<Rightarrow> u64 \<Rightarrow> ber_error + u64" where
  "decode_len_loop data i 0 acc = Inr acc"
| "decode_len_loop data i (Suc n) acc =
    bindE (ok_or UnexpectedEof (get_at data (1 + i)))
      (\<lambda>b. decode_len_loop data (Suc i) n (shl8_or acc b))"

definition decode_len :: "bytes \<Rightarrow> ber_error + nat \<times> nat" where
  "decode_len data =
    bindE (ok_or UnexpectedEof (get_at data 0)) (\<lambda>first.
      if first < 0x80 then Inr (unat first, 1)
      else if first = 0x80 then Inl IndefiniteLength
      else let n = unat (first AND 0x7F)
           in if n > 8 then Inl LengthOverflow
              else bindE (decode_len_loop data 0 n 0) (\<lambda>len. Inr (unat len, 1 + n)))"

lemma first_nonzero_le: "first_nonzero bs \<le> length (takeWhile (\<lambda>b. b = 0) bs)"
  using length_takeWhile_le [of "\<lambda>b. b = 0" bs] by (simp add: first_nonzero_def Let_def)

lemma first_nonzero_less: "bs \<noteq> [] \<Longrightarrow> first_nonzero bs < length bs"
  by (auto simp: first_nonzero_def Let_def)

lemma be_nat_zeros: "\<forall>z \<in> set zs. z = 0 \<Longrightarrow> be_nat (zs @ bs) = be_nat bs"
  by (induction zs) auto

lemma take_zeros:
  assumes "j \<le> length (takeWhile (\<lambda>b. b = 0) bs)"
  shows "\<forall>z \<in> set (take j bs). z = (0 :: u8)"
proof -
  have "take j (takeWhile (\<lambda>b. b = 0) bs) = take j bs"
    using assms by (subst takeWhile_eq_take) (simp add: min_def)
  then have "set (take j bs) \<subseteq> set (takeWhile (\<lambda>b. b = 0) bs)"
    by (metis set_take_subset)
  then show ?thesis
    by (meson set_takeWhileD subsetD)
qed

lemma be_nat_significant: "be_nat (drop (first_nonzero bs) bs) = be_nat bs"
  using be_nat_zeros [OF take_zeros [OF first_nonzero_le [of bs]], of "drop (first_nonzero bs) bs"]
  by simp

lemma decode_len_loop_append:
  "decode_len_loop (h # pre @ sig @ rest) (length pre) (length sig) acc = Inr (be_acc acc sig)"
proof (induction sig arbitrary: pre acc)
  case Nil
  then show ?case by (simp add: be_acc_def)
next
  case (Cons b sig)
  have "get_at (h # pre @ (b # sig) @ rest) (1 + length pre) = Some b"
    by (simp add: get_at_def nth_append)
  then show ?case
    using Cons.IH [of "pre @ [b]"] by (simp add: be_acc_def)
qed

lemma long_form_octet:
  assumes "1 \<le> n" "n \<le> 8"
  shows "unat ((0x80 OR word_of_nat n :: u8) AND 0x7F) = n"
    and "(0x80 OR word_of_nat n :: u8) \<noteq> 0x80" "\<not> (0x80 OR word_of_nat n :: u8) < 0x80"
proof -
  have "n \<in> {1, 2, 3, 4, 5, 6, 7, 8}"
    using assms by auto
  then show "unat ((0x80 OR word_of_nat n :: u8) AND 0x7F) = n"
    and "(0x80 OR word_of_nat n :: u8) \<noteq> 0x80" "\<not> (0x80 OR word_of_nat n :: u8) < 0x80"
    by auto
qed

lemma length_encode_len: "length (encode_len len) = len_encoded_size len"
  by (simp add: encode_len_def len_encoded_size_def Let_def)

lemma len_encoded_size_bounds: "1 \<le> len_encoded_size len" "len_encoded_size len \<le> 9"
  by (simp_all add: len_encoded_size_def Let_def)

text \<open>Decoding what \<open>encode_len\<close> wrote, whatever follows, gives the length back and consumes
  exactly the written octets.\<close>

lemma decode_encode_len [wire]:
  assumes "len < usize_limit"
  shows "decode_len (encode_len len @ rest) = Inr (len, length (encode_len len))"
proof (cases "len < 0x80")
  case True
  then have "unat (word_of_nat len :: u8) = len" "(word_of_nat len :: u8) < 0x80"
    by (simp_all add: word_less_nat_alt)
  with True show ?thesis
    by (simp add: encode_len_def decode_len_def)
next
  case False
  define bs where "bs = be_bytes 8 len"
  define sig where "sig = drop (first_nonzero bs) bs"
  have len8: "length bs = 8" by (simp add: bs_def)
  then have "bs \<noteq> []" by auto
  then have n: "1 \<le> length sig" "length sig \<le> 8"
    using first_nonzero_less [of bs] len8 by (auto simp: sig_def)
  have val: "be_nat sig = len"
    using assms unfolding sig_def be_nat_significant bs_def usize_limit_def
    by (subst be_nat_be_bytes_id) auto
  have enc: "encode_len len = (0x80 OR word_of_nat (length sig)) # sig"
    using False by (simp add: encode_len_def Let_def bs_def sig_def)
  have "unat (be_acc 0 sig :: u64) = len"
    using assms val by (simp add: be_acc_0 usize_limit_def unat_of_nat)
  then show ?thesis
    using n long_form_octet [of "length sig"]
      decode_len_loop_append [of "0x80 OR word_of_nat (length sig)" "[]" sig rest 0]
    by (simp add: enc decode_len_def)
qed

section \<open>Tags\<close>

datatype tag_class = Universal | Application | Context | Private

fun class_bits :: "tag_class \<Rightarrow> u8" where
  "class_bits Universal = 0"
| "class_bits Application = 1"
| "class_bits Context = 2"
| "class_bits Private = 3"

definition class_from_bits :: "u8 \<Rightarrow> tag_class" where
  "class_from_bits b =
    (let k = b AND 3 in
     if k = 0 then Universal else if k = 1 then Application
     else if k = 2 then Context else Private)"

fun class_prefix :: "tag_class \<Rightarrow> string" where
  "class_prefix Universal = ''U''"
| "class_prefix Application = ''A''"
| "class_prefix Context = ''C''"
| "class_prefix Private = ''P''"

text \<open>\<open>struct Tag\<close>; the field \<open>class\<close> is \<open>tclass\<close> (a reserved word here).\<close>

record tag =
  tclass :: tag_class
  constructed :: bool
  number :: u32

definition tag_universal :: "u32 \<Rightarrow> bool \<Rightarrow> tag" where
  "tag_universal n c = \<lparr>tclass = Universal, constructed = c, number = n\<rparr>"

definition tag_application :: "u32 \<Rightarrow> bool \<Rightarrow> tag" where
  "tag_application n c = \<lparr>tclass = Application, constructed = c, number = n\<rparr>"

definition tag_context :: "u32 \<Rightarrow> bool \<Rightarrow> tag" where
  "tag_context n c = \<lparr>tclass = Context, constructed = c, number = n\<rparr>"

definition tag_show :: "tag \<Rightarrow> string" where
  "tag_show t = ''['' @ class_prefix (tclass t) @ (if constructed t then ''c'' else ''p'')
     @ show_nat (unat (number t)) @ '']''"

text \<open>The base-128 loop of \<open>Tag::encode\<close> and \<open>push_base128\<close>: the seven-bit groups, lowest
  first, on a stack, then written back in reverse with the continuation bit on all but the
  lowest.\<close>

function base128_stack :: "u32 \<Rightarrow> bytes" where
  "base128_stack v =
    (let v' = drop_bit 7 v
     in ucast (v AND 0x7F) # (if v' = 0 then [] else base128_stack v'))"
  by pat_completeness auto
termination
proof (relation "measure unat")
  fix v v' :: u32
  assume v': "v' = drop_bit 7 v" and "v' \<noteq> 0"
  then have "0 < unat v" by (auto simp: unat_gt_0)
  then have "unat v div 128 < unat v" by simp
  then show "(v', v) \<in> measure unat"
    by (simp add: v' unat_div_distrib drop_bit_eq_div)
qed auto

declare base128_stack.simps [simp del]

definition base128 :: "u32 \<Rightarrow> bytes" where
  "base128 v = (let st = base128_stack v in map (\<lambda>b. b OR 0x80) (rev (tl st)) @ [hd st])"

definition tag_encode :: "tag \<Rightarrow> bytes" where
  "tag_encode t =
    (let first = push_bit 6 (class_bits (tclass t)) OR (if constructed t then 0x20 else 0)
     in if number t < 0x1F then [first OR ucast (number t)]
        else (first OR 0x1F) # base128 (number t))"

text \<open>The multi-octet loop of \<open>Tag::decode\<close>. \<open>checked_shl(7)\<close> tests the shift distance, not the
  result: on \<open>u32\<close> it is never \<open>None\<close> for 7, and the bits shifted out are lost.\<close>

definition checked_shl :: "u32 \<Rightarrow> nat \<Rightarrow> u32 option" where
  "checked_shl v k = (if k < 32 then Some (push_bit k v) else None)"

fun tag_loop :: "bytes \<Rightarrow> u32 \<Rightarrow> nat \<Rightarrow> ber_error + u32 \<times> nat" where
  "tag_loop [] n i = Inl UnexpectedEof"
| "tag_loop (b # bs) n i =
    bindE (ok_or LengthOverflow (checked_shl n 7)) (\<lambda>m.
      let n' = m OR ucast (b AND 0x7F)
      in if b AND 0x80 = 0 then Inr (n', i + 1) else tag_loop bs n' (i + 1))"

definition tag_decode :: "bytes \<Rightarrow> ber_error + tag \<times> nat" where
  "tag_decode data =
    bindE (ok_or UnexpectedEof (get_at data 0)) (\<lambda>first.
      let cls = class_from_bits (drop_bit 6 first);
          cons = (first AND 0x20 \<noteq> 0);
          low = first AND 0x1F
      in if low \<noteq> 0x1F then Inr (\<lparr>tclass = cls, constructed = cons, number = ucast low\<rparr>, 1)
         else bindE (tag_loop (drop 1 data) 0 1)
                (\<lambda>(n, i). Inr (\<lparr>tclass = cls, constructed = cons, number = n\<rparr>, i)))"

lemma base128_stack_nonempty [simp]: "base128_stack v \<noteq> []"
  by (subst base128_stack.simps) (simp add: Let_def)

lemma base128_stack_octets: "b \<in> set (base128_stack v) \<Longrightarrow> b < 0x80"
proof (induction v rule: base128_stack.induct)
  case (1 v)
  have "ucast (v AND 0x7F) < (0x80 :: u8)"
    by (simp add: word_less_nat_alt and_0x7F unat_take_bit_word unat_ucast_mod)
  with 1 show ?case
    by (subst (asm) base128_stack.simps) (auto simp: Let_def split: if_splits)
qed

text \<open>The stack of \<open>Tag::encode\<close> has five octets: no index is out of range.\<close>

lemma base128_stack_length_aux: "unat v < 128 ^ Suc k \<Longrightarrow> length (base128_stack v) \<le> Suc k"
proof (induction k arbitrary: v)
  case 0
  then have "drop_bit 7 v = 0"
    by (simp add: word_unat_eq_iff drop_bit_eq_div unat_div_distrib)
  then show ?case by (subst base128_stack.simps) simp
next
  case (Suc k)
  have "unat (drop_bit 7 v) < 128 ^ Suc k"
    using Suc.prems by (simp add: drop_bit_eq_div unat_div_distrib less_mult_imp_div_less mult.commute)
  then have "length (base128_stack (drop_bit 7 v)) \<le> Suc k" by (rule Suc.IH)
  then show ?case by (subst base128_stack.simps) (simp add: Let_def)
qed

lemma base128_stack_length: "length (base128_stack v) \<le> 5"
proof -
  have "unat v < 128 ^ Suc 4"
    using unsigned_less [of v, where ?'a = nat] by simp
  then show ?thesis
    using base128_stack_length_aux [of v 4] by simp
qed

text \<open>Reading the groups back, highest first.\<close>

lemma foldl_shl7_stack: "foldl shl7_or n (rev (base128_stack v)) = n * 128 ^ length (base128_stack v) + v"
proof (induction v arbitrary: n rule: base128_stack.induct)
  case (1 v)
  have low: "ucast (ucast (v AND 0x7F) AND 0x7F :: u8) = take_bit 7 v"
    by (simp add: and_0x7F word_unat_eq_iff unat_take_bit_word unat_ucast_mod)
  show ?case
  proof (cases "drop_bit 7 v = 0")
    case True
    then have "take_bit 7 v = v"
      using bits_ident [of 7 v] by simp
    with True low show ?thesis
      by (subst (1 2) base128_stack.simps) (simp add: Let_def shl7_or_add)
  next
    case False
    have "push_bit 7 (drop_bit 7 v) + take_bit 7 v = v"
      by (rule bits_ident)
    then have "drop_bit 7 v * 128 + take_bit 7 v = v"
      by (simp add: push_bit_eq_mult)
    moreover have "base128_stack v = ucast (v AND 0x7F) # base128_stack (drop_bit 7 v)"
      using False by (subst base128_stack.simps) (simp add: Let_def)
    ultimately show ?thesis
      using low by (simp add: "1.IH" [OF refl False] shl7_or_add [of _ "ucast (v AND 0x7F)"] algebra_simps)
  qed
qed


lemma tag_loop_cont:
  "\<forall>b \<in> set hs. b AND 0x80 \<noteq> 0 \<Longrightarrow>
    tag_loop (hs @ rest) n i = tag_loop rest (foldl shl7_or n hs) (i + length hs)"
  by (induction hs arbitrary: n i) (auto simp: checked_shl_def shl7_or_def Let_def)

lemma foldl_shl7_cont:
  "\<forall>b \<in> set hs. b < 0x80 \<Longrightarrow> foldl shl7_or n (map (\<lambda>b. b OR 0x80) hs) = foldl shl7_or n hs"
  by (induction hs arbitrary: n) (auto simp: shl7_or_def u8_set_msb u8_and_low)

lemma tag_loop_base128: "tag_loop (base128 v @ rest) 0 i = Inr (v, i + length (base128 v))"
proof -
  obtain lo hs where st: "base128_stack v = lo # hs"
    by (cases "base128_stack v") auto
  then have lt: "lo < 0x80" "\<forall>b \<in> set (rev hs). b < 0x80"
    using base128_stack_octets [of _ v] by auto
  have "foldl shl7_or 0 (rev (lo # hs)) = v"
    using foldl_shl7_stack [of 0 v] st by simp
  then have v: "shl7_or (foldl shl7_or 0 (rev hs)) lo = v"
    by simp
  have "\<forall>b \<in> set (map (\<lambda>b. b OR 0x80) (rev hs)). b AND 0x80 \<noteq> 0"
    using u8_set_msb(2) by auto
  then have "tag_loop (base128 v @ rest) 0 i =
      tag_loop (lo # rest) (foldl shl7_or 0 (rev hs)) (i + length hs)"
    by (simp add: base128_def st tag_loop_cont foldl_shl7_cont [OF lt(2)] del: tag_loop.simps)
  then show ?thesis
    using lt v by (simp add: base128_def st checked_shl_def u8_and_msb shl7_or_def)
qed

lemma base128_nonempty [simp]: "base128 v \<noteq> []"
  by (simp add: base128_def Let_def)

lemma length_base128: "1 \<le> length (base128 v)" "length (base128 v) \<le> 5"
  using base128_stack_length [of v] by (cases "base128_stack v"; simp add: base128_def)+

text \<open>The identifier octet: class, form and low number are read back from their bits.\<close>

definition first_octet :: "tag_class \<Rightarrow> bool \<Rightarrow> u8 \<Rightarrow> u8" where
  "first_octet c k low = push_bit 6 (class_bits c) OR (if k then 0x20 else 0) OR low"

lemma low_octet:
  assumes "(low :: u8) < 0x20"
  shows "low AND 0x1F = low" "low AND 0x20 = 0" "drop_bit 6 low = 0"
proof -
  have l5: "take_bit 5 low = low"
    using assms by (simp add: word_unat_eq_iff unat_take_bit_word word_less_nat_alt)
  have "low AND mask 5 = low"
    using l5 by (simp add: take_bit_eq_mask)
  then show "low AND 0x1F = low" by (simp add: mask_numeral)
  have "\<not> bit low 5"
    using l5 by (metis bit_take_bit_iff less_irrefl)
  then have "low AND 2 ^ 5 = 0" by (simp only: and_exp_eq_0_iff_not_bit simp_thms)
  then show "low AND 0x20 = 0" by simp
  show "drop_bit 6 low = 0"
    using assms by (simp add: word_unat_eq_iff drop_bit_eq_div unat_div_distrib word_less_nat_alt)
qed

lemma first_octet_fields:
  assumes "low < 0x20"
  shows "first_octet c k low AND 0x1F = low"
    and "first_octet c k low AND 0x20 \<noteq> 0 \<longleftrightarrow> k"
    and "class_from_bits (drop_bit 6 (first_octet c k low)) = c"
  unfolding first_octet_def bit.conj_disj_distrib2 drop_bit_or low_octet [OF assms]
  by (cases c; cases k; simp add: class_from_bits_def)+

text \<open>\<open>Tag::decode\<close> inverts \<open>Tag::encode\<close>, whatever follows.\<close>

lemma tag_decode_encode [wire]: "tag_decode (tag_encode t @ rest) = Inr (t, length (tag_encode t))"
proof (cases "number t < 0x1F")
  case True
  define low :: u8 where "low = ucast (number t)"
  have n: "unat low = unat (number t)" and "unat low < 0x1F"
    using True by (simp_all add: low_def unat_ucast_mod word_less_nat_alt)
  then have "low < 0x20" "low \<noteq> 0x1F" "ucast low = number t"
    by (auto simp: word_less_nat_alt word_unat_eq_iff unat_ucast_mod)
  moreover have "tag_encode t = [first_octet (tclass t) (constructed t) low]"
    using True by (simp add: tag_encode_def first_octet_def low_def or.assoc)
  ultimately show ?thesis
    by (simp add: tag_decode_def first_octet_fields)
next
  case False
  have "tag_encode t = first_octet (tclass t) (constructed t) 0x1F # base128 (number t)"
    using False by (simp add: tag_encode_def first_octet_def or.assoc)
  then show ?thesis
    by (simp add: tag_decode_def tag_loop_base128 first_octet_fields)
qed

lemma length_tag_encode: "1 \<le> length (tag_encode t)" "length (tag_encode t) \<le> 6"
  using length_base128 [of "number t"] by (auto simp: tag_encode_def Let_def)

lemma tag_encode_nonempty [simp]: "tag_encode t \<noteq> []"
  by (simp add: tag_encode_def Let_def)

text \<open>What a successful decode consumed was there, so the rest of a slice starts in range.\<close>

lemma tag_loop_consumed:
  "tag_loop bs n i = Inr (m, j) \<Longrightarrow> i < j \<and> j \<le> i + length bs"
  by (induction bs arbitrary: n i) (fastforce simp: bindE_Inr_iff Let_def split: if_splits)+

lemma tag_decode_consumed:
  "tag_decode data = Inr (t, n) \<Longrightarrow> 1 \<le> n \<and> n \<le> length data"
  by (cases data) (auto simp: tag_decode_def bindE_Inr_iff Let_def split: if_splits
      dest!: tag_loop_consumed)

lemma tag_loop_no_overflow: "tag_loop bs n i \<noteq> Inl LengthOverflow"
  by (induction bs arbitrary: n i) (auto simp: checked_shl_def Let_def)

lemma decode_len_loop_ok:
  "decode_len_loop data i n acc = Inr v \<Longrightarrow> n = 0 \<or> i + n < length data"
proof (induction n arbitrary: i acc)
  case 0
  then show ?case by simp
next
  case (Suc n)
  then show ?case
    by (fastforce simp: bindE_Inr_iff get_at_def split: if_splits)
qed

lemma decode_len_consumed:
  "decode_len data = Inr (v, n) \<Longrightarrow> 1 \<le> n \<and> n \<le> length data \<and> v < usize_limit"
proof -
  assume a: "decode_len data = Inr (v, n)"
  have u: "unat (x :: u64) < usize_limit" for x
    using unsigned_less [of x, where ?'a = nat] by (simp add: usize_limit_def)
  have o: "unat (b :: u8) < usize_limit" for b
    using unat_u8_less [of b] unfolding usize_limit_def by (rule less_trans) simp
  from a show ?thesis
    by (cases data) (auto simp: decode_len_def bindE_Inr_iff Let_def u o split: if_splits
        dest!: decode_len_loop_ok)
qed

lemmas ber_tag_length_evals [evals] = encode_len_def len_encoded_size_def first_nonzero_def
  decode_len_def tag_encode_def tag_decode_def class_from_bits_def tag_universal_def
  tag_context_def tag_application_def checked_shl_def usize_limit_def

section \<open>Properties\<close>

text \<open>A BER length up to the \<open>usize\<close> range round-trips in front of any octets, and the encoder
  uses the size \<open>len_encoded_size\<close> announces.\<close>

theorem length_roundtrip:
  assumes "len < usize_limit"
  shows "decode_len (encode_len len @ rest) = Inr (len, len_encoded_size len)"
  using decode_encode_len [OF assms] by (simp add: length_encode_len)

text \<open>Every tag round-trips in front of any octets, in at most six octets.\<close>

theorem tag_roundtrip:
  "tag_decode (tag_encode t @ rest) = Inr (t, length (tag_encode t)) \<and> length (tag_encode t) \<le> 6"
  by (simp add: wire length_tag_encode)
end
