(* ===== verification/BerPrim.thy ===== *)
theory BerPrim imports BerTagLength begin

text \<open>
  The contents of the primitive BER types MMS uses: \<open>crates/iec61850-ber/src/ber/prim.rs\<close>.
  \<open>i64\<close> and \<open>u64\<close> are 64-bit words; the loops that drop redundant leading octets are recursive
  functions on the octet list. The lemmas show that every decoder inverts its encoder and that
  \<open>encode_integer\<close> leaves no redundant octet.
\<close>

section \<open>Bit strings\<close>

record bit_string =
  unused_bits :: u8
  bs_bytes :: bytes

definition set_bit_msb :: "bytes \<Rightarrow> nat \<Rightarrow> bytes" where
  "set_bit_msb bs i = bs[i div 8 := (bs ! (i div 8)) OR drop_bit (i mod 8) 0x80]"

definition div_ceil :: "nat \<Rightarrow> nat \<Rightarrow> nat" where
  "div_ceil n d = (n + d - 1) div d"

definition bits_from :: "bool list \<Rightarrow> bit_string" where
  "bits_from bits =
    (let nbytes = div_ceil (length bits) 8;
         bs = foldl (\<lambda>acc (i, bit). if bit then set_bit_msb acc i else acc)
                (replicate nbytes 0) (enumerate 0 bits)
     in \<lparr>unused_bits = word_of_nat (nbytes * 8 - length bits), bs_bytes = bs\<rparr>)"

definition bs_bit :: "bit_string \<Rightarrow> nat \<Rightarrow> bool" where
  "bs_bit b i = (case get_at (bs_bytes b) (i div 8) of
      None \<Rightarrow> False
    | Some x \<Rightarrow> x AND drop_bit (i mod 8) 0x80 \<noteq> 0)"

text \<open>\<open>len_bits\<close> subtracts two \<open>usize\<close> values: \<open>None\<close> is the overflow of that subtraction.\<close>

definition len_bits :: "bit_string \<Rightarrow> nat option" where
  "len_bits b =
    (if unat (unused_bits b) \<le> length (bs_bytes b) * 8
     then Some (length (bs_bytes b) * 8 - unat (unused_bits b)) else None)"

section \<open>Integers\<close>

fun strip_int :: "bytes \<Rightarrow> bytes" where
  "strip_int (a # b # bs) =
    (if (a = 0x00 \<and> b AND 0x80 = 0) \<or> (a = 0xFF \<and> b AND 0x80 \<noteq> 0)
     then strip_int (b # bs) else a # b # bs)"
| "strip_int bs = bs"

definition encode_integer :: "u64 \<Rightarrow> bytes" where
  "encode_integer v = strip_int (to_be v)"

text \<open>\<open>(content[0] as i8) as i64\<close> is the sign extension \<open>scast\<close>.\<close>

definition decode_integer :: "bytes \<Rightarrow> ber_error + u64" where
  "decode_integer content =
    (case content of
       [] \<Rightarrow> Inl BadInteger
     | b # bs \<Rightarrow> if length content > 8 then Inl BadInteger else Inr (be_acc (scast b) bs))"

fun strip_zeros :: "bytes \<Rightarrow> bytes" where
  "strip_zeros (a # b # bs) = (if a = 0 then strip_zeros (b # bs) else a # b # bs)"
| "strip_zeros bs = bs"

definition encode_unsigned :: "u64 \<Rightarrow> bytes" where
  "encode_unsigned v =
    (if v = 0 then [0]
     else let bs = strip_zeros (to_be v)
          in if hd bs AND 0x80 \<noteq> 0 then 0 # bs else bs)"

definition decode_unsigned :: "bytes \<Rightarrow> ber_error + u64" where
  "decode_unsigned content =
    (case content of
       [] \<Rightarrow> Inl BadInteger
     | b # bs \<Rightarrow>
       let trimmed = (if b = 0 \<and> length content > 1 then bs else content)
       in if length trimmed > 8 then Inl LengthOverflow else Inr (be_acc 0 trimmed))"

section \<open>Booleans and strings\<close>

definition encode_bool :: "bool \<Rightarrow> bytes" where
  "encode_bool v = [if v then 0xFF else 0x00]"

fun decode_bool :: "bytes \<Rightarrow> ber_error + bool" where
  "decode_bool [b] = Inr (b \<noteq> 0)"
| "decode_bool _ = Inl BadBool"

definition decode_visible_string :: "bytes \<Rightarrow> ber_error + string" where
  "decode_visible_string content = ok_or BadString (from_utf8 content)"

section \<open>Object identifiers\<close>

text \<open>\<open>encode_oid\<close> asserts that there are two arcs (\<open>None\<close> is the panic); \<open>arcs[0] * 40 + arcs[1]\<close>
  is 32-bit arithmetic, which wraps in a release build.\<close>

definition encode_oid :: "u32 list \<Rightarrow> bytes option" where
  "encode_oid arcs =
    (case arcs of
       a # b # rest \<Rightarrow> Some (base128 (a * 40 + b) @ concat (map base128 rest))
     | _ \<Rightarrow> None)"

fun oid_loop :: "bytes \<Rightarrow> u32 \<Rightarrow> bool \<Rightarrow> u32 list \<Rightarrow> ber_error + u32 list" where
  "oid_loop [] acc started subids = (if started then Inl BadOid else Inr subids)"
| "oid_loop (b # bs) acc started subids =
    bindE (ok_or BadOid (checked_shl acc 7)) (\<lambda>m.
      let acc' = m OR ucast (b AND 0x7F)
      in if b AND 0x80 = 0 then oid_loop bs 0 False (subids @ [acc'])
         else oid_loop bs acc' True subids)"

definition decode_oid :: "bytes \<Rightarrow> ber_error + u32 list" where
  "decode_oid content =
    (if content = [] then Inl BadOid
     else bindE (oid_loop content 0 False []) (\<lambda>subids.
       let first = hd subids;
           (a, b) = (if first < 40 then (0, first)
                     else if first < 80 then (1, first - 40)
                     else (2, first - 80))
       in Inr (a # b # tl subids)))"

section \<open>Facts\<close>

lemma drop_0x80: "k < 8 \<Longrightarrow> drop_bit k (0x80 :: u8) = 2 ^ (7 - k)"
proof -
  assume "k < 8"
  then have "k \<in> {0, 1, 2, 3, 4, 5, 6, 7}" by auto
  then show ?thesis by (auto simp: drop_bit_eq_div)
qed

lemma and_drop_0x80: "k < 8 \<Longrightarrow> (x :: u8) AND drop_bit k 0x80 \<noteq> 0 \<longleftrightarrow> bit x (7 - k)"
  by (simp add: drop_0x80 and_exp_eq_0_iff_not_bit del: power_numeral)

definition bit_msb :: "bytes \<Rightarrow> nat \<Rightarrow> bool" where
  "bit_msb bs i \<longleftrightarrow> i div 8 < length bs \<and> bit (bs ! (i div 8)) (7 - i mod 8)"

lemma bs_bit_msb: "bs_bit b i = bit_msb (bs_bytes b) i"
  by (auto simp: bs_bit_def bit_msb_def get_at_def and_drop_0x80)

lemma bit_msb_set:
  assumes "i div 8 < length bs"
  shows "bit_msb (set_bit_msb bs i) j \<longleftrightarrow> j = i \<or> bit_msb bs j"
proof -
  have "7 - j mod 8 = 7 - i mod 8 \<longleftrightarrow> j mod 8 = i mod 8"
    using mod_less_divisor [of 8 i] mod_less_divisor [of 8 j] by arith
  moreover have "j = i \<longleftrightarrow> j div 8 = i div 8 \<and> j mod 8 = i mod 8"
    by (metis div_mod_decomp)
  ultimately show ?thesis
    using assms by (auto simp: bit_msb_def set_bit_msb_def drop_0x80 bit_simps nth_list_update)
qed
lemma scast_u8: "(scast (b :: u8) :: u64) = (if b < 0x80 then ucast b else ucast b - 256)"
proof -
  have "sint b = uint b - 256 * of_bool (bit b 7)"
    using uint_lt2p [of b] uint_ge_0 [of b]
    by (simp add: sint_uint signed_take_bit_eq_take_bit_minus take_bit_int_eq_self bit_unsigned_iff)
  then have "(scast b :: u64) = word_of_int (uint b - 256 * of_bool (bit b 7))"
    by (simp add: scast_eq)
  then show ?thesis
    by (simp add: u8_msb_iff)
qed

definition int_val :: "bytes \<Rightarrow> u64" where
  "int_val bs = be_acc (scast (hd bs)) (tl bs)"

lemma int_val_Cons: "int_val (b # bs) = scast b * 256 ^ length bs + word_of_nat (be_nat bs)"
  by (simp add: int_val_def be_acc_eq)

lemma int_val_extend:
  assumes "s = (if b < 0x80 then 0 else 0xFF)"
  shows "int_val (s # b # bs) = int_val (b # bs)"
proof -
  have "(scast s :: u64) = (if b < 0x80 then 0 else - 1)"
    using assms by (simp add: scast_u8)
  then show ?thesis
    by (simp add: int_val_Cons scast_u8 algebra_simps)
qed

lemma int_val_strip: "int_val (strip_int bs) = int_val bs"
proof (induction bs rule: strip_int.induct)
  case (1 a b bs)
  then show ?case
    using int_val_extend [of a b bs] by (auto simp: u8_and_msb)
qed auto

lemma strip_int_length: "bs \<noteq> [] \<Longrightarrow> strip_int bs \<noteq> [] \<and> length (strip_int bs) \<le> length bs"
  by (induction bs rule: strip_int.induct) auto

lemma decode_integer_alt:
  "decode_integer bs = (if bs = [] \<or> length bs > 8 then Inl BadInteger else Inr (int_val bs))"
  by (cases bs) (auto simp: decode_integer_def int_val_def)

lemma int_val_8: "length bs = 8 \<Longrightarrow> int_val bs = from_be bs"
proof (cases bs)
  case (Cons b cs)
  assume "length bs = 8"
  with Cons have l: "length cs = 7" by simp
  have "(2 :: u64) ^ 64 = 0"
    by (simp only: exp_eq_zero_iff) simp
  then have z: "(256 :: u64) * 256 ^ 7 = 0"
    using power_mult [of "2 :: u64" 8 8] by simp
  have "(scast b :: u64) * 256 ^ 7 = ucast b * 256 ^ 7"
    unfolding scast_u8 by (simp only: left_diff_distrib z if_distrib diff_zero) simp
  then show ?thesis
    by (simp add: Cons int_val_Cons l from_be_def)
qed auto

lemma to_be_from_be_u64: "length bs = 8 \<Longrightarrow> to_be (from_be bs :: u64) = bs"
  using be_nat_bound [of bs] by (intro to_be_from_be) auto

lemma int_val_to_be: "int_val (to_be v) = v"
  by (simp add: int_val_8)

text \<open>Encoding the value of some content strips that content: the encoder's output is the
  shortest content with its value.\<close>

lemma int_val_pad:
  "bs \<noteq> [] \<Longrightarrow> s = (if hd bs < 0x80 then 0 else 0xFF) \<Longrightarrow>
    int_val (replicate k s @ bs) = int_val bs"
proof (induction k)
  case 0
  then show ?case by simp
next
  case (Suc k)
  obtain b cs where c: "replicate k s @ bs = b # cs"
    using Suc.prems by (cases "replicate k s @ bs") auto
  have "b = s \<or> b = hd bs"
    using c by (cases k) auto
  then have "s = (if b < 0x80 then 0 else 0xFF)"
    using Suc.prems(2) by auto
  then have "int_val (s # b # cs) = int_val (b # cs)" by (rule int_val_extend)
  then show ?case using Suc c by simp
qed

lemma strip_int_pad:
  "bs \<noteq> [] \<Longrightarrow> s = (if hd bs < 0x80 then 0 else 0xFF) \<Longrightarrow>
    strip_int (replicate k s @ bs) = strip_int bs"
proof (induction k)
  case 0
  then show ?case by simp
next
  case (Suc k)
  obtain b cs where c: "replicate k s @ bs = b # cs"
    using Suc.prems by (cases "replicate k s @ bs") auto
  have "b = s \<or> b = hd bs"
    using c by (cases k) auto
  then have "(s = 0 \<and> b AND 0x80 = 0) \<or> (s = 0xFF \<and> b AND 0x80 \<noteq> 0)"
    using Suc.prems(2) by (auto simp: u8_and_msb)
  then have "strip_int (s # b # cs) = strip_int (b # cs)" by auto
  then show ?case using Suc c by simp
qed

lemma encode_integer_int_val:
  assumes "bs \<noteq> []" "length bs \<le> 8"
  shows "encode_integer (int_val bs) = strip_int bs"
proof -
  define s :: u8 where "s = (if hd bs < 0x80 then 0 else 0xFF)"
  let ?p = "replicate (8 - length bs) s @ bs"
  have "length ?p = 8" using assms by simp
  then have "to_be (int_val ?p) = ?p"
    by (simp add: int_val_8 to_be_from_be_u64)
  then show ?thesis
    using int_val_pad [OF assms(1) s_def] strip_int_pad [OF assms(1) s_def]
    by (simp add: encode_integer_def)
qed

lemma length_encode_integer: "1 \<le> length (encode_integer v)" "length (encode_integer v) \<le> 8"
  using strip_int_length [of "to_be v"] by (auto simp: encode_integer_def Suc_le_eq)

lemma decode_encode_integer [wire]: "decode_integer (encode_integer v) = Inr v"
  using length_encode_integer [of v]
  by (auto simp: decode_integer_alt) (simp add: encode_integer_def int_val_strip int_val_to_be)

lemma length_set_bit_msb [simp]: "length (set_bit_msb bs i) = length bs"
  by (simp add: set_bit_msb_def)

lemma bits_fold:
  assumes "k + length bits \<le> 8 * length acc"
  shows "(let r = foldl (\<lambda>acc (i, bit). if bit then set_bit_msb acc i else acc) acc (enumerate k bits)
     in length r = length acc \<and>
        (\<forall>j. bit_msb r j \<longleftrightarrow> bit_msb acc j \<or> (k \<le> j \<and> j < k + length bits \<and> bits ! (j - k))))"
  using assms
proof (induction bits arbitrary: k acc)
  case Nil
  then show ?case by auto
next
  case (Cons b bits)
  define acc' where "acc' = (if b then set_bit_msb acc k else acc)"
  have len: "length acc' = length acc" by (simp add: acc'_def)
  have k: "k div 8 < length acc"
    using Cons.prems by (simp add: less_mult_imp_div_less mult.commute)
  have nth: "(b # bits) ! (j - k) = (if j = k then b else bits ! (j - Suc k))" if "k \<le> j" for j
    using that by (auto simp: nth_Cons')
  have "bit_msb acc' j \<longleftrightarrow> bit_msb acc j \<or> (j = k \<and> b)" for j
    using bit_msb_set [OF k, of j] by (auto simp: acc'_def)
  moreover have "(\<exists>k'. j = k' \<and> k \<le> j \<and> j < k + length (b # bits) \<and> (b # bits) ! (j - k)) \<longleftrightarrow>
      (j = k \<and> b) \<or> (Suc k \<le> j \<and> j < Suc k + length bits \<and> bits ! (j - Suc k))" for j
    by (cases "j = k") (auto simp: nth)
  ultimately show ?case
    using Cons.IH [of "Suc k" acc'] Cons.prems len
    by (simp add: Let_def acc'_def [symmetric])
qed

lemma bits_from_bit: "bs_bit (bits_from bits) i \<longleftrightarrow> i < length bits \<and> bits ! i"
proof -
  have "length bits \<le> 8 * div_ceil (length bits) 8"
    unfolding div_ceil_def by linarith
  moreover have "\<not> bit_msb (replicate n 0) j" for n j
    by (simp add: bit_msb_def)
  ultimately show ?thesis
    using bits_fold [of 0 bits "replicate (div_ceil (length bits) 8) 0"]
    by (simp add: bs_bit_msb bits_from_def Let_def)
qed

lemma bits_from_len: "len_bits (bits_from bits) = Some (length bits)"
proof -
  let ?n = "div_ceil (length bits) 8"
  have le: "length bits \<le> 8 * ?n" and lt: "?n * 8 - length bits < 8"
    unfolding div_ceil_def by linarith+
  then have "length (bs_bytes (bits_from bits)) = ?n"
    using bits_fold [of 0 bits "replicate ?n 0"] by (simp add: bits_from_def Let_def)
  moreover have "unat (unused_bits (bits_from bits)) = ?n * 8 - length bits"
    using lt by (simp add: bits_from_def Let_def)
  ultimately show ?thesis
    using le by (simp add: len_bits_def)
qed

lemma be_nat_strip_zeros: "be_nat (strip_zeros bs) = be_nat bs"
  by (induction bs rule: strip_zeros.induct) auto

lemma strip_zeros_shape:
  "bs \<noteq> [] \<Longrightarrow> strip_zeros bs \<noteq> [] \<and> length (strip_zeros bs) \<le> length bs \<and>
    (hd (strip_zeros bs) = 0 \<longrightarrow> strip_zeros bs = [0])"
  by (induction bs rule: strip_zeros.induct) auto

lemma encode_unsigned_cases:
  assumes "v \<noteq> 0"
  obtains b bs where "strip_zeros (to_be v) = b # bs" "b \<noteq> 0" "length bs \<le> 7"
    "be_nat (b # bs) = unat v"
    "encode_unsigned v = (if b AND 0x80 \<noteq> 0 then 0 # b # bs else b # bs)"
proof -
  have "to_be v \<noteq> []" by simp
  from strip_zeros_shape [OF this] obtain b bs where s: "strip_zeros (to_be v) = b # bs"
    and "length bs \<le> 7" and z: "b = 0 \<Longrightarrow> bs = []"
    by (cases "strip_zeros (to_be v)") auto
  moreover have "be_nat (to_be v) = unat v"
    using unsigned_less [of v, where ?'a = nat] by (simp add: to_be_def be_nat_be_bytes)
  then have val: "be_nat (b # bs) = unat v"
    using be_nat_strip_zeros [of "to_be v"] s by simp
  moreover have "b \<noteq> 0"
    using val z assms by (auto simp: unat_eq_0)
  ultimately show thesis
    using that assms by (simp add: encode_unsigned_def)
qed

lemma length_encode_unsigned: "1 \<le> length (encode_unsigned v)" "length (encode_unsigned v) \<le> 9"
proof -
  have "1 \<le> length (encode_unsigned v) \<and> length (encode_unsigned v) \<le> 9"
  proof (cases "v = 0")
    case True
    then show ?thesis by (simp add: encode_unsigned_def)
  next
    case False
    then show ?thesis by (rule encode_unsigned_cases) simp
  qed
  then show "1 \<le> length (encode_unsigned v)" "length (encode_unsigned v) \<le> 9" by auto
qed

lemma decode_encode_unsigned [wire]: "decode_unsigned (encode_unsigned v) = Inr v"
proof (cases "v = 0")
  case True
  then show ?thesis by (simp add: encode_unsigned_def decode_unsigned_def be_acc_def shl8_or_def)
next
  case False
  then show ?thesis
  proof (rule encode_unsigned_cases)
    fix b bs
    assume *: "b \<noteq> 0" "length bs \<le> 7" "be_nat (b # bs) = unat v"
      and e: "encode_unsigned v = (if b AND 0x80 \<noteq> 0 then 0 # b # bs else b # bs)"
    then have "be_acc 0 (b # bs) = v"
      unfolding be_acc_0 by simp
    with * show ?thesis
      unfolding e by (auto simp: decode_unsigned_def Let_def)
  qed
qed

text \<open>Read as a signed integer, an encoded unsigned value below \<open>2^63\<close> is itself.\<close>

lemma decode_integer_encode_unsigned [wire]:
  assumes "unat v < 2 ^ 63"
  shows "decode_integer (encode_unsigned v) = Inr v"
proof (cases "v = 0")
  case True
  then show ?thesis by (simp add: encode_unsigned_def decode_integer_def be_acc_def)
next
  case False
  then show ?thesis
  proof (rule encode_unsigned_cases)
    fix b bs
    assume *: "b \<noteq> 0" "length bs \<le> 7" "be_nat (b # bs) = unat v"
      and e: "encode_unsigned v = (if b AND 0x80 \<noteq> 0 then 0 # b # bs else b # bs)"
    have low0: "int_val (0 # b # bs) = v"
      unfolding int_val_Cons [of 0] *(3) by simp
    have low: "int_val (b # bs) = v" if "b < 0x80"
      using int_val_extend [of 0 b bs] that low0 by simp
    have "length (0 # b # bs) \<le> 8" if "\<not> b < 0x80"
    proof (rule ccontr)
      assume "\<not> ?thesis"
      then have l: "length bs = 7" using * by simp
      have "128 * 256 ^ 7 \<le> unat b * 256 ^ 7"
        using that by (intro mult_le_mono1) (simp add: word_less_nat_alt)
      then have "128 * 256 ^ 7 \<le> unat v"
        using *(3) l by simp
      with assms show False by simp
    qed
    with * low low0 show ?thesis
      unfolding e by (auto simp: decode_integer_alt u8_and_msb)
  qed
qed

lemma decode_encode_bool [wire]: "decode_bool (encode_bool v) = Inr v"
  by (simp add: encode_bool_def)

lemma decode_visible_as_bytes [wire]: "str_ok s \<Longrightarrow> decode_visible_string (as_bytes s) = Inr s"
  by (simp add: decode_visible_string_def)

lemma decode_visible_ok: "decode_visible_string c = Inr s \<Longrightarrow> as_bytes s = c \<and> str_ok s"
  by (simp add: decode_visible_string_def from_utf8_SomeD)

lemma oid_loop_cont:
  "\<forall>b \<in> set hs. b AND 0x80 \<noteq> 0 \<Longrightarrow>
    oid_loop (hs @ b # rest) n st ids = oid_loop (b # rest) (foldl shl7_or n hs) (st \<or> hs \<noteq> []) ids"
  by (induction hs arbitrary: n st) (auto simp: checked_shl_def shl7_or_def Let_def simp del: oid_loop.simps(2),
     auto simp: checked_shl_def shl7_or_def Let_def)

lemma oid_loop_base128: "oid_loop (base128 v @ rest) 0 False ids = oid_loop rest 0 False (ids @ [v])"
proof -
  obtain lo hs where st: "base128_stack v = lo # hs"
    by (cases "base128_stack v") auto
  then have lt: "lo < 0x80" "\<forall>b \<in> set (rev hs). b < 0x80"
    using base128_stack_octets [of _ v] by auto
  have v: "shl7_or (foldl shl7_or 0 (rev hs)) lo = v"
    using foldl_shl7_stack [of 0 v] st by simp
  have "\<forall>b \<in> set (map (\<lambda>b. b OR 0x80) (rev hs)). b AND 0x80 \<noteq> 0"
    using u8_set_msb(2) by auto
  from oid_loop_cont [OF this, of lo rest 0 False ids]
  have "oid_loop (base128 v @ rest) 0 False ids
      = oid_loop (lo # rest) (foldl shl7_or 0 (rev hs)) (hs \<noteq> []) ids"
    by (simp add: base128_def st foldl_shl7_cont [OF lt(2)] del: oid_loop.simps)
  then show ?thesis
    using lt v by (simp add: checked_shl_def u8_and_msb shl7_or_def)
qed

lemma oid_loop_arcs: "oid_loop (concat (map base128 vs)) 0 False ids = Inr (ids @ vs)"
  by (induction vs arbitrary: ids) (simp_all add: oid_loop_base128)

definition oid_ok :: "u32 list \<Rightarrow> bool" where
  "oid_ok arcs \<longleftrightarrow> (case arcs of
      a # b # rest \<Rightarrow> unat a \<le> 2 \<and> (unat a < 2 \<longrightarrow> unat b < 40) \<and> unat a * 40 + unat b < 2 ^ 32
    | _ \<Rightarrow> False)"

lemma decode_encode_oid:
  assumes "oid_ok arcs"
  shows "\<exists>bs. encode_oid arcs = Some bs \<and> decode_oid bs = Inr arcs"
proof -
  obtain a b rest where arcs: "arcs = a # b # rest" and a: "unat a \<le> 2"
    and b: "unat a < 2 \<Longrightarrow> unat b < 40" and lt: "unat a * 40 + unat b < 2 ^ 32"
    using assms by (auto simp: oid_ok_def split: list.splits)
  let ?f = "a * 40 + b"
  have uf: "unat ?f = unat a * 40 + unat b"
    using lt by (simp add: unat_word_ariths)
  have loop: "oid_loop (base128 ?f @ concat (map base128 rest)) 0 False [] = Inr (?f # rest)"
    by (simp add: oid_loop_base128 oid_loop_arcs)
  consider "unat a = 0" | "unat a = 1" | "unat a = 2" using a by linarith
  then show ?thesis
  proof cases
    case 1
    then have "a = 0" "?f < 40" using b uf by (auto simp: unat_eq_0 word_less_nat_alt)
    then show ?thesis using loop by (simp add: arcs encode_oid_def decode_oid_def Let_def)
  next
    case 2
    then have "a = 1" "\<not> ?f < 40" "?f < 80"
      using b uf by (auto simp: word_unat_eq_iff word_less_nat_alt)
    then show ?thesis using loop by (simp add: arcs encode_oid_def decode_oid_def Let_def)
  next
    case 3
    then have "a = 2" "\<not> ?f < 40" "\<not> ?f < 80"
      using uf by (auto simp: word_unat_eq_iff word_less_nat_alt)
    then show ?thesis using loop by (simp add: arcs encode_oid_def decode_oid_def Let_def)
  qed
qed

lemmas ber_prim_evals [evals] = encode_integer_def decode_integer_def encode_unsigned_def
  decode_unsigned_def encode_bool_def decode_visible_string_def

section \<open>Properties\<close>

text \<open>An \<open>i64\<close> round-trips through its BER content, and that content is the shortest of all
  contents of at most eight octets that decode to the value.\<close>

theorem integer_canonical:
  "decode_integer (encode_integer v) = Inr v \<and>
   (\<forall>bs. decode_integer bs = Inr v \<longrightarrow> length (encode_integer v) \<le> length bs)"
proof (intro conjI allI impI)
  fix bs
  assume "decode_integer bs = Inr v"
  then have "bs \<noteq> []" "length bs \<le> 8" "int_val bs = v"
    by (auto simp: decode_integer_alt split: if_splits)
  then show "length (encode_integer v) \<le> length bs"
    using encode_integer_int_val [of bs] strip_int_length [of bs] by simp
qed (simp add: wire)

text \<open>A \<open>u64\<close> round-trips through its BER content, whose first octet never has the sign bit
  set, so that a reader expecting a signed integer sees the same value below \<open>2^63\<close>.\<close>

theorem unsigned_roundtrip:
  "decode_unsigned (encode_unsigned v) = Inr v \<and> hd (encode_unsigned v) < 0x80 \<and>
   (unat v < 2 ^ 63 \<longrightarrow> decode_integer (encode_unsigned v) = Inr v)"
proof -
  have "hd (encode_unsigned v) < 0x80"
  proof (cases "v = 0")
    case False
    then show ?thesis by (rule encode_unsigned_cases) (auto simp: u8_and_msb)
  qed (simp add: encode_unsigned_def)
  then show ?thesis by (simp add: wire)
qed

text \<open>An object identifier with a first arc below 3 and, for first arcs 0 and 1, a second arc
  below 40 round-trips.\<close>

theorem oid_roundtrip:
  assumes "oid_ok arcs"
  shows "\<exists>bs. encode_oid arcs = Some bs \<and> decode_oid bs = Inr arcs"
  using assms by (rule decode_encode_oid)

text \<open>\<open>BitString::from_bits\<close> keeps every bit: the bit read at an index is the one given, bits
  past the end read as false, and \<open>len_bits\<close> is the number of bits given.\<close>

theorem bit_string_bits:
  "len_bits (bits_from bits) = Some (length bits) \<and>
   bs_bit (bits_from bits) i = (i < length bits \<and> bits ! i)"
  by (simp add: bits_from_len bits_from_bit)
end
