(* ===== verification/BerCodec.thy ===== *)
theory BerCodec imports BerPrim begin

text \<open>
  The cursor over encoded values and the writer with back-patched lengths:
  \<open>crates/iec61850-ber/src/ber/reader.rs\<close> and \<open>ber/writer.rs\<close>. A method taking \<open>&mut self\<close> and
  returning a \<open>Result\<close> is a function from the reader to the result and the reader after it; the
  closures a writer method takes are functions on writers. The lemmas show that a reader stays
  inside its slice, that each successful read makes progress, what a reader sees of written
  values, and that back-patching writes the same octets as a length computed beforehand.
\<close>

section \<open>The reader\<close>

record tlv =
  tlv_tag :: tag
  tlv_content :: bytes

record reader =
  rd_data :: bytes
  rd_pos :: nat

type_synonym ('e, 'a) reading = "reader \<Rightarrow> ('e + 'a) \<times> reader"

definition reader_new :: "bytes \<Rightarrow> reader" where
  "reader_new d = \<lparr>rd_data = d, rd_pos = 0\<rparr>"

definition tlv_reader :: "tlv \<Rightarrow> reader" where
  "tlv_reader t = reader_new (tlv_content t)"

definition rd_is_empty :: "reader \<Rightarrow> bool" where
  "rd_is_empty r \<longleftrightarrow> length (rd_data r) \<le> rd_pos r"

definition rd_rest :: "reader \<Rightarrow> bytes" where
  "rd_rest r = drop (rd_pos r) (rd_data r)"

text \<open>Sequencing: \<open>?\<close> stops at the first error, with the reader as that call left it.\<close>

fun thenE :: "('e + 'a) \<times> reader \<Rightarrow> ('a \<Rightarrow> ('e, 'b) reading) \<Rightarrow> ('e + 'b) \<times> reader" where
  "thenE (Inl e, r) f = (Inl e, r)"
| "thenE (Inr x, r) f = f x r"

text \<open>The conversion of the error by \<open>?\<close> in functions with an error type of their own.\<close>

definition map_errR :: "('e \<Rightarrow> 'f) \<Rightarrow> ('e + 'a) \<times> reader \<Rightarrow> ('f + 'a) \<times> reader" where
  "map_errR g p = (map_errE g (fst p), snd p)"

definition peek_tag :: "reader \<Rightarrow> ber_error + tag" where
  "peek_tag r = bindE (tag_decode (rd_rest r)) (\<lambda>(t, _). Inr t)"

definition read_tlv :: "(ber_error, tlv) reading" where
  "read_tlv r =
    (let rest = rd_rest r in
     case tag_decode rest of
       Inl e \<Rightarrow> (Inl e, r)
     | Inr (t, tn) \<Rightarrow>
       (case decode_len (drop tn rest) of
          Inl e \<Rightarrow> (Inl e, r)
        | Inr (len, ln) \<Rightarrow>
          (let start = rd_pos r + tn + ln
           in if usize_limit \<le> start + len then (Inl LengthOverflow, r)
              else if length (rd_data r) < start + len then (Inl UnexpectedEof, r)
              else (Inr \<lparr>tlv_tag = t, tlv_content = take len (drop start (rd_data r))\<rparr>,
                    r\<lparr>rd_pos := start + len\<rparr>))))"

definition rd_expect :: "tag \<Rightarrow> (ber_error, bytes) reading" where
  "rd_expect t r = thenE (read_tlv r) (\<lambda>v r.
     if tlv_tag v \<noteq> t then (Inl (UnexpectedTag (tag_show t) (tag_show (tlv_tag v))), r)
     else (Inr (tlv_content v), r))"

definition rd_read_if :: "tag \<Rightarrow> (ber_error, bytes option) reading" where
  "rd_read_if t r =
    (if rd_is_empty r then (Inr None, r)
     else case peek_tag r of
       Inl e \<Rightarrow> (Inl e, r)
     | Inr t' \<Rightarrow> if t' = t then thenE (rd_expect t r) (\<lambda>c r. (Inr (Some c), r))
                 else (Inr None, r))"

text \<open>A reader made by \<open>new\<close> never leaves its slice, so no slice expression panics.\<close>

definition reader_ok :: "reader \<Rightarrow> bool" where
  "reader_ok r \<longleftrightarrow> rd_pos r \<le> length (rd_data r)"

definition remaining :: "reader \<Rightarrow> nat" where
  "remaining r = length (rd_data r) - rd_pos r"

lemma thenE_Inr_iff:
  "thenE p f = (Inr y, r') \<longleftrightarrow> (\<exists>x r. p = (Inr x, r) \<and> f x r = (Inr y, r'))"
  by (cases "(p, f)" rule: thenE.cases) auto

lemma reader_new_ok [simp]: "reader_ok (reader_new d)" "remaining (reader_new d) = length d"
  by (simp_all add: reader_ok_def reader_new_def remaining_def)

lemma rd_is_empty_remaining: "rd_is_empty r \<longleftrightarrow> remaining r = 0"
  by (simp add: rd_is_empty_def remaining_def)

lemma read_tlv_progress:
  assumes "read_tlv r = (Inr v, r')"
  shows "rd_data r' = rd_data r" "reader_ok r'"
    "length (tlv_content v) + remaining r' + 2 \<le> remaining r"
proof -
  from assms obtain t tn len ln where
    t: "tag_decode (rd_rest r) = Inr (t, tn)" and l: "decode_len (drop tn (rd_rest r)) = Inr (len, ln)"
    and le: "rd_pos r + tn + ln + len \<le> length (rd_data r)"
    and v: "v = \<lparr>tlv_tag = t, tlv_content = take len (drop (rd_pos r + tn + ln) (rd_data r))\<rparr>"
    and r': "r' = r\<lparr>rd_pos := rd_pos r + tn + ln + len\<rparr>"
    by (auto simp: read_tlv_def Let_def split: sum.splits if_splits)
  show "rd_data r' = rd_data r" "reader_ok r'"
    using le by (simp_all add: r' reader_ok_def)
  show "length (tlv_content v) + remaining r' + 2 \<le> remaining r"
    using tag_decode_consumed [OF t] decode_len_consumed [OF l] le
    by (auto simp: v r' remaining_def min_def)
qed

lemma read_tlv_error_stays: "read_tlv r = (Inl e, r') \<Longrightarrow> r' = r"
  by (auto simp: read_tlv_def Let_def split: sum.splits if_splits)

lemma read_tlv_data [simp]: "rd_data (snd (read_tlv r)) = rd_data r"
  by (simp add: read_tlv_def Let_def split: sum.splits prod.splits)

lemma read_tlv_ok: "reader_ok r \<Longrightarrow> reader_ok (snd (read_tlv r))"
  using read_tlv_progress(2) [of r] read_tlv_error_stays [of r]
  by (cases "read_tlv r"; cases "fst (read_tlv r)") auto

lemma rd_expect_ok: "reader_ok r \<Longrightarrow> reader_ok (snd (rd_expect t r))"
  using read_tlv_ok [of r]
  by (cases "read_tlv r"; cases "fst (read_tlv r)") (auto simp: rd_expect_def)

lemma rd_expect_Inr_iff:
  "rd_expect t r = (Inr c, r') \<longleftrightarrow> read_tlv r = (Inr \<lparr>tlv_tag = t, tlv_content = c\<rparr>, r')"
proof (cases "\<exists>v. fst (read_tlv r) = Inr v")
  case True
  then obtain v r1 where "read_tlv r = (Inr v, r1)" by (cases "read_tlv r") auto
  then show ?thesis by (cases v) (auto simp: rd_expect_def)
next
  case False
  then obtain e r1 where "read_tlv r = (Inl e, r1)"
    by (cases "read_tlv r"; cases "fst (read_tlv r)") auto
  then show ?thesis by (simp add: rd_expect_def)
qed

lemma rd_expect_data [simp]: "rd_data (snd (rd_expect t r)) = rd_data r"
  using read_tlv_data [of r]
  by (cases "read_tlv r"; cases "fst (read_tlv r)") (auto simp: rd_expect_def)

lemma rd_read_if_data [simp]: "rd_data (snd (rd_read_if t r)) = rd_data r"
  using rd_expect_data [of t r]
  by (cases "rd_expect t r"; cases "fst (rd_expect t r)") (auto simp: rd_read_if_def split: sum.splits)

lemma rd_read_if_ok: "reader_ok r \<Longrightarrow> reader_ok (snd (rd_read_if t r))"
  using rd_expect_ok [of r t]
  by (cases "rd_expect t r"; cases "fst (rd_expect t r)") (auto simp: rd_read_if_def split: sum.splits)

section \<open>Written values as octets\<close>

definition tlv_bytes :: "tag \<Rightarrow> bytes \<Rightarrow> bytes" where
  "tlv_bytes t c = tag_encode t @ encode_len (length c) @ c"

definition rd_at :: "bytes \<Rightarrow> bytes \<Rightarrow> reader" where
  "rd_at pre rest = \<lparr>rd_data = pre @ rest, rd_pos = length pre\<rparr>"

lemma reader_new_at: "reader_new d = rd_at [] d"
  by (simp add: reader_new_def rd_at_def)

lemma tlv_reader_at: "tlv_reader \<lparr>tlv_tag = t, tlv_content = c\<rparr> = rd_at [] c"
  by (simp add: tlv_reader_def reader_new_at)

lemma rd_rest_at [simp]: "rd_rest (rd_at pre rest) = rest"
  by (simp add: rd_rest_def rd_at_def)

lemma rd_is_empty_at [simp]: "rd_is_empty (rd_at pre rest) \<longleftrightarrow> rest = []"
  by (simp add: rd_is_empty_def rd_at_def)

lemma tlv_bytes_nonempty [simp]: "tlv_bytes t c \<noteq> []"
  by (simp add: tlv_bytes_def)

lemma length_tlv_bytes:
  "length (tlv_bytes t c) = length (tag_encode t) + len_encoded_size (length c) + length c"
  by (simp add: tlv_bytes_def length_encode_len)

lemma length_content_less: "length c < length (tlv_bytes t c)"
  using length_tag_encode(1) [of t] by (simp add: length_tlv_bytes)

lemma peek_tag_at [wire]: "peek_tag (rd_at pre (tlv_bytes t c @ rest)) = Inr t"
  by (simp add: peek_tag_def tlv_bytes_def tag_decode_encode)

lemma read_tlv_at [wire]:
  assumes "length pre + length (tlv_bytes t c) < usize_limit"
  shows "read_tlv (rd_at pre (tlv_bytes t c @ rest)) =
    (Inr \<lparr>tlv_tag = t, tlv_content = c\<rparr>, rd_at (pre @ tlv_bytes t c) rest)"
proof -
  have "length c < usize_limit"
    using assms length_content_less [of c t] by simp
  moreover from this have "decode_len (encode_len (length c) @ c @ rest)
      = Inr (length c, length (encode_len (length c)))"
    by (rule decode_encode_len)
  ultimately show ?thesis
    using assms
    by (simp add: read_tlv_def tlv_bytes_def tag_decode_encode Let_def)
      (simp add: rd_at_def)
qed

lemma rd_expect_at [wire]:
  assumes "length pre + length (tlv_bytes t c) < usize_limit"
  shows "rd_expect u (rd_at pre (tlv_bytes t c @ rest)) =
    (if t = u then Inr c else Inl (UnexpectedTag (tag_show u) (tag_show t)),
     rd_at (pre @ tlv_bytes t c) rest)"
  by (simp add: rd_expect_def read_tlv_at [OF assms])

lemma rd_read_if_at [wire]:
  assumes "length pre + length (tlv_bytes t c) < usize_limit"
  shows "rd_read_if u (rd_at pre (tlv_bytes t c @ rest)) =
    (if t = u then (Inr (Some c), rd_at (pre @ tlv_bytes t c) rest)
     else (Inr None, rd_at pre (tlv_bytes t c @ rest)))"
  using rd_expect_at [OF assms, of u] by (auto simp: rd_read_if_def peek_tag_at)

lemma rd_read_if_at_end [wire]: "rd_read_if u (rd_at pre []) = (Inr None, rd_at pre [])"
  by (simp add: rd_read_if_def)

text \<open>Reading the next written field, with the bound on the whole slice as the only premise.\<close>

definition slice_ok :: "bytes \<Rightarrow> bytes \<Rightarrow> bool" where
  "slice_ok pre rest \<longleftrightarrow> length pre + length rest < usize_limit"

lemma slice_ok_step: "slice_ok pre (x @ rest) \<longleftrightarrow> slice_ok (pre @ x) rest"
  by (simp add: slice_ok_def add.assoc)

lemma expect_field [wire]:
  assumes "slice_ok pre (tlv_bytes t c @ rest)"
  shows "rd_expect t (rd_at pre (tlv_bytes t c @ rest)) = (Inr c, rd_at (pre @ tlv_bytes t c) rest)"
  using assms by (simp add: rd_expect_at slice_ok_def)

lemma expect_field_last [wire]:
  assumes "slice_ok pre (tlv_bytes t c)"
  shows "rd_expect t (rd_at pre (tlv_bytes t c)) = (Inr c, rd_at (pre @ tlv_bytes t c) [])"
  using expect_field [of pre t c "[]"] assms by simp

text \<open>What any successful read returned, read from the octets themselves.\<close>

lemma read_tlv_single [wire]:
  assumes "length (tlv_bytes t c) < usize_limit"
  shows "read_tlv (reader_new (tlv_bytes t c)) =
    (Inr \<lparr>tlv_tag = t, tlv_content = c\<rparr>, rd_at (tlv_bytes t c) [])"
  using read_tlv_at [of "[]" t c "[]"] assms by (simp add: reader_new_at)

lemma rd_expect_progress: "rd_expect t r = (Inr c, r') \<Longrightarrow> length c + remaining r' + 2 \<le> remaining r"
  using read_tlv_progress(3) by (fastforce simp: rd_expect_Inr_iff)

lemma read_tlv_head:
  assumes "slice_ok pre (tlv_bytes t c @ rest)"
  shows "read_tlv (rd_at pre (tlv_bytes t c @ rest)) =
    (Inr \<lparr>tlv_tag = t, tlv_content = c\<rparr>, rd_at (pre @ tlv_bytes t c) rest)"
  using assms by (simp add: read_tlv_at slice_ok_def)

lemma slice_ok_inner: "slice_ok pre (tlv_bytes t c @ rest) \<Longrightarrow> slice_ok [] c"
  using length_content_less [of c t] by (simp add: slice_ok_def)

lemma tlv_bytes_bound: "length (tlv_bytes t c) \<le> length c + 15"
  using length_tag_encode(2) [of t] len_encoded_size_bounds(2) [of "length c"] by (simp add: length_tlv_bytes)

text \<open>A constructed content as its list of fields.\<close>

definition fields_bytes :: "(tag \<times> bytes) list \<Rightarrow> bytes" where
  "fields_bytes fs = concat (map (\<lambda>(t, c). tlv_bytes t c) fs)"

lemma fields_bytes_simps: "fields_bytes [] = []" "fields_bytes ((t, c) # fs) = tlv_bytes t c @ fields_bytes fs"
  by (simp_all add: fields_bytes_def)

section \<open>The writer\<close>

record ber_writer =
  wbuf :: bytes

type_synonym writing = "ber_writer \<Rightarrow> ber_writer"

definition writer_new :: ber_writer where
  "writer_new = \<lparr>wbuf = []\<rparr>"

definition into_bytes :: "ber_writer \<Rightarrow> bytes" where
  "into_bytes w = wbuf w"

text \<open>\<open>put\<close> is \<open>self.buf.extend_from_slice\<close>; \<open>w_seq\<close> runs statements in order.\<close>

definition put :: "bytes \<Rightarrow> writing" where
  "put bs w = w\<lparr>wbuf := wbuf w @ bs\<rparr>"

definition w_seq :: "writing list \<Rightarrow> writing" where
  "w_seq fs w = fold (\<lambda>f w. f w) fs w"

text \<open>\<open>splice(content_start..content_start, len_bytes)\<close> inserts the length before the content.\<close>

definition w_tlv :: "tag \<Rightarrow> writing \<Rightarrow> writing" where
  "w_tlv t body w =
    (let w1 = put (tag_encode t) w;
         content_start = length (wbuf w1);
         w2 = body w1;
         content_len = length (wbuf w2) - content_start
     in w2\<lparr>wbuf := take content_start (wbuf w2) @ encode_len content_len
              @ drop content_start (wbuf w2)\<rparr>)"

definition w_primitive :: "tag \<Rightarrow> bytes \<Rightarrow> writing" where
  "w_primitive t content w = put content (put (encode_len (length content)) (put (tag_encode t) w))"

definition w_raw :: "bytes \<Rightarrow> writing" where
  "w_raw bs = put bs"

definition w_boolean :: "tag \<Rightarrow> bool \<Rightarrow> writing" where
  "w_boolean t v = w_primitive t (encode_bool v)"

definition w_integer :: "tag \<Rightarrow> u64 \<Rightarrow> writing" where
  "w_integer t v = w_primitive t (encode_integer v)"

definition w_unsigned :: "tag \<Rightarrow> u64 \<Rightarrow> writing" where
  "w_unsigned t v = w_primitive t (encode_unsigned v)"

definition w_octet_string :: "tag \<Rightarrow> bytes \<Rightarrow> writing" where
  "w_octet_string t bs = w_primitive t bs"

definition w_visible_string :: "tag \<Rightarrow> string \<Rightarrow> writing" where
  "w_visible_string t s = w_primitive t (as_bytes s)"

definition w_null :: "tag \<Rightarrow> writing" where
  "w_null t = w_primitive t []"

definition w_object_identifier :: "tag \<Rightarrow> u32 list \<Rightarrow> ber_writer \<Rightarrow> ber_writer option" where
  "w_object_identifier t arcs w = map_option (\<lambda>c. w_primitive t c w) (encode_oid arcs)"

definition w_bit_string :: "tag \<Rightarrow> bit_string \<Rightarrow> writing" where
  "w_bit_string t b = w_primitive t (unused_bits b # bs_bytes b)"

definition w_integer_u :: "u64 \<Rightarrow> writing" where
  "w_integer_u v = w_integer (tag_universal 2 False) v"

definition w_sequence :: "writing \<Rightarrow> writing" where
  "w_sequence body = w_tlv (tag_universal 16 True) body"

text \<open>Every writer operation only appends. These rewrite rules turn a program of writer calls
  into the octets it appends.\<close>

lemma put_put [wire]: "put b (put a w) = put (a @ b) w"
  by (simp add: put_def)

lemma put_Nil [wire]: "put [] w = w"
  by (simp add: put_def)

lemma w_seq_simps [wire]: "w_seq [] w = w" "w_seq (f # fs) w = w_seq fs (f w)"
  by (simp_all add: w_seq_def)

lemma w_seq_put [wire]: "w_seq [put a] = put a" "w_seq (put a # put b # fs) = w_seq (put (a @ b) # fs)"
  by (rule ext, simp add: w_seq_def put_put)+

lemma w_primitive_put [wire]: "w_primitive t c = put (tlv_bytes t c)"
  by (rule ext) (simp add: w_primitive_def put_put tlv_bytes_def)

lemma w_tlv_put [wire]: "w_tlv t (put c) = put (tlv_bytes t c)"
  by (rule ext) (simp add: w_tlv_def put_def Let_def tlv_bytes_def)

lemma w_tlv_put' [wire]: "w_tlv t (\<lambda>w. put c w) = put (tlv_bytes t c)"
  by (rule w_tlv_put)

lemma w_tlv_body: "(\<And>w. body w = put c w) \<Longrightarrow> w_tlv t body w = put (tlv_bytes t c) w"
proof -
  assume "\<And>w. body w = put c w"
  then have "body = put c" by (rule ext)
  then show ?thesis by (simp add: w_tlv_put)
qed

lemma fold_put: "(\<And>x w. x \<in> set xs \<Longrightarrow> f x w = put (g x) w) \<Longrightarrow> fold f xs w = put (concat (map g xs)) w"
  by (induction xs arbitrary: w) (auto simp: put_put put_Nil)

lemma into_bytes_put [wire]: "into_bytes (put bs writer_new) = bs"
  by (simp add: into_bytes_def put_def writer_new_def)

lemmas w_ops = w_raw_def w_boolean_def w_integer_def w_unsigned_def w_octet_string_def
  w_visible_string_def w_null_def w_bit_string_def w_integer_u_def w_sequence_def

lemmas ber_codec_evals [evals] = read_tlv_def rd_rest_def reader_new_def rd_is_empty_def
  rd_expect_def rd_read_if_def peek_tag_def tlv_reader_def tlv_bytes_def w_ops

section \<open>Properties\<close>

text \<open>No reader operation leaves the slice: from a reader inside its slice every operation,
  also a failing one, returns a reader inside the same slice; so no slice expression of
  \<open>reader.rs\<close> panics.\<close>

theorem reader_stays_inside:
  assumes "reader_ok r"
  shows "reader_ok (snd (read_tlv r)) \<and> reader_ok (snd (rd_expect t r)) \<and>
    reader_ok (snd (rd_read_if t r)) \<and> rd_data (snd (rd_expect t r)) = rd_data r \<and>
    rd_data (snd (rd_read_if t r)) = rd_data r"
  using assms by (simp add: read_tlv_ok rd_expect_ok rd_read_if_ok rd_expect_data rd_read_if_data)

text \<open>A successful \<open>read_tlv\<close> consumes at least two octets and its whole content, so a loop
  that reads until the reader is empty ends.\<close>

theorem read_tlv_consumes:
  assumes "read_tlv r = (Inr v, r')"
  shows "length (tlv_content v) + remaining r' + 2 \<le> remaining r"
  using assms by (rule read_tlv_progress(3))

text \<open>The writer's back-patched \<open>tlv\<close> writes the tag, the length of what the body appended,
  then the body's octets, whatever was in the buffer before.\<close>

theorem tlv_backpatch:
  assumes "\<forall>w. body w = w\<lparr>wbuf := wbuf w @ c\<rparr>"
  shows "wbuf (w_tlv t body w) = wbuf w @ tag_encode t @ encode_len (length c) @ c"
proof -
  have "w_tlv t body w = put (tlv_bytes t c) w"
    using assms by (intro w_tlv_body) (simp add: put_def)
  then show ?thesis by (simp add: put_def tlv_bytes_def)
qed

end
