(* ===== verification/MmsData.thy ===== *)
theory MmsData imports BerCodec begin

text \<open>
  The MMS \<open>Data\<close> values and their codec: \<open>crates/iec61850-ber/src/data.rs\<close>. A floating-point
  value is its IEEE-754 pattern, and the two casts between \<open>f32\<close> and \<open>f64\<close> are written out on
  patterns (round to nearest, ties to even). The decoder is recursive through the reader, cut at
  \<open>MAX_NESTING_DEPTH\<close> levels. The lemmas show that decoding terminates on any input, inverts the
  encoder up to that depth, and answers deeper values with \<open>DepthExceeded\<close>.
\<close>

section \<open>Floating point patterns\<close>

definition f64_is_nan :: "u64 \<Rightarrow> bool" where
  "f64_is_nan v \<longleftrightarrow> unat v div 2 ^ 52 mod 2048 = 2047 \<and> unat v mod 2 ^ 52 \<noteq> 0"

text \<open>\<open>==\<close> on \<open>f64\<close>: a NaN is different from everything, the two zeros are equal.\<close>

definition f64_eq :: "u64 \<Rightarrow> u64 \<Rightarrow> bool" where
  "f64_eq a b \<longleftrightarrow> \<not> f64_is_nan a \<and> \<not> f64_is_nan b \<and>
     (a = b \<or> (unat a mod 2 ^ 63 = 0 \<and> unat b mod 2 ^ 63 = 0))"

text \<open>\<open>m / 2^s\<close> rounded to nearest, ties to even.\<close>

definition round_shift :: "nat \<Rightarrow> nat \<Rightarrow> nat" where
  "round_shift m s =
    (let q = m div 2 ^ s; r = m mod 2 ^ s
     in if 2 * r > 2 ^ s \<or> (2 * r = 2 ^ s \<and> odd q) then q + 1 else q)"

text \<open>\<open>v as f32\<close>. A finite value has the significand \<open>m\<close> in units of \<open>2^(e - 1075)\<close>; with exponent
  from 897 on the result is normal (29 significand bits dropped), below it is subnormal. A carry
  out of the significand moves to the next exponent, and on to infinity at the top.\<close>

definition f64_to_f32 :: "u64 \<Rightarrow> u32" where
  "f64_to_f32 v =
    (let sign = unat v div 2 ^ 63; e = unat v div 2 ^ 52 mod 2048; m = unat v mod 2 ^ 52;
         magnitude =
           (if e = 2047 then
              (if m = 0 then 255 * 2 ^ 23
               else 255 * 2 ^ 23 + (if m div 2 ^ 29 < 2 ^ 22 then 2 ^ 22 + m div 2 ^ 29
                                    else m div 2 ^ 29))
            else if e = 0 then 0
            else if 897 \<le> e then
              min (255 * 2 ^ 23) ((e - 897) * 2 ^ 23 + round_shift (2 ^ 52 + m) 29)
            else round_shift (2 ^ 52 + m) (29 + (897 - e)))
     in word_of_nat (sign * 2 ^ 31 + magnitude))"

text \<open>\<open>v as f64\<close>, exact: a subnormal \<open>f32\<close> is normalised, a NaN becomes quiet.\<close>

fun normalise :: "nat \<Rightarrow> nat \<Rightarrow> nat \<Rightarrow> nat \<times> nat" where
  "normalise 0 e m = (e, m)"
| "normalise (Suc k) e m = (if 2 ^ 23 \<le> m then (e, m) else normalise k (e - 1) (2 * m))"

definition f32_to_f64 :: "u32 \<Rightarrow> u64" where
  "f32_to_f64 w =
    (let sign = unat w div 2 ^ 31; e = unat w div 2 ^ 23 mod 256; m = unat w mod 2 ^ 23;
         magnitude =
           (if e = 255 then
              2047 * 2 ^ 52 + (if m = 0 then 0 else (if m < 2 ^ 22 then 2 ^ 22 + m else m) * 2 ^ 29)
            else if e = 0 then
              (if m = 0 then 0
               else let (e', m') = normalise 23 897 m in e' * 2 ^ 52 + (m' - 2 ^ 23) * 2 ^ 29)
            else (e + 896) * 2 ^ 52 + m * 2 ^ 29)
     in word_of_nat (sign * 2 ^ 63 + magnitude))"

section \<open>Values\<close>

type_synonym utc_time = bytes

text \<open>\<open>UtcTime\<close> holds an array of eight octets, here a list with \<open>length = 8\<close> in \<open>utc_ok\<close>.\<close>

definition utc_ok :: "utc_time \<Rightarrow> bool" where
  "utc_ok u \<longleftrightarrow> length u = 8"

definition utc_seconds :: "utc_time \<Rightarrow> u32" where
  "utc_seconds u = from_be (take 4 u)"

definition utc_fraction :: "utc_time \<Rightarrow> u32" where
  "utc_fraction u = from_be (0 # take 3 (drop 4 u))"

definition utc_quality :: "utc_time \<Rightarrow> u8" where
  "utc_quality u = u ! 7"

datatype mms_data =
    MBool bool
  | MInt u64
  | MUint u64
  | MFloat u64
  | MBitString bit_string
  | MOctets bytes
  | MVisible string
  | MMmsString string
  | MUtc utc_time
  | MBinaryTime bytes
  | MStructure "mms_data list"
  | MArray "mms_data list"

definition max_nesting_depth :: nat where
  "max_nesting_depth = 32"

section \<open>Decoding\<close>

definition decode_bit_string :: "bytes \<Rightarrow> ber_error + bit_string" where
  "decode_bit_string content =
    (case content of
       [] \<Rightarrow> Inl BadBitString
     | unused # bs \<Rightarrow>
       if unused > 7 then Inl BadBitString
       else Inr \<lparr>unused_bits = unused, bs_bytes = bs\<rparr>)"

definition decode_float :: "bytes \<Rightarrow> ber_error + u64" where
  "decode_float content =
    (case content of
       [] \<Rightarrow> Inl (BerStructure (''floating-point vac'' @ i_acute @ ''o''))
     | _ # ieee \<Rightarrow>
       if length ieee = 4 then Inr (f32_to_f64 (from_be ieee))
       else if length ieee = 8 then Inr (from_be ieee)
       else Inl (BerStructure (''floating-point con tama'' @ n_tilde @ ''o IEEE inv'' @ i_acute @ ''lido'')))"

text \<open>\<open>decode_at\<close> and \<open>decode_list\<close> call each other; \<open>decode_items\<close> is the loop of
  \<open>decode_list\<close>.\<close>

function decode_at :: "tlv \<Rightarrow> nat \<Rightarrow> ber_error + mms_data"
  and decode_list :: "bytes \<Rightarrow> nat \<Rightarrow> ber_error + mms_data list"
  and decode_items :: "reader \<Rightarrow> nat \<Rightarrow> mms_data list \<Rightarrow> ber_error + mms_data list" where
  "decode_at t depth =
    (let c = tlv_content t; n = number (tlv_tag t); k = constructed (tlv_tag t)
     in if n = 3 \<and> \<not> k then bindE (decode_bool c) (\<lambda>b. Inr (MBool b))
        else if n = 5 \<and> \<not> k then bindE (decode_integer c) (\<lambda>v. Inr (MInt v))
        else if n = 6 \<and> \<not> k then bindE (decode_unsigned c) (\<lambda>v. Inr (MUint v))
        else if n = 7 \<and> \<not> k then bindE (decode_float c) (\<lambda>v. Inr (MFloat v))
        else if n = 9 \<and> \<not> k then Inr (MOctets c)
        else if n = 10 \<and> \<not> k then bindE (decode_visible_string c) (\<lambda>s. Inr (MVisible s))
        else if n = 16 \<and> \<not> k then bindE (ok_or BadString (from_utf8 c)) (\<lambda>s. Inr (MMmsString s))
        else if n = 4 \<and> \<not> k then bindE (decode_bit_string c) (\<lambda>b. Inr (MBitString b))
        else if n = 14 \<and> \<not> k then bindE (decode_bit_string c) (\<lambda>b. Inr (MBitString b))
        else if n = 12 \<and> \<not> k then Inr (MBinaryTime c)
        else if n = 17 \<and> \<not> k then
          (if length c = 8 then Inr (MUtc c)
           else Inl (BerStructure ''utc-time debe tener 8 octetos''))
        else if n = 2 \<and> k then bindE (decode_list c depth) (\<lambda>xs. Inr (MStructure xs))
        else if n = 1 \<and> k then bindE (decode_list c depth) (\<lambda>xs. Inr (MArray xs))
        else Inl (BerStructure (''tag Data inesperado: '' @ tag_show (tlv_tag t))))"
| "decode_list c depth =
    (if max_nesting_depth \<le> depth then Inl DepthExceeded
     else decode_items (reader_new c) depth [])"
| "decode_items r depth out =
    (if rd_is_empty r then Inr out
     else case read_tlv r of
       (Inl e, _) \<Rightarrow> Inl e
     | (Inr t, r') \<Rightarrow>
         bindE (decode_at t (depth + 1)) (\<lambda>d. decode_items r' depth (out @ [d])))"
  by pat_completeness auto
termination
  by (relation "measure (\<lambda>x. case x of
        Inl (t, _) \<Rightarrow> 3 * length (tlv_content t) + 2
      | Inr (Inl (c, _)) \<Rightarrow> 3 * length c + 1
      | Inr (Inr (r, _, _)) \<Rightarrow> 3 * remaining r)")
    (auto dest!: read_tlv_progress(3) [OF sym])

declare decode_at.simps [simp del] decode_list.simps [simp del] decode_items.simps [simp del]

definition mms_decode :: "tlv \<Rightarrow> ber_error + mms_data" where
  "mms_decode t = decode_at t 0"

definition decode_data :: "bytes \<Rightarrow> ber_error + mms_data" where
  "decode_data bs = bindE (fst (read_tlv (reader_new bs))) mms_decode"

section \<open>Encoding\<close>

definition encode_float :: "u64 \<Rightarrow> bytes" where
  "encode_float value =
    (let as32 = f64_to_f32 value
     in if f64_eq (f32_to_f64 as32) value then 8 # to_be as32 else 11 # to_be value)"

lemma fold_fun_cong [fundef_cong]:
  "xs = ys \<Longrightarrow> (\<And>x. x \<in> set ys \<Longrightarrow> f x = g x) \<Longrightarrow> fold f xs = fold g ys"
  by (rule ext) (auto intro: List.fold_cong)

fun mms_encode :: "mms_data \<Rightarrow> writing" where
  "mms_encode (MBool v) = w_boolean (tag_context 3 False) v"
| "mms_encode (MInt v) = w_integer (tag_context 5 False) v"
| "mms_encode (MUint v) = w_unsigned (tag_context 6 False) v"
| "mms_encode (MFloat v) = w_primitive (tag_context 7 False) (encode_float v)"
| "mms_encode (MBitString b) = w_bit_string (tag_context 4 False) b"
| "mms_encode (MOctets b) = w_octet_string (tag_context 9 False) b"
| "mms_encode (MVisible s) = w_visible_string (tag_context 10 False) s"
| "mms_encode (MMmsString s) = w_primitive (tag_context 16 False) (as_bytes s)"
| "mms_encode (MUtc u) = w_primitive (tag_context 17 False) u"
| "mms_encode (MBinaryTime b) = w_primitive (tag_context 12 False) b"
| "mms_encode (MStructure items) = w_tlv (tag_context 2 True) (\<lambda>w. fold mms_encode items w)"
| "mms_encode (MArray items) = w_tlv (tag_context 1 True) (\<lambda>w. fold mms_encode items w)"

section \<open>Equality\<close>

text \<open>The derived \<open>PartialEq\<close>: structural, except that floats are compared as floats.\<close>

fun mms_eq :: "mms_data \<Rightarrow> mms_data \<Rightarrow> bool" where
  "mms_eq (MFloat a) (MFloat b) = f64_eq a b"
| "mms_eq (MStructure xs) (MStructure ys) = list_all2 mms_eq xs ys"
| "mms_eq (MArray xs) (MArray ys) = list_all2 mms_eq xs ys"
| "mms_eq a b = (a = b)"

section \<open>Accessors\<close>

fun as_bool :: "mms_data \<Rightarrow> bool option" where
  "as_bool (MBool b) = Some b"
| "as_bool _ = None"

fun as_i64 :: "mms_data \<Rightarrow> u64 option" where
  "as_i64 (MInt v) = Some v"
| "as_i64 (MUint v) = (if unat v < 2 ^ 63 then Some v else None)"
| "as_i64 _ = None"

fun as_f64 :: "mms_data \<Rightarrow> u64 option" where
  "as_f64 (MFloat v) = Some v"
| "as_f64 _ = None"

fun as_str :: "mms_data \<Rightarrow> string option" where
  "as_str (MVisible s) = Some s"
| "as_str (MMmsString s) = Some s"
| "as_str _ = None"

section \<open>Reference encoding\<close>

text \<open>The octets of a value as nested TLVs with the lengths computed beforehand.\<close>

fun mms_tag :: "mms_data \<Rightarrow> tag" where
  "mms_tag (MBool v) = tag_context 3 False"
| "mms_tag (MInt v) = tag_context 5 False"
| "mms_tag (MUint v) = tag_context 6 False"
| "mms_tag (MFloat v) = tag_context 7 False"
| "mms_tag (MBitString b) = tag_context 4 False"
| "mms_tag (MOctets b) = tag_context 9 False"
| "mms_tag (MVisible s) = tag_context 10 False"
| "mms_tag (MMmsString s) = tag_context 16 False"
| "mms_tag (MUtc u) = tag_context 17 False"
| "mms_tag (MBinaryTime b) = tag_context 12 False"
| "mms_tag (MStructure items) = tag_context 2 True"
| "mms_tag (MArray items) = tag_context 1 True"

fun mms_content :: "mms_data \<Rightarrow> bytes" where
  "mms_content (MBool v) = encode_bool v"
| "mms_content (MInt v) = encode_integer v"
| "mms_content (MUint v) = encode_unsigned v"
| "mms_content (MFloat v) = encode_float v"
| "mms_content (MBitString b) = unused_bits b # bs_bytes b"
| "mms_content (MOctets b) = b"
| "mms_content (MVisible s) = as_bytes s"
| "mms_content (MMmsString s) = as_bytes s"
| "mms_content (MUtc u) = u"
| "mms_content (MBinaryTime b) = b"
| "mms_content (MStructure items) = concat (map (\<lambda>d. tlv_bytes (mms_tag d) (mms_content d)) items)"
| "mms_content (MArray items) = concat (map (\<lambda>d. tlv_bytes (mms_tag d) (mms_content d)) items)"

definition mms_bytes :: "mms_data \<Rightarrow> bytes" where
  "mms_bytes d = tlv_bytes (mms_tag d) (mms_content d)"

lemma mms_encode_put [wire]: "mms_encode d = put (mms_bytes d)"
proof (induction d)
  case (MStructure xs)
  then have "fold mms_encode xs = put (mms_content (MStructure xs))"
    by (intro ext) (auto simp: mms_bytes_def intro!: fold_put)
  then show ?case by (simp add: w_tlv_put mms_bytes_def)
next
  case (MArray xs)
  then have "fold mms_encode xs = put (mms_content (MArray xs))"
    by (intro ext) (auto simp: mms_bytes_def intro!: fold_put)
  then show ?case by (simp add: w_tlv_put mms_bytes_def)
qed (simp_all add: w_ops w_primitive_put mms_bytes_def)

text \<open>The values a Rust program can hold, and the levels of nesting.\<close>

fun mms_ok :: "mms_data \<Rightarrow> bool" where
  "mms_ok (MBitString b) \<longleftrightarrow> unused_bits b \<le> 7"
| "mms_ok (MVisible s) \<longleftrightarrow> str_ok s"
| "mms_ok (MMmsString s) \<longleftrightarrow> str_ok s"
| "mms_ok (MUtc u) \<longleftrightarrow> utc_ok u"
| "mms_ok (MStructure items) \<longleftrightarrow> list_all mms_ok items"
| "mms_ok (MArray items) \<longleftrightarrow> list_all mms_ok items"
| "mms_ok _ \<longleftrightarrow> True"

fun mms_depth :: "mms_data \<Rightarrow> nat" where
  "mms_depth (MStructure items) = Suc (foldr (\<lambda>d m. max (mms_depth d) m) items 0)"
| "mms_depth (MArray items) = Suc (foldr (\<lambda>d m. max (mms_depth d) m) items 0)"
| "mms_depth _ = 0"

section \<open>Round trip\<close>

lemma float_zeros:
  "f64_to_f32 0 = 0" "f64_to_f32 0x8000000000000000 = 0x80000000"
  "f32_to_f64 0 = 0" "f32_to_f64 0x80000000 = 0x8000000000000000"
  by (simp add: f64_to_f32_def Let_def, simp add: f64_to_f32_def Let_def,
      simp add: f32_to_f64_def Let_def, simp add: f32_to_f64_def Let_def)

lemma f64_eq_bits:
  assumes "f64_eq (f32_to_f64 (f64_to_f32 v)) v"
  shows "f32_to_f64 (f64_to_f32 v) = v"
proof (cases "unat v mod 2 ^ 63 = 0")
  case True
  have "unat v < 2 ^ 64" using unsigned_less [of v, where ?'a = nat] by simp
  then have "unat v div 2 ^ 63 < 2" by (simp add: less_mult_imp_div_less)
  then have "unat v div 2 ^ 63 = 0 \<or> unat v div 2 ^ 63 = 1" by linarith
  moreover have "unat v = unat v div 2 ^ 63 * 2 ^ 63"
    using True div_mult_mod_eq [of "unat v" "2 ^ 63"] by linarith
  ultimately have "unat v = 0 \<or> unat v = 2 ^ 63"
    by (metis mult_0 mult_1)
  then show ?thesis
  proof
    assume "unat v = 0"
    then have "v = 0" by (simp add: unat_eq_0)
    then show ?thesis by (simp add: float_zeros)
  next
    assume "unat v = 2 ^ 63"
    then have "word_of_nat (unat v) = (word_of_nat (2 ^ 63) :: u64)" by (rule arg_cong)
    then have "v = 0x8000000000000000" by simp
    then show ?thesis by (simp add: float_zeros)
  qed
next
  case False
  then show ?thesis using assms by (auto simp: f64_eq_def)
qed

lemma decode_encode_float [wire]: "decode_float (encode_float v) = Inr v"
  using f64_eq_bits [of v]
  by (auto simp: encode_float_def decode_float_def Let_def split: list.splits)

lemma decode_bit_string_Cons [wire]:
  "unused_bits b \<le> 7 \<Longrightarrow> decode_bit_string (unused_bits b # bs_bytes b) = Inr b"
  by (simp add: decode_bit_string_def linorder_not_less [symmetric])

lemma number_context [simp]:
  "number (tag_context n c) = n" "constructed (tag_context n c) = c" "tclass (tag_context n c) = Context"
  by (simp_all add: tag_context_def)

definition depth_result :: "nat \<Rightarrow> nat \<Rightarrow> 'a \<Rightarrow> ber_error + 'a" where
  "depth_result depth k x = (if depth + k \<le> max_nesting_depth then Inr x else Inl DepthExceeded)"

definition decodes :: "mms_data \<Rightarrow> bool" where
  "decodes d \<longleftrightarrow> (\<forall>n \<le> max_nesting_depth.
     decode_at \<lparr>tlv_tag = mms_tag d, tlv_content = mms_content d\<rparr> n = depth_result (mms_depth d) n d)"

lemma decode_items_bytes:
  assumes "\<forall>d \<in> set ds. decodes d" "n < max_nesting_depth"
    and "length pre + length (concat (map mms_bytes ds)) < usize_limit"
  shows "decode_items (rd_at pre (concat (map mms_bytes ds))) n out =
    depth_result (Suc (foldr (\<lambda>d m. max (mms_depth d) m) ds 0)) n (out @ ds)"
  using assms
proof (induction ds arbitrary: pre out)
  case Nil
  then show ?case by (subst decode_items.simps) (simp add: depth_result_def)
next
  case (Cons d ds)
  have read: "read_tlv (rd_at pre (mms_bytes d @ concat (map mms_bytes ds))) =
      (Inr \<lparr>tlv_tag = mms_tag d, tlv_content = mms_content d\<rparr>,
       rd_at (pre @ mms_bytes d) (concat (map mms_bytes ds)))"
    using Cons.prems(3) by (simp add: mms_bytes_def read_tlv_at)
  have head: "decode_at \<lparr>tlv_tag = mms_tag d, tlv_content = mms_content d\<rparr> (Suc n) =
      depth_result (mms_depth d) (Suc n) d"
    using Cons.prems(1,2) by (simp add: decodes_def)
  have tail: "decode_items (rd_at (pre @ mms_bytes d) (concat (map mms_bytes ds))) n (out @ [d]) =
      depth_result (Suc (foldr (\<lambda>d m. max (mms_depth d) m) ds 0)) n ((out @ [d]) @ ds)"
    using Cons.prems by (intro Cons.IH) auto
  have "\<not> rd_is_empty (rd_at pre (mms_bytes d @ concat (map mms_bytes ds)))"
    by (simp add: mms_bytes_def)
  then show ?case
    by (subst decode_items.simps) (auto simp: read head tail depth_result_def)
qed

lemma decode_list_bytes:
  assumes "\<forall>d \<in> set ds. decodes d" "n \<le> max_nesting_depth"
    and "length (concat (map mms_bytes ds)) < usize_limit"
  shows "decode_list (concat (map mms_bytes ds)) n =
    depth_result (Suc (foldr (\<lambda>d m. max (mms_depth d) m) ds 0)) n ds"
proof (cases "n = max_nesting_depth")
  case True
  then show ?thesis by (simp add: decode_list.simps depth_result_def)
next
  case False
  then show ?thesis
    using decode_items_bytes [OF assms(1), of n "[]" "[]"] assms
    by (simp add: decode_list.simps reader_new_at)
qed

lemma length_content_le:
  "d \<in> set ds \<Longrightarrow> length (mms_content d) \<le> length (concat (map mms_bytes ds))"
proof (induction ds)
  case (Cons e ds)
  have "length (mms_content e) \<le> length (mms_bytes e)"
    using length_content_less [of "mms_content e" "mms_tag e"] by (simp add: mms_bytes_def)
  with Cons show ?case by auto
qed simp

lemma mms_content_concat:
  "mms_content (MStructure ds) = concat (map mms_bytes ds)"
  "mms_content (MArray ds) = concat (map mms_bytes ds)"
  by (simp_all add: mms_bytes_def [abs_def])

lemma mms_decodes: "mms_ok d \<Longrightarrow> length (mms_content d) < usize_limit \<Longrightarrow> decodes d"
proof (induction d)
  case (MStructure ds)
  have len: "length (concat (map mms_bytes ds)) < usize_limit"
    using MStructure.prems(2) by (simp only: mms_content_concat)
  have ok: "\<forall>d \<in> set ds. mms_ok d"
    using MStructure.prems(1) by (simp add: list_all_iff)
  have all: "\<forall>d \<in> set ds. decodes d"
    using MStructure.IH ok le_less_trans [OF length_content_le len] by blast
  show ?case
    unfolding decodes_def mms_content_concat decode_at.simps Let_def
    using decode_list_bytes [OF all _ len] by (simp add: depth_result_def)
next
  case (MArray ds)
  have len: "length (concat (map mms_bytes ds)) < usize_limit"
    using MArray.prems(2) by (simp only: mms_content_concat)
  have ok: "\<forall>d \<in> set ds. mms_ok d"
    using MArray.prems(1) by (simp add: list_all_iff)
  have all: "\<forall>d \<in> set ds. decodes d"
    using MArray.IH ok le_less_trans [OF length_content_le len] by blast
  show ?case
    unfolding decodes_def mms_content_concat decode_at.simps Let_def
    using decode_list_bytes [OF all _ len] by (simp add: depth_result_def)
qed (simp_all add: decodes_def decode_at.simps Let_def depth_result_def wire utc_ok_def del: encode_bool_def)

lemma decode_data_bytes:
  assumes "mms_ok d" "length (mms_bytes d) < usize_limit"
  shows "decode_data (mms_bytes d) = depth_result (mms_depth d) 0 d"
proof -
  have "length (mms_content d) < usize_limit"
    using assms(2) length_content_less [of "mms_content d" "mms_tag d"] by (simp add: mms_bytes_def)
  from mms_decodes [OF assms(1) this] show ?thesis
    using assms(2) by (simp add: decode_data_def mms_bytes_def read_tlv_single mms_decode_def decodes_def)
qed

section \<open>What decoding can return\<close>

lemma utf8_len: "from_utf8 c = Some s \<Longrightarrow> str_ok s"
  using from_utf8_SomeD by blast

lemma decode_at_Inr:
  assumes "decode_at t n = Inr d"
  shows "(mms_ok d \<and> mms_depth d = 0) \<or>
    (\<exists>xs. decode_list (tlv_content t) n = Inr xs \<and>
      (d = MStructure xs \<and> number (tlv_tag t) = 2 \<and> constructed (tlv_tag t) \<or>
       d = MArray xs \<and> number (tlv_tag t) = 1 \<and> constructed (tlv_tag t)))"
  using assms
  by (simp add: decode_at.simps [of t n] Let_def bindE_Inr_iff split: if_splits)
    (auto simp: decode_bit_string_def utc_ok_def decode_visible_string_def utf8_len
      linorder_not_less split: if_splits list.splits)

lemma decoded_shape:
  "decode_at t n = Inr d \<Longrightarrow> n \<le> max_nesting_depth \<Longrightarrow> mms_ok d \<and> mms_depth d + n \<le> max_nesting_depth"
  "decode_list c n = Inr ds \<Longrightarrow> n \<le> max_nesting_depth \<Longrightarrow>
     list_all mms_ok ds \<and> Suc (foldr (\<lambda>d m. max (mms_depth d) m) ds 0) + n \<le> max_nesting_depth"
  "decode_items r n out = Inr rs \<Longrightarrow> n < max_nesting_depth \<Longrightarrow>
     \<exists>es. rs = out @ es \<and> list_all mms_ok es \<and>
       Suc (foldr (\<lambda>d m. max (mms_depth d) m) es 0) + n \<le> max_nesting_depth"
proof (induction t n and c n and r n out arbitrary: d and ds and rs
    rule: decode_at_decode_list_decode_items.induct)
  case (1 t n)
  note IH = 1(1,2) [OF refl refl refl]
  from decode_at_Inr [OF 1(3)] show ?case
  proof (elim disjE exE conjE)
    fix xs
    assume "decode_list (tlv_content t) n = Inr xs" "d = MStructure xs"
      "number (tlv_tag t) = 2" "constructed (tlv_tag t)"
    with IH(1) [of xs] 1(4) show ?thesis by simp
  next
    fix xs
    assume "decode_list (tlv_content t) n = Inr xs" "d = MArray xs"
      "number (tlv_tag t) = 1" "constructed (tlv_tag t)"
    with IH(2) [of xs] 1(4) show ?thesis by simp
  qed (use 1(4) in simp)
next
  case (2 c n)
  then show ?case
    by (fastforce simp: decode_list.simps [of c n] split: if_splits)
next
  case (3 r n out)
  show ?case
  proof (cases "rd_is_empty r")
    case True
    then show ?thesis using 3(3,4) by (simp add: decode_items.simps)
  next
    case False
    obtain t r' e where read: "read_tlv r = (Inr t, r')" and e: "decode_at t (n + 1) = Inr e"
      and rest: "decode_items r' n (out @ [e]) = Inr rs"
      using 3(3) False decode_items.simps [of r n out]
      by (auto simp: bindE_Inr_iff split: prod.splits sum.splits)
    have "mms_ok e \<and> mms_depth e + (n + 1) \<le> max_nesting_depth"
      using 3(1) [OF False] read e 3(4) by simp
    moreover from 3(2) [OF False] read e rest 3(4) obtain es where
      "rs = (out @ [e]) @ es" "list_all mms_ok es"
      "Suc (foldr (\<lambda>d m. max (mms_depth d) m) es 0) + n \<le> max_nesting_depth" by fastforce
    ultimately show ?thesis by (intro exI [of _ "e # es"]) auto
  qed
qed

lemmas mms_data_evals [evals] = mms_bytes_def mms_decode_def decode_data_def decode_at.simps
  decode_list.simps decode_items.simps max_nesting_depth_def

text \<open>The values a data set, a report or a service can carry.\<close>

definition data_ok :: "mms_data \<Rightarrow> bool" where
  "data_ok d \<longleftrightarrow> mms_ok d \<and> mms_depth d \<le> max_nesting_depth"

lemma data_decodes:
  "data_ok d \<Longrightarrow> length (mms_content d) < usize_limit \<Longrightarrow>
    mms_decode \<lparr>tlv_tag = mms_tag d, tlv_content = mms_content d\<rparr> = Inr d"
  using mms_decodes [of d] by (simp add: mms_decode_def decodes_def depth_result_def data_ok_def)

section \<open>Properties\<close>

text \<open>C2: A well-formed MMS value round-trips through the codec exactly (floats bit for bit) when
  it is nested at most \<open>MAX_NESTING_DEPTH\<close> levels; a deeper one is rejected with
  \<open>DepthExceeded\<close>.\<close>

theorem mms_roundtrip:
  assumes "mms_ok d" "length (into_bytes (mms_encode d writer_new)) < usize_limit"
  shows "decode_data (into_bytes (mms_encode d writer_new)) =
    (if mms_depth d \<le> max_nesting_depth then Inr d else Inl DepthExceeded)"
  using decode_data_bytes [of d] assms by (simp add: wire depth_result_def)

theorem mms_roundtrip_witness:
  "decode_data (into_bytes (mms_encode (MStructure [MInt 1, MVisible ''x'', MArray [MBool True]])
     writer_new)) = Inr (MStructure [MInt 1, MVisible ''x'', MArray [MBool True]])"
proof -
  let ?d = "MStructure [MInt 1, MVisible ''x'', MArray [MBool True]]"
  have s: "str_ok ''x''"
    by (simp add: evals)
  have "length (into_bytes (mms_encode ?d writer_new)) < usize_limit"
    by (simp add: wire evals)
  from mms_roundtrip [OF _ this] s show ?thesis
    by (simp add: max_nesting_depth_def)
qed

text \<open>Decoding any octets ends, and what it returns is well formed and nested at most
  \<open>MAX_NESTING_DEPTH\<close> levels; encoding the result and decoding it again gives the same value.\<close>

theorem mms_decode_shape:
  assumes "decode_data bs = Inr d"
  shows "mms_ok d \<and> mms_depth d \<le> max_nesting_depth \<and>
    (length (mms_bytes d) < usize_limit \<longrightarrow>
      decode_data (into_bytes (mms_encode d writer_new)) = Inr d)"
proof -
  obtain t where "decode_at t 0 = Inr d"
    using assms by (auto simp: decode_data_def mms_decode_def bindE_Inr_iff)
  then have "mms_ok d \<and> mms_depth d \<le> max_nesting_depth"
    using decoded_shape(1) by fastforce
  then show ?thesis
    using decode_data_bytes [of d] by (simp add: wire depth_result_def)
qed

end
