(* ===== verification/Sha256.thy ===== *)
theory Sha256 imports Prelude begin

text \<open>
  SHA-256 of \<open>crates/iec61850-l2/src/auth.rs\<close>: the round constants, the compression function on
  one block of 64 octets, and the incremental state (\<open>new\<close>, \<open>consume\<close>, \<open>update\<close>, \<open>finalize\<close>)
  with its partly filled buffer. An array is a list whose length the invariant fixes. The main
  lemma is a refinement: feeding a message in any number of pieces and finalizing gives the
  hash of the padded message taken block by block.
\<close>

unbundle bit_operations_syntax

section \<open>Constants\<close>

definition sha_H0 :: "u32 list" where
  "sha_H0 =
   [1779033703, 3144134277, 1013904242, 2773480762, 1359893119, 2600822924, 528734635, 1541459225]"

definition sha_K :: "u32 list" where
  "sha_K =
   [1116352408, 1899447441, 3049323471, 3921009573, 961987163, 1508970993, 2453635748, 2870763221,
    3624381080, 310598401, 607225278, 1426881987, 1925078388, 2162078206, 2614888103, 3248222580,
    3835390401, 4022224774, 264347078, 604807628, 770255983, 1249150122, 1555081692, 1996064986,
    2554220882, 2821834349, 2952996808, 3210313671, 3336571891, 3584528711, 113926993, 338241895,
    666307205, 773529912, 1294757372, 1396182291, 1695183700, 1986661051, 2177026350, 2456956037,
    2730485921, 2820302411, 3259730800, 3345764771, 3516065817, 3600352804, 4094571909, 275423344,
    430227734, 506948616, 659060556, 883997877, 958139571, 1322822218, 1537002063, 1747873779,
    1955562222, 2024104815, 2227730452, 2361852424, 2428436474, 2756734187, 3204031479, 3329325298]"

definition sha_block :: nat where
  "sha_block = 64"

section \<open>Compression\<close>

definition small_sigma0 :: "u32 \<Rightarrow> u32" where
  "small_sigma0 x = word_rotr 7 x XOR word_rotr 18 x XOR drop_bit 3 x"

definition small_sigma1 :: "u32 \<Rightarrow> u32" where
  "small_sigma1 x = word_rotr 17 x XOR word_rotr 19 x XOR drop_bit 10 x"

text \<open>The array \<open>w\<close>: 16 words of the block, then the recurrence for the indices 16 to 63.\<close>

definition schedule :: "bytes \<Rightarrow> u32 list" where
  "schedule block =
    fold (\<lambda>i w. w[i := w ! (i - 16) + small_sigma0 (w ! (i - 15)) + w ! (i - 7)
                      + small_sigma1 (w ! (i - 2))])
      [16..<64]
      (map (\<lambda>i. from_be (take 4 (drop (4 * i) block))) [0..<16] @ replicate 48 0)"

type_synonym sha_regs = "u32 \<times> u32 \<times> u32 \<times> u32 \<times> u32 \<times> u32 \<times> u32 \<times> u32"

definition sha_round :: "u32 \<Rightarrow> u32 \<Rightarrow> sha_regs \<Rightarrow> sha_regs" where
  "sha_round k w = (\<lambda>(a, b, c, d, e, f, g, h).
    let s1 = word_rotr 6 e XOR word_rotr 11 e XOR word_rotr 25 e;
        ch = (e AND f) XOR (NOT e AND g);
        t1 = h + s1 + ch + k + w;
        s0 = word_rotr 2 a XOR word_rotr 13 a XOR word_rotr 22 a;
        maj = (a AND b) XOR (a AND c) XOR (b AND c);
        t2 = s0 + maj
    in (t1 + t2, a, b, c, d + t1, e, f, g))"

definition compress :: "u32 list \<Rightarrow> bytes \<Rightarrow> u32 list" where
  "compress state block =
    (let w = schedule block;
         (a, b, c, d, e, f, g, h) =
           fold (\<lambda>i. sha_round (sha_K ! i) (w ! i)) [0..<64]
             (state ! 0, state ! 1, state ! 2, state ! 3, state ! 4, state ! 5, state ! 6, state ! 7)
     in map2 (+) state [a, b, c, d, e, f, g, h])"

section \<open>The incremental state\<close>

record sha256_state =
  sha_state :: "u32 list"
  sha_buf :: bytes
  sha_buf_len :: nat
  sha_total :: u64

definition sha_new :: sha256_state where
  "sha_new = \<lparr>sha_state = sha_H0, sha_buf = replicate sha_block 0, sha_buf_len = 0, sha_total = 0\<rparr>"

text \<open>\<open>dst[at..at + src.len()].copy_from_slice(src)\<close>.\<close>

definition copy_at :: "nat \<Rightarrow> 'a list \<Rightarrow> 'a list \<Rightarrow> 'a list" where
  "copy_at p src dst = take p dst @ src @ drop (p + length src) dst"

text \<open>The \<open>while\<close> loop of \<open>consume\<close>: whole blocks straight from the input.\<close>

function consume_blocks :: "u32 list \<Rightarrow> bytes \<Rightarrow> u32 list \<times> bytes" where
  "consume_blocks st data =
    (if length data < sha_block then (st, data)
     else consume_blocks (compress st (take sha_block data)) (drop sha_block data))"
  by pat_completeness auto
termination
  by (relation "measure (length \<circ> snd)") (auto simp: sha_block_def)

declare consume_blocks.simps [simp del]

text \<open>\<open>sha_fill\<close> is the first block of \<open>consume\<close>: a partly filled buffer takes what it needs.\<close>

definition sha_fill :: "sha256_state \<Rightarrow> bytes \<Rightarrow> sha256_state \<times> bytes" where
  "sha_fill s data =
    (if sha_buf_len s > 0 then
       let n = min (sha_block - sha_buf_len s) (length data);
           buf = copy_at (sha_buf_len s) (take n data) (sha_buf s);
           len = sha_buf_len s + n
       in if len = sha_block
          then (s\<lparr>sha_buf := buf, sha_buf_len := 0, sha_state := compress (sha_state s) buf\<rparr>,
                drop n data)
          else (s\<lparr>sha_buf := buf, sha_buf_len := len\<rparr>, drop n data)
     else (s, data))"

definition sha_consume :: "sha256_state \<Rightarrow> bytes \<Rightarrow> sha256_state" where
  "sha_consume s data =
    (let (s, data) = sha_fill s data;
         (st, data) = consume_blocks (sha_state s) data;
         s = s\<lparr>sha_state := st\<rparr>
     in if data \<noteq> [] then s\<lparr>sha_buf := copy_at 0 data (sha_buf s), sha_buf_len := length data\<rparr>
        else s)"

definition sha_update :: "sha256_state \<Rightarrow> bytes \<Rightarrow> sha256_state" where
  "sha_update s data = sha_consume (s\<lparr>sha_total := sha_total s + word_of_nat (length data)\<rparr>) data"

definition sha_finalize :: "sha256_state \<Rightarrow> bytes" where
  "sha_finalize s =
    (let bit_len = sha_total s * 8;
         pad = 0x80 # replicate (sha_block + 7) 0;
         r = (sha_buf_len s + 1) mod sha_block;
         zeros = (if r \<le> 56 then 56 - r else 56 + sha_block - r);
         s = sha_consume s (take (1 + zeros) pad);
         s = sha_consume s (to_be bit_len)
     in concat (map to_be (sha_state s)))"

definition sha256 :: "bytes \<Rightarrow> bytes" where
  "sha256 msg = sha_finalize (sha_update sha_new msg)"

section \<open>Reference\<close>

text \<open>The hash of a message in one go: the padded message, cut into blocks.\<close>

definition sha_pad :: "nat \<Rightarrow> bytes" where
  "sha_pad n = 0x80 # replicate ((119 - n mod 64) mod 64) 0 @ to_be (word_of_nat n * 8 :: u64)"

definition sha_hash :: "bytes \<Rightarrow> bytes" where
  "sha_hash msg =
    concat (map to_be (fst (consume_blocks sha_H0 (msg @ sha_pad (length msg)))))"

section \<open>Refinement\<close>

text \<open>What a state stands for: the message fed so far, except for the octet counter, which
  \<open>finalize\<close> does not advance.\<close>

definition sha_fed :: "sha256_state \<Rightarrow> bytes \<Rightarrow> bool" where
  "sha_fed s m \<longleftrightarrow> length (sha_buf s) = sha_block \<and> sha_buf_len s < sha_block \<and>
     consume_blocks sha_H0 m = (sha_state s, take (sha_buf_len s) (sha_buf s))"

lemma consume_blocks_short: "length d < sha_block \<Longrightarrow> consume_blocks st d = (st, d)"
  by (simp add: consume_blocks.simps)

lemma consume_blocks_length: "consume_blocks st d = (st', r) \<Longrightarrow> length r = length d mod sha_block"
proof (induction st d rule: consume_blocks.induct)
  case (1 st d)
  then show ?case
    by (cases "length d < sha_block")
      (auto simp: consume_blocks.simps [of st d] le_mod_geq linorder_not_less)
qed

lemma consume_blocks_append:
  "consume_blocks st (a @ b) = (case consume_blocks st a of (st', r) \<Rightarrow> consume_blocks st' (r @ b))"
proof (induction st a rule: consume_blocks.induct)
  case (1 st a)
  then show ?case
    by (cases "length a < sha_block")
      (simp add: consume_blocks_short, simp add: consume_blocks.simps [of st])
qed

lemma sha_fed_new: "sha_fed sha_new []"
  by (simp add: sha_fed_def sha_new_def consume_blocks_short sha_block_def)

lemma sha_fed_consume:
  assumes "sha_fed s m"
  shows "sha_fed (sha_consume s d) (m @ d)" "sha_total (sha_consume s d) = sha_total s"
proof -
  let ?k = "sha_buf_len s"
  let ?pre = "take ?k (sha_buf s)"
  from assms have len: "length (sha_buf s) = sha_block" "?k < sha_block"
    and m: "consume_blocks sha_H0 m = (sha_state s, ?pre)"
    by (auto simp: sha_fed_def)
  have md: "consume_blocks sha_H0 (m @ d) = consume_blocks (sha_state s) (?pre @ d)"
    using consume_blocks_append [of sha_H0 m d] by (simp add: m)
  show "sha_fed (sha_consume s d) (m @ d)" "sha_total (sha_consume s d) = sha_total s"
  proof -
    obtain st r where cb: "consume_blocks (sha_state s) (?pre @ d) = (st, r)"
      by (cases "consume_blocks (sha_state s) (?pre @ d)") auto
    then have r: "length r < sha_block"
      using consume_blocks_length [OF cb] by (simp add: sha_block_def)
    have "sha_fed (sha_consume s d) (m @ d) \<and> sha_total (sha_consume s d) = sha_total s"
    proof (cases "?k + length d < sha_block")
      case True
      then have "consume_blocks (sha_state s) (?pre @ d) = (sha_state s, ?pre @ d)"
        using len by (simp add: consume_blocks_short)
      then have fed: "consume_blocks sha_H0 (m @ d) = (sha_state s, ?pre @ d)"
        using md by simp
      have "length d < sha_block" using True by simp
      note short = consume_blocks_short [OF this]
      show ?thesis
      proof (cases "?k = 0")
        case True
        then show ?thesis
          using fed short len \<open>length d < sha_block\<close>
          by (simp add: sha_fed_def sha_consume_def sha_fill_def copy_at_def Let_def)
      next
        case False
        have "sha_fill s d =
            (s\<lparr>sha_buf := ?pre @ d @ drop (?k + length d) (sha_buf s), sha_buf_len := ?k + length d\<rparr>, [])"
          using False True len by (simp add: sha_fill_def copy_at_def Let_def)
        then show ?thesis
          using fed True len consume_blocks_short [of "[]"]
          by (simp add: sha_fed_def sha_consume_def sha_block_def Let_def)
      qed
    next
      case False
      show ?thesis
      proof (cases "?k = 0")
        case True
        then show ?thesis
          using len md cb r by (simp add: sha_fed_def sha_consume_def sha_fill_def copy_at_def Let_def)
      next
        case k: False
        let ?n = "sha_block - ?k"
        have "consume_blocks (sha_state s) (?pre @ d) =
            consume_blocks (compress (sha_state s) (?pre @ take ?n d)) (drop ?n d)"
          using False len by (subst consume_blocks.simps) auto
        then have full: "consume_blocks (compress (sha_state s) (?pre @ take ?n d)) (drop ?n d) = (st, r)"
          using cb by simp
        have "min ?n (length d) = ?n" using False len by simp
        then have "sha_fill s d =
            (s\<lparr>sha_buf := ?pre @ take ?n d, sha_buf_len := 0,
               sha_state := compress (sha_state s) (?pre @ take ?n d)\<rparr>, drop ?n d)"
          using k len by (simp add: sha_fill_def copy_at_def Let_def)
        moreover have "min (length d) ?n = ?n" using False len by simp
        ultimately show ?thesis
          using len md cb r full by (auto simp: sha_fed_def sha_consume_def copy_at_def Let_def)
      qed
    qed
    then show "sha_fed (sha_consume s d) (m @ d)" "sha_total (sha_consume s d) = sha_total s"
      by auto
  qed
qed

lemma sha_fed_update:
  assumes "sha_fed s m"
  shows "sha_fed (sha_update s d) (m @ d)"
    "sha_total (sha_update s d) = sha_total s + word_of_nat (length d)"
  using sha_fed_consume [of "s\<lparr>sha_total := sha_total s + word_of_nat (length d)\<rparr>" m d] assms
  by (simp_all add: sha_update_def sha_fed_def)

text \<open>The padding of \<open>finalize\<close> fills the last block exactly.\<close>

lemma sha_zeros:
  assumes "k = n mod (64 :: nat)"
  shows "(let r = (k + 1) mod 64 in if r \<le> 56 then 56 - r else 56 + 64 - r) = (119 - n mod 64) mod 64"
    "(119 - n mod 64) mod 64 \<le> 63"
proof -
  have k: "k < 64" using assms by simp
  show "(let r = (k + 1) mod 64 in if r \<le> 56 then 56 - r else 56 + 64 - r) = (119 - n mod 64) mod 64"
    unfolding assms [symmetric] Let_def using k by (auto simp: mod_if)
  show "(119 - n mod 64) mod 64 \<le> 63" by simp
qed

lemma sha_finalize_fed:
  assumes "sha_fed s m" "sha_total s = word_of_nat (length m)"
  shows "sha_finalize s = sha_hash m"
proof -
  let ?z = "(119 - length m mod 64) mod 64"
  let ?pad = "0x80 # replicate ?z (0 :: u8)"
  have k: "sha_buf_len s = length m mod 64"
    using assms(1) consume_blocks_length [of sha_H0 m]
    by (auto simp: sha_fed_def sha_block_def)
  have pad: "take (1 + ?z) (0x80 # replicate (sha_block + 7) 0) = ?pad"
    using sha_zeros(2) [OF k] by (simp add: sha_block_def)
  let ?s = "sha_consume (sha_consume s ?pad) (to_be (sha_total s * 8))"
  have "sha_fed ?s ((m @ ?pad) @ to_be (sha_total s * 8))"
    using sha_fed_consume(1) [OF sha_fed_consume(1) [OF assms(1)]] .
  then have "fst (consume_blocks sha_H0 (m @ sha_pad (length m))) = sha_state ?s"
    by (simp add: sha_fed_def sha_pad_def assms(2))
  moreover have "sha_finalize s = concat (map to_be (sha_state ?s))"
  proof -
    have "(let r = (sha_buf_len s + 1) mod sha_block
        in if r \<le> 56 then 56 - r else 56 + sha_block - r) = ?z"
      using sha_zeros(1) [OF k] by (simp only: sha_block_def)
    then show ?thesis
      using pad unfolding sha_finalize_def Let_def by (simp only: list.simps)
  qed
  ultimately show ?thesis
    by (simp add: sha_hash_def)
qed

lemma sha256_hash: "sha256 m = sha_hash m"
  using sha_finalize_fed [of "sha_update sha_new m" m] sha_fed_update [OF sha_fed_new, of m]
  by (simp add: sha256_def sha_new_def)

lemma sha_fed_chunks:
  "sha_fed s m \<Longrightarrow> sha_total s = word_of_nat (length m) \<Longrightarrow>
    sha_finalize (foldl sha_update s ds) = sha_hash (m @ concat ds)"
proof (induction ds arbitrary: s m)
  case Nil
  then show ?case by (simp add: sha_finalize_fed)
next
  case (Cons d ds)
  then show ?case
    using Cons.IH [of "sha_update s d" "m @ d"] sha_fed_update [of s m d] by simp
qed

lemma length_sha_round_regs [simp]: "length (compress st b) = min (length st) 8"
  by (auto simp: compress_def Let_def numeral_eq_Suc split: prod.split)

lemma consume_blocks_state: "length st = 8 \<Longrightarrow> length (fst (consume_blocks st d)) = 8"
  by (induction st d rule: consume_blocks.induct) (subst consume_blocks.simps, simp)

lemma length_sha_hash [simp]: "length (sha_hash m) = 32"
proof -
  have "length (fst (consume_blocks sha_H0 d)) = 8" for d
    by (rule consume_blocks_state) (simp add: sha_H0_def)
  moreover have "length (concat (map to_be xs)) = 4 * length xs" for xs :: "u32 list"
    by (induction xs) auto
  ultimately show ?thesis by (simp add: sha_hash_def)
qed

lemma length_sha256 [simp]: "length (sha256 m) = 32"
  by (simp add: sha256_hash)

section \<open>Properties\<close>

text \<open>C25: Hashing incrementally is hashing at once: a message fed in any pieces (empty ones and
  pieces that end inside a block included) and finalized gives the hash of the whole message,
  padded with 0x80, zeros and its 64-bit bit length to a multiple of 64 octets.\<close>

theorem sha256_incremental:
  "sha_finalize (foldl sha_update sha_new ds) = sha_hash (concat ds) \<and>
   64 dvd length (concat ds @ sha_pad (length (concat ds)))"
proof
  show "sha_finalize (foldl sha_update sha_new ds) = sha_hash (concat ds)"
    using sha_fed_chunks [OF sha_fed_new, of ds] by (simp add: sha_new_def)
  have "64 dvd n + (1 + ((119 - n mod 64) mod 64 + 8))" for n :: nat
  proof -
    obtain q k where n: "n = 64 * q + k" and k: "k < 64"
      by (metis div_mult_mod_eq mod_less_divisor mult.commute zero_less_numeral)
    have "(119 - k) mod 64 = (if k \<le> 55 then 55 - k else 119 - k)"
      using k by (auto simp: mod_if)
    then have "n + (1 + ((119 - n mod 64) mod 64 + 8)) = 64 * (q + (if k \<le> 55 then 1 else 2))"
      using k by (simp add: n)
    then show ?thesis by (metis dvd_triv_left)
  qed
  then show "64 dvd length (concat ds @ sha_pad (length (concat ds)))"
    by (simp add: sha_pad_def)
qed

end
