(* ===== verification/L2Auth.thy ===== *)
theory L2Auth imports Sha256 begin

text \<open>
  Authentication of GOOSE/SV frames, the rest of \<open>crates/iec61850-l2/src/auth.rs\<close> with
  \<open>sign.rs\<close> and \<open>keystore.rs\<close>: HMAC-SHA256, the group key ring with its validity windows, and
  the \<open>Signer\<close> / \<open>Verifier\<close> enumerations. The ECDSA operations come from the crate \<open>p256\<close>: a key is
  of an arbitrary type, signing and verifying are parameters. The clock of \<open>now_secs\<close> is a
  parameter of each call that reads it. The locale states what a frame needs of a signer and a
  verifier; it is interpreted on HMAC keys.
\<close>

unbundle bit_operations_syntax

datatype auth_status = AuthUnsigned | AuthValid | AuthInvalid

section \<open>The interface of a frame's signer and verifier\<close>

locale frame_auth =
  fixes tag_len :: nat
    and sign_tag :: "bytes \<Rightarrow> bytes"
    and verify_tag :: "bytes \<Rightarrow> bytes \<Rightarrow> bool"
  assumes sign_tag_len: "length (sign_tag d) = tag_len"
    and verify_sign: "verify_tag d (sign_tag d)"

section \<open>HMAC\<close>

definition hmac_sha256_tag_len :: nat where
  "hmac_sha256_tag_len = 32"

record hmac_key =
  ipad :: bytes
  opad :: bytes

definition hmac_new :: "bytes \<Rightarrow> hmac_key" where
  "hmac_new key =
    (let k = (if length key > sha_block
              then copy_at 0 (sha256 key) (replicate sha_block 0)
              else copy_at 0 key (replicate sha_block 0))
     in \<lparr>ipad = map2 (XOR) (replicate sha_block 0x36) k,
         opad = map2 (XOR) (replicate sha_block 0x5c) k\<rparr>)"

definition hmac_mac :: "hmac_key \<Rightarrow> bytes \<Rightarrow> bytes" where
  "hmac_mac k msg =
    (let inner_hash = sha_finalize (sha_update (sha_update sha_new (ipad k)) msg)
     in sha_finalize (sha_update (sha_update sha_new (opad k)) inner_hash))"

definition ct_eq :: "bytes \<Rightarrow> bytes \<Rightarrow> bool" where
  "ct_eq a b \<longleftrightarrow> length a = length b \<and>
     foldl (\<lambda>diff i. diff OR (a ! i XOR b ! i)) 0 [0..<length a] = 0"

definition hmac_verify :: "hmac_key \<Rightarrow> bytes \<Rightarrow> bytes \<Rightarrow> bool" where
  "hmac_verify k msg tag \<longleftrightarrow> length tag = hmac_sha256_tag_len \<and> ct_eq (hmac_mac k msg) tag"

text \<open>HMAC as RFC 2104 states it, over the one-shot hash.\<close>

definition hmac_spec :: "bytes \<Rightarrow> bytes \<Rightarrow> bytes" where
  "hmac_spec key msg =
    (let k0 = (if length key > 64 then sha_hash key else key);
         k = k0 @ replicate (64 - length k0) 0
     in sha_hash (map (\<lambda>x. x XOR 0x5c) k @ sha_hash (map (\<lambda>x. x XOR 0x36) k @ msg)))"

lemma hmac_mac_hash: "hmac_mac k msg = sha_hash (opad k @ sha_hash (ipad k @ msg))"
  using sha_fed_chunks [OF sha_fed_new, of "[ipad k, msg]"]
    sha_fed_chunks [OF sha_fed_new, of "[opad k, sha_hash (ipad k @ msg)]"]
  by (simp add: hmac_mac_def sha_new_def)

lemma length_hmac_mac [simp]: "length (hmac_mac k msg) = 32"
  by (simp add: hmac_mac_hash)

lemma map2_replicate: "map2 f (replicate (length ys) x) ys = map (f x) ys"
  by (induction ys) auto

lemma hmac_mac_spec: "hmac_mac (hmac_new key) msg = hmac_spec key msg"
proof -
  define k0 where "k0 = (if length key > 64 then sha_hash key else key)"
  define k where "k = k0 @ replicate (64 - length k0) 0"
  have "length k0 \<le> 64" by (simp add: k0_def)
  then have l: "length k = 64" by (simp add: k_def)
  have "hmac_new key = \<lparr>ipad = map2 (XOR) (replicate (length k) 0x36) k,
      opad = map2 (XOR) (replicate (length k) 0x5c) k\<rparr>"
    unfolding l by (simp add: hmac_new_def copy_at_def sha_block_def k_def k0_def sha256_hash Let_def)
  then have "hmac_new key = \<lparr>ipad = map (\<lambda>x. x XOR 0x36) k, opad = map (\<lambda>x. x XOR 0x5c) k\<rparr>"
    unfolding map2_replicate by (simp add: xor.commute)
  then show ?thesis
    by (simp add: hmac_mac_hash hmac_spec_def k_def k0_def Let_def)
qed

lemma or_eq_0_word: "(a :: u8) OR b = 0 \<longleftrightarrow> a = 0 \<and> b = 0"
  by (rule or_eq_0_iff)

lemma xor_eq_0_word: "(a :: u8) XOR b = 0 \<longleftrightarrow> a = b"
  by (auto simp: bit_eq_iff bit_xor_iff)

lemma ct_eq_iff: "ct_eq a b \<longleftrightarrow> a = b"
proof -
  have "foldl (\<lambda>diff i. diff OR (a ! i XOR b ! i)) d js = 0 \<longleftrightarrow>
      d = 0 \<and> (\<forall>i \<in> set js. a ! i = b ! i)" for d js
  proof (induction js arbitrary: d)
    case (Cons j js)
    then show ?case by (simp add: or_eq_0_word xor_eq_0_word conj_assoc)
  qed simp
  from this [of 0 "[0..<length a]"] show ?thesis
    unfolding ct_eq_def list_eq_iff_nth_eq by auto
qed

lemma hmac_verify_iff: "hmac_verify k msg tag \<longleftrightarrow> tag = hmac_mac k msg"
  by (auto simp: hmac_verify_def hmac_sha256_tag_len_def ct_eq_iff)

interpretation hmac: frame_auth hmac_sha256_tag_len "hmac_mac k" "hmac_verify k" for k
  by unfold_locales (simp_all add: hmac_sha256_tag_len_def hmac_verify_iff)

section \<open>Key rings\<close>

text \<open>\<open>KeyEntry<T>\<close> and \<open>KeyRing<T>\<close>; datatypes, since \<open>Signer\<close> recurs through them.\<close>

datatype 'm key_entry =
  KeyEntry (key_id: u32) (not_before: u64) (not_after: u64) (material: 'm)

datatype 'm key_ring = KeyRing (ring_entries: "'m key_entry list")

definition valid_at :: "'m key_entry \<Rightarrow> u64 \<Rightarrow> bool" where
  "valid_at e now \<longleftrightarrow> not_before e \<le> now \<and> now < not_after e"

definition ring_new :: "'m key_ring" where
  "ring_new = KeyRing []"

definition ring_insert :: "u32 \<Rightarrow> u64 \<Rightarrow> u64 \<Rightarrow> 'm \<Rightarrow> 'm key_ring \<Rightarrow> 'm key_ring" where
  "ring_insert k nb na m r = KeyRing (ring_entries r @ [KeyEntry k nb na m])"

definition ring_insert_permanent :: "u32 \<Rightarrow> 'm \<Rightarrow> 'm key_ring \<Rightarrow> 'm key_ring" where
  "ring_insert_permanent k m r = ring_insert k 0 (- 1) m r"

text \<open>\<open>Iterator::max_by_key\<close> returns the last of several maximal elements.\<close>

definition max_by_key :: "('a \<Rightarrow> 'k::linorder) \<Rightarrow> 'a list \<Rightarrow> 'a option" where
  "max_by_key key xs =
    foldl (\<lambda>best x. case best of None \<Rightarrow> Some x
                  | Some b \<Rightarrow> if key b \<le> key x then Some x else Some b) None xs"

definition ring_active :: "'m key_ring \<Rightarrow> u64 \<Rightarrow> 'm key_entry option" where
  "ring_active r now = max_by_key key_id (filter (\<lambda>e. valid_at e now) (ring_entries r))"

definition ring_valid :: "'m key_ring \<Rightarrow> u64 \<Rightarrow> 'm key_entry list" where
  "ring_valid r now = filter (\<lambda>e. valid_at e now) (ring_entries r)"

definition ring_purge_expired :: "'m key_ring \<Rightarrow> u64 \<Rightarrow> 'm key_ring" where
  "ring_purge_expired r now = KeyRing (filter (\<lambda>e. not_after e > now) (ring_entries r))"

definition ring_len :: "'m key_ring \<Rightarrow> nat" where
  "ring_len r = length (ring_entries r)"

definition ring_is_empty :: "'m key_ring \<Rightarrow> bool" where
  "ring_is_empty r \<longleftrightarrow> ring_entries r = []"

lemma max_by_key_fold:
  fixes key :: "'a \<Rightarrow> 'k::linorder"
  shows "\<exists>m. foldl (\<lambda>best x. case best of None \<Rightarrow> Some x
         | Some b \<Rightarrow> if key b \<le> key x then Some x else Some b) (Some b) xs = Some m \<and>
     (m = b \<or> m \<in> set xs) \<and> key b \<le> key m \<and> (\<forall>x \<in> set xs. key x \<le> key m)"
proof (induction xs arbitrary: b)
  case (Cons x xs)
  show ?case
  proof (cases "key b \<le> key x")
    case True
    then show ?thesis using Cons.IH [of x] by (auto intro: order_trans [OF True])
  next
    case False
    then show ?thesis using Cons.IH [of b] by auto
  qed
qed simp

lemma max_by_key_Cons:
  "\<exists>m. max_by_key key (x # xs) = Some m \<and> m \<in> set (x # xs) \<and> (\<forall>y \<in> set (x # xs). key y \<le> key m)"
  using max_by_key_fold [of key x xs] by (auto simp: max_by_key_def)

lemma max_by_key_None [simp]: "max_by_key key xs = None \<longleftrightarrow> xs = []"
proof (cases xs)
  case (Cons y ys)
  then show ?thesis using max_by_key_Cons [of key y ys] by auto
qed (simp add: max_by_key_def)

lemma max_by_key_Some:
  assumes "max_by_key key xs = Some m"
  shows "m \<in> set xs \<and> (\<forall>x \<in> set xs. key x \<le> key m)"
proof (cases xs)
  case Nil
  then show ?thesis using assms by (simp add: max_by_key_def)
next
  case (Cons y ys)
  then show ?thesis using assms max_by_key_Cons [of key y ys] by auto
qed

lemma ring_active_valid:
  "ring_active r now = Some e \<Longrightarrow> e \<in> set (ring_valid r now) \<and>
     (\<forall>x \<in> set (ring_valid r now). key_id x \<le> key_id e)"
  unfolding ring_active_def ring_valid_def by (rule max_by_key_Some)

lemma ring_active_None: "ring_active r now = None \<longleftrightarrow> ring_valid r now = []"
  by (simp add: ring_active_def ring_valid_def)

lemma ring_active_entry: "ring_active r now = Some e \<Longrightarrow> e \<in> set (ring_entries r) \<and> valid_at e now"
  using ring_active_valid by (fastforce simp: ring_valid_def)

lemma ring_valid_purge: "now \<le> now' \<Longrightarrow> ring_valid (ring_purge_expired r now) now' = ring_valid r now'"
  by (auto simp: ring_valid_def ring_purge_expired_def valid_at_def intro: filter_cong)

section \<open>Signers and verifiers\<close>

datatype 'sk signer =
    SHmac hmac_key
  | SEcdsa 'sk
  | SRing "'sk signer key_ring"

datatype 'vk verifier =
    VHmac hmac_key
  | VEcdsa 'vk
  | VRing "'vk verifier key_ring"

definition ecdsa_p256_tag_len :: nat where
  "ecdsa_p256_tag_len = 64"

lemma size_key_entry:
  "e \<in> set (ring_entries r) \<Longrightarrow> size (material e) < Suc (size_key_ring size r)"
  "v \<in> set (ring_entries q) \<Longrightarrow> size (material v) < Suc (size_key_ring size q)"
proof -
  have s: "x \<in> set es \<Longrightarrow> f (material x) \<le> size_list (size_key_entry f) es"
    for x es and f :: "'m \<Rightarrow> nat"
  proof (induction es)
    case (Cons y es)
    then show ?case by (cases y) auto
  qed simp
  show "e \<in> set (ring_entries r) \<Longrightarrow> size (material e) < Suc (size_key_ring size r)"
    using s [of e "ring_entries r" size] by (cases r) simp
  show "v \<in> set (ring_entries q) \<Longrightarrow> size (material v) < Suc (size_key_ring size q)"
    using s [of v "ring_entries q" size] by (cases q) simp
qed

function signer_tag_len :: "u64 \<Rightarrow> 'sk signer \<Rightarrow> nat" where
  "signer_tag_len now (SHmac k) = hmac_sha256_tag_len"
| "signer_tag_len now (SEcdsa k) = ecdsa_p256_tag_len"
| "signer_tag_len now (SRing r) =
    (case ring_active r now of None \<Rightarrow> 0 | Some e \<Rightarrow> signer_tag_len now (material e))"
  by pat_completeness auto
termination
  by (relation "measure (size \<circ> snd)") (auto dest!: ring_active_entry intro: size_key_entry)

text \<open>\<open>ecdsa_sign\<close> stands for \<open>SigningKey::sign\<close> of the crate \<open>p256\<close>.\<close>

function signer_sign_tag :: "('sk \<Rightarrow> bytes \<Rightarrow> bytes) \<Rightarrow> u64 \<Rightarrow> 'sk signer \<Rightarrow> bytes \<Rightarrow> bytes" where
  "signer_sign_tag ecdsa_sign now (SHmac k) d = hmac_mac k d"
| "signer_sign_tag ecdsa_sign now (SEcdsa k) d = ecdsa_sign k d"
| "signer_sign_tag ecdsa_sign now (SRing r) d =
    (case ring_active r now of None \<Rightarrow> []
     | Some e \<Rightarrow> signer_sign_tag ecdsa_sign now (material e) d)"
  by pat_completeness auto
termination
  by (relation "measure (\<lambda>(_, _, s, _). size s)") (auto dest!: ring_active_entry intro: size_key_entry)

text \<open>\<open>ecdsa_verify\<close> stands for \<open>Signature::from_slice\<close> and \<open>VerifyingKey::verify\<close>.\<close>

function verifier_verify_tag :: "('vk \<Rightarrow> bytes \<Rightarrow> bytes \<Rightarrow> bool) \<Rightarrow> u64 \<Rightarrow> 'vk verifier \<Rightarrow> bytes \<Rightarrow> bytes \<Rightarrow> bool" where
  "verifier_verify_tag ecdsa_verify now (VHmac k) d tag = hmac_verify k d tag"
| "verifier_verify_tag ecdsa_verify now (VEcdsa k) d tag = ecdsa_verify k d tag"
| "verifier_verify_tag ecdsa_verify now (VRing r) d tag =
    list_ex (\<lambda>e. verifier_verify_tag ecdsa_verify now (material e) d tag) (ring_valid r now)"
  by pat_completeness auto
termination
  by (relation "measure (\<lambda>(_, _, v, _). size v)") (auto simp: ring_valid_def intro: size_key_entry)

section \<open>Properties\<close>

text \<open>C26: The MAC of a key derived from any key material is HMAC-SHA256 as RFC 2104 defines it, and
  the constant-time verification accepts exactly that tag.\<close>

theorem hmac_is_rfc2104:
  "hmac_mac (hmac_new key) msg = hmac_spec key msg \<and>
   hmac_verify (hmac_new key) msg tag = (tag = hmac_spec key msg)"
  by (simp add: hmac_mac_spec hmac_verify_iff)

text \<open>The active key of a ring is a valid one of the greatest identifier; there is none only
  when no key is valid; and dropping expired keys never changes which keys are valid or active
  now or later.\<close>

theorem ring_active_spec:
  "(case ring_active r now of
      None \<Rightarrow> ring_valid r now = []
    | Some e \<Rightarrow> e \<in> set (ring_valid r now) \<and> (\<forall>x \<in> set (ring_valid r now). key_id x \<le> key_id e)) \<and>
   (now \<le> later \<longrightarrow> ring_valid (ring_purge_expired r now) later = ring_valid r later \<and>
      ring_active (ring_purge_expired r now) later = ring_active r later)"
proof (intro conjI impI)
  show "case ring_active r now of None \<Rightarrow> ring_valid r now = []
    | Some e \<Rightarrow> e \<in> set (ring_valid r now) \<and> (\<forall>x \<in> set (ring_valid r now). key_id x \<le> key_id e)"
    using ring_active_valid [of r now] ring_active_None [of r now] by (cases "ring_active r now") auto
  assume "now \<le> later"
  then show "ring_valid (ring_purge_expired r now) later = ring_valid r later"
    by (rule ring_valid_purge)
  then show "ring_active (ring_purge_expired r now) later = ring_active r later"
    by (simp only: ring_active_def ring_valid_def)
qed

text \<open>Key rotation loses no frame: what a publisher's ring signs with its active HMAC key, a
  subscriber's ring accepts as long as that key is valid there, whatever other keys either ring
  holds.\<close>

theorem ring_rotation_accepts:
  assumes "ring_active sr now = Some e" "material e = SHmac k"
    and "v \<in> set (ring_valid vr later)" "material v = VHmac k"
  shows "verifier_verify_tag ecdsa_verify later (VRing vr) d
    (signer_sign_tag ecdsa_sign now (SRing sr) d)"
  using assms by (auto simp: list_ex_iff hmac_verify_iff intro!: bexI [of _ v])

end
