(* ===== verification/EthFrame.thy ===== *)
theory EthFrame imports L2Auth begin

text \<open>
  The layer-2 frame GOOSE and SV share: \<open>crates/iec61850-l2/src/eth.rs\<close> (Ethernet header,
  optional 802.1Q tag, the application header of eight octets, the appended authentication tag)
  and the error type of \<open>error.rs\<close> without the socket variants of the feature \<open>net\<close>. A MAC
  address is a list of six octets. The lemmas show that a parsed frame is the written one, for
  unsigned and signed frames, and what octets the tag of an accepted frame covers.
\<close>

unbundle bit_operations_syntax

section \<open>Data\<close>

datatype l2_error =
    L2Truncated
  | L2Malformed string
  | L2WrongEthertype u16

type_synonym mac_addr = bytes

definition tpid_8021q :: u16 where
  "tpid_8021q = 0x8100"

definition min_eth_frame :: nat where
  "min_eth_frame = 60"

definition reserved1_simulated :: u16 where
  "reserved1_simulated = 0x8000"

record vlan_tag =
  pcp :: u8
  dei :: bool
  vid :: u16

definition vlan_new :: "u16 \<Rightarrow> vlan_tag" where
  "vlan_new v = \<lparr>pcp = 4, dei = False, vid = v AND 0x0FFF\<rparr>"

definition vlan_tci :: "vlan_tag \<Rightarrow> u16" where
  "vlan_tci t = push_bit 13 (ucast (pcp t) AND 0x7) OR push_bit 12 (if dei t then 1 else 0)
     OR (vid t AND 0x0FFF)"

record eth_header =
  eth_dst :: mac_addr
  eth_src :: mac_addr
  eth_vlan :: "vlan_tag option"
  eth_ethertype :: u16
  eth_simulation :: bool

section \<open>Writing\<close>

definition write_eth_appid :: "bytes \<Rightarrow> eth_header \<Rightarrow> u16 \<Rightarrow> bytes \<times> nat" where
  "write_eth_appid out hdr appid =
    (let out = out @ eth_dst hdr @ eth_src hdr;
         out = (case eth_vlan hdr of
                  Some vlan \<Rightarrow> out @ to_be tpid_8021q @ to_be (vlan_tci vlan)
                | None \<Rightarrow> out);
         out = out @ to_be (eth_ethertype hdr) @ to_be appid;
         len_pos = length out;
         out = out @ [0, 0];
         reserved1 = (if eth_simulation hdr then reserved1_simulated else 0);
         out = out @ to_be reserved1 @ [0, 0]
     in (out, len_pos))"

definition pad_min :: "bytes \<Rightarrow> bytes" where
  "pad_min out = (if length out < min_eth_frame
     then out @ replicate (min_eth_frame - length out) 0 else out)"

text \<open>\<open>as u16\<close> keeps the low 16 bits of the length.\<close>

definition finish_l2_frame :: "bytes \<Rightarrow> nat \<Rightarrow> nat \<Rightarrow> bytes" where
  "finish_l2_frame out len_pos apdu_len =
    (let len = (word_of_nat (8 + apdu_len) :: u16)
     in pad_min (copy_at len_pos (to_be len) out))"

text \<open>The signer is given by what its two methods return: the tag length, and the tag of the
  signed octets.\<close>

definition finish_l2_frame_signed :: "bytes \<Rightarrow> nat \<Rightarrow> nat \<Rightarrow> nat \<Rightarrow> (bytes \<Rightarrow> bytes) \<Rightarrow> bytes" where
  "finish_l2_frame_signed out len_pos apdu_len tag_len sign_tag =
    (let len = (word_of_nat (8 + apdu_len + tag_len) :: u16);
         out = copy_at len_pos (to_be len) out;
         out = copy_at (len_pos + 4) (to_be (word_of_nat tag_len :: u16)) out;
         start = len_pos - 2;
         end = len_pos + 6 + apdu_len;
         tag = sign_tag (take (end - start) (drop start out))
     in pad_min (out @ tag))"

section \<open>Parsing\<close>

record parsed_app_frame =
  pf_hdr :: eth_header
  pf_appid :: u16
  pf_apdu :: bytes
  pf_signed_data :: bytes
  pf_auth_tag :: bytes

definition u16_at :: "bytes \<Rightarrow> nat \<Rightarrow> u16" where
  "u16_at bs i = from_be [bs ! i, bs ! (i + 1)]"

definition parse_vlan :: "bytes \<Rightarrow> l2_error + vlan_tag option \<times> nat \<times> u16" where
  "parse_vlan bs =
    (let ethertype = u16_at bs 12
     in if ethertype = tpid_8021q then
          (if length bs < 18 then Inl L2Truncated
           else let tci = u16_at bs 14;
                    vlan = \<lparr>pcp = ucast (drop_bit 13 tci) AND 0x7,
                            dei = (drop_bit 12 tci AND 1 = 1),
                            vid = tci AND 0x0FFF\<rparr>
                in Inr (Some vlan, 18, u16_at bs 16))
        else Inr (None, 14, ethertype))"

definition parse_eth_appid_auth :: "bytes \<Rightarrow> u16 \<Rightarrow> l2_error + parsed_app_frame" where
  "parse_eth_appid_auth bs expected_ethertype =
    (if length bs < 14 then Inl L2Truncated
     else bindE (parse_vlan bs) (\<lambda>(vlan, off, ethertype).
       if ethertype \<noteq> expected_ethertype then Inl (L2WrongEthertype ethertype)
       else bindE (ok_or (L2Malformed (''cabecera de aplicaci'' @ o_acute @ ''n truncada''))
                     (get_range bs off (off + 8))) (\<lambda>hdr.
         let appid = u16_at hdr 0;
             len = unat (u16_at hdr 2);
             simulation = (u16_at hdr 4 AND reserved1_simulated \<noteq> 0);
             auth_len = unat (u16_at hdr 6)
         in if len < 8 + auth_len then
              Inl (L2Malformed (''Length < 8 + tag de autenticaci'' @ o_acute @ ''n''))
            else let end = off + len
              in if length bs < end then Inl (L2Malformed ''Length excede la trama'')
                 else Inr \<lparr>pf_hdr = \<lparr>eth_dst = take 6 bs, eth_src = take 6 (drop 6 bs),
                                     eth_vlan = vlan, eth_ethertype = ethertype,
                                     eth_simulation = simulation\<rparr>,
                           pf_appid = appid,
                           pf_apdu = take (end - auth_len - (off + 8)) (drop (off + 8) bs),
                           pf_signed_data = (if auth_len = 0 then []
                              else take (end - auth_len - off) (drop off bs)),
                           pf_auth_tag = (if auth_len = 0 then []
                              else take auth_len (drop (end - auth_len) bs))\<rparr>)))"

definition parse_eth_appid :: "bytes \<Rightarrow> u16 \<Rightarrow> l2_error + eth_header \<times> u16 \<times> bytes" where
  "parse_eth_appid bs expected_ethertype =
    bindE (parse_eth_appid_auth bs expected_ethertype)
      (\<lambda>p. Inr (pf_hdr p, pf_appid p, pf_apdu p))"

section \<open>Facts\<close>

definition vlan_ok :: "vlan_tag \<Rightarrow> bool" where
  "vlan_ok t \<longleftrightarrow> pcp t < 8 \<and> vid t < 0x1000"

definition eth_ok :: "eth_header \<Rightarrow> bool" where
  "eth_ok h \<longleftrightarrow> length (eth_dst h) = 6 \<and> length (eth_src h) = 6 \<and>
     (case eth_vlan h of None \<Rightarrow> eth_ethertype h \<noteq> tpid_8021q | Some t \<Rightarrow> vlan_ok t)"

lemma word_masks: "(0x7 :: 'a::len word) = mask 3" "(0x0FFF :: 'b::len word) = mask 12"
  by (simp_all add: mask_numeral)

lemma mask_small: "unat (w :: 'a::len word) < 2 ^ n \<Longrightarrow> w AND mask n = w"
  by (simp add: take_bit_eq_mask [symmetric] word_unat_eq_iff unat_take_bit_word)

lemma tci_fields:
  assumes "vlan_ok t"
  shows "\<lparr>pcp = ucast (drop_bit 13 (vlan_tci t)) AND 0x7,
          dei = (drop_bit 12 (vlan_tci t) AND 1 = 1), vid = vlan_tci t AND 0x0FFF\<rparr> = t"
proof -
  have p: "pcp t AND mask 3 = pcp t" and v: "vid t AND mask 12 = vid t"
    using assms by (simp_all add: vlan_ok_def mask_small word_less_nat_alt)
  have "bit (pcp t) n \<Longrightarrow> n < 3" and "bit (vid t) n \<Longrightarrow> n < 12" for n
    using p v by (metis bit_and_iff bit_mask_iff)+
  note b = this
  have tci: "bit (vlan_tci t) n \<longleftrightarrow>
      (13 \<le> n \<and> n < 16 \<and> bit (pcp t) (n - 13)) \<or> (n = 12 \<and> dei t) \<or> bit (vid t) n" for n
    by (auto simp: vlan_tci_def word_masks bit_simps v dest: b split: if_splits)
  have "ucast (drop_bit 13 (vlan_tci t)) AND 0x7 = pcp t"
    by (rule bit_word_eqI) (auto simp: word_masks bit_simps tci dest: b)
  moreover have "drop_bit 12 (vlan_tci t) AND 1 = (1 :: u16) \<longleftrightarrow> dei t"
    using tci [of 12] by (auto simp: and_one_eq mod_2_eq_odd bit_iff_odd_drop_bit [symmetric] dest: b)
  moreover have "vlan_tci t AND 0x0FFF = vid t"
    by (rule bit_word_eqI) (auto simp: word_masks bit_simps tci dest: b)
  ultimately show ?thesis by simp
qed

text \<open>The layout of a frame, for the statements.\<close>

definition eth_prefix :: "eth_header \<Rightarrow> bytes" where
  "eth_prefix h = eth_dst h @ eth_src h @
     (case eth_vlan h of None \<Rightarrow> [] | Some t \<Rightarrow> to_be tpid_8021q @ to_be (vlan_tci t)) @
     to_be (eth_ethertype h)"

definition app_header :: "u16 \<Rightarrow> u16 \<Rightarrow> bool \<Rightarrow> u16 \<Rightarrow> bytes" where
  "app_header appid len sim auth_len =
     to_be appid @ to_be len @ to_be (if sim then reserved1_simulated else 0) @ to_be auth_len"

lemma length_app_header [simp]: "length (app_header a l s n) = 8"
  by (simp add: app_header_def)

lemma to_be_u16_0: "to_be (0 :: u16) = [0, 0]"
  by (simp add: evals)

lemma write_eth_appid_layout:
  "write_eth_appid [] h appid =
     (eth_prefix h @ app_header appid 0 (eth_simulation h) 0, length (eth_prefix h) + 2)"
  by (simp add: write_eth_appid_def eth_prefix_def app_header_def to_be_u16_0 Let_def split: option.splits)

lemma copy_at_mid: "length y = length y' \<Longrightarrow> copy_at (length x) y' (x @ y @ z) = x @ y' @ z"
  by (simp add: copy_at_def)

lemma patch_len:
  "copy_at (length x + 2) (to_be l) (x @ app_header a l0 s n @ rest) = x @ app_header a l s n @ rest"
  using copy_at_mid [of "to_be l0" "to_be l" "x @ to_be a"] by (simp add: app_header_def)

lemma patch_auth:
  "copy_at (length x + 6) (to_be n) (x @ app_header a l s n0 @ rest) = x @ app_header a l s n @ rest"
  using copy_at_mid [of "to_be n0" "to_be n" "x @ to_be a @ to_be l @ to_be (if s then reserved1_simulated else 0)"]
  by (simp add: app_header_def)

lemma finish_layout:
  "finish_l2_frame (x @ app_header a l0 s n @ apdu) (length x + 2) k =
     pad_min (x @ app_header a (word_of_nat (8 + k)) s n @ apdu)"
  using patch_len [of x _ a l0 s n apdu] by (simp add: finish_l2_frame_def Let_def)

lemma finish_signed_layout:
  "finish_l2_frame_signed (x @ app_header a l0 s n0 @ apdu) (length x + 2) (length apdu) k sign =
     (let h = app_header a (word_of_nat (8 + length apdu + k)) s (word_of_nat k)
      in pad_min (x @ h @ apdu @ sign (h @ apdu)))"
proof -
  have "length x + 2 + 4 = length x + 6" by simp
  then show ?thesis
    unfolding finish_l2_frame_signed_def Let_def patch_len
    by (simp only: patch_auth) simp
qed

lemma pad_min_append: "\<exists>k. pad_min out = out @ replicate k 0"
  by (auto simp: pad_min_def intro: exI [of _ 0])

lemma length_pad_min [simp]: "length (pad_min out) = max (length out) min_eth_frame"
  by (auto simp: pad_min_def)

lemma u16_at_be: "u16_at (xs @ to_be w @ ys) (length xs) = w"
  by (rule to_be_u16_elim [of w]) (simp add: u16_at_def nth_append)

lemma length_eth_prefix:
  "eth_ok h \<Longrightarrow> length (eth_prefix h) = (case eth_vlan h of None \<Rightarrow> 14 | Some _ \<Rightarrow> 18)"
  by (simp add: eth_prefix_def eth_ok_def split: option.splits)

lemma parse_vlan_prefix:
  assumes "eth_ok h"
  shows "parse_vlan (eth_prefix h @ rest) = Inr (eth_vlan h, length (eth_prefix h), eth_ethertype h)"
proof -
  let ?a = "eth_dst h @ eth_src h"
  have a: "length (eth_dst h) = 6" "length (eth_src h) = 6" using assms by (simp_all add: eth_ok_def)
  show ?thesis
  proof (cases "eth_vlan h")
    case None
    then have "u16_at (eth_prefix h @ rest) 12 = eth_ethertype h"
      using u16_at_be [of ?a "eth_ethertype h" rest] a by (simp add: eth_prefix_def)
    then show ?thesis
      using None assms length_eth_prefix [OF assms] by (simp add: parse_vlan_def eth_ok_def)
  next
    case (Some t)
    let ?f = "eth_prefix h @ rest"
    have f: "?f = ?a @ to_be tpid_8021q @ to_be (vlan_tci t) @ to_be (eth_ethertype h) @ rest"
      by (simp add: eth_prefix_def Some)
    have "u16_at ?f 12 = tpid_8021q" "u16_at ?f 14 = vlan_tci t" "u16_at ?f 16 = eth_ethertype h"
      using u16_at_be [of ?a tpid_8021q] u16_at_be [of "?a @ to_be tpid_8021q" "vlan_tci t"]
        u16_at_be [of "?a @ to_be tpid_8021q @ to_be (vlan_tci t)" "eth_ethertype h" rest] a
      unfolding f by simp_all
    moreover have "vlan_ok t" using assms Some by (simp add: eth_ok_def)
    ultimately show ?thesis
      using Some length_eth_prefix [OF assms] tci_fields [of t]
      by (simp add: parse_vlan_def Let_def)
  qed
qed

lemma app_header_fields:
  "u16_at (app_header a l s n) 0 = a" "u16_at (app_header a l s n) 2 = l"
  "u16_at (app_header a l s n) 4 AND reserved1_simulated \<noteq> 0 \<longleftrightarrow> s"
  "u16_at (app_header a l s n) 6 = n"
proof -
  let ?r = "if s then reserved1_simulated else 0"
  show "u16_at (app_header a l s n) 0 = a"
    using u16_at_be [of "[]" a] by (simp add: app_header_def)
  show "u16_at (app_header a l s n) 2 = l"
    using u16_at_be [of "to_be a" l] by (simp add: app_header_def)
  have "u16_at (app_header a l s n) 4 = ?r"
    using u16_at_be [of "to_be a @ to_be l" ?r] by (simp add: app_header_def)
  then show "u16_at (app_header a l s n) 4 AND reserved1_simulated \<noteq> 0 \<longleftrightarrow> s"
    by (simp add: reserved1_simulated_def)
  show "u16_at (app_header a l s n) 6 = n"
    using u16_at_be [of "to_be a @ to_be l @ to_be ?r" n "[]"] by (simp add: app_header_def)
qed

lemma parse_layout_words:
  assumes ok: "eth_ok h" and l: "unat l = 8 + length apdu + length tag" and n: "unat n = length tag"
  shows "parse_eth_appid_auth (eth_prefix h @ app_header a l (eth_simulation h) n @ apdu @ tag @ pad)
      (eth_ethertype h) =
    Inr \<lparr>pf_hdr = h, pf_appid = a, pf_apdu = apdu,
         pf_signed_data = (if tag = [] then [] else app_header a l (eth_simulation h) n @ apdu),
         pf_auth_tag = tag\<rparr>"
proof -
  let ?h = "app_header a l (eth_simulation h) n"
  let ?p = "eth_prefix h"
  have p14: "14 \<le> length ?p"
    using length_eth_prefix [OF ok] by (simp split: option.splits)
  have dst: "take 6 ?p = eth_dst h" "take 6 (drop 6 ?p) = eth_src h"
    using ok by (simp_all add: eth_prefix_def eth_ok_def)
  have range: "get_range (?p @ ?h @ x) (length ?p) (length ?p + 8) = Some ?h" for x
    using get_range_append_mid [of ?p ?h x] by simp
  show ?thesis
    using p14
    by (simp add: parse_eth_appid_auth_def parse_vlan_prefix [OF ok] range app_header_fields l n
        dst Let_def)
qed

lemma parse_layout:
  assumes "eth_ok h" "8 + length apdu + length tag < 65536"
  shows "parse_eth_appid_auth (eth_prefix h @
      app_header a (word_of_nat (8 + length apdu + length tag)) (eth_simulation h)
        (word_of_nat (length tag)) @ apdu @ tag @ pad) (eth_ethertype h) =
    Inr \<lparr>pf_hdr = h, pf_appid = a, pf_apdu = apdu,
         pf_signed_data = (if tag = [] then []
           else app_header a (word_of_nat (8 + length apdu + length tag)) (eth_simulation h)
             (word_of_nat (length tag)) @ apdu),
         pf_auth_tag = tag\<rparr>"
  by (rule parse_layout_words [OF assms(1)]) (use assms(2) in \<open>subst unat_of_nat, simp\<close>)+

text \<open>What an accepted frame is made of: the application header and the APDU are what the tag
  covers, and they lie next to each other in the frame.\<close>

lemma take_drop_split: "drop a bs = take k (drop a bs) @ drop (a + k) bs"
  by (metis append_take_drop_id drop_drop add.commute)

lemma parse_structure:
  assumes "parse_eth_appid_auth bs et = Inr p"
  shows "\<exists>off hdr pad. length hdr = 8 \<and> bs = take off bs @ hdr @ pf_apdu p @ pf_auth_tag p @ pad \<and>
    (pf_auth_tag p \<noteq> [] \<longrightarrow> pf_signed_data p = hdr @ pf_apdu p) \<and>
    (pf_auth_tag p = [] \<longrightarrow> pf_signed_data p = []) \<and>
    pf_appid p = u16_at hdr 0 \<and> unat (u16_at hdr 2) = 8 + length (pf_apdu p) + length (pf_auth_tag p) \<and>
    unat (u16_at hdr 6) = length (pf_auth_tag p) \<and> eth_ethertype (pf_hdr p) = et"
proof -
  from assms obtain v off hdr where
    r: "get_range bs off (off + 8) = Some hdr" and
    n: "8 + unat (u16_at hdr 6) \<le> unat (u16_at hdr 2)" and
    e: "off + unat (u16_at hdr 2) \<le> length bs" and
    p: "p = \<lparr>pf_hdr = \<lparr>eth_dst = take 6 bs, eth_src = take 6 (drop 6 bs),
                 eth_vlan = v, eth_ethertype = et,
                 eth_simulation = (u16_at hdr 4 AND reserved1_simulated \<noteq> 0)\<rparr>,
               pf_appid = u16_at hdr 0,
               pf_apdu = take (off + unat (u16_at hdr 2) - unat (u16_at hdr 6) - (off + 8)) (drop (off + 8) bs),
               pf_signed_data = (if unat (u16_at hdr 6) = 0 then []
                  else take (off + unat (u16_at hdr 2) - unat (u16_at hdr 6) - off) (drop off bs)),
               pf_auth_tag = (if unat (u16_at hdr 6) = 0 then []
                  else take (unat (u16_at hdr 6)) (drop (off + unat (u16_at hdr 2) - unat (u16_at hdr 6)) bs))\<rparr>"
    by (auto simp: parse_eth_appid_auth_def bindE_Inr_iff Let_def linorder_not_less split: if_splits)
  define n l where "n = unat (u16_at hdr 6)" and "l = unat (u16_at hdr 2)"
  have le: "off + 8 \<le> length bs" and hdr: "hdr = take 8 (drop off bs)"
    using r by (auto simp: get_range_def split: if_splits)
  define apdu tag where "apdu = take (l - n - 8) (drop (off + 8) bs)"
    and "tag = take n (drop (off + (l - n)) bs)"
  have nl: "8 + n \<le> l" "off + l \<le> length bs" using n e by (simp_all add: n_def l_def)
  have split3: "drop off bs = hdr @ apdu @ tag @ drop (off + l) bs"
  proof -
    have "off + 8 + (l - n - 8) = off + (l - n)" "off + (l - n) + n = off + l"
      using nl by simp_all
    then have "drop (off + 8) bs = apdu @ drop (off + (l - n)) bs"
      "drop (off + (l - n)) bs = tag @ drop (off + l) bs"
      unfolding apdu_def tag_def by (metis take_drop_split)+
    then show ?thesis
      using take_drop_split [of off bs 8] by (simp add: hdr)
  qed
  have tag: "pf_auth_tag p = tag" and lt: "length tag = n"
    using nl by (simp_all add: p tag_def n_def [symmetric] l_def [symmetric])
  have apdu: "pf_apdu p = apdu" and la: "length apdu = l - n - 8"
    using nl by (simp_all add: p apdu_def n_def [symmetric] l_def [symmetric])
  have sd: "pf_signed_data p = (if n = 0 then [] else hdr @ apdu)"
  proof -
    have "take (l - n) (drop off bs) = hdr @ apdu"
      unfolding split3 using nl le la hdr by simp
    then show ?thesis
      using nl by (simp add: p n_def [symmetric] l_def [symmetric])
  qed
  have "length hdr = 8" using le by (simp add: hdr)
  moreover have "bs = take off bs @ hdr @ apdu @ tag @ drop (off + l) bs"
    using split3 append_take_drop_id [of off bs] by metis
  ultimately show ?thesis
    using nl lt la sd tag apdu
    by (intro exI [of _ off] exI [of _ hdr] exI [of _ "drop (off + l) bs"])
      (auto simp: p n_def [symmetric] l_def [symmetric])
qed

section \<open>Frames under a signer and its verifier\<close>

context frame_auth
begin

lemma signed_frame_parses:
  assumes "eth_ok h" "8 + length apdu + tag_len < 65536" "0 < tag_len"
    and "write_eth_appid [] h a = (out, len_pos)"
  shows "\<exists>p. parse_eth_appid_auth
      (finish_l2_frame_signed (out @ apdu) len_pos (length apdu) tag_len sign_tag) (eth_ethertype h) = Inr p \<and>
    pf_hdr p = h \<and> pf_appid p = a \<and> pf_apdu p = apdu \<and> pf_auth_tag p \<noteq> [] \<and>
    verify_tag (pf_signed_data p) (pf_auth_tag p)"
proof -
  let ?hd = "app_header a (word_of_nat (8 + length apdu + tag_len)) (eth_simulation h) (word_of_nat tag_len)"
  let ?t = "sign_tag (?hd @ apdu)"
  have t: "length ?t = tag_len" by (rule sign_tag_len)
  have out: "out = eth_prefix h @ app_header a 0 (eth_simulation h) 0" "len_pos = length (eth_prefix h) + 2"
    using assms(4) by (simp_all add: write_eth_appid_layout)
  obtain k where pad: "pad_min (eth_prefix h @ ?hd @ apdu @ ?t) = eth_prefix h @ ?hd @ apdu @ ?t @ replicate k 0"
    using pad_min_append [of "eth_prefix h @ ?hd @ apdu @ ?t"] by auto
  have f: "finish_l2_frame_signed (out @ apdu) len_pos (length apdu) tag_len sign_tag =
      eth_prefix h @ ?hd @ apdu @ ?t @ replicate k 0"
    using finish_signed_layout [of "eth_prefix h" a 0 "eth_simulation h" 0 apdu tag_len sign_tag] pad
    by (simp add: out Let_def)
  have "?t \<noteq> []" using t assms(3) by auto
  then show ?thesis
    using parse_layout [OF assms(1), of apdu ?t a "replicate k 0"] assms(2) verify_sign [of "?hd @ apdu"]
    unfolding f t by simp
qed

end

lemma unsigned_frame_parses:
  assumes "eth_ok h" "8 + length apdu < 65536" "write_eth_appid [] h a = (out, len_pos)"
  shows "parse_eth_appid_auth (finish_l2_frame (out @ apdu) len_pos (length apdu)) (eth_ethertype h) =
    Inr \<lparr>pf_hdr = h, pf_appid = a, pf_apdu = apdu, pf_signed_data = [], pf_auth_tag = []\<rparr>"
proof -
  let ?hd = "app_header a (word_of_nat (8 + length apdu)) (eth_simulation h) 0"
  have out: "out = eth_prefix h @ app_header a 0 (eth_simulation h) 0" "len_pos = length (eth_prefix h) + 2"
    using assms(3) by (simp_all add: write_eth_appid_layout)
  obtain k where pad: "pad_min (eth_prefix h @ ?hd @ apdu) = eth_prefix h @ ?hd @ apdu @ replicate k 0"
    using pad_min_append [of "eth_prefix h @ ?hd @ apdu"] by auto
  have f: "finish_l2_frame (out @ apdu) len_pos (length apdu) = eth_prefix h @ ?hd @ apdu @ [] @ replicate k 0"
    using finish_layout [of "eth_prefix h" a 0 "eth_simulation h" 0 apdu "length apdu"] pad
    by (simp add: out)
  show ?thesis
    using parse_layout [OF assms(1), of apdu "[]" a "replicate k 0"] assms(2)
    unfolding f by simp
qed

section \<open>Frames around a PDU\<close>

text \<open>What the GOOSE and SV frames need of their PDU codec: decoding inverts encoding on the PDUs
  they send.\<close>

locale pdu_codec =
  fixes enc :: "'p \<Rightarrow> bytes"
    and dec :: "bytes \<Rightarrow> 'e + 'p"
    and pdu_ok :: "'p \<Rightarrow> bool"
  assumes dec_enc: "pdu_ok p \<Longrightarrow> dec (enc p) = Inr p"
begin

lemma framed_pdu:
  assumes "eth_ok h" "pdu_ok p" "8 + length (enc p) < 65536"
    and "write_eth_appid [] h a = (out, len_pos)"
  shows "parse_eth_appid_auth (finish_l2_frame (out @ enc p) len_pos (length (enc p))) (eth_ethertype h) =
      Inr \<lparr>pf_hdr = h, pf_appid = a, pf_apdu = enc p, pf_signed_data = [], pf_auth_tag = []\<rparr>"
    and "dec (enc p) = Inr p"
  using unsigned_frame_parses [OF assms(1,3,4)] dec_enc [OF assms(2)] by simp_all

end

text \<open>A PDU codec with a signer: the decoded PDU is the signed one, and its tag verifies.\<close>

locale signed_codec = pdu_codec enc dec pdu_ok + frame_auth tag_len sign_tag verify_tag
  for enc :: "'p \<Rightarrow> bytes" and dec :: "bytes \<Rightarrow> 'e + 'p" and pdu_ok :: "'p \<Rightarrow> bool"
    and tag_len :: nat and sign_tag :: "bytes \<Rightarrow> bytes" and verify_tag :: "bytes \<Rightarrow> bytes \<Rightarrow> bool"
begin

lemma signed_pdu:
  assumes "eth_ok h" "pdu_ok p" "8 + length (enc p) + tag_len < 65536" "0 < tag_len"
    and "write_eth_appid [] h a = (out, len_pos)"
  shows "\<exists>q. parse_eth_appid_auth
      (finish_l2_frame_signed (out @ enc p) len_pos (length (enc p)) tag_len sign_tag) (eth_ethertype h) = Inr q \<and>
    pf_hdr q = h \<and> pf_appid q = a \<and> dec (pf_apdu q) = Inr p \<and> pf_auth_tag q \<noteq> [] \<and>
    verify_tag (pf_signed_data q) (pf_auth_tag q)"
  using signed_frame_parses [OF assms(1,3,4,5)] dec_enc [OF assms(2)] by metis

end

lemmas eth_frame_evals [evals] = write_eth_appid_def finish_l2_frame_def finish_l2_frame_signed_def
  pad_min_def min_eth_frame_def copy_at_def vlan_tci_def vlan_new_def tpid_8021q_def
  reserved1_simulated_def parse_eth_appid_auth_def parse_eth_appid_def parse_vlan_def u16_at_def
  eth_ok_def vlan_ok_def

section \<open>Properties\<close>

text \<open>An unsigned frame built by \<open>write_eth_appid\<close> and \<open>finish_l2_frame\<close> is at least 60 octets
  long and parses back to its header (VLAN tag and simulation bit included), its APPID and its
  APDU, when the APDU fits the 16-bit length field.\<close>

theorem eth_frame_roundtrip:
  assumes "eth_ok h" "8 + length apdu < 65536" "write_eth_appid [] h a = (out, len_pos)"
  shows "parse_eth_appid (finish_l2_frame (out @ apdu) len_pos (length apdu)) (eth_ethertype h)
      = Inr (h, a, apdu) \<and>
    60 \<le> length (finish_l2_frame (out @ apdu) len_pos (length apdu))"
  using unsigned_frame_parses [OF assms]
  by (simp add: parse_eth_appid_def finish_l2_frame_def min_eth_frame_def)

text \<open>A frame signed with an HMAC key parses back to its header, APPID and clean APDU, and
  its tag verifies under the same key.\<close>

theorem signed_frame_verifies:
  assumes "eth_ok h" "8 + length apdu + hmac_sha256_tag_len < 65536"
    and "write_eth_appid [] h a = (out, len_pos)"
  shows "\<exists>p. parse_eth_appid_auth (finish_l2_frame_signed (out @ apdu) len_pos (length apdu)
        hmac_sha256_tag_len (hmac_mac k)) (eth_ethertype h) = Inr p \<and>
    pf_hdr p = h \<and> pf_appid p = a \<and> pf_apdu p = apdu \<and> pf_auth_tag p \<noteq> [] \<and>
    hmac_verify k (pf_signed_data p) (pf_auth_tag p)"
  by (rule hmac.signed_frame_parses [OF assms(1,2) _ assms(3)]) (simp add: hmac_sha256_tag_len_def)

text \<open>C24: In any accepted frame the application header, the APDU and the tag lie next to each
  other, the tag's length is the one \<open>Reserved2\<close> announces, and the octets handed to the verifier
  are exactly the header and the APDU, so nothing the PDU decoder sees is outside the tag.\<close>

theorem parsed_frame_coverage:
  assumes "parse_eth_appid_auth bs et = Inr p"
  shows "\<exists>off hdr pad. length hdr = 8 \<and> bs = take off bs @ hdr @ pf_apdu p @ pf_auth_tag p @ pad \<and>
    (pf_auth_tag p \<noteq> [] \<longrightarrow> pf_signed_data p = hdr @ pf_apdu p) \<and>
    unat (u16_at hdr 6) = length (pf_auth_tag p) \<and>
    unat (u16_at hdr 2) = 8 + length (pf_apdu p) + length (pf_auth_tag p)"
  using parse_structure [OF assms] by blast

theorem parsed_frame_coverage_witness:
  "\<exists>off hdr pad. length hdr = 8 \<and>
    [0, 0, 0, 0, 0, 0, 0, 0, 0, 0, 0, 0, 0x88, 0xB8, 0, 1, 0, 11, 0, 0, 0, 1, 7, 8, 9] =
      take off ([0, 0, 0, 0, 0, 0, 0, 0, 0, 0, 0, 0, 0x88, 0xB8, 0, 1, 0, 11, 0, 0, 0, 1, 7, 8, 9]) @ hdr @ [7, 8] @ [9 :: u8] @ pad"
proof -
  let ?b = "[0, 0, 0, 0, 0, 0, 0, 0, 0, 0, 0, 0, 0x88, 0xB8, 0, 1, 0, 11, 0, 0, 0, 1, 7, 8, 9 :: u8]"
  have "\<exists>p. parse_eth_appid_auth ?b 0x88B8 = Inr p \<and> pf_apdu p = [7, 8] \<and> pf_auth_tag p = [9]"
    by (simp add: evals)
  then obtain p where p: "parse_eth_appid_auth ?b 0x88B8 = Inr p" "pf_apdu p = [7, 8]" "pf_auth_tag p = [9]"
    by blast
  from parsed_frame_coverage [OF p(1)] show ?thesis unfolding p(2,3) by blast
qed

end
