(* ===== verification/GoosePdu.thy ===== *)
theory GoosePdu imports MmsData EthFrame begin

text \<open>
  The \<open>goosePdu\<close> and the GOOSE frame: \<open>crates/iec61850-goose/src/error.rs\<close>, \<open>pdu.rs\<close> and
  \<open>frame.rs\<close>. The decoder is the sequence of field reads of the code, each of which may fail with
  a codec error converted by \<open>?\<close>. The lemmas show the round trip of the PDU and of frames with
  and without an authentication tag, through the interpretation of the PDU codec interface.
\<close>

unbundle bit_operations_syntax

section \<open>Errors\<close>

datatype goose_error =
    GMalformed string
  | GBer ber_error
  | GL2 l2_error

section \<open>The PDU\<close>

record goose_pdu =
  gocb_ref :: string
  time_allowed_to_live :: u32
  dat_set :: string
  go_id :: string
  gt :: utc_time
  st_num :: u32
  sq_num :: u32
  gtest :: bool
  conf_rev :: u32
  nds_com :: bool
  num_dat_set_entries :: u32
  all_data :: "mms_data list"

definition goose_apdu :: tag where
  "goose_apdu = tag_application 1 True"

definition goose_encode :: "goose_pdu \<Rightarrow> bytes" where
  "goose_encode p =
    into_bytes (w_tlv goose_apdu (\<lambda>w. w_seq
      [w_visible_string (tag_context 0 False) (gocb_ref p),
       w_unsigned (tag_context 1 False) (ucast (time_allowed_to_live p)),
       w_visible_string (tag_context 2 False) (dat_set p),
       w_visible_string (tag_context 3 False) (go_id p),
       w_primitive (tag_context 4 False) (gt p),
       w_unsigned (tag_context 5 False) (ucast (st_num p)),
       w_unsigned (tag_context 6 False) (ucast (sq_num p)),
       w_boolean (tag_context 7 False) (gtest p),
       w_unsigned (tag_context 8 False) (ucast (conf_rev p)),
       w_boolean (tag_context 9 False) (nds_com p),
       w_unsigned (tag_context 10 False) (ucast (num_dat_set_entries p)),
       w_tlv (tag_context 11 True) (\<lambda>w. fold mms_encode (all_data p) w)] w) writer_new)"

definition g_read_visible :: "tag \<Rightarrow> (goose_error, string) reading" where
  "g_read_visible t r = thenE (map_errR GBer (rd_expect t r))
     (\<lambda>c r. (map_errE GBer (decode_visible_string c), r))"

definition g_read_u32 :: "tag \<Rightarrow> (goose_error, u32) reading" where
  "g_read_u32 t r = thenE (map_errR GBer (rd_expect t r))
     (\<lambda>c r. (bindE (map_errE GBer (decode_unsigned c)) (\<lambda>v.
        if unat v < 2 ^ 32 then Inr (ucast v)
        else Inl (GMalformed ''entero GOOSE fuera de rango u32'')), r))"

definition g_read_bool :: "tag \<Rightarrow> (goose_error, bool) reading" where
  "g_read_bool t r = thenE (map_errR GBer (rd_expect t r))
     (\<lambda>c r. (map_errE GBer (decode_bool c), r))"

definition g_read_utc :: "tag \<Rightarrow> (goose_error, utc_time) reading" where
  "g_read_utc t r = thenE (map_errR GBer (rd_expect t r))
     (\<lambda>c r. (if length c = 8 then Inr c
             else Inl (GMalformed ''campo t debe tener 8 octetos''), r))"

text \<open>The loop over \<open>allData\<close>.\<close>

function read_all_data :: "reader \<Rightarrow> mms_data list \<Rightarrow> ber_error + mms_data list" where
  "read_all_data r out =
    (if rd_is_empty r then Inr out
     else case read_tlv r of
       (Inl e, _) \<Rightarrow> Inl e
     | (Inr t, r') \<Rightarrow> bindE (mms_decode t) (\<lambda>d. read_all_data r' (out @ [d])))"
  by pat_completeness auto
termination
  by (relation "measure (remaining \<circ> fst)") (auto dest!: read_tlv_progress(3) [OF sym])

declare read_all_data.simps [simp del]

definition goose_decode :: "bytes \<Rightarrow> goose_error + goose_pdu" where
  "goose_decode bs = fst
    (thenE (map_errR GBer (read_tlv (reader_new bs))) (\<lambda>apdu r.
      if tlv_tag apdu \<noteq> goose_apdu then
        (Inl (GMalformed (''APDU GOOSE con tag '' @ tag_show (tlv_tag apdu))), r)
      else
        thenE (g_read_visible (tag_context 0 False) (tlv_reader apdu)) (\<lambda>gocb_ref r.
        thenE (g_read_u32 (tag_context 1 False) r) (\<lambda>time_allowed_to_live r.
        thenE (g_read_visible (tag_context 2 False) r) (\<lambda>dat_set r.
        thenE (g_read_visible (tag_context 3 False) r) (\<lambda>go_id r.
        thenE (g_read_utc (tag_context 4 False) r) (\<lambda>t r.
        thenE (g_read_u32 (tag_context 5 False) r) (\<lambda>st_num r.
        thenE (g_read_u32 (tag_context 6 False) r) (\<lambda>sq_num r.
        thenE (g_read_bool (tag_context 7 False) r) (\<lambda>test r.
        thenE (g_read_u32 (tag_context 8 False) r) (\<lambda>conf_rev r.
        thenE (g_read_bool (tag_context 9 False) r) (\<lambda>nds_com r.
        thenE (g_read_u32 (tag_context 10 False) r) (\<lambda>num_dat_set_entries r.
        thenE (map_errR GBer (rd_expect (tag_context 11 True) r)) (\<lambda>c r.
          (bindE (map_errE GBer (read_all_data (reader_new c) [])) (\<lambda>all_data.
             Inr \<lparr>gocb_ref = gocb_ref, time_allowed_to_live = time_allowed_to_live,
                  dat_set = dat_set, go_id = go_id, gt = t, st_num = st_num, sq_num = sq_num,
                  gtest = test, conf_rev = conf_rev, nds_com = nds_com,
                  num_dat_set_entries = num_dat_set_entries, all_data = all_data\<rparr>), r)))))))))))))))"

section \<open>Round trip of the PDU\<close>

lemma g_read_visible_at [wire]:
  "slice_ok pre (tlv_bytes t (as_bytes s) @ rest) \<Longrightarrow> str_ok s \<Longrightarrow>
    g_read_visible t (rd_at pre (tlv_bytes t (as_bytes s) @ rest)) =
      (Inr s, rd_at (pre @ tlv_bytes t (as_bytes s)) rest)"
  by (simp add: g_read_visible_def expect_field map_errR_def decode_visible_as_bytes)

lemma g_read_u32_at [wire]:
  assumes "slice_ok pre (tlv_bytes t (encode_unsigned (ucast v)) @ rest)"
  shows "g_read_u32 t (rd_at pre (tlv_bytes t (encode_unsigned (ucast v)) @ rest)) =
      (Inr v, rd_at (pre @ tlv_bytes t (encode_unsigned (ucast v))) rest)"
proof -
  have "unat (ucast v :: u64) = unat v"
    using unsigned_less [of v, where ?'a = nat] by (simp add: unat_ucast_mod)
  moreover have "(ucast (ucast v :: u64) :: u32) = v"
    using unsigned_less [of v, where ?'a = nat] by (simp add: word_unat_eq_iff unat_ucast_mod)
  ultimately show ?thesis
    using unsigned_less [of v, where ?'a = nat]
    by (simp add: g_read_u32_def expect_field [OF assms] map_errR_def decode_encode_unsigned)
qed

lemma g_read_bool_at [wire]:
  "slice_ok pre (tlv_bytes t (encode_bool b) @ rest) \<Longrightarrow>
    g_read_bool t (rd_at pre (tlv_bytes t (encode_bool b) @ rest)) =
      (Inr b, rd_at (pre @ tlv_bytes t (encode_bool b)) rest)"
  by (simp add: g_read_bool_def expect_field map_errR_def decode_encode_bool)

lemma g_read_utc_at [wire]:
  "slice_ok pre (tlv_bytes t u @ rest) \<Longrightarrow> utc_ok u \<Longrightarrow>
    g_read_utc t (rd_at pre (tlv_bytes t u @ rest)) = (Inr u, rd_at (pre @ tlv_bytes t u) rest)"
  by (simp add: g_read_utc_def expect_field map_errR_def utc_ok_def)

lemma read_all_data_bytes:
  assumes "list_all data_ok ds" "slice_ok pre (concat (map mms_bytes ds))"
  shows "read_all_data (rd_at pre (concat (map mms_bytes ds))) out = Inr (out @ ds)"
  using assms
proof (induction ds arbitrary: pre out)
  case Nil
  then show ?case by (simp add: read_all_data.simps)
next
  case (Cons d ds)
  have len: "length (mms_content d) < usize_limit"
    using Cons.prems(2) length_content_less [of "mms_content d" "mms_tag d"]
    by (simp add: slice_ok_def mms_bytes_def)
  have "read_tlv (rd_at pre (mms_bytes d @ concat (map mms_bytes ds))) =
      (Inr \<lparr>tlv_tag = mms_tag d, tlv_content = mms_content d\<rparr>,
       rd_at (pre @ mms_bytes d) (concat (map mms_bytes ds)))"
    using Cons.prems(2) by (simp add: mms_bytes_def read_tlv_at slice_ok_def)
  moreover have "mms_decode \<lparr>tlv_tag = mms_tag d, tlv_content = mms_content d\<rparr> = Inr d"
    using data_decodes [OF _ len] Cons.prems(1) by simp
  moreover have "read_all_data (rd_at (pre @ mms_bytes d) (concat (map mms_bytes ds))) (out @ [d]) =
      Inr ((out @ [d]) @ ds)"
    using Cons.prems by (intro Cons.IH) (simp_all add: slice_ok_step)
  ultimately show ?case
    by (subst read_all_data.simps) (simp add: mms_bytes_def)
qed

definition goose_fields :: "goose_pdu \<Rightarrow> bytes" where
  "goose_fields p =
     tlv_bytes (tag_context 0 False) (as_bytes (gocb_ref p)) @
     tlv_bytes (tag_context 1 False) (encode_unsigned (ucast (time_allowed_to_live p))) @
     tlv_bytes (tag_context 2 False) (as_bytes (dat_set p)) @
     tlv_bytes (tag_context 3 False) (as_bytes (go_id p)) @
     tlv_bytes (tag_context 4 False) (gt p) @
     tlv_bytes (tag_context 5 False) (encode_unsigned (ucast (st_num p))) @
     tlv_bytes (tag_context 6 False) (encode_unsigned (ucast (sq_num p))) @
     tlv_bytes (tag_context 7 False) (encode_bool (gtest p)) @
     tlv_bytes (tag_context 8 False) (encode_unsigned (ucast (conf_rev p))) @
     tlv_bytes (tag_context 9 False) (encode_bool (nds_com p)) @
     tlv_bytes (tag_context 10 False) (encode_unsigned (ucast (num_dat_set_entries p))) @
     tlv_bytes (tag_context 11 True) (concat (map mms_bytes (all_data p)))"

lemma fold_mms_encode: "fold mms_encode ds = put (concat (map mms_bytes ds))"
  by (rule ext) (simp add: fold_put mms_encode_put)

lemma goose_encode_bytes: "goose_encode p = tlv_bytes goose_apdu (goose_fields p)"
  unfolding goose_encode_def goose_fields_def
  by (simp add: w_ops w_seq_put w_primitive_put w_tlv_put fold_mms_encode into_bytes_put)

definition goose_pdu_ok :: "goose_pdu \<Rightarrow> bool" where
  "goose_pdu_ok p \<longleftrightarrow> str_ok (gocb_ref p) \<and> str_ok (dat_set p) \<and> str_ok (go_id p) \<and> utc_ok (gt p) \<and>
     list_all data_ok (all_data p) \<and> length (goose_encode p) < usize_limit"

lemma goose_decode_encode:
  assumes "goose_pdu_ok p"
  shows "goose_decode (goose_encode p) = Inr p"
proof -
  have len: "length (tlv_bytes goose_apdu (goose_fields p)) < usize_limit"
    using assms by (simp add: goose_pdu_ok_def goose_encode_bytes)
  then have ok: "slice_ok [] (goose_fields p)"
    using length_content_less [of "goose_fields p" goose_apdu] by (simp add: slice_ok_def)
  have data: "read_all_data (reader_new (concat (map mms_bytes (all_data p)))) [] = Inr (all_data p)"
  proof -
    have "length (concat (map mms_bytes (all_data p))) \<le> length (goose_fields p)"
      using length_content_less [of "concat (map mms_bytes (all_data p))" "tag_context 11 True"]
      by (simp add: goose_fields_def)
    then show ?thesis
      using read_all_data_bytes [of "all_data p" "[]" "[]"] ok assms
      by (simp add: reader_new_at slice_ok_def goose_pdu_ok_def)
  qed
  show ?thesis
    using ok assms
    unfolding goose_decode_def goose_encode_bytes read_tlv_single [OF len]
    unfolding goose_fields_def
    by (simp add: map_errR_def tlv_reader_at goose_pdu_ok_def slice_ok_step g_read_visible_at g_read_u32_at
        g_read_bool_at g_read_utc_at expect_field_last data)
qed

interpretation goose: pdu_codec goose_encode goose_decode goose_pdu_ok
  by unfold_locales (rule goose_decode_encode)

section \<open>Frames\<close>

definition ethertype_goose :: u16 where
  "ethertype_goose = 0x88B8"

record goose_frame =
  gf_dst :: mac_addr
  gf_src :: mac_addr
  gf_vlan :: "vlan_tag option"
  gf_appid :: u16
  gf_simulation :: bool
  gf_pdu :: goose_pdu

definition goose_hdr :: "goose_frame \<Rightarrow> eth_header" where
  "goose_hdr f = \<lparr>eth_dst = gf_dst f, eth_src = gf_src f, eth_vlan = gf_vlan f,
     eth_ethertype = ethertype_goose, eth_simulation = gf_simulation f\<rparr>"

definition goose_frame_encode :: "goose_frame \<Rightarrow> bytes" where
  "goose_frame_encode f =
    (let (out, len_pos) = write_eth_appid [] (goose_hdr f) (gf_appid f);
         apdu = goose_encode (gf_pdu f)
     in finish_l2_frame (out @ apdu) len_pos (length apdu))"

text \<open>The signer is given by the results of \<open>tag_len\<close> and \<open>sign_tag\<close>.\<close>

definition goose_frame_encode_signed :: "goose_frame \<Rightarrow> nat \<Rightarrow> (bytes \<Rightarrow> bytes) \<Rightarrow> bytes" where
  "goose_frame_encode_signed f tag_len sign_tag =
    (let (out, len_pos) = write_eth_appid [] (goose_hdr f) (gf_appid f);
         apdu = goose_encode (gf_pdu f)
     in finish_l2_frame_signed (out @ apdu) len_pos (length apdu) tag_len sign_tag)"

definition goose_frame_decode :: "bytes \<Rightarrow> goose_error + goose_frame" where
  "goose_frame_decode bs =
    bindE (map_errE GL2 (parse_eth_appid bs ethertype_goose)) (\<lambda>(hdr, appid, apdu).
    bindE (goose_decode apdu) (\<lambda>pdu.
      Inr \<lparr>gf_dst = eth_dst hdr, gf_src = eth_src hdr, gf_vlan = eth_vlan hdr, gf_appid = appid,
           gf_simulation = eth_simulation hdr, gf_pdu = pdu\<rparr>))"

definition goose_frame_decode_verified ::
    "bytes \<Rightarrow> (bytes \<Rightarrow> bytes \<Rightarrow> bool) \<Rightarrow> goose_error + goose_frame \<times> auth_status" where
  "goose_frame_decode_verified bs verify_tag =
    bindE (map_errE GL2 (parse_eth_appid_auth bs ethertype_goose)) (\<lambda>p.
    let status = (if pf_auth_tag p = [] then AuthUnsigned
                  else if verify_tag (pf_signed_data p) (pf_auth_tag p) then AuthValid
                  else AuthInvalid)
    in bindE (goose_decode (pf_apdu p)) (\<lambda>pdu.
      Inr (\<lparr>gf_dst = eth_dst (pf_hdr p), gf_src = eth_src (pf_hdr p), gf_vlan = eth_vlan (pf_hdr p),
            gf_appid = pf_appid p, gf_simulation = eth_simulation (pf_hdr p), gf_pdu = pdu\<rparr>, status)))"

section \<open>Round trip of frames\<close>

text \<open>A frame a publisher can send, with room for a tag of \<open>n\<close> octets.\<close>

definition goose_frame_ok :: "nat \<Rightarrow> goose_frame \<Rightarrow> bool" where
  "goose_frame_ok n f \<longleftrightarrow> length (gf_dst f) = 6 \<and> length (gf_src f) = 6 \<and>
     (case gf_vlan f of None \<Rightarrow> True | Some t \<Rightarrow> vlan_ok t) \<and>
     goose_pdu_ok (gf_pdu f) \<and> 8 + length (goose_encode (gf_pdu f)) + n < 65536"

lemma goose_hdr_ok: "goose_frame_ok n f \<Longrightarrow> eth_ok (goose_hdr f)"
  by (auto simp: goose_frame_ok_def eth_ok_def goose_hdr_def ethertype_goose_def tpid_8021q_def
      split: option.splits)

lemma goose_hdr_sel [simp]: "eth_ethertype (goose_hdr f) = ethertype_goose"
  "eth_dst (goose_hdr f) = gf_dst f" "eth_src (goose_hdr f) = gf_src f"
  "eth_vlan (goose_hdr f) = gf_vlan f" "eth_simulation (goose_hdr f) = gf_simulation f"
  by (simp_all add: goose_hdr_def)

lemma goose_frame_decode_encode:
  assumes "goose_frame_ok n f"
  shows "goose_frame_decode (goose_frame_encode f) = Inr f"
    and "goose_frame_decode_verified (goose_frame_encode f) v = Inr (f, AuthUnsigned)"
proof -
  obtain out lp where w: "write_eth_appid [] (goose_hdr f) (gf_appid f) = (out, lp)"
    by (cases "write_eth_appid [] (goose_hdr f) (gf_appid f)") auto
  have l: "8 + length (goose_encode (gf_pdu f)) < 65536" and p: "goose_pdu_ok (gf_pdu f)"
    using assms by (simp_all add: goose_frame_ok_def)
  note r = goose.framed_pdu [OF goose_hdr_ok [OF assms] p l w]
  show "goose_frame_decode (goose_frame_encode f) = Inr f"
    "goose_frame_decode_verified (goose_frame_encode f) v = Inr (f, AuthUnsigned)"
    using r by (simp_all add: goose_frame_decode_def goose_frame_decode_verified_def
        goose_frame_encode_def parse_eth_appid_def w Let_def)
qed

context frame_auth
begin

lemma goose_signed_decodes:
  assumes "goose_frame_ok tag_len f" "0 < tag_len"
  shows "goose_frame_decode_verified (goose_frame_encode_signed f tag_len sign_tag) verify_tag
      = Inr (f, AuthValid)"
    and "goose_frame_decode (goose_frame_encode_signed f tag_len sign_tag) = Inr f"
proof -
  obtain out lp where w: "write_eth_appid [] (goose_hdr f) (gf_appid f) = (out, lp)"
    by (cases "write_eth_appid [] (goose_hdr f) (gf_appid f)") auto
  have l: "8 + length (goose_encode (gf_pdu f)) + tag_len < 65536" and p: "goose_pdu_ok (gf_pdu f)"
    using assms by (simp_all add: goose_frame_ok_def)
  from signed_frame_parses [OF goose_hdr_ok [OF assms(1)] l assms(2) w]
  show "goose_frame_decode_verified (goose_frame_encode_signed f tag_len sign_tag) verify_tag
      = Inr (f, AuthValid)"
    "goose_frame_decode (goose_frame_encode_signed f tag_len sign_tag) = Inr f"
    using goose_decode_encode [OF p]
    by (auto simp: goose_frame_decode_verified_def goose_frame_encode_signed_def w
        goose_frame_decode_def parse_eth_appid_def Let_def)
qed

end

text \<open>An unsigned or wrongly signed frame is never reported as valid.\<close>

lemma goose_verified_valid:
  "goose_frame_decode_verified bs v = Inr (f, AuthValid) \<Longrightarrow>
    \<exists>p. parse_eth_appid_auth bs ethertype_goose = Inr p \<and> pf_auth_tag p \<noteq> [] \<and>
      v (pf_signed_data p) (pf_auth_tag p) \<and> goose_decode (pf_apdu p) = Inr (gf_pdu f)"
  by (auto simp: goose_frame_decode_verified_def bindE_Inr_iff Let_def split: if_splits)

lemmas goose_evals [evals] = goose_encode_def goose_apdu_def ethertype_goose_def goose_hdr_def
  goose_frame_encode_def goose_frame_decode_def

text \<open>A concrete frame.\<close>

definition goose_sample_pdu :: goose_pdu where
  "goose_sample_pdu = \<lparr>gocb_ref = ''IED1LD0/LLN0.GO'', time_allowed_to_live = 2000,
      dat_set = ''ds1'', go_id = ''gcb01'', gt = [1, 2, 3, 4, 5, 6, 7, 8], st_num = 7, sq_num = 3,
      gtest = False, conf_rev = 1, nds_com = False, num_dat_set_entries = 2,
      all_data = [MBool True, MInt 42]\<rparr>"

definition goose_sample :: goose_frame where
  "goose_sample = \<lparr>gf_dst = [1, 12, 205, 1, 0, 1], gf_src = [0, 17, 34, 51, 68, 85],
      gf_vlan = Some (vlan_new 100), gf_appid = 1, gf_simulation = False, gf_pdu = goose_sample_pdu\<rparr>"

lemma goose_sample_sel [simp]: "\<not> gf_simulation goose_sample" "gf_pdu goose_sample = goose_sample_pdu"
  by (simp_all add: goose_sample_def)

lemma goose_sample_pdu_length: "length (goose_encode goose_sample_pdu) = 71"
  by (simp add: goose_encode_bytes goose_fields_def goose_sample_pdu_def goose_apdu_def evals)

lemma goose_sample_pdu_ok: "goose_pdu_ok goose_sample_pdu"
  unfolding goose_pdu_ok_def goose_sample_pdu_length
  by (simp add: goose_sample_pdu_def data_ok_def utc_ok_def evals utf8_next.simps)

lemma goose_sample_ok: "n \<le> 1000 \<Longrightarrow> goose_frame_ok n goose_sample"
  by (simp add: goose_frame_ok_def goose_sample_def goose_sample_pdu_ok goose_sample_pdu_length
      vlan_ok_def vlan_new_def)

section \<open>Properties\<close>

text \<open>A \<open>goosePdu\<close> with UTF-8 strings, an eight-octet time and data nested at most 32 levels
  round-trips through its BER encoding.\<close>

theorem goose_pdu_roundtrip:
  assumes "goose_pdu_ok p"
  shows "goose_decode (goose_encode p) = Inr p"
  using assms by (rule goose_decode_encode)

text \<open>A GOOSE frame sent unsigned is received unchanged, and a subscriber that verifies tags
  reports it as unsigned, whatever its verifier.\<close>

theorem goose_frame_roundtrip:
  assumes "goose_frame_ok 0 f"
  shows "goose_frame_decode (goose_frame_encode f) = Inr f \<and>
    goose_frame_decode_verified (goose_frame_encode f) verify_tag = Inr (f, AuthUnsigned)"
  using goose_frame_decode_encode [OF assms] by simp

text \<open>A GOOSE frame signed with an HMAC key is received unchanged and reported as valid under
  that key.\<close>

theorem goose_signed_roundtrip:
  assumes "goose_frame_ok hmac_sha256_tag_len f"
  shows "goose_frame_decode_verified
      (goose_frame_encode_signed f hmac_sha256_tag_len (hmac_mac k)) (hmac_verify k) = Inr (f, AuthValid)"
  by (rule hmac.goose_signed_decodes(1) [OF assms]) (simp add: hmac_sha256_tag_len_def)

text \<open>Any octets reported as a valid frame under an HMAC key contain, next to each other, an
  application header, the octets the reported PDU was decoded from, and the HMAC of exactly those
  two; so a PDU no holder of the key has signed is never reported as valid.\<close>

theorem goose_valid_is_authentic:
  assumes "goose_frame_decode_verified bs (hmac_verify k) = Inr (f, AuthValid)"
  shows "\<exists>off hdr apdu tag pad. bs = take off bs @ hdr @ apdu @ tag @ pad \<and> length hdr = 8 \<and>
    tag = hmac_mac k (hdr @ apdu) \<and> goose_decode apdu = Inr (gf_pdu f)"
proof -
  from goose_verified_valid [OF assms] obtain p where
    p: "parse_eth_appid_auth bs ethertype_goose = Inr p" "pf_auth_tag p \<noteq> []"
      "hmac_verify k (pf_signed_data p) (pf_auth_tag p)" "goose_decode (pf_apdu p) = Inr (gf_pdu f)"
    by blast
  from parse_structure [OF p(1)] p(2-4) show ?thesis
    unfolding hmac_verify_iff by metis
qed

end
