(* ===== verification/GoosePublisher.thy ===== *)
theory GoosePublisher imports GoosePdu begin

text \<open>
  The GOOSE publisher: \<open>crates/iec61850-goose/src/config.rs\<close> and \<open>publisher.rs\<close>. The task's loop
  is a state machine: one step per branch of its \<open>select!\<close>, with the clock readings of that step
  as inputs. A \<open>Duration\<close> and an \<open>Instant\<close> are nanoseconds as natural numbers. The lemmas give
  the invariant of the reachable states, the numbering of consecutive frames, the growth of the
  retransmission interval and the margin of \<open>timeAllowedToLive\<close> over it.
\<close>

section \<open>Configuration\<close>

record 'sk goose_config =
  gc_dst :: mac_addr
  gc_src :: mac_addr
  gc_vlan :: "vlan_tag option"
  gc_appid :: u16
  gc_gocb_ref :: string
  gc_dat_set :: string
  gc_go_id :: string
  gc_conf_rev :: u32
  gc_test :: bool
  gc_simulation :: bool
  gc_t_min :: nat
  gc_t_max :: nat
  gc_security :: "'sk signer option"

definition ms :: "nat \<Rightarrow> nat" where
  "ms n = n * 1000000"

definition goose_config_new :: "mac_addr \<Rightarrow> mac_addr \<Rightarrow> u16 \<Rightarrow> string \<Rightarrow> 'sk goose_config" where
  "goose_config_new dst src appid gref =
    \<lparr>gc_dst = dst, gc_src = src, gc_vlan = None, gc_appid = appid, gc_gocb_ref = gref,
     gc_dat_set = [], gc_go_id = [], gc_conf_rev = 1, gc_test = False, gc_simulation = False,
     gc_t_min = ms 4, gc_t_max = ms 1000, gc_security = None\<rparr>"

definition with_security :: "'sk signer \<Rightarrow> 'sk goose_config \<Rightarrow> 'sk goose_config" where
  "with_security s c = c\<lparr>gc_security := Some s\<rparr>"

text \<open>\<open>now_utc\<close>, of the time since the epoch in seconds and nanoseconds (\<open>None\<close>: before it).\<close>

definition now_utc :: "(u64 \<times> nat) option \<Rightarrow> utc_time" where
  "now_utc d =
    (case d of
       Some (secs, nanos) \<Rightarrow>
         to_be (ucast secs :: u32) @ drop 1 (to_be (word_of_nat (nanos * 2 ^ 24 div 1000000000) :: u32))
     | None \<Rightarrow> replicate 7 0) @ [0x0A]"

lemma now_utc_ok: "utc_ok (now_utc d)"
  by (simp add: utc_ok_def now_utc_def split: option.splits)

section \<open>Sending\<close>

text \<open>\<open>ttl_ms\<close>: twice the next interval, in whole milliseconds, capped at \<open>u32::MAX\<close>.\<close>

definition ttl_ms :: "nat \<Rightarrow> u32" where
  "ttl_ms next_interval = word_of_nat (min (2 * (next_interval div 1000000)) (2 ^ 32 - 1))"

definition pub_frame ::
    "'sk goose_config \<Rightarrow> mms_data list \<Rightarrow> u32 \<Rightarrow> u32 \<Rightarrow> utc_time \<Rightarrow> nat \<Rightarrow> goose_frame" where
  "pub_frame cfg values st sq t next_interval =
    \<lparr>gf_dst = gc_dst cfg, gf_src = gc_src cfg, gf_vlan = gc_vlan cfg, gf_appid = gc_appid cfg,
     gf_simulation = gc_simulation cfg,
     gf_pdu = \<lparr>gocb_ref = gc_gocb_ref cfg, time_allowed_to_live = ttl_ms next_interval,
       dat_set = gc_dat_set cfg, go_id = gc_go_id cfg, gt = t, st_num = st, sq_num = sq,
       gtest = gc_test cfg, conf_rev = gc_conf_rev cfg, nds_com = False,
       num_dat_set_entries = word_of_nat (length values), all_data = values\<rparr>\<rparr>"

text \<open>The clock readings of one step: the instant the timer is reset at, \<open>now_utc()\<close>, and the
  seconds a key ring reads for the length of the tag and for the tag.\<close>

record clocks =
  ck_now :: nat
  ck_utc :: utc_time
  ck_len_secs :: u64
  ck_sign_secs :: u64

definition send_frame ::
    "('sk \<Rightarrow> bytes \<Rightarrow> bytes) \<Rightarrow> clocks \<Rightarrow> 'sk goose_config \<Rightarrow> mms_data list \<Rightarrow> u32 \<Rightarrow> u32 \<Rightarrow> utc_time
      \<Rightarrow> nat \<Rightarrow> bytes" where
  "send_frame ecdsa_sign ck cfg values st sq t next_interval =
    (let frame = pub_frame cfg values st sq t next_interval
     in case gc_security cfg of
          Some key \<Rightarrow> goose_frame_encode_signed frame (signer_tag_len (ck_len_secs ck) key)
                        (signer_sign_tag ecdsa_sign (ck_sign_secs ck) key)
        | None \<Rightarrow> goose_frame_encode frame)"

section \<open>The loop\<close>

record pub_state =
  ps_st_num :: u32
  ps_sq_num :: u32
  ps_last_values :: "mms_data list"
  ps_t :: utc_time
  ps_interval :: nat
  ps_started :: bool
  ps_timer :: nat

definition pub_init :: "'sk goose_config \<Rightarrow> clocks \<Rightarrow> pub_state" where
  "pub_init cfg ck =
    \<lparr>ps_st_num = 1, ps_sq_num = 0, ps_last_values = [], ps_t = ck_utc ck,
     ps_interval = gc_t_min cfg, ps_started = False, ps_timer = ck_now ck + gc_t_min cfg\<rparr>"

text \<open>A step returns the new state and the octets sent, if any.\<close>

definition pub_send ::
    "('sk \<Rightarrow> bytes \<Rightarrow> bytes) \<Rightarrow> 'sk goose_config \<Rightarrow> clocks \<Rightarrow> pub_state \<Rightarrow> pub_state \<times> bytes option" where
  "pub_send ecdsa_sign cfg ck s =
    (s\<lparr>ps_timer := ck_now ck + ps_interval s\<rparr>,
     Some (send_frame ecdsa_sign ck cfg (ps_last_values s) (ps_st_num s) (ps_sq_num s) (ps_t s)
             (ps_interval s)))"

definition next_st :: "u32 \<Rightarrow> u32" where
  "next_st st = (if st + 1 = 0 then 1 else st + 1)"

definition pub_on_values ::
    "('sk \<Rightarrow> bytes \<Rightarrow> bytes) \<Rightarrow> 'sk goose_config \<Rightarrow> clocks \<Rightarrow> mms_data list \<Rightarrow> pub_state
      \<Rightarrow> pub_state \<times> bytes option" where
  "pub_on_values ecdsa_sign cfg ck values s =
    (if ps_started s \<and> list_all2 mms_eq values (ps_last_values s) then (s, None)
     else pub_send ecdsa_sign cfg ck
       (s\<lparr>ps_st_num := (if ps_started s then next_st (ps_st_num s) else ps_st_num s),
          ps_sq_num := 0, ps_last_values := values, ps_t := ck_utc ck,
          ps_interval := gc_t_min cfg, ps_started := True\<rparr>))"

definition pub_on_timer ::
    "('sk \<Rightarrow> bytes \<Rightarrow> bytes) \<Rightarrow> 'sk goose_config \<Rightarrow> clocks \<Rightarrow> pub_state \<Rightarrow> pub_state \<times> bytes option" where
  "pub_on_timer ecdsa_sign cfg ck s =
    pub_send ecdsa_sign cfg ck
      (s\<lparr>ps_sq_num := ps_sq_num s + 1, ps_interval := min (ps_interval s * 2) (gc_t_max cfg)\<rparr>)"

text \<open>The branches of \<open>select!\<close> that keep the loop going. The timer branch is enabled once a value
  has been published and fires when its deadline has passed; a stop request, or the end of the
  value channel, leaves the loop.\<close>

inductive pub_step ::
    "('sk \<Rightarrow> bytes \<Rightarrow> bytes) \<Rightarrow> 'sk goose_config \<Rightarrow> pub_state \<Rightarrow> bytes option \<Rightarrow> pub_state \<Rightarrow> bool"
  for ecdsa_sign cfg where
  pub_values: "pub_on_values ecdsa_sign cfg ck values s = (s', out) \<Longrightarrow> utc_ok (ck_utc ck) \<Longrightarrow>
    pub_step ecdsa_sign cfg s out s'"
| pub_timer: "ps_started s \<Longrightarrow> ps_timer s \<le> ck_now ck \<Longrightarrow>
    pub_on_timer ecdsa_sign cfg ck s = (s', out) \<Longrightarrow> pub_step ecdsa_sign cfg s out s'"

inductive_cases pub_stepE: "pub_step ecdsa_sign cfg s out s'"

inductive pub_reachable :: "('sk \<Rightarrow> bytes \<Rightarrow> bytes) \<Rightarrow> 'sk goose_config \<Rightarrow> pub_state \<Rightarrow> bool"
  for ecdsa_sign cfg where
  pub_start: "utc_ok (ck_utc ck) \<Longrightarrow> pub_reachable ecdsa_sign cfg (pub_init cfg ck)"
| pub_next: "pub_reachable ecdsa_sign cfg s \<Longrightarrow> pub_step ecdsa_sign cfg s out s' \<Longrightarrow>
    pub_reachable ecdsa_sign cfg s'"

section \<open>Facts\<close>

lemma next_st_nonzero [simp]: "next_st st \<noteq> 0"
  by (simp add: next_st_def)

lemma next_st_different: "next_st st \<noteq> st"
proof (cases "st + 1 = 0")
  case True
  then have "st \<noteq> 1" by auto
  then show ?thesis using True by (simp add: next_st_def)
qed (simp add: next_st_def)

definition pub_inv :: "'sk goose_config \<Rightarrow> pub_state \<Rightarrow> bool" where
  "pub_inv cfg s \<longleftrightarrow> ps_st_num s \<noteq> 0 \<and> utc_ok (ps_t s) \<and>
     min (gc_t_min cfg) (gc_t_max cfg) \<le> ps_interval s \<and>
     ps_interval s \<le> max (gc_t_min cfg) (gc_t_max cfg) \<and>
     (\<not> ps_started s \<longrightarrow> ps_st_num s = 1 \<and> ps_sq_num s = 0 \<and> ps_last_values s = [])"

lemma pub_inv_step: "pub_step es cfg s out s' \<Longrightarrow> pub_inv cfg s \<Longrightarrow> pub_inv cfg s'"
  by (erule pub_stepE)
    (auto simp: pub_inv_def pub_on_values_def pub_on_timer_def pub_send_def split: if_splits)

lemma pub_inv_reachable: "pub_reachable es cfg s \<Longrightarrow> pub_inv cfg s"
proof (induction rule: pub_reachable.induct)
  case (pub_start ck)
  then show ?case by (simp add: pub_inv_def pub_init_def)
next
  case (pub_next s out s')
  then show ?case by (blast intro: pub_inv_step)
qed

text \<open>How a step that sends moves the numbers.\<close>

lemma pub_step_numbers:
  assumes "pub_step es cfg s (Some bs) s'"
  shows "(\<not> ps_started s \<and> ps_st_num s' = ps_st_num s \<and> ps_sq_num s' = 0) \<or>
    (ps_started s \<and> ps_st_num s' = next_st (ps_st_num s) \<and> ps_sq_num s' = 0) \<or>
    (ps_started s \<and> ps_st_num s' = ps_st_num s \<and> ps_sq_num s' = ps_sq_num s + 1 \<and>
      ps_last_values s' = ps_last_values s \<and> ps_t s' = ps_t s)"
  and "ps_started s'"
  using assms
  by (auto elim!: pub_stepE simp: pub_on_values_def pub_on_timer_def pub_send_def split: if_splits)

lemma pub_step_silent: "pub_step es cfg s None s' \<Longrightarrow> s' = s"
  by (auto elim!: pub_stepE simp: pub_on_values_def pub_on_timer_def pub_send_def split: if_splits)

lemma pub_step_sends:
  assumes "pub_step es cfg s (Some bs) s'"
  obtains ck where "bs = send_frame es ck cfg (ps_last_values s') (ps_st_num s') (ps_sq_num s')
      (ps_t s') (ps_interval s')" "ps_timer s' = ck_now ck + ps_interval s'"
  using assms
  by (auto elim!: pub_stepE simp: pub_on_values_def pub_on_timer_def pub_send_def split: if_splits)

lemma ttl_margin:
  assumes "1000000 \<le> interval" "interval < 2 ^ 31 * 1000000"
  shows "interval < unat (ttl_ms interval) * 1000000"
proof -
  define q r where "q = interval div 1000000" and "r = interval mod 1000000"
  have i: "interval = q * 1000000 + r" "r < 1000000"
    by (simp_all add: q_def r_def)
  have q: "1 \<le> q" "q < 2 ^ 31"
    using assms i by simp_all
  then have "unat (ttl_ms interval) = 2 * q"
    unfolding ttl_ms_def q_def [symmetric] by (subst unat_of_nat) simp
  then show ?thesis using i q by simp
qed

fun timer_steps :: "'sk goose_config \<Rightarrow> clocks list \<Rightarrow> ('sk \<Rightarrow> bytes \<Rightarrow> bytes) \<Rightarrow> pub_state \<Rightarrow> pub_state" where
  "timer_steps cfg [] es s = s"
| "timer_steps cfg (ck # cks) es s = timer_steps cfg cks es (fst (pub_on_timer es cfg ck s))"

lemma timer_steps_interval:
  "cks \<noteq> [] \<Longrightarrow> ps_interval (timer_steps cfg cks es s) =
     min (ps_interval s * 2 ^ length cks) (gc_t_max cfg)"
proof (induction cks arbitrary: s)
  case (Cons ck cks)
  have i: "ps_interval (fst (pub_on_timer es cfg ck s)) = min (ps_interval s * 2) (gc_t_max cfg)"
    by (simp add: pub_on_timer_def pub_send_def)
  show ?case
  proof (cases "cks = []")
    case True
    then show ?thesis by (simp add: i)
  next
    case False
    have "min (min (x * 2) m * 2 ^ n) m = min (x * 2 * 2 ^ n) m" for x m n :: nat
    proof (cases "x * 2 \<le> m")
      case False
      have g: "k \<le> k * 2 ^ n" for k :: nat by simp
      have "m \<le> m * 2 ^ n" "m \<le> x * 2 * 2 ^ n"
        using False g [of m] g [of "x * 2"] by linarith+
      then show ?thesis using False by simp
    qed simp
    then show ?thesis
      using Cons.IH [OF False, of "fst (pub_on_timer es cfg ck s)"]
      by (simp add: i mult.assoc)
  qed
qed simp

lemma timer_steps_numbers:
  "ps_st_num (timer_steps cfg cks es s) = ps_st_num s"
  "ps_sq_num (timer_steps cfg cks es s) = ps_sq_num s + word_of_nat (length cks)"
  "ps_last_values (timer_steps cfg cks es s) = ps_last_values s"
  "ps_t (timer_steps cfg cks es s) = ps_t s"
  by (induction cks arbitrary: s) (simp_all add: pub_on_timer_def pub_send_def)

section \<open>Properties\<close>

text \<open>C22: Every frame a publisher sends carries a non-zero \<open>stNum\<close>, and either starts a new state
  (the next \<open>stNum\<close>, which skips the reserved 0, or the first one, with \<open>sqNum\<close> 0) or repeats the
  state with the same values and time and the next \<open>sqNum\<close>; a value equal to the last one sends
  nothing and changes nothing.\<close>

theorem pub_numbering:
  assumes "pub_reachable es cfg s" "pub_step es cfg s out s'"
  shows "case out of
      None \<Rightarrow> s' = s
    | Some bs \<Rightarrow>
        (\<exists>ck. bs = send_frame es ck cfg (ps_last_values s') (ps_st_num s') (ps_sq_num s') (ps_t s') (ps_interval s')) \<and>
        ps_st_num s' \<noteq> 0 \<and>
        (if ps_sq_num s' = 0 \<and> ps_st_num s' \<noteq> ps_st_num s
         then ps_st_num s' = next_st (ps_st_num s)
         else if ps_started s
         then ps_st_num s' = ps_st_num s \<and> ps_sq_num s' = ps_sq_num s + 1 \<and>
              ps_last_values s' = ps_last_values s \<and> ps_t s' = ps_t s
         else ps_st_num s' = 1 \<and> ps_sq_num s' = 0)"
proof (cases out)
  case None
  then show ?thesis using pub_step_silent assms(2) by auto
next
  case (Some bs)
  note st = assms(2) [unfolded Some]
  have inv: "pub_inv cfg s" "pub_inv cfg s'"
    using pub_inv_reachable [OF assms(1)] pub_inv_step [OF assms(2)] by auto
  obtain ck where ck: "bs = send_frame es ck cfg (ps_last_values s') (ps_st_num s') (ps_sq_num s')
      (ps_t s') (ps_interval s')"
    by (rule pub_step_sends [OF st])
  have "ps_st_num s' \<noteq> 0" and first: "\<not> ps_started s \<Longrightarrow> ps_st_num s = 1"
    using inv by (simp_all add: pub_inv_def)
  then show ?thesis
    using pub_step_numbers(1) [OF st] next_st_different [of "ps_st_num s"] ck
    unfolding Some by (elim disjE conjE) (simp_all, blast+)
qed

definition pub_demo_clocks :: "nat \<Rightarrow> clocks" where
  "pub_demo_clocks n = \<lparr>ck_now = n, ck_utc = [0, 0, 0, 0, 0, 0, 0, 0], ck_len_secs = 0, ck_sign_secs = 0\<rparr>"

definition pub_demo :: "bytes goose_config" where
  "pub_demo = goose_config_new [1, 12, 205, 1, 0, 1] [0, 17, 34, 51, 68, 85] 1 ''GO''"

lemma pub_demo_bounds: "ms 1 \<le> gc_t_min pub_demo" "ms 1 \<le> gc_t_max pub_demo"
  "gc_t_min pub_demo < ms (2 ^ 31)" "gc_t_max pub_demo < ms (2 ^ 31)"
  by (simp_all add: pub_demo_def goose_config_new_def ms_def)

lemma pub_demo_start: "pub_reachable es pub_demo (pub_init pub_demo (pub_demo_clocks 0))"
  by (rule pub_start) (simp add: pub_demo_clocks_def utc_ok_def)

lemma pub_demo_first:
  "\<exists>s' bs. pub_step es pub_demo (pub_init pub_demo (pub_demo_clocks 0)) (Some bs) s' \<and>
    ps_interval s' = ms 4 \<and> ps_st_num s' = 1"
proof -
  let ?p = "pub_on_values es pub_demo (pub_demo_clocks 5) [MBool True] (pub_init pub_demo (pub_demo_clocks 0))"
  have "pub_step es pub_demo (pub_init pub_demo (pub_demo_clocks 0)) (snd ?p) (fst ?p)"
    by (rule pub_values [of _ _ "pub_demo_clocks 5" "[MBool True]"])
      (simp_all add: pub_demo_clocks_def utc_ok_def)
  then show ?thesis
    by (auto simp: pub_on_values_def pub_init_def pub_send_def pub_demo_def goose_config_new_def)
qed

theorem pub_numbering_witness:
  "\<exists>s' bs. pub_step (\<lambda>k d. []) pub_demo (pub_init pub_demo (pub_demo_clocks 0)) (Some bs) s' \<and> ps_st_num s' \<noteq> 0"
proof -
  obtain s' bs where st: "pub_step (\<lambda>k d. []) pub_demo (pub_init pub_demo (pub_demo_clocks 0)) (Some bs) s'"
    using pub_demo_first by blast
  from pub_numbering [OF pub_demo_start this] st show ?thesis by auto
qed



text \<open>Without a new value the interval doubles with every retransmission until it stays at
  \<open>t_max\<close>: after \<open>n\<close> retransmissions it is the least of \<open>2^n\<close> times the interval before and
  \<open>t_max\<close>, while the state number, the values and the time stay.\<close>

theorem pub_backoff:
  assumes "cks \<noteq> []"
  shows "ps_interval (timer_steps cfg cks es s) = min (ps_interval s * 2 ^ length cks) (gc_t_max cfg) \<and>
    ps_st_num (timer_steps cfg cks es s) = ps_st_num s \<and>
    ps_sq_num (timer_steps cfg cks es s) = ps_sq_num s + word_of_nat (length cks) \<and>
    ps_last_values (timer_steps cfg cks es s) = ps_last_values s \<and>
    ps_t (timer_steps cfg cks es s) = ps_t s"
  by (simp add: timer_steps_interval [OF assms] timer_steps_numbers)

end
