(* ===== verification/GooseSubscriber.thy ===== *)
theory GooseSubscriber imports GoosePdu begin

text \<open>
  The GOOSE subscriber: \<open>crates/iec61850-goose/src/subscriber.rs\<close>. The state of its task is the
  map of tracked control blocks, the set of references held by a simulation and the instant of
  the sweep timer; each branch of the \<open>select!\<close> is a step. The iteration order of a \<open>HashMap\<close> is
  unspecified and is an argument of the sweep. The lemmas describe the classification of frames,
  the simulation gate, the isolation of frames that fail authentication, and the sweep.
\<close>

section \<open>Events\<close>

record goose_filter =
  ff_gocb_ref :: "string option"
  ff_appid :: "u16 option"
  ff_dst :: "mac_addr option"

definition filter_accepts :: "goose_filter \<Rightarrow> goose_frame \<Rightarrow> bool" where
  "filter_accepts flt f \<longleftrightarrow> is_none_or (\<lambda>a. a = gf_appid f) (ff_appid flt) \<and>
     is_none_or (\<lambda>d. d = gf_dst f) (ff_dst flt) \<and>
     is_none_or (\<lambda>g. g = gocb_ref (gf_pdu f)) (ff_gocb_ref flt)"

datatype goose_event_kind =
    StateChange
  | Retransmission
  | LossSuspected (expected_sq: u32) (got_sq: u32)
  | Expired
  | AuthFailed (auth_result: auth_status)

record goose_event =
  ev_gocb_ref :: string
  ev_go_id :: string
  ev_dat_set :: string
  ev_appid :: u16
  ev_src :: mac_addr
  ev_st_num :: u32
  ev_sq_num :: u32
  ev_conf_rev :: u32
  ev_test :: bool
  ev_simulation :: bool
  ev_t :: utc_time
  ev_time_allowed_to_live :: u32
  ev_values :: "mms_data list"
  ev_kind :: goose_event_kind

definition plain_event :: "goose_frame \<Rightarrow> goose_event_kind \<Rightarrow> goose_event" where
  "plain_event f kind =
    (let p = gf_pdu f
     in \<lparr>ev_gocb_ref = gocb_ref p, ev_go_id = go_id p, ev_dat_set = dat_set p,
         ev_appid = gf_appid f, ev_src = gf_src f, ev_st_num = st_num p, ev_sq_num = sq_num p,
         ev_conf_rev = conf_rev p, ev_test = gtest p, ev_simulation = gf_simulation f,
         ev_t = gt p, ev_time_allowed_to_live = time_allowed_to_live p,
         ev_values = all_data p, ev_kind = kind\<rparr>)"

section \<open>State\<close>

record track =
  tr_last_st :: u32
  tr_last_sq :: u32
  tr_deadline :: nat
  tr_go_id :: string
  tr_dat_set :: string
  tr_appid :: u16
  tr_src :: mac_addr
  tr_simulation :: bool

record sub_state =
  ss_tracks :: "string \<rightharpoonup> track"
  ss_simulated :: "string set"
  ss_sweep :: nat

definition far_future :: "nat \<Rightarrow> nat" where
  "far_future now = now + 24 * 3600 * 1000000000"

definition sub_init :: "nat \<Rightarrow> sub_state" where
  "sub_init now = \<lparr>ss_tracks = Map.empty, ss_simulated = {}, ss_sweep = far_future now\<rparr>"

text \<open>\<open>next_deadline\<close>: the least deadline of the tracks, over their keys.\<close>

definition next_deadline :: "nat \<Rightarrow> (string \<rightharpoonup> track) \<Rightarrow> nat" where
  "next_deadline now tracks =
    (if dom tracks = {} then far_future now else Min (tr_deadline ` ran tracks))"

section \<open>Receiving a frame\<close>

definition sim_gate :: "bool \<Rightarrow> string set \<Rightarrow> string \<Rightarrow> bool \<Rightarrow> string set \<times> bool" where
  "sim_gate sim subs gref frame_simulated =
    (if \<not> sim then ((if subs \<noteq> {} then {} else subs), \<not> frame_simulated)
     else if frame_simulated then (insert gref subs, True)
     else (subs, gref \<notin> subs))"

definition track_kind :: "track option \<Rightarrow> goose_pdu \<Rightarrow> goose_event_kind" where
  "track_kind prev p =
    (case prev of
       None \<Rightarrow> StateChange
     | Some prev \<Rightarrow>
         if st_num p \<noteq> tr_last_st prev then StateChange
         else if sq_num p = tr_last_sq prev + 1 then Retransmission
         else if sq_num p > tr_last_sq prev + 1
         then LossSuspected (tr_last_sq prev + 1) (sq_num p)
         else Retransmission)"

definition track_and_build ::
    "nat \<Rightarrow> (string \<rightharpoonup> track) \<Rightarrow> goose_frame \<Rightarrow> (string \<rightharpoonup> track) \<times> goose_event" where
  "track_and_build now tracks f =
    (let p = gf_pdu f;
         deadline = now + unat (time_allowed_to_live p) * 1000000;
         kind = track_kind (tracks (gocb_ref p)) p
     in (tracks(gocb_ref p \<mapsto>
           \<lparr>tr_last_st = st_num p, tr_last_sq = sq_num p, tr_deadline = deadline,
            tr_go_id = go_id p, tr_dat_set = dat_set p, tr_appid = gf_appid f,
            tr_src = gf_src f, tr_simulation = gf_simulation f\<rparr>),
         \<lparr>ev_gocb_ref = gocb_ref p, ev_go_id = go_id p, ev_dat_set = dat_set p,
          ev_appid = gf_appid f, ev_src = gf_src f, ev_st_num = st_num p, ev_sq_num = sq_num p,
          ev_conf_rev = conf_rev p, ev_test = gtest p, ev_simulation = gf_simulation f,
          ev_t = gt p, ev_time_allowed_to_live = time_allowed_to_live p,
          ev_values = all_data p, ev_kind = kind\<rparr>))"

text \<open>What the receive branch makes of the octets before the filter: nothing, a frame to track, or
  a frame that failed authentication. \<open>verify\<close> is the verifier's method, if one is required.\<close>

datatype rx = RxDrop | RxFrame goose_frame | RxAuthFailed goose_frame auth_status

definition receive :: "(bytes \<Rightarrow> bytes \<Rightarrow> bool) option \<Rightarrow> bytes \<Rightarrow> rx" where
  "receive verify bs =
    (case verify of
       Some v \<Rightarrow>
         (case goose_frame_decode_verified bs v of
            Inr (f, AuthValid) \<Rightarrow> RxFrame f
          | Inr (f, status) \<Rightarrow> RxAuthFailed f status
          | Inl _ \<Rightarrow> RxDrop)
     | None \<Rightarrow> (case goose_frame_decode bs of Inr f \<Rightarrow> RxFrame f | Inl _ \<Rightarrow> RxDrop))"

text \<open>The receive branch: the new state and the event for the consumer, if any. \<open>now\<close> is
  \<open>Instant::now()\<close>, \<open>sim_mode\<close> the value of the shared flag.\<close>

definition on_recv ::
    "goose_filter \<Rightarrow> (bytes \<Rightarrow> bytes \<Rightarrow> bool) option \<Rightarrow> bool \<Rightarrow> nat \<Rightarrow> bytes \<Rightarrow> sub_state
      \<Rightarrow> sub_state \<times> goose_event option" where
  "on_recv flt verify sim_mode now bs s =
    (case receive verify bs of
       RxDrop \<Rightarrow> (s, None)
     | RxAuthFailed f status \<Rightarrow>
         (s, if filter_accepts flt f then Some (plain_event f (AuthFailed status)) else None)
     | RxFrame f \<Rightarrow>
         if \<not> filter_accepts flt f then (s, None)
         else let (subs, pass) = sim_gate sim_mode (ss_simulated s) (gocb_ref (gf_pdu f)) (gf_simulation f);
                  s = s\<lparr>ss_simulated := subs\<rparr>
              in if \<not> pass then (s, None)
                 else let (tracks, ev) = track_and_build now (ss_tracks s) f
                      in (s\<lparr>ss_tracks := tracks, ss_sweep := next_deadline now tracks\<rparr>, Some ev))"

section \<open>The sweep\<close>

definition expired_event :: "string \<Rightarrow> track \<Rightarrow> goose_event" where
  "expired_event gref tr =
    \<lparr>ev_gocb_ref = gref, ev_go_id = tr_go_id tr, ev_dat_set = tr_dat_set tr, ev_appid = tr_appid tr,
     ev_src = tr_src tr, ev_st_num = tr_last_st tr, ev_sq_num = tr_last_sq tr, ev_conf_rev = 0,
     ev_test = False, ev_simulation = tr_simulation tr, ev_t = replicate 8 0,
     ev_time_allowed_to_live = 0, ev_values = [], ev_kind = Expired\<rparr>"

text \<open>\<open>order\<close> lists the keys in the order the map is iterated.\<close>

definition expired_keys :: "nat \<Rightarrow> (string \<rightharpoonup> track) \<Rightarrow> string list \<Rightarrow> string list" where
  "expired_keys now tracks order =
    filter (\<lambda>g. case tracks g of Some tr \<Rightarrow> tr_deadline tr \<le> now | None \<Rightarrow> False) order"

fun expire :: "(string \<rightharpoonup> track) \<Rightarrow> string list \<Rightarrow> (string \<rightharpoonup> track) \<times> goose_event list" where
  "expire tracks [] = (tracks, [])"
| "expire tracks (g # gs) =
    (case tracks g of
       None \<Rightarrow> expire tracks gs
     | Some tr \<Rightarrow> let (tracks', evs) = expire (tracks(g := None)) gs
                  in (tracks', expired_event g tr # evs))"

definition on_sweep :: "nat \<Rightarrow> string list \<Rightarrow> sub_state \<Rightarrow> sub_state \<times> goose_event list" where
  "on_sweep now order s =
    (let (tracks, evs) = expire (ss_tracks s) (expired_keys now (ss_tracks s) order)
     in (s\<lparr>ss_tracks := tracks, ss_sweep := next_deadline now tracks\<rparr>, evs))"

section \<open>The loop\<close>

text \<open>The branches that keep the loop going, with the events they deliver. The flag of the
  simulation mode may change between steps. A stop request, a closed link and a consumer that is
  gone leave the loop.\<close>

inductive sub_step ::
    "goose_filter \<Rightarrow> (bytes \<Rightarrow> bytes \<Rightarrow> bool) option \<Rightarrow> sub_state \<Rightarrow> goose_event list \<Rightarrow> sub_state \<Rightarrow> bool"
  for flt verify where
  sub_recv: "on_recv flt verify sim_mode now bs s = (s', ev) \<Longrightarrow>
    sub_step flt verify s (case ev of None \<Rightarrow> [] | Some e \<Rightarrow> [e]) s'"
| sub_sweep: "ss_sweep s \<le> now \<Longrightarrow> distinct order \<Longrightarrow> set order = dom (ss_tracks s) \<Longrightarrow>
    on_sweep now order s = (s', evs) \<Longrightarrow> sub_step flt verify s evs s'"

inductive_cases sub_stepE: "sub_step flt verify s evs s'"

inductive sub_reachable :: "goose_filter \<Rightarrow> (bytes \<Rightarrow> bytes \<Rightarrow> bool) option \<Rightarrow> sub_state \<Rightarrow> bool"
  for flt verify where
  sub_start: "sub_reachable flt verify (sub_init now)"
| sub_next: "sub_reachable flt verify s \<Longrightarrow> sub_step flt verify s evs s' \<Longrightarrow> sub_reachable flt verify s'"

section \<open>Facts\<close>

lemma expire_result:
  assumes "distinct gs" "set gs \<subseteq> dom tracks"
  shows "expire tracks gs =
    (tracks |` (- set gs), map (\<lambda>g. expired_event g (the (tracks g))) gs)"
  using assms
proof (induction gs arbitrary: tracks)
  case Nil
  then show ?case by simp
next
  case (Cons g gs)
  then obtain tr where tr: "tracks g = Some tr" by auto
  have "expire (tracks(g := None)) gs =
      ((tracks(g := None)) |` (- set gs), map (\<lambda>h. expired_event h (the ((tracks(g := None)) h))) gs)"
    using Cons.prems by (intro Cons.IH) auto
  moreover have "(tracks(g := None)) |` (- set gs) = tracks |` (- set (g # gs))"
    by (rule ext) (auto simp: restrict_map_def)
  moreover have "map (\<lambda>h. expired_event h (the ((tracks(g := None)) h))) gs =
      map (\<lambda>h. expired_event h (the (tracks h))) gs"
    using Cons.prems by (intro map_cong) auto
  ultimately show ?case by (simp add: tr)
qed

definition sub_inv :: "sub_state \<Rightarrow> bool" where
  "sub_inv s \<longleftrightarrow> finite (dom (ss_tracks s)) \<and>
     (\<forall>tr \<in> ran (ss_tracks s). ss_sweep s \<le> tr_deadline tr)"

lemma next_deadline_le:
  "finite (dom tracks) \<Longrightarrow> tr \<in> ran tracks \<Longrightarrow> next_deadline now tracks \<le> tr_deadline tr"
  using finite_ran [of tracks] by (cases "dom tracks = {}") (auto simp: next_deadline_def intro!: Min_le)

lemma on_sweep_result:
  assumes "distinct order" "set order = dom (ss_tracks s)" "on_sweep now order s = (s', evs)"
  shows "ss_tracks s' = (\<lambda>g. case ss_tracks s g of
      Some tr \<Rightarrow> if tr_deadline tr \<le> now then None else Some tr | None \<Rightarrow> None)"
    and "evs = map (\<lambda>g. expired_event g (the (ss_tracks s g))) (expired_keys now (ss_tracks s) order)"
    and "ss_sweep s' = next_deadline now (ss_tracks s')" "ss_simulated s' = ss_simulated s"
proof -
  let ?k = "expired_keys now (ss_tracks s) order"
  have k: "distinct ?k" "set ?k \<subseteq> dom (ss_tracks s)"
    using assms(1,2) by (auto simp: expired_keys_def)
  have "ss_tracks s |` (- set ?k) = (\<lambda>g. case ss_tracks s g of
      Some tr \<Rightarrow> if tr_deadline tr \<le> now then None else Some tr | None \<Rightarrow> None)"
    using assms(2) by (intro ext) (auto simp: restrict_map_def expired_keys_def split: option.splits)
  then show "ss_tracks s' = (\<lambda>g. case ss_tracks s g of
      Some tr \<Rightarrow> if tr_deadline tr \<le> now then None else Some tr | None \<Rightarrow> None)"
    and "evs = map (\<lambda>g. expired_event g (the (ss_tracks s g))) ?k"
    and "ss_sweep s' = next_deadline now (ss_tracks s')" "ss_simulated s' = ss_simulated s"
    using assms(3) by (auto simp: on_sweep_def expire_result [OF k])
qed

lemma on_recv_cases:
  assumes "on_recv flt verify sim_mode now bs s = (s', ev)"
  obtains (quiet) "ss_tracks s' = ss_tracks s" "ss_sweep s' = ss_sweep s"
      "\<forall>e. ev = Some e \<longrightarrow> (\<exists>st. ev_kind e = AuthFailed st) \<and> s' = s"
  | (tracked) f where "receive verify bs = RxFrame f" "filter_accepts flt f"
      "snd (sim_gate sim_mode (ss_simulated s) (gocb_ref (gf_pdu f)) (gf_simulation f))"
      "ss_simulated s' = fst (sim_gate sim_mode (ss_simulated s) (gocb_ref (gf_pdu f)) (gf_simulation f))"
      "ss_tracks s' = fst (track_and_build now (ss_tracks s) f)"
      "ev = Some (snd (track_and_build now (ss_tracks s) f))"
      "ss_sweep s' = next_deadline now (ss_tracks s')"
  using assms
  by (cases "receive verify bs")
    (auto simp: on_recv_def plain_event_def Let_def split: prod.splits if_splits)

lemma track_and_build_tracks:
  "fst (track_and_build now tracks f) (gocb_ref (gf_pdu f)) =
     Some \<lparr>tr_last_st = st_num (gf_pdu f), tr_last_sq = sq_num (gf_pdu f),
       tr_deadline = now + unat (time_allowed_to_live (gf_pdu f)) * 1000000,
       tr_go_id = go_id (gf_pdu f), tr_dat_set = dat_set (gf_pdu f), tr_appid = gf_appid f,
       tr_src = gf_src f, tr_simulation = gf_simulation f\<rparr>"
  "g \<noteq> gocb_ref (gf_pdu f) \<Longrightarrow> fst (track_and_build now tracks f) g = tracks g"
  "dom (fst (track_and_build now tracks f)) = insert (gocb_ref (gf_pdu f)) (dom tracks)"
  "ev_kind (snd (track_and_build now tracks f)) = track_kind (tracks (gocb_ref (gf_pdu f))) (gf_pdu f)"
  by (simp_all add: track_and_build_def Let_def)

lemma sub_inv_step: "sub_step flt verify s evs s' \<Longrightarrow> sub_inv s \<Longrightarrow> sub_inv s'"
proof (erule sub_stepE)
  fix sim_mode now bs ev
  assume inv: "sub_inv s" and r: "on_recv flt verify sim_mode now bs s = (s', ev)"
  from r show "sub_inv s'"
  proof (cases rule: on_recv_cases)
    case quiet
    then show ?thesis using inv by (simp add: sub_inv_def)
  next
    case (tracked f)
    then have "finite (dom (ss_tracks s'))"
      using inv by (simp add: sub_inv_def track_and_build_tracks)
    then show ?thesis
      using tracked(7) next_deadline_le by (auto simp: sub_inv_def)
  qed
next
  fix now order
  assume inv: "sub_inv s" and o: "distinct order" "set order = dom (ss_tracks s)"
    and r: "on_sweep now order s = (s', evs)"
  note res = on_sweep_result [OF o r]
  have "dom (ss_tracks s') \<subseteq> dom (ss_tracks s)"
    unfolding res(1) by (auto split: option.splits if_splits)
  then have "finite (dom (ss_tracks s'))"
    using inv by (auto simp: sub_inv_def intro: finite_subset)
  then show "sub_inv s'"
    using res(3) next_deadline_le by (auto simp: sub_inv_def)
qed

lemma sub_inv_reachable: "sub_reachable flt verify s \<Longrightarrow> sub_inv s"
proof (induction rule: sub_reachable.induct)
  case (sub_start now)
  then show ?case by (simp add: sub_inv_def sub_init_def)
next
  case (sub_next s evs s')
  then show ?case by (blast intro: sub_inv_step)
qed

lemma receive_valid:
  "receive (Some v) bs = RxFrame f \<longleftrightarrow> goose_frame_decode_verified bs v = Inr (f, AuthValid)"
  by (auto simp: receive_def split: sum.splits prod.splits auth_status.splits)

definition ms_after :: "nat \<Rightarrow> nat" where
  "ms_after n = n * 1000000"

text \<open>A run of received octets under a fixed simulation flag.\<close>

fun recv_all ::
    "goose_filter \<Rightarrow> (bytes \<Rightarrow> bytes \<Rightarrow> bool) option \<Rightarrow> bool \<Rightarrow> (nat \<times> bytes) list \<Rightarrow> sub_state
      \<Rightarrow> sub_state \<times> goose_event list" where
  "recv_all flt verify sim [] s = (s, [])"
| "recv_all flt verify sim ((now, bs) # rest) s =
    (let (s1, ev) = on_recv flt verify sim now bs s;
         (s2, evs) = recv_all flt verify sim rest s1
     in (s2, (case ev of None \<Rightarrow> evs | Some e \<Rightarrow> e # evs)))"

definition is_auth_failed :: "goose_event \<Rightarrow> bool" where
  "is_auth_failed e \<longleftrightarrow> (\<exists>st. ev_kind e = AuthFailed st)"

lemma track_kind_not_auth [simp]: "track_kind prev p \<noteq> AuthFailed st"
  by (simp add: track_kind_def split: option.splits)

lemma on_recv_simulated:
  assumes "on_recv flt verify True now bs s = (s', ev)"
  shows "ss_simulated s \<subseteq> ss_simulated s'"
    and "ev = Some e \<Longrightarrow> \<not> is_auth_failed e \<Longrightarrow> ev_simulation e \<Longrightarrow> ev_gocb_ref e \<in> ss_simulated s'"
    and "ev = Some e \<Longrightarrow> \<not> is_auth_failed e \<Longrightarrow> ev_gocb_ref e \<in> ss_simulated s \<Longrightarrow> ev_simulation e"
  using assms
  by (auto simp: on_recv_def is_auth_failed_def sim_gate_def track_and_build_def plain_event_def Let_def
      split: rx.splits if_splits prod.splits)

lemma recv_all_simulated:
  "recv_all flt verify True xs s = (s', evs) \<Longrightarrow> ss_simulated s \<subseteq> ss_simulated s' \<and>
    (\<forall>e \<in> set evs. \<not> is_auth_failed e \<longrightarrow>
       (ev_simulation e \<longrightarrow> ev_gocb_ref e \<in> ss_simulated s') \<and>
       (ev_gocb_ref e \<in> ss_simulated s \<longrightarrow> ev_simulation e))"
proof (induction xs arbitrary: s evs)
  case Nil
  then show ?case by simp
next
  case (Cons x xs)
  obtain now bs where x: "x = (now, bs)" by (cases x)
  obtain s1 ev where r: "on_recv flt verify True now bs s = (s1, ev)"
    by (cases "on_recv flt verify True now bs s")
  obtain evs1 where rest: "recv_all flt verify True xs s1 = (s', evs1)"
    and evs: "evs = (case ev of None \<Rightarrow> evs1 | Some e \<Rightarrow> e # evs1)"
    using Cons.prems by (auto simp: x r split: prod.splits)
  note IH = Cons.IH [OF rest] and step = on_recv_simulated [OF r]
  have "e \<in> set evs \<Longrightarrow> ev = Some e \<or> e \<in> set evs1" for e
    by (auto simp: evs split: option.splits)
  with IH step show ?case by blast
qed

section \<open>Properties\<close>

text \<open>C3: With security required, a received frame changes the subscriber's state, or is delivered
  as anything but a failed authentication, only if its octets contain a PDU with the HMAC of that
  PDU and its application header under the configured key.\<close>

theorem unauthenticated_frames_isolated:
  assumes "on_recv flt (Some (hmac_verify k)) sim_mode now bs s = (s', ev)"
    and "s' \<noteq> s \<or> (\<exists>e. ev = Some e \<and> \<not> is_auth_failed e)"
  shows "\<exists>off hdr apdu pad f. bs = take off bs @ hdr @ apdu @ hmac_mac k (hdr @ apdu) @ pad \<and>
    length hdr = 8 \<and> goose_decode apdu = Inr (gf_pdu f) \<and>
    goose_frame_decode_verified bs (hmac_verify k) = Inr (f, AuthValid)"
proof -
  have "\<exists>f. receive (Some (hmac_verify k)) bs = RxFrame f"
    using assms
    by (cases "receive (Some (hmac_verify k)) bs")
      (auto simp: on_recv_def plain_event_def is_auth_failed_def Let_def split: if_splits)
  then obtain f where f: "goose_frame_decode_verified bs (hmac_verify k) = Inr (f, AuthValid)"
    by (auto simp: receive_valid)
  from goose_verified_valid [OF f] obtain p where
    p: "parse_eth_appid_auth bs ethertype_goose = Inr p" "pf_auth_tag p \<noteq> []"
      "hmac_verify k (pf_signed_data p) (pf_auth_tag p)" "goose_decode (pf_apdu p) = Inr (gf_pdu f)"
    by blast
  from parse_structure [OF p(1)] p(2-4) f show ?thesis
    unfolding hmac_verify_iff by metis
qed

definition accept_all :: goose_filter where
  "accept_all = \<lparr>ff_gocb_ref = None, ff_appid = None, ff_dst = None\<rparr>"

lemma accept_all [simp]: "filter_accepts accept_all f"
  by (simp add: filter_accepts_def accept_all_def is_none_or_def)

theorem unauthenticated_frames_isolated_witness:
  "\<exists>s' ev. on_recv accept_all (Some (hmac_verify (hmac_new [1]))) False 0
      (goose_frame_encode_signed goose_sample hmac_sha256_tag_len (hmac_mac (hmac_new [1]))) (sub_init 0) = (s', ev) \<and>
    s' \<noteq> sub_init 0 \<and>
    (\<exists>f. goose_frame_decode_verified (goose_frame_encode_signed goose_sample hmac_sha256_tag_len
      (hmac_mac (hmac_new [1]))) (hmac_verify (hmac_new [1])) = Inr (f, AuthValid))"
proof -
  let ?b = "goose_frame_encode_signed goose_sample hmac_sha256_tag_len (hmac_mac (hmac_new [1]))"
  have "goose_frame_decode_verified ?b (hmac_verify (hmac_new [1])) = Inr (goose_sample, AuthValid)"
    by (rule hmac.goose_signed_decodes(1)) (simp_all add: goose_sample_ok hmac_sha256_tag_len_def)
  then have rx: "receive (Some (hmac_verify (hmac_new [1]))) ?b = RxFrame goose_sample"
    by (simp add: receive_valid)
  obtain s' ev where r: "on_recv accept_all (Some (hmac_verify (hmac_new [1]))) False 0 ?b (sub_init 0) = (s', ev)"
    by (cases "on_recv accept_all (Some (hmac_verify (hmac_new [1]))) False 0 ?b (sub_init 0)")
  then have "dom (ss_tracks s') \<noteq> {}"
    by (auto simp: on_recv_def rx sim_gate_def track_and_build_def Let_def sub_init_def)
  then have "s' \<noteq> sub_init 0" by (auto simp: sub_init_def)
  with unauthenticated_frames_isolated [OF r] r show ?thesis by blast
qed

text \<open>C28: In simulation mode, once a simulated frame of a control block has been delivered, every
  later event of that control block is simulated too (real frames are ignored), for any sequence
  of octets received; out of simulation mode no simulated frame is delivered as valid data.\<close>

theorem simulation_gate:
  assumes "recv_all flt verify True xs s0 = (s1, evs1)" "e1 \<in> set evs1"
    "\<not> is_auth_failed e1" "ev_simulation e1"
    and "recv_all flt verify True ys s1 = (s2, evs2)"
  shows "(\<forall>e \<in> set evs2. ev_gocb_ref e = ev_gocb_ref e1 \<and> \<not> is_auth_failed e \<longrightarrow> ev_simulation e) \<and>
    (on_recv flt verify False now bs s = (s', Some e) \<longrightarrow> \<not> is_auth_failed e \<longrightarrow> \<not> ev_simulation e)"
proof
  show "\<forall>e \<in> set evs2. ev_gocb_ref e = ev_gocb_ref e1 \<and> \<not> is_auth_failed e \<longrightarrow> ev_simulation e"
    using recv_all_simulated [OF assms(1)] recv_all_simulated [OF assms(5)] assms(2-4) by metis
  show "on_recv flt verify False now bs s = (s', Some e) \<longrightarrow> \<not> is_auth_failed e \<longrightarrow> \<not> ev_simulation e"
    by (auto simp: on_recv_def is_auth_failed_def sim_gate_def track_and_build_def plain_event_def Let_def
        split: rx.splits if_splits)
qed

theorem simulation_gate_witness:
  "\<exists>s1 e. recv_all accept_all None True
      [(0, goose_frame_encode (goose_sample\<lparr>gf_simulation := True\<rparr>))] (sub_init 0) = (s1, [e]) \<and>
    snd (recv_all accept_all None True [(1, goose_frame_encode goose_sample)] s1) = []"
proof -
  let ?sim = "goose_sample\<lparr>gf_simulation := True\<rparr>"
  have ok: "goose_frame_ok 0 ?sim"
    using goose_sample_ok [of 0] by (simp add: goose_frame_ok_def goose_sample_def)
  have d: "receive None (goose_frame_encode ?sim) = RxFrame ?sim"
      "receive None (goose_frame_encode goose_sample) = RxFrame goose_sample"
    using goose_frame_decode_encode(1) [OF ok] goose_frame_decode_encode(1) [OF goose_sample_ok [of 0]]
    by (simp_all add: receive_def)
  have sel: "gf_pdu ?sim = goose_sample_pdu" "gf_simulation ?sim" "gf_pdu goose_sample = goose_sample_pdu"
    by (simp_all add: goose_sample_def)
  have ns: "\<not> gf_simulation goose_sample" by (simp add: goose_sample_def)
  obtain s1 e where r: "recv_all accept_all None True [(0, goose_frame_encode ?sim)] (sub_init 0) = (s1, [e])"
    and e: "ev_simulation e" "\<not> is_auth_failed e" "ev_gocb_ref e = gocb_ref goose_sample_pdu"
    by (simp add: on_recv_def d sim_gate_def sel track_and_build_def is_auth_failed_def Let_def)
  obtain s2 evs2 where r2: "recv_all accept_all None True [(1, goose_frame_encode goose_sample)] s1 = (s2, evs2)"
    by (cases "recv_all accept_all None True [(1, goose_frame_encode goose_sample)] s1")
  have "ev_gocb_ref x = gocb_ref goose_sample_pdu \<and> \<not> is_auth_failed x \<and> \<not> ev_simulation x"
    if "x \<in> set evs2" for x
    using r2 that ns
    by (auto simp: on_recv_def d sim_gate_def sel track_and_build_def is_auth_failed_def Let_def split: if_splits)
  then have "set evs2 = {}"
    using simulation_gate [OF r _ e(2,1) r2] e(3) by fastforce
  with r r2 show ?thesis by auto
qed

text \<open>C23: A sweep reports every tracked control block whose \<open>timeAllowedToLive\<close> has passed, each
  once, forgets exactly those, and in every reachable state the sweep timer is set no later than
  any deadline, so that no expiry is missed.\<close>

theorem expiry_complete:
  assumes "sub_reachable flt verify s" "distinct order" "set order = dom (ss_tracks s)"
    and "on_sweep now order s = (s', evs)"
  shows "(\<forall>tr \<in> ran (ss_tracks s). ss_sweep s \<le> tr_deadline tr) \<and>
    distinct (map ev_gocb_ref evs) \<and>
    ev_gocb_ref ` set evs = {g. \<exists>tr. ss_tracks s g = Some tr \<and> tr_deadline tr \<le> now} \<and>
    (\<forall>e \<in> set evs. ev_kind e = Expired) \<and>
    (\<forall>tr \<in> ran (ss_tracks s'). now < tr_deadline tr) \<and>
    (\<forall>g tr. ss_tracks s g = Some tr \<and> now < tr_deadline tr \<longrightarrow> ss_tracks s' g = Some tr)"
proof -
  note r = on_sweep_result [OF assms(2-4)]
  have refs: "map ev_gocb_ref evs = expired_keys now (ss_tracks s) order"
    by (simp add: r(2) expired_event_def comp_def)
  have "set (expired_keys now (ss_tracks s) order) = {g. \<exists>tr. ss_tracks s g = Some tr \<and> tr_deadline tr \<le> now}"
    using assms(3) by (auto simp: expired_keys_def split: option.splits)
  then have "ev_gocb_ref ` set evs = {g. \<exists>tr. ss_tracks s g = Some tr \<and> tr_deadline tr \<le> now}"
    using refs by (metis set_map)
  moreover have "distinct (map ev_gocb_ref evs)"
    using assms(2) by (simp add: refs expired_keys_def)
  moreover have "\<forall>e \<in> set evs. ev_kind e = Expired"
    by (auto simp: r(2) expired_event_def)
  moreover have "\<forall>tr \<in> ran (ss_tracks s'). now < tr_deadline tr"
    by (auto simp: r(1) ran_def split: option.splits if_splits)
  moreover have "\<forall>g tr. ss_tracks s g = Some tr \<and> now < tr_deadline tr \<longrightarrow> ss_tracks s' g = Some tr"
    by (simp add: r(1))
  ultimately show ?thesis
    using sub_inv_reachable [OF assms(1)] by (simp add: sub_inv_def)
qed

lemma goose_sample_ttl: "time_allowed_to_live goose_sample_pdu = 2000"
  by (simp add: goose_sample_pdu_def)

theorem expiry_complete_witness:
  "\<exists>s s' evs. sub_reachable accept_all None s \<and>
    on_sweep (ms_after 3000) [gocb_ref goose_sample_pdu] s = (s', evs) \<and>
    ev_gocb_ref ` set evs = {gocb_ref goose_sample_pdu}"
proof -
  let ?f = "goose_frame_encode goose_sample"
  have d: "receive None ?f = RxFrame goose_sample"
    using goose_frame_decode_encode(1) [OF goose_sample_ok [of 0]] by (simp add: receive_def)
  obtain s ev where r: "on_recv accept_all None False 0 ?f (sub_init 0) = (s, ev)"
    by (cases "on_recv accept_all None False 0 ?f (sub_init 0)")
  have reach: "sub_reachable accept_all None s"
    by (rule sub_next [OF sub_start sub_recv [OF r]])
  have tr: "\<exists>tr. ss_tracks s = [gocb_ref goose_sample_pdu \<mapsto> tr] \<and> tr_deadline tr = 2000 * 1000000"
    using r by (auto simp: on_recv_def d sim_gate_def track_and_build_def sub_init_def Let_def
        goose_sample_ttl)
  obtain s' evs where sw: "on_sweep (ms_after 3000) [gocb_ref goose_sample_pdu] s = (s', evs)"
    by (cases "on_sweep (ms_after 3000) [gocb_ref goose_sample_pdu] s")
  have "set [gocb_ref goose_sample_pdu] = dom (ss_tracks s)" using tr by (auto split: if_splits)
  from expiry_complete [OF reach _ this sw]
  have "ev_gocb_ref ` set evs = {g. \<exists>tr. ss_tracks s g = Some tr \<and> tr_deadline tr \<le> ms_after 3000}"
    by simp
  moreover have "\<dots> = {gocb_ref goose_sample_pdu}"
    using tr by (auto simp: ms_after_def split: if_splits)
  ultimately have "ev_gocb_ref ` set evs = {gocb_ref goose_sample_pdu}" by simp
  with reach sw show ?thesis by blast
qed

end
