(* ===== verification/GooseLink.thy ===== *)
theory GooseLink imports GoosePublisher GooseSubscriber begin

text \<open>
  A GOOSE publisher and a subscriber on a link that loses nothing: the steps of \<open>publisher.rs\<close> and
  \<open>subscriber.rs\<close> composed through the octets on the wire. The main lemma is that the subscriber
  delivers exactly the frames sent, once each and in order, and never suspects a loss.
\<close>

text \<open>The two ends agree on authentication: none, or the same HMAC key.\<close>

inductive security_match :: "'sk goose_config \<Rightarrow> (bytes \<Rightarrow> bytes \<Rightarrow> bool) option \<Rightarrow> bool" where
  match_none: "gc_security cfg = None \<Longrightarrow> security_match cfg None"
| match_hmac: "gc_security cfg = Some (SHmac k) \<Longrightarrow> security_match cfg (Some (hmac_verify k))"

definition filter_matches :: "goose_filter \<Rightarrow> 'sk goose_config \<Rightarrow> bool" where
  "filter_matches flt cfg \<longleftrightarrow> is_none_or (\<lambda>a. a = gc_appid cfg) (ff_appid flt) \<and>
     is_none_or (\<lambda>d. d = gc_dst cfg) (ff_dst flt) \<and>
     is_none_or (\<lambda>g. g = gc_gocb_ref cfg) (ff_gocb_ref flt)"

text \<open>What is on record of a sent frame and of a delivered event.\<close>

type_synonym log_entry = "u32 \<times> u32 \<times> mms_data list"

definition event_entry :: "goose_event \<Rightarrow> log_entry" where
  "event_entry e = (ev_st_num e, ev_sq_num e, ev_values e)"

text \<open>A run: the publisher's and the subscriber's state, the frames sent and the events delivered
  so far. A sent frame reaches the subscriber before the publisher's next step; sweeps happen at
  any time the timer allows; the simulation mode agrees with the publisher's simulation bit.\<close>

inductive link_run ::
    "('sk \<Rightarrow> bytes \<Rightarrow> bytes) \<Rightarrow> 'sk goose_config \<Rightarrow> goose_filter \<Rightarrow> (bytes \<Rightarrow> bytes \<Rightarrow> bool) option
      \<Rightarrow> pub_state \<Rightarrow> sub_state \<Rightarrow> log_entry list \<Rightarrow> goose_event list \<Rightarrow> bool"
  for es cfg flt verify where
  link_start: "utc_ok (ck_utc ck) \<Longrightarrow>
    link_run es cfg flt verify (pub_init cfg ck) (sub_init now) [] []"
| link_quiet: "link_run es cfg flt verify s t log evs \<Longrightarrow> pub_step es cfg s None s' \<Longrightarrow>
    link_run es cfg flt verify s' t log evs"
| link_send: "link_run es cfg flt verify s t log evs \<Longrightarrow> pub_step es cfg s (Some bs) s' \<Longrightarrow>
    goose_frame_ok hmac_sha256_tag_len (pub_frame cfg (ps_last_values s') (ps_st_num s') (ps_sq_num s')
      (ps_t s') (ps_interval s')) \<Longrightarrow>
    on_recv flt verify (gc_simulation cfg) now bs t = (t', ev) \<Longrightarrow>
    link_run es cfg flt verify s' t' (log @ [(ps_st_num s', ps_sq_num s', ps_last_values s')])
      (evs @ (case ev of None \<Rightarrow> [] | Some e \<Rightarrow> [e]))"
| link_sweep: "link_run es cfg flt verify s t log evs \<Longrightarrow> ss_sweep t \<le> now \<Longrightarrow> distinct order \<Longrightarrow>
    set order = dom (ss_tracks t) \<Longrightarrow> on_sweep now order t = (t', evs') \<Longrightarrow>
    link_run es cfg flt verify s t' log (evs @ evs')"

section \<open>Facts\<close>

lemma goose_frame_ok_mono: "goose_frame_ok n f \<Longrightarrow> m \<le> n \<Longrightarrow> goose_frame_ok m f"
  by (auto simp: goose_frame_ok_def)

lemma receive_sent:
  assumes "security_match cfg verify"
    and "goose_frame_ok hmac_sha256_tag_len (pub_frame cfg values st sq t interval)"
  shows "receive verify (send_frame es ck cfg values st sq t interval) =
    RxFrame (pub_frame cfg values st sq t interval)"
  using assms(1)
proof cases
  case match_none
  then show ?thesis
    using goose_frame_decode_encode(1) [OF assms(2)] by (simp add: receive_def send_frame_def Let_def)
next
  case (match_hmac k)
  have "signer_sign_tag es (ck_sign_secs ck) (SHmac k) = hmac_mac k"
    by (rule ext) simp
  then show ?thesis
    using hmac.goose_signed_decodes(1) [OF assms(2)] match_hmac
    by (simp add: receive_valid send_frame_def Let_def hmac_sha256_tag_len_def)
qed

lemma filter_matches_frame:
  "filter_matches flt cfg \<Longrightarrow> filter_accepts flt (pub_frame cfg values st sq t interval)"
  by (simp add: filter_matches_def filter_accepts_def pub_frame_def)

lemma pub_frame_sel [simp]:
  "gf_simulation (pub_frame cfg v a b t i) = gc_simulation cfg"
  "gocb_ref (gf_pdu (pub_frame cfg v a b t i)) = gc_gocb_ref cfg"
  "st_num (gf_pdu (pub_frame cfg v a b t i)) = a" "sq_num (gf_pdu (pub_frame cfg v a b t i)) = b"
  "all_data (gf_pdu (pub_frame cfg v a b t i)) = v"
  by (simp_all add: pub_frame_def)

text \<open>The subscriber tracks at most the publisher's control block, at its current numbers.\<close>

definition in_step :: "'sk goose_config \<Rightarrow> pub_state \<Rightarrow> sub_state \<Rightarrow> bool" where
  "in_step cfg s t \<longleftrightarrow>
     (\<forall>tr. ss_tracks t (gc_gocb_ref cfg) = Some tr \<longrightarrow>
        ps_started s \<and> tr_last_st tr = ps_st_num s \<and> tr_last_sq tr = ps_sq_num s) \<and>
     (\<not> gc_simulation cfg \<longrightarrow> ss_simulated t = {})"

lemma send_in_step:
  assumes "security_match cfg verify" "filter_matches flt cfg" "in_step cfg s t"
    and "pub_step es cfg s (Some bs) s'"
    and "goose_frame_ok hmac_sha256_tag_len (pub_frame cfg (ps_last_values s') (ps_st_num s') (ps_sq_num s')
      (ps_t s') (ps_interval s'))"
    and "on_recv flt verify (gc_simulation cfg) now bs t = (t', ev)"
  shows "in_step cfg s' t' \<and> (\<exists>e. ev = Some e \<and>
    event_entry e = (ps_st_num s', ps_sq_num s', ps_last_values s') \<and>
    (ev_kind e = StateChange \<or> ev_kind e = Retransmission))"
proof -
  let ?f = "pub_frame cfg (ps_last_values s') (ps_st_num s') (ps_sq_num s') (ps_t s') (ps_interval s')"
  obtain ck where "bs = send_frame es ck cfg (ps_last_values s') (ps_st_num s') (ps_sq_num s')
      (ps_t s') (ps_interval s')"
    by (rule pub_step_sends [OF assms(4)])
  then have rx: "receive verify bs = RxFrame ?f"
    using receive_sent [OF assms(1,5)] by simp
  have kind: "track_kind (ss_tracks t (gc_gocb_ref cfg)) (gf_pdu ?f) \<in> {StateChange, Retransmission}"
  proof (cases "ss_tracks t (gc_gocb_ref cfg)")
    case None
    then show ?thesis by (simp add: track_kind_def)
  next
    case (Some tr)
    then have "ps_started s" "tr_last_st tr = ps_st_num s" "tr_last_sq tr = ps_sq_num s"
      using assms(3) by (auto simp: in_step_def)
    then show ?thesis
      using pub_step_numbers(1) [OF assms(4)] next_st_different [of "ps_st_num s"]
      by (auto simp: track_kind_def Some)
  qed
  show ?thesis
    using assms(3,6) kind pub_step_numbers(2) [OF assms(4)] filter_matches_frame [OF assms(2)]
    by (auto simp: on_recv_def rx sim_gate_def in_step_def track_and_build_def event_entry_def Let_def
        split: if_splits)
qed

lemma sweep_in_step:
  assumes "in_step cfg s t" "distinct order" "set order = dom (ss_tracks t)" "on_sweep now order t = (t', evs)"
  shows "in_step cfg s t'" "\<forall>e \<in> set evs. ev_kind e = Expired"
  using assms(1) on_sweep_result [OF assms(2-4)]
  by (auto simp: in_step_def expired_event_def split: option.splits if_splits)

lemma link_run_delivers:
  assumes "link_run es cfg flt verify s t log evs" "security_match cfg verify" "filter_matches flt cfg"
  shows "in_step cfg s t \<and> map event_entry (filter (\<lambda>e. ev_kind e \<noteq> Expired) evs) = log \<and>
    (\<forall>e \<in> set evs. ev_kind e \<in> {StateChange, Retransmission, Expired})"
  using assms(1)
proof (induction rule: link_run.induct)
  case (link_start ck now)
  then show ?case by (simp add: in_step_def sub_init_def)
next
  case (link_quiet s t log evs s')
  then show ?case using pub_step_silent by blast
next
  case (link_send s t log evs bs s' now t' ev)
  then have "in_step cfg s t" by blast
  from send_in_step [OF assms(2,3) this link_send(2,3,4)] link_send.IH show ?case by auto
next
  case (link_sweep s t log evs now order t' evs')
  then have "in_step cfg s t" by blast
  from sweep_in_step [OF this link_sweep(3,4,5)] link_sweep.IH show ?case
    by (auto simp: filter_empty_conv)
qed

section \<open>Properties\<close>

text \<open>C1: On a link that loses nothing, with or without HMAC, a subscriber delivers exactly the
  frames the publisher sent, each once and in order with its \<open>stNum\<close>, \<open>sqNum\<close> and values, as
  state changes or retransmissions; expirations may come in between, and no loss and no failed
  authentication is ever reported.\<close>

theorem goose_link_lossless:
  assumes "link_run es cfg flt verify s t log evs" "security_match cfg verify" "filter_matches flt cfg"
  shows "map event_entry (filter (\<lambda>e. ev_kind e \<noteq> Expired) evs) = log \<and>
    (\<forall>e \<in> set evs. ev_kind e \<in> {StateChange, Retransmission, Expired})"
  using link_run_delivers [OF assms] by blast

theorem goose_link_lossless_witness:
  "\<exists>s t evs. link_run (\<lambda>k d. []) (pub_demo\<lparr>gc_security := Some (SHmac (hmac_new [1]))\<rparr>) accept_all
      (Some (hmac_verify (hmac_new [1]))) s t [(1, 0, [MBool True])] evs \<and>
    map event_entry (filter (\<lambda>e. ev_kind e \<noteq> Expired) evs) = [(1, 0, [MBool True])]"
proof -
  let ?cfg = "pub_demo\<lparr>gc_security := Some (SHmac (hmac_new [1]))\<rparr>"
  let ?v = "Some (hmac_verify (hmac_new [1]))" and ?es = "\<lambda>k d. []"
  let ?p = "pub_on_values ?es ?cfg (pub_demo_clocks 5) [MBool True] (pub_init ?cfg (pub_demo_clocks 0))"
  have start: "link_run ?es ?cfg accept_all ?v (pub_init ?cfg (pub_demo_clocks 0)) (sub_init 0) [] []"
    by (rule link_start) (simp add: pub_demo_clocks_def utc_ok_def)
  have "pub_step ?es ?cfg (pub_init ?cfg (pub_demo_clocks 0)) (snd ?p) (fst ?p)"
    by (rule pub_values [of _ _ "pub_demo_clocks 5" "[MBool True]"])
      (simp_all add: pub_demo_clocks_def utc_ok_def)
  then obtain bs s' where step: "pub_step ?es ?cfg (pub_init ?cfg (pub_demo_clocks 0)) (Some bs) s'"
    and s': "ps_st_num s' = 1" "ps_sq_num s' = 0" "ps_last_values s' = [MBool True]"
      "ps_t s' = [0, 0, 0, 0, 0, 0, 0, 0]" "ps_interval s' = 4000000"
    by (auto simp: pub_on_values_def pub_init_def pub_send_def pub_demo_def goose_config_new_def
        pub_demo_clocks_def ms_def)
  let ?f = "pub_frame ?cfg [MBool True] 1 0 [0, 0, 0, 0, 0, 0, 0, 0] 4000000"
  have "length (goose_encode (gf_pdu ?f)) = 46"
    by (simp add: goose_encode_bytes goose_fields_def pub_frame_def pub_demo_def goose_config_new_def
        ttl_ms_def goose_apdu_def evals)
  then have ok: "goose_frame_ok hmac_sha256_tag_len ?f"
    unfolding goose_frame_ok_def goose_pdu_ok_def
    by (simp add: pub_frame_def pub_demo_def goose_config_new_def data_ok_def utc_ok_def
        hmac_sha256_tag_len_def evals utf8_next.simps)
  obtain t' ev where r: "on_recv accept_all ?v (gc_simulation ?cfg) 0 bs (sub_init 0) = (t', ev)"
    by (cases "on_recv accept_all ?v (gc_simulation ?cfg) 0 bs (sub_init 0)")
  have run: "link_run ?es ?cfg accept_all ?v s' t' ([] @ [(1, 0, [MBool True])])
      ([] @ (case ev of None \<Rightarrow> [] | Some e \<Rightarrow> [e]))"
    using link_send [OF start step _ r] ok by (simp add: s')
  have match: "security_match ?cfg ?v" "filter_matches accept_all ?cfg"
    by (auto intro: match_hmac simp: filter_matches_def accept_all_def is_none_or_def)
  from goose_link_lossless [OF run match] run show ?thesis
    by (intro exI [of _ s'] exI [of _ t'] exI [of _ "[] @ (case ev of None \<Rightarrow> [] | Some e \<Rightarrow> [e])"]) simp
qed

end
