(* ===== verification/Pcap.thy ===== *)
theory Pcap imports Sha256 begin

text \<open>
  The classic pcap capture format: \<open>crates/iec61850-l2/src/pcap.rs\<close>. The writer's \<open>W: Write\<close> is the
  in-memory buffer, whose writes do not fail; the reader is the iterator over a buffer, of either
  byte order. The lemmas give the round trip of a whole capture and that reading any buffer ends.
\<close>

definition linktype_ethernet :: u32 where
  "linktype_ethernet = 1"

definition pcap_magic :: u32 where
  "pcap_magic = 0xA1B2C3D4"

definition pcap_magic_swapped :: u32 where
  "pcap_magic_swapped = 0xD4C3B2A1"

definition default_snaplen :: u32 where
  "default_snaplen = 65536"

section \<open>Writer\<close>

record pcap_writer =
  pw_inner :: bytes
  pw_snaplen :: u32

definition pcap_with_linktype :: "bytes \<Rightarrow> u32 \<Rightarrow> u32 \<Rightarrow> pcap_writer" where
  "pcap_with_linktype inner linktype snaplen =
    \<lparr>pw_inner = inner @ to_le pcap_magic @ to_le (2 :: u16) @ to_le (4 :: u16) @ to_le (0 :: u32)
        @ to_le (0 :: u32) @ to_le snaplen @ to_le linktype,
     pw_snaplen = snaplen\<rparr>"

definition pcap_writer_new :: "bytes \<Rightarrow> pcap_writer" where
  "pcap_writer_new inner = pcap_with_linktype inner linktype_ethernet default_snaplen"

definition write_packet :: "pcap_writer \<Rightarrow> u32 \<Rightarrow> u32 \<Rightarrow> bytes \<Rightarrow> pcap_writer" where
  "write_packet w ts_sec ts_usec data =
    (let orig_len = (word_of_nat (length data) :: u32);
         incl_len = min orig_len (pw_snaplen w)
     in w\<lparr>pw_inner := pw_inner w @ to_le ts_sec @ to_le ts_usec @ to_le incl_len
            @ to_le orig_len @ take (unat incl_len) data\<rparr>)"

text \<open>\<open>write_packet_at\<close>: \<open>None\<close> is a time before the epoch, else whole seconds and microseconds.\<close>

definition write_packet_at :: "pcap_writer \<Rightarrow> (u64 \<times> u32) option \<Rightarrow> bytes \<Rightarrow> pcap_writer" where
  "write_packet_at w since_epoch data =
    (let (sec, usec) = (case since_epoch of Some (s, us) \<Rightarrow> (ucast s, us) | None \<Rightarrow> (0, 0))
     in write_packet w sec usec data)"

section \<open>Reader\<close>

record pcap_packet =
  pk_ts_sec :: u32
  pk_ts_usec :: u32
  pk_data :: bytes

record pcap_reader =
  pr_data :: bytes
  pr_pos :: nat
  pr_big_endian :: bool
  pr_linktype :: u32
  pr_snaplen :: u32

datatype pcap_error = PcapUnexpectedEof | PcapInvalidData

definition rd_u32 :: "bytes \<Rightarrow> bool \<Rightarrow> u32" where
  "rd_u32 b be = (if be then from_be b else from_le b)"

definition pcap_reader_new :: "bytes \<Rightarrow> pcap_error + pcap_reader" where
  "pcap_reader_new data =
    (if length data < 24 then Inl PcapUnexpectedEof
     else let magic = from_le (take 4 data) in
       bindE (if magic = pcap_magic then Inr False
              else if magic = pcap_magic_swapped then Inr True
              else Inl PcapInvalidData) (\<lambda>big_endian.
         Inr \<lparr>pr_data = data, pr_pos = 24, pr_big_endian = big_endian,
              pr_linktype = rd_u32 (take 4 (drop 20 data)) big_endian,
              pr_snaplen = rd_u32 (take 4 (drop 16 data)) big_endian\<rparr>))"

definition read_u32 :: "pcap_reader \<Rightarrow> nat \<Rightarrow> u32" where
  "read_u32 r at = rd_u32 (take 4 (drop at (pr_data r))) (pr_big_endian r)"

text \<open>\<open>next\<close> advances over the record header before it checks that the data is there.\<close>

definition pcap_next :: "pcap_reader \<Rightarrow> pcap_packet option \<times> pcap_reader" where
  "pcap_next r =
    (if length (pr_data r) < pr_pos r + 16 then (None, r)
     else let ts_sec = read_u32 r (pr_pos r);
              ts_usec = read_u32 r (pr_pos r + 4);
              incl_len = unat (read_u32 r (pr_pos r + 8));
              r = r\<lparr>pr_pos := pr_pos r + 16\<rparr>
          in if length (pr_data r) < pr_pos r + incl_len then (None, r)
             else (Some \<lparr>pk_ts_sec = ts_sec, pk_ts_usec = ts_usec,
                         pk_data = take incl_len (drop (pr_pos r) (pr_data r))\<rparr>,
                   r\<lparr>pr_pos := pr_pos r + incl_len\<rparr>))"

text \<open>\<open>Iterator::collect\<close>: all packets up to the first \<open>None\<close>.\<close>

lemma pcap_next_progress:
  "pcap_next r = (Some p, r') \<Longrightarrow> pr_data r' = pr_data r \<and> pr_pos r + 16 \<le> pr_pos r' \<and>
     pr_pos r' \<le> length (pr_data r)"
  by (auto simp: pcap_next_def Let_def split: if_splits)

function pcap_collect :: "pcap_reader \<Rightarrow> pcap_packet list" where
  "pcap_collect r = (case pcap_next r of (None, _) \<Rightarrow> [] | (Some p, r') \<Rightarrow> p # pcap_collect r')"
  by pat_completeness auto
termination
  by (relation "measure (\<lambda>r. length (pr_data r) - pr_pos r)")
    (auto dest!: sym [of "(Some _, _)"] pcap_next_progress)

declare pcap_collect.simps [simp del]

section \<open>Facts\<close>

text \<open>A record as octets, and a reader standing after some octets.\<close>

definition pcap_record :: "u32 \<Rightarrow> u32 \<times> u32 \<times> bytes \<Rightarrow> bytes" where
  "pcap_record snaplen pkt =
    (case pkt of (s, us, d) \<Rightarrow>
       to_le s @ to_le us @ to_le (min (word_of_nat (length d)) snaplen)
         @ to_le (word_of_nat (length d) :: u32) @ take (unat (min (word_of_nat (length d)) snaplen)) d)"

lemma write_packets:
  "foldl (\<lambda>w (s, us, d). write_packet w s us d) w pkts =
     w\<lparr>pw_inner := pw_inner w @ concat (map (pcap_record (pw_snaplen w)) pkts)\<rparr>"
  by (induction pkts arbitrary: w) (auto simp: write_packet_def pcap_record_def Let_def)

lemma min_word: "length d < 2 ^ 32 \<Longrightarrow>
    unat (min (word_of_nat (length d)) (snap :: u32)) = min (length d) (unat snap)"
proof -
  assume "length d < 2 ^ 32"
  then have u: "unat (word_of_nat (length d) :: u32) = length d"
    by (simp add: unat_of_nat)
  show ?thesis
    by (cases "(word_of_nat (length d) :: u32) \<le> snap") (auto simp: min_def word_le_nat_alt u)
qed

lemma pcap_next_record:
  assumes "length d < 2 ^ 32" "pr_data r = pre @ pcap_record snap (s, us, d) @ rest"
    "pr_pos r = length pre" "\<not> pr_big_endian r"
  shows "pcap_next r = (Some \<lparr>pk_ts_sec = s, pk_ts_usec = us, pk_data = take (unat snap) d\<rparr>,
    r\<lparr>pr_pos := length pre + length (pcap_record snap (s, us, d))\<rparr>)"
proof -
  let ?n = "unat (min (word_of_nat (length d)) snap)"
  have at: "read_u32 r (length pre) = s" "read_u32 r (length pre + 4) = us"
    "unat (read_u32 r (length pre + 8)) = ?n"
    using assms(2,4) by (simp_all add: read_u32_def rd_u32_def pcap_record_def)
  have d: "take ?n d = take (unat snap) d" "?n \<le> length d"
    using min_word [OF assms(1), of snap] by (simp_all add: min_def)
  have len: "length (pcap_record snap (s, us, d)) = 16 + ?n"
    using d(2) by (simp add: pcap_record_def)
  have dat: "take ?n (drop (length pre + 16) (pr_data r)) = take ?n d"
    unfolding assms(2) using d(2) by (simp add: pcap_record_def)
  have "length (pr_data r) = length pre + 16 + ?n + length rest"
    by (simp add: assms(2) len)
  then show ?thesis
    using at dat len d(1) by (simp add: pcap_next_def assms(3) Let_def)
qed

lemma pcap_collect_records:
  assumes "\<forall>(s, us, d) \<in> set pkts. length d < 2 ^ 32"
    "pr_data r = pre @ concat (map (pcap_record snap) pkts)" "pr_pos r = length pre" "\<not> pr_big_endian r"
  shows "pcap_collect r = map (\<lambda>(s, us, d).
    \<lparr>pk_ts_sec = s, pk_ts_usec = us, pk_data = take (unat snap) d\<rparr>) pkts"
  using assms
proof (induction pkts arbitrary: r pre)
  case Nil
  then show ?case by (subst pcap_collect.simps) (simp add: pcap_next_def)
next
  case (Cons p pkts)
  obtain s us d where p: "p = (s, us, d)" by (cases p)
  let ?r = "r\<lparr>pr_pos := length pre + length (pcap_record snap (s, us, d))\<rparr>"
  have nxt: "pcap_next r = (Some \<lparr>pk_ts_sec = s, pk_ts_usec = us, pk_data = take (unat snap) d\<rparr>, ?r)"
    using Cons.prems by (intro pcap_next_record) (auto simp: p)
  have "pcap_collect ?r = map (\<lambda>(s, us, d).
      \<lparr>pk_ts_sec = s, pk_ts_usec = us, pk_data = take (unat snap) d\<rparr>) pkts"
    using Cons.prems by (intro Cons.IH [of _ "pre @ pcap_record snap (s, us, d)"]) (auto simp: p)
  then show ?case by (subst pcap_collect.simps) (simp add: nxt p)
qed

section \<open>Properties\<close>

text \<open>A capture written to an empty buffer is read back packet by packet, in order, with its
  time stamps and its data cut to \<open>snaplen\<close>, link type and \<open>snaplen\<close> included.\<close>

theorem pcap_roundtrip:
  assumes "\<forall>(s, us, d) \<in> set pkts. length d < 2 ^ 32"
  shows "\<exists>r. pcap_reader_new (pw_inner (foldl (\<lambda>w (s, us, d). write_packet w s us d)
        (pcap_with_linktype [] linktype snaplen) pkts)) = Inr r \<and>
    pr_linktype r = linktype \<and> pr_snaplen r = snaplen \<and>
    pcap_collect r = map (\<lambda>(s, us, d).
      \<lparr>pk_ts_sec = s, pk_ts_usec = us, pk_data = take (unat snaplen) d\<rparr>) pkts"
proof -
  let ?h = "pw_inner (pcap_with_linktype [] linktype snaplen)"
  let ?d = "?h @ concat (map (pcap_record snaplen) pkts)"
  let ?r = "\<lparr>pr_data = ?d, pr_pos = 24, pr_big_endian = False, pr_linktype = linktype, pr_snaplen = snaplen\<rparr>"
  have "length ?h = 24" by (simp add: pcap_with_linktype_def)
  then have "pcap_collect ?r = map (\<lambda>(s, us, d).
      \<lparr>pk_ts_sec = s, pk_ts_usec = us, pk_data = take (unat snaplen) d\<rparr>) pkts"
    using assms by (intro pcap_collect_records [where pre = ?h]) simp_all
  moreover have "pcap_reader_new ?d = Inr ?r"
    by (simp add: pcap_reader_new_def pcap_with_linktype_def rd_u32_def)
  ultimately show ?thesis
    by (simp add: write_packets pcap_with_linktype_def)
qed

end
