(* ===== verification/SvPdu.thy ===== *)
theory SvPdu imports MmsData EthFrame begin

text \<open>
  Sampled Values on the wire: \<open>crates/iec61850-sv/src/error.rs\<close>, \<open>nine_two_le.rs\<close>, \<open>pdu.rs\<close> and
  \<open>frame.rs\<close>. A \<open>savPdu\<close> holds application units (ASDU) whose numeric fields are octet strings of a
  fixed width, unlike those of GOOSE. The lemmas show the round trip of the 9-2LE payload, of the
  PDU with every combination of optional fields, and of frames with and without a tag, through the
  codec interfaces of the layer-2 frame.
\<close>

section \<open>Errors\<close>

datatype sv_error =
    SvMalformed string
  | SvBer ber_error
  | SvL2 l2_error

section \<open>The 9-2LE payload\<close>

text \<open>An \<open>i32\<close> is its bit pattern.\<close>

record sv_channel =
  ch_value :: u32
  ch_quality :: u32

type_synonym nine_two_le = "sv_channel list"

definition ntl_to_bytes :: "nine_two_le \<Rightarrow> bytes" where
  "ntl_to_bytes channels =
    fold (\<lambda>(i, ch) out. copy_at (i * 8 + 4) (to_be (ch_quality ch)) (copy_at (i * 8) (to_be (ch_value ch)) out))
      (enumerate 0 channels) (replicate 64 0)"

definition ntl_from_bytes :: "bytes \<Rightarrow> sv_error + nine_two_le" where
  "ntl_from_bytes b =
    (if length b \<noteq> 64 then
       Inl (SvMalformed (''sample 9-2LE debe tener 64 octetos, tiene '' @ show_nat (length b)))
     else Inr (map (\<lambda>i. \<lparr>ch_value = from_be (take 4 (drop (i * 8) b)),
                          ch_quality = from_be (take 4 (drop (i * 8 + 4) b))\<rparr>) [0..<8]))"

section \<open>The PDU\<close>

record asdu =
  sv_id :: string
  a_dat_set :: "string option"
  smp_cnt :: u16
  a_conf_rev :: u32
  refr_tm :: "utc_time option"
  smp_synch :: u8
  smp_rate :: "u16 option"
  sample :: bytes
  smp_mod :: "u16 option"

record sv_pdu =
  no_asdu :: u32
  asdus :: "asdu list"

definition sav_pdu :: tag where
  "sav_pdu = tag_application 0 True"

definition set_9_2le :: "nine_two_le \<Rightarrow> asdu \<Rightarrow> asdu" where
  "set_9_2le n a = a\<lparr>sample := ntl_to_bytes n\<rparr>"

definition as_9_2le :: "asdu \<Rightarrow> nine_two_le option" where
  "as_9_2le a = (case ntl_from_bytes (sample a) of Inr n \<Rightarrow> Some n | Inl _ \<Rightarrow> None)"

text \<open>\<open>if let Some(x) = &field\<close> around a writer call.\<close>

definition w_some :: "'a option \<Rightarrow> ('a \<Rightarrow> writing) \<Rightarrow> writing" where
  "w_some x f w = (case x of Some y \<Rightarrow> f y w | None \<Rightarrow> w)"

definition w_asdu :: "asdu \<Rightarrow> writing" where
  "w_asdu a = w_sequence (\<lambda>w. w_seq
     [w_visible_string (tag_context 0 False) (sv_id a),
      w_some (a_dat_set a) (w_visible_string (tag_context 1 False)),
      w_octet_string (tag_context 2 False) (to_be (smp_cnt a)),
      w_octet_string (tag_context 3 False) (to_be (a_conf_rev a)),
      w_some (refr_tm a) (w_octet_string (tag_context 4 False)),
      w_octet_string (tag_context 5 False) [smp_synch a],
      w_some (smp_rate a) (\<lambda>r. w_octet_string (tag_context 6 False) (to_be r)),
      w_octet_string (tag_context 7 False) (sample a),
      w_some (smp_mod a) (\<lambda>m. w_octet_string (tag_context 8 False) (to_be m))] w)"

definition sv_encode :: "sv_pdu \<Rightarrow> bytes" where
  "sv_encode p =
    into_bytes (w_tlv sav_pdu (\<lambda>w. w_seq
      [w_unsigned (tag_context 0 False) (ucast (no_asdu p)),
       w_tlv (tag_context 2 True) (\<lambda>w. fold w_asdu (asdus p) w)] w) writer_new)"

definition octets_u16 :: "bytes \<Rightarrow> sv_error + u16" where
  "octets_u16 c = (if length c = 2 then Inr (from_be c) else Inl (SvMalformed ''se esperaban 2 octetos''))"

definition octets_u32 :: "bytes \<Rightarrow> sv_error + u32" where
  "octets_u32 c = (if length c = 4 then Inr (from_be c) else Inl (SvMalformed ''se esperaban 4 octetos''))"

text \<open>A mandatory field, and an optional one; the conversion of its content may fail.\<close>

definition sv_field :: "tag \<Rightarrow> (bytes \<Rightarrow> sv_error + 'a) \<Rightarrow> (sv_error, 'a) reading" where
  "sv_field t f r = thenE (map_errR SvBer (rd_expect t r)) (\<lambda>c r. (f c, r))"

definition sv_field_if :: "tag \<Rightarrow> (bytes \<Rightarrow> sv_error + 'a) \<Rightarrow> (sv_error, 'a option) reading" where
  "sv_field_if t f r = thenE (map_errR SvBer (rd_read_if t r)) (\<lambda>c r.
     (case c of Some c \<Rightarrow> bindE (f c) (\<lambda>x. Inr (Some x)) | None \<Rightarrow> Inr None, r))"

definition sv_string :: "bytes \<Rightarrow> sv_error + string" where
  "sv_string c = map_errE SvBer (decode_visible_string c)"

definition decode_asdu :: "bytes \<Rightarrow> sv_error + asdu" where
  "decode_asdu content = fst
    (thenE (sv_field (tag_context 0 False) sv_string (reader_new content)) (\<lambda>sv_id r.
     thenE (sv_field_if (tag_context 1 False) sv_string r) (\<lambda>dat_set r.
     thenE (sv_field (tag_context 2 False) octets_u16 r) (\<lambda>smp_cnt r.
     thenE (sv_field (tag_context 3 False) octets_u32 r) (\<lambda>conf_rev r.
     thenE (sv_field_if (tag_context 4 False)
       (\<lambda>c. if length c = 8 then Inr c else Inl (SvMalformed ''refrTm != 8 octetos'')) r) (\<lambda>refr_tm r.
     thenE (sv_field (tag_context 5 False)
       (\<lambda>c. ok_or (SvMalformed (''smpSynch vac'' @ i_acute @ ''o'')) (get_at c 0)) r) (\<lambda>smp_synch r.
     thenE (sv_field_if (tag_context 6 False) octets_u16 r) (\<lambda>smp_rate r.
     thenE (sv_field (tag_context 7 False) Inr r) (\<lambda>sample r.
     thenE (sv_field_if (tag_context 8 False) octets_u16 r) (\<lambda>smp_mod r.
       (Inr \<lparr>sv_id = sv_id, a_dat_set = dat_set, smp_cnt = smp_cnt, a_conf_rev = conf_rev,
             refr_tm = refr_tm, smp_synch = smp_synch, smp_rate = smp_rate, sample = sample,
             smp_mod = smp_mod\<rparr>, r)))))))))))"

text \<open>The loop over \<open>seqASDU\<close>; the tag of an element is not looked at.\<close>

function read_asdus :: "reader \<Rightarrow> asdu list \<Rightarrow> sv_error + asdu list" where
  "read_asdus r out =
    (if rd_is_empty r then Inr out
     else case read_tlv r of
       (Inl e, _) \<Rightarrow> Inl (SvBer e)
     | (Inr t, r') \<Rightarrow> bindE (decode_asdu (tlv_content t)) (\<lambda>a. read_asdus r' (out @ [a])))"
  by pat_completeness auto
termination
  by (relation "measure (remaining \<circ> fst)") (auto dest!: read_tlv_progress(3) [OF sym])

declare read_asdus.simps [simp del]

definition sv_decode :: "bytes \<Rightarrow> sv_error + sv_pdu" where
  "sv_decode bs = fst
    (thenE (map_errR SvBer (read_tlv (reader_new bs))) (\<lambda>apdu r.
      if tlv_tag apdu \<noteq> sav_pdu then
        (Inl (SvMalformed (''savPdu con tag '' @ tag_show (tlv_tag apdu))), r)
      else
        thenE (sv_field (tag_context 0 False) (\<lambda>c.
          bindE (map_errE SvBer (decode_integer c)) (\<lambda>v.
            if 0 \<le> sint v \<and> sint v < 2 ^ 32 then Inr (ucast v)
            else Inl (SvMalformed ''noASDU fuera de rango''))) (tlv_reader apdu)) (\<lambda>no_asdu r.
        thenE (map_errR SvBer (rd_read_if (tag_context 1 True) r)) (\<lambda>_ r.
        thenE (map_errR SvBer (rd_expect (tag_context 2 True) r)) (\<lambda>seq r.
          (bindE (read_asdus (reader_new seq) []) (\<lambda>asdus.
             Inr \<lparr>no_asdu = no_asdu, asdus = asdus\<rparr>), r))))))"

section \<open>Frames\<close>

definition ethertype_sv :: u16 where
  "ethertype_sv = 0x88BA"

record sv_frame =
  sf_dst :: mac_addr
  sf_src :: mac_addr
  sf_vlan :: "vlan_tag option"
  sf_appid :: u16
  sf_simulation :: bool
  sf_pdu :: sv_pdu

definition sv_hdr :: "sv_frame \<Rightarrow> eth_header" where
  "sv_hdr f = \<lparr>eth_dst = sf_dst f, eth_src = sf_src f, eth_vlan = sf_vlan f,
     eth_ethertype = ethertype_sv, eth_simulation = sf_simulation f\<rparr>"

definition sv_frame_encode :: "sv_frame \<Rightarrow> bytes" where
  "sv_frame_encode f =
    (let (out, len_pos) = write_eth_appid [] (sv_hdr f) (sf_appid f);
         apdu = sv_encode (sf_pdu f)
     in finish_l2_frame (out @ apdu) len_pos (length apdu))"

definition sv_frame_encode_signed :: "sv_frame \<Rightarrow> nat \<Rightarrow> (bytes \<Rightarrow> bytes) \<Rightarrow> bytes" where
  "sv_frame_encode_signed f tag_len sign_tag =
    (let (out, len_pos) = write_eth_appid [] (sv_hdr f) (sf_appid f);
         apdu = sv_encode (sf_pdu f)
     in finish_l2_frame_signed (out @ apdu) len_pos (length apdu) tag_len sign_tag)"

definition sv_frame_decode :: "bytes \<Rightarrow> sv_error + sv_frame" where
  "sv_frame_decode bs =
    bindE (map_errE SvL2 (parse_eth_appid bs ethertype_sv)) (\<lambda>(hdr, appid, apdu).
    bindE (sv_decode apdu) (\<lambda>pdu.
      Inr \<lparr>sf_dst = eth_dst hdr, sf_src = eth_src hdr, sf_vlan = eth_vlan hdr, sf_appid = appid,
           sf_simulation = eth_simulation hdr, sf_pdu = pdu\<rparr>))"

definition sv_frame_decode_verified ::
    "bytes \<Rightarrow> (bytes \<Rightarrow> bytes \<Rightarrow> bool) \<Rightarrow> sv_error + sv_frame \<times> auth_status" where
  "sv_frame_decode_verified bs verify_tag =
    bindE (map_errE SvL2 (parse_eth_appid_auth bs ethertype_sv)) (\<lambda>p.
    let status = (if pf_auth_tag p = [] then AuthUnsigned
                  else if verify_tag (pf_signed_data p) (pf_auth_tag p) then AuthValid
                  else AuthInvalid)
    in bindE (sv_decode (pf_apdu p)) (\<lambda>pdu.
      Inr (\<lparr>sf_dst = eth_dst (pf_hdr p), sf_src = eth_src (pf_hdr p), sf_vlan = eth_vlan (pf_hdr p),
            sf_appid = pf_appid p, sf_simulation = eth_simulation (pf_hdr p), sf_pdu = pdu\<rparr>, status)))"

section \<open>Round trip of the payload\<close>

definition channel_bytes :: "sv_channel \<Rightarrow> bytes" where
  "channel_bytes ch = to_be (ch_value ch) @ to_be (ch_quality ch)"

lemma length_channel_bytes [simp]: "length (channel_bytes ch) = 8"
  by (simp add: channel_bytes_def)

lemma length_concat_8: "\<forall>x \<in> set xs. length (f x) = 8 \<Longrightarrow> length (concat (map f xs)) = 8 * length xs"
  by (induction xs) auto

text \<open>After \<open>k\<close> channels the buffer holds their octets and then zeros.\<close>

lemma ntl_fold:
  assumes "length pre + 8 * length chs \<le> 64" "length pre = 8 * k"
  shows "fold (\<lambda>(i, ch) out. copy_at (i * 8 + 4) (to_be (ch_quality ch)) (copy_at (i * 8) (to_be (ch_value ch)) out))
      (enumerate k chs) (pre @ replicate (64 - length pre) 0) =
    pre @ concat (map channel_bytes chs) @ replicate (64 - length pre - 8 * length chs) 0"
  using assms
proof (induction chs arbitrary: pre k)
  case Nil
  then show ?case by simp
next
  case (Cons ch chs)
  have "copy_at (k * 8 + 4) (to_be (ch_quality ch))
      (copy_at (k * 8) (to_be (ch_value ch)) (pre @ replicate (64 - length pre) 0)) =
    (pre @ channel_bytes ch) @ replicate (64 - length (pre @ channel_bytes ch)) 0"
    using Cons.prems by (simp add: copy_at_def channel_bytes_def)
  moreover have "Suc k * 8 = length (pre @ channel_bytes ch)" using Cons.prems by simp
  ultimately show ?case
    using Cons.IH [of "pre @ channel_bytes ch" "Suc k"] Cons.prems by (simp add: algebra_simps)
qed

lemma ntl_to_bytes_concat: "length n = 8 \<Longrightarrow> ntl_to_bytes n = concat (map channel_bytes n)"
  using ntl_fold [of "[]" n 0] by (simp add: ntl_to_bytes_def)

lemma length_ntl_to_bytes: "length n = 8 \<Longrightarrow> length (ntl_to_bytes n) = 64"
  by (simp add: ntl_to_bytes_concat length_concat_8)

lemma concat_nth_block:
  assumes "\<forall>x \<in> set xs. length (f x) = 8" "i < length xs"
  shows "drop (i * 8) (concat (map f xs)) = f (xs ! i) @ concat (map f (drop (Suc i) xs))"
proof -
  have "concat (map f xs) = concat (map f (take i xs)) @ concat (map f (drop i xs))"
    by (metis append_take_drop_id concat_append map_append)
  moreover have "length (concat (map f (take i xs))) = i * 8"
    using assms by (subst length_concat_8) (auto dest: in_set_takeD)
  moreover have "drop i xs = xs ! i # drop (Suc i) xs"
    using assms(2) by (rule Cons_nth_drop_Suc [symmetric])
  ultimately show ?thesis by simp
qed

lemma ntl_from_to: "length n = 8 \<Longrightarrow> ntl_from_bytes (ntl_to_bytes n) = Inr n"
proof -
  assume l: "length n = 8"
  have "\<lparr>ch_value = from_be (take 4 (drop (i * 8) (ntl_to_bytes n))),
         ch_quality = from_be (take 4 (drop (i * 8 + 4) (ntl_to_bytes n)))\<rparr> = n ! i" if "i < 8" for i
  proof -
    have "drop (i * 8) (ntl_to_bytes n) = channel_bytes (n ! i) @ concat (map channel_bytes (drop (Suc i) n))"
      using concat_nth_block [of n channel_bytes i] l that by (simp add: ntl_to_bytes_concat)
    moreover from this have "drop (i * 8 + 4) (ntl_to_bytes n) =
        to_be (ch_quality (n ! i)) @ concat (map channel_bytes (drop (Suc i) n))"
      by (metis (no_types, lifting) add.commute append.assoc append_eq_conv_conj channel_bytes_def drop_drop length_to_be(2))
    ultimately show ?thesis by (simp add: channel_bytes_def)
  qed
  then have "map (\<lambda>i. \<lparr>ch_value = from_be (take 4 (drop (i * 8) (ntl_to_bytes n))),
      ch_quality = from_be (take 4 (drop (i * 8 + 4) (ntl_to_bytes n)))\<rparr>) [0..<8] = n"
    using l by (intro nth_equalityI) simp_all
  then show ?thesis by (simp add: ntl_from_bytes_def length_ntl_to_bytes [OF l])
qed

lemma ntl_to_from: "length b = 64 \<Longrightarrow> ntl_from_bytes b = Inr n \<Longrightarrow> length n = 8 \<and> ntl_to_bytes n = b"
proof -
  assume l: "length b = 64" and r: "ntl_from_bytes b = Inr n"
  have n: "n = map (\<lambda>i. \<lparr>ch_value = from_be (take 4 (drop (i * 8) b)),
      ch_quality = from_be (take 4 (drop (i * 8 + 4) b))\<rparr>) [0..<8]"
    using l r by (simp add: ntl_from_bytes_def)
  have q: "to_be (from_be (take 4 (drop k b)) :: u32) = take 4 (drop k b)" if "k + 4 \<le> 64" for k
  proof (rule to_be_from_be)
    show "length (take 4 (drop k b)) = LENGTH(32) div 8" using l that by simp
    then show "be_nat (take 4 (drop k b)) < 2 ^ LENGTH(32)"
      using be_nat_bound [of "take 4 (drop k b)"] by simp
  qed
  have "channel_bytes (n ! i) = take 8 (drop (i * 8) b)" if "i < 8" for i
    using that q [of "i * 8"] q [of "i * 8 + 4"] take_add [of 4 4 "drop (i * 8) b"]
    by (simp add: n channel_bytes_def add.commute)
  then have "map channel_bytes n = map (\<lambda>i. take 8 (drop (i * 8) b)) [0..<8]"
    by (intro nth_equalityI) (simp_all add: n)
  moreover have "concat (map (\<lambda>i. take 8 (drop (i * 8) b)) [0..<k]) = take (k * 8) b" for k
  proof (induction k)
    case (Suc k)
    then show ?case using take_add [of "k * 8" 8 b] by (simp add: add.commute)
  qed simp
  moreover have "length n = 8" by (simp add: n)
  ultimately show "length n = 8 \<and> ntl_to_bytes n = b"
    using l by (simp add: ntl_to_bytes_concat)
qed

section \<open>Round trip of the PDU\<close>

definition opt_tlv :: "tag \<Rightarrow> ('a \<Rightarrow> bytes) \<Rightarrow> 'a option \<Rightarrow> bytes" where
  "opt_tlv t g x = (case x of None \<Rightarrow> [] | Some y \<Rightarrow> tlv_bytes t (g y))"

lemma w_some_put: "(\<And>y. f y = put (tlv_bytes t (g y))) \<Longrightarrow> w_some x f = put (opt_tlv t g x)"
  by (rule ext) (simp add: w_some_def opt_tlv_def put_Nil split: option.splits)

lemma sv_field_at:
  "slice_ok pre (tlv_bytes t c @ rest) \<Longrightarrow>
    sv_field t f (rd_at pre (tlv_bytes t c @ rest)) = (f c, rd_at (pre @ tlv_bytes t c) rest)"
  by (simp add: sv_field_def expect_field map_errR_def)

text \<open>An optional field before a field of another tag, and one at the end.\<close>

lemma sv_field_if_at:
  assumes "slice_ok pre (opt_tlv t g x @ tlv_bytes u c @ rest)" "t \<noteq> u"
    and "\<And>y. x = Some y \<Longrightarrow> f (g y) = Inr y"
  shows "sv_field_if t f (rd_at pre (opt_tlv t g x @ tlv_bytes u c @ rest)) =
    (Inr x, rd_at (pre @ opt_tlv t g x) (tlv_bytes u c @ rest))"
proof (cases x)
  case None
  then show ?thesis
    using assms by (simp add: opt_tlv_def sv_field_if_def rd_read_if_at slice_ok_def map_errR_def)
next
  case (Some y)
  then show ?thesis
    using assms by (simp add: opt_tlv_def sv_field_if_def rd_read_if_at slice_ok_def map_errR_def)
qed

lemma sv_field_if_last:
  assumes "slice_ok pre (opt_tlv t g x)" "\<And>y. x = Some y \<Longrightarrow> f (g y) = Inr y"
  shows "sv_field_if t f (rd_at pre (opt_tlv t g x)) = (Inr x, rd_at (pre @ opt_tlv t g x) [])"
proof (cases x)
  case None
  then show ?thesis
    by (simp add: opt_tlv_def sv_field_if_def rd_read_if_at_end map_errR_def)
next
  case (Some y)
  then show ?thesis
    using assms rd_read_if_at [of pre t "g y" t "[]"]
    by (simp add: opt_tlv_def sv_field_if_def slice_ok_def map_errR_def)
qed

definition asdu_fields :: "asdu \<Rightarrow> bytes" where
  "asdu_fields a =
     tlv_bytes (tag_context 0 False) (as_bytes (sv_id a)) @
     opt_tlv (tag_context 1 False) as_bytes (a_dat_set a) @
     tlv_bytes (tag_context 2 False) (to_be (smp_cnt a)) @
     tlv_bytes (tag_context 3 False) (to_be (a_conf_rev a)) @
     opt_tlv (tag_context 4 False) id (refr_tm a) @
     tlv_bytes (tag_context 5 False) [smp_synch a] @
     opt_tlv (tag_context 6 False) to_be (smp_rate a) @
     tlv_bytes (tag_context 7 False) (sample a) @
     opt_tlv (tag_context 8 False) to_be (smp_mod a)"

definition asdu_bytes :: "asdu \<Rightarrow> bytes" where
  "asdu_bytes a = tlv_bytes (tag_universal 16 True) (asdu_fields a)"

lemma w_asdu_put: "w_asdu a = put (asdu_bytes a)"
proof -
  have s: "w_some (a_dat_set a) (w_visible_string (tag_context 1 False)) =
      put (opt_tlv (tag_context 1 False) as_bytes (a_dat_set a))"
    "w_some (refr_tm a) (w_octet_string (tag_context 4 False)) = put (opt_tlv (tag_context 4 False) id (refr_tm a))"
    "w_some (smp_rate a) (\<lambda>r. w_octet_string (tag_context 6 False) (to_be r)) =
      put (opt_tlv (tag_context 6 False) to_be (smp_rate a))"
    "w_some (smp_mod a) (\<lambda>m. w_octet_string (tag_context 8 False) (to_be m)) =
      put (opt_tlv (tag_context 8 False) to_be (smp_mod a))"
    by (rule w_some_put; rule ext; simp add: w_ops w_primitive_put)+
  show ?thesis
    unfolding w_asdu_def asdu_bytes_def asdu_fields_def s w_sequence_def
    by (simp add: w_ops w_primitive_put w_seq_put w_tlv_put)
qed

definition asdu_ok :: "asdu \<Rightarrow> bool" where
  "asdu_ok a \<longleftrightarrow> str_ok (sv_id a) \<and> (\<forall>s. a_dat_set a = Some s \<longrightarrow> str_ok s) \<and>
     (\<forall>t. refr_tm a = Some t \<longrightarrow> utc_ok t)"

lemma sv_string_as_bytes: "str_ok s \<Longrightarrow> sv_string (as_bytes s) = Inr s"
  by (simp add: sv_string_def decode_visible_as_bytes)

lemma octets_to_be [simp]: "octets_u16 (to_be v) = Inr v" "octets_u32 (to_be w) = Inr w"
  by (simp_all add: octets_u16_def octets_u32_def)

lemma decode_asdu_fields:
  assumes "asdu_ok a" "length (asdu_fields a) < usize_limit"
  shows "decode_asdu (asdu_fields a) = Inr a"
proof -
  have ok: "slice_ok [] (asdu_fields a)" using assms(2) by (simp add: slice_ok_def)
  have tags: "tag_context i c = tag_context j d \<longleftrightarrow> i = j \<and> c = d" for i j c d
    by (auto simp: tag_context_def)
  show ?thesis
    using ok assms(1)
    unfolding decode_asdu_def asdu_fields_def reader_new_at
    by (simp add: slice_ok_step sv_field_at sv_field_if_at sv_field_if_last asdu_ok_def sv_string_as_bytes
        tags utc_ok_def)
qed

lemma length_field_le: "length c \<le> length (tlv_bytes t c)"
  using length_content_less [of c t] by simp

lemma read_asdus_bytes:
  assumes "list_all asdu_ok as" "slice_ok pre (concat (map asdu_bytes as))"
  shows "read_asdus (rd_at pre (concat (map asdu_bytes as))) out = Inr (out @ as)"
  using assms
proof (induction as arbitrary: pre out)
  case Nil
  then show ?case by (simp add: read_asdus.simps)
next
  case (Cons a as)
  have ok: "slice_ok pre (asdu_bytes a @ concat (map asdu_bytes as))" using Cons.prems(2) by simp
  have len: "length (asdu_fields a) < usize_limit"
    using ok length_field_le [of "asdu_fields a" "tag_universal 16 True"] by (simp add: slice_ok_def asdu_bytes_def)
  have "read_tlv (rd_at pre (asdu_bytes a @ concat (map asdu_bytes as))) =
      (Inr \<lparr>tlv_tag = tag_universal 16 True, tlv_content = asdu_fields a\<rparr>,
       rd_at (pre @ asdu_bytes a) (concat (map asdu_bytes as)))"
    using ok by (simp add: asdu_bytes_def read_tlv_at slice_ok_def)
  moreover have "decode_asdu (asdu_fields a) = Inr a"
    using decode_asdu_fields [OF _ len] Cons.prems(1) by simp
  moreover have "read_asdus (rd_at (pre @ asdu_bytes a) (concat (map asdu_bytes as))) (out @ [a]) =
      Inr ((out @ [a]) @ as)"
    using Cons.prems by (intro Cons.IH) (simp_all add: slice_ok_step)
  moreover have "asdu_bytes a \<noteq> []" by (simp add: asdu_bytes_def)
  ultimately show ?case
    by (subst read_asdus.simps) simp
qed

definition sv_fields :: "sv_pdu \<Rightarrow> bytes" where
  "sv_fields p = tlv_bytes (tag_context 0 False) (encode_unsigned (ucast (no_asdu p))) @
     tlv_bytes (tag_context 2 True) (concat (map asdu_bytes (asdus p)))"

lemma sv_encode_bytes: "sv_encode p = tlv_bytes sav_pdu (sv_fields p)"
proof -
  have "fold w_asdu as = put (concat (map asdu_bytes as))" for as
    by (rule ext) (simp add: fold_put w_asdu_put)
  then show ?thesis
    unfolding sv_encode_def sv_fields_def
    by (simp add: w_ops w_seq_put w_primitive_put w_tlv_put into_bytes_put)
qed

lemma sint_u32: "sint (ucast (v :: u32) :: u64) = uint v"
proof -
  have "uint v < 2 ^ 32" using uint_bounded [of v] by simp
  then have "uint (ucast v :: u64) = uint v" "uint v < 2 ^ 63"
    by (simp_all add: unsigned_ucast_eq take_bit_int_eq_self)
  moreover have "- (2 ^ 63) \<le> uint v" by (rule order_trans [OF _ uint_ge_0]) simp
  ultimately show ?thesis
    using signed_take_bit_int_eq_self [of 63 "uint v"] by (simp add: sint_uint)
qed

lemma no_asdu_content:
  "bindE (map_errE SvBer (decode_integer (encode_unsigned (ucast (n :: u32))))) (\<lambda>v.
     if 0 \<le> sint v \<and> sint v < 4294967296 then Inr (ucast v) else Inl e) = Inr n"
proof -
  have "uint n < 2 ^ 32" using uint_bounded [of n] by simp
  moreover have "decode_integer (encode_unsigned (ucast n)) = Inr (ucast n)"
    by (rule decode_integer_encode_unsigned)
      (use unsigned_less [of n, where ?'a = nat] in \<open>simp add: unat_ucast_mod\<close>)
  moreover have "(ucast (ucast n :: u64) :: u32) = n"
    using unsigned_less [of n, where ?'a = nat] by (simp add: word_unat_eq_iff unat_ucast_mod)
  ultimately show ?thesis by (simp add: sint_u32)
qed

definition sv_pdu_ok :: "sv_pdu \<Rightarrow> bool" where
  "sv_pdu_ok p \<longleftrightarrow> list_all asdu_ok (asdus p) \<and> length (sv_encode p) < usize_limit"

lemma sv_decode_encode:
  assumes "sv_pdu_ok p"
  shows "sv_decode (sv_encode p) = Inr p"
proof -
  let ?c = "concat (map asdu_bytes (asdus p))"
  have len: "length (tlv_bytes sav_pdu (sv_fields p)) < usize_limit"
    using assms by (simp add: sv_pdu_ok_def sv_encode_bytes)
  then have ok: "slice_ok [] (sv_fields p)"
    using length_field_le [of "sv_fields p" sav_pdu] by (simp add: slice_ok_def)
  have c: "slice_ok [] ?c"
    using ok length_field_le [of ?c "tag_context 2 True"] by (simp add: slice_ok_def sv_fields_def)
  have data: "read_asdus (reader_new ?c) [] = Inr (asdus p)"
    using read_asdus_bytes [OF _ c] assms by (simp add: reader_new_at sv_pdu_ok_def)
  have tag: "tag_context 2 True \<noteq> tag_context 1 True" by (simp add: tag_context_def)
  have skip: "slice_ok pre (tlv_bytes (tag_context 2 True) x) \<Longrightarrow>
      rd_read_if (tag_context 1 True) (rd_at pre (tlv_bytes (tag_context 2 True) x)) =
        (Inr None, rd_at pre (tlv_bytes (tag_context 2 True) x))" for pre x
    using rd_read_if_at [of pre "tag_context 2 True" x "tag_context 1 True" "[]"] tag
    by (simp add: slice_ok_def)
  show ?thesis
    using ok
    unfolding sv_decode_def sv_encode_bytes read_tlv_single [OF len]
    unfolding sv_fields_def
    by (simp add: map_errR_def tlv_reader_at slice_ok_step sv_field_at no_asdu_content skip
        expect_field_last data)
qed

section \<open>Round trip of frames\<close>

interpretation sv: pdu_codec sv_encode sv_decode sv_pdu_ok
  by unfold_locales (rule sv_decode_encode)

interpretation sv_hmac: signed_codec sv_encode sv_decode sv_pdu_ok hmac_sha256_tag_len "hmac_mac k" "hmac_verify k" for k
  by unfold_locales

definition sv_frame_ok :: "nat \<Rightarrow> sv_frame \<Rightarrow> bool" where
  "sv_frame_ok n f \<longleftrightarrow> length (sf_dst f) = 6 \<and> length (sf_src f) = 6 \<and>
     (case sf_vlan f of None \<Rightarrow> True | Some t \<Rightarrow> vlan_ok t) \<and>
     sv_pdu_ok (sf_pdu f) \<and> 8 + length (sv_encode (sf_pdu f)) + n < 65536"

lemma sv_hdr_ok: "sv_frame_ok n f \<Longrightarrow> eth_ok (sv_hdr f)"
  by (auto simp: sv_frame_ok_def eth_ok_def sv_hdr_def ethertype_sv_def tpid_8021q_def
      split: option.splits)

lemma sv_hdr_sel [simp]: "eth_ethertype (sv_hdr f) = ethertype_sv"
  "eth_dst (sv_hdr f) = sf_dst f" "eth_src (sv_hdr f) = sf_src f"
  "eth_vlan (sv_hdr f) = sf_vlan f" "eth_simulation (sv_hdr f) = sf_simulation f"
  by (simp_all add: sv_hdr_def)

lemma sv_frame_decode_encode:
  assumes "sv_frame_ok n f"
  shows "sv_frame_decode (sv_frame_encode f) = Inr f"
    and "sv_frame_decode_verified (sv_frame_encode f) v = Inr (f, AuthUnsigned)"
proof -
  obtain out lp where w: "write_eth_appid [] (sv_hdr f) (sf_appid f) = (out, lp)"
    by (cases "write_eth_appid [] (sv_hdr f) (sf_appid f)") auto
  have l: "8 + length (sv_encode (sf_pdu f)) < 65536" and p: "sv_pdu_ok (sf_pdu f)"
    using assms by (simp_all add: sv_frame_ok_def)
  note r = sv.framed_pdu [OF sv_hdr_ok [OF assms] p l w]
  show "sv_frame_decode (sv_frame_encode f) = Inr f"
    "sv_frame_decode_verified (sv_frame_encode f) v = Inr (f, AuthUnsigned)"
    using r by (simp_all add: sv_frame_decode_def sv_frame_decode_verified_def
        sv_frame_encode_def parse_eth_appid_def w Let_def)
qed

lemma sv_signed_decodes:
  assumes "sv_frame_ok hmac_sha256_tag_len f"
  shows "sv_frame_decode_verified (sv_frame_encode_signed f hmac_sha256_tag_len (hmac_mac k)) (hmac_verify k)
      = Inr (f, AuthValid)"
    and "sv_frame_decode (sv_frame_encode_signed f hmac_sha256_tag_len (hmac_mac k)) = Inr f"
proof -
  obtain out lp where w: "write_eth_appid [] (sv_hdr f) (sf_appid f) = (out, lp)"
    by (cases "write_eth_appid [] (sv_hdr f) (sf_appid f)") auto
  have l: "8 + length (sv_encode (sf_pdu f)) + hmac_sha256_tag_len < 65536" and p: "sv_pdu_ok (sf_pdu f)"
    using assms by (simp_all add: sv_frame_ok_def)
  have t: "0 < hmac_sha256_tag_len" by (simp add: hmac_sha256_tag_len_def)
  from sv_hmac.signed_pdu [OF sv_hdr_ok [OF assms] p l t w, of k]
  show "sv_frame_decode_verified (sv_frame_encode_signed f hmac_sha256_tag_len (hmac_mac k)) (hmac_verify k)
      = Inr (f, AuthValid)"
    "sv_frame_decode (sv_frame_encode_signed f hmac_sha256_tag_len (hmac_mac k)) = Inr f"
    by (auto simp: sv_frame_decode_verified_def sv_frame_encode_signed_def w
        sv_frame_decode_def parse_eth_appid_def Let_def)
qed

lemma sv_verified_valid:
  "sv_frame_decode_verified bs v = Inr (f, AuthValid) \<Longrightarrow>
    \<exists>p. parse_eth_appid_auth bs ethertype_sv = Inr p \<and> pf_auth_tag p \<noteq> [] \<and>
      v (pf_signed_data p) (pf_auth_tag p) \<and> sv_decode (pf_apdu p) = Inr (sf_pdu f)"
  by (auto simp: sv_frame_decode_verified_def bindE_Inr_iff Let_def split: if_splits)

text \<open>A concrete frame with two units, one minimal and one with every field.\<close>

definition sv_sample_pdu :: sv_pdu where
  "sv_sample_pdu = \<lparr>no_asdu = 2, asdus =
     [\<lparr>sv_id = ''MU01'', a_dat_set = Some ''ds'', smp_cnt = 5, a_conf_rev = 1,
       refr_tm = Some [1, 2, 3, 4, 5, 6, 7, 8], smp_synch = 2, smp_rate = Some 4000,
       sample = [0xAA, 0xBB], smp_mod = Some 1\<rparr>,
      \<lparr>sv_id = ''MU02'', a_dat_set = None, smp_cnt = 6, a_conf_rev = 0, refr_tm = None,
       smp_synch = 0, smp_rate = None, sample = [], smp_mod = None\<rparr>]\<rparr>"

definition sv_sample :: sv_frame where
  "sv_sample = \<lparr>sf_dst = [1, 12, 205, 4, 0, 1], sf_src = [0, 1, 2, 3, 4, 5],
      sf_vlan = Some (vlan_new 50), sf_appid = 0x4000, sf_simulation = False, sf_pdu = sv_sample_pdu\<rparr>"

lemma sv_sample_pdu_length: "length (sv_encode sv_sample_pdu) = 77"
  by (simp add: sv_encode_bytes sv_fields_def sv_sample_pdu_def sav_pdu_def asdu_bytes_def asdu_fields_def
      opt_tlv_def evals)

lemma sv_sample_pdu_ok: "sv_pdu_ok sv_sample_pdu"
  unfolding sv_pdu_ok_def sv_sample_pdu_length
  by (simp add: sv_sample_pdu_def asdu_ok_def utc_ok_def evals utf8_next.simps)

lemma sv_sample_ok: "n \<le> 1000 \<Longrightarrow> sv_frame_ok n sv_sample"
  by (simp add: sv_frame_ok_def sv_sample_def sv_sample_pdu_ok sv_sample_pdu_length
      vlan_ok_def vlan_new_def)

section \<open>Properties\<close>

text \<open>A Sampled Values frame, with any number of units and any combination of their optional
  fields, is received unchanged: reported as unsigned when it was sent without a tag, and as valid
  when it was signed under the verifier's HMAC key.\<close>

theorem sv_frame_roundtrip:
  assumes "sv_frame_ok hmac_sha256_tag_len f"
  shows "sv_frame_decode (sv_frame_encode f) = Inr f \<and>
    sv_frame_decode_verified (sv_frame_encode f) (hmac_verify k) = Inr (f, AuthUnsigned) \<and>
    sv_frame_decode_verified (sv_frame_encode_signed f hmac_sha256_tag_len (hmac_mac k)) (hmac_verify k)
      = Inr (f, AuthValid)"
  using sv_frame_decode_encode [OF assms] sv_signed_decodes(1) [OF assms] by simp

text \<open>The eight channels of a 9-2LE data set and the 64 octets of its \<open>sample\<close> field determine
  each other; any other length is an error, which a subscriber shows as no decoded data set.\<close>

theorem nine_two_le_bijection:
  "(length n = 8 \<longrightarrow> as_9_2le (set_9_2le n a) = Some n) \<and>
   (case ntl_from_bytes b of
      Inl e \<Rightarrow> length b \<noteq> 64
    | Inr n' \<Rightarrow> length b = 64 \<and> length n' = 8 \<and> ntl_to_bytes n' = b)"
proof
  show "length n = 8 \<longrightarrow> as_9_2le (set_9_2le n a) = Some n"
    by (simp add: as_9_2le_def set_9_2le_def ntl_from_to)
  show "case ntl_from_bytes b of Inl e \<Rightarrow> length b \<noteq> 64
    | Inr n' \<Rightarrow> length b = 64 \<and> length n' = 8 \<and> ntl_to_bytes n' = b"
    using ntl_to_from [of b] by (cases "length b = 64") (auto simp: ntl_from_bytes_def)
qed

end
