(* ===== verification/SvStream.thy ===== *)
theory SvStream imports SvPdu begin

text \<open>
  Streams of Sampled Values: \<open>crates/iec61850-sv/src/config.rs\<close>, \<open>publisher.rs\<close> and
  \<open>subscriber.rs\<close>. One tick of the publisher's task sends one sample and advances its counter; the
  subscriber's task follows the counter of every stream. The lemmas give the publisher's counter in
  closed form, what the subscriber reports on a lossless link and after a gap, and the isolation of
  frames that fail authentication.
\<close>

section \<open>Configuration\<close>

record 'sk sv_config =
  svc_dst :: mac_addr
  svc_src :: mac_addr
  svc_vlan :: "vlan_tag option"
  svc_appid :: u16
  svc_sv_id :: string
  svc_dat_set :: "string option"
  svc_conf_rev :: u32
  svc_smp_rate :: u16
  svc_smp_synch :: u8
  svc_sample_period :: nat
  svc_include_refr_tm :: bool
  svc_smp_cnt_wrap :: u16
  svc_simulation :: bool
  svc_security :: "'sk signer option"

text \<open>A \<open>Duration\<close> is in nanoseconds.\<close>

definition sv_config_new :: "mac_addr \<Rightarrow> mac_addr \<Rightarrow> u16 \<Rightarrow> string \<Rightarrow> 'sk sv_config" where
  "sv_config_new dst src appid stream =
    \<lparr>svc_dst = dst, svc_src = src, svc_vlan = None, svc_appid = appid, svc_sv_id = stream,
     svc_dat_set = None, svc_conf_rev = 1, svc_smp_rate = 4000, svc_smp_synch = 2,
     svc_sample_period = 250 * 1000, svc_include_refr_tm = True, svc_smp_cnt_wrap = 4000,
     svc_simulation = False, svc_security = None\<rparr>"

definition sv_with_security :: "'sk signer \<Rightarrow> 'sk sv_config \<Rightarrow> 'sk sv_config" where
  "sv_with_security s c = c\<lparr>svc_security := Some s\<rparr>"

text \<open>\<open>now_utc\<close>, of the time since the epoch in seconds and nanoseconds (\<open>None\<close>: before it).\<close>

definition sv_now_utc :: "(u64 \<times> nat) option \<Rightarrow> utc_time" where
  "sv_now_utc d =
    (case d of
       Some (secs, nanos) \<Rightarrow>
         to_be (ucast secs :: u32) @ drop 1 (to_be (word_of_nat (nanos * 2 ^ 24 div 1000000000) :: u32))
     | None \<Rightarrow> replicate 7 0) @ [0x0A]"

lemma sv_now_utc_ok: "utc_ok (sv_now_utc d)"
  by (simp add: utc_ok_def sv_now_utc_def split: option.splits)

section \<open>The publisher\<close>

text \<open>The clock readings of one tick: the time since the epoch, and the seconds a key ring reads for
  the length of the tag and for the tag.\<close>

record sv_clocks =
  svk_since_epoch :: "(u64 \<times> nat) option"
  svk_len_secs :: u64
  svk_sign_secs :: u64

definition sv_pub_frame :: "'sk sv_config \<Rightarrow> sv_clocks \<Rightarrow> bytes \<Rightarrow> u16 \<Rightarrow> sv_frame" where
  "sv_pub_frame cfg ck smp cnt =
    \<lparr>sf_dst = svc_dst cfg, sf_src = svc_src cfg, sf_vlan = svc_vlan cfg, sf_appid = svc_appid cfg,
     sf_simulation = svc_simulation cfg,
     sf_pdu = \<lparr>no_asdu = 1, asdus =
       [\<lparr>sv_id = svc_sv_id cfg, a_dat_set = svc_dat_set cfg, smp_cnt = cnt,
         a_conf_rev = svc_conf_rev cfg,
         refr_tm = (if svc_include_refr_tm cfg then Some (sv_now_utc (svk_since_epoch ck)) else None),
         smp_synch = svc_smp_synch cfg, smp_rate = Some (svc_smp_rate cfg), sample = smp,
         smp_mod = None\<rparr>]\<rparr>\<rparr>"

definition sv_next_cnt :: "u16 \<Rightarrow> u16 \<Rightarrow> u16" where
  "sv_next_cnt wrap cnt = (if wrap \<le> cnt + 1 then 0 else cnt + 1)"

text \<open>One tick with the sample last set: the next counter and the octets sent.\<close>

definition sv_tick ::
    "('sk \<Rightarrow> bytes \<Rightarrow> bytes) \<Rightarrow> 'sk sv_config \<Rightarrow> sv_clocks \<Rightarrow> bytes \<Rightarrow> u16 \<Rightarrow> u16 \<times> bytes" where
  "sv_tick ecdsa_sign cfg ck smp cnt =
    (let frame = sv_pub_frame cfg ck smp cnt;
         bs = (case svc_security cfg of
                 Some key \<Rightarrow> sv_frame_encode_signed frame (signer_tag_len (svk_len_secs ck) key)
                   (signer_sign_tag ecdsa_sign (svk_sign_secs ck) key)
               | None \<Rightarrow> sv_frame_encode frame)
     in (sv_next_cnt (svc_smp_cnt_wrap cfg) cnt, bs))"

section \<open>The subscriber\<close>

record sv_filter =
  svf_appid :: "u16 option"
  svf_dst :: "mac_addr option"
  svf_sv_id :: "string option"

datatype sv_event_kind =
    SvSample
  | SvSampleLoss (loss_expected: u16) (loss_got: u16)
  | SvWrap
  | SvAuthFailed (sv_auth_result: auth_status)

record sv_event =
  sve_sv_id :: string
  sve_appid :: u16
  sve_src :: mac_addr
  sve_simulation :: bool
  sve_smp_cnt :: u16
  sve_conf_rev :: u32
  sve_smp_synch :: u8
  sve_smp_rate :: "u16 option"
  sve_refr_tm :: "utc_time option"
  sve_sample :: bytes
  sve_decoded_9_2le :: "nine_two_le option"
  sve_kind :: sv_event_kind

record sv_sub_state =
  svs_last :: "string \<rightharpoonup> u16"
  svs_simulated :: "string set"

definition sv_sub_init :: sv_sub_state where
  "sv_sub_init = \<lparr>svs_last = Map.empty, svs_simulated = {}\<rparr>"

definition sv_sim_gate :: "bool \<Rightarrow> string set \<Rightarrow> string \<Rightarrow> bool \<Rightarrow> string set \<times> bool" where
  "sv_sim_gate sim subs stream frame_simulated =
    (if \<not> sim then ((if subs \<noteq> {} then {} else subs), \<not> frame_simulated)
     else if frame_simulated then (insert stream subs, True)
     else (subs, stream \<notin> subs))"

definition sv_kind :: "u16 option \<Rightarrow> u16 \<Rightarrow> sv_event_kind" where
  "sv_kind prev cnt =
    (case prev of
       None \<Rightarrow> SvSample
     | Some prev \<Rightarrow>
         if cnt = prev + 1 then SvSample
         else if cnt = 0 \<and> prev > 0 then SvWrap
         else if cnt > prev + 1 then SvSampleLoss (prev + 1) cnt
         else SvSample)"

definition sv_event_of :: "sv_frame \<Rightarrow> asdu \<Rightarrow> sv_event_kind \<Rightarrow> sv_event" where
  "sv_event_of f a kind =
    \<lparr>sve_sv_id = sv_id a, sve_appid = sf_appid f, sve_src = sf_src f, sve_simulation = sf_simulation f,
     sve_smp_cnt = smp_cnt a, sve_conf_rev = a_conf_rev a, sve_smp_synch = smp_synch a,
     sve_smp_rate = smp_rate a, sve_refr_tm = refr_tm a, sve_sample = sample a,
     sve_decoded_9_2le = as_9_2le a, sve_kind = kind\<rparr>"

text \<open>The body of the loop over the units of a frame. \<open>fail_status\<close> is set when the frame failed
  authentication; \<open>sim\<close> is the value of the shared flag.\<close>

definition sv_on_asdu ::
    "sv_filter \<Rightarrow> auth_status option \<Rightarrow> bool \<Rightarrow> sv_frame \<Rightarrow> asdu \<Rightarrow> sv_sub_state
      \<Rightarrow> sv_sub_state \<times> sv_event list" where
  "sv_on_asdu flt fail_status sim f a s =
    (if is_some_and (\<lambda>i. i \<noteq> sv_id a) (svf_sv_id flt) then (s, [])
     else case fail_status of
       Some status \<Rightarrow> (s, [sv_event_of f a (SvAuthFailed status)])
     | None \<Rightarrow>
         let (subs, pass) = sv_sim_gate sim (svs_simulated s) (sv_id a) (sf_simulation f);
             s = s\<lparr>svs_simulated := subs\<rparr>
         in if \<not> pass then (s, [])
            else let kind = sv_kind (svs_last s (sv_id a)) (smp_cnt a)
                 in (s\<lparr>svs_last := (svs_last s)(sv_id a \<mapsto> smp_cnt a)\<rparr>, [sv_event_of f a kind]))"

fun sv_on_asdus ::
    "sv_filter \<Rightarrow> auth_status option \<Rightarrow> bool \<Rightarrow> sv_frame \<Rightarrow> asdu list \<Rightarrow> sv_sub_state
      \<Rightarrow> sv_sub_state \<times> sv_event list" where
  "sv_on_asdus flt fail_status sim f [] s = (s, [])"
| "sv_on_asdus flt fail_status sim f (a # as) s =
    (let (s1, evs1) = sv_on_asdu flt fail_status sim f a s;
         (s2, evs2) = sv_on_asdus flt fail_status sim f as s1
     in (s2, evs1 @ evs2))"

text \<open>The frame and its failed authentication, or nothing when it is dropped.\<close>

definition sv_receive :: "(bytes \<Rightarrow> bytes \<Rightarrow> bool) option \<Rightarrow> bytes \<Rightarrow> (sv_frame \<times> auth_status option) option" where
  "sv_receive verify bs =
    (case verify of
       Some v \<Rightarrow>
         (case sv_frame_decode_verified bs v of
            Inr (f, AuthValid) \<Rightarrow> Some (f, None)
          | Inr (f, status) \<Rightarrow> Some (f, Some status)
          | Inl _ \<Rightarrow> None)
     | None \<Rightarrow> (case sv_frame_decode bs of Inr f \<Rightarrow> Some (f, None) | Inl _ \<Rightarrow> None))"

definition sv_on_recv ::
    "sv_filter \<Rightarrow> (bytes \<Rightarrow> bytes \<Rightarrow> bool) option \<Rightarrow> bool \<Rightarrow> bytes \<Rightarrow> sv_sub_state
      \<Rightarrow> sv_sub_state \<times> sv_event list" where
  "sv_on_recv flt verify sim bs s =
    (case sv_receive verify bs of
       None \<Rightarrow> (s, [])
     | Some (f, fail_status) \<Rightarrow>
         if is_some_and (\<lambda>a. a \<noteq> sf_appid f) (svf_appid flt) \<or>
            is_some_and (\<lambda>d. d \<noteq> sf_dst f) (svf_dst flt) then (s, [])
         else sv_on_asdus flt fail_status sim f (asdus (sf_pdu f)) s)"

section \<open>The publisher's counter\<close>

text \<open>The counter a publisher sends with its sample number \<open>n\<close>, and its cycle.\<close>

definition sv_cnt :: "u16 \<Rightarrow> nat \<Rightarrow> u16" where
  "sv_cnt wrap n = (sv_next_cnt wrap ^^ n) 0"

definition sv_cycle :: "u16 \<Rightarrow> nat" where
  "sv_cycle wrap = max 1 (unat wrap)"

lemma sv_cycle_bounds: "0 < sv_cycle w" "sv_cycle w < 65536"
  using unsigned_less [of w, where ?'a = nat] by (simp_all add: sv_cycle_def)

lemma unat_sv_next_cnt:
  assumes "unat c < sv_cycle w"
  shows "unat (sv_next_cnt w c) = Suc (unat c) mod sv_cycle w"
proof -
  have "Suc (unat c) < 65536" using assms sv_cycle_bounds(2) [of w] by simp
  then have c1: "unat (c + 1) = Suc (unat c)" by (simp add: unat_word_ariths)
  show ?thesis
  proof (cases "w \<le> c + 1")
    case True
    then have "Suc (unat c) = sv_cycle w"
      using assms c1 by (auto simp: word_le_nat_alt sv_cycle_def)
    then show ?thesis using True by (simp add: sv_next_cnt_def)
  next
    case False
    then show ?thesis using c1 by (simp add: word_le_nat_alt sv_next_cnt_def sv_cycle_def)
  qed
qed

lemma unat_sv_cnt: "unat (sv_cnt w n) = n mod sv_cycle w"
proof (induction n)
  case (Suc n)
  then have "unat (sv_cnt w n) < sv_cycle w" using sv_cycle_bounds by simp
  from unat_sv_next_cnt [OF this] Suc show ?case by (simp add: sv_cnt_def mod_Suc_eq)
qed (simp add: sv_cnt_def)

lemma sv_cnt_Suc: "sv_next_cnt w (sv_cnt w n) = sv_cnt w (Suc n)"
  by (simp add: sv_cnt_def)

lemma sv_kind_gap:
  assumes "1 \<le> d" "d < sv_cycle w"
  shows "sv_kind (Some (sv_cnt w m)) (sv_cnt w (m + d)) =
    (if d = 1 \<and> m mod sv_cycle w + 1 < sv_cycle w then SvSample
     else if m mod sv_cycle w + d < sv_cycle w then SvSampleLoss (sv_cnt w m + 1) (sv_cnt w (m + d))
     else if m mod sv_cycle w + d = sv_cycle w then SvWrap
     else SvSample)"
proof -
  let ?w = "sv_cycle w" and ?c = "sv_cnt w m" and ?e = "sv_cnt w (m + d)"
  have c: "unat ?c = m mod ?w" and b: "m mod ?w < ?w" using sv_cycle_bounds [of w] by (simp_all add: unat_sv_cnt)
  have e: "unat ?e = (if m mod ?w + d < ?w then m mod ?w + d else m mod ?w + d - ?w)"
  proof -
    have "unat ?e = (m mod ?w + d) mod ?w" by (simp add: unat_sv_cnt mod_add_left_eq)
    then show ?thesis
      using assms(2) b le_mod_geq [of ?w "m mod ?w + d"] by (cases "m mod ?w + d < ?w") auto
  qed
  have c1: "unat (?c + 1) = m mod ?w + 1"
    using b sv_cycle_bounds(2) [of w] c by (simp add: unat_word_ariths)
  define x y where "x = m mod ?w" and "y = unat ?e"
  have iff: "?e = ?c + 1 \<longleftrightarrow> y = x + 1" "?e = 0 \<longleftrightarrow> y = 0" "0 < ?c \<longleftrightarrow> 0 < x" "?c + 1 < ?e \<longleftrightarrow> x + 1 < y"
    using c c1 by (simp_all add: x_def y_def word_unat_eq_iff word_less_nat_alt)
  have xy: "y = (if x + d < ?w then x + d else x + d - ?w)" "x < ?w"
    using e b by (simp_all add: x_def y_def)
  show ?thesis
    unfolding sv_kind_def option.case iff x_def [symmetric] using xy assms
    by (cases "x + d < ?w"; cases "x + d = ?w") auto
qed

lemma sv_kind_next:
  "sv_kind (Some (sv_cnt w m)) (sv_cnt w (Suc m)) =
    (if Suc m mod sv_cycle w = 0 \<and> 1 < sv_cycle w then SvWrap else SvSample)"
proof (cases "1 < sv_cycle w")
  case True
  have "m mod sv_cycle w < sv_cycle w" using True by simp
  then show ?thesis
    using sv_kind_gap [of 1 w m] True by (auto simp: mod_Suc)
next
  case False
  then have "sv_cycle w = 1" using sv_cycle_bounds(1) [of w] by simp
  then have "sv_cnt w n = 0" for n using unat_sv_cnt [of w n] by (simp add: unat_eq_0)
  then show ?thesis using False by (simp add: sv_kind_def)
qed

section \<open>A publisher and a subscriber\<close>

inductive sv_security_match :: "'sk sv_config \<Rightarrow> (bytes \<Rightarrow> bytes \<Rightarrow> bool) option \<Rightarrow> bool" where
  sv_match_none: "svc_security cfg = None \<Longrightarrow> sv_security_match cfg None"
| sv_match_hmac: "svc_security cfg = Some (SHmac k) \<Longrightarrow> sv_security_match cfg (Some (hmac_verify k))"

definition sv_filter_matches :: "sv_filter \<Rightarrow> 'sk sv_config \<Rightarrow> bool" where
  "sv_filter_matches flt cfg \<longleftrightarrow> is_none_or (\<lambda>a. a = svc_appid cfg) (svf_appid flt) \<and>
     is_none_or (\<lambda>d. d = svc_dst cfg) (svf_dst flt) \<and>
     is_none_or (\<lambda>i. i = svc_sv_id cfg) (svf_sv_id flt)"

text \<open>Ticks of the publisher, each with its clock readings, its sample and whether its frame
  arrives; the subscriber's flag agrees with the publisher's simulation bit.\<close>

fun sv_link ::
    "('sk \<Rightarrow> bytes \<Rightarrow> bytes) \<Rightarrow> 'sk sv_config \<Rightarrow> sv_filter \<Rightarrow> (bytes \<Rightarrow> bytes \<Rightarrow> bool) option
      \<Rightarrow> (sv_clocks \<times> bytes \<times> bool) list \<Rightarrow> u16 \<times> sv_sub_state \<Rightarrow> (u16 \<times> sv_sub_state) \<times> sv_event list" where
  "sv_link es cfg flt verify [] st = (st, [])"
| "sv_link es cfg flt verify ((ck, smp, arrives) # rest) (cnt, s) =
    (let (cnt', bs) = sv_tick es cfg ck smp cnt;
         (s1, evs1) = (if arrives then sv_on_recv flt verify (svc_simulation cfg) bs s else (s, []));
         (st2, evs2) = sv_link es cfg flt verify rest (cnt', s1)
     in (st2, evs1 @ evs2))"

definition sv_sendable :: "'sk sv_config \<Rightarrow> sv_clocks \<times> bytes \<times> bool \<Rightarrow> bool" where
  "sv_sendable cfg x \<longleftrightarrow> (\<forall>cnt. sv_frame_ok hmac_sha256_tag_len (sv_pub_frame cfg (fst x) (fst (snd x)) cnt))"

lemma sv_frame_ok_mono: "sv_frame_ok n f \<Longrightarrow> m \<le> n \<Longrightarrow> sv_frame_ok m f"
  by (auto simp: sv_frame_ok_def)

lemma sv_receive_sent:
  assumes "sv_security_match cfg verify" "sv_frame_ok hmac_sha256_tag_len (sv_pub_frame cfg ck smp cnt)"
  shows "sv_receive verify (snd (sv_tick es cfg ck smp cnt)) = Some (sv_pub_frame cfg ck smp cnt, None)"
  using assms(1)
proof cases
  case sv_match_none
  then show ?thesis
    using sv_frame_decode_encode(1) [OF assms(2)] by (simp add: sv_receive_def sv_tick_def Let_def)
next
  case (sv_match_hmac k)
  have "signer_sign_tag es (svk_sign_secs ck) (SHmac k) = hmac_mac k"
    by (rule ext) simp
  then show ?thesis
    using sv_signed_decodes(1) [OF assms(2), of k] sv_match_hmac
    by (simp add: sv_receive_def sv_tick_def Let_def)
qed

lemma fst_sv_tick [simp]: "fst (sv_tick es cfg ck smp cnt) = sv_next_cnt (svc_smp_cnt_wrap cfg) cnt"
  by (simp add: sv_tick_def Let_def)

text \<open>One delivered tick: one event, of the classification of its counter against the last one.\<close>

lemma sv_deliver:
  assumes "sv_security_match cfg verify" "sv_filter_matches flt cfg"
    and "sv_frame_ok hmac_sha256_tag_len (sv_pub_frame cfg ck smp cnt)"
  shows "\<exists>s' ev. sv_on_recv flt verify (svc_simulation cfg) (snd (sv_tick es cfg ck smp cnt)) s = (s', [ev]) \<and>
    svs_last s' = (svs_last s)(svc_sv_id cfg \<mapsto> cnt) \<and> sve_smp_cnt ev = cnt \<and> sve_sample ev = smp \<and>
    sve_kind ev = sv_kind (svs_last s (svc_sv_id cfg)) cnt"
proof -
  have gate: "snd (sv_sim_gate b subs i b)" for b subs i by (simp add: sv_sim_gate_def)
  obtain subs where g: "sv_sim_gate (svc_simulation cfg) (svs_simulated s) (svc_sv_id cfg) (svc_simulation cfg) = (subs, True)"
    using gate [of "svc_simulation cfg" "svs_simulated s" "svc_sv_id cfg"]
    by (cases "sv_sim_gate (svc_simulation cfg) (svs_simulated s) (svc_sv_id cfg) (svc_simulation cfg)") auto
  have "\<not> is_some_and (\<lambda>a. a \<noteq> svc_appid cfg) (svf_appid flt)" "\<not> is_some_and (\<lambda>d. d \<noteq> svc_dst cfg) (svf_dst flt)"
    "\<not> is_some_and (\<lambda>i. i \<noteq> svc_sv_id cfg) (svf_sv_id flt)"
    using assms(2) by (auto simp: sv_filter_matches_def is_none_or_def is_some_and_def split: option.splits)
  then show ?thesis
    using g unfolding sv_on_recv_def sv_receive_sent [OF assms(1,3)]
    by (simp add: sv_pub_frame_def sv_on_asdu_def sv_event_of_def Let_def)
qed

text \<open>What is on record of a delivered event.\<close>

definition sv_entry :: "sv_event \<Rightarrow> u16 \<times> bytes \<times> sv_event_kind" where
  "sv_entry e = (sve_smp_cnt e, sve_sample e, sve_kind e)"

definition last_cnt :: "u16 \<Rightarrow> nat \<Rightarrow> u16 option" where
  "last_cnt w n = (case n of 0 \<Rightarrow> None | Suc m \<Rightarrow> Some (sv_cnt w m))"

definition cycle_kind :: "u16 \<Rightarrow> nat \<Rightarrow> sv_event_kind" where
  "cycle_kind w n = (if 0 < n \<and> n mod sv_cycle w = 0 \<and> 1 < sv_cycle w then SvWrap else SvSample)"

lemma sv_kind_last: "sv_kind (last_cnt w n) (sv_cnt w n) = cycle_kind w n"
proof (cases n)
  case 0
  then show ?thesis by (simp add: last_cnt_def cycle_kind_def sv_kind_def)
next
  case (Suc m)
  then show ?thesis using sv_kind_next [of w m] by (simp add: last_cnt_def cycle_kind_def)
qed

lemma sv_link_append:
  "sv_link es cfg flt verify (xs @ ys) st =
    (let (st1, evs1) = sv_link es cfg flt verify xs st;
         (st2, evs2) = sv_link es cfg flt verify ys st1
     in (st2, evs1 @ evs2))"
proof (induction xs arbitrary: st)
  case Nil
  then show ?case by (cases "sv_link es cfg flt verify ys st") simp
next
  case (Cons x xs)
  then show ?case
    by (cases x; cases st) (simp add: Let_def split: prod.splits)
qed

lemma sv_link_lost:
  "list_all (\<lambda>x. \<not> snd (snd x)) ys \<Longrightarrow>
    sv_link es cfg flt verify ys (sv_cnt (svc_smp_cnt_wrap cfg) n, s) =
      ((sv_cnt (svc_smp_cnt_wrap cfg) (n + length ys), s), [])"
proof (induction ys arbitrary: n)
  case (Cons y ys)
  obtain ck smp where y: "y = (ck, smp, False)" using Cons.prems by (cases y) auto
  have "\<exists>bs. sv_tick es cfg ck smp (sv_cnt (svc_smp_cnt_wrap cfg) n) = (sv_cnt (svc_smp_cnt_wrap cfg) (Suc n), bs)"
    by (cases "sv_tick es cfg ck smp (sv_cnt (svc_smp_cnt_wrap cfg) n)")
      (use fst_sv_tick [of es cfg ck smp "sv_cnt (svc_smp_cnt_wrap cfg) n"] in \<open>simp add: sv_cnt_Suc\<close>)
  then show ?case using Cons.IH [of "Suc n"] Cons.prems by (auto simp: y)
qed simp

lemma sv_link_arrives:
  assumes m: "sv_security_match cfg verify" "sv_filter_matches flt cfg"
    and "sv_sendable cfg (ck, smp, True)"
  shows "\<exists>s' ev. sv_link es cfg flt verify [(ck, smp, True)] (sv_cnt (svc_smp_cnt_wrap cfg) n, s) =
      ((sv_cnt (svc_smp_cnt_wrap cfg) (Suc n), s'), [ev]) \<and>
    svs_last s' (svc_sv_id cfg) = Some (sv_cnt (svc_smp_cnt_wrap cfg) n) \<and>
    sv_entry ev = (sv_cnt (svc_smp_cnt_wrap cfg) n, smp,
      sv_kind (svs_last s (svc_sv_id cfg)) (sv_cnt (svc_smp_cnt_wrap cfg) n))"
proof -
  let ?c = "sv_cnt (svc_smp_cnt_wrap cfg) n"
  have "sv_frame_ok hmac_sha256_tag_len (sv_pub_frame cfg ck smp ?c)"
    using assms(3) by (simp add: sv_sendable_def)
  from sv_deliver [OF m this, of es s] obtain s' ev where
    d: "sv_on_recv flt verify (svc_simulation cfg) (snd (sv_tick es cfg ck smp ?c)) s = (s', [ev])"
      "svs_last s' = (svs_last s)(svc_sv_id cfg \<mapsto> ?c)" "sve_smp_cnt ev = ?c" "sve_sample ev = smp"
      "sve_kind ev = sv_kind (svs_last s (svc_sv_id cfg)) ?c"
    by blast
  then show ?thesis
    using fst_sv_tick [of es cfg ck smp ?c]
    by (cases "sv_tick es cfg ck smp ?c") (simp add: sv_entry_def sv_cnt_Suc)
qed

lemma sv_link_all:
  assumes m: "sv_security_match cfg verify" "sv_filter_matches flt cfg"
    and "list_all (sv_sendable cfg) xs" "list_all (\<lambda>x. snd (snd x)) xs"
    and "svs_last s (svc_sv_id cfg) = last_cnt (svc_smp_cnt_wrap cfg) n"
  shows "\<exists>s' evs. sv_link es cfg flt verify xs (sv_cnt (svc_smp_cnt_wrap cfg) n, s) =
      ((sv_cnt (svc_smp_cnt_wrap cfg) (n + length xs), s'), evs) \<and>
    svs_last s' (svc_sv_id cfg) = last_cnt (svc_smp_cnt_wrap cfg) (n + length xs) \<and>
    map sv_entry evs = map (\<lambda>(i, x). (sv_cnt (svc_smp_cnt_wrap cfg) i, fst (snd x),
      cycle_kind (svc_smp_cnt_wrap cfg) i)) (enumerate n xs)"
  using assms(3-5)
proof (induction xs arbitrary: n s)
  case (Cons x xs)
  let ?w = "svc_smp_cnt_wrap cfg"
  obtain ck smp where x: "x = (ck, smp, True)" using Cons.prems by (cases x) auto
  obtain s1 ev where d: "sv_link es cfg flt verify [(ck, smp, True)] (sv_cnt ?w n, s) = ((sv_cnt ?w (Suc n), s1), [ev])"
    "svs_last s1 (svc_sv_id cfg) = Some (sv_cnt ?w n)"
    "sv_entry ev = (sv_cnt ?w n, smp, sv_kind (svs_last s (svc_sv_id cfg)) (sv_cnt ?w n))"
    using sv_link_arrives [OF m, of ck smp es n s] Cons.prems(1) by (auto simp: x)
  have "svs_last s1 (svc_sv_id cfg) = last_cnt ?w (Suc n)" by (simp add: d last_cnt_def)
  from Cons.IH [OF _ _ this] Cons.prems obtain s' evs where
    r: "sv_link es cfg flt verify xs (sv_cnt ?w (Suc n), s1) = ((sv_cnt ?w (Suc n + length xs), s'), evs)"
      "svs_last s' (svc_sv_id cfg) = last_cnt ?w (Suc n + length xs)"
      "map sv_entry evs = map (\<lambda>(i, x). (sv_cnt ?w i, fst (snd x), cycle_kind ?w i)) (enumerate (Suc n) xs)"
    by auto
  have "sv_link es cfg flt verify (x # xs) (sv_cnt ?w n, s) =
      ((sv_cnt ?w (n + length (x # xs)), s'), ev # evs)"
    using sv_link_append [of es cfg flt verify "[x]" xs] d(1) r(1) by (simp add: x del: sv_link.simps)
  then show ?case
    using r(2,3) d(3) Cons.prems(3) by (simp add: x sv_kind_last)
qed simp

lemma sv_receive_valid:
  "sv_receive (Some v) bs = Some (f, None) \<longleftrightarrow> sv_frame_decode_verified bs v = Inr (f, AuthValid)"
  by (auto simp: sv_receive_def split: sum.splits prod.splits auth_status.splits)

lemma sv_on_asdus_failed:
  "sv_on_asdus flt (Some st) sim f as s = (s', evs) \<Longrightarrow>
    s' = s \<and> (\<forall>e \<in> set evs. sve_kind e = SvAuthFailed st)"
  by (induction as arbitrary: s evs)
    (force simp: sv_on_asdu_def sv_event_of_def split: prod.splits if_splits)+

text \<open>A stream of three samples per cycle, for concrete runs.\<close>

definition sv_demo :: "bytes sv_config" where
  "sv_demo = (sv_config_new [1, 12, 205, 4, 0, 1] [0, 1, 2, 3, 4, 5] 0x4000 ''MU'')
     \<lparr>svc_smp_cnt_wrap := 3, svc_security := Some (SHmac (hmac_new [1]))\<rparr>"

definition sv_demo_clocks :: sv_clocks where
  "sv_demo_clocks = \<lparr>svk_since_epoch = None, svk_len_secs = 0, svk_sign_secs = 0\<rparr>"

definition sv_accept_all :: sv_filter where
  "sv_accept_all = \<lparr>svf_appid = None, svf_dst = None, svf_sv_id = None\<rparr>"

lemma sv_demo_match: "sv_security_match sv_demo (Some (hmac_verify (hmac_new [1])))"
  "sv_filter_matches sv_accept_all sv_demo"
  by (auto intro: sv_match_hmac simp: sv_demo_def sv_filter_matches_def sv_accept_all_def is_none_or_def)

lemma sv_demo_sendable: "sv_sendable sv_demo (sv_demo_clocks, [0xAA], b)"
proof -
  have u: "length (sv_now_utc d) = 8" for d using sv_now_utc_ok [of d] by (simp add: utc_ok_def)
  have one: "encode_unsigned 1 = [1]" by (simp add: evals)
  have "length (sv_encode (sf_pdu (sv_pub_frame sv_demo sv_demo_clocks [0xAA] cnt))) = 43" for cnt
    by (simp add: one sv_encode_bytes sv_fields_def sv_pub_frame_def sv_demo_def sv_config_new_def asdu_bytes_def
        asdu_fields_def opt_tlv_def length_tlv_bytes u as_bytes_def sav_pdu_def len_encoded_size_def
        tag_application_def tag_context_def tag_universal_def tag_encode_def)
  then show ?thesis
    by (simp add: sv_sendable_def sv_frame_ok_def sv_pdu_ok_def)
       (simp add: sv_pub_frame_def sv_demo_def sv_config_new_def asdu_ok_def sv_now_utc_ok
        hmac_sha256_tag_len_def evals utf8_next.simps)
qed

section \<open>Properties\<close>

text \<open>The counter of the \<open>n\<close>-th sample is \<open>n\<close> modulo the configured cycle, and the 16-bit
  increment of \<open>smp_cnt + 1\<close> never overflows, whatever the cycle and whatever becomes of the frames.\<close>

theorem sv_counter_cycles:
  "\<exists>cnt s evs. sv_link es cfg flt verify xs (0, sv_sub_init) = ((cnt, s), evs) \<and>
    unat cnt = length xs mod max 1 (unat (svc_smp_cnt_wrap cfg)) \<and> unat (cnt + 1) = unat cnt + 1"
proof -
  have run: "fst (fst (sv_link es cfg flt verify xs (sv_cnt (svc_smp_cnt_wrap cfg) n, s))) =
      sv_cnt (svc_smp_cnt_wrap cfg) (n + length xs)" for n s
  proof (induction xs arbitrary: n s)
    case (Cons x xs)
    obtain ck smp arrives where x: "x = (ck, smp, arrives)" by (cases x)
    obtain bs where t: "sv_tick es cfg ck smp (sv_cnt (svc_smp_cnt_wrap cfg) n) = (sv_cnt (svc_smp_cnt_wrap cfg) (Suc n), bs)"
      using fst_sv_tick [of es cfg ck smp "sv_cnt (svc_smp_cnt_wrap cfg) n"] by (metis sv_cnt_Suc prod.collapse)
    obtain s1 evs1 where r: "(if arrives then sv_on_recv flt verify (svc_simulation cfg) bs s else (s, [])) = (s1, evs1)"
      by (metis surj_pair)
    show ?case
      using Cons.IH [of "Suc n" s1] by (auto simp: x t r split: prod.splits)
  qed simp
  obtain cnt s evs where r: "sv_link es cfg flt verify xs (0, sv_sub_init) = ((cnt, s), evs)"
    by (metis surj_pair)
  then have "cnt = sv_cnt (svc_smp_cnt_wrap cfg) (length xs)"
    using run [of 0 sv_sub_init] by (simp add: sv_cnt_def)
  then have "unat cnt = length xs mod sv_cycle (svc_smp_cnt_wrap cfg)" by (simp add: unat_sv_cnt)
  moreover from this have "unat cnt < sv_cycle (svc_smp_cnt_wrap cfg)" using sv_cycle_bounds(1) by simp
  then have "unat (cnt + 1) = unat cnt + 1"
    using sv_cycle_bounds(2) [of "svc_smp_cnt_wrap cfg"] by (simp add: unat_word_ariths)
  ultimately show ?thesis using r by (simp add: sv_cycle_def)
qed

text \<open>C30: On a link that loses nothing, with or without HMAC, the subscriber delivers one event per
  sample sent, in order, with its counter and its octets; each is a \<open>Sample\<close>, or a \<open>Wrap\<close> where the
  counter starts a new cycle; no loss and no failed authentication is reported.\<close>

theorem sv_link_lossless:
  assumes "sv_security_match cfg verify" "sv_filter_matches flt cfg"
    and "list_all (sv_sendable cfg) xs" "list_all (\<lambda>x. snd (snd x)) xs"
  shows "map sv_entry (snd (sv_link es cfg flt verify xs (0, sv_sub_init))) =
    map (\<lambda>(i, x). (word_of_nat (i mod max 1 (unat (svc_smp_cnt_wrap cfg))), fst (snd x),
      if 0 < i \<and> 1 < svc_smp_cnt_wrap cfg \<and> i mod unat (svc_smp_cnt_wrap cfg) = 0 then SvWrap else SvSample))
      (enumerate 0 xs)"
proof -
  let ?w = "svc_smp_cnt_wrap cfg"
  have c: "sv_cnt ?w i = word_of_nat (i mod max 1 (unat ?w))" for i
  proof -
    have "word_of_nat (unat x) = x" for x :: u16 by simp
    then show ?thesis using unat_sv_cnt [of ?w i] by (metis sv_cycle_def)
  qed
  have k: "cycle_kind ?w i = (if 0 < i \<and> 1 < ?w \<and> i mod unat ?w = 0 then SvWrap else SvSample)" for i
    by (auto simp: cycle_kind_def sv_cycle_def word_less_nat_alt max_def split: if_splits)
  have "svs_last sv_sub_init (svc_sv_id cfg) = last_cnt ?w 0" by (simp add: sv_sub_init_def last_cnt_def)
  from sv_link_all [OF assms this, of es] show ?thesis
    by (auto simp: c k sv_cnt_def [of _ 0] simp flip: sv_cnt_def)
qed

theorem sv_link_lossless_witness:
  "map sv_entry (snd (sv_link (\<lambda>k d. []) sv_demo sv_accept_all (Some (hmac_verify (hmac_new [1])))
      (replicate 4 (sv_demo_clocks, [0xAA], True)) (0, sv_sub_init))) =
    [(0, [0xAA], SvSample), (1, [0xAA], SvSample), (2, [0xAA], SvSample), (0, [0xAA], SvWrap)]"
proof -
  have "svc_smp_cnt_wrap sv_demo = 3" by (simp add: sv_demo_def)
  moreover have "enumerate 0 (replicate 4 x) = [(0, x), (1, x), (2, x), (3, x)]" for x :: "sv_clocks \<times> bytes \<times> bool"
    by (simp add: numeral_eq_Suc)
  ultimately show ?thesis
    using sv_link_lossless [OF sv_demo_match, of "replicate 4 (sv_demo_clocks, [0xAA], True)" "\<lambda>k d. []"]
      sv_demo_sendable [of True] by (simp add: list_all_iff)
qed



text \<open>With security required, received octets change the subscriber's state, or lead to an event
  other than a failed authentication, only if they contain a \<open>savPdu\<close> with the HMAC of that PDU and
  its application header under the configured key, from which the units were decoded.\<close>

theorem sv_unauthenticated_isolated:
  assumes "sv_on_recv flt (Some (hmac_verify k)) sim bs s = (s', evs)"
    and "s' \<noteq> s \<or> (\<exists>e \<in> set evs. \<nexists>st. sve_kind e = SvAuthFailed st)"
  shows "\<exists>off hdr apdu pad f. bs = take off bs @ hdr @ apdu @ hmac_mac k (hdr @ apdu) @ pad \<and>
    length hdr = 8 \<and> sv_decode apdu = Inr (sf_pdu f) \<and>
    sv_frame_decode_verified bs (hmac_verify k) = Inr (f, AuthValid)"
proof -
  have "\<exists>f. sv_receive (Some (hmac_verify k)) bs = Some (f, None)"
  proof (cases "sv_receive (Some (hmac_verify k)) bs")
    case None
    then show ?thesis using assms by (simp add: sv_on_recv_def)
  next
    case (Some p)
    obtain f st where p: "p = (f, st)" by (cases p)
    show ?thesis
    proof (cases st)
      case (Some status)
      then have "s' = s \<and> (\<forall>e \<in> set evs. sve_kind e = SvAuthFailed status)"
        using assms(1) \<open>sv_receive _ bs = Some p\<close> sv_on_asdus_failed [of flt status sim f _ s s' evs]
        by (auto simp: sv_on_recv_def p split: if_splits)
      then show ?thesis using assms(2) by blast
    qed (use \<open>sv_receive _ bs = Some p\<close> p in blast)
  qed
  then obtain f where f: "sv_frame_decode_verified bs (hmac_verify k) = Inr (f, AuthValid)"
    by (auto simp: sv_receive_valid)
  from sv_verified_valid [OF f] obtain p where
    p: "parse_eth_appid_auth bs ethertype_sv = Inr p" "pf_auth_tag p \<noteq> []"
      "hmac_verify k (pf_signed_data p) (pf_auth_tag p)" "sv_decode (pf_apdu p) = Inr (sf_pdu f)"
    by blast
  from parse_structure [OF p(1)] p(2-4) f show ?thesis
    unfolding hmac_verify_iff by metis
qed

end
