(* ===== verification/ModelReference.thy ===== *)
theory ModelReference imports Prelude begin

text \<open>
  Functional constraints and object references of the data model:
  \<open>crates/iec61850-model/src/fc.rs\<close> and \<open>reference.rs\<close>. A reference is
  \<open>LD/LN.name.name[FC]\<close>; the lemmas show that printing and parsing invert each other, in both
  directions.
\<close>

section \<open>Functional constraints\<close>

datatype functional_constraint =
    FC_ST | FC_MX | FC_SP | FC_SV | FC_CF | FC_DC | FC_SG | FC_SE | FC_CO | FC_BL
  | FC_EX | FC_RP | FC_BR | FC_LG | FC_GO | FC_GS | FC_MS | FC_US | FC_OR | FC_SR

fun fc_as_str :: "functional_constraint \<Rightarrow> string" where
  "fc_as_str FC_ST = ''ST''" | "fc_as_str FC_MX = ''MX''" | "fc_as_str FC_SP = ''SP''"
| "fc_as_str FC_SV = ''SV''" | "fc_as_str FC_CF = ''CF''" | "fc_as_str FC_DC = ''DC''"
| "fc_as_str FC_SG = ''SG''" | "fc_as_str FC_SE = ''SE''" | "fc_as_str FC_CO = ''CO''"
| "fc_as_str FC_BL = ''BL''" | "fc_as_str FC_EX = ''EX''" | "fc_as_str FC_RP = ''RP''"
| "fc_as_str FC_BR = ''BR''" | "fc_as_str FC_LG = ''LG''" | "fc_as_str FC_GO = ''GO''"
| "fc_as_str FC_GS = ''GS''" | "fc_as_str FC_MS = ''MS''" | "fc_as_str FC_US = ''US''"
| "fc_as_str FC_OR = ''OR''" | "fc_as_str FC_SR = ''SR''"

datatype parse_fc_error = ParseFcError string

text \<open>The arms of the \<open>match\<close>, in order.\<close>

definition fc_arms :: "(string \<times> functional_constraint) list" where
  "fc_arms =
    [(''ST'', FC_ST), (''MX'', FC_MX), (''SP'', FC_SP), (''SV'', FC_SV), (''CF'', FC_CF),
     (''DC'', FC_DC), (''SG'', FC_SG), (''SE'', FC_SE), (''CO'', FC_CO), (''BL'', FC_BL),
     (''EX'', FC_EX), (''RP'', FC_RP), (''BR'', FC_BR), (''LG'', FC_LG), (''GO'', FC_GO),
     (''GS'', FC_GS), (''MS'', FC_MS), (''US'', FC_US), (''OR'', FC_OR), (''SR'', FC_SR)]"

definition fc_from_str :: "string \<Rightarrow> parse_fc_error + functional_constraint" where
  "fc_from_str s = (case map_of fc_arms s of Some fc \<Rightarrow> Inr fc | None \<Rightarrow> Inl (ParseFcError s))"

lemma fc_from_as_str [simp]: "fc_from_str (fc_as_str fc) = Inr fc"
  by (cases fc) (simp_all add: fc_from_str_def fc_arms_def)

lemma fc_as_from_str: "fc_from_str s = Inr fc \<Longrightarrow> fc_as_str fc = s"
  by (auto simp: fc_from_str_def fc_arms_def split: option.splits if_splits)

lemma fc_as_str_visible: "fc_as_str fc \<noteq> [] \<and> list_all (\<lambda>c. visible c \<and> c \<notin> set ''/.[]$'') (fc_as_str fc)"
  by (cases fc) (simp_all add: visible_def)

section \<open>Object references\<close>

record object_reference =
  or_ld :: string
  or_ln :: string
  or_path :: "string list"
  or_fc :: "functional_constraint option"

datatype parse_reference_error =
    RefEmpty
  | RefMissingSlash string
  | RefMissingLogicalNode string
  | RefBadFc string

definition reference_new :: "string \<Rightarrow> string \<Rightarrow> string list \<Rightarrow> object_reference" where
  "reference_new ld ln path = \<lparr>or_ld = ld, or_ln = ln, or_path = path, or_fc = None\<rparr>"

definition without_fc :: "object_reference \<Rightarrow> object_reference" where
  "without_fc r = r\<lparr>or_fc := None\<rparr>"

definition reference_key :: "object_reference \<Rightarrow> string" where
  "reference_key r = fold (\<lambda>p s. s @ ''.'' @ p) (or_path r) (or_ld r @ ''/'' @ or_ln r)"

definition reference_show :: "object_reference \<Rightarrow> string" where
  "reference_show r =
    fold (\<lambda>p s. s @ ''.'' @ p) (or_path r) (or_ld r @ ''/'' @ or_ln r) @
    (case or_fc r of Some fc \<Rightarrow> ''['' @ fc_as_str fc @ '']'' | None \<Rightarrow> [])"

text \<open>The possible \<open>[FC]\<close> at the end: what comes before it, and the constraint.\<close>

definition split_fc :: "string \<Rightarrow> parse_reference_error + string \<times> functional_constraint option" where
  "split_fc s =
    (case (ends_with '']'' s, rfind (CHR ''['') s) of
       (True, Some i) \<Rightarrow>
         (case fc_from_str (take (length s - 1 - (i + 1)) (drop (i + 1) s)) of
            Inr fc \<Rightarrow> Inr (take i s, Some fc)
          | Inl _ \<Rightarrow> Inl (RefBadFc s))
     | _ \<Rightarrow> Inr (s, None))"

definition reference_from_str :: "string \<Rightarrow> parse_reference_error + object_reference" where
  "reference_from_str s0 =
    (let s = trim s0
     in if s = [] then Inl RefEmpty
        else bindE (split_fc s) (\<lambda>(body, fc).
          bindE (ok_or (RefMissingSlash s) (split_once (CHR ''/'') body)) (\<lambda>(ld, rest).
            if ld = [] \<or> rest = [] then Inl (RefMissingLogicalNode s)
            else case split_on (CHR ''.'') rest of
              [] \<Rightarrow> Inl (RefMissingLogicalNode s)
            | ln # path \<Rightarrow>
                if ln = [] then Inl (RefMissingLogicalNode s)
                else Inr \<lparr>or_ld = ld, or_ln = ln, or_path = path, or_fc = fc\<rparr>)))"

section \<open>Facts\<close>

lemma fold_join: "fold (\<lambda>p s. s @ c # p) ps s = s @ prepend_all c ps"
  by (induction ps arbitrary: s) (simp_all add: prepend_all_def)

definition fc_suffix :: "functional_constraint option \<Rightarrow> string" where
  "fc_suffix fc = (case fc of Some fc \<Rightarrow> ''['' @ fc_as_str fc @ '']'' | None \<Rightarrow> [])"

lemma reference_show_join:
  "reference_show r = or_ld r @ ''/'' @ or_ln r @ prepend_all (CHR ''.'') (or_path r) @ fc_suffix (or_fc r)"
  by (simp add: reference_show_def fold_join fc_suffix_def)

lemma reference_key_join:
  "reference_key r = or_ld r @ ''/'' @ or_ln r @ prepend_all (CHR ''.'') (or_path r)"
  by (simp add: reference_key_def fold_join)

lemma split_fc_some:
  "split_fc (body @ ''['' @ fc_as_str fc @ '']'') = Inr (body, Some fc)"
proof -
  let ?s = "body @ ''['' @ fc_as_str fc @ '']''"
  have no: "CHR ''['' \<notin> set (fc_as_str fc @ '']'')"
    using fc_as_str_visible [of fc] by (auto simp: list_all_iff)
  have "rfind (CHR ''['') ?s = Some (length body)"
    using rfind_append [OF no, of body] by simp
  moreover have "ends_with '']'' ?s" by (simp add: ends_with_def)
  ultimately show ?thesis by (simp add: split_fc_def)
qed

lemma split_fc_none: "CHR ''['' \<notin> set s \<Longrightarrow> split_fc s = Inr (s, None)"
  by (simp add: split_fc_def rfind_None [THEN iffD2] split: bool.splits)

lemma split_fc_inverse:
  assumes "split_fc s = Inr (body, fc)"
  shows "s = body @ fc_suffix fc"
proof (cases "ends_with '']'' s \<and> rfind (CHR ''['') s \<noteq> None")
  case False
  then show ?thesis
    using assms by (auto simp: split_fc_def fc_suffix_def split: bool.splits option.splits)
next
  case True
  then obtain i where i: "rfind (CHR ''['') s = Some i" and e: "ends_with '']'' s" by auto
  have il: "i < length s" "s ! i = CHR ''[''" using rfind_Some [OF i] by simp_all
  have l: "s \<noteq> []" "last s = CHR '']''"
    using e by (auto simp: ends_with_def last_drop dest: arg_cong [of _ _ last] split: if_splits)
  obtain f where f: "fc_from_str (take (length s - 1 - (i + 1)) (drop (i + 1) s)) = Inr f"
    and r: "body = take i s" "fc = Some f"
    using assms i e by (auto simp: split_fc_def split: sum.splits)
  have ne: "i < length s - 1"
  proof -
    have "i \<noteq> length s - 1" using il l by (auto simp: last_conv_nth)
    then show ?thesis using il by simp
  qed
  have "s = take i s @ s ! i # drop (Suc i) s" by (rule id_take_nth_drop [OF il(1)])
  also have "drop (Suc i) s = take (length s - 1 - (i + 1)) (drop (i + 1) s) @ [last s]"
  proof -
    have "drop (Suc i) s \<noteq> []" using ne by simp
    then have "drop (Suc i) s = butlast (drop (Suc i) s) @ [last s]"
      using ne by (metis append_butlast_last_id drop_eq_Nil last_drop not_less)
    then show ?thesis by (simp add: butlast_conv_take)
  qed
  finally show ?thesis
    using fc_as_from_str [OF f] il(2) l(2) by (simp add: r fc_suffix_def)
qed

text \<open>Names as the standard forms them: visible characters, none of them a separator.\<close>

definition name_ok :: "string \<Rightarrow> bool" where
  "name_ok s \<longleftrightarrow> s \<noteq> [] \<and> list_all (\<lambda>c. visible c \<and> c \<notin> set ''/.[]$'') s"

definition reference_ok :: "object_reference \<Rightarrow> bool" where
  "reference_ok r \<longleftrightarrow> name_ok (or_ld r) \<and> name_ok (or_ln r) \<and> list_all name_ok (or_path r)"

lemma name_ok_no_sep: "name_ok s \<Longrightarrow> c \<in> set ''/.[]$'' \<Longrightarrow> c \<notin> set s"
  by (auto simp: name_ok_def list_all_iff)

lemma name_ok_ends: "name_ok s \<Longrightarrow> s \<noteq> [] \<and> visible (hd s) \<and> visible (last s)"
  by (auto simp: name_ok_def list_all_iff)

lemma last_prepend_all: "list_all name_ok ps \<Longrightarrow> ps \<noteq> [] \<Longrightarrow>
    prepend_all c ps \<noteq> [] \<and> last (prepend_all c ps) = last (last ps)"
  by (induction ps) (auto simp: prepend_all_def name_ok_def)

lemma body_last:
  assumes "reference_ok r"
  shows "visible (last (or_ln r @ prepend_all (CHR ''.'') (or_path r)))"
proof (cases "or_path r = []")
  case True
  then show ?thesis using assms name_ok_ends [of "or_ln r"] by (simp add: prepend_all_def reference_ok_def)
next
  case False
  then have "name_ok (last (or_path r))" using assms by (auto simp: reference_ok_def list_all_iff)
  then show ?thesis
    using last_prepend_all [OF _ False, of "CHR ''.''"] assms name_ok_ends
    by (auto simp: reference_ok_def last_append)
qed

lemma trim_show:
  assumes "reference_ok r"
  shows "trim (reference_show r) = reference_show r"
proof (rule trim_visible)
  have ld: "or_ld r \<noteq> []" "visible (hd (or_ld r))"
    using assms name_ok_ends [of "or_ld r"] by (simp_all add: reference_ok_def)
  have "or_ln r @ prepend_all (CHR ''.'') (or_path r) \<noteq> []"
    using assms name_ok_ends [of "or_ln r"] by (simp add: reference_ok_def)
  then have "visible (last (reference_show r))"
    using body_last [OF assms]
    by (cases "or_fc r") (auto simp: reference_show_join fc_suffix_def visible_def last_append)
  then show "reference_show r = [] \<or> visible (hd (reference_show r)) \<and> visible (last (reference_show r))"
    using ld by (simp add: reference_show_join)
qed

lemma split_fc_show:
  assumes "reference_ok r"
  shows "split_fc (reference_show r) =
    Inr (or_ld r @ ''/'' @ or_ln r @ prepend_all (CHR ''.'') (or_path r), or_fc r)"
proof (cases "or_fc r")
  case None
  have "CHR ''['' \<notin> set (or_ld r @ ''/'' @ or_ln r @ prepend_all (CHR ''.'') (or_path r))"
    using assms name_ok_no_sep [where c = "CHR ''[''"]
    by (auto simp: reference_ok_def prepend_all_def list_all_iff)
  then show ?thesis
    using split_fc_none by (simp add: reference_show_join None fc_suffix_def)
next
  case (Some fc)
  then show ?thesis
    using split_fc_some [of "or_ld r @ ''/'' @ or_ln r @ prepend_all (CHR ''.'') (or_path r)" fc]
    by (simp add: reference_show_join fc_suffix_def)
qed

lemma parse_show:
  assumes "reference_ok r"
  shows "reference_from_str (reference_show r) = Inr r"
proof -
  let ?rest = "or_ln r @ prepend_all (CHR ''.'') (or_path r)"
  have n: "name_ok (or_ld r)" "name_ok (or_ln r)" "\<forall>p \<in> set (or_path r). name_ok p"
    using assms by (simp_all add: reference_ok_def list_all_iff)
  have "split_once (CHR ''/'') (or_ld r @ CHR ''/'' # ?rest) = Some (or_ld r, ?rest)"
    by (rule split_once_append) (use n(1) name_ok_no_sep in auto)
  moreover have "split_on (CHR ''.'') ?rest = or_ln r # or_path r"
    by (rule split_on_prepend) (use n name_ok_no_sep in auto)
  ultimately show ?thesis
    using split_fc_show [OF assms] n name_ok_ends [of "or_ld r"] name_ok_ends [of "or_ln r"]
    by (simp add: reference_from_str_def trim_show [OF assms] Let_def)
      (simp add: reference_show_join)
qed

section \<open>Properties\<close>

text \<open>C35: A reference of well-formed names, with or without a functional constraint, is parsed back
  from its printed form.\<close>

theorem reference_print_parse:
  assumes "reference_ok r"
  shows "reference_from_str (reference_show r) = Inr r"
  by (rule parse_show [OF assms])

theorem reference_print_parse_witness:
  "reference_from_str ''LD0/MMXU1.A.phsA[MX]'' =
     Inr \<lparr>or_ld = ''LD0'', or_ln = ''MMXU1'', or_path = [''A'', ''phsA''], or_fc = Some FC_MX\<rparr>"
  using reference_print_parse [of "\<lparr>or_ld = ''LD0'', or_ln = ''MMXU1'', or_path = [''A'', ''phsA''], or_fc = Some FC_MX\<rparr>"]
  by (simp add: reference_ok_def name_ok_def visible_def reference_show_def)

text \<open>Whatever text parses as a reference is, but for surrounding white space, the printed form
  of the result, so two texts give the same reference only when they are the same text.\<close>

theorem reference_parse_print:
  assumes "reference_from_str s = Inr r"
  shows "reference_show r = trim s \<and> or_ld r \<noteq> [] \<and> or_ln r \<noteq> [] \<and> reference_key r @ fc_suffix (or_fc r) = trim s"
proof -
  from assms obtain body fc ld rest ln path where
    b: "split_fc (trim s) = Inr (body, fc)" "split_once (CHR ''/'') body = Some (ld, rest)"
      "split_on (CHR ''.'') rest = ln # path" "ld \<noteq> []" "ln \<noteq> []" and
    r: "r = \<lparr>or_ld = ld, or_ln = ln, or_path = path, or_fc = fc\<rparr>"
    by (auto simp: reference_from_str_def bindE_Inr_iff Let_def split: if_splits list.splits)
  then show ?thesis
    using split_fc_inverse [OF b(1)] split_once_Some [OF b(2)] split_on_join [OF b(3)]
    by (simp add: reference_show_join reference_key_join)
qed

end
