(* ===== verification/ModelTypes.thy ===== *)
theory ModelTypes imports Prelude begin

text \<open>
  The leaf vocabulary of the data model: \<open>crates/iec61850-model/src/basic_type.rs\<close>, \<open>cdc.rs\<close>,
  \<open>value.rs\<close> and \<open>quality.rs\<close>. Parsers of names never fail and keep an unknown name; \<open>Quality\<close> and
  \<open>Timestamp\<close> decompose the octets of the attributes \<open>q\<close> and \<open>t\<close>. The lemmas show that canonical
  names are stable, that embedded lengths are read, and what the decompositions keep. Parsing and
  printing of floating-point text (\<open>Value::as_f64\<close>, \<open>epoch_seconds\<close>) is not modelled.
\<close>

unbundle bit_operations_syntax

section \<open>Integers in decimal\<close>

text \<open>\<open>str::parse\<close> of an integer type: digits after an optional sign, within the range of the type.\<close>

definition is_digit :: "char \<Rightarrow> bool" where
  "is_digit c \<longleftrightarrow> 48 \<le> (of_char c :: nat) \<and> (of_char c :: nat) \<le> 57"

definition parse_nat :: "string \<Rightarrow> nat option" where
  "parse_nat s = (if s = [] \<or> \<not> list_all is_digit s then None
     else Some (foldl (\<lambda>a c. a * 10 + (of_char c - 48)) 0 s))"

definition parse_u32 :: "string \<Rightarrow> u32 option" where
  "parse_u32 s =
    (case parse_nat (if starts_with ''+'' s then drop 1 s else s) of
       Some n \<Rightarrow> if n < 2 ^ 32 then Some (word_of_nat n) else None
     | None \<Rightarrow> None)"

definition parse_i64 :: "string \<Rightarrow> int option" where
  "parse_i64 s =
    (if starts_with ''-'' s then
       (case parse_nat (drop 1 s) of
          Some n \<Rightarrow> if n \<le> 2 ^ 63 then Some (- int n) else None
        | None \<Rightarrow> None)
     else
       (case parse_nat (if starts_with ''+'' s then drop 1 s else s) of
          Some n \<Rightarrow> if n < 2 ^ 63 then Some (int n) else None
        | None \<Rightarrow> None))"

section \<open>Basic types\<close>

datatype basic_type =
    BtBoolean | BtInt8 | BtInt16 | BtInt32 | BtInt64 | BtInt8u | BtInt16u | BtInt32u
  | BtFloat32 | BtFloat64 | BtEnum | BtDbpos | BtTcmd | BtQuality | BtTimestamp
  | BtVisString "u32 option"
  | BtUnicode "u32 option"
  | BtOctetString "u32 option"
  | BtObjRef | BtCurrency | BtEntryTime | BtCheck | BtStruct
  | BtOther string

definition bt_is_struct :: "basic_type \<Rightarrow> bool" where
  "bt_is_struct b \<longleftrightarrow> b = BtStruct"

definition btype_arms :: "(string \<times> basic_type) list" where
  "btype_arms =
    [(''BOOLEAN'', BtBoolean), (''INT8'', BtInt8), (''INT16'', BtInt16), (''INT32'', BtInt32),
     (''INT64'', BtInt64), (''INT8U'', BtInt8u), (''INT16U'', BtInt16u), (''INT32U'', BtInt32u),
     (''FLOAT32'', BtFloat32), (''FLOAT64'', BtFloat64), (''Enum'', BtEnum), (''Dbpos'', BtDbpos),
     (''Tcmd'', BtTcmd), (''Quality'', BtQuality), (''Timestamp'', BtTimestamp),
     (''ObjRef'', BtObjRef), (''Currency'', BtCurrency), (''EntryTime'', BtEntryTime),
     (''Check'', BtCheck), (''Struct'', BtStruct)]"

definition strip_prefix :: "string \<Rightarrow> string \<Rightarrow> string option" where
  "strip_prefix p s = (if starts_with p s then Some (drop (length p) s) else None)"

definition from_btype :: "string \<Rightarrow> basic_type" where
  "from_btype s =
    (case map_of btype_arms s of
       Some b \<Rightarrow> b
     | None \<Rightarrow>
       (case strip_prefix ''VisString'' s of
          Some len \<Rightarrow> BtVisString (parse_u32 len)
        | None \<Rightarrow>
          (case strip_prefix ''Unicode'' s of
             Some len \<Rightarrow> BtUnicode (parse_u32 len)
           | None \<Rightarrow>
             (case strip_prefix ''Octet'' s of
                Some len \<Rightarrow> BtOctetString (parse_u32 (filter is_digit len))
              | None \<Rightarrow> BtOther s))))"

fun bt_as_str :: "basic_type \<Rightarrow> string" where
  "bt_as_str BtBoolean = ''BOOLEAN''"
| "bt_as_str BtInt8 = ''INT8''"
| "bt_as_str BtInt16 = ''INT16''"
| "bt_as_str BtInt32 = ''INT32''"
| "bt_as_str BtInt64 = ''INT64''"
| "bt_as_str BtInt8u = ''INT8U''"
| "bt_as_str BtInt16u = ''INT16U''"
| "bt_as_str BtInt32u = ''INT32U''"
| "bt_as_str BtFloat32 = ''FLOAT32''"
| "bt_as_str BtFloat64 = ''FLOAT64''"
| "bt_as_str BtEnum = ''Enum''"
| "bt_as_str BtDbpos = ''Dbpos''"
| "bt_as_str BtTcmd = ''Tcmd''"
| "bt_as_str BtQuality = ''Quality''"
| "bt_as_str BtTimestamp = ''Timestamp''"
| "bt_as_str (BtVisString _) = ''VisString''"
| "bt_as_str (BtUnicode _) = ''Unicode''"
| "bt_as_str (BtOctetString _) = ''OctetString''"
| "bt_as_str BtObjRef = ''ObjRef''"
| "bt_as_str BtCurrency = ''Currency''"
| "bt_as_str BtEntryTime = ''EntryTime''"
| "bt_as_str BtCheck = ''Check''"
| "bt_as_str BtStruct = ''Struct''"
| "bt_as_str (BtOther s) = s"

section \<open>Common data classes\<close>

datatype common_data_class =
    CDC_SPS | CDC_DPS | CDC_INS | CDC_ENS | CDC_ACT | CDC_ACD | CDC_SEC | CDC_BCR | CDC_HST
  | CDC_VSS | CDC_MV | CDC_CMV | CDC_SAV | CDC_WYE | CDC_DEL | CDC_SEQ | CDC_HMV | CDC_HWYE
  | CDC_HDEL | CDC_SPC | CDC_DPC | CDC_INC | CDC_ENC | CDC_BSC | CDC_ISC | CDC_APC | CDC_BAC
  | CDC_SPG | CDC_ING | CDC_ENG | CDC_ASG | CDC_CURVE | CDC_CSG | CDC_DPL | CDC_LPL | CDC_CSD
  | CDC_Unknown string

definition cdc_arms :: "(string \<times> common_data_class) list" where
  "cdc_arms =
    [(''SPS'', CDC_SPS), (''DPS'', CDC_DPS), (''INS'', CDC_INS), (''ENS'', CDC_ENS),
     (''ACT'', CDC_ACT), (''ACD'', CDC_ACD), (''SEC'', CDC_SEC), (''BCR'', CDC_BCR),
     (''HST'', CDC_HST), (''VSS'', CDC_VSS), (''MV'', CDC_MV), (''CMV'', CDC_CMV),
     (''SAV'', CDC_SAV), (''WYE'', CDC_WYE), (''DEL'', CDC_DEL), (''SEQ'', CDC_SEQ),
     (''HMV'', CDC_HMV), (''HWYE'', CDC_HWYE), (''HDEL'', CDC_HDEL), (''SPC'', CDC_SPC),
     (''DPC'', CDC_DPC), (''INC'', CDC_INC), (''ENC'', CDC_ENC), (''BSC'', CDC_BSC),
     (''ISC'', CDC_ISC), (''APC'', CDC_APC), (''BAC'', CDC_BAC), (''SPG'', CDC_SPG),
     (''ING'', CDC_ING), (''ENG'', CDC_ENG), (''ASG'', CDC_ASG), (''CURVE'', CDC_CURVE),
     (''CSG'', CDC_CSG), (''DPL'', CDC_DPL), (''LPL'', CDC_LPL), (''CSD'', CDC_CSD)]"

definition from_cdc :: "string \<Rightarrow> common_data_class" where
  "from_cdc s = (case map_of cdc_arms s of Some c \<Rightarrow> c | None \<Rightarrow> CDC_Unknown s)"

fun cdc_as_str :: "common_data_class \<Rightarrow> string" where
  "cdc_as_str CDC_SPS = ''SPS''" | "cdc_as_str CDC_DPS = ''DPS''"
| "cdc_as_str CDC_INS = ''INS''" | "cdc_as_str CDC_ENS = ''ENS''"
| "cdc_as_str CDC_ACT = ''ACT''" | "cdc_as_str CDC_ACD = ''ACD''"
| "cdc_as_str CDC_SEC = ''SEC''" | "cdc_as_str CDC_BCR = ''BCR''"
| "cdc_as_str CDC_HST = ''HST''" | "cdc_as_str CDC_VSS = ''VSS''"
| "cdc_as_str CDC_MV = ''MV''" | "cdc_as_str CDC_CMV = ''CMV''"
| "cdc_as_str CDC_SAV = ''SAV''" | "cdc_as_str CDC_WYE = ''WYE''"
| "cdc_as_str CDC_DEL = ''DEL''" | "cdc_as_str CDC_SEQ = ''SEQ''"
| "cdc_as_str CDC_HMV = ''HMV''" | "cdc_as_str CDC_HWYE = ''HWYE''"
| "cdc_as_str CDC_HDEL = ''HDEL''" | "cdc_as_str CDC_SPC = ''SPC''"
| "cdc_as_str CDC_DPC = ''DPC''" | "cdc_as_str CDC_INC = ''INC''"
| "cdc_as_str CDC_ENC = ''ENC''" | "cdc_as_str CDC_BSC = ''BSC''"
| "cdc_as_str CDC_ISC = ''ISC''" | "cdc_as_str CDC_APC = ''APC''"
| "cdc_as_str CDC_BAC = ''BAC''" | "cdc_as_str CDC_SPG = ''SPG''"
| "cdc_as_str CDC_ING = ''ING''" | "cdc_as_str CDC_ENG = ''ENG''"
| "cdc_as_str CDC_ASG = ''ASG''" | "cdc_as_str CDC_CURVE = ''CURVE''"
| "cdc_as_str CDC_CSG = ''CSG''" | "cdc_as_str CDC_DPL = ''DPL''"
| "cdc_as_str CDC_LPL = ''LPL''" | "cdc_as_str CDC_CSD = ''CSD''"
| "cdc_as_str (CDC_Unknown s) = s"

definition cdc_is_unknown :: "common_data_class \<Rightarrow> bool" where
  "cdc_is_unknown c \<longleftrightarrow> (case c of CDC_Unknown _ \<Rightarrow> True | _ \<Rightarrow> False)"

section \<open>Configured values\<close>

record cfg_value =
  v_raw :: string
  v_setting_group :: "u32 option"

definition value_new :: "string \<Rightarrow> cfg_value" where
  "value_new raw = \<lparr>v_raw = raw, v_setting_group = None\<rparr>"

definition value_with_group :: "string \<Rightarrow> u32 \<Rightarrow> cfg_value" where
  "value_with_group raw g = \<lparr>v_raw = raw, v_setting_group = Some g\<rparr>"

definition value_as_bool :: "cfg_value \<Rightarrow> bool option" where
  "value_as_bool v =
    (let s = trim (v_raw v)
     in if s \<in> {''true'', ''True'', ''1''} then Some True
        else if s \<in> {''false'', ''False'', ''0''} then Some False
        else None)"

definition value_as_i64 :: "cfg_value \<Rightarrow> int option" where
  "value_as_i64 v = parse_i64 (trim (v_raw v))"

section \<open>Quality\<close>

datatype validity = VGood | VInvalid | VReserved | VQuestionable

fun validity_from_bits :: "bool \<Rightarrow> bool \<Rightarrow> validity" where
  "validity_from_bits b0 b1 =
    (case (b1, b0) of
       (False, False) \<Rightarrow> VGood
     | (False, True) \<Rightarrow> VInvalid
     | (True, False) \<Rightarrow> VReserved
     | (True, True) \<Rightarrow> VQuestionable)"

fun validity_show :: "validity \<Rightarrow> string" where
  "validity_show VGood = ''good''"
| "validity_show VInvalid = ''invalid''"
| "validity_show VReserved = ''reserved''"
| "validity_show VQuestionable = ''questionable''"

datatype q_source = SrcProcess | SrcSubstituted

record quality =
  q_validity :: validity
  q_overflow :: bool
  q_out_of_range :: bool
  q_bad_reference :: bool
  q_oscillatory :: bool
  q_failure :: bool
  q_old_data :: bool
  q_inconsistent :: bool
  q_inaccurate :: bool
  q_src :: q_source
  q_test :: bool
  q_operator_blocked :: bool

definition quality_from_bits :: "bool list \<Rightarrow> quality" where
  "quality_from_bits bits =
    (let b = (\<lambda>i. case get_at bits i of Some x \<Rightarrow> x | None \<Rightarrow> False)
     in \<lparr>q_validity = validity_from_bits (b 0) (b 1), q_overflow = b 2, q_out_of_range = b 3,
         q_bad_reference = b 4, q_oscillatory = b 5, q_failure = b 6, q_old_data = b 7,
         q_inconsistent = b 8, q_inaccurate = b 9,
         q_src = (if b 10 then SrcSubstituted else SrcProcess), q_test = b 11,
         q_operator_blocked = b 12\<rparr>)"

text \<open>\<open>(byte >> (7 - i % 8)) & 1 == 1\<close>.\<close>

definition quality_from_be_bytes :: "bytes \<Rightarrow> quality" where
  "quality_from_be_bytes bs =
    quality_from_bits (map (\<lambda>i. drop_bit (7 - i mod 8) (bs ! (i div 8)) AND 1 = 1) [0..<16])"

definition quality_is_good :: "quality \<Rightarrow> bool" where
  "quality_is_good q \<longleftrightarrow> q_validity q = VGood \<and> \<not> q_overflow q \<and> \<not> q_out_of_range q \<and>
     \<not> q_bad_reference q \<and> \<not> q_oscillatory q \<and> \<not> q_failure q \<and> \<not> q_old_data q \<and>
     \<not> q_inconsistent q \<and> \<not> q_inaccurate q"

definition quality_show :: "quality \<Rightarrow> string" where
  "quality_show q = validity_show (q_validity q) @
    concat (map (\<lambda>(on, name). if on then ''+'' @ name else [])
      [(q_overflow q, ''overflow''), (q_out_of_range q, ''outOfRange''),
       (q_bad_reference q, ''badReference''), (q_oscillatory q, ''oscillatory''),
       (q_failure q, ''failure''), (q_old_data q, ''oldData''),
       (q_inconsistent q, ''inconsistent''), (q_inaccurate q, ''inaccurate''),
       (q_src q = SrcSubstituted, ''substituted''), (q_test q, ''test''),
       (q_operator_blocked q, ''operatorBlocked'')])"

section \<open>Time\<close>

record time_quality =
  leap_seconds_known :: bool
  clock_failure :: bool
  clock_not_synchronized :: bool
  fraction_bits :: u8

definition time_quality_from_byte :: "u8 \<Rightarrow> time_quality" where
  "time_quality_from_byte b =
    \<lparr>leap_seconds_known = (b AND 0x80 \<noteq> 0), clock_failure = (b AND 0x40 \<noteq> 0),
     clock_not_synchronized = (b AND 0x20 \<noteq> 0), fraction_bits = b AND 0x1F\<rparr>"

record timestamp =
  ts_seconds :: u32
  ts_fraction :: u32
  ts_quality :: time_quality

text \<open>The argument has eight octets.\<close>

definition timestamp_from_bytes :: "bytes \<Rightarrow> timestamp" where
  "timestamp_from_bytes b =
    \<lparr>ts_seconds = from_be [b ! 0, b ! 1, b ! 2, b ! 3],
     ts_fraction = from_be [0, b ! 4, b ! 5, b ! 6],
     ts_quality = time_quality_from_byte (b ! 7)\<rparr>"

text \<open>The product is in 64 bits, the result is cut to 32.\<close>

definition timestamp_nanos :: "timestamp \<Rightarrow> u32" where
  "timestamp_nanos t =
    (let p = (ucast (ts_fraction t) :: u64) * 1000000000
     in ucast (p div word_of_nat (2 ^ 24)))"

section \<open>Facts\<close>

lemma starts_with_append [simp]: "starts_with p (p @ s)"
  by (simp add: starts_with_def)

lemma strip_prefix_append [simp]: "strip_prefix p (p @ s) = Some s"
  by (simp add: strip_prefix_def)

lemma strip_prefix_Some: "strip_prefix p s = Some r \<Longrightarrow> s = p @ r"
  by (auto simp: strip_prefix_def starts_with_def split: if_splits) (metis append_take_drop_id)

lemma strip_prefix_mismatch: "\<not> starts_with p s \<Longrightarrow> strip_prefix p s = None"
  by (simp add: strip_prefix_def)

lemma show_nat_digits: "show_nat n \<noteq> [] \<and> list_all is_digit (show_nat n)"
proof (induction n rule: show_nat.induct)
  case (1 n)
  have d: "is_digit (char_of (48 + k))" if "k < 10" for k :: nat
    using that by (simp add: is_digit_def)
  show ?case
  proof (cases "n < 10")
    case True
    then show ?thesis using d [of n] by (simp add: show_nat.simps [of n])
  next
    case False
    then show ?thesis using 1 d [of "n mod 10"] by (simp add: show_nat.simps [of n])
  qed
qed

lemma parse_show_nat: "parse_nat (show_nat n) = Some n"
proof -
  have "foldl (\<lambda>a c. a * 10 + (of_char c - 48)) 0 (show_nat n) = n"
  proof (induction n rule: show_nat.induct)
    case (1 n)
    have d: "(of_char (char_of (48 + k) :: char) :: nat) = 48 + k" if "k < 10" for k
      using that by simp
    show ?case
    proof (cases "n < 10")
      case True
      then show ?thesis using d [of n] by (simp add: show_nat.simps [of n])
    next
      case False
      then show ?thesis using 1 d [of "n mod 10"] by (simp add: show_nat.simps [of n])
    qed
  qed
  then show ?thesis using show_nat_digits [of n] by (simp add: parse_nat_def)
qed

lemma digits_no_sign: "list_all is_digit s \<Longrightarrow> s \<noteq> [] \<Longrightarrow> \<not> starts_with ''+'' s \<and> \<not> starts_with ''-'' s"
  by (cases s) (auto simp: starts_with_def is_digit_def)

lemma show_nat_inj: "show_nat m = show_nat n \<longleftrightarrow> m = n"
  by (metis parse_show_nat option.inject)

lemma show_int_inj: "show_int i = show_int j \<longleftrightarrow> i = j"
proof -
  have "\<not> starts_with ''-'' (show_nat n)" for n using digits_no_sign show_nat_digits by blast
  then have "show_nat n \<noteq> CHR ''-'' # s" for n s by (metis append_Cons append_Nil starts_with_append)
  then show ?thesis by (auto simp: show_int_def show_nat_inj split: if_splits) metis+
qed

lemma parse_u32_show: "n < 2 ^ 32 \<Longrightarrow> parse_u32 (show_nat n) = Some (word_of_nat n)"
  using digits_no_sign show_nat_digits [of n] by (simp add: parse_u32_def parse_show_nat)

text \<open>A basic type without the length its name does not carry.\<close>

definition erase_len :: "basic_type \<Rightarrow> basic_type" where
  "erase_len b = (case b of BtVisString _ \<Rightarrow> BtVisString None | BtUnicode _ \<Rightarrow> BtUnicode None
     | BtOctetString _ \<Rightarrow> BtOctetString None | _ \<Rightarrow> b)"

lemma parse_u32_Nil [simp]: "parse_u32 [] = None"
  by (simp add: parse_u32_def parse_nat_def starts_with_def)

lemma from_btype_strings [simp]:
  "from_btype ''VisString'' = BtVisString None" "from_btype ''Unicode'' = BtUnicode None"
  "from_btype ''OctetString'' = BtOctetString None"
  by (simp_all add: from_btype_def btype_arms_def strip_prefix_def starts_with_def is_digit_def)

lemma btype_arms_as_str: "map_of btype_arms s = Some b \<Longrightarrow> bt_as_str b = s \<and> erase_len b = b"
proof -
  assume "map_of btype_arms s = Some b"
  moreover have "list_all (\<lambda>(s, b). bt_as_str b = s \<and> erase_len b = b) btype_arms"
    by (simp add: btype_arms_def erase_len_def)
  ultimately show ?thesis by (auto simp: list_all_iff dest: map_of_SomeD)
qed

lemma cdc_arms_as_str: "map_of cdc_arms s = Some c \<Longrightarrow> cdc_as_str c = s"
proof -
  assume "map_of cdc_arms s = Some c"
  moreover have "list_all (\<lambda>(s, c). cdc_as_str c = s) cdc_arms" by (simp add: cdc_arms_def)
  ultimately show ?thesis by (auto simp: list_all_iff dest: map_of_SomeD)
qed

lemma from_btype_cases:
  obtains b where "map_of btype_arms s = Some b" "from_btype s = b"
  | len where "s = ''VisString'' @ len" "from_btype s = BtVisString (parse_u32 len)"
  | len where "s = ''Unicode'' @ len" "from_btype s = BtUnicode (parse_u32 len)"
  | len where "s = ''Octet'' @ len" "from_btype s = BtOctetString (parse_u32 (filter is_digit len))"
  | "from_btype s = BtOther s"
proof (cases "map_of btype_arms s")
  case (Some b)
  then show thesis using that(1) by (simp add: from_btype_def)
next
  case n: None
  show thesis
  proof (cases "strip_prefix ''VisString'' s")
    case (Some len)
    show thesis by (rule that(2) [OF strip_prefix_Some [OF Some]]) (simp add: from_btype_def n Some)
  next
    case v: None
    show thesis
    proof (cases "strip_prefix ''Unicode'' s")
      case (Some len)
      show thesis by (rule that(3) [OF strip_prefix_Some [OF Some]]) (simp add: from_btype_def n v Some)
    next
      case u: None
      show thesis
      proof (cases "strip_prefix ''Octet'' s")
        case (Some len)
        show thesis by (rule that(4) [OF strip_prefix_Some [OF Some]]) (simp add: from_btype_def n v u Some)
      qed (rule that(5), simp add: from_btype_def n v u)
    qed
  qed
qed

lemma btype_arms_no_length:
  "map_of btype_arms (''VisString'' @ len) = None" "map_of btype_arms (''Unicode'' @ len) = None"
  "map_of btype_arms (''Octet'' @ len) = None"
  by (simp_all add: btype_arms_def)

lemma bit_as_drop: "(drop_bit n (w :: u8) AND 1 = 1) \<longleftrightarrow> bit w n"
  by (auto simp: and_one_eq mod_2_eq_odd bit_iff_odd_drop_bit [symmetric])

lemma upt_16: "[0..<16] = [0, 1, 2, 3, 4, 5, 6, 7, 8, 9, 10, 11, 12, 13, 14, 15]"
  by (simp add: upt_rec)

lemma u8_bits_eq: "(a :: u8) = b \<longleftrightarrow> (\<forall>i < 8. bit a i = bit b i)"
  by (auto simp: bit_eq_iff dest: bit_imp_le_length)

lemma all_less_8: "(\<forall>i < 8. P i) \<longleftrightarrow> P 0 \<and> P 1 \<and> P 2 \<and> P 3 \<and> P 4 \<and> P 5 \<and> P 6 \<and> P (7 :: nat)"
  by (auto simp: All_less_Suc eval_nat_numeral)

lemma quality_from_two_bytes:
  "quality_from_be_bytes [a, b] =
    \<lparr>q_validity = validity_from_bits (bit a 7) (bit a 6), q_overflow = bit a 5, q_out_of_range = bit a 4,
     q_bad_reference = bit a 3, q_oscillatory = bit a 2, q_failure = bit a 1, q_old_data = bit a 0,
     q_inconsistent = bit b 7, q_inaccurate = bit b 6,
     q_src = (if bit b 5 then SrcSubstituted else SrcProcess), q_test = bit b 4,
     q_operator_blocked = bit b 3\<rparr>"
  by (simp add: quality_from_be_bytes_def quality_from_bits_def bit_as_drop upt_16 get_at_def Let_def
      del: validity_from_bits.simps)

lemma validity_inj: "validity_from_bits a b = validity_from_bits c d \<longleftrightarrow> a = c \<and> b = d"
  by (cases a; cases b; cases c; cases d) simp_all

section \<open>Properties\<close>

text \<open>Names read from a file are kept: printing a parsed common data class gives back the text, a
  basic type loses at most an embedded length and its name parses to the same type, and the length
  of \<open>VisString\<close>, \<open>Unicode\<close> and \<open>Octet\<close> names is read as the number it spells.\<close>

theorem type_names_stable:
  "cdc_as_str (from_cdc s) = s \<and>
   from_btype (bt_as_str (from_btype s)) = erase_len (from_btype s) \<and>
   (n < 2 ^ 32 \<longrightarrow>
     from_btype (''VisString'' @ show_nat n) = BtVisString (Some (word_of_nat n)) \<and>
     from_btype (''Unicode'' @ show_nat n) = BtUnicode (Some (word_of_nat n)) \<and>
     from_btype (''Octet'' @ show_nat n) = BtOctetString (Some (word_of_nat n)))"
proof (intro conjI impI)
  show "cdc_as_str (from_cdc s) = s"
    using cdc_arms_as_str [of s] by (cases "map_of cdc_arms s") (simp_all add: from_cdc_def)
  show "from_btype (bt_as_str (from_btype s)) = erase_len (from_btype s)"
  proof (cases rule: from_btype_cases [of s])
    case (1 b)
    then show ?thesis using btype_arms_as_str [OF 1(1)] by simp
  next
    case 5
    then show ?thesis by (simp add: erase_len_def)
  qed (simp_all add: erase_len_def)
  assume n: "n < 2 ^ 32"
  have f: "filter is_digit (show_nat n) = show_nat n"
    using show_nat_digits [of n] by (simp add: list_all_iff)
  show "from_btype (''VisString'' @ show_nat n) = BtVisString (Some (word_of_nat n))"
    unfolding from_btype_def btype_arms_no_length using parse_u32_show [OF n]
    by (simp only: option.case strip_prefix_append)
  have "strip_prefix ''VisString'' (''Unicode'' @ x) = None" for x
    by (simp add: strip_prefix_def starts_with_def)
  then show "from_btype (''Unicode'' @ show_nat n) = BtUnicode (Some (word_of_nat n))"
    unfolding from_btype_def btype_arms_no_length using parse_u32_show [OF n]
    by (simp only: option.case strip_prefix_append)
  have "strip_prefix ''VisString'' (''Octet'' @ x) = None" "strip_prefix ''Unicode'' (''Octet'' @ x) = None" for x
    by (simp_all add: strip_prefix_def starts_with_def)
  then show "from_btype (''Octet'' @ show_nat n) = BtOctetString (Some (word_of_nat n))"
    unfolding from_btype_def btype_arms_no_length using parse_u32_show [OF n]
    by (simp only: option.case strip_prefix_append f)
qed

text \<open>Two pairs of octets decompose into the same quality exactly when their first 13 bits agree,
  and a quality is good exactly when the first ten are zero (source, test and operator-blocked do
  not matter).\<close>

theorem quality_decomposition:
  "(quality_from_be_bytes [a, b] = quality_from_be_bytes [c, d]) = (a = c \<and> drop_bit 3 b = drop_bit 3 d) \<and>
   quality_is_good (quality_from_be_bytes [a, b]) = (a = 0 \<and> drop_bit 6 b = 0)"
proof
  have src: "(if x then SrcSubstituted else SrcProcess) = (if y then SrcSubstituted else SrcProcess) \<longleftrightarrow> x = y" for x y
    by simp
  have d3: "drop_bit 3 b = drop_bit 3 d \<longleftrightarrow> bit b 3 = bit d 3 \<and> bit b 4 = bit d 4 \<and> bit b 5 = bit d 5 \<and>
      bit b 6 = bit d 6 \<and> bit b 7 = bit d 7"
    by (simp add: u8_bits_eq all_less_8 bit_simps) (auto dest: bit_imp_le_length)
  show "(quality_from_be_bytes [a, b] = quality_from_be_bytes [c, d]) = (a = c \<and> drop_bit 3 b = drop_bit 3 d)"
    unfolding quality_from_two_bytes d3 u8_bits_eq [of a c] all_less_8
      quality.ext_inject validity_inj src
    by (simp only: conj_ac simp_thms)
  have d6: "drop_bit 6 b = 0 \<longleftrightarrow> \<not> bit b 6 \<and> \<not> bit b 7"
    by (simp add: u8_bits_eq all_less_8 bit_simps) (auto dest: bit_imp_le_length)
  have "validity_from_bits x y = VGood \<longleftrightarrow> \<not> x \<and> \<not> y" for x y by (cases x; cases y) simp_all
  then show "quality_is_good (quality_from_be_bytes [a, b]) = (a = 0 \<and> drop_bit 6 b = 0)"
    unfolding quality_from_two_bytes d6 u8_bits_eq [of a 0] all_less_8 quality_is_good_def
    by (simp add: conj_ac)
qed

end
