(* ===== verification/ModelTree.thy ===== *)
theory ModelTree
  imports ModelReference ModelTypes "HOL-Library.List_Lexorder" "HOL-Library.Char_ord"
begin

text \<open>
  The instantiated data model: \<open>crates/iec61850-model/src/tree/\<close> and \<open>model.rs\<close>. A server holds
  logical devices, these hold logical nodes, these hold data objects with attributes, both of which
  nest. The \<open>BTreeMap\<close> of servers is an association list in the order of its keys. The lemmas relate
  the listing of all attributes to the resolution of references, in both directions.
\<close>

section \<open>The tree\<close>

record trigger_options =
  to_dchg :: bool
  to_qchg :: bool
  to_dupd :: bool

text \<open>An \<open>i64\<close> ordinal is an integer.\<close>

record enum_value =
  en_ord :: int
  en_literal :: string

datatype data_attribute =
  DataAttribute (da_name: string) (da_fc: functional_constraint) (da_basic_type: basic_type)
    (da_desc: "string option") (da_enum_type: "string option") (da_enum_values: "enum_value list")
    (da_trigger_options: trigger_options) (da_value: "cfg_value option")
    (da_children: "data_attribute list")

datatype data_object =
  DataObject (do_name: string) (do_cdc: common_data_class) (do_desc: "string option")
    (do_transient: bool) (do_attributes: "data_attribute list") (do_sub_objects: "data_object list")

record fcda =
  fcda_ld_inst :: string
  fcda_prefix :: string
  fcda_ln_class :: string
  fcda_ln_inst :: string
  fcda_do_name :: string
  fcda_da_name :: string
  fcda_fc :: "functional_constraint option"

record data_set =
  ds_name :: string
  ds_entries :: "fcda list"

record report_control =
  rc_name :: string
  rc_rpt_id :: "string option"
  rc_dataset :: "string option"
  rc_buffered :: bool
  rc_conf_rev :: "u32 option"
  rc_trigger_options :: trigger_options

record setting_group_control =
  sg_num_of_sgs :: u32
  sg_act_sg :: u32
  sg_resv_tms :: bool

record log_control_block =
  lc_name :: string
  lc_dataset :: "string option"
  lc_log_name :: "string option"
  lc_log_ena :: bool

record logical_node =
  ln_prefix :: string
  ln_class :: string
  ln_inst :: string
  ln_type :: string
  ln_desc :: "string option"
  ln_data_objects :: "data_object list"
  ln_data_sets :: "data_set list"
  ln_report_controls :: "report_control list"
  ln_setting_group_control :: "setting_group_control option"
  ln_log_controls :: "log_control_block list"

record logical_device =
  ld_inst :: string
  ld_name :: "string option"
  ld_logical_nodes :: "logical_node list"

record server =
  sv_logical_devices :: "logical_device list"

definition da_child :: "data_attribute \<Rightarrow> string \<Rightarrow> data_attribute option" where
  "da_child da name = find (\<lambda>c. da_name c = name) (da_children da)"

definition da_is_struct :: "data_attribute \<Rightarrow> bool" where
  "da_is_struct da \<longleftrightarrow> bt_is_struct (da_basic_type da) \<or> da_children da \<noteq> []"

definition enum_literal :: "data_attribute \<Rightarrow> int \<Rightarrow> string option" where
  "enum_literal da n = map_option en_literal (find (\<lambda>e. en_ord e = n) (da_enum_values da))"

definition enum_ordinal :: "data_attribute \<Rightarrow> string \<Rightarrow> int option" where
  "enum_ordinal da l = map_option en_ord (find (\<lambda>e. en_literal e = l) (da_enum_values da))"

definition do_attribute :: "data_object \<Rightarrow> string \<Rightarrow> data_attribute option" where
  "do_attribute d name = find (\<lambda>a. da_name a = name) (do_attributes d)"

definition do_sub_object :: "data_object \<Rightarrow> string \<Rightarrow> data_object option" where
  "do_sub_object d name = find (\<lambda>s. do_name s = name) (do_sub_objects d)"

definition ln_name :: "logical_node \<Rightarrow> string" where
  "ln_name ln = ln_prefix ln @ ln_class ln @ ln_inst ln"

definition ln_data_object :: "logical_node \<Rightarrow> string \<Rightarrow> data_object option" where
  "ln_data_object ln name = find (\<lambda>d. do_name d = name) (ln_data_objects ln)"

definition ln_data_set :: "logical_node \<Rightarrow> string \<Rightarrow> data_set option" where
  "ln_data_set ln name = find (\<lambda>d. ds_name d = name) (ln_data_sets ln)"

definition ld_logical_node :: "logical_device \<Rightarrow> string \<Rightarrow> logical_node option" where
  "ld_logical_node ld name = find (\<lambda>ln. ln_name ln = name) (ld_logical_nodes ld)"

definition server_logical_device :: "server \<Rightarrow> string \<Rightarrow> logical_device option" where
  "server_logical_device sv name =
    find (\<lambda>ld. ld_inst ld = name \<or> ld_name ld = Some name) (sv_logical_devices sv)"

section \<open>The model\<close>

record model =
  m_ieds :: "(string \<times> server) list"

definition model_new :: model where
  "model_new = \<lparr>m_ieds = []\<rparr>"

text \<open>\<open>BTreeMap::insert\<close>: in the order of the keys, replacing an equal one.\<close>

fun btree_insert :: "'k::linorder \<Rightarrow> 'v \<Rightarrow> ('k \<times> 'v) list \<Rightarrow> ('k \<times> 'v) list" where
  "btree_insert k v [] = [(k, v)]"
| "btree_insert k v ((k', v') # rest) =
    (if k < k' then (k, v) # (k', v') # rest
     else if k = k' then (k, v) # rest
     else (k', v') # btree_insert k v rest)"

definition insert_ied :: "string \<Rightarrow> server \<Rightarrow> model \<Rightarrow> model" where
  "insert_ied name sv m = m\<lparr>m_ieds := btree_insert name sv (m_ieds m)\<rparr>"

definition model_ied :: "model \<Rightarrow> string \<Rightarrow> server option" where
  "model_ied m name = map_of (m_ieds m) name"

datatype node_ref =
    NLogicalDevice logical_device
  | NLogicalNode logical_node
  | NDataObject data_object
  | NDataAttribute data_attribute

definition effective_ld_name :: "string \<Rightarrow> logical_device \<Rightarrow> string" where
  "effective_ld_name ied ld = (case ld_name ld of Some n \<Rightarrow> n | None \<Rightarrow> ied @ ld_inst ld)"

fun descend_data_attribute :: "data_attribute \<Rightarrow> string list \<Rightarrow> node_ref option" where
  "descend_data_attribute da [] = Some (NDataAttribute da)"
| "descend_data_attribute da (n # ns) =
    (case da_child da n of Some c \<Rightarrow> descend_data_attribute c ns | None \<Rightarrow> None)"

fun descend_data_object :: "data_object \<Rightarrow> string list \<Rightarrow> node_ref option" where
  "descend_data_object d [] = Some (NDataObject d)"
| "descend_data_object d (n # ns) =
    (case do_attribute d n of
       Some da \<Rightarrow> descend_data_attribute da ns
     | None \<Rightarrow> (case do_sub_object d n of
                  Some s \<Rightarrow> descend_data_object s ns
                | None \<Rightarrow> None))"

fun descend_logical_node :: "logical_node \<Rightarrow> string list \<Rightarrow> node_ref option" where
  "descend_logical_node ln [] = None"
| "descend_logical_node ln (n # ns) =
    (case ln_data_object ln n of Some d \<Rightarrow> descend_data_object d ns | None \<Rightarrow> None)"

text \<open>A loop whose body returns (\<open>Some\<close>) or continues (\<open>None\<close>).\<close>

fun first_return :: "('a \<Rightarrow> 'b option) \<Rightarrow> 'a list \<Rightarrow> 'b option" where
  "first_return f [] = None"
| "first_return f (x # xs) = (case f x of Some y \<Rightarrow> Some y | None \<Rightarrow> first_return f xs)"

definition resolve_ld :: "string \<Rightarrow> logical_device \<Rightarrow> object_reference \<Rightarrow> node_ref option option" where
  "resolve_ld ied ld r =
    (if effective_ld_name ied ld \<noteq> or_ld r then None
     else if or_ln r = [] then Some (Some (NLogicalDevice ld))
     else case ld_logical_node ld (or_ln r) of
       None \<Rightarrow> None
     | Some ln \<Rightarrow> if or_path r = [] then Some (Some (NLogicalNode ln))
                  else Some (descend_logical_node ln (or_path r)))"

definition resolve :: "model \<Rightarrow> object_reference \<Rightarrow> node_ref option" where
  "resolve m r =
    (case first_return (\<lambda>(ied, sv). first_return (\<lambda>ld. resolve_ld ied ld r) (sv_logical_devices sv))
            (m_ieds m) of
       Some x \<Rightarrow> x
     | None \<Rightarrow> None)"

definition model_find :: "model \<Rightarrow> string \<Rightarrow> node_ref option" where
  "model_find m s = (case reference_from_str s of Inr r \<Rightarrow> resolve m r | Inl _ \<Rightarrow> None)"

definition iter_logical_nodes :: "model \<Rightarrow> (object_reference \<times> logical_node) list" where
  "iter_logical_nodes m =
    concat (map (\<lambda>(ied, sv). concat (map (\<lambda>ld.
      map (\<lambda>ln. (reference_new (effective_ld_name ied ld) (ln_name ln) [], ln)) (ld_logical_nodes ld))
      (sv_logical_devices sv))) (m_ieds m))"

fun collect_attribute_recursive ::
    "string \<Rightarrow> string \<Rightarrow> string list \<Rightarrow> data_attribute \<Rightarrow> (object_reference \<times> data_attribute) list" where
  "collect_attribute_recursive ld ln path (DataAttribute n fc bt d et ev tr v ch) =
    (reference_new ld ln path\<lparr>or_fc := Some fc\<rparr>, DataAttribute n fc bt d et ev tr v ch) #
    concat (map (\<lambda>c. collect_attribute_recursive ld ln (path @ [da_name c]) c) ch)"

fun collect_data_attributes ::
    "string \<Rightarrow> string \<Rightarrow> string list \<Rightarrow> data_object \<Rightarrow> (object_reference \<times> data_attribute) list" where
  "collect_data_attributes ld ln path (DataObject n c d tr attrs subs) =
    concat (map (\<lambda>da. collect_attribute_recursive ld ln (path @ [da_name da]) da) attrs) @
    concat (map (\<lambda>sdo. collect_data_attributes ld ln (path @ [do_name sdo]) sdo) subs)"

definition iter_data_attributes :: "model \<Rightarrow> (object_reference \<times> data_attribute) list" where
  "iter_data_attributes m =
    concat (map (\<lambda>(ied, sv). concat (map (\<lambda>ld. concat (map (\<lambda>ln. concat (map
      (\<lambda>d. collect_data_attributes (effective_ld_name ied ld) (ln_name ln) [do_name d] d)
      (ln_data_objects ln))) (ld_logical_nodes ld))) (sv_logical_devices sv))) (m_ieds m))"

section \<open>Data sets\<close>

record dataset_member =
  dm_reference :: object_reference
  dm_fc :: functional_constraint
  dm_basic_type :: "basic_type option"

text \<open>One entry: the member, or nothing when no constraint is known for it.\<close>

definition resolve_entry :: "model \<Rightarrow> string \<Rightarrow> string \<Rightarrow> fcda \<Rightarrow> dataset_member option" where
  "resolve_entry m ied domain f =
    (let member_ld = (if fcda_ld_inst f = [] then domain else ied @ fcda_ld_inst f);
         ln = fcda_prefix f @ fcda_ln_class f @ fcda_ln_inst f;
         path = split_on (CHR ''.'') (fcda_do_name f) @ (if fcda_da_name f \<noteq> [] then [fcda_da_name f] else []);
         reference = reference_new member_ld ln path\<lparr>or_fc := fcda_fc f\<rparr>;
         bt = (case resolve m reference of Some (NDataAttribute da) \<Rightarrow> Some (da_basic_type da) | _ \<Rightarrow> None);
         resolved_fc = (case resolve m reference of Some (NDataAttribute da) \<Rightarrow> Some (da_fc da) | _ \<Rightarrow> None)
     in case (case resolved_fc of Some x \<Rightarrow> Some x | None \<Rightarrow> fcda_fc f) of
          None \<Rightarrow> None
        | Some fc \<Rightarrow> Some \<lparr>dm_reference = reference\<lparr>or_fc := Some fc\<rparr>, dm_fc = fc, dm_basic_type = bt\<rparr>)"

definition resolve_dataset :: "model \<Rightarrow> string \<Rightarrow> string \<Rightarrow> dataset_member list option" where
  "resolve_dataset m domain name =
    first_return (\<lambda>(ied, sv). first_return (\<lambda>ld.
      if effective_ld_name ied ld \<noteq> domain then None
      else first_return (\<lambda>ln.
        case ln_data_set ln name of
          None \<Rightarrow> None
        | Some ds \<Rightarrow> Some (List.map_filter (resolve_entry m ied domain) (ds_entries ds)))
        (ld_logical_nodes ld)) (sv_logical_devices sv)) (m_ieds m)"

section \<open>Facts\<close>

lemma first_return_Some:
  "first_return f xs = Some y \<Longrightarrow> \<exists>x \<in> set xs. f x = Some y"
  by (induction xs) (auto split: option.splits)

lemma first_return_unique:
  "x \<in> set xs \<Longrightarrow> f x = Some y \<Longrightarrow> (\<And>z. z \<in> set xs \<Longrightarrow> f z \<noteq> None \<Longrightarrow> f z = Some y) \<Longrightarrow>
    first_return f xs = Some y"
proof (induction xs)
  case (Cons w xs)
  show ?case
  proof (cases "f w")
    case None
    then have "x \<in> set xs" using Cons.prems(1,2) by auto
    then have "first_return f xs = Some y"
      by (rule Cons.IH [OF _ Cons.prems(2)]) (simp add: Cons.prems(3))
    then show ?thesis by (simp add: None)
  next
    case (Some v)
    then show ?thesis using Cons.prems(3) [of w] by simp
  qed
qed simp

lemma find_distinct:
  "distinct (map g xs) \<Longrightarrow> x \<in> set xs \<Longrightarrow> find (\<lambda>y. g y = g x) xs = Some x"
proof (induction xs)
  case (Cons y ys)
  then show ?case by (cases "y = x") (auto simp: rev_image_eqI)
qed simp

lemma find_None_name: "find (\<lambda>y. g y = n) xs = None \<longleftrightarrow> n \<notin> g ` set xs"
  by (auto simp: find_None_iff)

lemma find_Some_name: "find (\<lambda>y. g y = n) xs = Some x \<Longrightarrow> x \<in> set xs \<and> g x = n"
  by (auto simp: find_Some_iff)

text \<open>Sibling names are distinct; within an object, attributes and sub-objects share the names.\<close>

fun da_names_ok :: "data_attribute \<Rightarrow> bool" where
  "da_names_ok (DataAttribute n fc bt d et ev tr v ch) \<longleftrightarrow>
     distinct (map da_name ch) \<and> list_all da_names_ok ch"

fun do_names_ok :: "data_object \<Rightarrow> bool" where
  "do_names_ok (DataObject n c d tr attrs subs) \<longleftrightarrow>
     distinct (map da_name attrs @ map do_name subs) \<and> list_all da_names_ok attrs \<and>
     list_all do_names_ok subs"

definition ln_names_ok :: "logical_node \<Rightarrow> bool" where
  "ln_names_ok ln \<longleftrightarrow> ln_name ln \<noteq> [] \<and> distinct (map do_name (ln_data_objects ln)) \<and>
     list_all do_names_ok (ln_data_objects ln)"

definition model_lds :: "model \<Rightarrow> (string \<times> logical_device) list" where
  "model_lds m = concat (map (\<lambda>(ied, sv). map (\<lambda>ld. (ied, ld)) (sv_logical_devices sv)) (m_ieds m))"

definition model_names_ok :: "model \<Rightarrow> bool" where
  "model_names_ok m \<longleftrightarrow> distinct (map (\<lambda>(ied, ld). effective_ld_name ied ld) (model_lds m)) \<and>
     (\<forall>(ied, ld) \<in> set (model_lds m). distinct (map ln_name (ld_logical_nodes ld)) \<and>
        list_all ln_names_ok (ld_logical_nodes ld))"

lemma first_return_map: "first_return f (map g xs) = first_return (\<lambda>x. f (g x)) xs"
  by (induction xs) (auto split: option.splits)

lemma first_return_concat: "first_return f (concat xss) = first_return (first_return f) xss"
proof (induction xss)
  case (Cons xs xss)
  have "first_return f (xs @ ys) = (case first_return f xs of Some y \<Rightarrow> Some y | None \<Rightarrow> first_return f ys)" for ys
    by (induction xs) (auto split: option.splits)
  then show ?case using Cons by (auto split: option.splits)
qed simp

lemma resolve_flat:
  "resolve m r = (case first_return (\<lambda>(ied, ld). resolve_ld ied ld r) (model_lds m) of Some x \<Rightarrow> x | None \<Rightarrow> None)"
  by (simp add: resolve_def model_lds_def first_return_concat first_return_map case_prod_unfold)

lemma iter_flat:
  "set (iter_data_attributes m) = (\<Union>(ied, ld) \<in> set (model_lds m). \<Union>ln \<in> set (ld_logical_nodes ld).
     \<Union>d \<in> set (ln_data_objects ln). set (collect_data_attributes (effective_ld_name ied ld) (ln_name ln) [do_name d] d))"
proof -
  have c: "concat (map f (concat xss)) = concat (map (\<lambda>xs. concat (map f xs)) xss)" for f :: "'a \<Rightarrow> 'b list" and xss
    by (induction xss) simp_all
  have "iter_data_attributes m = concat (map (\<lambda>(ied, ld). concat (map (\<lambda>ln. concat (map
      (\<lambda>d. collect_data_attributes (effective_ld_name ied ld) (ln_name ln) [do_name d] d)
      (ln_data_objects ln))) (ld_logical_nodes ld))) (model_lds m))"
    unfolding iter_data_attributes_def model_lds_def c by (simp add: case_prod_unfold comp_def)
  then show ?thesis by (simp only: set_concat set_map image_image) (simp add: case_prod_unfold)
qed

lemma collect_attribute_descends:
  "(r, da) \<in> set (collect_attribute_recursive ld ln path a) \<Longrightarrow> da_names_ok a \<Longrightarrow>
    \<exists>ns. r = reference_new ld ln (path @ ns)\<lparr>or_fc := Some (da_fc da)\<rparr> \<and>
      descend_data_attribute a ns = Some (NDataAttribute da)"
proof (induction ld ln path a rule: collect_attribute_recursive.induct)
  case (1 ld ln path n fc bt d et ev tr v ch)
  let ?a = "DataAttribute n fc bt d et ev tr v ch"
  show ?case
  proof (cases "(r, da) \<in> set (concat (map (\<lambda>c. collect_attribute_recursive ld ln (path @ [da_name c]) c) ch))")
    case False
    then have "r = reference_new ld ln path\<lparr>or_fc := Some fc\<rparr>" "da = ?a" using "1.prems"(1) by auto
    then show ?thesis by (intro exI [of _ "[]"]) simp
  next
    case True
    then obtain c where c: "c \<in> set ch" "(r, da) \<in> set (collect_attribute_recursive ld ln (path @ [da_name c]) c)"
      by auto
    moreover have "da_names_ok c" "distinct (map da_name ch)" using "1.prems"(2) c(1) by (auto simp: list_all_iff)
    ultimately obtain ns where ns: "r = reference_new ld ln ((path @ [da_name c]) @ ns)\<lparr>or_fc := Some (da_fc da)\<rparr>"
      "descend_data_attribute c ns = Some (NDataAttribute da)"
      using "1.IH" by blast
    have "da_child ?a (da_name c) = Some c"
      using find_distinct [of da_name ch c] \<open>distinct (map da_name ch)\<close> c(1) by (simp add: da_child_def)
    then show ?thesis using ns by (intro exI [of _ "da_name c # ns"]) simp
  qed
qed

lemma collect_data_descends:
  "(r, da) \<in> set (collect_data_attributes ld ln path d) \<Longrightarrow> do_names_ok d \<Longrightarrow>
    \<exists>ns. r = reference_new ld ln (path @ ns)\<lparr>or_fc := Some (da_fc da)\<rparr> \<and>
      descend_data_object d ns = Some (NDataAttribute da)"
proof (induction ld ln path d rule: collect_data_attributes.induct)
  case (1 ld ln path n c ds tr attrs subs)
  let ?d = "DataObject n c ds tr attrs subs"
  have dist: "distinct (map da_name attrs)" "distinct (map do_name subs)"
    "da_name ` set attrs \<inter> do_name ` set subs = {}"
    and ok: "list_all da_names_ok attrs" "list_all do_names_ok subs"
    using "1.prems"(2) by auto
  consider a where "a \<in> set attrs" "(r, da) \<in> set (collect_attribute_recursive ld ln (path @ [da_name a]) a)"
    | s where "s \<in> set subs" "(r, da) \<in> set (collect_data_attributes ld ln (path @ [do_name s]) s)"
    using "1.prems"(1) by auto
  then show ?case
  proof cases
    case (1 a)
    then obtain ns where ns: "r = reference_new ld ln ((path @ [da_name a]) @ ns)\<lparr>or_fc := Some (da_fc da)\<rparr>"
      "descend_data_attribute a ns = Some (NDataAttribute da)"
      using collect_attribute_descends ok(1) by (metis list_all_iff)
    have "do_attribute ?d (da_name a) = Some a"
      using find_distinct [OF dist(1) 1(1)] by (simp add: do_attribute_def)
    then show ?thesis using ns by (intro exI [of _ "da_name a # ns"]) simp
  next
    case (2 s)
    have "do_names_ok s" using ok(2) 2(1) by (simp add: list_all_iff)
    from "1.IH" [OF 2(1,2) this] obtain ns where
      ns: "r = reference_new ld ln ((path @ [do_name s]) @ ns)\<lparr>or_fc := Some (da_fc da)\<rparr>"
      "descend_data_object s ns = Some (NDataAttribute da)" by blast
    have "do_attribute ?d (do_name s) = None"
      using dist(3) 2(1) by (auto simp: do_attribute_def find_None_name)
    moreover have "do_sub_object ?d (do_name s) = Some s"
      using find_distinct [OF dist(2) 2(1)] by (simp add: do_sub_object_def)
    ultimately show ?thesis using ns by (intro exI [of _ "do_name s # ns"]) simp
  qed
qed

lemma iter_resolves:
  assumes "model_names_ok m" "(r, da) \<in> set (iter_data_attributes m)"
  shows "resolve m r = Some (NDataAttribute da) \<and> or_fc r = Some (da_fc da)"
proof -
  from assms(2) obtain ied ld ln d where
    m: "(ied, ld) \<in> set (model_lds m)" "ln \<in> set (ld_logical_nodes ld)" "d \<in> set (ln_data_objects ln)"
    and c: "(r, da) \<in> set (collect_data_attributes (effective_ld_name ied ld) (ln_name ln) [do_name d] d)"
    by (auto simp: iter_flat)
  have ln: "distinct (map ln_name (ld_logical_nodes ld))" "ln_names_ok ln"
    using assms(1) m(1,2) by (auto simp: model_names_ok_def list_all_iff)
  have d: "do_names_ok d" using ln(2) m(3) by (auto simp: ln_names_ok_def list_all_iff)
  from collect_data_descends [OF c d] obtain ns where
    r: "r = reference_new (effective_ld_name ied ld) (ln_name ln) ([do_name d] @ ns)\<lparr>or_fc := Some (da_fc da)\<rparr>"
    "descend_data_object d ns = Some (NDataAttribute da)" by blast
  have "ln_data_object ln (do_name d) = Some d"
    using find_distinct [of do_name "ln_data_objects ln" d] ln(2) m(3)
    by (simp add: ln_data_object_def ln_names_ok_def)
  moreover have "ld_logical_node ld (ln_name ln) = Some ln"
    using find_distinct [OF ln(1) m(2)] by (simp add: ld_logical_node_def)
  ultimately have here: "resolve_ld ied ld r = Some (Some (NDataAttribute da))"
    using r ln(2) by (simp add: resolve_ld_def reference_new_def ln_names_ok_def)
  have "first_return (\<lambda>(ied, ld). resolve_ld ied ld r) (model_lds m) = Some (Some (NDataAttribute da))"
  proof (rule first_return_unique [OF m(1)])
    show "(case (ied, ld) of (ied, ld) \<Rightarrow> resolve_ld ied ld r) = Some (Some (NDataAttribute da))"
      using here by simp
    fix z
    assume z: "z \<in> set (model_lds m)" "(case z of (ied, ld) \<Rightarrow> resolve_ld ied ld r) \<noteq> None"
    obtain i l where zi: "z = (i, l)" by (cases z)
    have "effective_ld_name i l = effective_ld_name ied ld"
      using z(2) r(1) by (auto simp: zi resolve_ld_def reference_new_def split: if_splits)
    then have "z = (ied, ld)"
      using assms(1) z(1) m(1) zi unfolding model_names_ok_def distinct_map inj_on_def by fastforce
    then show "(case z of (ied, ld) \<Rightarrow> resolve_ld ied ld r) = Some (Some (NDataAttribute da))"
      using here by simp
  qed
  then show ?thesis using r(1) by (simp add: resolve_flat)
qed

lemma descend_attribute_collected:
  "descend_data_attribute a ns = Some (NDataAttribute da) \<Longrightarrow>
    (reference_new ld ln (path @ ns)\<lparr>or_fc := Some (da_fc da)\<rparr>, da) \<in> set (collect_attribute_recursive ld ln path a)"
proof (induction a ns arbitrary: path rule: descend_data_attribute.induct)
  case (1 a)
  then have "a = da" by simp
  then show ?case by (cases da) simp
next
  case (2 a n ns)
  then obtain c where c: "da_child a n = Some c" "descend_data_attribute c ns = Some (NDataAttribute da)"
    by (auto split: option.splits)
  then have m: "c \<in> set (da_children a)" "da_name c = n"
    using find_Some_name [of da_name n "da_children a" c] by (simp_all add: da_child_def)
  have "(reference_new ld ln ((path @ [n]) @ ns)\<lparr>or_fc := Some (da_fc da)\<rparr>, da) \<in>
      set (collect_attribute_recursive ld ln (path @ [n]) c)"
    by (rule "2.IH" [OF c])
  then show ?case using m by (cases a) auto
qed

lemma descend_object_collected:
  "descend_data_object d ns = Some (NDataAttribute da) \<Longrightarrow>
    (reference_new ld ln (path @ ns)\<lparr>or_fc := Some (da_fc da)\<rparr>, da) \<in> set (collect_data_attributes ld ln path d)"
proof (induction d ns arbitrary: path rule: descend_data_object.induct)
  case (1 d)
  then show ?case by simp
next
  case (2 d n ns)
  show ?case
  proof (cases "do_attribute d n")
    case (Some a)
    then have m: "a \<in> set (do_attributes d)" "da_name a = n"
      using find_Some_name [of da_name n "do_attributes d" a] by (simp_all add: do_attribute_def)
    have "(reference_new ld ln ((path @ [n]) @ ns)\<lparr>or_fc := Some (da_fc da)\<rparr>, da) \<in>
        set (collect_attribute_recursive ld ln (path @ [n]) a)"
      using 2 Some by (intro descend_attribute_collected) simp
    then show ?thesis using m by (cases d) auto
  next
    case None
    then obtain s where s: "do_sub_object d n = Some s" "descend_data_object s ns = Some (NDataAttribute da)"
      using "2.prems" by (auto split: option.splits)
    then have m: "s \<in> set (do_sub_objects d)" "do_name s = n"
      using find_Some_name [of do_name n "do_sub_objects d" s] by (simp_all add: do_sub_object_def)
    have "(reference_new ld ln ((path @ [n]) @ ns)\<lparr>or_fc := Some (da_fc da)\<rparr>, da) \<in>
        set (collect_data_attributes ld ln (path @ [n]) s)"
      by (rule "2.IH" [OF None s])
    then show ?thesis using m by (cases d) auto
  qed
qed

lemma resolve_listed:
  assumes "resolve m r = Some (NDataAttribute da)"
  shows "(r\<lparr>or_fc := Some (da_fc da)\<rparr>, da) \<in> set (iter_data_attributes m)"
proof -
  from assms obtain ied ld where ld: "(ied, ld) \<in> set (model_lds m)"
    "resolve_ld ied ld r = Some (Some (NDataAttribute da))"
    using first_return_Some [of "\<lambda>(ied, ld). resolve_ld ied ld r" "model_lds m"]
    by (auto simp: resolve_flat split: option.splits)
  then obtain ln where ln: "ld_logical_node ld (or_ln r) = Some ln" "effective_ld_name ied ld = or_ld r"
    "descend_logical_node ln (or_path r) = Some (NDataAttribute da)"
    by (auto simp: resolve_ld_def split: if_splits option.splits)
  then have lm: "ln \<in> set (ld_logical_nodes ld)" "ln_name ln = or_ln r"
    using find_Some_name [of ln_name "or_ln r" "ld_logical_nodes ld" ln] by (simp_all add: ld_logical_node_def)
  from ln(3) obtain n ns d where d: "or_path r = n # ns" "ln_data_object ln n = Some d"
    "descend_data_object d ns = Some (NDataAttribute da)"
    by (cases "or_path r") (auto split: option.splits)
  then have dm: "d \<in> set (ln_data_objects ln)" "do_name d = n"
    using find_Some_name [of do_name n "ln_data_objects ln" d] by (simp_all add: ln_data_object_def)
  have "(reference_new (or_ld r) (or_ln r) ([n] @ ns)\<lparr>or_fc := Some (da_fc da)\<rparr>, da) \<in>
      set (collect_data_attributes (effective_ld_name ied ld) (ln_name ln) [do_name d] d)"
    using descend_object_collected [OF d(3), of "or_ld r" "or_ln r" "[n]"] by (simp add: ln(2) lm(2) dm(2))
  moreover have "reference_new (or_ld r) (or_ln r) ([n] @ ns)\<lparr>or_fc := Some (da_fc da)\<rparr> = r\<lparr>or_fc := Some (da_fc da)\<rparr>"
    by (simp add: reference_new_def d(1))
  ultimately show ?thesis unfolding iter_flat using ld(1) lm(1) dm(1) by fastforce
qed

text \<open>\<open>BTreeMap\<close>: the keys stay sorted, and a lookup sees the last insertion.\<close>

lemma btree_insert_keys: "fst ` set (btree_insert k v xs) = insert k (fst ` set xs)"
  by (induction k v xs rule: btree_insert.induct) auto

lemma btree_insert_sorted:
  "sorted_wrt (\<lambda>a b. fst a < fst b) xs \<Longrightarrow> sorted_wrt (\<lambda>a b. fst a < fst b) (btree_insert k v xs)"
proof (induction k v xs rule: btree_insert.induct)
  case (2 k v k' v' rest)
  have keys: "\<forall>x \<in> set (btree_insert k v rest). fst x = k \<or> fst x \<in> fst ` set rest"
    using btree_insert_keys [of k v rest] by blast
  have "\<not> k < k' \<Longrightarrow> k \<noteq> k' \<Longrightarrow> \<forall>x \<in> set (btree_insert k v rest). k' < fst x"
    using 2(2) keys by (fastforce simp: neq_iff)
  then show ?case using 2 by (auto intro: less_trans)
qed simp

lemma btree_insert_lookup:
  "sorted_wrt (\<lambda>a b. fst a < fst b) xs \<Longrightarrow> map_of (btree_insert k v xs) = (map_of xs)(k \<mapsto> v)"
  by (induction k v xs rule: btree_insert.induct) (auto simp: fun_eq_iff)

definition demo_attribute :: data_attribute where
  "demo_attribute = DataAttribute ''stVal'' FC_ST BtEnum None (Some ''Beh'')
     [\<lparr>en_ord = 1, en_literal = ''on''\<rparr>] \<lparr>to_dchg = True, to_qchg = False, to_dupd = False\<rparr> None []"

definition demo_model :: model where
  "demo_model = insert_ied ''IED1''
     \<lparr>sv_logical_devices = [\<lparr>ld_inst = ''LD0'', ld_name = None, ld_logical_nodes =
       [\<lparr>ln_prefix = [], ln_class = ''LLN0'', ln_inst = [], ln_type = ''LLN0_0'', ln_desc = None,
         ln_data_objects = [DataObject ''Mod'' CDC_INC None False [demo_attribute] []],
         ln_data_sets = [], ln_report_controls = [], ln_setting_group_control = None,
         ln_log_controls = []\<rparr>]\<rparr>]\<rparr> model_new"

lemma demo_model_ok: "model_names_ok demo_model"
  by (simp add: demo_model_def insert_ied_def model_new_def model_names_ok_def model_lds_def ln_names_ok_def
      ln_name_def demo_attribute_def)

lemma demo_model_lists: "(\<lparr>or_ld = ''IED1LD0'', or_ln = ''LLN0'', or_path = [''Mod'', ''stVal''], or_fc = Some FC_ST\<rparr>,
    demo_attribute) \<in> set (iter_data_attributes demo_model)"
  by (simp add: demo_model_def insert_ied_def model_new_def iter_data_attributes_def ln_name_def
      effective_ld_name_def reference_new_def demo_attribute_def)

section \<open>Properties\<close>

text \<open>C34: In a model whose sibling names are distinct, listing all attributes and resolving references
  agree: an attribute is listed under a reference exactly when that reference, carrying the
  attribute's functional constraint, resolves to it.\<close>

theorem listing_is_resolution:
  assumes "model_names_ok m"
  shows "(r, da) \<in> set (iter_data_attributes m) \<longleftrightarrow>
    resolve m r = Some (NDataAttribute da) \<and> or_fc r = Some (da_fc da)"
proof
  assume "resolve m r = Some (NDataAttribute da) \<and> or_fc r = Some (da_fc da)"
  then show "(r, da) \<in> set (iter_data_attributes m)"
    using resolve_listed [of m r da] by (cases r) simp
qed (use iter_resolves [OF assms] in blast)

theorem listing_is_resolution_witness:
  "resolve demo_model \<lparr>or_ld = ''IED1LD0'', or_ln = ''LLN0'', or_path = [''Mod'', ''stVal''], or_fc = Some FC_ST\<rparr>
    = Some (NDataAttribute demo_attribute)"
  using listing_is_resolution [OF demo_model_ok] demo_model_lists by blast

text \<open>Looking up the printed reference of any listed attribute with well-formed names finds that
  attribute.\<close>

theorem find_printed_reference:
  assumes "model_names_ok m" "(r, da) \<in> set (iter_data_attributes m)" "reference_ok r"
  shows "model_find m (reference_show r) = Some (NDataAttribute da)"
proof -
  have "reference_from_str (reference_show r) = Inr r"
    using parse_show [OF assms(3)] .
  then show ?thesis using iter_resolves [OF assms(1,2)] by (simp add: model_find_def)
qed

text \<open>The map of servers stays sorted by IED name without duplicates, and a lookup returns the
  server last inserted under that name.\<close>

theorem ied_map_invariant:
  assumes "sorted_wrt (\<lambda>a b. fst a < fst b) (m_ieds m)"
  shows "sorted_wrt (\<lambda>a b. fst a < fst b) (m_ieds (insert_ied name srv m)) \<and>
    model_ied (insert_ied name srv m) n = (if n = name then Some srv else model_ied m n)"
  using btree_insert_sorted [OF assms] btree_insert_lookup [OF assms]
  by (simp add: insert_ied_def model_ied_def)

end
