(* ===== verification/MmsNames.thy ===== *)
theory MmsNames imports ModelReference MmsData begin

text \<open>
  The names and errors of the MMS client and server: \<open>crates/iec61850-mms/src/mapping.rs\<close> (IEC
  61850-8-1 names of object references) and \<open>error.rs\<close>. An \<open>i64\<close> is its bit pattern, as in the BER
  codec. The lemmas show that the mapping of names is a bijection onto well-formed item names, and
  that the codes of data access errors round-trip.
\<close>

section \<open>The mapping of names\<close>

datatype mapping_error =
    MissingFc string
  | UnexpectedItemId string
  | BadFc string

definition object_reference_to_mms :: "object_reference \<Rightarrow> mapping_error + string \<times> string" where
  "object_reference_to_mms r =
    bindE (ok_or (MissingFc (reference_show r)) (or_fc r)) (\<lambda>fc.
      let item = or_ln r @ ''$'' @ fc_as_str fc;
          item = fold (\<lambda>seg item. item @ ''$'' @ seg) (or_path r) item
      in Inr (or_ld r, item))"

definition mms_to_object_reference :: "string \<Rightarrow> string \<Rightarrow> mapping_error + object_reference" where
  "mms_to_object_reference domain_id item_id =
    (let parts = split_on (CHR ''$'') item_id
     in bindE (ok_or (UnexpectedItemId item_id)
                (case parts of [] \<Rightarrow> None | s # _ \<Rightarrow> if s = [] then None else Some s)) (\<lambda>ln.
        bindE (ok_or (UnexpectedItemId item_id) (get_at parts 1)) (\<lambda>fc_str.
        bindE (map_errE (\<lambda>_. BadFc fc_str) (fc_from_str fc_str)) (\<lambda>fc.
          Inr \<lparr>or_ld = domain_id, or_ln = ln, or_path = drop 2 parts, or_fc = Some fc\<rparr>))))"

section \<open>Errors\<close>

datatype data_access_error =
    ObjectInvalidated
  | HardwareFault
  | TemporarilyUnavailable
  | ObjectAccessDenied
  | ObjectAccessUnsupported
  | ObjectNonExistent
  | ObjectAttributeInconsistent
  | TypeUnsupported
  | TypeInconsistent
  | ObjectValueInvalid
  | OtherAccessError u64

definition dae_from_code :: "u64 \<Rightarrow> data_access_error" where
  "dae_from_code code =
    (if code = 0 then ObjectInvalidated
     else if code = 1 then HardwareFault
     else if code = 2 then TemporarilyUnavailable
     else if code = 3 then ObjectAccessDenied
     else if code = 4 then ObjectAccessUnsupported
     else if code = 5 then ObjectNonExistent
     else if code = 6 then ObjectAttributeInconsistent
     else if code = 7 then TypeUnsupported
     else if code = 8 then TypeInconsistent
     else if code = 10 then ObjectValueInvalid
     else OtherAccessError code)"

fun dae_to_code :: "data_access_error \<Rightarrow> u64" where
  "dae_to_code ObjectInvalidated = 0"
| "dae_to_code HardwareFault = 1"
| "dae_to_code TemporarilyUnavailable = 2"
| "dae_to_code ObjectAccessDenied = 3"
| "dae_to_code ObjectAccessUnsupported = 4"
| "dae_to_code ObjectNonExistent = 5"
| "dae_to_code ObjectAttributeInconsistent = 6"
| "dae_to_code TypeUnsupported = 7"
| "dae_to_code TypeInconsistent = 8"
| "dae_to_code ObjectValueInvalid = 10"
| "dae_to_code (OtherAccessError c) = c"

text \<open>Of \<open>std::io::Error\<close> only the end of the stream, which \<open>read_exact\<close> reports, is told apart.\<close>

datatype io_error = IoUnexpectedEof | IoOther string

datatype mms_error =
    MeIo io_error
  | MeTransport string
  | MeBer ber_error
  | MeAssociateRejected string
  | MeServiceReject string
  | MeDataAccess data_access_error
  | MeInvokeIdMismatch u32 u32
  | MeUnexpectedPdu
  | MeConnectionClosed
  | MeTimeout
  | MeControlTerminated u64
  | MeControlTimeout
  | MeTls string
  | MeMapping mapping_error

section \<open>Facts\<close>

lemma item_join: "fold (\<lambda>seg item. item @ ''$'' @ seg) ps s = s @ prepend_all (CHR ''$'') ps"
  using fold_join [where c = "CHR ''$''"] by simp

definition mms_name_ok :: "object_reference \<Rightarrow> bool" where
  "mms_name_ok r \<longleftrightarrow> or_ln r \<noteq> [] \<and> CHR ''$'' \<notin> set (or_ln r) \<and>
     list_all (\<lambda>p. CHR ''$'' \<notin> set p) (or_path r) \<and> or_fc r \<noteq> None"

lemma prepend_all_Cons: "prepend_all c (p # ps) = c # p @ prepend_all c ps"
  by (simp add: prepend_all_def)

lemma mms_names_from_reference:
  assumes "mms_name_ok r" "object_reference_to_mms r = Inr (d, i)"
  shows "mms_to_object_reference d i = Inr r"
proof -
  obtain fc where fc: "or_fc r = Some fc" using assms(1) by (auto simp: mms_name_ok_def)
  have i: "d = or_ld r" "i = or_ln r @ prepend_all (CHR ''$'') (fc_as_str fc # or_path r)"
    using assms(2) item_join [of "or_path r" "or_ln r @ ''$'' @ fc_as_str fc"]
    by (simp_all add: object_reference_to_mms_def fc Let_def prepend_all_Cons)
  have "CHR ''$'' \<notin> set (fc_as_str fc)"
    using fc_as_str_visible [of fc] by (auto simp: list_all_iff)
  then have "split_on (CHR ''$'') i = or_ln r # fc_as_str fc # or_path r"
    unfolding i(2) using assms(1) by (intro split_on_prepend) (auto simp: mms_name_ok_def list_all_iff)
  then show ?thesis
    using assms(1) by (simp add: mms_to_object_reference_def i(1) mms_name_ok_def get_at_def fc Let_def)
qed

lemma reference_from_mms_names:
  assumes "mms_to_object_reference d i = Inr r"
  shows "mms_name_ok r \<and> object_reference_to_mms r = Inr (d, i)"
proof -
  from assms obtain ln fcs path fc where
    p: "split_on (CHR ''$'') i = ln # fcs # path" "ln \<noteq> []" "fc_from_str fcs = Inr fc"
    and r: "r = \<lparr>or_ld = d, or_ln = ln, or_path = path, or_fc = Some fc\<rparr>"
    by (cases "split_on (CHR ''$'') i"; cases "tl (split_on (CHR ''$'') i)")
      (auto simp: mms_to_object_reference_def bindE_Inr_iff get_at_def Let_def split: if_splits)
  have "i = ln @ prepend_all (CHR ''$'') (fcs # path)" by (rule split_on_join [OF p(1)])
  moreover have "CHR ''$'' \<notin> set q" if "q \<in> set (ln # fcs # path)" for q
    using split_on_parts [of q "CHR ''$''" i] that by (simp add: p(1))
  ultimately show ?thesis
    using p(2) fc_as_from_str [OF p(3)] item_join [of path "ln @ ''$'' @ fcs"]
    by (auto simp: r mms_name_ok_def object_reference_to_mms_def list_all_iff prepend_all_Cons Let_def)
qed

section \<open>Properties\<close>

text \<open>The mapping between references and MMS names is a bijection: a reference maps back to
  itself when it carries a functional constraint and its names hold no dollar sign, and every item
  name the decoder accepts is the name of exactly one such reference.\<close>

theorem mms_names_bijection:
  assumes "mms_name_ok r"
  shows "object_reference_to_mms r = Inr (d, i) \<longleftrightarrow> mms_to_object_reference d i = Inr r"
  using mms_names_from_reference [OF assms] reference_from_mms_names by blast

text \<open>The protocol code of a data access error leads back to it, and every code is kept.\<close>

theorem access_error_codes:
  "dae_to_code (dae_from_code code) = code \<and>
   ((\<forall>c. e \<noteq> OtherAccessError c) \<longrightarrow> dae_from_code (dae_to_code e) = e)"
  by (cases e) (simp_all add: dae_from_code_def)

end
