(* ===== verification/IsoSession.thy ===== *)
theory IsoSession imports MmsNames begin

text \<open>
  ISO session (ISO 8327): \<open>crates/iec61850-mms/src/upper/session.rs\<close>. The units a client and a server
  build, and the parser of the CONNECT unit, which walks its parameters by structure. The lemmas
  relate the parser to a unit given as a list of parameters, whatever their order and number.
\<close>

unbundle bit_operations_syntax

section \<open>Session units\<close>

definition si_connect :: u8 where "si_connect = 0x0D"
definition si_accept :: u8 where "si_accept = 0x0E"
definition pi_requirements :: u8 where "pi_requirements = 0x14"
definition pi_version :: u8 where "pi_version = 0x16"
definition pi_protocol_options :: u8 where "pi_protocol_options = 0x13"
definition pgi_connect_accept :: u8 where "pgi_connect_accept = 0x05"
definition pi_calling_selector :: u8 where "pi_calling_selector = 0x33"
definition pi_called_selector :: u8 where "pi_called_selector = 0x34"
definition pgi_user_data :: u8 where "pgi_user_data = 0xC1"

definition data_prefix :: bytes where
  "data_prefix = [0x01, 0x00, 0x01, 0x00]"

lemmas session_codes = si_connect_def si_accept_def pi_requirements_def pi_version_def
  pi_protocol_options_def pgi_connect_accept_def pi_calling_selector_def pi_called_selector_def
  pgi_user_data_def

text \<open>The long form keeps the low 16 bits of the length (\<open>len as u16\<close>).\<close>

definition push_li :: "bytes \<Rightarrow> nat \<Rightarrow> bytes" where
  "push_li out len =
    (if len < 0xFF then out @ [word_of_nat len]
     else out @ [0xFF] @ to_be (word_of_nat len :: u16))"

definition session_connect :: "bytes \<Rightarrow> bytes" where
  "session_connect presentation_cp =
    (let after_li = [0x05, 0x06, 0x13, 0x01, 0x00, 0x16, 0x01, 0x02] @ [0x14, 0x02, 0x00, 0x02] @ [0xC1];
         after_li = push_li after_li (length presentation_cp) @ presentation_cp
     in push_li [si_connect] (length after_li) @ after_li)"

definition accept_with_version :: "bytes \<Rightarrow> u8 \<Rightarrow> bytes" where
  "accept_with_version presentation_cpa version =
    (let after_li = [pgi_connect_accept, 0x06, pi_protocol_options, 0x01, 0x00, pi_version, 0x01, version]
           @ [pi_requirements, 0x02, 0x00, 0x02] @ [pgi_user_data];
         after_li = push_li after_li (length presentation_cpa) @ presentation_cpa
     in push_li [si_accept] (length after_li) @ after_li)"

definition session_accept :: "bytes \<Rightarrow> bytes" where
  "session_accept presentation_cpa = accept_with_version presentation_cpa 0x02"

record connect_spdu =
  cs_version :: u8
  cs_requirements :: "(u8 \<times> u8) option"
  cs_calling_selector :: "bytes option"
  cs_called_selector :: "bytes option"
  cs_user_data :: bytes

definition negotiated_version :: "connect_spdu \<Rightarrow> u8" where
  "negotiated_version c = (if cs_version c AND 0x02 \<noteq> 0 then 0x02 else 0x01)"

text \<open>\<open>(hi << 8) | lo\<close> of two octets is \<open>hi * 256 + lo\<close>.\<close>

definition read_li :: "bytes \<Rightarrow> nat \<Rightarrow> (nat \<times> nat) option" where
  "read_li buf i =
    (case get_at buf i of
       None \<Rightarrow> None
     | Some n \<Rightarrow>
         if n = 0xFF then
           (case get_at buf (i + 1) of
              None \<Rightarrow> None
            | Some hi \<Rightarrow>
                (case get_at buf (i + 2) of
                   None \<Rightarrow> None
                 | Some lo \<Rightarrow> Some (unat hi * 256 + unat lo, 3)))
         else Some (unat n, 1))"

definition spdu_error :: "string \<Rightarrow> mms_error" where
  "spdu_error m = MeTransport (''SPDU CONNECT: '' @ m)"

text \<open>The loop over the sub-parameters of the Connect/Accept item, with \<open>out.version\<close>.\<close>

function accept_item_loop :: "bytes \<Rightarrow> nat \<Rightarrow> u8 \<Rightarrow> mms_error + u8" where
  "accept_item_loop value j version =
    (if j < length value then
       bindE (ok_or (spdu_error (''sub-par'' @ a_acute @ ''metro truncado'')) (read_li value (j + 1)))
         (\<lambda>(slen, sli).
         let sstart = j + 1 + sli
         in bindE (ok_or (spdu_error ''sub-valor truncado'') (get_range value sstart (sstart + slen)))
              (\<lambda>sval. accept_item_loop value (sstart + slen)
                (if value ! j = pi_version then (case sval of [] \<Rightarrow> 0x02 | v # _ \<Rightarrow> v) else version)))
     else Inr version)"
  by pat_completeness auto
termination by (relation "measure (\<lambda>(value, j, _). length value - j)") auto

declare accept_item_loop.simps [simp del]

text \<open>The \<open>match\<close> on one parameter, whose value is \<open>value\<close>.\<close>

definition connect_param :: "u8 \<Rightarrow> bytes \<Rightarrow> connect_spdu \<Rightarrow> mms_error + connect_spdu" where
  "connect_param code value out =
    (if code = pgi_connect_accept then
       bindE (accept_item_loop value 0 (cs_version out)) (\<lambda>v. Inr (out\<lparr>cs_version := v\<rparr>))
     else if code = pi_requirements \<and> length value = 2 then
       Inr (out\<lparr>cs_requirements := Some (value ! 0, value ! 1)\<rparr>)
     else if code = pi_calling_selector then Inr (out\<lparr>cs_calling_selector := Some value\<rparr>)
     else if code = pi_called_selector then Inr (out\<lparr>cs_called_selector := Some value\<rparr>)
     else if code = pgi_user_data then Inr (out\<lparr>cs_user_data := value\<rparr>)
     else Inr out)"

function connect_loop :: "bytes \<Rightarrow> nat \<Rightarrow> nat \<Rightarrow> connect_spdu \<Rightarrow> mms_error + connect_spdu" where
  "connect_loop buf i end out =
    (if i < end then
       bindE (ok_or (spdu_error (''par'' @ a_acute @ ''metro truncado'')) (read_li buf (i + 1))) (\<lambda>(len, li).
         let start = i + 1 + li
         in bindE (ok_or (spdu_error (''valor de par'' @ a_acute @ ''metro truncado''))
                     (get_range buf start (start + len))) (\<lambda>value.
              bindE (connect_param (buf ! i) value out) (\<lambda>out.
                connect_loop buf (start + len) end out)))
     else Inr out)"
  by pat_completeness auto
termination by (relation "measure (\<lambda>(_, i, end, _). end - i)") auto

declare connect_loop.simps [simp del]

definition parse_connect :: "bytes \<Rightarrow> mms_error + connect_spdu" where
  "parse_connect buf =
    (if get_at buf 0 \<noteq> Some si_connect then Inl (spdu_error ''no es CONNECT (SI 0x0D)'')
     else bindE (ok_or (spdu_error ''LI truncada'') (read_li buf 1)) (\<lambda>(total, li_len).
       let i = 1 + li_len;
           end = min (i + total) (length buf)
       in bindE (connect_loop buf i end \<lparr>cs_version = 0x02, cs_requirements = None,
              cs_calling_selector = None, cs_called_selector = None, cs_user_data = []\<rparr>) (\<lambda>out.
            if cs_user_data out = [] then Inl (spdu_error ''sin user-data (PGI 0xC1)'')
            else Inr out)))"

definition session_data :: "bytes \<Rightarrow> bytes" where
  "session_data ud = data_prefix @ ud"

section \<open>Facts\<close>

text \<open>A parameter as octets, and a unit as a sequence of them.\<close>

definition li_bytes :: "nat \<Rightarrow> bytes" where
  "li_bytes n = push_li [] n"

definition param_bytes :: "u8 \<times> bytes \<Rightarrow> bytes" where
  "param_bytes p = fst p # li_bytes (length (snd p)) @ snd p"

lemma push_li_bytes: "push_li out n = out @ li_bytes n"
  by (simp add: push_li_def li_bytes_def)

lemma read_li_bytes:
  assumes "n < 65536"
  shows "read_li (pre @ li_bytes n @ rest) (length pre) = Some (n, length (li_bytes n))"
proof (cases "n < 0xFF")
  case True
  then have "(word_of_nat n :: u8) \<noteq> 0xFF"
    by (simp add: word_unat_eq_iff)
  with True show ?thesis
    using get_at_append_right [of pre _ 0]
    by (simp add: read_li_def li_bytes_def push_li_def)
next
  case False
  have w: "to_be (word_of_nat n :: u16) = [word_of_nat (n div 256), word_of_nat n]"
    using assms by (simp add: to_be_def be_bytes_numeral take_bit_nat_eq_self unat_of_nat)
  have v: "n div 256 mod 256 * 256 + n mod 256 = n"
    using assms by (simp add: less_mult_imp_div_less)
  show ?thesis
    using False v get_at_append_right [of pre _ 0] get_at_append_right [of pre _ 1] get_at_append_right [of pre _ 2]
    by (simp add: read_li_def li_bytes_def push_li_def w numeral_2_eq_2)
qed

fun apply_params :: "(u8 \<times> bytes) list \<Rightarrow> connect_spdu \<Rightarrow> mms_error + connect_spdu" where
  "apply_params [] out = Inr out"
| "apply_params (p # ps) out = bindE (connect_param (fst p) (snd p) out) (apply_params ps)"

lemma param_bytes_pair: "param_bytes (c, v) = c # li_bytes (length v) @ v"
  by (simp add: param_bytes_def)

lemma param_bytes_nonempty [simp]: "param_bytes p \<noteq> []"
  by (simp add: param_bytes_def)

lemma li_bytes_short: "n < 255 \<Longrightarrow> li_bytes n = [word_of_nat n]"
  by (simp add: li_bytes_def push_li_def)

lemma param_bytes_reads:
  assumes "length v < 65536"
  shows "(pre @ param_bytes (c, v) @ rest) ! length pre = c"
    "read_li (pre @ param_bytes (c, v) @ rest) (Suc (length pre)) = Some (length v, length (li_bytes (length v)))"
    "get_range (pre @ param_bytes (c, v) @ rest) (Suc (length pre + length (li_bytes (length v))))
      (Suc (length pre + length (li_bytes (length v)) + length v)) = Some v"
  using read_li_bytes [OF assms, of "pre @ [c]" "v @ rest"]
    get_range_append_mid [of "pre @ [c] @ li_bytes (length v)" v rest]
  by (simp_all add: param_bytes_pair nth_append)

lemma connect_loop_params:
  assumes "\<forall>p \<in> set ps. length (snd p) < 65536"
  shows "connect_loop (pre @ concat (map param_bytes ps) @ rest) (length pre)
      (length pre + length (concat (map param_bytes ps))) out = apply_params ps out"
  using assms
proof (induction ps arbitrary: pre out)
  case Nil
  then show ?case by (simp add: connect_loop.simps)
next
  case (Cons p ps)
  obtain c v where p: "p = (c, v)" by (cases p)
  have v: "length v < 65536" using Cons.prems p by simp
  note r = param_bytes_reads [OF v, of pre c "concat (map param_bytes ps) @ rest"]
  have "connect_loop (pre @ concat (map param_bytes (p # ps)) @ rest)
      (Suc (length pre + length (li_bytes (length v)) + length v))
      (length pre + length (concat (map param_bytes (p # ps)))) = apply_params ps"
    using Cons.IH [of "pre @ param_bytes p"] Cons.prems
    by (intro ext) (simp add: p param_bytes_pair add.assoc)
  moreover have "length pre < length pre + length (concat (map param_bytes (p # ps)))"
    by (simp add: p param_bytes_pair)
  ultimately show ?case
    using r
    by (subst connect_loop.simps) (simp add: p Let_def cong: if_cong)
qed

text \<open>The same for the sub-parameters of the Connect/Accept item.\<close>

definition last_version :: "(u8 \<times> bytes) list \<Rightarrow> u8 \<Rightarrow> u8" where
  "last_version subs v = fold (\<lambda>(c, b) v. if c = pi_version then (case b of [] \<Rightarrow> 0x02 | x # _ \<Rightarrow> x) else v) subs v"

lemma accept_item_loop_params:
  assumes "\<forall>p \<in> set ps. length (snd p) < 65536"
  shows "accept_item_loop (pre @ concat (map param_bytes ps)) (length pre) version =
    Inr (last_version ps version)"
  using assms
proof (induction ps arbitrary: pre version)
  case Nil
  then show ?case by (simp add: accept_item_loop.simps last_version_def)
next
  case (Cons p ps)
  obtain c v where p: "p = (c, v)" by (cases p)
  have v: "length v < 65536" using Cons.prems p by simp
  note r = param_bytes_reads [OF v, of pre c "concat (map param_bytes ps)"]
  have "accept_item_loop (pre @ concat (map param_bytes (p # ps)))
      (Suc (length pre + length (li_bytes (length v)) + length v)) version' = Inr (last_version ps version')" for version'
    using Cons.IH [of "pre @ param_bytes p" version'] Cons.prems
    by (simp add: p param_bytes_pair add.assoc)
  then show ?case
    using r
    by (subst accept_item_loop.simps) (simp add: p Let_def last_version_def)
qed

text \<open>A CONNECT unit as a sequence of parameters.\<close>

definition connect_unit :: "(u8 \<times> bytes) list \<Rightarrow> bytes" where
  "connect_unit ps = si_connect # li_bytes (length (concat (map param_bytes ps))) @ concat (map param_bytes ps)"

lemma parse_connect_unit:
  assumes "length (concat (map param_bytes ps)) < 65536"
  shows "parse_connect (connect_unit ps @ trailing) =
    bindE (apply_params ps \<lparr>cs_version = 0x02, cs_requirements = None, cs_calling_selector = None,
        cs_called_selector = None, cs_user_data = []\<rparr>)
      (\<lambda>out. if cs_user_data out = [] then Inl (spdu_error ''sin user-data (PGI 0xC1)'') else Inr out)"
proof -
  let ?b = "concat (map param_bytes ps)"
  have "\<forall>p \<in> set ps. length (snd p) < 65536"
  proof
    fix p assume "p \<in> set ps"
    then have "length (param_bytes p) \<le> length ?b"
      by (simp add: length_concat member_le_sum_list)
    then show "length (snd p) < 65536"
      using assms by (simp add: param_bytes_def)
  qed
  note loop = connect_loop_params [OF this, of "si_connect # li_bytes (length ?b)" trailing]
  have "read_li (connect_unit ps @ trailing) 1 = Some (length ?b, length (li_bytes (length ?b)))"
    using read_li_bytes [OF assms, of "[si_connect]" "?b @ trailing"] by (simp add: connect_unit_def)
  then show ?thesis
    using loop by (simp add: parse_connect_def connect_unit_def Let_def get_at_def)
qed

lemma session_connect_unit:
  "session_connect cp = connect_unit [(pgi_connect_accept, [0x13, 0x01, 0x00, 0x16, 0x01, 0x02]),
     (pi_requirements, [0x00, 0x02]), (pgi_user_data, cp)]"
  by (simp add: session_connect_def connect_unit_def push_li_bytes param_bytes_def session_codes Let_def
      li_bytes_short)

text \<open>A client's unit is read back whole, with version 2 and the duplex requirement.\<close>

lemma parse_own_connect:
  assumes "cp \<noteq> []" "length cp < 65500"
  shows "parse_connect (session_connect cp @ trailing) = Inr \<lparr>cs_version = 0x02, cs_requirements = Some (0x00, 0x02),
    cs_calling_selector = None, cs_called_selector = None, cs_user_data = cp\<rparr>"
proof -
  have l: "length (li_bytes n) \<le> 3" for n
    by (simp add: li_bytes_def push_li_def)
  have v: "accept_item_loop [0x13, 0x01, 0x00, 0x16, 0x01, 0x02] 0 2 = Inr 2"
    using accept_item_loop_params [of "[(0x13, [0x00]), (0x16, [0x02])]" "[]" 2]
    by (simp add: param_bytes_def li_bytes_short last_version_def pi_version_def)
  show ?thesis
    unfolding session_connect_unit using assms l [of "length cp"]
    by (subst parse_connect_unit) (simp_all add: param_bytes_def li_bytes_short connect_param_def session_codes v)
qed

end
