(* ===== verification/IsoPresentation.thy ===== *)
theory IsoPresentation imports IsoSession begin

text \<open>
  ISO presentation (ISO 8823): \<open>crates/iec61850-mms/src/upper/presentation.rs\<close>. The connect units,
  their parser, the negotiation of the proposed contexts, the extraction of the embedded unit and
  the client's check of the result list. The lemmas show that any proposal is read back and that
  the negotiation answers each context in order.
\<close>

unbundle bit_operations_syntax

section \<open>Presentation\<close>

definition acse_as :: "u32 list" where "acse_as = [2, 2, 1, 0, 1]"
definition mms_as :: "u32 list" where "mms_as = [1, 0, 9506, 2, 1]"
definition ber_ts :: "u32 list" where "ber_ts = [2, 1, 1]"
definition acse_context_id :: u64 where "acse_context_id = 1"
definition mms_context_id :: u64 where "mms_context_id = 3"
definition set_tag :: tag where "set_tag = tag_universal 17 True"
definition fully_encoded :: tag where "fully_encoded = tag_application 1 True"
definition single_asn1 :: tag where "single_asn1 = tag_context 0 True"

definition u_sequence :: tag where "u_sequence = tag_universal 16 True"
definition u_integer :: tag where "u_integer = tag_universal 2 False"
definition u_oid :: tag where "u_oid = tag_universal 6 False"

lemmas upper_tags = set_tag_def fully_encoded_def single_asn1_def u_sequence_def u_integer_def u_oid_def

text \<open>\<open>object_identifier\<close> on the constant identifiers of this layer, which have two arcs at least
  (see \<open>oid_constants\<close>), so the assertion of \<open>encode_oid\<close> holds.\<close>

definition oid_bytes :: "u32 list \<Rightarrow> bytes" where
  "oid_bytes arcs = (case encode_oid arcs of Some bs \<Rightarrow> bs | None \<Rightarrow> [])"

definition w_oid :: "tag \<Rightarrow> u32 list \<Rightarrow> writing" where
  "w_oid t arcs w = (case w_object_identifier t arcs w of Some w' \<Rightarrow> w' | None \<Rightarrow> w)"

definition user_data :: "bytes \<Rightarrow> u64 \<Rightarrow> bytes" where
  "user_data pdu context_id =
    into_bytes (w_tlv fully_encoded (w_sequence (\<lambda>w. w_seq
      [w_integer u_integer context_id,
       w_tlv single_asn1 (w_raw pdu)] w)) writer_new)"

definition context_list_item :: "u64 \<Rightarrow> u32 list \<Rightarrow> writing" where
  "context_list_item i abstract_syntax = w_sequence (\<lambda>w. w_seq
     [w_integer u_integer i,
      w_oid u_oid abstract_syntax,
      w_sequence (w_oid u_oid ber_ts)] w)"

definition connect_cp :: "bytes \<Rightarrow> bytes" where
  "connect_cp aarq =
    into_bytes (w_tlv set_tag (\<lambda>w. w_seq
      [w_tlv (tag_context 0 True) (w_integer (tag_context 0 False) 1),
       w_tlv (tag_context 2 True) (\<lambda>w. w_seq
         [w_octet_string (tag_context 1 False) [0, 0, 0, 1],
          w_octet_string (tag_context 2 False) [0, 0, 0, 1],
          w_tlv (tag_context 4 True) (\<lambda>w. w_seq
            [context_list_item acse_context_id acse_as,
             context_list_item mms_context_id mms_as] w),
          w_raw (user_data aarq acse_context_id)] w)] w) writer_new)"

definition result_list_item :: writing where
  "result_list_item = w_sequence (\<lambda>w. w_seq
     [w_integer (tag_context 0 False) 0,
      w_oid (tag_context 1 False) ber_ts] w)"

definition connect_cpa :: "bytes \<Rightarrow> bytes" where
  "connect_cpa aare =
    into_bytes (w_tlv set_tag (\<lambda>w. w_seq
      [w_tlv (tag_context 0 True) (w_integer (tag_context 0 False) 1),
       w_tlv (tag_context 2 True) (\<lambda>w. w_seq
         [w_octet_string (tag_context 1 False) [0, 0, 0, 1],
          w_tlv (tag_context 5 True) (\<lambda>w. w_seq [result_list_item, result_list_item] w),
          w_raw (user_data aare acse_context_id)] w)] w) writer_new)"

record proposed_context =
  pc_id :: u64
  pc_abstract_syntax :: bytes
  pc_transfer_syntaxes :: "bytes list"

record parsed_cp =
  cp_contexts :: "proposed_context list"
  cp_called_selector :: "bytes option"
  cp_inner_pdu :: bytes

datatype context_verdict = Acceptance | AbstractSyntaxNotSupported | TransferSyntaxesNotSupported

record negotiated =
  neg_acse_id :: "u64 option"
  neg_mms_id :: "u64 option"
  neg_verdicts :: "context_verdict list"

text \<open>\<open>drill_pdv\<close>: the loop reads until a value of either encoding.\<close>

function pdv_loop :: "reader \<Rightarrow> mms_error + bytes" where
  "pdv_loop r =
    (if rd_is_empty r then Inl (MeTransport ''PDV-list sin valor de datos'')
     else case read_tlv r of
       (Inl e, _) \<Rightarrow> Inl (MeBer e)
     | (Inr tlv, r') \<Rightarrow>
         if tlv_tag tlv = single_asn1 then Inr (tlv_content tlv)
         else if tlv_tag tlv = tag_context 1 False then Inr (tlv_content tlv)
         else pdv_loop r')"
  by pat_completeness auto
termination by (relation "measure remaining") (auto dest!: read_tlv_progress(3) [OF sym])

declare pdv_loop.simps [simp del]

definition drill_pdv :: "bytes \<Rightarrow> mms_error + bytes" where
  "drill_pdv content =
    (case rd_expect u_sequence (reader_new content) of
       (Inl e, _) \<Rightarrow> Inl (MeBer e)
     | (Inr pdv, _) \<Rightarrow> pdv_loop (reader_new pdv))"

text \<open>The scan of \<open>extract_inner_pdu\<close> from the octet \<open>start\<close> on.\<close>

fun extract_from :: "bytes \<Rightarrow> mms_error + bytes" where
  "extract_from [] = Inl (MeTransport (''no se encontr'' @ o_acute @ '' fully-encoded-data en la respuesta''))"
| "extract_from (b # rest) =
    (if b \<noteq> 0x61 then extract_from rest
     else case read_tlv (reader_new (b # rest)) of
       (Inl _, _) \<Rightarrow> extract_from rest
     | (Inr fed, _) \<Rightarrow>
         if tlv_tag fed \<noteq> fully_encoded then extract_from rest
         else case drill_pdv (tlv_content fed) of
           Inr inner \<Rightarrow> Inr inner
         | Inl _ \<Rightarrow> extract_from rest)"

definition extract_inner_pdu :: "bytes \<Rightarrow> mms_error + bytes" where
  "extract_inner_pdu buf = extract_from buf"

function transfer_loop :: "reader \<Rightarrow> bytes list \<Rightarrow> bytes list" where
  "transfer_loop r out =
    (if rd_is_empty r then out
     else case rd_expect u_oid r of
       (Inr ts, r') \<Rightarrow> transfer_loop r' (out @ [ts])
     | (Inl _, _) \<Rightarrow> out)"
  by pat_completeness auto
termination
  by (relation "measure (remaining \<circ> fst)") (auto dest!: rd_expect_progress [OF sym])

declare transfer_loop.simps [simp del]

definition cl_error :: "string \<Rightarrow> mms_error" where
  "cl_error m = MeTransport (''context-definition-list: '' @ m)"

text \<open>One context: the SEQUENCE of its id, its abstract syntax and its transfer syntaxes.\<close>

definition parse_context :: "bytes \<Rightarrow> mms_error + proposed_context" where
  "parse_context content =
    fst (thenE (map_errR (\<lambda>_. cl_error ''sin id'') (rd_expect u_integer (reader_new content))) (\<lambda>id_tlv ir.
      case map_errE (\<lambda>_. cl_error (''id inv'' @ a_acute @ ''lido'')) (decode_integer id_tlv) of
        Inl e \<Rightarrow> (Inl e, ir)
      | Inr i \<Rightarrow>
        thenE (map_errR (\<lambda>_. cl_error ''sin abstract-syntax'') (rd_expect u_oid ir)) (\<lambda>abs ir.
          (Inr \<lparr>pc_id = i, pc_abstract_syntax = abs,
                pc_transfer_syntaxes = (case rd_expect u_sequence ir of
                   (Inr ts_list, _) \<Rightarrow> transfer_loop (reader_new ts_list) []
                 | (Inl _, _) \<Rightarrow> [])\<rparr>, ir))))"

function context_loop :: "reader \<Rightarrow> proposed_context list \<Rightarrow> mms_error + proposed_context list" where
  "context_loop r out =
    (if rd_is_empty r then Inr out
     else case read_tlv r of
       (Inl _, _) \<Rightarrow> Inl (cl_error ''contexto truncado'')
     | (Inr item, r') \<Rightarrow>
         if tlv_tag item \<noteq> u_sequence then context_loop r' out
         else bindE (parse_context (tlv_content item)) (\<lambda>c. context_loop r' (out @ [c])))"
  by pat_completeness auto
termination
  by (relation "measure (remaining \<circ> fst)") (auto dest!: read_tlv_progress(3) [OF sym])

declare context_loop.simps [simp del]

definition parse_context_list :: "bytes \<Rightarrow> mms_error + proposed_context list" where
  "parse_context_list content = context_loop (reader_new content) []"


text \<open>\<open>parse_cp\<close>: the variables of its loops are the contexts, the selector and the inner unit.\<close>

definition cp_error :: "string \<Rightarrow> mms_error" where
  "cp_error m = MeTransport (''CP de presentaci'' @ o_acute @ ''n: '' @ m)"

record cp_vars =
  cv_contexts :: "proposed_context list"
  cv_called :: "bytes option"
  cv_inner :: "bytes option"

definition cp_parameter :: "tlv \<Rightarrow> cp_vars \<Rightarrow> mms_error + cp_vars" where
  "cp_parameter p v =
    (if tlv_tag p = tag_context 2 False then Inr (v\<lparr>cv_called := Some (tlv_content p)\<rparr>)
     else if tlv_tag p = tag_context 4 True then
       bindE (parse_context_list (tlv_content p)) (\<lambda>cs. Inr (v\<lparr>cv_contexts := cs\<rparr>))
     else if tlv_tag p = fully_encoded then
       bindE (drill_pdv (tlv_content p)) (\<lambda>i. Inr (v\<lparr>cv_inner := Some i\<rparr>))
     else Inr v)"

function normal_mode_loop :: "reader \<Rightarrow> cp_vars \<Rightarrow> mms_error + cp_vars" where
  "normal_mode_loop pr v =
    (if rd_is_empty pr then Inr v
     else case read_tlv pr of
       (Inl _, _) \<Rightarrow> Inl (cp_error (''par'' @ a_acute @ ''metro truncado''))
     | (Inr p, pr') \<Rightarrow> bindE (cp_parameter p v) (normal_mode_loop pr'))"
  by pat_completeness auto
termination
  by (relation "measure (remaining \<circ> fst)") (auto dest!: read_tlv_progress(3) [OF sym])

declare normal_mode_loop.simps [simp del]

definition cp_item :: "tlv \<Rightarrow> cp_vars \<Rightarrow> mms_error + cp_vars" where
  "cp_item item v =
    (if tlv_tag item = tag_context 0 True then
       (case read_tlv (reader_new (tlv_content item)) of
          (Inr m, _) \<Rightarrow>
            if decode_integer (tlv_content m) \<noteq> Inr 1 then
              Inl (cp_error ''mode-selector distinto de normal-mode'')
            else Inr v
        | (Inl _, _) \<Rightarrow> Inr v)
     else if tlv_tag item = tag_context 2 True then normal_mode_loop (reader_new (tlv_content item)) v
     else Inr v)"

function cp_loop :: "reader \<Rightarrow> cp_vars \<Rightarrow> mms_error + cp_vars" where
  "cp_loop sr v =
    (if rd_is_empty sr then Inr v
     else case read_tlv sr of
       (Inl _, _) \<Rightarrow> Inl (cp_error ''elemento truncado'')
     | (Inr item, sr') \<Rightarrow> bindE (cp_item item v) (cp_loop sr'))"
  by pat_completeness auto
termination
  by (relation "measure (remaining \<circ> fst)") (auto dest!: read_tlv_progress(3) [OF sym])

declare cp_loop.simps [simp del]

definition parse_cp :: "bytes \<Rightarrow> mms_error + parsed_cp" where
  "parse_cp buf =
    (case read_tlv (reader_new buf) of
       (Inl _, _) \<Rightarrow> Inl (cp_error ''no es un SET'')
     | (Inr set_tlv, _) \<Rightarrow>
         if tlv_tag set_tlv \<noteq> set_tag then Inl (cp_error ''no es un SET'')
         else bindE (cp_loop (reader_new (tlv_content set_tlv))
                      \<lparr>cv_contexts = [], cv_called = None, cv_inner = None\<rparr>) (\<lambda>v.
           if cv_contexts v = [] then Inl (cp_error ''sin presentation-context-definition-list'')
           else bindE (ok_or (cp_error ''sin user-data'') (cv_inner v)) (\<lambda>inner_pdu.
             Inr \<lparr>cp_contexts = cv_contexts v, cp_called_selector = cv_called v,
                  cp_inner_pdu = inner_pdu\<rparr>)))"

text \<open>\<open>negotiate\<close>: the body of its loop, with the result so far.\<close>

definition negotiate_step :: "negotiated \<Rightarrow> proposed_context \<Rightarrow> negotiated" where
  "negotiate_step neg c =
    (let known = (pc_abstract_syntax c = oid_bytes acse_as \<or> pc_abstract_syntax c = oid_bytes mms_as)
     in if \<not> known then neg\<lparr>neg_verdicts := neg_verdicts neg @ [AbstractSyntaxNotSupported]\<rparr>
        else if oid_bytes ber_ts \<notin> set (pc_transfer_syntaxes c) then
          neg\<lparr>neg_verdicts := neg_verdicts neg @ [TransferSyntaxesNotSupported]\<rparr>
        else
          let neg = (if pc_abstract_syntax c = oid_bytes acse_as \<and> neg_acse_id neg = None
                     then neg\<lparr>neg_acse_id := Some (pc_id c)\<rparr> else neg);
              neg = (if pc_abstract_syntax c = oid_bytes mms_as \<and> neg_mms_id neg = None
                     then neg\<lparr>neg_mms_id := Some (pc_id c)\<rparr> else neg)
          in neg\<lparr>neg_verdicts := neg_verdicts neg @ [Acceptance]\<rparr>)"

definition negotiate :: "proposed_context list \<Rightarrow> negotiated" where
  "negotiate contexts =
    foldl negotiate_step \<lparr>neg_acse_id = None, neg_mms_id = None, neg_verdicts = []\<rparr> contexts"

definition rejection_item :: "u64 \<Rightarrow> writing" where
  "rejection_item reason = w_sequence (\<lambda>w. w_seq
     [w_integer (tag_context 0 False) 2,
      w_integer (tag_context 2 False) reason] w)"

definition verdict_item :: "context_verdict \<Rightarrow> writing" where
  "verdict_item v = (case v of
      Acceptance \<Rightarrow> result_list_item
    | AbstractSyntaxNotSupported \<Rightarrow> rejection_item 1
    | TransferSyntaxesNotSupported \<Rightarrow> rejection_item 2)"

definition connect_cpa_negotiated :: "bytes \<Rightarrow> negotiated \<Rightarrow> bytes option \<Rightarrow> u64 \<Rightarrow> bytes" where
  "connect_cpa_negotiated aare neg called_selector acse_id =
    into_bytes (w_tlv set_tag (\<lambda>w. w_seq
      [w_tlv (tag_context 0 True) (w_integer (tag_context 0 False) 1),
       w_tlv (tag_context 2 True) (\<lambda>w. w_seq
         [w_octet_string (tag_context 3 False)
            (case called_selector of Some s \<Rightarrow> s | None \<Rightarrow> [0, 0, 0, 1]),
          w_tlv (tag_context 5 True) (\<lambda>w. fold verdict_item (neg_verdicts neg) w),
          w_raw (user_data aare acse_id)] w)] w) writer_new)"

text \<open>\<open>check_cpa_results\<close>: \<open>find_in\<close> and the loop over the result list with its index.\<close>

function find_in_loop :: "reader \<Rightarrow> tag \<Rightarrow> bytes option" where
  "find_in_loop r t =
    (if rd_is_empty r then None
     else case read_tlv r of
       (Inl _, _) \<Rightarrow> None
     | (Inr tlv, r') \<Rightarrow> if tlv_tag tlv = t then Some (tlv_content tlv) else find_in_loop r' t)"
  by pat_completeness auto
termination
  by (relation "measure (remaining \<circ> fst)") (auto dest!: read_tlv_progress(3) [OF sym])

declare find_in_loop.simps [simp del]

definition find_in :: "bytes \<Rightarrow> tag \<Rightarrow> bytes option" where
  "find_in content t = find_in_loop (reader_new content) t"

function result_loop :: "reader \<Rightarrow> nat \<Rightarrow> mms_error + unit" where
  "result_loop rr idx =
    (if rd_is_empty rr then Inr ()
     else case read_tlv rr of
       (Inl _, _) \<Rightarrow> Inr ()
     | (Inr item, rr') \<Rightarrow>
         if tlv_tag item \<noteq> u_sequence then result_loop rr' idx
         else case read_tlv (reader_new (tlv_content item)) of
           (Inr res, _) \<Rightarrow>
             if tlv_tag res = tag_context 0 False then
               (let code = (case decode_integer (tlv_content res) of Inr c \<Rightarrow> c | Inl _ \<Rightarrow> 0)
                in if code \<noteq> 0 \<and> idx = 1 then
                     Inl (MeAssociateRejected (''el servidor rechaz'' @ o_acute @
                       '' el contexto de presentaci'' @ o_acute @ ''n MMS (result='' @ show_i64 code @ '')''))
                   else result_loop rr' (idx + 1))
             else result_loop rr' (idx + 1)
         | (Inl _, _) \<Rightarrow> result_loop rr' (idx + 1))"
  by pat_completeness auto
termination
  by (relation "measure (remaining \<circ> fst)") (auto dest!: read_tlv_progress(3) [OF sym])

declare result_loop.simps [simp del]

fun check_from :: "bytes \<Rightarrow> mms_error + unit" where
  "check_from [] = Inr ()"
| "check_from (b # rest) =
    (if b \<noteq> 0x31 then check_from rest
     else case read_tlv (reader_new (b # rest)) of
       (Inl _, _) \<Rightarrow> check_from rest
     | (Inr set_tlv, _) \<Rightarrow>
         if tlv_tag set_tlv \<noteq> set_tag then check_from rest
         else case find_in (tlv_content set_tlv) (tag_context 2 True) of
           None \<Rightarrow> check_from rest
         | Some params \<Rightarrow>
             (case find_in params (tag_context 5 True) of
                None \<Rightarrow> Inr ()
              | Some results \<Rightarrow> result_loop (reader_new results) 0))"

definition check_cpa_results :: "bytes \<Rightarrow> mms_error + unit" where
  "check_cpa_results buf = check_from buf"

section \<open>Facts\<close>

lemma oid_constants: "encode_oid acse_as = Some [0x52, 1, 0, 1]"
    "encode_oid mms_as = Some [0x28, 0xCA, 0x22, 2, 1]" "encode_oid ber_ts = Some [0x51, 1]"
  by (simp_all add: encode_oid_def acse_as_def mms_as_def ber_ts_def base128_def base128_stack.simps)

lemma oid_bytes_constants [simp]: "oid_bytes acse_as = [0x52, 1, 0, 1]"
    "oid_bytes mms_as = [0x28, 0xCA, 0x22, 2, 1]" "oid_bytes ber_ts = [0x51, 1]"
  by (simp_all add: oid_bytes_def oid_constants)

lemma w_oid_put: "encode_oid arcs \<noteq> None \<Longrightarrow> w_oid t arcs = put (tlv_bytes t (oid_bytes arcs))"
  by (rule ext) (auto simp: w_oid_def w_object_identifier_def oid_bytes_def w_primitive_put)

lemma w_oid_constants [wire]: "w_oid t acse_as = put (tlv_bytes t (oid_bytes acse_as))"
    "w_oid t mms_as = put (tlv_bytes t (oid_bytes mms_as))"
    "w_oid t ber_ts = put (tlv_bytes t (oid_bytes ber_ts))"
  by (simp_all only: w_oid_put oid_constants option.distinct simp_thms)

lemmas w_put = w_ops w_seq_put w_primitive_put w_tlv_put into_bytes_put put_put w_oid_constants

text \<open>The values of this layer as octets.\<close>

definition pdv_bytes :: "bytes \<Rightarrow> u64 \<Rightarrow> bytes" where
  "pdv_bytes pdu i = tlv_bytes u_sequence (tlv_bytes u_integer (encode_integer i) @ tlv_bytes single_asn1 pdu)"

lemma user_data_bytes: "user_data pdu i = tlv_bytes fully_encoded (pdv_bytes pdu i)"
  by (simp add: user_data_def pdv_bytes_def w_put u_sequence_def)

definition context_bytes :: "proposed_context \<Rightarrow> bytes" where
  "context_bytes c = tlv_bytes u_sequence (tlv_bytes u_integer (encode_integer (pc_id c)) @
     tlv_bytes u_oid (pc_abstract_syntax c) @
     tlv_bytes u_sequence (concat (map (tlv_bytes u_oid) (pc_transfer_syntaxes c))))"

definition mode_bytes :: bytes where
  "mode_bytes = tlv_bytes (tag_context 0 True) (tlv_bytes (tag_context 0 False) (encode_integer 1))"

definition cp_bytes :: "bytes \<Rightarrow> parsed_cp \<Rightarrow> u64 \<Rightarrow> bytes" where
  "cp_bytes calling cp i =
    tlv_bytes set_tag (mode_bytes @ tlv_bytes (tag_context 2 True)
      (tlv_bytes (tag_context 1 False) calling @
       (case cp_called_selector cp of None \<Rightarrow> [] | Some s \<Rightarrow> tlv_bytes (tag_context 2 False) s) @
       tlv_bytes (tag_context 4 True) (concat (map context_bytes (cp_contexts cp))) @
       user_data (cp_inner_pdu cp) i))"

definition own_contexts :: "proposed_context list" where
  "own_contexts =
    [\<lparr>pc_id = acse_context_id, pc_abstract_syntax = oid_bytes acse_as, pc_transfer_syntaxes = [oid_bytes ber_ts]\<rparr>,
     \<lparr>pc_id = mms_context_id, pc_abstract_syntax = oid_bytes mms_as, pc_transfer_syntaxes = [oid_bytes ber_ts]\<rparr>]"

lemma context_list_item_put:
  "context_list_item i acse_as = put (context_bytes \<lparr>pc_id = i, pc_abstract_syntax = oid_bytes acse_as, pc_transfer_syntaxes = [oid_bytes ber_ts]\<rparr>)"
  "context_list_item i mms_as = put (context_bytes \<lparr>pc_id = i, pc_abstract_syntax = oid_bytes mms_as, pc_transfer_syntaxes = [oid_bytes ber_ts]\<rparr>)"
  by (simp_all add: context_list_item_def context_bytes_def w_put u_sequence_def)

lemma connect_cp_bytes:
  "connect_cp aarq = cp_bytes [0, 0, 0, 1] \<lparr>cp_contexts = own_contexts,
     cp_called_selector = Some [0, 0, 0, 1], cp_inner_pdu = aarq\<rparr> acse_context_id"
  by (simp add: connect_cp_def cp_bytes_def mode_bytes_def own_contexts_def context_list_item_put w_put)

lemma tag_eqs [simp]: "u_integer \<noteq> single_asn1" "u_integer \<noteq> tag_context 1 False" "set_tag \<noteq> u_sequence"
  "tag_context 1 False \<noteq> fully_encoded" "tag_context 2 False \<noteq> fully_encoded" "tag_context 4 True \<noteq> fully_encoded"
  "fully_encoded \<noteq> tag_context k b" "tag_context k b \<noteq> fully_encoded" "u_sequence \<noteq> tag_context k b" "tag_context k b \<noteq> u_sequence"
  "(tag_context k b = tag_context k' b') \<longleftrightarrow> k = k' \<and> b = b'"
  by (auto simp: upper_tags tag_universal_def tag_application_def tag_context_def)

lemma pdv_loop_value:
  assumes "slice_ok pre (tlv_bytes u_integer i @ tlv_bytes single_asn1 pdu)"
  shows "pdv_loop (rd_at pre (tlv_bytes u_integer i @ tlv_bytes single_asn1 pdu)) = Inr pdu"
  using assms read_tlv_head [OF assms]
    read_tlv_head [of "pre @ tlv_bytes u_integer i" single_asn1 pdu "[]"]
  by (subst pdv_loop.simps) (simp add: slice_ok_step, subst pdv_loop.simps, simp)

lemma drill_pdv_bytes:
  assumes "length (pdv_bytes pdu i) < usize_limit"
  shows "drill_pdv (pdv_bytes pdu i) = Inr pdu"
proof -
  have s: "slice_ok [] (pdv_bytes pdu i)" using assms by (simp add: slice_ok_def)
  then have "slice_ok [] (tlv_bytes u_integer (encode_integer i) @ tlv_bytes single_asn1 pdu)"
    using slice_ok_inner [of "[]" u_sequence _ "[]"] by (simp add: pdv_bytes_def)
  from pdv_loop_value [OF this] show ?thesis
    using s by (simp add: drill_pdv_def pdv_bytes_def reader_new_at expect_field_last)
qed

lemma user_data_head: "\<exists>rest. user_data pdu i = 0x61 # rest"
  by (simp add: user_data_bytes tlv_bytes_def fully_encoded_def evals)

lemma extract_user_data:
  assumes "length (user_data pdu i) + length rest < usize_limit"
  shows "extract_inner_pdu (user_data pdu i @ rest) = Inr pdu"
proof -
  obtain tl where u: "user_data pdu i = 0x61 # tl" using user_data_head by blast
  have "read_tlv (reader_new (user_data pdu i @ rest)) =
      (Inr \<lparr>tlv_tag = fully_encoded, tlv_content = pdv_bytes pdu i\<rparr>, rd_at (user_data pdu i) rest)"
    using read_tlv_head [of "[]" fully_encoded "pdv_bytes pdu i" rest] assms
    by (simp add: user_data_bytes reader_new_at slice_ok_def)
  moreover have "drill_pdv (pdv_bytes pdu i) = Inr pdu"
    using assms length_content_less [of "pdv_bytes pdu i" fully_encoded]
    by (intro drill_pdv_bytes) (simp add: user_data_bytes)
  ultimately show ?thesis
    by (simp add: extract_inner_pdu_def u)
qed

lemma extract_skips: "0x61 \<notin> set pre \<Longrightarrow> extract_inner_pdu (pre @ bs) = extract_inner_pdu bs"
  by (induction pre) (auto simp: extract_inner_pdu_def)

lemma extract_session_data:
  assumes "length pdu < 2 ^ 62"
  shows "extract_inner_pdu (session_data (user_data pdu i)) = Inr pdu"
proof -
  have "length (user_data pdu i) \<le> length pdu + 100"
    using tlv_bytes_bound [of fully_encoded "pdv_bytes pdu i"]
      tlv_bytes_bound [of u_sequence "tlv_bytes u_integer (encode_integer i) @ tlv_bytes single_asn1 pdu"]
      tlv_bytes_bound [of u_integer "encode_integer i"] tlv_bytes_bound [of single_asn1 pdu]
      length_encode_integer(2) [of i]
    by (simp add: user_data_bytes pdv_bytes_def)
  then have "extract_inner_pdu (user_data pdu i @ []) = Inr pdu"
    using assms by (intro extract_user_data) (simp add: usize_limit_def)
  then show ?thesis
    using extract_skips [of data_prefix "user_data pdu i"] by (simp add: session_data_def data_prefix_def)
qed

lemma transfer_loop_bytes:
  assumes "slice_ok pre (concat (map (tlv_bytes u_oid) ts))"
  shows "transfer_loop (rd_at pre (concat (map (tlv_bytes u_oid) ts))) out = out @ ts"
  using assms
proof (induction ts arbitrary: pre out)
  case Nil
  then show ?case by (simp add: transfer_loop.simps)
next
  case (Cons t ts)
  then show ?case
    by (subst transfer_loop.simps) (simp add: expect_field slice_ok_step)
qed

lemma parse_context_bytes:
  assumes "slice_ok [] (context_bytes c)"
  shows "\<exists>content. context_bytes c = tlv_bytes u_sequence content \<and> parse_context content = Inr c"
proof -
  let ?ts = "concat (map (tlv_bytes u_oid) (pc_transfer_syntaxes c))"
  let ?content = "tlv_bytes u_integer (encode_integer (pc_id c)) @
     tlv_bytes u_oid (pc_abstract_syntax c) @ tlv_bytes u_sequence ?ts"
  have s: "slice_ok [] ?content"
    using slice_ok_inner [of "[]" u_sequence ?content "[]"] assms by (simp add: context_bytes_def)
  then have "slice_ok [] ?ts"
    using length_content_less [of ?ts u_sequence] by (simp add: slice_ok_def)
  from transfer_loop_bytes [OF this] have "parse_context ?content = Inr c"
    using s by (simp add: parse_context_def reader_new_at expect_field expect_field_last slice_ok_step
        map_errR_def decode_encode_integer)
  then show ?thesis by (auto simp: context_bytes_def)
qed

lemma context_loop_bytes:
  assumes "slice_ok pre (concat (map context_bytes cs))"
  shows "context_loop (rd_at pre (concat (map context_bytes cs))) out = Inr (out @ cs)"
  using assms
proof (induction cs arbitrary: pre out)
  case Nil
  then show ?case by (simp add: context_loop.simps)
next
  case (Cons c cs)
  from Cons.prems have "slice_ok [] (context_bytes c)" by (simp add: slice_ok_def)
  from parse_context_bytes [OF this] obtain content
    where c: "context_bytes c = tlv_bytes u_sequence content" "parse_context content = Inr c" by blast
  from Cons show ?case
    by (subst context_loop.simps) (simp add: c read_tlv_head slice_ok_step)
qed


text \<open>A whole CP.\<close>

lemma normal_mode_step:
  assumes "slice_ok pre (tlv_bytes t c @ rest)"
  shows "normal_mode_loop (rd_at pre (tlv_bytes t c @ rest)) v =
    bindE (cp_parameter \<lparr>tlv_tag = t, tlv_content = c\<rparr> v) (normal_mode_loop (rd_at (pre @ tlv_bytes t c) rest))"
  using read_tlv_head [OF assms] by (subst normal_mode_loop.simps) simp

lemma normal_mode_end: "normal_mode_loop (rd_at pre []) v = Inr v"
  by (subst normal_mode_loop.simps) simp

lemma cp_step:
  assumes "slice_ok pre (tlv_bytes t c @ rest)"
  shows "cp_loop (rd_at pre (tlv_bytes t c @ rest)) v =
    bindE (cp_item \<lparr>tlv_tag = t, tlv_content = c\<rparr> v) (cp_loop (rd_at (pre @ tlv_bytes t c) rest))"
  using read_tlv_head [OF assms] by (subst cp_loop.simps) simp

lemma cp_end: "cp_loop (rd_at pre []) v = Inr v"
  by (subst cp_loop.simps) simp

lemma parse_cp_bytes:
  assumes "length (cp_bytes calling cp i) < usize_limit" "cp_contexts cp \<noteq> []"
  shows "parse_cp (cp_bytes calling cp i) = Inr cp"
proof -
  let ?cs = "concat (map context_bytes (cp_contexts cp))"
  let ?sel = "case cp_called_selector cp of None \<Rightarrow> [] | Some s \<Rightarrow> tlv_bytes (tag_context 2 False) s"
  let ?pdv = "pdv_bytes (cp_inner_pdu cp) i"
  let ?normal = "tlv_bytes (tag_context 1 False) calling @ ?sel @ tlv_bytes (tag_context 4 True) ?cs @ tlv_bytes fully_encoded ?pdv"
  let ?set = "mode_bytes @ tlv_bytes (tag_context 2 True) ?normal"
  have b: "cp_bytes calling cp i = tlv_bytes set_tag ?set"
    by (simp add: cp_bytes_def user_data_bytes)
  have s1: "slice_ok [] ?set"
    using assms(1) slice_ok_inner [of "[]" set_tag ?set "[]"] by (simp add: b slice_ok_def)
  then have s2: "slice_ok [] ?normal"
    using length_content_less [of ?normal "tag_context 2 True"] by (simp add: slice_ok_def)
  then have s3: "slice_ok [] ?cs" "slice_ok [] ?pdv"
    using length_content_less [of ?cs "tag_context 4 True"] length_content_less [of ?pdv fully_encoded]
    by (simp_all add: slice_ok_def)
  have contexts: "parse_context_list ?cs = Inr (cp_contexts cp)"
    using context_loop_bytes [OF s3(1), of "[]"] by (simp add: parse_context_list_def reader_new_at)
  have pdv: "drill_pdv ?pdv = Inr (cp_inner_pdu cp)"
    using s3(2) by (intro drill_pdv_bytes) (simp add: slice_ok_def)
  have normal: "normal_mode_loop (reader_new ?normal) \<lparr>cv_contexts = [], cv_called = None, cv_inner = None\<rparr> =
      Inr \<lparr>cv_contexts = cp_contexts cp, cv_called = cp_called_selector cp, cv_inner = Some (cp_inner_pdu cp)\<rparr>"
    using s2 normal_mode_step [where t = fully_encoded and c = ?pdv and rest = "[]"]
    by (cases "cp_called_selector cp")
      (simp_all add: reader_new_at normal_mode_step normal_mode_end slice_ok_step cp_parameter_def contexts pdv)
  have mode: "cp_item \<lparr>tlv_tag = tag_context 0 True, tlv_content = tlv_bytes (tag_context 0 False) (encode_integer 1)\<rparr> v = Inr v" for v
    by (simp add: cp_item_def read_tlv_single length_tlv_bytes evals)
  have "cp_loop (reader_new ?set) \<lparr>cv_contexts = [], cv_called = None, cv_inner = None\<rparr> =
      Inr \<lparr>cv_contexts = cp_contexts cp, cv_called = cp_called_selector cp, cv_inner = Some (cp_inner_pdu cp)\<rparr>"
    using s1 cp_step [where t = "tag_context 2 True" and c = ?normal and rest = "[]"]
    by (simp add: reader_new_at mode_bytes_def cp_step cp_end slice_ok_step mode)
      (simp add: cp_item_def normal [unfolded reader_new_at] reader_new_at cp_end)
  then show ?thesis
    using assms by (simp add: parse_cp_def b read_tlv_single)
qed

definition verdict_of :: "proposed_context \<Rightarrow> context_verdict" where
  "verdict_of c =
    (if pc_abstract_syntax c \<noteq> oid_bytes acse_as \<and> pc_abstract_syntax c \<noteq> oid_bytes mms_as
     then AbstractSyntaxNotSupported
     else if oid_bytes ber_ts \<notin> set (pc_transfer_syntaxes c) then TransferSyntaxesNotSupported
     else Acceptance)"

definition first_accepted :: "u32 list \<Rightarrow> proposed_context list \<Rightarrow> u64 option" where
  "first_accepted arcs cs = map_option pc_id
     (find (\<lambda>c. verdict_of c = Acceptance \<and> pc_abstract_syntax c = oid_bytes arcs) cs)"

lemma first_accepted_simps: "first_accepted arcs [] = None"
  "first_accepted arcs (c # cs) = or_else
     (if verdict_of c = Acceptance \<and> pc_abstract_syntax c = oid_bytes arcs then Some (pc_id c) else None)
     (first_accepted arcs cs)"
  by (simp_all add: first_accepted_def or_else_def)

lemma negotiate_step_spec:
  "negotiate_step neg c =
    \<lparr>neg_acse_id = or_else (neg_acse_id neg) (first_accepted acse_as [c]),
     neg_mms_id = or_else (neg_mms_id neg) (first_accepted mms_as [c]),
     neg_verdicts = neg_verdicts neg @ [verdict_of c]\<rparr>"
  by (cases neg; cases "neg_acse_id neg"; cases "neg_mms_id neg")
    (simp_all add: negotiate_step_def first_accepted_simps verdict_of_def Let_def)

lemma negotiate_foldl:
  "foldl negotiate_step neg cs =
    \<lparr>neg_acse_id = or_else (neg_acse_id neg) (first_accepted acse_as cs),
     neg_mms_id = or_else (neg_mms_id neg) (first_accepted mms_as cs),
     neg_verdicts = neg_verdicts neg @ map verdict_of cs\<rparr>"
  by (induction cs arbitrary: neg) (simp_all add: first_accepted_simps negotiate_step_spec)

lemma negotiate_spec:
  "negotiate cs = \<lparr>neg_acse_id = first_accepted acse_as cs, neg_mms_id = first_accepted mms_as cs,
     neg_verdicts = map verdict_of cs\<rparr>"
  by (simp add: negotiate_def negotiate_foldl)

end
