(* ===== verification/IsoAcse.thy ===== *)
theory IsoAcse imports IsoPresentation begin

text \<open>
  ACSE (ISO 8650): \<open>crates/iec61850-mms/src/upper/acse.rs\<close>. The association request with its optional
  authentication value, the answer and the refusal, and their parsers. The lemmas show that each
  side reads what the other built.
\<close>

unbundle bit_operations_syntax

section \<open>ACSE\<close>

definition mms_app_context :: "u32 list" where "mms_app_context = [1, 0, 9506, 2, 3]"
definition aarq_tag :: tag where "aarq_tag = tag_application 0 True"
definition aare_tag :: tag where "aare_tag = tag_application 1 True"
definition external_tag :: tag where "external_tag = tag_universal 8 True"
definition user_information :: tag where "user_information = tag_context 30 True"
definition mms_pres_context_id :: u64 where "mms_pres_context_id = 3"
definition auth_mech_password_oid :: bytes where "auth_mech_password_oid = [0x52, 0x03, 0x01]"

definition w_external :: "bytes \<Rightarrow> writing" where
  "w_external pdu = w_tlv user_information (w_tlv external_tag (\<lambda>w. w_seq
     [w_integer u_integer mms_pres_context_id,
      w_tlv single_asn1 (w_raw pdu)] w))"

definition aarq_auth :: "bytes \<Rightarrow> bytes option \<Rightarrow> bytes" where
  "aarq_auth initiate_pdu auth_value =
    into_bytes (w_tlv aarq_tag (\<lambda>w. w_seq
      [w_tlv (tag_context 1 True) (w_oid u_oid mms_app_context),
       (case auth_value of
          Some av \<Rightarrow> (\<lambda>w. w_seq
            [w_primitive (tag_context 10 False) [0x04, 0x80],
             w_primitive (tag_context 11 False) auth_mech_password_oid,
             w_tlv (tag_context 12 True) (w_primitive (tag_context 0 False) av)] w)
        | None \<Rightarrow> (\<lambda>w. w)),
       w_external initiate_pdu] w) writer_new)"

definition aarq :: "bytes \<Rightarrow> bytes" where
  "aarq initiate_pdu = aarq_auth initiate_pdu None"

function find_child_loop :: "reader \<Rightarrow> tag \<Rightarrow> ber_error + tlv option" where
  "find_child_loop r t =
    (if rd_is_empty r then Inr None
     else case read_tlv r of
       (Inl e, _) \<Rightarrow> Inl e
     | (Inr tlv, r') \<Rightarrow> if tlv_tag tlv = t then Inr (Some tlv) else find_child_loop r' t)"
  by pat_completeness auto
termination
  by (relation "measure (remaining \<circ> fst)") (auto dest!: read_tlv_progress(3) [OF sym])

declare find_child_loop.simps [simp del]

definition find_child :: "bytes \<Rightarrow> tag \<Rightarrow> ber_error + tlv option" where
  "find_child content t = find_child_loop (reader_new content) t"

definition extract_auth_password :: "bytes \<Rightarrow> bytes option" where
  "extract_auth_password d =
    (case read_tlv (reader_new d) of
       (Inl _, _) \<Rightarrow> None
     | (Inr outer, _) \<Rightarrow>
         if tlv_tag outer \<noteq> aarq_tag then None
         else case find_child (tlv_content outer) (tag_context 12 True) of
           Inr (Some av) \<Rightarrow>
             (case read_tlv (reader_new (tlv_content av)) of
                (Inr charstring, _) \<Rightarrow> Some (tlv_content charstring)
              | (Inl _, _) \<Rightarrow> None)
         | _ \<Rightarrow> None)"

definition w_result :: "u64 \<Rightarrow> u64 \<Rightarrow> writing" where
  "w_result result diagnostic = (\<lambda>w. w_seq
     [w_tlv (tag_context 2 True) (w_integer u_integer result),
      w_tlv (tag_context 3 True) (w_tlv (tag_context 1 True) (w_integer u_integer diagnostic))] w)"

definition aare :: "bytes \<Rightarrow> bytes" where
  "aare initiate_response =
    into_bytes (w_tlv aare_tag (\<lambda>w. w_seq
      [w_tlv (tag_context 1 True) (w_oid u_oid mms_app_context),
       w_result 0 0,
       w_external initiate_response] w) writer_new)"

definition aare_reject :: bytes where
  "aare_reject =
    into_bytes (w_tlv aare_tag (\<lambda>w. w_seq
      [w_tlv (tag_context 1 True) (w_oid u_oid mms_app_context),
       w_result 1 6] w) writer_new)"

fun associate_result_name :: "u64 \<Rightarrow> string" where
  "associate_result_name code =
    (if code = 1 then ''rejected-permanent''
     else if code = 2 then ''rejected-transient'' else ''rejected'')"

definition diagnostic_text :: "bytes \<Rightarrow> string option" where
  "diagnostic_text content =
    (case read_tlv (reader_new content) of
       (Inl _, _) \<Rightarrow> None
     | (Inr inner, _) \<Rightarrow>
         (case decode_integer (tlv_content inner) of
            Inl _ \<Rightarrow> None
          | Inr code \<Rightarrow>
              let src = (if tlv_tag inner = tag_context 1 False \<or> tlv_tag inner = tag_context 1 True
                         then ''service-user''
                         else if tlv_tag inner = tag_context 2 False \<or> tlv_tag inner = tag_context 2 True
                         then ''service-provider''
                         else ''diagnostic'')
              in Some (src @ '' '' @ show_i64 code)))"

function external_loop :: "reader \<Rightarrow> mms_error + bytes" where
  "external_loop er =
    (if rd_is_empty er then Inl (MeBer (BerStructure (''EXTERNAL sin valor de codificaci'' @ o_acute @ ''n'')))
     else case read_tlv er of
       (Inl e, _) \<Rightarrow> Inl (MeBer e)
     | (Inr tlv, er') \<Rightarrow>
         if tlv_tag tlv = single_asn1 then Inr (tlv_content tlv)
         else if tlv_tag tlv = tag_context 1 False then Inr (tlv_content tlv)
         else external_loop er')"
  by pat_completeness auto
termination by (relation "measure remaining") (auto dest!: read_tlv_progress(3) [OF sym])

declare external_loop.simps [simp del]

definition extract_external_value :: "bytes \<Rightarrow> mms_error + bytes" where
  "extract_external_value user_info =
    (case rd_expect external_tag (reader_new user_info) of
       (Inl e, _) \<Rightarrow> Inl (MeBer e)
     | (Inr external, _) \<Rightarrow> external_loop (reader_new external))"

definition user_information_of :: "bytes \<Rightarrow> mms_error + bytes" where
  "user_information_of content =
    bindE (map_errE MeBer (find_child content user_information)) (\<lambda>ui.
    bindE (ok_or (MeAssociateRejected (''asociaci'' @ o_acute @ ''n sin user-information'')) ui) (\<lambda>user_info.
      extract_external_value (tlv_content user_info)))"

definition tag_mismatch :: "tag \<Rightarrow> tag \<Rightarrow> mms_error" where
  "tag_mismatch expected got =
    MeAssociateRejected (''se esperaba '' @ tag_show expected @ '', tag '' @ tag_show got)"

text \<open>\<open>result [2]\<close>, explicit or implicit.\<close>

definition associate_result :: "bytes \<Rightarrow> mms_error + u64 option" where
  "associate_result content =
    bindE (map_errE MeBer (find_child content (tag_context 2 True))) (\<lambda>ex.
      case ex of
        Some explicit \<Rightarrow>
          bindE (map_errE MeBer (fst (rd_expect u_integer (reader_new (tlv_content explicit))))) (\<lambda>c.
          bindE (map_errE MeBer (decode_integer c)) (\<lambda>v. Inr (Some v)))
      | None \<Rightarrow>
          bindE (map_errE MeBer (find_child content (tag_context 2 False))) (\<lambda>im.
            case im of
              Some t \<Rightarrow> bindE (map_errE MeBer (decode_integer (tlv_content t))) (\<lambda>v. Inr (Some v))
            | None \<Rightarrow> Inr None))"

definition parse_aare :: "bytes \<Rightarrow> mms_error + bytes" where
  "parse_aare d =
    bindE (map_errE MeBer (fst (read_tlv (reader_new d)))) (\<lambda>outer.
      if tlv_tag outer \<noteq> aare_tag then Inl (tag_mismatch aare_tag (tlv_tag outer))
      else bindE (associate_result (tlv_content outer)) (\<lambda>result_value.
        case result_value of
          Some result \<Rightarrow>
            if result \<noteq> 0 then
              bindE (map_errE MeBer (find_child (tlv_content outer) (tag_context 3 True))) (\<lambda>t.
                let detail = (case t of
                       Some t \<Rightarrow> (case diagnostic_text (tlv_content t) of
                          Some s \<Rightarrow> s | None \<Rightarrow> associate_result_name result)
                     | None \<Rightarrow> associate_result_name result)
                in Inl (MeAssociateRejected (''result='' @ show_i64 result @ '' ('' @ detail @ '')'')))
            else user_information_of (tlv_content outer)
        | None \<Rightarrow> user_information_of (tlv_content outer)))"

definition parse_associate :: "bytes \<Rightarrow> tag \<Rightarrow> mms_error + bytes" where
  "parse_associate d expected =
    bindE (map_errE MeBer (fst (read_tlv (reader_new d)))) (\<lambda>outer.
      if tlv_tag outer \<noteq> expected then Inl (tag_mismatch expected (tlv_tag outer))
      else user_information_of (tlv_content outer))"

definition parse_aarq :: "bytes \<Rightarrow> mms_error + bytes" where
  "parse_aarq d = parse_associate d aarq_tag"

section \<open>Facts\<close>

lemma app_context_oid: "encode_oid mms_app_context = Some [0x28, 0xCA, 0x22, 2, 3]"
  by (simp add: encode_oid_def mms_app_context_def base128_def base128_stack.simps)

lemma w_oid_app_context: "w_oid t mms_app_context = put (tlv_bytes t [0x28, 0xCA, 0x22, 2, 3])"
  using w_oid_put [of mms_app_context t] by (simp add: app_context_oid oid_bytes_def)

lemma find_child_loop_fields:
  assumes "slice_ok pre (fields_bytes fs)"
  shows "find_child_loop (rd_at pre (fields_bytes fs)) t =
    Inr (map_option (\<lambda>(t, c). \<lparr>tlv_tag = t, tlv_content = c\<rparr>) (find (\<lambda>f. fst f = t) fs))"
  using assms
proof (induction fs arbitrary: pre)
  case Nil
  then show ?case by (simp add: fields_bytes_simps find_child_loop.simps)
next
  case (Cons f fs)
  obtain u c where f: "f = (u, c)" by (cases f)
  from Cons show ?case
    by (subst find_child_loop.simps) (simp add: f fields_bytes_simps read_tlv_head slice_ok_step)
qed

lemma find_child_fields:
  assumes "length (fields_bytes fs) < usize_limit"
  shows "find_child (fields_bytes fs) t =
    Inr (map_option (\<lambda>(t, c). \<lparr>tlv_tag = t, tlv_content = c\<rparr>) (find (\<lambda>f. fst f = t) fs))"
  using find_child_loop_fields [of "[]" fs t] assms by (simp add: find_child_def reader_new_at slice_ok_def)

definition external_bytes :: "bytes \<Rightarrow> bytes" where
  "external_bytes pdu = tlv_bytes external_tag (tlv_bytes u_integer (encode_integer mms_pres_context_id) @
     tlv_bytes single_asn1 pdu)"

lemma w_external_put: "w_external pdu = put (tlv_bytes user_information (external_bytes pdu))"
  by (simp add: w_external_def external_bytes_def w_put)

definition app_context_field :: "tag \<times> bytes" where
  "app_context_field = (tag_context 1 True, tlv_bytes u_oid [0x28, 0xCA, 0x22, 2, 3])"

definition auth_fields :: "bytes option \<Rightarrow> (tag \<times> bytes) list" where
  "auth_fields av = (case av of None \<Rightarrow> [] | Some v \<Rightarrow>
     [(tag_context 10 False, [0x04, 0x80]), (tag_context 11 False, auth_mech_password_oid),
      (tag_context 12 True, tlv_bytes (tag_context 0 False) v)])"

definition result_fields :: "u64 \<Rightarrow> u64 \<Rightarrow> (tag \<times> bytes) list" where
  "result_fields r d = [(tag_context 2 True, tlv_bytes u_integer (encode_integer r)),
     (tag_context 3 True, tlv_bytes (tag_context 1 True) (tlv_bytes u_integer (encode_integer d)))]"

lemma aarq_bytes:
  "aarq_auth pdu av = tlv_bytes aarq_tag (fields_bytes (app_context_field # auth_fields av @
     [(user_information, external_bytes pdu)]))"
  by (cases av) (simp_all add: aarq_auth_def app_context_field_def auth_fields_def fields_bytes_simps
      w_external_put w_oid_app_context w_seq_simps w_put)

lemma w_result_put: "w_result r d = put (fields_bytes (result_fields r d))"
  by (simp add: w_result_def result_fields_def fields_bytes_simps w_put)

lemma aare_bytes:
  "aare pdu = tlv_bytes aare_tag (fields_bytes (app_context_field # result_fields 0 0 @
     [(user_information, external_bytes pdu)]))"
  by (simp add: aare_def app_context_field_def fields_bytes_simps w_external_put w_oid_app_context w_result_put
      result_fields_def w_put)

lemma aare_reject_bytes:
  "aare_reject = tlv_bytes aare_tag (fields_bytes (app_context_field # result_fields 1 6))"
  by (simp add: aare_reject_def app_context_field_def fields_bytes_simps w_oid_app_context w_result_put
      result_fields_def w_put)

lemma user_information_eq [simp]: "user_information = tag_context 30 True"
  by (simp add: user_information_def)

lemma external_value:
  assumes "length (external_bytes pdu) < usize_limit"
  shows "extract_external_value (external_bytes pdu) = Inr pdu"
proof -
  let ?i = "tlv_bytes u_integer (encode_integer mms_pres_context_id)"
  have s: "slice_ok [] (?i @ tlv_bytes single_asn1 pdu)"
    using assms length_content_less [of "?i @ tlv_bytes single_asn1 pdu" external_tag]
    by (simp add: external_bytes_def slice_ok_def)
  have "external_loop (rd_at [] (?i @ tlv_bytes single_asn1 pdu)) = Inr pdu"
    using read_tlv_head [OF s] read_tlv_head [of "?i" single_asn1 pdu "[]"] s
    by (subst external_loop.simps) (simp add: slice_ok_step, subst external_loop.simps, simp)
  then show ?thesis
    using assms by (simp add: extract_external_value_def external_bytes_def reader_new_at expect_field_last slice_ok_def)
qed

lemma user_information_found:
  assumes "length (fields_bytes fs) < usize_limit"
    "find (\<lambda>f. fst f = tag_context 30 True) fs = Some (tag_context 30 True, external_bytes pdu)"
  shows "user_information_of (fields_bytes fs) = Inr pdu"
proof -
  have "(tag_context 30 True, external_bytes pdu) \<in> set fs"
    using assms(2) by (auto simp: find_Some_iff)
  then have "tlv_bytes (tag_context 30 True) (external_bytes pdu) \<in> set (map (\<lambda>(t, c). tlv_bytes t c) fs)"
    by force
  from length_concat_member [OF this]
  have "length (tlv_bytes (tag_context 30 True) (external_bytes pdu)) \<le> length (fields_bytes fs)"
    by (simp add: fields_bytes_def)
  then have "length (external_bytes pdu) < usize_limit"
    using assms(1) length_content_less [of "external_bytes pdu" "tag_context 30 True"] by simp
  then show ?thesis
    using assms by (simp add: user_information_of_def find_child_fields external_value)
qed

lemma parse_own_aarq:
  assumes "length (aarq_auth pdu av) < usize_limit"
  shows "parse_aarq (aarq_auth pdu av) = Inr pdu" "extract_auth_password (aarq_auth pdu av) = av"
proof -
  let ?fs = "app_context_field # auth_fields av @ [(user_information, external_bytes pdu)]"
  have l: "length (fields_bytes ?fs) < usize_limit"
    using assms length_content_less [of "fields_bytes ?fs" aarq_tag] by (simp add: aarq_bytes)
  have "find (\<lambda>f. fst f = tag_context 30 True) ?fs = Some (tag_context 30 True, external_bytes pdu)"
    by (cases av) (simp_all add: app_context_field_def auth_fields_def)
  from user_information_found [OF l this] show "parse_aarq (aarq_auth pdu av) = Inr pdu"
    using assms by (simp add: parse_aarq_def parse_associate_def aarq_bytes read_tlv_single)
  have "length (tlv_bytes (tag_context 0 False) v) < usize_limit" if "av = Some v" for v
  proof -
    have "length (tlv_bytes (tag_context 12 True) (tlv_bytes (tag_context 0 False) v)) \<le> length (fields_bytes ?fs)"
      by (simp add: that auth_fields_def app_context_field_def fields_bytes_simps)
    then show ?thesis
      using l length_content_less [of "tlv_bytes (tag_context 0 False) v" "tag_context 12 True"] by simp
  qed
  then show "extract_auth_password (aarq_auth pdu av) = av"
    using assms find_child_fields [OF l, of "tag_context 12 True"]
    by (cases av) (simp_all add: extract_auth_password_def aarq_bytes read_tlv_single app_context_field_def auth_fields_def)
qed

lemma associate_result_fields:
  assumes "length (fields_bytes (app_context_field # result_fields r d @ fs)) < usize_limit"
  shows "associate_result (fields_bytes (app_context_field # result_fields r d @ fs)) = Inr (Some r)"
proof -
  have "length (tlv_bytes u_integer (encode_integer r)) < usize_limit"
    using assms length_content_less [of "tlv_bytes u_integer (encode_integer r)" "tag_context 2 True"]
    by (simp add: result_fields_def app_context_field_def fields_bytes_simps)
  then show ?thesis
    using find_child_fields [OF assms, of "tag_context 2 True"]
    by (simp add: associate_result_def app_context_field_def result_fields_def reader_new_at
        expect_field_last slice_ok_def decode_encode_integer)
qed

lemma parse_own_aare:
  assumes "length (aare pdu) < usize_limit"
  shows "parse_aare (aare pdu) = Inr pdu"
proof -
  let ?fs = "app_context_field # result_fields 0 0 @ [(user_information, external_bytes pdu)]"
  have l: "length (fields_bytes ?fs) < usize_limit"
    using assms length_content_less [of "fields_bytes ?fs" aare_tag] by (simp add: aare_bytes)
  have "find (\<lambda>f. fst f = tag_context 30 True) ?fs = Some (tag_context 30 True, external_bytes pdu)"
    by (simp add: app_context_field_def result_fields_def)
  from user_information_found [OF l this] show ?thesis
    using assms associate_result_fields [OF l]
    by (simp add: parse_aare_def aare_bytes read_tlv_single)
qed

text \<open>The refusal of this server is understood as one. Its diagnostic is explicit, but \<open>diagnostic_text\<close>
  decodes the octets of the whole INTEGER element as the number: the text says 131334 (\<open>0x020106\<close>)
  where the refusal says 6.\<close>

lemma parse_reject: "parse_aare aare_reject = Inl (MeAssociateRejected ''result=1 (service-user 131334)'')"
proof -
  have bound: "length aare_reject < usize_limit"
    by (simp add: aare_reject_bytes app_context_field_def result_fields_def fields_bytes_simps upper_tags aare_tag_def evals)
  let ?fs = "app_context_field # result_fields 1 6 @ []"
  have l: "length (fields_bytes ?fs) < usize_limit"
    using bound length_content_less [of "fields_bytes ?fs" aare_tag] by (simp add: aare_reject_bytes)
  have d: "diagnostic_text (tlv_bytes (tag_context 1 True) (tlv_bytes u_integer (encode_integer 6))) =
      Some ''service-user 131334''"
    by (simp add: diagnostic_text_def read_tlv_single length_tlv_bytes upper_tags show_i64_def show_nat.simps digit_chars evals)
  show ?thesis
    using bound associate_result_fields [OF l] find_child_fields [OF l, of "tag_context 3 True"]
    by (simp add: parse_aare_def aare_reject_bytes read_tlv_single app_context_field_def result_fields_def d show_i64_def show_nat.simps digit_chars)
qed

end
