(* ===== verification/IsoTransport.thy ===== *)
theory IsoTransport imports MmsNames begin

text \<open>
  ISO transport on TCP: \<open>crates/iec61850-mms/src/transport/tpkt.rs\<close>, \<open>cotp.rs\<close> and
  \<open>connection.rs\<close>. A stream is the list of octets still to be read; writing gives the octets
  written. The lemmas show that what is fragmented and framed on one side is received whole on the
  other, that a received unit is bounded, and what the connection handshake agrees on. Opening
  sockets and TLS sessions is I/O and not modelled.
\<close>

unbundle bit_operations_syntax

section \<open>TPKT\<close>

definition tpkt_header_len :: nat where
  "tpkt_header_len = 4"

definition tpkt_version :: u8 where
  "tpkt_version = 0x03"

definition max_payload_len :: nat where
  "max_payload_len = 65535 - tpkt_header_len"

definition tpkt_frame :: "bytes \<Rightarrow> bytes" where
  "tpkt_frame payload =
    (let total = tpkt_header_len + length payload
     in [tpkt_version, 0] @ to_be (word_of_nat total :: u16) @ payload)"

text \<open>The format \<open>{:#04X}\<close> of an octet.\<close>

definition show_hex2 :: "u8 \<Rightarrow> string" where
  "show_hex2 b = ''0x'' @ [hex_digit (unat b div 16), hex_digit (unat b mod 16)]"

definition payload_len :: "bytes \<Rightarrow> mms_error + nat" where
  "payload_len header =
    (if header ! 0 \<noteq> tpkt_version then
       Inl (MeTransport (''versi'' @ o_acute @ ''n TPKT inesperada: '' @ show_hex2 (header ! 0)))
     else
       let total = unat (from_be [header ! 2, header ! 3] :: u16)
       in if total < tpkt_header_len then
            Inl (MeTransport (''longitud TPKT inv'' @ a_acute @ ''lida: '' @ show_nat total))
          else
            let payload = total - tpkt_header_len
            in if payload > max_payload_len then
                 Inl (MeTransport (''payload TPKT excede el m'' @ a_acute @ ''ximo ('' @ show_nat payload
                   @ '' > '' @ show_nat max_payload_len @ '')''))
               else Inr payload)"

section \<open>COTP\<close>

definition cr_code :: u8 where "cr_code = 0xE0"
definition cc_code :: u8 where "cc_code = 0xD0"
definition dt_code :: u8 where "dt_code = 0xF0"
definition dr_code :: u8 where "dr_code = 0x80"
definition param_tpdu_size :: u8 where "param_tpdu_size = 0xC0"
definition param_src_tsap :: u8 where "param_src_tsap = 0xC1"
definition param_dst_tsap :: u8 where "param_dst_tsap = 0xC2"
definition tpdu_size_code :: u8 where "tpdu_size_code = 0x0A"
definition default_tpdu_size :: nat where "default_tpdu_size = 1024"
definition min_tpdu_size_code :: u8 where "min_tpdu_size_code = 7"
definition max_tpdu_size_code :: u8 where "max_tpdu_size_code = 13"
definition default_tsel :: bytes where "default_tsel = [0x00, 0x01]"

definition cotp_params :: bytes where
  "cotp_params =
    [param_tpdu_size, 0x01, tpdu_size_code, param_src_tsap, 0x02] @ default_tsel @
    [param_dst_tsap, 0x02] @ default_tsel"

definition connection_request :: "u16 \<Rightarrow> bytes" where
  "connection_request src_ref =
    [6 + word_of_nat (length cotp_params), cr_code, 0x00, 0x00] @ to_be src_ref @ [0x00] @ cotp_params"

definition cotp_code_error :: "string \<Rightarrow> u8 \<Rightarrow> mms_error" where
  "cotp_code_error what code =
    MeTransport (''se esperaba '' @ what @ '', c'' @ o_acute @ ''digo '' @ show_hex2 code)"

definition parse_connection_request :: "bytes \<Rightarrow> mms_error + u16" where
  "parse_connection_request d =
    bindE (ok_or (MeTransport (''CR vac'' @ i_acute @ ''a'')) (get_at d 0)) (\<lambda>li.
    bindE (ok_or (MeTransport ''CR truncada'') (get_at d 1)) (\<lambda>code.
      if code AND 0xF0 \<noteq> cr_code then Inl (cotp_code_error ''CR'' code)
      else if 1 + unat li > length d then Inl (MeTransport ''LI de CR inconsistente'')
      else bindE (ok_or (MeTransport ''CR sin src-ref'') (get_range d 4 6)) (\<lambda>src.
        Inr (from_be [src ! 0, src ! 1]))))"

definition connection_confirm :: "u16 \<Rightarrow> u16 \<Rightarrow> bytes" where
  "connection_confirm client_src_ref our_src_ref =
    [6 + word_of_nat (length cotp_params), cc_code] @ to_be client_src_ref @ to_be our_src_ref @
    [0x00] @ cotp_params"

text \<open>The parameters of a variable part, each a type, a length and a value.\<close>

function tpdu_size_from_params :: "bytes \<Rightarrow> nat" where
  "tpdu_size_from_params params =
    (if 2 \<le> length params then
       let ptype = params ! 0; plen = unat (params ! 1)
       in case get_range params 2 (2 + plen) of
            None \<Rightarrow> default_tpdu_size
          | Some v \<Rightarrow>
              if ptype = param_tpdu_size \<and> plen = 1 \<and> min_tpdu_size_code \<le> v ! 0 \<and> v ! 0 \<le> max_tpdu_size_code
              then 2 ^ unat (v ! 0)
              else tpdu_size_from_params (drop (2 + plen) params)
     else default_tpdu_size)"
  by pat_completeness auto
termination
  by (relation "measure length") auto

declare tpdu_size_from_params.simps [simp del]

definition parse_connection_confirm :: "bytes \<Rightarrow> mms_error + nat" where
  "parse_connection_confirm d =
    bindE (ok_or (MeTransport (''CC vac'' @ i_acute @ ''a'')) (get_at d 0)) (\<lambda>li.
    bindE (ok_or (MeTransport ''CC truncada'') (get_at d 1)) (\<lambda>code.
      if code AND 0xF0 = dr_code then
        Inl (MeAssociateRejected (''el peer respondi'' @ o_acute @ '' Disconnect Request (DR) a la conexi''
          @ o_acute @ ''n COTP''))
      else if code AND 0xF0 \<noteq> cc_code then Inl (cotp_code_error ''CC'' code)
      else if 1 + unat li > length d then Inl (MeTransport ''LI de CC inconsistente'')
      else Inr (tpdu_size_from_params
        (case get_range d 7 (1 + unat li) of Some ps \<Rightarrow> ps | None \<Rightarrow> []))))"

definition data_tpdu :: "bytes \<Rightarrow> bytes" where
  "data_tpdu payload = [0x02, dt_code, 0x80] @ payload"

text \<open>\<open>slice::chunks\<close>, for a positive size.\<close>

function chunks :: "nat \<Rightarrow> 'a list \<Rightarrow> 'a list list" where
  "chunks n xs = (if xs = [] \<or> n = 0 then [] else take n xs # chunks n (drop n xs))"
  by pat_completeness auto
termination
  by (relation "measure (length \<circ> snd)") auto

declare chunks.simps [simp del]

fun dt_fragments :: "bytes list \<Rightarrow> bytes list" where
  "dt_fragments [] = []"
| "dt_fragments (c # cs) =
    (let eot = (cs = [])
     in ([0x02, dt_code, if eot then 0x80 else 0x00] @ c) # dt_fragments cs)"

definition data_tpdus :: "bytes \<Rightarrow> nat \<Rightarrow> bytes list" where
  "data_tpdus payload max_tpdu =
    (let chunk = max (max_tpdu - 3) 1
     in if length payload \<le> chunk then [data_tpdu payload]
        else dt_fragments (chunks chunk payload))"

definition parse_data_tpdu_eot :: "bytes \<Rightarrow> mms_error + bytes \<times> bool" where
  "parse_data_tpdu_eot d =
    bindE (ok_or (MeTransport (''DT vac'' @ i_acute @ ''a'')) (get_at d 0)) (\<lambda>li.
    bindE (ok_or (MeTransport ''DT truncada'') (get_at d 1)) (\<lambda>code.
      if code \<noteq> dt_code then Inl (cotp_code_error ''DT'' code)
      else
        let eot = (case get_at d 2 of Some b \<Rightarrow> b AND 0x80 \<noteq> 0 | None \<Rightarrow> True)
        in bindE (ok_or (MeTransport ''LI de DT inconsistente'') (get_from d (1 + unat li))) (\<lambda>payload.
             Inr (payload, eot))))"

definition parse_data_tpdu :: "bytes \<Rightarrow> mms_error + bytes" where
  "parse_data_tpdu d = bindE (parse_data_tpdu_eot d) (\<lambda>(payload, _). Inr payload)"

section \<open>The connection\<close>

definition max_tsdu_len :: nat where
  "max_tsdu_len = 16 * 1024 * 1024"

text \<open>\<open>read_exact\<close>: a short stream is an error and is lost.\<close>

definition read_exact :: "nat \<Rightarrow> bytes \<Rightarrow> (mms_error + bytes) \<times> bytes" where
  "read_exact n s = (if n \<le> length s then (Inr (take n s), drop n s) else (Inl (MeIo IoUnexpectedEof), []))"

text \<open>The packet sent for a payload, and the next packet received.\<close>

definition iso_send :: "bytes \<Rightarrow> bytes" where
  "iso_send payload = tpkt_frame payload"

definition iso_recv :: "bytes \<Rightarrow> (mms_error + bytes) \<times> bytes" where
  "iso_recv s =
    (case read_exact tpkt_header_len s of
       (Inl e, s) \<Rightarrow> (Inl e, s)
     | (Inr header, s) \<Rightarrow>
         (case payload_len header of
            Inl e \<Rightarrow> (Inl e, s)
          | Inr len \<Rightarrow> read_exact len s))"

definition reassemble_into :: "bytes \<Rightarrow> bytes \<Rightarrow> mms_error + bytes \<times> bool" where
  "reassemble_into out tpdu =
    bindE (parse_data_tpdu_eot tpdu) (\<lambda>(payload, eot).
      if length out + length payload > max_tsdu_len then
        Inl (MeTransport (''TSDU reensamblado excede el m'' @ a_acute @ ''ximo ('' @ show_nat max_tsdu_len
          @ '' octetos)''))
      else Inr (out @ payload, eot))"

lemma iso_recv_shorter:
  "iso_recv s = (Inr p, s') \<Longrightarrow> length s' + length p + 4 = length s"
  by (auto simp: iso_recv_def read_exact_def tpkt_header_len_def split: if_splits sum.splits)

function recv_data_loop :: "bytes \<Rightarrow> bytes \<Rightarrow> (mms_error + bytes) \<times> bytes" where
  "recv_data_loop out s =
    (case iso_recv s of
       (Inl e, s') \<Rightarrow> (Inl e, s')
     | (Inr tpdu, s') \<Rightarrow>
         (case reassemble_into out tpdu of
            Inl e \<Rightarrow> (Inl e, s')
          | Inr (out', eot) \<Rightarrow> if eot then (Inr out', s') else recv_data_loop out' s'))"
  by pat_completeness auto
termination
  by (relation "measure (length \<circ> snd)") (auto dest!: iso_recv_shorter [OF sym])

declare recv_data_loop.simps [simp del]

definition recv_data :: "bytes \<Rightarrow> (mms_error + bytes) \<times> bytes" where
  "recv_data s = recv_data_loop [] s"

definition send_data :: "bytes \<Rightarrow> bytes" where
  "send_data tsdu = concat (map iso_send (data_tpdus tsdu default_tpdu_size))"

section \<open>Facts\<close>

lemma chunks_concat: "0 < n \<Longrightarrow> concat (chunks n xs) = xs"
proof (induction n xs rule: chunks.induct)
  case (1 n xs)
  then show ?case by (cases "xs = []") (simp_all add: chunks.simps [of n xs] chunks.simps [of n "[]"])
qed

lemma chunks_length: "c \<in> set (chunks n xs) \<Longrightarrow> length c \<le> n"
proof (induction n xs rule: chunks.induct)
  case (1 n xs)
  then show ?case
    by (cases "xs = [] \<or> n = 0") (auto simp: chunks.simps [of n xs])
qed

lemma chunks_nonempty: "xs \<noteq> [] \<Longrightarrow> 0 < n \<Longrightarrow> chunks n xs \<noteq> []"
  by (simp add: chunks.simps [of n xs])

lemma length_tpkt_frame [simp]: "length (tpkt_frame p) = length p + 4"
  by (simp add: tpkt_frame_def Let_def)

lemma iso_recv_frame:
  assumes "length p + 4 < 65536"
  shows "iso_recv (tpkt_frame p @ s) = (Inr p, s)"
proof -
  let ?t = "word_of_nat (4 + length p) :: u16"
  obtain x y where xy: "to_be ?t = [x, y]" "from_be [x, y] = ?t" by (rule to_be_u16_elim)
  have "unat ?t = 4 + length p" using assms by (subst unat_of_nat) simp
  then show ?thesis
    using xy assms by (simp add: iso_recv_def read_exact_def tpkt_frame_def tpkt_header_len_def payload_len_def
        max_payload_len_def Let_def)
qed

lemma parse_dt: "parse_data_tpdu_eot ([0x02, dt_code, b] @ c) = Inr (c, b AND 0x80 \<noteq> 0)"
  by (simp add: parse_data_tpdu_eot_def get_at_def get_from_def)

lemma eot_bit: "(0x80 :: u8) AND 0x80 \<noteq> 0" "(0x00 :: u8) AND 0x80 = 0"
  by simp_all

lemma recv_fragments:
  assumes "cs \<noteq> []" "\<forall>c \<in> set cs. length c \<le> 1021" "length out + length (concat cs) \<le> max_tsdu_len"
  shows "recv_data_loop out (concat (map iso_send (dt_fragments cs)) @ s) = (Inr (out @ concat cs), s)"
  using assms
proof (induction cs arbitrary: out)
  case Nil
  then show ?case by simp
next
  case (Cons c cs)
  let ?b = "if cs = [] then 0x80 else 0x00 :: u8"
  let ?rest = "concat (map iso_send (dt_fragments cs)) @ s"
  have r: "iso_recv (iso_send ([0x02, dt_code, ?b] @ c) @ ?rest) = (Inr ([0x02, dt_code, ?b] @ c), ?rest)"
    unfolding iso_send_def using Cons.prems(2) by (intro iso_recv_frame) simp
  have a: "reassemble_into out ([0x02, dt_code, ?b] @ c) = Inr (out @ c, cs = [])"
    unfolding reassemble_into_def parse_dt using Cons.prems(3) by simp
  have s: "concat (map iso_send (dt_fragments (c # cs))) @ s = iso_send ([0x02, dt_code, ?b] @ c) @ ?rest"
    by (simp add: Let_def)
  show ?case
  proof (cases "cs = []")
    case True
    then show ?thesis
      unfolding s by (subst recv_data_loop.simps) (use r a True in simp)
  next
    case False
    have "recv_data_loop (out @ c) ?rest = (Inr ((out @ c) @ concat cs), s)"
      using Cons.prems False by (intro Cons.IH) simp_all
    then show ?thesis
      unfolding s by (subst recv_data_loop.simps) (use r a False in simp)
  qed
qed

lemma data_tpdus_as_fragments:
  "\<exists>cs. data_tpdus tsdu n = dt_fragments cs \<and> cs \<noteq> [] \<and> concat cs = tsdu \<and>
    (\<forall>c \<in> set cs. length c \<le> max (n - 3) 1)"
proof (cases "length tsdu \<le> max (n - 3) 1")
  case True
  then show ?thesis by (intro exI [of _ "[tsdu]"]) (simp add: data_tpdus_def data_tpdu_def Let_def)
next
  case False
  then have "tsdu \<noteq> []" by auto
  then show ?thesis
    using False chunks_nonempty [of tsdu "max (n - 3) 1"]
    by (intro exI [of _ "chunks (max (n - 3) 1) tsdu"])
      (auto simp: data_tpdus_def Let_def chunks_concat dest: chunks_length)
qed

lemma recv_send_data:
  assumes "length tsdu \<le> max_tsdu_len"
  shows "recv_data (send_data tsdu @ s) = (Inr tsdu, s)"
proof -
  obtain cs where cs: "data_tpdus tsdu default_tpdu_size = dt_fragments cs" "cs \<noteq> []" "concat cs = tsdu"
    "\<forall>c \<in> set cs. length c \<le> 1021"
    using data_tpdus_as_fragments [of tsdu default_tpdu_size] by (auto simp: default_tpdu_size_def)
  then show ?thesis
    using recv_fragments [OF cs(2,4), of "[]" s] assms by (simp add: recv_data_def send_data_def)
qed

lemma reassemble_bound: "reassemble_into out tpdu = Inr (out', eot) \<Longrightarrow> length out' \<le> max_tsdu_len"
  by (auto simp: reassemble_into_def bindE_Inr_iff split: if_splits)

lemma iso_recv_suffix: "iso_recv s = (Inr p, s') \<Longrightarrow> \<exists>h. s = h @ s' \<and> length h = length p + 4"
proof -
  assume "iso_recv s = (Inr p, s')"
  then have "s' = drop (length p + 4) s" "length p + 4 \<le> length s"
    by (auto simp: iso_recv_def read_exact_def tpkt_header_len_def add.commute split: if_splits sum.splits)
  then show ?thesis
    by (intro exI [of _ "take (length p + 4) s"]) simp
qed

lemma recv_data_loop_result:
  "recv_data_loop out s = (Inr tsdu, s') \<Longrightarrow> length tsdu \<le> max_tsdu_len \<and> (\<exists>h. h \<noteq> [] \<and> s = h @ s')"
proof (induction out s rule: recv_data_loop.induct)
  case (1 out s)
  from "1.prems" obtain tpdu s1 out1 eot where
    r: "iso_recv s = (Inr tpdu, s1)" "reassemble_into out tpdu = Inr (out1, eot)" and
    e: "(if eot then (Inr out1, s1) else recv_data_loop out1 s1) = (Inr tsdu, s')"
    by (auto simp: recv_data_loop.simps [of out s] split: prod.splits sum.splits)
  obtain h where h: "s = h @ s1" "length h = length tpdu + 4" using iso_recv_suffix [OF r(1)] by blast
  show ?case
  proof (cases eot)
    case True
    have "h \<noteq> []" using h(2) by auto
    then show ?thesis using reassemble_bound [OF r(2)] e h(1) True by auto
  next
    case False
    have "recv_data_loop out1 s1 = (Inr tsdu, s')" using e False by simp
    from "1.IH" [OF r(1) [symmetric] refl r(2) refl False this] obtain g where
      "length tsdu \<le> max_tsdu_len" "g \<noteq> []" "s1 = g @ s'" by blast
    then show ?thesis using h(1) by (intro conjI exI [of _ "h @ g"]) simp_all
  qed
qed

lemma tpdu_size_range: "\<exists>k. 7 \<le> k \<and> k \<le> 13 \<and> tpdu_size_from_params ps = 2 ^ k"
proof (induction ps rule: tpdu_size_from_params.induct)
  case (1 ps)
  have d: "\<exists>k. 7 \<le> k \<and> k \<le> 13 \<and> default_tpdu_size = 2 ^ k"
    by (rule exI [of _ 10]) (simp add: default_tpdu_size_def)
  show ?case
  proof (cases "2 \<le> length ps \<and> get_range ps 2 (2 + unat (ps ! 1)) \<noteq> None")
    case False
    then show ?thesis using d by (auto simp: tpdu_size_from_params.simps [of ps] Let_def)
  next
    case True
    then obtain v where v: "get_range ps 2 (2 + unat (ps ! 1)) = Some v" by auto
    let ?c = "ps ! 0 = param_tpdu_size \<and> unat (ps ! 1) = 1 \<and> min_tpdu_size_code \<le> v ! 0 \<and> v ! 0 \<le> max_tpdu_size_code"
    have eq: "tpdu_size_from_params ps = (if ?c then 2 ^ unat (v ! 0)
        else tpdu_size_from_params (drop (2 + unat (ps ! 1)) ps))"
      by (subst tpdu_size_from_params.simps) (simp only: True v Let_def if_True option.case simp_thms)
    show ?thesis
    proof (cases ?c)
      case True
      then have "7 \<le> unat (v ! 0)" "unat (v ! 0) \<le> 13"
        by (simp_all add: min_tpdu_size_code_def max_tpdu_size_code_def word_le_nat_alt)
      then show ?thesis unfolding eq using True by auto
    next
      case False
      have "\<exists>k. 7 \<le> k \<and> k \<le> 13 \<and> tpdu_size_from_params (drop (2 + unat (ps ! 1)) ps) = 2 ^ k"
        using True False by (intro "1.IH" [OF _ refl refl v]) auto
      then show ?thesis unfolding eq if_not_P [OF False] .
    qed
  qed
qed

text \<open>Several units, one after the other.\<close>

fun recv_n :: "nat \<Rightarrow> bytes \<Rightarrow> (mms_error + bytes) list \<times> bytes" where
  "recv_n 0 s = ([], s)"
| "recv_n (Suc n) s =
    (let (r, s1) = recv_data s; (rs, s2) = recv_n n s1 in (r # rs, s2))"

lemma dt_fragments_length:
  "\<forall>c \<in> set cs. length c \<le> n \<Longrightarrow> t \<in> set (dt_fragments cs) \<Longrightarrow> length t \<le> n + 3"
  by (induction cs) (auto simp: Let_def split: if_splits)

lemma cotp_params_eq: "cotp_params = [0xC0, 0x01, 0x0A, 0xC1, 0x02, 0x00, 0x01, 0xC2, 0x02, 0x00, 0x01]"
  by (simp add: cotp_params_def default_tsel_def param_tpdu_size_def param_src_tsap_def param_dst_tsap_def
      tpdu_size_code_def)

lemma parse_own_request: "parse_connection_request (connection_request r) = Inr r"
proof -
  obtain x y where "to_be r = [x, y]" "from_be [x, y] = r" by (rule to_be_u16_elim)
  then show ?thesis
    by (simp add: parse_connection_request_def connection_request_def cotp_params_eq cr_code_def
        get_at_def get_range_def)
qed

lemma parse_own_confirm: "parse_connection_confirm (connection_confirm c r) = Inr 1024"
proof -
  obtain x y where x: "to_be c = [x, y]" by (rule to_be_u16_elim)
  obtain z w where z: "to_be r = [z, w]" by (rule to_be_u16_elim)
  have "tpdu_size_from_params cotp_params = 1024"
    by (subst tpdu_size_from_params.simps)
      (simp add: cotp_params_eq get_range_def param_tpdu_size_def min_tpdu_size_code_def max_tpdu_size_code_def)
  then show ?thesis
    by (simp add: parse_connection_confirm_def connection_confirm_def x z cotp_params_eq cc_code_def dr_code_def
        get_at_def get_range_def)
qed

text \<open>The agreed size does not reach the sender, which always fragments for 1024 octets.\<close>

lemma negotiated_size_ignored:
  "\<exists>confirm tsdu t. parse_connection_confirm confirm = Inr 128 \<and>
    t \<in> set (data_tpdus tsdu default_tpdu_size) \<and> 128 < length t"
proof -
  have "tpdu_size_from_params [0xC0, 0x01, 0x07] = 128"
    by (subst tpdu_size_from_params.simps)
      (simp add: get_range_def param_tpdu_size_def min_tpdu_size_code_def max_tpdu_size_code_def)
  then have "parse_connection_confirm [9, 0xD0, 0, 1, 0, 2, 0, 0xC0, 0x01, 0x07] = Inr 128"
    by (simp add: parse_connection_confirm_def cc_code_def dr_code_def get_at_def get_range_def)
  moreover have "data_tpdu (replicate 200 0) \<in> set (data_tpdus (replicate 200 0) default_tpdu_size)"
    "128 < length (data_tpdu (replicate 200 0))"
    by (simp_all add: data_tpdus_def data_tpdu_def default_tpdu_size_def)
  ultimately show ?thesis by blast
qed

section \<open>Properties\<close>





text \<open>The server reads the reference of the client's connection request, the client accepts the
  server's confirm with 1024 octets, and whatever confirm is accepted yields one of the sizes from
  128 to 8192.\<close>

theorem cotp_handshake:
  "parse_connection_request (connection_request r) = Inr r \<and>
   parse_connection_confirm (connection_confirm r own) = Inr 1024 \<and>
   (parse_connection_confirm d = Inr n \<longrightarrow> n \<in> {128, 256, 512, 1024, 2048, 4096, 8192})"
proof (intro conjI impI)
  assume "parse_connection_confirm d = Inr n"
  then obtain ps where "n = tpdu_size_from_params ps"
    by (auto simp: parse_connection_confirm_def bindE_Inr_iff split: if_splits)
  then obtain k where k: "7 \<le> k" "k \<le> 13" "n = 2 ^ k" using tpdu_size_range [of ps] by auto
  then have "k \<in> {7, 8, 9, 10, 11, 12, 13}" by auto
  then show "n \<in> {128, 256, 512, 1024, 2048, 4096, 8192}" using k(3) by auto
qed (rule parse_own_request, rule parse_own_confirm)

end
