(* ===== verification/MmsPdu.thy ===== *)
theory MmsPdu imports IsoAcse IsoTransport begin

text \<open>
  The MMS units: \<open>crates/iec61850-mms/src/mms/pdu.rs\<close> (the outer choice, confirmed requests and
  responses with their invocation numbers, names of variables) and \<open>mms/initiate.rs\<close> (the
  parameters of an association). The lemmas give the round trips the services rest on. Services of
  files have tags only in the code that handles files and are not modelled.
\<close>

unbundle bit_operations_syntax

section \<open>Tags\<close>

definition u_visible_string :: tag where "u_visible_string = tag_universal 26 False"

definition pdu_confirmed_request :: tag where "pdu_confirmed_request = tag_context 0 True"
definition pdu_confirmed_response :: tag where "pdu_confirmed_response = tag_context 1 True"
definition pdu_confirmed_error :: tag where "pdu_confirmed_error = tag_context 2 True"
definition pdu_unconfirmed :: tag where "pdu_unconfirmed = tag_context 3 True"
definition pdu_reject :: tag where "pdu_reject = tag_context 4 True"
definition pdu_initiate_request :: tag where "pdu_initiate_request = tag_context 8 True"
definition pdu_initiate_response :: tag where "pdu_initiate_response = tag_context 9 True"
definition pdu_initiate_error :: tag where "pdu_initiate_error = tag_context 10 True"
definition pdu_conclude_request :: tag where "pdu_conclude_request = tag_context 11 True"

lemmas pdu_tags = pdu_confirmed_request_def pdu_confirmed_response_def pdu_confirmed_error_def
  pdu_unconfirmed_def pdu_reject_def pdu_initiate_request_def pdu_initiate_response_def
  pdu_initiate_error_def pdu_conclude_request_def

definition svc_get_name_list :: tag where "svc_get_name_list = tag_context 1 True"
definition svc_identify_request :: tag where "svc_identify_request = tag_context 2 False"
definition svc_identify_response :: tag where "svc_identify_response = tag_context 2 True"
definition svc_read :: tag where "svc_read = tag_context 4 True"
definition svc_write :: tag where "svc_write = tag_context 5 True"
definition svc_define_list :: tag where "svc_define_list = tag_context 11 True"
definition svc_define_list_response :: tag where "svc_define_list_response = tag_context 11 False"
definition svc_get_list_attributes :: tag where "svc_get_list_attributes = tag_context 12 True"
definition svc_delete_list :: tag where "svc_delete_list = tag_context 13 True"
definition svc_read_journal :: tag where "svc_read_journal = tag_context 65 True"

lemmas service_tags = svc_get_name_list_def svc_identify_request_def svc_identify_response_def
  svc_read_def svc_write_def svc_define_list_def svc_define_list_response_def
  svc_get_list_attributes_def svc_delete_list_def svc_read_journal_def

section \<open>Confirmed services\<close>

definition encode_confirmed_request :: "u32 \<Rightarrow> writing \<Rightarrow> bytes" where
  "encode_confirmed_request invoke_id service =
    into_bytes (w_tlv pdu_confirmed_request (\<lambda>w. w_seq
      [w_integer u_integer (ucast invoke_id), service] w) writer_new)"

definition encode_confirmed_response :: "u32 \<Rightarrow> writing \<Rightarrow> bytes" where
  "encode_confirmed_response invoke_id service =
    into_bytes (w_tlv pdu_confirmed_response (\<lambda>w. w_seq
      [w_integer u_integer (ucast invoke_id), service] w) writer_new)"

definition encode_confirmed_error :: "u32 \<Rightarrow> writing \<Rightarrow> bytes" where
  "encode_confirmed_error invoke_id service_error =
    into_bytes (w_tlv pdu_confirmed_error (\<lambda>w. w_seq
      [w_integer u_integer (ucast invoke_id), service_error] w) writer_new)"

text \<open>\<open>u32::try_from\<close> of an \<open>i64\<close>, whose negative values are the words from \<open>2 ^ 63\<close> on.\<close>

definition u32_try_from :: "u64 \<Rightarrow> u32 option" where
  "u32_try_from v = (if unat v < 2 ^ 32 then Some (ucast v) else None)"

definition read_unsigned_integer :: "(mms_error, u32) reading" where
  "read_unsigned_integer r = thenE (map_errR MeBer (rd_expect u_integer r))
     (\<lambda>c r. (bindE (map_errE MeBer (decode_integer c)) (\<lambda>v.
        ok_or (MeBer BadInteger) (u32_try_from v)), r))"

definition parse_confirmed_request :: "bytes \<Rightarrow> mms_error + u32 \<times> tlv" where
  "parse_confirmed_request pdu =
    bindE (map_errE MeBer (fst (read_tlv (reader_new pdu)))) (\<lambda>outer.
      if tlv_tag outer \<noteq> pdu_confirmed_request then Inl MeUnexpectedPdu
      else fst (thenE (read_unsigned_integer (tlv_reader outer)) (\<lambda>invoke_id r.
             thenE (map_errR MeBer (read_tlv r)) (\<lambda>service r. (Inr (invoke_id, service), r)))))"

text \<open>The format \<open>{:02X?}\<close> of octets.\<close>

definition show_octets :: "bytes \<Rightarrow> string" where
  "show_octets bs = ''['' @ concat (map (\<lambda>i. (if i = 0 then [] else '', '') @
     [hex_digit (unat (bs ! i) div 16), hex_digit (unat (bs ! i) mod 16)]) [0..<length bs]) @ '']''"

record confirmed_response =
  cr_invoke_id :: u32
  cr_service :: tlv

definition parse_confirmed_response :: "bytes \<Rightarrow> mms_error + confirmed_response" where
  "parse_confirmed_response pdu =
    bindE (map_errE MeBer (fst (read_tlv (reader_new pdu)))) (\<lambda>outer.
      if tlv_tag outer = pdu_confirmed_response then
        fst (thenE (read_unsigned_integer (tlv_reader outer)) (\<lambda>invoke_id r.
             thenE (map_errR MeBer (read_tlv r)) (\<lambda>service r.
               (Inr \<lparr>cr_invoke_id = invoke_id, cr_service = service\<rparr>, r))))
      else if tlv_tag outer = pdu_confirmed_error then
        Inl (MeServiceReject (''confirmed-error: '' @ show_octets (tlv_content outer)))
      else if tlv_tag outer = pdu_reject then
        Inl (MeServiceReject (''reject-PDU: '' @ show_octets (tlv_content outer)))
      else Inl MeUnexpectedPdu)"

datatype pdu_kind =
    KConfirmedRequest
  | KConfirmedResponse
  | KConfirmedError
  | KReject
  | KUnconfirmed
  | KInitiateRequest
  | KConcludeRequest
  | KOther

definition peek_request_kind :: "bytes \<Rightarrow> mms_error + pdu_kind" where
  "peek_request_kind pdu =
    bindE (map_errE MeBer (fst (read_tlv (reader_new pdu)))) (\<lambda>outer.
      Inr (if tlv_tag outer = pdu_confirmed_request then KConfirmedRequest
           else if tlv_tag outer = pdu_confirmed_response then KConfirmedResponse
           else if tlv_tag outer = pdu_confirmed_error then KConfirmedError
           else if tlv_tag outer = pdu_reject then KReject
           else if tlv_tag outer = pdu_initiate_request then KInitiateRequest
           else if tlv_tag outer = pdu_conclude_request then KConcludeRequest
           else KOther))"

definition peek_invoke_and_kind :: "bytes \<Rightarrow> mms_error + pdu_kind \<times> u32 option" where
  "peek_invoke_and_kind pdu =
    bindE (map_errE MeBer (fst (read_tlv (reader_new pdu)))) (\<lambda>outer.
      let with_invoke = (\<lambda>kind. Inr (kind, (case fst (read_unsigned_integer (tlv_reader outer)) of
             Inr i \<Rightarrow> Some i | Inl _ \<Rightarrow> None)))
      in if tlv_tag outer = pdu_confirmed_response then with_invoke KConfirmedResponse
         else if tlv_tag outer = pdu_confirmed_error then with_invoke KConfirmedError
         else if tlv_tag outer = pdu_reject then
           bindE (map_errE MeBer (fst (rd_read_if (tag_context 0 False) (tlv_reader outer)))) (\<lambda>c.
             Inr (KReject, (case c of
               Some c \<Rightarrow> (case decode_integer c of Inr v \<Rightarrow> u32_try_from v | Inl _ \<Rightarrow> None)
             | None \<Rightarrow> None)))
         else if tlv_tag outer = pdu_confirmed_request then with_invoke KConfirmedRequest
         else if tlv_tag outer = pdu_unconfirmed then Inr (KUnconfirmed, None)
         else Inr (KOther, None))"

definition parse_unconfirmed :: "bytes \<Rightarrow> mms_error + tlv" where
  "parse_unconfirmed pdu =
    bindE (map_errE MeBer (fst (read_tlv (reader_new pdu)))) (\<lambda>outer.
      if tlv_tag outer \<noteq> pdu_unconfirmed then Inl MeUnexpectedPdu
      else map_errE MeBer (fst (read_tlv (tlv_reader outer))))"

definition check_invoke_id :: "u32 \<Rightarrow> u32 \<Rightarrow> mms_error + unit" where
  "check_invoke_id expected got = (if expected = got then Inr () else Inl (MeInvokeIdMismatch expected got))"

definition expect_service :: "tlv \<Rightarrow> tag \<Rightarrow> mms_error + bytes" where
  "expect_service service t =
    (if tlv_tag service \<noteq> t then Inl MeUnexpectedPdu else Inr (tlv_content service))"

section \<open>Names of variables\<close>

definition m_expect :: "tag \<Rightarrow> (mms_error, bytes) reading" where
  "m_expect t r = map_errR MeBer (rd_expect t r)"

definition m_visible :: "tag \<Rightarrow> (mms_error, string) reading" where
  "m_visible t r = thenE (m_expect t r) (\<lambda>c r. (map_errE MeBer (decode_visible_string c), r))"

text \<open>The two names of a domain-specific object name.\<close>

definition read_two_names :: "bytes \<Rightarrow> mms_error + string \<times> string" where
  "read_two_names ds =
    fst (thenE (m_visible u_visible_string (reader_new ds)) (\<lambda>domain dr.
         thenE (m_visible u_visible_string dr) (\<lambda>item dr. (Inr (domain, item), dr))))"

definition parse_variable :: "bytes \<Rightarrow> mms_error + string \<times> string" where
  "parse_variable seq_content =
    bindE (fst (m_expect (tag_context 0 True) (reader_new seq_content))) (\<lambda>name.
    bindE (fst (m_expect (tag_context 1 True) (reader_new name))) read_two_names)"

text \<open>The loops \<open>while !r.is_empty() { let tlv = r.read_tlv()?; out.push(f(tlv)?); }\<close>; with
  \<open>r.expect(tag)?\<close> in place of \<open>read_tlv\<close> the element is also compared with \<open>tag\<close>.\<close>

function read_each :: "(tlv \<Rightarrow> mms_error + 'a) \<Rightarrow> reader \<Rightarrow> 'a list \<Rightarrow> mms_error + 'a list" where
  "read_each f r out =
    (if rd_is_empty r then Inr out
     else case read_tlv r of
       (Inl e, _) \<Rightarrow> Inl (MeBer e)
     | (Inr t, r') \<Rightarrow> bindE (f t) (\<lambda>x. read_each f r' (out @ [x])))"
  by pat_completeness auto
termination
  by (relation "measure (\<lambda>(f, r, out). remaining r)") (auto dest!: read_tlv_progress(3) [OF sym])

declare read_each.simps [simp del]

definition tlv_expect :: "tag \<Rightarrow> tlv \<Rightarrow> mms_error + bytes" where
  "tlv_expect t v = (if tlv_tag v \<noteq> t then Inl (MeBer (UnexpectedTag (tag_show t) (tag_show (tlv_tag v))))
     else Inr (tlv_content v))"

definition parse_list_of_variable :: "bytes \<Rightarrow> mms_error + (string \<times> string) list" where
  "parse_list_of_variable content =
    read_each (\<lambda>seq. parse_variable (tlv_content seq)) (reader_new content) []"

section \<open>Initiation\<close>

text \<open>An \<open>i32\<close> is a 32-bit word; \<open>as i64\<close> extends its sign and \<open>as i32\<close> truncates.\<close>

record initiate_request =
  ir_local_detail :: u32
  ir_max_serv_out_calling :: u16
  ir_max_serv_out_called :: u16
  ir_nesting_level :: u8

definition initiate_request_default :: initiate_request where
  "initiate_request_default = \<lparr>ir_local_detail = 65000, ir_max_serv_out_calling = 10,
     ir_max_serv_out_called = 10, ir_nesting_level = 10\<rparr>"

definition proposed_version :: u64 where
  "proposed_version = 1"

definition proposed_parameter_cbb :: bit_string where
  "proposed_parameter_cbb = bits_from (map (\<lambda>i. i \<in> {0, 1, 2, 3, 4, 7}) [0..<11])"

definition services_supported_calling :: bit_string where
  "services_supported_calling = bits_from (map (\<lambda>i. i \<in> {1, 2, 4}) [0..<85])"

definition initiate_request_encode :: "initiate_request \<Rightarrow> bytes" where
  "initiate_request_encode q =
    into_bytes (w_tlv pdu_initiate_request (\<lambda>w. w_seq
      [w_integer (tag_context 0 False) (scast (ir_local_detail q)),
       w_integer (tag_context 1 False) (ucast (ir_max_serv_out_calling q)),
       w_integer (tag_context 2 False) (ucast (ir_max_serv_out_called q)),
       w_integer (tag_context 3 False) (ucast (ir_nesting_level q)),
       w_tlv (tag_context 4 True) (\<lambda>w. w_seq
         [w_integer (tag_context 0 False) proposed_version,
          w_bit_string (tag_context 1 False) proposed_parameter_cbb,
          w_bit_string (tag_context 2 False) services_supported_calling] w)] w) writer_new)"

definition read_int :: "tag \<Rightarrow> (mms_error, u64) reading" where
  "read_int t r = thenE (m_expect t r) (\<lambda>c r. (map_errE MeBer (decode_integer c), r))"

definition read_opt_int :: "tag \<Rightarrow> (mms_error, u64 option) reading" where
  "read_opt_int t r = thenE (map_errR MeBer (rd_read_if t r)) (\<lambda>c r.
     ((case c of
         Some c \<Rightarrow> bindE (map_errE MeBer (decode_integer c)) (\<lambda>v. Inr (Some v))
       | None \<Rightarrow> Inr None), r))"

definition unwrap_or_0 :: "u64 option \<Rightarrow> u64" where
  "unwrap_or_0 v = (case v of Some v \<Rightarrow> v | None \<Rightarrow> 0)"

definition initiate_request_decode :: "bytes \<Rightarrow> mms_error + initiate_request" where
  "initiate_request_decode pdu =
    bindE (map_errE MeBer (fst (read_tlv (reader_new pdu)))) (\<lambda>outer.
      if tlv_tag outer \<noteq> pdu_initiate_request then Inl MeUnexpectedPdu
      else fst
        (thenE (read_opt_int (tag_context 0 False) (tlv_reader outer)) (\<lambda>local_detail r.
         thenE (read_int (tag_context 1 False) r) (\<lambda>calling r.
         thenE (read_int (tag_context 2 False) r) (\<lambda>called r.
         thenE (read_opt_int (tag_context 3 False) r) (\<lambda>nesting r.
           (Inr \<lparr>ir_local_detail = ucast (unwrap_or_0 local_detail), ir_max_serv_out_calling = ucast calling,
                 ir_max_serv_out_called = ucast called, ir_nesting_level = ucast (unwrap_or_0 nesting)\<rparr>, r)))))))"

record initiate_response =
  is_local_detail_called :: "u32 option"
  is_max_serv_out_calling :: u16
  is_max_serv_out_called :: u16
  is_nesting_level :: "u8 option"
  is_version :: u64

definition initiate_accept :: "initiate_request \<Rightarrow> initiate_response" where
  "initiate_accept req = \<lparr>is_local_detail_called = Some 65000,
     is_max_serv_out_calling = min (ir_max_serv_out_calling req) 10,
     is_max_serv_out_called = min (ir_max_serv_out_called req) 10,
     is_nesting_level = Some (min (ir_nesting_level req) 10), is_version = proposed_version\<rparr>"

definition initiate_response_encode :: "initiate_response \<Rightarrow> bytes" where
  "initiate_response_encode s =
    into_bytes (w_tlv pdu_initiate_response (\<lambda>w. w_seq
      [(case is_local_detail_called s of
          Some ld \<Rightarrow> w_integer (tag_context 0 False) (scast ld)
        | None \<Rightarrow> (\<lambda>w. w)),
       w_integer (tag_context 1 False) (ucast (is_max_serv_out_calling s)),
       w_integer (tag_context 2 False) (ucast (is_max_serv_out_called s)),
       (case is_nesting_level s of
          Some n \<Rightarrow> w_integer (tag_context 3 False) (ucast n)
        | None \<Rightarrow> (\<lambda>w. w)),
       w_tlv (tag_context 4 True) (\<lambda>w. w_seq
         [w_integer (tag_context 0 False) (is_version s),
          w_bit_string (tag_context 1 False) proposed_parameter_cbb,
          w_bit_string (tag_context 2 False) services_supported_calling] w)] w) writer_new)"

definition initiate_response_decode :: "bytes \<Rightarrow> mms_error + initiate_response" where
  "initiate_response_decode pdu =
    bindE (map_errE MeBer (fst (read_tlv (reader_new pdu)))) (\<lambda>outer.
      if tlv_tag outer = pdu_initiate_error then
        Inl (MeAssociateRejected (''initiate-error: '' @ show_octets (tlv_content outer)))
      else if tlv_tag outer \<noteq> pdu_initiate_response then Inl MeUnexpectedPdu
      else fst
        (thenE (read_opt_int (tag_context 0 False) (tlv_reader outer)) (\<lambda>local_detail r.
         thenE (read_int (tag_context 1 False) r) (\<lambda>calling r.
         thenE (read_int (tag_context 2 False) r) (\<lambda>called r.
         thenE (read_opt_int (tag_context 3 False) r) (\<lambda>nesting r.
         thenE (m_expect (tag_context 4 True) r) (\<lambda>detail r.
         thenE (read_int (tag_context 0 False) (reader_new detail)) (\<lambda>version _.
           (Inr \<lparr>is_local_detail_called = map_option ucast local_detail, is_max_serv_out_calling = ucast calling,
                 is_max_serv_out_called = ucast called, is_nesting_level = map_option ucast nesting,
                 is_version = version\<rparr>, r)))))))))"

section \<open>Facts\<close>

lemma ucast_u32_u64: "unat (ucast (i :: u32) :: u64) = unat i" "(ucast (ucast i :: u64) :: u32) = i"
  using unsigned_less [of i, where ?'a = nat] by (simp_all add: unat_ucast_mod word_unat_eq_iff)

lemma ucast_u16_u64: "(ucast (ucast (i :: u16) :: u64) :: u16) = i"
  by (rule bit_word_eqI) (simp add: bit_ucast_iff)

lemma ucast_u8_u64: "(ucast (ucast (i :: u8) :: u64) :: u8) = i"
  by (rule bit_word_eqI) (simp add: bit_ucast_iff)

lemma ucast_scast_i32: "(ucast (scast (i :: u32) :: u64) :: u32) = i"
  by (rule bit_word_eqI) (auto simp: bit_ucast_iff bit_signed_iff)

lemma u32_try_from_ucast [simp]: "u32_try_from (ucast i) = Some i"
  using unsigned_less [of i, where ?'a = nat] by (simp add: u32_try_from_def ucast_u32_u64)

lemma read_unsigned_integer_at:
  "slice_ok pre (tlv_bytes u_integer (encode_integer (ucast i)) @ rest) \<Longrightarrow>
    read_unsigned_integer (rd_at pre (tlv_bytes u_integer (encode_integer (ucast i)) @ rest)) =
      (Inr i, rd_at (pre @ tlv_bytes u_integer (encode_integer (ucast i))) rest)"
  by (simp add: read_unsigned_integer_def expect_field map_errR_def decode_encode_integer)

lemma m_expect_at:
  "slice_ok pre (tlv_bytes t c @ rest) \<Longrightarrow>
    m_expect t (rd_at pre (tlv_bytes t c @ rest)) = (Inr c, rd_at (pre @ tlv_bytes t c) rest)"
  by (simp add: m_expect_def expect_field map_errR_def)

lemma m_expect_last:
  "slice_ok pre (tlv_bytes t c) \<Longrightarrow>
    m_expect t (rd_at pre (tlv_bytes t c)) = (Inr c, rd_at (pre @ tlv_bytes t c) [])"
  by (simp add: m_expect_def expect_field_last map_errR_def)

lemma m_visible_at:
  "slice_ok pre (tlv_bytes t (as_bytes s) @ rest) \<Longrightarrow> str_ok s \<Longrightarrow>
    m_visible t (rd_at pre (tlv_bytes t (as_bytes s) @ rest)) = (Inr s, rd_at (pre @ tlv_bytes t (as_bytes s)) rest)"
  by (simp add: m_visible_def m_expect_at decode_visible_as_bytes)

lemma m_visible_last:
  "slice_ok pre (tlv_bytes t (as_bytes s)) \<Longrightarrow> str_ok s \<Longrightarrow>
    m_visible t (rd_at pre (tlv_bytes t (as_bytes s))) = (Inr s, rd_at (pre @ tlv_bytes t (as_bytes s)) [])"
  by (simp add: m_visible_def m_expect_last decode_visible_as_bytes)

lemma read_int_at:
  "slice_ok pre (tlv_bytes t (encode_integer v) @ rest) \<Longrightarrow>
    read_int t (rd_at pre (tlv_bytes t (encode_integer v) @ rest)) =
      (Inr v, rd_at (pre @ tlv_bytes t (encode_integer v)) rest)"
  by (simp add: read_int_def m_expect_at decode_encode_integer)

lemma read_opt_int_at:
  "slice_ok pre (tlv_bytes t (encode_integer v) @ rest) \<Longrightarrow>
    read_opt_int t (rd_at pre (tlv_bytes t (encode_integer v) @ rest)) =
      (Inr (Some v), rd_at (pre @ tlv_bytes t (encode_integer v)) rest)"
  by (simp add: read_opt_int_def rd_read_if_at slice_ok_def map_errR_def decode_encode_integer)

lemma read_opt_int_other:
  "slice_ok pre (tlv_bytes u c @ rest) \<Longrightarrow> t \<noteq> u \<Longrightarrow>
    read_opt_int t (rd_at pre (tlv_bytes u c @ rest)) = (Inr None, rd_at pre (tlv_bytes u c @ rest))"
  by (simp add: read_opt_int_def rd_read_if_at slice_ok_def map_errR_def)

lemma read_opt_int_other_last:
  "slice_ok pre (tlv_bytes u c) \<Longrightarrow> t \<noteq> u \<Longrightarrow>
    read_opt_int t (rd_at pre (tlv_bytes u c)) = (Inr None, rd_at pre (tlv_bytes u c))"
  using read_opt_int_other [of pre u c "[]" t] by simp

text \<open>Bounds on what the initiation writes.\<close>

lemma bits_from_octets: "length (bs_bytes (bits_from bits)) = div_ceil (length bits) 8"
proof -
  have "length bits \<le> 8 * div_ceil (length bits) 8"
    unfolding div_ceil_def by linarith
  then show ?thesis
    using bits_fold [of 0 bits "replicate (div_ceil (length bits) 8) 0"] by (simp add: bits_from_def Let_def)
qed

lemma bit_strings_short: "length (bs_bytes proposed_parameter_cbb) = 2" "length (bs_bytes services_supported_calling) = 11"
  by (simp_all only: proposed_parameter_cbb_def services_supported_calling_def bits_from_octets) (simp_all add: div_ceil_def)

definition detail_bytes :: "u64 \<Rightarrow> bytes" where
  "detail_bytes v = tlv_bytes (tag_context 0 False) (encode_integer v) @
     tlv_bytes (tag_context 1 False) (unused_bits proposed_parameter_cbb # bs_bytes proposed_parameter_cbb) @
     tlv_bytes (tag_context 2 False) (unused_bits services_supported_calling # bs_bytes services_supported_calling)"

definition initiate_fields :: "u32 option \<Rightarrow> u16 \<Rightarrow> u16 \<Rightarrow> u8 option \<Rightarrow> u64 \<Rightarrow> bytes" where
  "initiate_fields ld calling called n v =
     (case ld of Some ld \<Rightarrow> tlv_bytes (tag_context 0 False) (encode_integer (scast ld)) | None \<Rightarrow> []) @
     tlv_bytes (tag_context 1 False) (encode_integer (ucast calling)) @
     tlv_bytes (tag_context 2 False) (encode_integer (ucast called)) @
     (case n of Some n \<Rightarrow> tlv_bytes (tag_context 3 False) (encode_integer (ucast n)) | None \<Rightarrow> []) @
     tlv_bytes (tag_context 4 True) (detail_bytes v)"

lemma initiate_request_bytes:
  "initiate_request_encode q = tlv_bytes pdu_initiate_request (initiate_fields (Some (ir_local_detail q))
     (ir_max_serv_out_calling q) (ir_max_serv_out_called q) (Some (ir_nesting_level q)) proposed_version)"
  by (simp add: initiate_request_encode_def initiate_fields_def detail_bytes_def w_put)

lemma initiate_response_bytes:
  "initiate_response_encode s = tlv_bytes pdu_initiate_response (initiate_fields (is_local_detail_called s)
     (is_max_serv_out_calling s) (is_max_serv_out_called s) (is_nesting_level s) (is_version s))"
  by (cases "is_local_detail_called s"; cases "is_nesting_level s")
    (simp_all add: initiate_response_encode_def initiate_fields_def detail_bytes_def w_put w_seq_simps)

lemma initiate_fields_short: "length (initiate_fields ld calling called n v) \<le> 300"
proof -
  have e: "length (tlv_bytes t (encode_integer x)) \<le> 23" for t x
    using tlv_bytes_bound [of t "encode_integer x"] length_encode_integer(2) [of x] by simp
  have "length (detail_bytes v) \<le> 70"
    using bit_strings_short e [of "tag_context 0 False" v]
      tlv_bytes_bound [of "tag_context 1 False" "unused_bits proposed_parameter_cbb # bs_bytes proposed_parameter_cbb"]
      tlv_bytes_bound [of "tag_context 2 False" "unused_bits services_supported_calling # bs_bytes services_supported_calling"]
    by (simp add: detail_bytes_def)
  then have d: "length (tlv_bytes (tag_context 4 True) (detail_bytes v)) \<le> 85"
    using tlv_bytes_bound [of "tag_context 4 True" "detail_bytes v"] by simp
  have o: "length (case ld of Some ld \<Rightarrow> tlv_bytes (tag_context 0 False) (encode_integer (scast ld)) | None \<Rightarrow> []) \<le> 23"
    "length (case n of Some n \<Rightarrow> tlv_bytes (tag_context 3 False) (encode_integer (ucast n)) | None \<Rightarrow> []) \<le> 23"
    using e by (auto split: option.splits)
  show ?thesis
    using d o e [of "tag_context 1 False" "ucast calling"] e [of "tag_context 2 False" "ucast called"]
    by (simp add: initiate_fields_def)
qed

lemma initiate_fields_slice: "slice_ok [] (initiate_fields ld calling called n v)"
  using initiate_fields_short [of ld calling called n v] by (simp add: slice_ok_def usize_limit_def)

lemma initiate_short: "length (tlv_bytes t (initiate_fields ld calling called n v)) \<le> 315"
  using initiate_fields_short [of ld calling called n v] tlv_bytes_bound [of t "initiate_fields ld calling called n v"]
  by simp

lemma initiate_request_decode_encode: "initiate_request_decode (initiate_request_encode q) = Inr q"
proof -
  let ?f = "initiate_fields (Some (ir_local_detail q)) (ir_max_serv_out_calling q) (ir_max_serv_out_called q)
      (Some (ir_nesting_level q)) proposed_version"
  have "length (tlv_bytes pdu_initiate_request ?f) < usize_limit"
    using initiate_short [of pdu_initiate_request] by (rule le_less_trans) (simp add: usize_limit_def)
  moreover have "slice_ok [] ?f" by (rule initiate_fields_slice)
  ultimately show ?thesis
    by (simp add: initiate_request_decode_def initiate_request_bytes read_tlv_single)
      (simp add: initiate_fields_def tlv_reader_at slice_ok_step read_opt_int_at read_int_at
        unwrap_or_0_def ucast_u16_u64 ucast_u8_u64 ucast_scast_i32)
qed

lemma initiate_response_decode_encode: "initiate_response_decode (initiate_response_encode s) = Inr s"
proof -
  let ?f = "initiate_fields (is_local_detail_called s) (is_max_serv_out_calling s) (is_max_serv_out_called s)
      (is_nesting_level s) (is_version s)"
  have "length (tlv_bytes pdu_initiate_response ?f) < usize_limit"
    using initiate_short [of pdu_initiate_response] by (rule le_less_trans) (simp add: usize_limit_def)
  moreover have "slice_ok [] ?f" by (rule initiate_fields_slice)
  moreover from this have "slice_ok [] (detail_bytes (is_version s))"
    using length_content_less [of "detail_bytes (is_version s)" "tag_context 4 True"]
    by (simp add: initiate_fields_def slice_ok_def)
  ultimately show ?thesis
    by (simp add: initiate_response_decode_def initiate_response_bytes read_tlv_single pdu_tags)
      (cases "is_local_detail_called s"; cases "is_nesting_level s";
       simp add: initiate_fields_def tlv_reader_at reader_new_at slice_ok_step read_opt_int_at read_opt_int_other
        read_opt_int_other_last read_int_at m_expect_last detail_bytes_def ucast_u16_u64 ucast_u8_u64 ucast_scast_i32)
qed

text \<open>The agreed numbers exceed neither the proposal nor the capacity of the server.\<close>

lemma initiate_accept_bounds:
  "is_max_serv_out_calling (initiate_accept q) \<le> min (ir_max_serv_out_calling q) 10"
  "is_max_serv_out_called (initiate_accept q) \<le> min (ir_max_serv_out_called q) 10"
  "is_nesting_level (initiate_accept q) = Some (min (ir_nesting_level q) 10)"
  by (simp_all add: initiate_accept_def)

end
