(* ===== verification/Association.thy ===== *)
theory Association imports MmsPdu begin

text \<open>
  The establishment of an association: the handshake of \<open>handle_connection\<close>
  (\<open>crates/iec61850-mms/src/server.rs\<close>) and of \<open>MmsClient::handshake\<close> (\<open>client.rs\<close>), composed of the
  transport, session, presentation, ACSE and initiation layers. Each end is a function of the octets
  it reads; the authentication policy and the verdict on the peer's certificate are arguments.
  Timeouts and failures of the socket are not modelled. The property relates the two ends over one
  stream of octets.
\<close>

unbundle bit_operations_syntax

definition our_src_ref :: u16 where "our_src_ref = 0x0002"
definition local_src_ref :: u16 where "local_src_ref = 0x0001"

text \<open>The format \<open>{:?}\<close> of the verdicts.\<close>

fun show_verdict :: "context_verdict \<Rightarrow> string" where
  "show_verdict Acceptance = ''Acceptance''"
| "show_verdict AbstractSyntaxNotSupported = ''AbstractSyntaxNotSupported''"
| "show_verdict TransferSyntaxesNotSupported = ''TransferSyntaxesNotSupported''"

definition show_verdicts :: "context_verdict list \<Rightarrow> string" where
  "show_verdicts vs = ''['' @ concat (map (\<lambda>i. (if i = 0 then [] else '', '') @ show_verdict (vs ! i))
     [0..<length vs]) @ '']''"

text \<open>What the server answers to: the association request, the builder of the answer (\<open>accept_of\<close>)
  and the context of the data phase.\<close>

definition server_negotiation :: "bytes \<Rightarrow> mms_error + bytes \<times> (bytes \<Rightarrow> bytes) \<times> u64" where
  "server_negotiation assoc =
    (case bindE (parse_connect assoc) (\<lambda>sess.
            bindE (parse_cp (cs_user_data sess)) (\<lambda>cp. Inr (cp, sess))) of
       Inr (cp, sess) \<Rightarrow>
         let neg = negotiate (cp_contexts cp)
         in (case (neg_acse_id neg, neg_mms_id neg) of
               (Some acse_id, Some mms_id) \<Rightarrow>
                 Inr (cp_inner_pdu cp,
                      (\<lambda>aare. accept_with_version
                         (connect_cpa_negotiated aare neg (cp_called_selector cp) acse_id)
                         (negotiated_version sess)),
                      mms_id)
             | _ \<Rightarrow> Inl (MeAssociateRejected (''CP sin contextos ACSE/MMS aceptables: '' @
                      show_verdicts (neg_verdicts neg))))
     | Inl _ \<Rightarrow>
         bindE (extract_inner_pdu assoc) (\<lambda>aarq.
           Inr (aarq, (\<lambda>aare. session_accept (connect_cpa aare)), mms_context_id)))"

text \<open>The unit to send, if any, and the role and context of the connection. The policy and the
  verdict on the peer's certificate (an error text, or its common name) are arguments.\<close>

definition server_associate ::
    "(bytes option \<Rightarrow> string option \<Rightarrow> 'role option) \<Rightarrow> string + string option \<Rightarrow> bytes \<Rightarrow>
     bytes option \<times> (mms_error + 'role \<times> u64)" where
  "server_associate authorize cert assoc =
    (case server_negotiation assoc of
       Inl e \<Rightarrow> (None, Inl e)
     | Inr (request, accept_of, mms_ctx) \<Rightarrow>
         let password = extract_auth_password request
         in (case cert of
               Inl e \<Rightarrow> (Some (accept_of aare_reject),
                 Inl (MeAssociateRejected (''certificado rechazado (62351-9): '' @ e)))
             | Inr cert_cn \<Rightarrow>
                 (case authorize password cert_cn of
                    None \<Rightarrow> (Some (accept_of aare_reject),
                      Inl (MeAssociateRejected (''autenticaci'' @ o_acute @ ''n fallida (62351-4)'')))
                  | Some role \<Rightarrow>
                      (case bindE (parse_aarq request) initiate_request_decode of
                         Inl e \<Rightarrow> (None, Inl e)
                       | Inr req \<Rightarrow>
                           (Some (accept_of (aare (initiate_response_encode (initiate_accept req)))),
                            Inr (role, mms_ctx))))))"

text \<open>The handshake of the server over its input stream: the octets it writes, what it ends with, and
  the input left for the data phase.\<close>

definition server_handshake ::
    "(bytes option \<Rightarrow> string option \<Rightarrow> 'role option) \<Rightarrow> string + string option \<Rightarrow> bytes \<Rightarrow>
     bytes \<times> (mms_error + 'role \<times> u64) \<times> bytes" where
  "server_handshake authorize cert input =
    (case iso_recv input of
       (Inl e, input) \<Rightarrow> ([], Inl e, input)
     | (Inr cr, input) \<Rightarrow>
         (case parse_connection_request cr of
            Inl e \<Rightarrow> ([], Inl e, input)
          | Inr client_ref \<Rightarrow>
              let cc = iso_send (connection_confirm client_ref our_src_ref)
              in (case recv_data input of
                    (Inl e, input) \<Rightarrow> (cc, Inl e, input)
                  | (Inr assoc, input) \<Rightarrow>
                      (case server_associate authorize cert assoc of
                         (reply, result) \<Rightarrow>
                           (cc @ (case reply of Some u \<Rightarrow> send_data u | None \<Rightarrow> []), result, input)))))"

text \<open>The client: what it writes, and what it makes of the octets it reads.\<close>

definition client_hello :: bytes where
  "client_hello = iso_send (connection_request local_src_ref)"

definition client_association :: "bytes option \<Rightarrow> bytes" where
  "client_association auth_value =
    (let initiate = initiate_request_encode initiate_request_default;
         aarq = aarq_auth initiate auth_value;
         cp = connect_cp aarq
     in send_data (session_connect cp))"

definition client_confirmed :: "bytes \<Rightarrow> mms_error + bytes" where
  "client_confirmed input =
    (case iso_recv input of
       (Inl e, _) \<Rightarrow> Inl e
     | (Inr cc, input) \<Rightarrow> bindE (parse_connection_confirm cc) (\<lambda>_. Inr input))"

definition client_associated :: "bytes \<Rightarrow> mms_error + initiate_response \<times> bytes" where
  "client_associated input =
    (case recv_data input of
       (Inl e, _) \<Rightarrow> Inl e
     | (Inr resp, input) \<Rightarrow>
         bindE (check_cpa_results resp) (\<lambda>_.
         bindE (extract_inner_pdu resp) (\<lambda>aare.
         bindE (parse_aare aare) (\<lambda>initiate.
         bindE (initiate_response_decode initiate) (\<lambda>negotiated. Inr (negotiated, input))))))"

section \<open>Facts\<close>

lemma own_bit_strings: "unused_bits proposed_parameter_cbb # bs_bytes proposed_parameter_cbb = [5, 0xF9, 0]"
  "unused_bits services_supported_calling # bs_bytes services_supported_calling = [3, 0x68, 0, 0, 0, 0, 0, 0, 0, 0, 0, 0]"
  by code_simp+

lemma own_negotiation: "negotiate own_contexts = \<lparr>neg_acse_id = Some 1, neg_mms_id = Some 3,
    neg_verdicts = [Acceptance, Acceptance]\<rparr>"
  by (simp add: negotiate_spec own_contexts_def first_accepted_simps verdict_of_def acse_context_id_def
      mms_context_id_def)

definition own_response :: initiate_response where
  "own_response = \<lparr>is_local_detail_called = Some 65000, is_max_serv_out_calling = 10,
     is_max_serv_out_called = 10, is_nesting_level = Some 10, is_version = 1\<rparr>"

lemma own_response_accept: "initiate_accept initiate_request_default = own_response"
  by (simp add: initiate_accept_def initiate_request_default_def own_response_def proposed_version_def)

lemma own_response_bytes: "initiate_response_encode own_response =
   [0xA9, 38, 128, 3, 0, 253, 232, 129, 1, 10, 130, 1, 10, 131, 1, 10, 0xA4, 22, 128, 1, 1, 129, 3, 5, 0xF9, 0, 130, 12, 3, 0x68, 0, 0, 0, 0, 0, 0, 0, 0, 0, 0]"
  by (simp add: initiate_response_bytes initiate_fields_def detail_bytes_def own_response_def own_bit_strings
      pdu_tags evals)


text \<open>The octets of the server's two answers to a client of this program.\<close>

definition own_accept :: "bytes \<Rightarrow> bytes" where
  "own_accept unit = accept_with_version (connect_cpa_negotiated unit (negotiate own_contexts) (Some [0, 0, 0, 1]) 1) 2"

lemma fold_verdicts: "fold verdict_item vs = put (concat (map (\<lambda>v. case v of
     Acceptance \<Rightarrow> tlv_bytes u_sequence (tlv_bytes (tag_context 0 False) (encode_integer 0) @
       tlv_bytes (tag_context 1 False) (oid_bytes ber_ts))
   | AbstractSyntaxNotSupported \<Rightarrow> tlv_bytes u_sequence (tlv_bytes (tag_context 0 False) (encode_integer 2) @
       tlv_bytes (tag_context 2 False) (encode_integer 1))
   | TransferSyntaxesNotSupported \<Rightarrow> tlv_bytes u_sequence (tlv_bytes (tag_context 0 False) (encode_integer 2) @
       tlv_bytes (tag_context 2 False) (encode_integer 2))) vs))"
  by (rule ext, rule fold_put)
    (simp add: verdict_item_def result_list_item_def rejection_item_def w_put u_sequence_def split: context_verdict.splits)

lemma cpa_bytes: "connect_cpa_negotiated unit (negotiate own_contexts) (Some [0, 0, 0, 1]) 1 =
   tlv_bytes set_tag (mode_bytes @ tlv_bytes (tag_context 2 True)
     (tlv_bytes (tag_context 3 False) [0, 0, 0, 1] @
      tlv_bytes (tag_context 5 True) [0x30, 7, 128, 1, 0, 129, 2, 0x51, 1, 0x30, 7, 128, 1, 0, 129, 2, 0x51, 1] @
      user_data unit 1))"
proof -
  have r: "tlv_bytes u_sequence (tlv_bytes (tag_context 0 False) (encode_integer 0) @
       tlv_bytes (tag_context 1 False) [0x51, 1]) = [0x30, 7, 128, 1, 0, 129, 2, 0x51, 1]"
    by (simp add: upper_tags evals)
  have v: "(\<lambda>w. verdict_item Acceptance (verdict_item Acceptance w)) =
      put [0x30, 7, 128, 1, 0, 129, 2, 0x51, 1, 0x30, 7, 128, 1, 0, 129, 2, 0x51, 1]"
    using fold_verdicts [of "[Acceptance, Acceptance]"] by (simp add: r comp_def)
  show ?thesis
    by (simp add: connect_cpa_negotiated_def own_negotiation mode_bytes_def w_put v)
qed

lemma own_aare_bytes: "aare (initiate_response_encode own_response) =
   [0x61, 70, 161, 7, 6, 5, 0x28, 0xCA, 0x22, 2, 3, 162, 3, 2, 1, 0, 163, 5, 161, 3, 2, 1, 0] @
   [190, 47, 0x28, 45, 2, 1, 3, 160, 40] @ initiate_response_encode own_response"
  unfolding own_response_bytes
  by (simp add: aare_bytes app_context_field_def result_fields_def external_bytes_def fields_bytes_simps
      upper_tags aare_tag_def external_tag_def mms_pres_context_id_def evals)

lemma short_tlv:
  assumes "tag_encode t = [a]" "length c = n" "n < 128"
  shows "tlv_bytes t c = [a, word_of_nat n] @ c"
  using assms by (simp add: tlv_bytes_def encode_len_def)

lemma own_accept_bytes:
  assumes "length (user_data unit 1) = L" "L < 90"
  shows "own_accept unit = [0x0E, word_of_nat (49 + L), 5, 6, 0x13, 1, 0, 0x16, 1, 2, 0x14, 2, 0, 2, 0xC1, word_of_nat (35 + L)] @
    [0x31, word_of_nat (33 + L)] @ [0xA0, 3, 0x80, 1, 1] @ [0xA2, word_of_nat (26 + L)] @ [0x83, 4, 0, 0, 0, 1] @ [0xA5, 18] @
    [0x30, 7, 128, 1, 0, 129, 2, 0x51, 1, 0x30, 7, 128, 1, 0, 129, 2, 0x51, 1] @ user_data unit 1"
proof -
  let ?results = "[0x30, 7, 128, 1, 0, 129, 2, 0x51, 1, 0x30, 7, 128, 1, 0, 129, 2, 0x51, 1] :: bytes"
  let ?normal = "[0x83, 4, 0, 0, 0, 1] @ [0xA5, 18] @ ?results @ user_data unit 1"
  let ?set = "[0xA0, 3, 0x80, 1, 1] @ [0xA2, word_of_nat (26 + L)] @ ?normal"
  let ?cpa = "[0x31, word_of_nat (33 + L)] @ ?set"
  have m: "mode_bytes = [0xA0, 3, 0x80, 1, 1]"
    by (simp add: mode_bytes_def evals)
  have f: "tlv_bytes (tag_context 3 False) [0, 0, 0, 1] = [0x83, 4, 0, 0, 0, 1]"
    "tlv_bytes (tag_context 5 True) ?results = [0xA5, 18] @ ?results"
    by (simp_all add: evals)
  have l: "length ?normal = 26 + L" "length ?set = 33 + L" "length ?cpa = 35 + L" using assms(1) by simp_all
  have n: "tlv_bytes (tag_context 2 True) ?normal = [0xA2, word_of_nat (26 + L)] @ ?normal"
    by (rule short_tlv [OF _ l(1)]) (use assms(2) in \<open>simp_all add: evals\<close>)
  have c: "tlv_bytes set_tag ?set = ?cpa"
    by (rule short_tlv [OF _ l(2)]) (use assms(2) in \<open>simp_all add: set_tag_def evals\<close>)
  have "connect_cpa_negotiated unit (negotiate own_contexts) (Some [0, 0, 0, 1]) 1 = ?cpa"
    unfolding cpa_bytes m f append.assoc using n c by simp
  moreover have "accept_with_version ?cpa 2 =
     [0x0E, word_of_nat (49 + L), 5, 6, 0x13, 1, 0, 0x16, 1, 2, 0x14, 2, 0, 2, 0xC1, word_of_nat (35 + L)] @ ?cpa"
    unfolding accept_with_version_def Let_def push_li_def l(3) using assms
    by (simp add: session_codes)
  ultimately show ?thesis by (simp only: own_accept_def append.assoc)
qed

lemma check_skips: "0x31 \<notin> set pre \<Longrightarrow> check_cpa_results (pre @ bs) = check_cpa_results bs"
  by (induction pre) (auto simp: check_cpa_results_def)

lemma find_in_step:
  assumes "slice_ok pre (tlv_bytes u c @ rest)"
  shows "find_in_loop (rd_at pre (tlv_bytes u c @ rest)) t =
    (if u = t then Some c else find_in_loop (rd_at (pre @ tlv_bytes u c) rest) t)"
  using read_tlv_head [OF assms] by (subst find_in_loop.simps) simp

lemma own_results: "result_loop (reader_new [0x30, 7, 128, 1, 0, 129, 2, 0x51, 1, 0x30, 7, 128, 1, 0, 129, 2, 0x51, 1]) 0 = Inr ()"
proof -
  let ?i = "[128, 1, 0, 129, 2, 0x51, 1] :: bytes"
  have t: "tlv_bytes u_sequence ?i = [0x30, 7] @ ?i" by (simp add: upper_tags evals)
  have s: "slice_ok [] (tlv_bytes u_sequence ?i @ tlv_bytes u_sequence ?i)"
    by (simp add: t slice_ok_def usize_limit_def)
  have r: "read_tlv (reader_new ?i) = (Inr \<lparr>tlv_tag = tag_context 0 False, tlv_content = [0]\<rparr>,
      \<lparr>rd_data = ?i, rd_pos = 3\<rparr>)" by (simp add: evals)
  have d: "decode_integer [0] = Inr 0" by (simp add: evals)
  have "result_loop (rd_at [] (tlv_bytes u_sequence ?i @ tlv_bytes u_sequence ?i)) 0 =
      result_loop (rd_at (tlv_bytes u_sequence ?i) (tlv_bytes u_sequence ?i)) 1"
    using read_tlv_head [OF s] by (subst result_loop.simps) (simp add: r d Let_def del: append_assoc)
  also have "\<dots> = result_loop (rd_at (tlv_bytes u_sequence ?i @ tlv_bytes u_sequence ?i) []) 2"
    using read_tlv_head [of "tlv_bytes u_sequence ?i" u_sequence ?i "[]"] s
    by (subst result_loop.simps) (simp add: r d Let_def slice_ok_def numeral_2_eq_2)
  also have "\<dots> = Inr ()" by (subst result_loop.simps) simp
  finally show ?thesis by (simp add: t reader_new_at)
qed

text \<open>What the client makes of the two answers; no earlier octet of theirs looks like a
  \<open>fully-encoded-data\<close> or a \<open>SET\<close>.\<close>

lemma own_accept_read:
  assumes "length (user_data unit 1) = L" "L \<in> {32, 81}"
  shows "check_cpa_results (own_accept unit) = Inr ()" "extract_inner_pdu (own_accept unit) = Inr unit"
proof -
  let ?p1 = "[0x0E, word_of_nat (49 + L), 5, 6, 0x13, 1, 0, 0x16, 1, 2, 0x14, 2, 0, 2, 0xC1, word_of_nat (35 + L)] :: bytes"
  let ?results = "[0x30, 7, 128, 1, 0, 129, 2, 0x51, 1, 0x30, 7, 128, 1, 0, 129, 2, 0x51, 1] :: bytes"
  let ?p2 = "[0x31, word_of_nat (33 + L)] @ [0xA0, 3, 0x80, 1, 1] @ [0xA2, word_of_nat (26 + L)] @ [0x83, 4, 0, 0, 0, 1] @ [0xA5, 18] @ ?results"
  have b: "own_accept unit = ?p1 @ ?p2 @ user_data unit 1"
    using own_accept_bytes [OF assms(1)] assms(2) by auto
  have "0x61 \<notin> set (?p1 @ ?p2)" using assms(2) by auto
  from extract_skips [OF this, of "user_data unit 1"] show "extract_inner_pdu (own_accept unit) = Inr unit"
    using extract_user_data [where pdu = unit and i = 1 and rest = "[]"] assms by (auto simp: b usize_limit_def)
  let ?u = "tlv_bytes fully_encoded (pdv_bytes unit 1)"
  let ?normal = "tlv_bytes (tag_context 3 False) [0, 0, 0, 1] @ tlv_bytes (tag_context 5 True) ?results @ ?u"
  let ?set = "tlv_bytes (tag_context 0 True) [0x80, 1, 1] @ tlv_bytes (tag_context 2 True) ?normal"
  have f: "tlv_bytes (tag_context 3 False) [0, 0, 0, 1] = [0x83, 4, 0, 0, 0, 1]"
    "tlv_bytes (tag_context 5 True) ?results = [0xA5, 18] @ ?results"
    "tlv_bytes (tag_context 0 True) [0x80, 1, 1] = [0xA0, 3, 0x80, 1, 1]"
    by (simp_all add: evals)
  have l1: "length ?normal = 26 + L"
    using assms(1) by (simp add: f user_data_bytes)
  have n: "tlv_bytes (tag_context 2 True) ?normal = [0xA2, word_of_nat (26 + L)] @ ?normal"
    by (rule short_tlv [OF _ l1]) (use assms(2) in \<open>auto simp: evals\<close>)
  have l2: "length ?set = 33 + L"
    unfolding n f(3) using l1 by simp
  have c: "tlv_bytes set_tag ?set = [0x31, word_of_nat (33 + L)] @ ?set"
    by (rule short_tlv [OF _ l2]) (use assms(2) in \<open>auto simp: set_tag_def evals\<close>)
  have p: "?p2 @ user_data unit 1 = tlv_bytes set_tag ?set"
    by (subst c, subst n) (simp add: f user_data_bytes)
  have ok: "slice_ok [] ?set" "slice_ok [] ?normal"
    using l1 l2 assms(2) by (auto simp: slice_ok_def usize_limit_def)
  have "length (tlv_bytes set_tag ?set) < usize_limit"
    using l2 assms(2) by (auto simp: c usize_limit_def)
  note rd = read_tlv_single [OF this]
  have "find_in ?set (tag_context 2 True) = Some ?normal"
    using ok(1) find_in_step [of "tlv_bytes (tag_context 0 True) [0x80, 1, 1]" "tag_context 2 True" ?normal "[]"]
    by (simp add: find_in_def reader_new_at find_in_step slice_ok_step)
  moreover have "find_in ?normal (tag_context 5 True) = Some ?results"
    using ok(2) by (simp add: find_in_def reader_new_at find_in_step slice_ok_step)
  moreover obtain tl where tl: "tlv_bytes set_tag ?set = 0x31 # tl"
    unfolding c by simp
  ultimately have "check_cpa_results (tlv_bytes set_tag ?set) = Inr ()"
    using rd own_results unfolding tl check_cpa_results_def by simp
  moreover have nin: "0x31 \<notin> set ?p1" using assms(2) by auto
  ultimately show "check_cpa_results (own_accept unit) = Inr ()"
    unfolding b p check_skips [OF nin] by simp
qed

text \<open>The association request of the client as the server sees it.\<close>

definition auth_length :: "bytes option \<Rightarrow> nat" where
  "auth_length auth = (case auth of Some v \<Rightarrow> length v | None \<Rightarrow> 0)"

lemma own_request_short:
  "length (aarq_auth (initiate_request_encode q) auth) \<le> auth_length auth + 600"
  "length (connect_cp unit) \<le> length unit + 400"
proof -
  have u: "length (tlv_bytes u_integer (encode_integer x)) \<le> 23" for x
    using tlv_bytes_bound [of u_integer "encode_integer x"] length_encode_integer(2) [of x] by simp
  have i: "length (initiate_request_encode q) \<le> 315"
    unfolding initiate_request_bytes by (rule initiate_short)
  let ?c = "tlv_bytes u_integer (encode_integer mms_pres_context_id) @ tlv_bytes single_asn1 (initiate_request_encode q)"
  have e: "length (external_bytes (initiate_request_encode q)) \<le> 368"
    using tlv_bytes_bound [of external_tag ?c] tlv_bytes_bound [of single_asn1 "initiate_request_encode q"]
      u [of mms_pres_context_id] i by (simp add: external_bytes_def)
  have a: "length (fields_bytes (auth_fields auth)) \<le> auth_length auth + 70"
    using tlv_bytes_bound [of "tag_context 12 True" "tlv_bytes (tag_context 0 False) (the auth)"]
      tlv_bytes_bound [of "tag_context 0 False" "the auth"]
      tlv_bytes_bound [of "tag_context 10 False" "[0x04, 0x80]"]
      tlv_bytes_bound [of "tag_context 11 False" auth_mech_password_oid]
    by (cases auth) (simp_all add: auth_length_def auth_fields_def fields_bytes_simps auth_mech_password_oid_def)
  have "length (fields_bytes (app_context_field # auth_fields auth @
      [(user_information, external_bytes (initiate_request_encode q))])) \<le> auth_length auth + 500"
    using a e tlv_bytes_bound [of "tag_context 1 True" "tlv_bytes u_oid [0x28, 0xCA, 0x22, 2, 3]"]
      tlv_bytes_bound [of u_oid "[0x28, 0xCA, 0x22, 2, 3]"]
      tlv_bytes_bound [of "tag_context 30 True" "external_bytes (initiate_request_encode q)"]
    by (simp add: app_context_field_def fields_bytes_def)
  then show "length (aarq_auth (initiate_request_encode q) auth) \<le> auth_length auth + 600"
    using tlv_bytes_bound [of aarq_tag "fields_bytes (app_context_field # auth_fields auth @
      [(user_information, external_bytes (initiate_request_encode q))])"] by (simp add: aarq_bytes)
  let ?pdv = "tlv_bytes u_integer (encode_integer acse_context_id) @ tlv_bytes single_asn1 unit"
  have d: "length (user_data unit acse_context_id) \<le> length unit + 68"
    using u [of acse_context_id] tlv_bytes_bound [of single_asn1 unit] tlv_bytes_bound [of u_sequence ?pdv]
      tlv_bytes_bound [of fully_encoded "pdv_bytes unit acse_context_id"]
    by (simp add: user_data_bytes pdv_bytes_def)
  have c: "length (concat (map context_bytes own_contexts)) = 35" "length mode_bytes = 5"
    by (simp_all add: own_contexts_def context_bytes_def mode_bytes_def upper_tags acse_context_id_def
        mms_context_id_def evals)
  let ?normal = "tlv_bytes (tag_context 1 False) [0, 0, 0, 1] @ tlv_bytes (tag_context 2 False) [0, 0, 0, 1] @
      tlv_bytes (tag_context 4 True) (concat (map context_bytes own_contexts)) @ user_data unit acse_context_id"
  have "length ?normal \<le> length unit + 200"
    using c d tlv_bytes_bound [of "tag_context 4 True" "concat (map context_bytes own_contexts)"]
      tlv_bytes_bound [of "tag_context 1 False" "[0, 0, 0, 1]"] tlv_bytes_bound [of "tag_context 2 False" "[0, 0, 0, 1]"]
    by simp
  then show "length (connect_cp unit) \<le> length unit + 400"
    using c(2) tlv_bytes_bound [of "tag_context 2 True" ?normal]
      tlv_bytes_bound [of set_tag "mode_bytes @ tlv_bytes (tag_context 2 True) ?normal"]
    by (simp add: connect_cp_bytes cp_bytes_def)
qed

lemma server_sees_request:
  assumes "auth_length auth \<le> 64000"
  shows "server_negotiation (session_connect (connect_cp (aarq_auth (initiate_request_encode q) auth))) =
      Inr (aarq_auth (initiate_request_encode q) auth, own_accept, 3)"
    "extract_auth_password (aarq_auth (initiate_request_encode q) auth) = auth"
    "bindE (parse_aarq (aarq_auth (initiate_request_encode q) auth)) initiate_request_decode = Inr q"
proof -
  let ?a = "aarq_auth (initiate_request_encode q) auth"
  have l: "length ?a \<le> 64600" "length (connect_cp ?a) < 65500"
    using own_request_short(1) [of q auth] own_request_short(2) [of ?a] assms by simp_all
  have "connect_cp ?a \<noteq> []" by (simp add: connect_cp_bytes cp_bytes_def)
  from parse_own_connect [OF this l(2), of "[]"]
  have c: "parse_connect (session_connect (connect_cp ?a)) = Inr \<lparr>cs_version = 0x02, cs_requirements = Some (0x00, 0x02),
    cs_calling_selector = None, cs_called_selector = None, cs_user_data = connect_cp ?a\<rparr>" by simp
  have p: "parse_cp (connect_cp ?a) = Inr \<lparr>cp_contexts = own_contexts,
     cp_called_selector = Some [0, 0, 0, 1], cp_inner_pdu = ?a\<rparr>"
    using l(2) unfolding connect_cp_bytes
    by (intro parse_cp_bytes) (simp_all add: usize_limit_def own_contexts_def)
  show "server_negotiation (session_connect (connect_cp ?a)) = Inr (?a, own_accept, 3)"
    by (simp add: server_negotiation_def c p own_negotiation negotiated_version_def own_accept_def [abs_def])
  have u: "length ?a < usize_limit" using l(1) by (simp add: usize_limit_def)
  show "extract_auth_password ?a = auth" by (rule parse_own_aarq(2) [OF u])
  show "bindE (parse_aarq ?a) initiate_request_decode = Inr q"
    by (simp add: parse_own_aarq(1) [OF u] initiate_request_decode_encode)
qed

lemma own_answers:
  assumes "u = aare (initiate_response_encode own_response) \<or> u = aare_reject"
  shows "check_cpa_results (own_accept u) = Inr ()" "extract_inner_pdu (own_accept u) = Inr u"
    "length (own_accept u) \<le> max_tsdu_len"
proof -
  have a: "length (aare (initiate_response_encode own_response)) = 72"
    unfolding own_aare_bytes by (simp add: own_response_bytes)
  have b: "length aare_reject = 23"
    by (simp add: aare_reject_bytes app_context_field_def result_fields_def fields_bytes_simps upper_tags aare_tag_def evals)
  have l: "length u \<in> {23, 72}" using assms a b by auto
  have i: "tlv_bytes u_integer (encode_integer 1) = [2, 1, 1]" by (simp add: upper_tags evals)
  have t: "tag_encode single_asn1 = [0xA0]" "tag_encode u_sequence = [0x30]" "tag_encode fully_encoded = [0x61]"
    by (simp_all add: upper_tags evals)
  have n: "length (tlv_bytes v c) = length c + 2" if "tag_encode v = [x]" "length c < 100" for v c x
    using short_tlv [OF that(1) refl, of c] that(2) by simp
  have lu: "length u < 80" using l by auto
  have s: "length (tlv_bytes single_asn1 u) = length u + 2"
    using n [OF t(1)] lu by simp
  then have p: "length (pdv_bytes u 1) = length u + 7"
    using n [OF t(2), of "[2, 1, 1] @ tlv_bytes single_asn1 u"] lu by (simp add: pdv_bytes_def i)
  then have d: "length (user_data u 1) = length u + 9"
    using n [OF t(3), of "pdv_bytes u 1"] lu by (simp add: user_data_bytes)
  show "check_cpa_results (own_accept u) = Inr ()" "extract_inner_pdu (own_accept u) = Inr u"
    using own_accept_read [OF d] l by auto
  show "length (own_accept u) \<le> max_tsdu_len"
    using own_accept_bytes [OF d] l d by (auto simp: max_tsdu_len_def)
qed

lemma parse_own_answer: "parse_aare (aare (initiate_response_encode own_response)) = Inr (initiate_response_encode own_response)"
proof (rule parse_own_aare)
  show "length (aare (initiate_response_encode own_response)) < usize_limit"
    unfolding own_aare_bytes by (simp add: own_response_bytes usize_limit_def)
qed

lemma handshake_input:
  assumes "auth_length auth \<le> 64000"
  shows "server_handshake authorize cert (client_hello @ client_association auth @ rest) =
    (case server_associate authorize cert (session_connect (connect_cp
        (aarq_auth (initiate_request_encode initiate_request_default) auth))) of
       (reply, result) \<Rightarrow> (iso_send (connection_confirm local_src_ref our_src_ref) @
          (case reply of Some u \<Rightarrow> send_data u | None \<Rightarrow> []), result, rest))"
proof -
  let ?u = "session_connect (connect_cp (aarq_auth (initiate_request_encode initiate_request_default) auth))"
  have "length (connection_request local_src_ref) + 4 < 65536"
    by (simp add: connection_request_def cotp_params_eq)
  note h = iso_recv_frame [OF this]
  have "length (session_connect c) \<le> length c + 20" for c
    by (auto simp: session_connect_def push_li_def Let_def)
  from this [of "connect_cp (aarq_auth (initiate_request_encode initiate_request_default) auth)"]
  have "length ?u \<le> max_tsdu_len"
    using own_request_short(1) [of initiate_request_default auth]
      own_request_short(2) [of "aarq_auth (initiate_request_encode initiate_request_default) auth"] assms
    by (simp add: max_tsdu_len_def)
  from recv_send_data [OF this] show ?thesis
    by (simp add: server_handshake_def client_hello_def client_association_def Let_def iso_send_def h
        parse_own_request split: prod.splits)
qed

section \<open>Properties\<close>

text \<open>C27: Association. A client of this program that presents any authentication value of up to 64000
  octets, and a server, exchange octets over a stream such that: if the policy grants a role, the
  server ends with that role, granted for exactly the value presented, and the context the client
  proposed for MMS, and the client ends with the negotiated parameters; if the policy refuses, both
  ends report a rejected association. In both cases the octets that follow are left for the data
  phase.\<close>

theorem association_agrees:
  assumes "auth_length auth \<le> 64000"
    "server_handshake authorize (Inr cert_cn) (client_hello @ client_association auth @ rest) = (output, result, left)"
  shows "left = rest \<and>
    (case authorize auth cert_cn of
       Some role \<Rightarrow> result = Inr (role, mms_context_id) \<and>
         bindE (client_confirmed (output @ tail)) client_associated = Inr (own_response, tail)
     | None \<Rightarrow> (\<exists>m. result = Inl (MeAssociateRejected m)) \<and>
         (\<exists>m. bindE (client_confirmed (output @ tail)) client_associated = Inl (MeAssociateRejected m)))"
proof -
  let ?a = "aarq_auth (initiate_request_encode initiate_request_default) auth"
  have "length (connection_confirm local_src_ref our_src_ref) + 4 < 65536"
    by (simp add: connection_confirm_def cotp_params_eq)
  note h = iso_recv_frame [OF this]
  have c: "client_confirmed (iso_send (connection_confirm local_src_ref our_src_ref) @ s) = Inr s" for s
    using h [of s] by (simp add: client_confirmed_def iso_send_def parse_own_confirm)
  note s = server_sees_request [OF assms(1), of initiate_request_default]
  have o: "output = iso_send (connection_confirm local_src_ref our_src_ref) @
      send_data (own_accept (case authorize auth cert_cn of
        Some role \<Rightarrow> aare (initiate_response_encode own_response) | None \<Rightarrow> aare_reject))"
    "result = (case authorize auth cert_cn of Some role \<Rightarrow> Inr (role, 3)
      | None \<Rightarrow> Inl (MeAssociateRejected (''autenticaci'' @ o_acute @ ''n fallida (62351-4)'')))" "left = rest"
    using assms(2) by (simp_all add: handshake_input [OF assms(1)] server_associate_def s own_response_accept Let_def
        split: option.splits)
  define u where "u = (case authorize auth cert_cn of
      Some role \<Rightarrow> aare (initiate_response_encode own_response) | None \<Rightarrow> aare_reject)"
  have "u = aare (initiate_response_encode own_response) \<or> u = aare_reject"
    by (simp add: u_def split: option.splits)
  note r = own_answers [OF this]
  have "bindE (client_confirmed (output @ tail)) client_associated =
      bindE (parse_aare u) (\<lambda>i. bindE (initiate_response_decode i) (\<lambda>n. Inr (n, tail)))"
    using recv_send_data [OF r(3), of tail] r(1,2) by (simp add: o u_def [symmetric] c client_associated_def)
  then show ?thesis
    using o by (auto simp: u_def parse_own_answer parse_reject initiate_response_decode_encode mms_context_id_def
        split: option.splits)
qed

theorem association_agrees_witness:
  "\<exists>output. server_handshake (\<lambda>auth cn. if auth = Some [1, 2] then Some True else None) (Inr None)
      (client_hello @ client_association (Some [1, 2]) @ [7]) = (output, Inr (True, mms_context_id), [7]) \<and>
    bindE (client_confirmed output) client_associated = Inr (own_response, [])"
proof -
  let ?f = "\<lambda>auth cn. if auth = Some [1, 2] then Some True else None"
  obtain out res left where r: "server_handshake ?f (Inr None) (client_hello @ client_association (Some [1, 2]) @ [7]) = (out, res, left)"
    by (cases "server_handshake ?f (Inr None) (client_hello @ client_association (Some [1, 2]) @ [7])") auto
  show ?thesis
    using association_agrees [OF _ r, of "[]"] r by (simp add: auth_length_def)
qed

end
