(* ===== verification/MmsServices.thy ===== *)
theory MmsServices imports MmsPdu begin

text \<open>
  The confirmed services of MMS (src/crates/iec61850-mms/src/mms/read.rs, write.rs, identify.rs,
  get_name_list.rs and named_var_list.rs): for every request and response the encoder and the
  decoder of the two ends, their shared contract as the locale \<open>mms_service\<close>, interpreted for
  every service, and the two properties that carry a service through all layers, from the
  caller's arguments through the presentation and session headers, the transport fragments and
  the TPKT packets to the value decoded at the other end.
\<close>

unbundle bit_operations_syntax

section \<open>Object names\<close>

definition write_object_name :: "string \<Rightarrow> string \<Rightarrow> writing" where
  "write_object_name domain item = w_tlv (tag_context 1 True) (\<lambda>w. w_seq
     [w_visible_string u_visible_string domain,
      w_visible_string u_visible_string item] w)"

definition write_variable_spec :: "string \<Rightarrow> string \<Rightarrow> writing" where
  "write_variable_spec domain item = w_tlv (tag_context 0 True) (write_object_name domain item)"

section \<open>Read\<close>

datatype access_result = AccessSuccess mms_data | AccessFailure data_access_error

fun into_data :: "access_result \<Rightarrow> mms_error + mms_data" where
  "into_data (AccessSuccess d) = Inr d"
| "into_data (AccessFailure e) = Inl (MeDataAccess e)"

definition read_write_request :: "string \<Rightarrow> string \<Rightarrow> writing" where
  "read_write_request domain_id item_id =
    w_tlv svc_read (w_tlv (tag_context 1 True) (w_tlv (tag_context 0 True)
      (w_sequence (w_tlv (tag_context 0 True) (w_tlv (tag_context 1 True) (\<lambda>w. w_seq
        [w_visible_string u_visible_string domain_id,
         w_visible_string u_visible_string item_id] w))))))"

definition read_write_data_set_request :: "string \<Rightarrow> string \<Rightarrow> writing" where
  "read_write_data_set_request domain_id list_name =
    w_tlv svc_read (w_tlv (tag_context 1 True) (w_tlv (tag_context 1 True)
      (w_tlv (tag_context 1 True) (\<lambda>w. w_seq
        [w_visible_string u_visible_string domain_id,
         w_visible_string u_visible_string list_name] w))))"

datatype read_target = RtVariables "(string \<times> string) list" | RtNamedList string string

definition read_decode_request :: "tlv \<Rightarrow> mms_error + read_target" where
  "read_decode_request service_tlv =
    bindE (expect_service service_tlv svc_read) (\<lambda>content.
      fst (thenE (map_errR MeBer (rd_read_if (tag_context 0 False) (reader_new content))) (\<lambda>_ r.
           thenE (m_expect (tag_context 1 True) r) (\<lambda>vas r.
             (bindE (map_errE MeBer (fst (read_tlv (reader_new vas)))) (\<lambda>choice.
                if tlv_tag choice = tag_context 0 True then
                  bindE (parse_list_of_variable (tlv_content choice)) (\<lambda>vs. Inr (RtVariables vs))
                else if tlv_tag choice = tag_context 1 True then
                  bindE (fst (m_expect (tag_context 1 True) (reader_new (tlv_content choice)))) (\<lambda>ds.
                  bindE (read_two_names ds) (\<lambda>(domain, name). Inr (RtNamedList domain name)))
                else Inl MeUnexpectedPdu), r)))))"

fun write_access_result :: "access_result \<Rightarrow> writing" where
  "write_access_result (AccessSuccess d) = mms_encode d"
| "write_access_result (AccessFailure e) = w_integer (tag_context 0 False) (dae_to_code e)"

definition read_encode_response :: "access_result list \<Rightarrow> writing" where
  "read_encode_response results =
    w_tlv svc_read (w_tlv (tag_context 1 True) (\<lambda>w. fold write_access_result results w))"

definition decode_access_result :: "tlv \<Rightarrow> mms_error + access_result" where
  "decode_access_result t =
    (if tlv_tag t = tag_context 0 False then
       bindE (map_errE MeBer (decode_integer (tlv_content t))) (\<lambda>code. Inr (AccessFailure (dae_from_code code)))
     else bindE (map_errE MeBer (mms_decode t)) (\<lambda>d. Inr (AccessSuccess d)))"

definition read_decode_response :: "tlv \<Rightarrow> mms_error + access_result list" where
  "read_decode_response service_tlv =
    bindE (expect_service service_tlv svc_read) (\<lambda>content.
      fst (thenE (map_errR MeBer (rd_read_if (tag_context 0 True) (reader_new content))) (\<lambda>_ r.
           thenE (m_expect (tag_context 1 True) r) (\<lambda>list r.
             (read_each decode_access_result (reader_new list) [], r)))))"

section \<open>Write\<close>

datatype write_result = WriteSuccess | WriteFailure data_access_error

fun into_result :: "write_result \<Rightarrow> mms_error + unit" where
  "into_result WriteSuccess = Inr ()"
| "into_result (WriteFailure e) = Inl (MeDataAccess e)"

definition write_write_request :: "string \<Rightarrow> string \<Rightarrow> mms_data \<Rightarrow> writing" where
  "write_write_request domain_id item_id v =
    w_tlv svc_write (\<lambda>w. w_seq
      [w_tlv (tag_context 0 True) (w_sequence (w_tlv (tag_context 0 True) (w_tlv (tag_context 1 True) (\<lambda>w. w_seq
         [w_visible_string u_visible_string domain_id,
          w_visible_string u_visible_string item_id] w)))),
       w_tlv (tag_context 0 True) (mms_encode v)] w)"

definition decode_value :: "tlv \<Rightarrow> mms_error + mms_data" where
  "decode_value t = map_errE MeBer (mms_decode t)"

definition write_decode_request :: "tlv \<Rightarrow> mms_error + (string \<times> string) list \<times> mms_data list" where
  "write_decode_request service_tlv =
    bindE (expect_service service_tlv svc_write) (\<lambda>content.
      fst (thenE (m_expect (tag_context 0 True) (reader_new content)) (\<lambda>lov r.
        case parse_list_of_variable lov of
          Inl e \<Rightarrow> (Inl e, r)
        | Inr names \<Rightarrow>
            thenE (m_expect (tag_context 0 True) r) (\<lambda>lod r.
              (bindE (read_each decode_value (reader_new lod) []) (\<lambda>ds. Inr (names, ds)), r)))))"

fun write_write_result :: "write_result \<Rightarrow> writing" where
  "write_write_result WriteSuccess = w_null (tag_context 1 False)"
| "write_write_result (WriteFailure e) = w_integer (tag_context 0 False) (dae_to_code e)"

definition write_encode_response :: "write_result list \<Rightarrow> writing" where
  "write_encode_response results = w_tlv svc_write (\<lambda>w. fold write_write_result results w)"

definition decode_write_result :: "tlv \<Rightarrow> mms_error + write_result" where
  "decode_write_result t =
    (if tlv_tag t = tag_context 0 False then
       bindE (map_errE MeBer (decode_integer (tlv_content t))) (\<lambda>code. Inr (WriteFailure (dae_from_code code)))
     else if tlv_tag t = tag_context 1 False then Inr WriteSuccess
     else Inl MeUnexpectedPdu)"

definition write_decode_response :: "tlv \<Rightarrow> mms_error + write_result list" where
  "write_decode_response service_tlv =
    bindE (expect_service service_tlv svc_write) (\<lambda>content.
      read_each decode_write_result (reader_new content) [])"

section \<open>Identify\<close>

record identify_response =
  id_vendor :: string
  id_model :: string
  id_revision :: string

definition identify_write_request :: writing where
  "identify_write_request = w_null svc_identify_request"

definition identify_encode_response :: "identify_response \<Rightarrow> writing" where
  "identify_encode_response resp = w_tlv svc_identify_response (\<lambda>w. w_seq
     [w_visible_string (tag_context 0 False) (id_vendor resp),
      w_visible_string (tag_context 1 False) (id_model resp),
      w_visible_string (tag_context 2 False) (id_revision resp)] w)"

definition identify_decode_response :: "tlv \<Rightarrow> mms_error + identify_response" where
  "identify_decode_response service_tlv =
    bindE (expect_service service_tlv svc_identify_response) (\<lambda>content.
      fst (thenE (m_visible (tag_context 0 False) (reader_new content)) (\<lambda>vendor r.
           thenE (m_visible (tag_context 1 False) r) (\<lambda>model r.
           thenE (m_visible (tag_context 2 False) r) (\<lambda>revision r.
             (Inr \<lparr>id_vendor = vendor, id_model = model, id_revision = revision\<rparr>, r))))))"

section \<open>GetNameList\<close>

datatype object_class = ClassNamedVariable | ClassDomain

fun class_code :: "object_class \<Rightarrow> u64" where
  "class_code ClassNamedVariable = 0"
| "class_code ClassDomain = 9"

definition class_from_code :: "u64 \<Rightarrow> object_class option" where
  "class_from_code code = (if code = 0 then Some ClassNamedVariable
     else if code = 9 then Some ClassDomain else None)"

datatype object_scope = VmdSpecific | DomainSpecific string

record name_list_request =
  nl_class :: object_class
  nl_scope :: object_scope
  nl_continue_after :: "string option"

record name_list_response =
  nl_identifiers :: "string list"
  nl_more_follows :: bool

definition write_scope :: "object_scope \<Rightarrow> writing" where
  "write_scope s = (case s of
      VmdSpecific \<Rightarrow> w_null (tag_context 0 False)
    | DomainSpecific d \<Rightarrow> w_visible_string (tag_context 1 False) d)"

definition name_list_write_request :: "name_list_request \<Rightarrow> writing" where
  "name_list_write_request q = w_tlv svc_get_name_list (\<lambda>w. w_seq
     [w_tlv (tag_context 0 True) (w_integer (tag_context 0 False) (class_code (nl_class q))),
      w_tlv (tag_context 1 True) (write_scope (nl_scope q)),
      (case nl_continue_after q of
         Some ca \<Rightarrow> w_visible_string (tag_context 2 False) ca
       | None \<Rightarrow> (\<lambda>w. w))] w)"

definition decode_scope :: "bytes \<Rightarrow> mms_error + object_scope" where
  "decode_scope scope_outer =
    bindE (map_errE MeBer (fst (read_tlv (reader_new scope_outer)))) (\<lambda>scope_tlv.
      if tlv_tag scope_tlv = tag_context 0 False then Inr VmdSpecific
      else if tlv_tag scope_tlv = tag_context 1 False then
        bindE (map_errE MeBer (decode_visible_string (tlv_content scope_tlv))) (\<lambda>d. Inr (DomainSpecific d))
      else Inl MeUnexpectedPdu)"

definition decode_class :: "bytes \<Rightarrow> mms_error + object_class" where
  "decode_class class_outer =
    bindE (fst (m_expect (tag_context 0 False) (reader_new class_outer))) (\<lambda>c.
    bindE (map_errE MeBer (decode_integer c)) (\<lambda>code.
      ok_or (MeServiceReject (''objectClass '' @ show_i64 code @ '' no soportada'')) (class_from_code code)))"

definition name_list_decode_request :: "tlv \<Rightarrow> mms_error + name_list_request" where
  "name_list_decode_request service_tlv =
    bindE (expect_service service_tlv svc_get_name_list) (\<lambda>content.
      fst (thenE (m_expect (tag_context 0 True) (reader_new content)) (\<lambda>class_outer r.
        case decode_class class_outer of
          Inl e \<Rightarrow> (Inl e, r)
        | Inr cls \<Rightarrow>
          thenE (m_expect (tag_context 1 True) r) (\<lambda>scope_outer r.
          case decode_scope scope_outer of
            Inl e \<Rightarrow> (Inl e, r)
          | Inr scope \<Rightarrow>
            thenE (map_errR MeBer (rd_read_if (tag_context 2 False) r)) (\<lambda>ca r.
              (bindE (case ca of
                   Some c \<Rightarrow> bindE (map_errE MeBer (decode_visible_string c)) (\<lambda>s. Inr (Some s))
                 | None \<Rightarrow> Inr None) (\<lambda>continue_after.
                 Inr \<lparr>nl_class = cls, nl_scope = scope, nl_continue_after = continue_after\<rparr>), r))))))"

definition name_list_encode_response :: "name_list_response \<Rightarrow> writing" where
  "name_list_encode_response resp = w_tlv svc_get_name_list (\<lambda>w. w_seq
     [w_tlv (tag_context 0 True) (\<lambda>w. fold (w_visible_string u_visible_string) (nl_identifiers resp) w),
      w_boolean (tag_context 1 False) (nl_more_follows resp)] w)"

definition decode_identifier :: "tlv \<Rightarrow> mms_error + string" where
  "decode_identifier t = bindE (tlv_expect u_visible_string t) (\<lambda>c. map_errE MeBer (decode_visible_string c))"

definition name_list_decode_response :: "tlv \<Rightarrow> mms_error + name_list_response" where
  "name_list_decode_response service_tlv =
    bindE (expect_service service_tlv svc_get_name_list) (\<lambda>content.
      fst (thenE (m_expect (tag_context 0 True) (reader_new content)) (\<lambda>list r.
        case read_each decode_identifier (reader_new list) [] of
          Inl e \<Rightarrow> (Inl e, r)
        | Inr identifiers \<Rightarrow>
          thenE (map_errR MeBer (rd_read_if (tag_context 1 False) r)) (\<lambda>mf r.
            (bindE (case mf of Some c \<Rightarrow> map_errE MeBer (decode_bool c) | None \<Rightarrow> Inr True) (\<lambda>more_follows.
               Inr \<lparr>nl_identifiers = identifiers, nl_more_follows = more_follows\<rparr>), r)))))"

section \<open>Named variable lists\<close>

type_synonym variable_name = "string \<times> string"

definition read_object_name :: "bytes \<Rightarrow> mms_error + variable_name" where
  "read_object_name content = bindE (fst (m_expect (tag_context 1 True) (reader_new content))) read_two_names"

definition write_members :: "variable_name list \<Rightarrow> writing" where
  "write_members members = fold (\<lambda>(md, mi). w_sequence (write_variable_spec md mi)) members"

definition decode_member :: "tlv \<Rightarrow> mms_error + variable_name" where
  "decode_member seq =
    bindE (fst (m_expect (tag_context 0 True) (reader_new (tlv_content seq)))) read_object_name"

definition parse_list_of_variable_spec :: "bytes \<Rightarrow> mms_error + variable_name list" where
  "parse_list_of_variable_spec content = read_each decode_member (reader_new content) []"

definition write_define_request :: "string \<Rightarrow> string \<Rightarrow> variable_name list \<Rightarrow> writing" where
  "write_define_request domain name members = w_tlv svc_define_list (\<lambda>w. w_seq
     [write_object_name domain name,
      w_tlv (tag_context 0 True) (write_members members)] w)"

definition decode_define_request :: "tlv \<Rightarrow> mms_error + variable_name \<times> variable_name list" where
  "decode_define_request service_tlv =
    bindE (expect_service service_tlv svc_define_list) (\<lambda>content.
      fst (thenE (m_expect (tag_context 1 True) (reader_new content)) (\<lambda>name_tlv r.
        case read_two_names name_tlv of
          Inl e \<Rightarrow> (Inl e, r)
        | Inr n \<Rightarrow>
          thenE (m_expect (tag_context 0 True) r) (\<lambda>list r.
            (bindE (parse_list_of_variable_spec list) (\<lambda>members. Inr (n, members)), r)))))"

definition encode_define_response :: writing where
  "encode_define_response = w_tlv svc_define_list_response (\<lambda>w. w)"

definition write_delete_request :: "string \<Rightarrow> string \<Rightarrow> writing" where
  "write_delete_request domain name = w_tlv svc_delete_list (\<lambda>w. w_seq
     [w_integer (tag_context 0 False) 0,
      w_tlv (tag_context 1 True) (write_object_name domain name)] w)"

record delete_result =
  dr_matched :: u32
  dr_deleted :: u32

definition decode_list_name :: "tlv \<Rightarrow> mms_error + variable_name" where
  "decode_list_name t = bindE (tlv_expect (tag_context 1 True) t) read_two_names"

definition decode_delete_request :: "tlv \<Rightarrow> mms_error + variable_name list" where
  "decode_delete_request service_tlv =
    bindE (expect_service service_tlv svc_delete_list) (\<lambda>content.
      fst (thenE (map_errR MeBer (rd_read_if (tag_context 0 False) (reader_new content))) (\<lambda>_ r.
           thenE (map_errR MeBer (rd_read_if (tag_context 1 True) r)) (\<lambda>list r.
             (case list of
                Some list \<Rightarrow> read_each decode_list_name (reader_new list) []
              | None \<Rightarrow> Inr [], r)))))"

definition encode_delete_response :: "delete_result \<Rightarrow> writing" where
  "encode_delete_response result = w_tlv svc_delete_list (\<lambda>w. w_seq
     [w_unsigned (tag_context 0 False) (ucast (dr_matched result)),
      w_unsigned (tag_context 1 False) (ucast (dr_deleted result))] w)"

definition read_unsigned :: "tag \<Rightarrow> (mms_error, u64) reading" where
  "read_unsigned t r = thenE (m_expect t r) (\<lambda>c r. (map_errE MeBer (decode_unsigned c), r))"

definition decode_delete_response :: "tlv \<Rightarrow> mms_error + delete_result" where
  "decode_delete_response service_tlv =
    bindE (expect_service service_tlv svc_delete_list) (\<lambda>content.
      fst (thenE (read_unsigned (tag_context 0 False) (reader_new content)) (\<lambda>matched r.
           thenE (read_unsigned (tag_context 1 False) r) (\<lambda>deleted r.
             (Inr \<lparr>dr_matched = ucast matched, dr_deleted = ucast deleted\<rparr>, r)))))"

definition write_get_attributes_request :: "string \<Rightarrow> string \<Rightarrow> writing" where
  "write_get_attributes_request domain name = w_tlv svc_get_list_attributes (write_object_name domain name)"

record list_attributes =
  la_deletable :: bool
  la_members :: "variable_name list"

definition decode_get_attributes_request :: "tlv \<Rightarrow> mms_error + variable_name" where
  "decode_get_attributes_request service_tlv =
    bindE (expect_service service_tlv svc_get_list_attributes) read_object_name"

definition encode_get_attributes_response :: "bool \<Rightarrow> variable_name list \<Rightarrow> writing" where
  "encode_get_attributes_response deletable members = w_tlv svc_get_list_attributes (\<lambda>w. w_seq
     [w_boolean (tag_context 0 False) deletable,
      w_tlv (tag_context 1 True) (write_members members)] w)"

definition decode_get_attributes_response :: "tlv \<Rightarrow> mms_error + list_attributes" where
  "decode_get_attributes_response service_tlv =
    bindE (expect_service service_tlv svc_get_list_attributes) (\<lambda>content.
      fst (thenE (m_expect (tag_context 0 False) (reader_new content)) (\<lambda>d r.
        case map_errE MeBer (decode_bool d) of
          Inl e \<Rightarrow> (Inl e, r)
        | Inr deletable \<Rightarrow>
          thenE (m_expect (tag_context 1 True) r) (\<lambda>list r.
            (bindE (parse_list_of_variable_spec list) (\<lambda>members.
               Inr \<lparr>la_deletable = deletable, la_members = members\<rparr>), r)))))"

section \<open>The interface of a service\<close>

text \<open>A service is written as one element with its tag, and the peer decodes it to its meaning.\<close>

locale mms_service =
  fixes stag :: tag and wr :: "'q \<Rightarrow> writing" and decode :: "tlv \<Rightarrow> mms_error + 'r"
    and meaning :: "'q \<Rightarrow> 'r" and ok :: "'q \<Rightarrow> bool"
  assumes carried: "ok q \<Longrightarrow> \<exists>c. wr q = put (tlv_bytes stag c) \<and>
    (length c < usize_limit \<longrightarrow> decode \<lparr>tlv_tag = stag, tlv_content = c\<rparr> = Inr (meaning q))"
begin

lemma request_decoded:
  assumes "ok q" "length (encode_confirmed_request i (wr q)) < usize_limit"
  shows "\<exists>s. parse_confirmed_request (encode_confirmed_request i (wr q)) = Inr (i, s) \<and>
    tlv_tag s = stag \<and> decode s = Inr (meaning q)"
proof -
  from carried [OF assms(1)] obtain c where w: "wr q = put (tlv_bytes stag c)"
    and d: "length c < usize_limit \<Longrightarrow> decode \<lparr>tlv_tag = stag, tlv_content = c\<rparr> = Inr (meaning q)" by blast
  let ?i = "tlv_bytes u_integer (encode_integer (ucast i))"
  have b: "encode_confirmed_request i (wr q) = tlv_bytes pdu_confirmed_request (?i @ tlv_bytes stag c)"
    by (simp add: encode_confirmed_request_def w w_put)
  have len: "length (tlv_bytes pdu_confirmed_request (?i @ tlv_bytes stag c)) < usize_limit"
    using assms(2) by (simp add: b)
  then have s: "slice_ok [] (?i @ tlv_bytes stag c)"
    using length_content_less [of "?i @ tlv_bytes stag c" pdu_confirmed_request] by (simp add: slice_ok_def)
  then have "length c < usize_limit"
    using length_content_less [of c stag] by (simp add: slice_ok_def)
  then show ?thesis
    using s read_unsigned_integer_at [OF s] read_tlv_head [of ?i stag c "[]"] d
    by (simp add: parse_confirmed_request_def b read_tlv_single [OF len] tlv_reader_at slice_ok_step map_errR_def)
qed

lemma response_decoded:
  assumes "ok q" "length (encode_confirmed_response i (wr q)) < usize_limit"
  shows "\<exists>s. parse_confirmed_response (encode_confirmed_response i (wr q)) = Inr \<lparr>cr_invoke_id = i, cr_service = s\<rparr> \<and>
    decode s = Inr (meaning q) \<and>
    peek_invoke_and_kind (encode_confirmed_response i (wr q)) = Inr (KConfirmedResponse, Some i)"
proof -
  from carried [OF assms(1)] obtain c where w: "wr q = put (tlv_bytes stag c)"
    and d: "length c < usize_limit \<Longrightarrow> decode \<lparr>tlv_tag = stag, tlv_content = c\<rparr> = Inr (meaning q)" by blast
  let ?i = "tlv_bytes u_integer (encode_integer (ucast i))"
  have b: "encode_confirmed_response i (wr q) = tlv_bytes pdu_confirmed_response (?i @ tlv_bytes stag c)"
    by (simp add: encode_confirmed_response_def w w_put)
  have len: "length (tlv_bytes pdu_confirmed_response (?i @ tlv_bytes stag c)) < usize_limit"
    using assms(2) by (simp add: b)
  then have s: "slice_ok [] (?i @ tlv_bytes stag c)"
    using length_content_less [of "?i @ tlv_bytes stag c" pdu_confirmed_response] by (simp add: slice_ok_def)
  then have "length c < usize_limit"
    using length_content_less [of c stag] by (simp add: slice_ok_def)
  then show ?thesis
    using s read_unsigned_integer_at [OF s] read_tlv_head [of ?i stag c "[]"] d
    by (simp add: parse_confirmed_response_def peek_invoke_and_kind_def b read_tlv_single [OF len] tlv_reader_at
        slice_ok_step map_errR_def)
qed

end

section \<open>Facts\<close>

lemma rd_read_if_field:
  "slice_ok pre (tlv_bytes t c @ rest) \<Longrightarrow> rd_read_if u (rd_at pre (tlv_bytes t c @ rest)) =
    (if t = u then (Inr (Some c), rd_at (pre @ tlv_bytes t c) rest)
     else (Inr None, rd_at pre (tlv_bytes t c @ rest)))"
  by (simp add: rd_read_if_at slice_ok_def)

lemma rd_read_if_field_last:
  "slice_ok pre (tlv_bytes t c) \<Longrightarrow> rd_read_if u (rd_at pre (tlv_bytes t c)) =
    (if t = u then (Inr (Some c), rd_at (pre @ tlv_bytes t c) [])
     else (Inr None, rd_at pre (tlv_bytes t c)))"
  using rd_read_if_field [of pre t c "[]" u] by simp

lemma read_each_bytes:
  assumes "\<forall>x \<in> set xs. length (c x) < usize_limit \<longrightarrow> f \<lparr>tlv_tag = t x, tlv_content = c x\<rparr> = Inr x"
    "slice_ok pre (concat (map (\<lambda>x. tlv_bytes (t x) (c x)) xs))"
  shows "read_each f (rd_at pre (concat (map (\<lambda>x. tlv_bytes (t x) (c x)) xs))) out = Inr (out @ xs)"
  using assms
proof (induction xs arbitrary: pre out)
  case Nil
  then show ?case by (simp add: read_each.simps)
next
  case (Cons x xs)
  have "length (c x) < usize_limit"
    using Cons.prems(2) length_content_less [of "c x" "t x"] by (simp add: slice_ok_def)
  with Cons show ?case
    by (subst read_each.simps) (simp add: read_tlv_head slice_ok_step)
qed

text \<open>The octets of names.\<close>

definition names_bytes :: "variable_name \<Rightarrow> bytes" where
  "names_bytes n = tlv_bytes u_visible_string (as_bytes (fst n)) @ tlv_bytes u_visible_string (as_bytes (snd n))"

definition name_ok2 :: "variable_name \<Rightarrow> bool" where
  "name_ok2 n \<longleftrightarrow> str_ok (fst n) \<and> str_ok (snd n)"

lemma read_two_names_bytes:
  "slice_ok [] (names_bytes n) \<Longrightarrow> name_ok2 n \<Longrightarrow> read_two_names (names_bytes n) = Inr n"
  by (simp add: read_two_names_def names_bytes_def name_ok2_def reader_new_at slice_ok_step m_visible_at m_visible_last)

definition object_name_bytes :: "variable_name \<Rightarrow> bytes" where
  "object_name_bytes n = tlv_bytes (tag_context 1 True) (names_bytes n)"

lemma write_object_name_put: "write_object_name d i = put (object_name_bytes (d, i))"
  by (simp add: write_object_name_def object_name_bytes_def names_bytes_def w_put)

lemma read_object_name_bytes:
  "slice_ok [] (object_name_bytes n) \<Longrightarrow> name_ok2 n \<Longrightarrow> read_object_name (object_name_bytes n) = Inr n"
  using length_content_less [of "names_bytes n" "tag_context 1 True"]
  by (simp add: read_object_name_def object_name_bytes_def reader_new_at m_expect_last)
    (rule read_two_names_bytes, simp_all add: slice_ok_def)

definition variable_content :: "variable_name \<Rightarrow> bytes" where
  "variable_content n = tlv_bytes (tag_context 0 True) (object_name_bytes n)"

lemma parse_variable_bytes:
  "length (variable_content n) < usize_limit \<Longrightarrow> name_ok2 n \<Longrightarrow> parse_variable (variable_content n) = Inr n"
  using length_content_less [of "object_name_bytes n" "tag_context 0 True"]
    length_content_less [of "names_bytes n" "tag_context 1 True"]
  by (simp add: parse_variable_def variable_content_def object_name_bytes_def reader_new_at m_expect_last
      read_two_names_bytes slice_ok_def)

lemma parse_variables_bytes:
  assumes "list_all name_ok2 ns" "slice_ok [] (concat (map (\<lambda>n. tlv_bytes u_sequence (variable_content n)) ns))"
  shows "parse_list_of_variable (concat (map (\<lambda>n. tlv_bytes u_sequence (variable_content n)) ns)) = Inr ns"
    "parse_list_of_variable_spec (concat (map (\<lambda>n. tlv_bytes u_sequence (variable_content n)) ns)) = Inr ns"
proof -
  have p: "\<forall>n \<in> set ns. length (variable_content n) < usize_limit \<longrightarrow> parse_variable (variable_content n) = Inr n"
    using assms(1) by (auto simp: list_all_iff parse_variable_bytes)
  show "parse_list_of_variable (concat (map (\<lambda>n. tlv_bytes u_sequence (variable_content n)) ns)) = Inr ns"
    using read_each_bytes [of ns variable_content "\<lambda>s. parse_variable (tlv_content s)" "\<lambda>_. u_sequence" "[]" "[]"] p assms(2)
    by (simp add: parse_list_of_variable_def reader_new_at)
  have "decode_member \<lparr>tlv_tag = t, tlv_content = c\<rparr> = parse_variable c" for t c
    by (simp add: decode_member_def parse_variable_def read_object_name_def [abs_def])
  then show "parse_list_of_variable_spec (concat (map (\<lambda>n. tlv_bytes u_sequence (variable_content n)) ns)) = Inr ns"
    using read_each_bytes [of ns variable_content decode_member "\<lambda>_. u_sequence" "[]" "[]"] p assms(2)
    by (simp add: parse_list_of_variable_spec_def reader_new_at)
qed

lemma w_field: "fold f xs = put (concat (map g xs))" if "\<And>x. f x = put (g x)"
  using that by (intro ext) (simp add: fold_put)

lemma expect_own [simp]: "expect_service \<lparr>tlv_tag = t, tlv_content = c\<rparr> t = Inr c"
  by (simp add: expect_service_def)

lemma slice_ok_Nil: "slice_ok [] c \<longleftrightarrow> length c < usize_limit"
  by (simp add: slice_ok_def)

lemma inner_slice: "slice_ok [] (tlv_bytes t c) \<Longrightarrow> slice_ok [] c"
  using length_content_less [of c t] by (simp add: slice_ok_def)

lemma inner_slice_rest: "slice_ok [] (a @ tlv_bytes t c) \<Longrightarrow> slice_ok [] c"
  using length_content_less [of c t] by (simp add: slice_ok_def)

lemma inner_slice_first: "slice_ok [] (tlv_bytes t c @ b) \<Longrightarrow> slice_ok [] c"
  using length_content_less [of c t] by (simp add: slice_ok_def)

lemma read_tlv_last:
  "slice_ok pre (tlv_bytes t c) \<Longrightarrow> read_tlv (rd_at pre (tlv_bytes t c)) =
    (Inr \<lparr>tlv_tag = t, tlv_content = c\<rparr>, rd_at (pre @ tlv_bytes t c) [])"
  using read_tlv_head [of pre t c "[]"] by simp

lemmas reads = read_tlv_last reader_new_at tlv_reader_at slice_ok_step map_errR_def m_expect_at m_expect_last m_visible_at
  m_visible_last rd_read_if_field rd_read_if_field_last rd_read_if_at_end read_tlv_head

subsection \<open>Names in requests\<close>

definition one_variable :: "variable_name \<Rightarrow> bytes" where
  "one_variable n = tlv_bytes u_sequence (variable_content n)"

lemma one_variable_parsed: "slice_ok [] (one_variable n) \<Longrightarrow> name_ok2 n \<Longrightarrow> parse_list_of_variable (one_variable n) = Inr [n]"
  using parse_variables_bytes(1) [of "[n]"] by (simp add: one_variable_def)

lemma read_request_put: "read_write_request d i =
    put (tlv_bytes svc_read (tlv_bytes (tag_context 1 True) (tlv_bytes (tag_context 0 True) (one_variable (d, i)))))"
  by (simp add: read_write_request_def one_variable_def variable_content_def object_name_bytes_def names_bytes_def
      w_put u_sequence_def)

interpretation read_variable: mms_service svc_read "\<lambda>(d, i). read_write_request d i" read_decode_request
    "\<lambda>n. RtVariables [n]" name_ok2
proof
  fix n :: variable_name assume ok: "name_ok2 n"
  let ?v = "tlv_bytes (tag_context 0 True) (one_variable n)"
  let ?c = "tlv_bytes (tag_context 1 True) ?v"
  have "read_decode_request \<lparr>tlv_tag = svc_read, tlv_content = ?c\<rparr> = Inr (RtVariables [n])" if "length ?c < usize_limit"
  proof -
    have s: "slice_ok [] ?c" "slice_ok [] ?v" "slice_ok [] (one_variable n)"
      using that inner_slice by (auto simp: slice_ok_Nil)
    then show ?thesis
      by (simp add: read_decode_request_def reads one_variable_parsed [OF _ ok])
  qed
  then show "\<exists>c. (case n of (d, i) \<Rightarrow> read_write_request d i) = put (tlv_bytes svc_read c) \<and>
      (length c < usize_limit \<longrightarrow> read_decode_request \<lparr>tlv_tag = svc_read, tlv_content = c\<rparr> = Inr (RtVariables [n]))"
    by (cases n) (auto simp: read_request_put)
qed

lemma read_list_put: "read_write_data_set_request d n =
    put (tlv_bytes svc_read (tlv_bytes (tag_context 1 True) (tlv_bytes (tag_context 1 True) (object_name_bytes (d, n)))))"
  by (simp add: read_write_data_set_request_def object_name_bytes_def names_bytes_def w_put)

interpretation read_data_set: mms_service svc_read "\<lambda>(d, n). read_write_data_set_request d n" read_decode_request
    "\<lambda>(d, n). RtNamedList d n" name_ok2
proof
  fix n :: variable_name assume ok: "name_ok2 n"
  let ?v = "tlv_bytes (tag_context 1 True) (object_name_bytes n)"
  let ?c = "tlv_bytes (tag_context 1 True) ?v"
  have "read_decode_request \<lparr>tlv_tag = svc_read, tlv_content = ?c\<rparr> = Inr (RtNamedList (fst n) (snd n))" if "length ?c < usize_limit"
  proof -
    have s: "slice_ok [] ?c" "slice_ok [] ?v" "slice_ok [] (object_name_bytes n)" "slice_ok [] (names_bytes n)"
      using that inner_slice by (auto simp: slice_ok_Nil object_name_bytes_def)
    then show ?thesis
      using s read_two_names_bytes [OF s(4) ok]
      by (simp add: read_decode_request_def reads object_name_bytes_def case_prod_unfold)
  qed
  then show "\<exists>c. (case n of (d, n) \<Rightarrow> read_write_data_set_request d n) = put (tlv_bytes svc_read c) \<and>
      (length c < usize_limit \<longrightarrow> read_decode_request \<lparr>tlv_tag = svc_read, tlv_content = c\<rparr> =
        Inr (case n of (d, n) \<Rightarrow> RtNamedList d n))"
    by (cases n) (auto simp: read_list_put)
qed

subsection \<open>Values and results\<close>

definition error_ok :: "data_access_error \<Rightarrow> bool" where
  "error_ok e \<longleftrightarrow> dae_from_code (dae_to_code e) = e"

fun access_ok :: "access_result \<Rightarrow> bool" where
  "access_ok (AccessSuccess d) \<longleftrightarrow> data_ok d"
| "access_ok (AccessFailure e) \<longleftrightarrow> error_ok e"

fun access_tag :: "access_result \<Rightarrow> tag" where
  "access_tag (AccessSuccess d) = mms_tag d"
| "access_tag (AccessFailure e) = tag_context 0 False"

fun access_content :: "access_result \<Rightarrow> bytes" where
  "access_content (AccessSuccess d) = mms_content d"
| "access_content (AccessFailure e) = encode_integer (dae_to_code e)"

lemma mms_tag_not_error: "mms_tag d \<noteq> tag_context 0 False"
  by (cases d) simp_all

lemma write_access_put: "write_access_result r = put (tlv_bytes (access_tag r) (access_content r))"
  by (cases r) (simp_all add: mms_encode_put mms_bytes_def w_put)

lemma access_decodes:
  "access_ok r \<Longrightarrow> length (access_content r) < usize_limit \<Longrightarrow>
    decode_access_result \<lparr>tlv_tag = access_tag r, tlv_content = access_content r\<rparr> = Inr r"
  by (cases r) (simp_all add: decode_access_result_def mms_tag_not_error data_decodes decode_encode_integer error_ok_def)

interpretation read_results: mms_service svc_read read_encode_response read_decode_response "\<lambda>rs. rs" "list_all access_ok"
proof
  fix rs assume ok: "list_all access_ok rs"
  let ?v = "concat (map (\<lambda>r. tlv_bytes (access_tag r) (access_content r)) rs)"
  let ?c = "tlv_bytes (tag_context 1 True) ?v"
  have "read_decode_response \<lparr>tlv_tag = svc_read, tlv_content = ?c\<rparr> = Inr rs" if "length ?c < usize_limit"
  proof -
    have s: "slice_ok [] ?c" "slice_ok [] ?v"
      using that inner_slice by (auto simp: slice_ok_Nil)
    have "read_each decode_access_result (rd_at [] ?v) [] = Inr ([] @ rs)"
      by (rule read_each_bytes [OF _ s(2)]) (use ok in \<open>auto simp: list_all_iff access_decodes\<close>)
    then show ?thesis using s(1) by (simp add: read_decode_response_def reads)
  qed
  moreover have "read_encode_response rs = put (tlv_bytes svc_read ?c)"
    by (simp add: read_encode_response_def w_field [OF write_access_put] w_put)
  ultimately show "\<exists>c. read_encode_response rs = put (tlv_bytes svc_read c) \<and>
      (length c < usize_limit \<longrightarrow> read_decode_response \<lparr>tlv_tag = svc_read, tlv_content = c\<rparr> = Inr rs)"
    by blast
qed

interpretation write_variable: mms_service svc_write "\<lambda>q. write_write_request (fst (fst q)) (snd (fst q)) (snd q)" write_decode_request
    "\<lambda>q. ([fst q], [snd q])" "\<lambda>q. name_ok2 (fst q) \<and> data_ok (snd q)"
proof
  fix q :: "variable_name \<times> mms_data" assume q: "name_ok2 (fst q) \<and> data_ok (snd q)"
  obtain n v where nv: "q = (n, v)" by (cases q)
  have ok: "name_ok2 n" "data_ok v" using q nv by auto
  let ?c = "tlv_bytes (tag_context 0 True) (one_variable n) @ tlv_bytes (tag_context 0 True) (mms_bytes v)"
  have "write_decode_request \<lparr>tlv_tag = svc_write, tlv_content = ?c\<rparr> = Inr ([n], [v])" if "length ?c < usize_limit"
  proof -
    have s: "slice_ok [] ?c" using that by (simp add: slice_ok_Nil)
    have i: "slice_ok [] (one_variable n)" "slice_ok [] (mms_bytes v)"
      using inner_slice_first [OF s] inner_slice_rest [OF s] by (auto dest: inner_slice)
    have "read_each decode_value (rd_at [] (mms_bytes v)) [] = Inr [v]"
      using read_each_bytes [of "[v]" mms_content decode_value mms_tag "[]" "[]"] ok(2) i(2)
      by (simp add: mms_bytes_def decode_value_def data_decodes)
    then show ?thesis using s i by (simp add: write_decode_request_def reads one_variable_parsed [OF _ ok(1)])
  qed
  moreover have "write_write_request (fst (fst q)) (snd (fst q)) (snd q) = put (tlv_bytes svc_write ?c)"
    by (simp add: nv write_write_request_def one_variable_def variable_content_def object_name_bytes_def names_bytes_def
        w_put u_sequence_def mms_encode_put case_prod_unfold)
  ultimately show "\<exists>c. write_write_request (fst (fst q)) (snd (fst q)) (snd q) = put (tlv_bytes svc_write c) \<and>
      (length c < usize_limit \<longrightarrow> write_decode_request \<lparr>tlv_tag = svc_write, tlv_content = c\<rparr> =
        Inr ([fst q], [snd q]))"
    by (intro exI [of _ ?c]) (simp add: nv)
qed

fun write_ok :: "write_result \<Rightarrow> bool" where
  "write_ok WriteSuccess \<longleftrightarrow> True"
| "write_ok (WriteFailure e) \<longleftrightarrow> error_ok e"

fun write_field :: "write_result \<Rightarrow> tag \<times> bytes" where
  "write_field WriteSuccess = (tag_context 1 False, [])"
| "write_field (WriteFailure e) = (tag_context 0 False, encode_integer (dae_to_code e))"

lemma write_result_put: "write_write_result r = put (tlv_bytes (fst (write_field r)) (snd (write_field r)))"
  by (cases r) (simp_all add: w_put)

interpretation write_results: mms_service svc_write write_encode_response write_decode_response "\<lambda>rs. rs" "list_all write_ok"
proof
  fix rs assume ok: "list_all write_ok rs"
  let ?c = "concat (map (\<lambda>r. tlv_bytes (fst (write_field r)) (snd (write_field r))) rs)"
  have d: "decode_write_result \<lparr>tlv_tag = fst (write_field r), tlv_content = snd (write_field r)\<rparr> = Inr r" if "write_ok r" for r
    using that by (cases r) (simp_all add: decode_write_result_def decode_encode_integer error_ok_def)
  have "write_decode_response \<lparr>tlv_tag = svc_write, tlv_content = ?c\<rparr> = Inr rs" if "length ?c < usize_limit"
  proof -
    have "read_each decode_write_result (rd_at [] ?c) [] = Inr ([] @ rs)"
      by (rule read_each_bytes) (use ok d that in \<open>auto simp: list_all_iff slice_ok_Nil\<close>)
    then show ?thesis by (simp add: write_decode_response_def reader_new_at)
  qed
  moreover have "write_encode_response rs = put (tlv_bytes svc_write ?c)"
    by (simp add: write_encode_response_def w_field [OF write_result_put] w_put)
  ultimately show "\<exists>c. write_encode_response rs = put (tlv_bytes svc_write c) \<and>
      (length c < usize_limit \<longrightarrow> write_decode_response \<lparr>tlv_tag = svc_write, tlv_content = c\<rparr> = Inr rs)"
    by blast
qed

subsection \<open>Identification and names\<close>

lemma w_visible_put: "w_visible_string t s = put (tlv_bytes t (as_bytes s))"
  by (simp add: w_put)


interpretation identify: mms_service svc_identify_response identify_encode_response identify_decode_response "\<lambda>r. r"
    "\<lambda>r. str_ok (id_vendor r) \<and> str_ok (id_model r) \<and> str_ok (id_revision r)"
proof
  fix r :: identify_response assume ok: "str_ok (id_vendor r) \<and> str_ok (id_model r) \<and> str_ok (id_revision r)"
  let ?c = "tlv_bytes (tag_context 0 False) (as_bytes (id_vendor r)) @
    tlv_bytes (tag_context 1 False) (as_bytes (id_model r)) @ tlv_bytes (tag_context 2 False) (as_bytes (id_revision r))"
  have "identify_decode_response \<lparr>tlv_tag = svc_identify_response, tlv_content = ?c\<rparr> = Inr r" if "length ?c < usize_limit"
  proof -
    have "slice_ok [] ?c" using that by (simp add: slice_ok_Nil)
    then show ?thesis using ok by (simp add: identify_decode_response_def reads)
  qed
  moreover have "identify_encode_response r = put (tlv_bytes svc_identify_response ?c)"
    by (simp add: identify_encode_response_def w_put)
  ultimately show "\<exists>c. identify_encode_response r = put (tlv_bytes svc_identify_response c) \<and>
      (length c < usize_limit \<longrightarrow> identify_decode_response \<lparr>tlv_tag = svc_identify_response, tlv_content = c\<rparr> = Inr r)"
    by blast
qed

fun scope_ok :: "object_scope \<Rightarrow> bool" where
  "scope_ok VmdSpecific \<longleftrightarrow> True"
| "scope_ok (DomainSpecific d) \<longleftrightarrow> str_ok d"

definition name_request_ok :: "name_list_request \<Rightarrow> bool" where
  "name_request_ok q \<longleftrightarrow> scope_ok (nl_scope q) \<and> (\<forall>ca. nl_continue_after q = Some ca \<longrightarrow> str_ok ca)"

fun scope_bytes :: "object_scope \<Rightarrow> bytes" where
  "scope_bytes VmdSpecific = tlv_bytes (tag_context 0 False) []"
| "scope_bytes (DomainSpecific d) = tlv_bytes (tag_context 1 False) (as_bytes d)"

lemma write_scope_put: "write_scope s = put (scope_bytes s)"
  by (cases s) (simp_all add: write_scope_def w_put)

lemma decode_scope_bytes: "slice_ok [] (scope_bytes s) \<Longrightarrow> scope_ok s \<Longrightarrow> decode_scope (scope_bytes s) = Inr s"
  by (cases s) (simp_all add: decode_scope_def reads decode_visible_as_bytes)

lemma decode_class_bytes:
  "slice_ok [] (tlv_bytes (tag_context 0 False) (encode_integer (class_code c))) \<Longrightarrow>
    decode_class (tlv_bytes (tag_context 0 False) (encode_integer (class_code c))) = Inr c"
  by (cases c) (simp_all add: decode_class_def reads decode_encode_integer class_from_code_def)

interpretation name_list: mms_service svc_get_name_list name_list_write_request name_list_decode_request "\<lambda>q. q" name_request_ok
proof
  fix q assume ok: "name_request_ok q"
  let ?k = "tlv_bytes (tag_context 0 False) (encode_integer (class_code (nl_class q)))"
  let ?ca = "case nl_continue_after q of Some ca \<Rightarrow> tlv_bytes (tag_context 2 False) (as_bytes ca) | None \<Rightarrow> []"
  let ?c = "tlv_bytes (tag_context 0 True) ?k @ tlv_bytes (tag_context 1 True) (scope_bytes (nl_scope q)) @ ?ca"
  have "name_list_decode_request \<lparr>tlv_tag = svc_get_name_list, tlv_content = ?c\<rparr> = Inr q" if "length ?c < usize_limit"
  proof -
    have s: "slice_ok [] ?c" using that by (simp add: slice_ok_Nil)
    then have i: "slice_ok [] ?k" "slice_ok [] (scope_bytes (nl_scope q))"
      using length_content_less [of ?k "tag_context 0 True"]
        length_content_less [of "scope_bytes (nl_scope q)" "tag_context 1 True"] by (simp_all add: slice_ok_def)
    show ?thesis
      using s decode_class_bytes [OF i(1)] decode_scope_bytes [OF i(2)] ok
      by (cases "nl_continue_after q")
        (simp_all add: name_list_decode_request_def reads name_request_ok_def decode_visible_as_bytes)
  qed
  moreover have "name_list_write_request q = put (tlv_bytes svc_get_name_list ?c)"
    by (cases "nl_continue_after q") (simp_all add: name_list_write_request_def w_put write_scope_put w_seq_simps)
  ultimately show "\<exists>c. name_list_write_request q = put (tlv_bytes svc_get_name_list c) \<and>
      (length c < usize_limit \<longrightarrow> name_list_decode_request \<lparr>tlv_tag = svc_get_name_list, tlv_content = c\<rparr> = Inr q)"
    by blast
qed

interpretation name_page: mms_service svc_get_name_list name_list_encode_response name_list_decode_response "\<lambda>r. r"
    "\<lambda>r. list_all str_ok (nl_identifiers r)"
proof
  fix r :: name_list_response assume ok: "list_all str_ok (nl_identifiers r)"
  let ?v = "concat (map (\<lambda>s. tlv_bytes u_visible_string (as_bytes s)) (nl_identifiers r))"
  let ?c = "tlv_bytes (tag_context 0 True) ?v @ tlv_bytes (tag_context 1 False) (encode_bool (nl_more_follows r))"
  have "name_list_decode_response \<lparr>tlv_tag = svc_get_name_list, tlv_content = ?c\<rparr> = Inr r" if "length ?c < usize_limit"
  proof -
    have s: "slice_ok [] ?c" using that by (simp add: slice_ok_Nil)
    then have i: "slice_ok [] ?v" by (rule inner_slice_first)
    have "read_each decode_identifier (rd_at [] ?v) [] = Inr ([] @ nl_identifiers r)"
      by (rule read_each_bytes [OF _ i]) (use ok in \<open>auto simp: list_all_iff decode_identifier_def tlv_expect_def decode_visible_as_bytes\<close>)
    then show ?thesis using s by (simp add: name_list_decode_response_def reads decode_encode_bool)
  qed
  moreover have "name_list_encode_response r = put (tlv_bytes svc_get_name_list ?c)"
    by (simp add: name_list_encode_response_def w_field [where f = "w_visible_string u_visible_string", OF w_visible_put] w_put)
  ultimately show "\<exists>c. name_list_encode_response r = put (tlv_bytes svc_get_name_list c) \<and>
      (length c < usize_limit \<longrightarrow> name_list_decode_response \<lparr>tlv_tag = svc_get_name_list, tlv_content = c\<rparr> = Inr r)"
    by blast
qed

subsection \<open>Named variable lists\<close>

definition members_bytes :: "variable_name list \<Rightarrow> bytes" where
  "members_bytes ns = concat (map one_variable ns)"

lemma write_members_put: "write_members ns = put (members_bytes ns)"
  unfolding write_members_def members_bytes_def
  by (rule w_field) (simp add: case_prod_unfold write_variable_spec_def write_object_name_put w_put
      one_variable_def variable_content_def u_sequence_def)

lemma members_parsed:
  "slice_ok [] (members_bytes ns) \<Longrightarrow> list_all name_ok2 ns \<Longrightarrow> parse_list_of_variable_spec (members_bytes ns) = Inr ns"
  unfolding members_bytes_def one_variable_def by (rule parse_variables_bytes(2))

definition list_ok :: "variable_name \<times> variable_name list \<Rightarrow> bool" where
  "list_ok q \<longleftrightarrow> name_ok2 (fst q) \<and> list_all name_ok2 (snd q)"

interpretation define_list: mms_service svc_define_list
    "\<lambda>q. write_define_request (fst (fst q)) (snd (fst q)) (snd q)" decode_define_request "\<lambda>q. q" list_ok
proof
  fix q assume ok: "list_ok q"
  let ?c = "object_name_bytes (fst q) @ tlv_bytes (tag_context 0 True) (members_bytes (snd q))"
  have "decode_define_request \<lparr>tlv_tag = svc_define_list, tlv_content = ?c\<rparr> = Inr q" if "length ?c < usize_limit"
  proof -
    have s: "slice_ok [] ?c" using that by (simp add: slice_ok_Nil)
    have i: "slice_ok [] (names_bytes (fst q))" "slice_ok [] (members_bytes (snd q))"
      using inner_slice_first [OF s [unfolded object_name_bytes_def]] inner_slice_rest [OF s] by auto
    show ?thesis
      using s ok read_two_names_bytes [OF i(1)] members_parsed [OF i(2)]
      by (simp add: decode_define_request_def object_name_bytes_def reads list_ok_def)
  qed
  moreover have "write_define_request (fst (fst q)) (snd (fst q)) (snd q) = put (tlv_bytes svc_define_list ?c)"
    by (simp add: write_define_request_def write_object_name_put write_members_put w_put)
  ultimately show "\<exists>c. write_define_request (fst (fst q)) (snd (fst q)) (snd q) = put (tlv_bytes svc_define_list c) \<and>
      (length c < usize_limit \<longrightarrow> decode_define_request \<lparr>tlv_tag = svc_define_list, tlv_content = c\<rparr> = Inr q)"
    by blast
qed

interpretation delete_list: mms_service svc_delete_list "\<lambda>n. write_delete_request (fst n) (snd n)" decode_delete_request
    "\<lambda>n. [n]" name_ok2
proof
  fix n assume ok: "name_ok2 n"
  let ?c = "tlv_bytes (tag_context 0 False) (encode_integer 0) @ tlv_bytes (tag_context 1 True) (object_name_bytes n)"
  have "decode_delete_request \<lparr>tlv_tag = svc_delete_list, tlv_content = ?c\<rparr> = Inr [n]" if "length ?c < usize_limit"
  proof -
    have s: "slice_ok [] ?c" using that by (simp add: slice_ok_Nil)
    have o: "slice_ok [] (object_name_bytes n)" by (rule inner_slice_rest [OF s])
    then have "read_each decode_list_name (rd_at [] (object_name_bytes n)) [] = Inr [n]"
      using read_each_bytes [of "[n]" names_bytes decode_list_name "\<lambda>_. tag_context 1 True" "[]" "[]"] ok
      by (simp add: decode_list_name_def tlv_expect_def object_name_bytes_def read_two_names_bytes slice_ok_Nil)
    then show ?thesis using s by (simp add: decode_delete_request_def reads)
  qed
  moreover have "write_delete_request (fst n) (snd n) = put (tlv_bytes svc_delete_list ?c)"
    by (simp add: write_delete_request_def write_object_name_put w_put)
  ultimately show "\<exists>c. write_delete_request (fst n) (snd n) = put (tlv_bytes svc_delete_list c) \<and>
      (length c < usize_limit \<longrightarrow> decode_delete_request \<lparr>tlv_tag = svc_delete_list, tlv_content = c\<rparr> = Inr [n])"
    by blast
qed

interpretation delete_result: mms_service svc_delete_list encode_delete_response decode_delete_response "\<lambda>r. r" "\<lambda>r. True"
proof
  fix r :: delete_result
  let ?c = "tlv_bytes (tag_context 0 False) (encode_unsigned (ucast (dr_matched r))) @
    tlv_bytes (tag_context 1 False) (encode_unsigned (ucast (dr_deleted r)))"
  have "decode_delete_response \<lparr>tlv_tag = svc_delete_list, tlv_content = ?c\<rparr> = Inr r" if "length ?c < usize_limit"
    using that [folded slice_ok_Nil]
    by (simp add: decode_delete_response_def read_unsigned_def reads decode_encode_unsigned ucast_u32_u64)
  moreover have "encode_delete_response r = put (tlv_bytes svc_delete_list ?c)"
    by (simp add: encode_delete_response_def w_put)
  ultimately show "\<exists>c. encode_delete_response r = put (tlv_bytes svc_delete_list c) \<and>
      (length c < usize_limit \<longrightarrow> decode_delete_response \<lparr>tlv_tag = svc_delete_list, tlv_content = c\<rparr> = Inr r)"
    by blast
qed

interpretation list_attributes: mms_service svc_get_list_attributes "\<lambda>n. write_get_attributes_request (fst n) (snd n)"
    decode_get_attributes_request "\<lambda>n. n" name_ok2
proof
  fix n assume "name_ok2 n"
  then show "\<exists>c. write_get_attributes_request (fst n) (snd n) = put (tlv_bytes svc_get_list_attributes c) \<and>
      (length c < usize_limit \<longrightarrow> decode_get_attributes_request \<lparr>tlv_tag = svc_get_list_attributes, tlv_content = c\<rparr> = Inr n)"
    by (intro exI [of _ "object_name_bytes n"])
      (simp add: write_get_attributes_request_def write_object_name_put w_put decode_get_attributes_request_def
        read_object_name_bytes slice_ok_Nil)
qed

interpretation list_members: mms_service svc_get_list_attributes
    "\<lambda>a. encode_get_attributes_response (la_deletable a) (la_members a)" decode_get_attributes_response "\<lambda>a. a"
    "\<lambda>a. list_all name_ok2 (la_members a)"
proof
  fix a :: list_attributes assume ok: "list_all name_ok2 (la_members a)"
  let ?c = "tlv_bytes (tag_context 0 False) (encode_bool (la_deletable a)) @
    tlv_bytes (tag_context 1 True) (members_bytes (la_members a))"
  have "decode_get_attributes_response \<lparr>tlv_tag = svc_get_list_attributes, tlv_content = ?c\<rparr> = Inr a" if "length ?c < usize_limit"
  proof -
    have s: "slice_ok [] ?c" using that by (simp add: slice_ok_Nil)
    then show ?thesis
      using members_parsed [OF inner_slice_rest [OF s]] ok
      by (simp add: decode_get_attributes_response_def reads decode_encode_bool)
  qed
  moreover have "encode_get_attributes_response (la_deletable a) (la_members a) = put (tlv_bytes svc_get_list_attributes ?c)"
    by (simp add: encode_get_attributes_response_def write_members_put w_put)
  ultimately show "\<exists>c. encode_get_attributes_response (la_deletable a) (la_members a) = put (tlv_bytes svc_get_list_attributes c) \<and>
      (length c < usize_limit \<longrightarrow> decode_get_attributes_response \<lparr>tlv_tag = svc_get_list_attributes, tlv_content = c\<rparr> = Inr a)"
    by blast
qed

section \<open>Services over the stream\<close>

text \<open>A unit of the data phase, from one end's \<open>send_report\<close> or \<open>request\<close> to the other's
  \<open>extract_inner_pdu\<close>.\<close>

definition send_unit :: "u64 \<Rightarrow> bytes \<Rightarrow> bytes" where
  "send_unit mms_ctx pdu = send_data (session_data (user_data pdu mms_ctx))"

definition recv_unit :: "bytes \<Rightarrow> (mms_error + bytes) \<times> bytes" where
  "recv_unit input = (case recv_data input of
      (Inl e, s) \<Rightarrow> (Inl e, s)
    | (Inr payload, s) \<Rightarrow> (extract_inner_pdu payload, s))"

lemma user_data_bound: "length (user_data pdu i) \<le> length pdu + 68"
  using tlv_bytes_bound [of fully_encoded "pdv_bytes pdu i"]
    tlv_bytes_bound [of u_sequence "tlv_bytes u_integer (encode_integer i) @ tlv_bytes single_asn1 pdu"]
    tlv_bytes_bound [of u_integer "encode_integer i"] tlv_bytes_bound [of single_asn1 pdu]
    length_encode_integer(2) [of i]
  by (simp add: user_data_bytes pdv_bytes_def)

definition max_unit :: nat where
  "max_unit = 16 * 1024 * 1024 - 100"

lemma recv_sent_unit:
  assumes "length pdu \<le> max_unit"
  shows "recv_unit (send_unit i pdu @ s) = (Inr pdu, s)"
proof -
  have "length (session_data (user_data pdu i)) \<le> max_tsdu_len"
    using assms user_data_bound [of pdu i]
    by (simp add: session_data_def data_prefix_def max_unit_def max_tsdu_len_def)
  from recv_send_data [OF this] show ?thesis
    using extract_session_data [of pdu i] assms by (simp add: recv_unit_def send_unit_def max_unit_def)
qed

lemma max_unit_slice: "n \<le> max_unit \<Longrightarrow> n < usize_limit"
  by (simp add: max_unit_def usize_limit_def)

section \<open>Properties\<close>

text \<open>A client's request to write a variable reaches the server over the stream with the name, the
  value and the invocation number, and the server's answer reaches the client's reader as the result
  of that invocation, with every result and error kept.\<close>

theorem write_service_carried:
  assumes "name_ok2 n" "data_ok v" "list_all write_ok rs"
    "request = encode_confirmed_request i (write_write_request (fst n) (snd n) v)"
    "response = encode_confirmed_response i (write_encode_response rs)"
    "length request \<le> max_unit" "length response \<le> max_unit"
  shows "\<exists>q r. recv_unit (send_unit ctx request @ s) = (Inr request, s) \<and>
    parse_confirmed_request request = Inr (i, q) \<and> write_decode_request q = Inr ([n], [v]) \<and>
    recv_unit (send_unit ctx' response @ s') = (Inr response, s') \<and>
    peek_invoke_and_kind response = Inr (KConfirmedResponse, Some i) \<and>
    parse_confirmed_response response = Inr r \<and> write_decode_response (cr_service r) = Inr rs"
proof -
  obtain q where "parse_confirmed_request request = Inr (i, q)" "write_decode_request q = Inr ([n], [v])"
    using write_variable.request_decoded [of "(n, v)" i] assms(1,2,4,6) by (auto simp: max_unit_slice)
  moreover obtain sv where "parse_confirmed_response response = Inr \<lparr>cr_invoke_id = i, cr_service = sv\<rparr>"
    "write_decode_response sv = Inr rs" "peek_invoke_and_kind response = Inr (KConfirmedResponse, Some i)"
    using write_results.response_decoded [of rs i] assms(3,5,7) by (auto simp: max_unit_slice)
  ultimately show ?thesis
    using recv_sent_unit assms(6,7) by (metis confirmed_response.select_convs(2))
qed

text \<open>The same for reading: the names a client asks for, of a variable or of a data set, and
  every value or error the server answers with.\<close>

theorem read_service_carried:
  assumes "name_ok2 n" "list_all access_ok rs"
    "request = encode_confirmed_request i (if named then read_write_data_set_request (fst n) (snd n)
       else read_write_request (fst n) (snd n))"
    "response = encode_confirmed_response i (read_encode_response rs)"
    "length request \<le> max_unit" "length response \<le> max_unit"
  shows "\<exists>q r. recv_unit (send_unit ctx request @ s) = (Inr request, s) \<and>
    parse_confirmed_request request = Inr (i, q) \<and>
    read_decode_request q = Inr (if named then RtNamedList (fst n) (snd n) else RtVariables [n]) \<and>
    recv_unit (send_unit ctx' response @ s') = (Inr response, s') \<and>
    peek_invoke_and_kind response = Inr (KConfirmedResponse, Some i) \<and>
    parse_confirmed_response response = Inr r \<and> read_decode_response (cr_service r) = Inr rs"
proof -
  obtain q where "parse_confirmed_request request = Inr (i, q)"
    "read_decode_request q = Inr (if named then RtNamedList (fst n) (snd n) else RtVariables [n])"
    using read_variable.request_decoded [of n i] read_data_set.request_decoded [of n i] assms(1,3,5)
    by (cases named) (auto simp: max_unit_slice case_prod_unfold)
  moreover obtain sv where "parse_confirmed_response response = Inr \<lparr>cr_invoke_id = i, cr_service = sv\<rparr>"
    "read_decode_response sv = Inr rs" "peek_invoke_and_kind response = Inr (KConfirmedResponse, Some i)"
    using read_results.response_decoded [of rs i] assms(2,4,6) by (auto simp: max_unit_slice)
  ultimately show ?thesis
    using recv_sent_unit assms(5,6) by (metis confirmed_response.select_convs(2))
qed


end
