(* ===== verification/AccessControl.thy ===== *)
theory AccessControl imports MmsPdu L2Auth begin

text \<open>
  Access control of the MMS server (IEC 62351-8): permissions, roles, the permission an item requires
  and the authentication policy (src/crates/iec61850-mms/src/server.rs, Permissions, Role, AuthPolicy),
  and the signed access tokens (mms/token.rs). Signatures are those of L2Auth; the properties say that
  a role is never granted without its credential and what each role may write.
\<close>

unbundle bit_operations_syntax

section \<open>Permissions\<close>

datatype permissions = Permissions (perm_bits: u16)

definition perm_data_read :: permissions where "perm_data_read = Permissions (push_bit 0 1)"
definition perm_data_write :: permissions where "perm_data_write = Permissions (push_bit 1 1)"
definition perm_control :: permissions where "perm_control = Permissions (push_bit 2 1)"
definition perm_reporting :: permissions where "perm_reporting = Permissions (push_bit 3 1)"
definition perm_dataset_define :: permissions where "perm_dataset_define = Permissions (push_bit 4 1)"
definition perm_config :: permissions where "perm_config = Permissions (push_bit 5 1)"
definition perm_setting :: permissions where "perm_setting = Permissions (push_bit 6 1)"
definition perm_file_read :: permissions where "perm_file_read = Permissions (push_bit 7 1)"
definition perm_file_write :: permissions where "perm_file_write = Permissions (push_bit 8 1)"
definition perm_none :: permissions where "perm_none = Permissions 0"

definition perm_contains :: "permissions \<Rightarrow> permissions \<Rightarrow> bool" where
  "perm_contains p q \<longleftrightarrow> perm_bits p AND perm_bits q = perm_bits q"

definition perm_bitor :: "permissions \<Rightarrow> permissions \<Rightarrow> permissions" where
  "perm_bitor p q = Permissions (perm_bits p OR perm_bits q)"

section \<open>Roles\<close>

datatype role = Viewer | Operator | Engineer | Custom permissions

fun role_permissions :: "role \<Rightarrow> permissions" where
  "role_permissions Viewer = perm_bitor perm_data_read perm_file_read"
| "role_permissions Operator =
    perm_bitor (perm_bitor (perm_bitor (perm_bitor perm_data_read perm_control) perm_reporting)
      perm_dataset_define) perm_file_read"
| "role_permissions Engineer =
    perm_bitor (perm_bitor (perm_bitor (perm_bitor (perm_bitor (perm_bitor (perm_bitor (perm_bitor
      perm_data_read perm_data_write) perm_control) perm_reporting) perm_dataset_define) perm_config)
      perm_setting) perm_file_read) perm_file_write"
| "role_permissions (Custom p) = p"

definition role_from_permissions :: "permissions \<Rightarrow> role" where
  "role_from_permissions perms =
    (if perms = role_permissions Viewer then Viewer
     else if perms = role_permissions Operator then Operator
     else if perms = role_permissions Engineer then Engineer
     else Custom perms)"

text \<open>\<open>str::contains\<close> of a text, and \<open>item.split('$').nth(1)\<close>.\<close>

fun contains_text :: "'a list \<Rightarrow> 'a list \<Rightarrow> bool" where
  "contains_text p [] = (p = [])"
| "contains_text p (x # s) = (starts_with p (x # s) \<or> contains_text p s)"

definition second_part :: "string \<Rightarrow> string option" where
  "second_part item = get_at (split_on (CHR ''$'') item) 1"

definition is_setting_item :: "string \<Rightarrow> bool" where
  "is_setting_item item \<longleftrightarrow>
    (second_part item = Some ''SG'' \<or> second_part item = Some ''SE'') \<or> contains_text ''$SP$SGCB'' item"

definition write_permission :: "string \<Rightarrow> permissions" where
  "write_permission item =
    (if contains_text ''$CO$'' item then perm_control
     else if contains_text ''$RP$'' item \<or> contains_text ''$BR$'' item then perm_reporting
     else if is_setting_item item then perm_setting
     else if contains_text ''$CF$'' item then perm_config
     else perm_data_write)"

definition may_write :: "role \<Rightarrow> string \<Rightarrow> bool" where
  "may_write r item = perm_contains (role_permissions r) (write_permission item)"

definition may_read :: "role \<Rightarrow> string \<Rightarrow> bool" where
  "may_read r item =
    (let p = role_permissions r
     in if second_part item = Some ''SE'' then perm_contains p perm_setting
        else perm_contains p perm_data_read)"

definition may_define_dataset :: "role \<Rightarrow> bool" where
  "may_define_dataset r = perm_contains (role_permissions r) perm_dataset_define"

definition may_read_files :: "role \<Rightarrow> bool" where
  "may_read_files r = perm_contains (role_permissions r) perm_file_read"

definition may_write_files :: "role \<Rightarrow> bool" where
  "may_write_files r = perm_contains (role_permissions r) perm_file_write"

section \<open>Access tokens\<close>

record access_token =
  at_subject :: string
  at_role :: role
  at_issuer :: string
  at_not_before :: u64
  at_not_after :: u64

datatype token_error = TokenMalformed | TokenBadSignature | TokenExpired

definition u_octet_string :: tag where "u_octet_string = tag_universal 4 False"

definition encode_claims :: "access_token \<Rightarrow> bytes" where
  "encode_claims t = into_bytes (w_tlv u_sequence (\<lambda>w. w_seq
     [w_visible_string u_visible_string (at_subject t),
      w_integer u_integer (ucast (perm_bits (role_permissions (at_role t)))),
      w_visible_string u_visible_string (at_issuer t),
      w_integer u_integer (at_not_before t),
      w_integer u_integer (at_not_after t)] w) writer_new)"

definition token_string :: "(token_error, string) reading" where
  "token_string cr = thenE (map_errR (\<lambda>_. TokenMalformed) (rd_expect u_visible_string cr)) (\<lambda>c cr.
     (map_errE (\<lambda>_. TokenMalformed) (decode_visible_string c), cr))"

definition token_integer :: "(token_error, u64) reading" where
  "token_integer cr = thenE (map_errR (\<lambda>_. TokenMalformed) (rd_expect u_integer cr)) (\<lambda>c cr.
     (map_errE (\<lambda>_. TokenMalformed) (decode_integer c), cr))"

definition decode_claims :: "bytes \<Rightarrow> token_error + access_token" where
  "decode_claims bs =
    bindE (map_errE (\<lambda>_. TokenMalformed) (fst (read_tlv (reader_new bs)))) (\<lambda>sq.
      if tlv_tag sq \<noteq> u_sequence then Inl TokenMalformed
      else fst (thenE (token_string (reader_new (tlv_content sq))) (\<lambda>subject cr.
        thenE (token_integer cr) (\<lambda>bits cr.
        thenE (token_string cr) (\<lambda>issuer cr.
        thenE (token_integer cr) (\<lambda>not_before cr.
        thenE (token_integer cr) (\<lambda>not_after cr.
          (Inr \<lparr>at_subject = subject, at_role = role_from_permissions (Permissions (ucast bits)),
                at_issuer = issuer, at_not_before = not_before, at_not_after = not_after\<rparr>, cr))))))))"

text \<open>\<open>sign\<close> is \<open>signer.sign_tag\<close> and \<open>check\<close> is \<open>authority.verify_tag\<close> (L2Auth), at the instant
  they read their clock.\<close>

definition token_issue :: "(bytes \<Rightarrow> bytes) \<Rightarrow> access_token \<Rightarrow> bytes" where
  "token_issue sign token =
    (let claims = encode_claims token;
         signature = sign claims
     in into_bytes (w_tlv u_sequence (\<lambda>w. w_seq
          [w_octet_string u_octet_string claims, w_octet_string u_octet_string signature] w) writer_new))"

definition token_verify :: "(bytes \<Rightarrow> bytes \<Rightarrow> bool) \<Rightarrow> u64 \<Rightarrow> bytes \<Rightarrow> token_error + access_token" where
  "token_verify check now bs =
    bindE (map_errE (\<lambda>_. TokenMalformed) (fst (read_tlv (reader_new bs)))) (\<lambda>outer.
      if tlv_tag outer \<noteq> u_sequence then Inl TokenMalformed
      else fst (thenE (map_errR (\<lambda>_. TokenMalformed) (rd_expect u_octet_string (reader_new (tlv_content outer)))) (\<lambda>claims ir.
        thenE (map_errR (\<lambda>_. TokenMalformed) (rd_expect u_octet_string ir)) (\<lambda>signature ir.
          (if \<not> check claims signature then Inl TokenBadSignature
           else bindE (decode_claims claims) (\<lambda>token.
             if \<not> (at_not_before token \<le> now \<and> now < at_not_after token) then Inl TokenExpired
             else Inr token), ir)))))"

section \<open>The authentication policy\<close>

datatype 'vk auth_policy =
    NoAuth
  | Passwords "(string \<times> role) list"
  | Certificates "(string \<times> role) list"
  | TokenAuth "'vk verifier"

fun authorize :: "('vk \<Rightarrow> bytes \<Rightarrow> bytes \<Rightarrow> bool) \<Rightarrow> u64 \<Rightarrow> 'vk auth_policy \<Rightarrow> bytes option \<Rightarrow> string option \<Rightarrow> role option" where
  "authorize ecdsa_verify now NoAuth password cert_cn = Some Engineer"
| "authorize ecdsa_verify now (Passwords list) password cert_cn =
    Option.bind password (\<lambda>pw. map_option snd (find (\<lambda>(p, _). as_bytes p = pw) list))"
| "authorize ecdsa_verify now (Certificates list) password cert_cn =
    Option.bind cert_cn (\<lambda>cn. map_option snd (find (\<lambda>(c, _). c = cn) list))"
| "authorize ecdsa_verify now (TokenAuth authority) password cert_cn =
    Option.bind password (\<lambda>token_bytes.
      case token_verify (verifier_verify_tag ecdsa_verify now authority) now token_bytes of
        Inr t \<Rightarrow> Some (at_role t)
      | Inl _ \<Rightarrow> None)"

section \<open>Facts\<close>

lemma perm_values:
  "perm_bits perm_data_read = 1" "perm_bits perm_data_write = 2" "perm_bits perm_control = 4"
  "perm_bits perm_reporting = 8" "perm_bits perm_dataset_define = 16" "perm_bits perm_config = 32"
  "perm_bits perm_setting = 64" "perm_bits perm_file_read = 128" "perm_bits perm_file_write = 256"
  by code_simp+

declare role_permissions.simps(1-3) [simp del]

lemma role_bits:
  "perm_bits (role_permissions Viewer) = 0x81" "perm_bits (role_permissions Operator) = 0x9D"
  "perm_bits (role_permissions Engineer) = 0x1FF"
  by code_simp+

lemma role_from_permissions_same [simp]: "role_permissions (role_from_permissions p) = p"
  by (simp only: role_from_permissions_def if_distrib [of role_permissions]) simp

lemma role_from_permissions_standard:
  "role_from_permissions (role_permissions r) = (case r of Custom p \<Rightarrow> role_from_permissions p | _ \<Rightarrow> r)"
proof -
  have d: "role_permissions Viewer \<noteq> role_permissions Operator" "role_permissions Viewer \<noteq> role_permissions Engineer"
    "role_permissions Operator \<noteq> role_permissions Engineer"
    using role_bits by (auto dest: arg_cong [of _ _ perm_bits])
  show ?thesis
    by (cases r) (simp_all add: role_from_permissions_def d d [symmetric])
qed

lemma write_permission_cases:
  "write_permission item \<in> {perm_control, perm_reporting, perm_setting, perm_config, perm_data_write}"
  by (simp add: write_permission_def)

lemmas may_simps = may_write_def may_read_def perm_contains_def role_bits perm_values

text \<open>Occurrences of a text between separators.\<close>

lemma starts_with_Cons [simp]: "starts_with (a # p) (b # s) \<longleftrightarrow> a = b \<and> starts_with p s"
  by (auto simp: starts_with_def)

lemma starts_with_Nil [simp]: "starts_with [] s" "starts_with (a # p) [] = False"
  by (simp_all add: starts_with_def)

lemma contains_plain: "c \<notin> set s \<Longrightarrow> \<not> contains_text (c # y) s"
  by (induction s) auto

lemma contains_skip:
  "c \<notin> set p \<Longrightarrow> contains_text (c # y) (p @ c # s) \<longleftrightarrow> starts_with y s \<or> contains_text (c # y) s"
  by (induction p) auto

lemma starts_with_part:
  assumes "c \<notin> set x" "c \<notin> set q"
  shows "starts_with (x @ c # z) (q @ prepend_all c ps) \<longleftrightarrow>
    q = x \<and> ps \<noteq> [] \<and> starts_with z (tl (prepend_all c ps))"
  using assms
proof (induction x arbitrary: q)
  case Nil
  then show ?case by (cases q; cases ps) (auto simp: prepend_all_def)
next
  case (Cons a x)
  then show ?case by (cases q; cases ps) (auto simp: prepend_all_def)
qed

lemma contains_part:
  assumes "c \<notin> set x" "c \<notin> set p" "\<forall>q \<in> set ps. c \<notin> set q"
  shows "contains_text (c # x @ c # z) (p @ prepend_all c ps) \<longleftrightarrow>
    (\<exists>us vs. ps = us @ x # vs \<and> vs \<noteq> [] \<and> starts_with z (tl (prepend_all c vs)))"
  using assms
proof (induction ps arbitrary: p)
  case Nil
  then show ?case by (simp add: prepend_all_def contains_plain)
next
  case (Cons q ps)
  have "contains_text (c # x @ c # z) (p @ prepend_all c (q # ps)) \<longleftrightarrow>
      starts_with (x @ c # z) (q @ prepend_all c ps) \<or> contains_text (c # x @ c # z) (q @ prepend_all c ps)"
    using contains_skip [OF Cons.prems(2), of "x @ c # z" "q @ prepend_all c ps"] by (simp add: prepend_all_def)
  also have "\<dots> \<longleftrightarrow> (q = x \<and> ps \<noteq> [] \<and> starts_with z (tl (prepend_all c ps))) \<or>
      (\<exists>us vs. ps = us @ x # vs \<and> vs \<noteq> [] \<and> starts_with z (tl (prepend_all c vs)))"
    using Cons.IH [of q] starts_with_part [of c x q z ps] Cons.prems by simp
  also have "\<dots> \<longleftrightarrow> (\<exists>us vs. q # ps = us @ x # vs \<and> vs \<noteq> [] \<and> starts_with z (tl (prepend_all c vs)))"
    by (auto simp: Cons_eq_append_conv)
  finally show ?case .
qed

lemma contains_absent:
  assumes "c \<notin> set x" "c \<notin> set p" "\<forall>q \<in> set ps. c \<notin> set q" "x \<notin> set ps"
  shows "\<not> contains_text (c # x @ c # z) (p @ prepend_all c ps)"
  using assms by (auto simp: contains_part)

text \<open>The permission of a functional constraint, and the item \<open>ln$fc$...\<close>.\<close>

definition fc_permission :: "string \<Rightarrow> string \<Rightarrow> permissions" where
  "fc_permission fc next_part =
    (if fc = ''CO'' then perm_control
     else if fc \<in> {''RP'', ''BR''} then perm_reporting
     else if fc \<in> {''SG'', ''SE''} \<or> fc = ''SP'' \<and> starts_with ''SGCB'' next_part then perm_setting
     else if fc = ''CF'' then perm_config
     else perm_data_write)"

definition item_of :: "string \<Rightarrow> string \<Rightarrow> string list \<Rightarrow> string" where
  "item_of ln fc names = ln @ prepend_all (CHR ''$'') (fc # names)"

definition name_part :: "string \<Rightarrow> bool" where
  "name_part s \<longleftrightarrow> CHR ''$'' \<notin> set s"

lemma second_part_item:
  "name_part ln \<Longrightarrow> name_part fc \<Longrightarrow> list_all name_part names \<Longrightarrow> second_part (item_of ln fc names) = Some fc"
  by (simp add: second_part_def item_of_def name_part_def list_all_iff split_on_prepend get_at_def)

lemma starts_with_plain_part:
  assumes "c \<notin> set z"
  shows "starts_with z (q @ prepend_all c ps) \<longleftrightarrow> starts_with z q"
  using assms
proof (induction z arbitrary: q)
  case (Cons a z)
  then show ?case by (cases q; cases ps) (auto simp: prepend_all_def)
qed simp

lemma contains_item:
  assumes "name_part ln" "name_part fc" "list_all name_part names" "names \<noteq> []" "x \<notin> set names" "name_part x"
  shows "contains_text (CHR ''$'' # x @ CHR ''$'' # z) (item_of ln fc names) \<longleftrightarrow>
    fc = x \<and> starts_with z (tl (prepend_all (CHR ''$'') names))"
proof -
  have "(\<exists>us vs. fc # names = us @ x # vs \<and> vs \<noteq> [] \<and> starts_with z (tl (prepend_all (CHR ''$'') vs))) \<longleftrightarrow>
      fc = x \<and> starts_with z (tl (prepend_all (CHR ''$'') names))"
    using assms(4,5) by (auto simp: Cons_eq_append_conv)
  then show ?thesis
    using contains_part [of "CHR ''$''" x ln "fc # names" z] assms
    by (simp add: item_of_def name_part_def list_all_iff)
qed

text \<open>A written item \<open>ln$fc$name...\<close> none of whose names is itself the name of a functional
  constraint requires exactly the permission of its constraint.\<close>

theorem write_permission_by_fc:
  assumes "name_part ln" "name_part fc" "list_all name_part names" "names \<noteq> []"
    "set names \<inter> {''CO'', ''RP'', ''BR'', ''CF'', ''SP''} = {}"
  shows "write_permission (item_of ln fc names) = fc_permission fc (hd names)"
proof -
  have c: "contains_text (CHR ''$'' # x @ CHR ''$'' # z) (item_of ln fc names) \<longleftrightarrow>
      fc = x \<and> starts_with z (tl (prepend_all (CHR ''$'') names))"
    if "x \<in> {''CO'', ''RP'', ''BR'', ''CF'', ''SP''}" for x z
    using that assms by (intro contains_item) (auto simp: name_part_def)
  have t: "tl (prepend_all (CHR ''$'') names) = hd names @ prepend_all (CHR ''$'') (tl names)"
    using assms(4) by (cases names) (simp_all add: prepend_all_def)
  have s: "second_part (item_of ln fc names) = Some fc"
    using assms by (intro second_part_item)
  show ?thesis
    using c [of "''CO''" "[]"] c [of "''RP''" "[]"] c [of "''BR''" "[]"] c [of "''CF''" "[]"] c [of "''SP''" "''SGCB''"]
    by (auto simp: write_permission_def fc_permission_def is_setting_item_def s t starts_with_plain_part)
qed

text \<open>The premise on the names is needed: a setting below a data object called \<open>CO\<close> is open to an
  operator.\<close>

lemma setting_named_control:
  "write_permission ''PTOC1$SE$CO$setMag'' = perm_control" "may_write Operator ''PTOC1$SE$CO$setMag''"
  "\<not> may_write Operator ''PTOC1$SE$StrVal$setMag''"
  by (simp_all add: write_permission_def may_simps is_setting_item_def second_part_def get_at_def starts_with_def)

text \<open>Whatever the item, a viewer may not write it, define data sets or change files; an operator
  may write only items that mention the control or report constraints, and an engineer may do
  everything; every standard role may read and keeps its name across a token, and every role its
  permissions.\<close>

theorem role_limits:
  "\<not> may_write Viewer item \<and> \<not> may_define_dataset Viewer \<and> \<not> may_write_files Viewer \<and>
   (may_write Operator item \<longleftrightarrow>
      contains_text ''$CO$'' item \<or> contains_text ''$RP$'' item \<or> contains_text ''$BR$'' item) \<and>
   may_write Engineer item \<and> may_define_dataset Engineer \<and> may_write_files Engineer \<and>
   (may_read Operator item \<longleftrightarrow> second_part item \<noteq> Some ''SE'') \<and>
   role_permissions (role_from_permissions (role_permissions r)) = role_permissions r \<and>
   (case r of Custom p \<Rightarrow> True | _ \<Rightarrow> role_from_permissions (role_permissions r) = r)"
proof (intro conjI)
  have w: "write_permission item = perm_control \<or> write_permission item = perm_reporting \<longleftrightarrow>
      contains_text ''$CO$'' item \<or> contains_text ''$RP$'' item \<or> contains_text ''$BR$'' item"
    by (auto simp: write_permission_def dest: arg_cong [of _ _ perm_bits] simp: perm_values)
  show "\<not> may_write Viewer item" "may_write Engineer item"
    using write_permission_cases [of item] by (auto simp: may_simps)
  show "may_write Operator item \<longleftrightarrow>
      contains_text ''$CO$'' item \<or> contains_text ''$RP$'' item \<or> contains_text ''$BR$'' item"
    using write_permission_cases [of item] unfolding w [symmetric] by (auto simp: may_simps dest: arg_cong [of _ _ perm_bits])
  show "may_read Operator item \<longleftrightarrow> second_part item \<noteq> Some ''SE''"
    by (simp add: may_simps Let_def)
  show "case r of Custom p \<Rightarrow> True | _ \<Rightarrow> role_from_permissions (role_permissions r) = r"
    using role_from_permissions_standard [of r] by (cases r) simp_all
qed (simp_all add: may_simps may_define_dataset_def may_write_files_def)

definition claims_content :: "access_token \<Rightarrow> bytes" where
  "claims_content t =
    tlv_bytes u_visible_string (as_bytes (at_subject t)) @
    tlv_bytes u_integer (encode_integer (ucast (perm_bits (role_permissions (at_role t))))) @
    tlv_bytes u_visible_string (as_bytes (at_issuer t)) @
    tlv_bytes u_integer (encode_integer (at_not_before t)) @
    tlv_bytes u_integer (encode_integer (at_not_after t))"

lemma encode_claims_bytes: "encode_claims t = tlv_bytes u_sequence (claims_content t)"
  by (simp add: encode_claims_def claims_content_def w_put)

lemma token_issue_bytes:
  "token_issue sign t = tlv_bytes u_sequence (tlv_bytes u_octet_string (encode_claims t) @
     tlv_bytes u_octet_string (sign (encode_claims t)))"
  by (simp add: token_issue_def Let_def w_put)

lemma token_string_at:
  "slice_ok pre (tlv_bytes u_visible_string (as_bytes s) @ rest) \<Longrightarrow> str_ok s \<Longrightarrow>
    token_string (rd_at pre (tlv_bytes u_visible_string (as_bytes s) @ rest)) =
      (Inr s, rd_at (pre @ tlv_bytes u_visible_string (as_bytes s)) rest)"
  by (simp add: token_string_def expect_field map_errR_def decode_visible_as_bytes)

lemma token_integer_at:
  "slice_ok pre (tlv_bytes u_integer (encode_integer v) @ rest) \<Longrightarrow>
    token_integer (rd_at pre (tlv_bytes u_integer (encode_integer v) @ rest)) =
      (Inr v, rd_at (pre @ tlv_bytes u_integer (encode_integer v)) rest)"
  by (simp add: token_integer_def expect_field map_errR_def decode_encode_integer)

lemma token_integer_last:
  "slice_ok pre (tlv_bytes u_integer (encode_integer v)) \<Longrightarrow>
    token_integer (rd_at pre (tlv_bytes u_integer (encode_integer v))) =
      (Inr v, rd_at (pre @ tlv_bytes u_integer (encode_integer v)) [])"
  using token_integer_at [of pre v "[]"] by simp

lemma ucast_u16_bits: "(ucast (ucast (b :: u16) :: u64) :: u16) = b"
  by (rule bit_word_eqI) (simp add: bit_ucast_iff)

lemma decode_claims_encode:
  assumes "length (encode_claims t) < usize_limit" "str_ok (at_subject t)" "str_ok (at_issuer t)"
  shows "decode_claims (encode_claims t) =
    Inr (t\<lparr>at_role := role_from_permissions (role_permissions (at_role t))\<rparr>)"
proof -
  have s: "slice_ok [] (claims_content t)"
    using assms(1) length_content_less [of "claims_content t" u_sequence]
    by (simp add: encode_claims_bytes slice_ok_def)
  have r: "read_tlv (reader_new (encode_claims t)) =
      (Inr \<lparr>tlv_tag = u_sequence, tlv_content = claims_content t\<rparr>, rd_at (encode_claims t) [])"
    using assms(1) unfolding encode_claims_bytes by (rule read_tlv_single)
  show ?thesis
    using s assms(2,3) unfolding decode_claims_def r
    by (simp add: claims_content_def reader_new_at token_string_at token_integer_at token_integer_last slice_ok_step
        ucast_u16_bits)
qed

lemma encode_claims_short: "length (encode_claims t) \<le> length (at_subject t) + length (at_issuer t) + 200"
proof -
  have i: "length (tlv_bytes u_integer (encode_integer v)) \<le> 23" for v
    using tlv_bytes_bound [of u_integer "encode_integer v"] length_encode_integer(2) [of v] by simp
  show ?thesis
    using tlv_bytes_bound [of u_sequence "claims_content t"] tlv_bytes_bound [of u_visible_string "as_bytes (at_subject t)"]
      tlv_bytes_bound [of u_visible_string "as_bytes (at_issuer t)"] i [of "at_not_before t"] i [of "at_not_after t"]
      i [of "ucast (perm_bits (role_permissions (at_role t)))"]
    by (simp add: encode_claims_bytes claims_content_def)
qed

lemma token_verify_issue:
  assumes "length (token_issue sign t) < usize_limit" "str_ok (at_subject t)" "str_ok (at_issuer t)"
    "check (encode_claims t) (sign (encode_claims t))"
  shows "token_verify check now (token_issue sign t) =
    (if at_not_before t \<le> now \<and> now < at_not_after t
     then Inr (t\<lparr>at_role := role_from_permissions (role_permissions (at_role t))\<rparr>) else Inl TokenExpired)"
proof -
  let ?i = "tlv_bytes u_octet_string (encode_claims t) @ tlv_bytes u_octet_string (sign (encode_claims t))"
  have s: "slice_ok [] ?i"
    using assms(1) length_content_less [of ?i u_sequence] by (simp add: token_issue_bytes slice_ok_def)
  then have "slice_ok [] (encode_claims t)" by (rule slice_ok_inner)
  then have "length (encode_claims t) < usize_limit" by (simp add: slice_ok_def)
  then have d: "decode_claims (encode_claims t) =
      Inr (t\<lparr>at_role := role_from_permissions (role_permissions (at_role t))\<rparr>)"
    using assms(2,3) by (rule decode_claims_encode)
  have r: "read_tlv (reader_new (token_issue sign t)) =
      (Inr \<lparr>tlv_tag = u_sequence, tlv_content = ?i\<rparr>, rd_at (token_issue sign t) [])"
    using assms(1) unfolding token_issue_bytes by (rule read_tlv_single)
  show ?thesis
    using s assms(4) unfolding token_verify_def r
    by (simp add: reader_new_at expect_field expect_field_last map_errR_def slice_ok_step d)
qed

lemma token_verify_accepts:
  assumes "token_verify check now bs = Inr t"
  shows "\<exists>outer r0 claims ir signature ir'.
    read_tlv (reader_new bs) = (Inr outer, r0) \<and> tlv_tag outer = u_sequence \<and>
    rd_expect u_octet_string (reader_new (tlv_content outer)) = (Inr claims, ir) \<and>
    rd_expect u_octet_string ir = (Inr signature, ir') \<and>
    check claims signature \<and> decode_claims claims = Inr t \<and> at_not_before t \<le> now \<and> now < at_not_after t"
proof -
  obtain x r0 where r: "read_tlv (reader_new bs) = (x, r0)" by (cases "read_tlv (reader_new bs)")
  then obtain outer where o: "x = Inr outer" "tlv_tag outer = u_sequence"
    using assms by (cases x) (auto simp: token_verify_def split: if_splits)
  obtain y ir where y: "rd_expect u_octet_string (reader_new (tlv_content outer)) = (y, ir)"
    by (cases "rd_expect u_octet_string (reader_new (tlv_content outer))")
  then obtain claims where c: "y = Inr claims"
    using assms r o by (cases y) (auto simp: token_verify_def map_errR_def)
  obtain z ir' where z: "rd_expect u_octet_string ir = (z, ir')" by (cases "rd_expect u_octet_string ir")
  then obtain signature where g: "z = Inr signature"
    using assms r o y c by (cases z) (auto simp: token_verify_def map_errR_def)
  have "check claims signature \<and> decode_claims claims = Inr t \<and> at_not_before t \<le> now \<and> now < at_not_after t"
    using assms r o y c z g by (auto simp: token_verify_def map_errR_def bindE_Inr_iff split: if_splits)
  then show ?thesis using r o y c z g by blast
qed

section \<open>Properties of the policy\<close>

text \<open>C21: A role is never granted without the credential the policy asks for: the password of that
  role, a certificate of that name, or a token of octets whose signature the authority's key accepts
  for exactly the claims that name the role, inside their window of validity.\<close>

theorem role_needs_credential:
  assumes "authorize ecdsa_verify now policy password cert_cn = Some role"
  shows "case policy of
      NoAuth \<Rightarrow> role = Engineer
    | Passwords list \<Rightarrow> \<exists>p. password = Some (as_bytes p) \<and> (p, role) \<in> set list
    | Certificates list \<Rightarrow> \<exists>c. cert_cn = Some c \<and> (c, role) \<in> set list
    | TokenAuth authority \<Rightarrow> \<exists>token outer r claims ir signature ir' t.
        password = Some token \<and> read_tlv (reader_new token) = (Inr outer, r) \<and>
        rd_expect u_octet_string (reader_new (tlv_content outer)) = (Inr claims, ir) \<and>
        rd_expect u_octet_string ir = (Inr signature, ir') \<and>
        verifier_verify_tag ecdsa_verify now authority claims signature \<and>
        decode_claims claims = Inr t \<and> at_role t = role \<and> at_not_before t \<le> now \<and> now < at_not_after t"
proof (cases policy)
  case (TokenAuth authority)
  then obtain token t where "password = Some token" "at_role t = role"
    "token_verify (verifier_verify_tag ecdsa_verify now authority) now token = Inr t"
    using assms by (cases password; cases "token_verify (verifier_verify_tag ecdsa_verify now authority) now (the password)") auto
  then show ?thesis using token_verify_accepts TokenAuth by fastforce
next
  case (Passwords list)
  then obtain pw q where q: "password = Some pw" "find (\<lambda>(p, _). as_bytes p = pw) list = Some q" "snd q = role"
    using assms by (auto simp: Option.bind_eq_Some_conv)
  then have "as_bytes (fst q) = pw" "q \<in> set list" by (auto simp: find_Some_iff case_prod_unfold)
  then have "password = Some (as_bytes (fst q)) \<and> (fst q, role) \<in> set list" using q(1,3) by force
  then show ?thesis using Passwords by force
qed (use assms in \<open>auto simp: Option.bind_eq_Some_conv find_Some_iff in_set_conv_nth\<close>)

theorem role_needs_credential_witness:
  "\<exists>p. Some [0x61] = Some (as_bytes p) \<and> (p, Operator) \<in> set [(''b'', Engineer), (''a'', Operator)]"
  using role_needs_credential [of "\<lambda>k d t. False" 0 "Passwords [(''b'', Engineer), (''a'', Operator)]" "Some [0x61]" None Operator]
  by (simp add: as_bytes_def byte_of_char_def)

text \<open>A token signed by the authority opens exactly its role: presented inside its window it is
  granted the permissions it was issued with, and outside the window nothing.\<close>

theorem token_grants_role:
  assumes "length (token_issue (signer_sign_tag ecdsa_sign clock signer) t) < usize_limit"
    "str_ok (at_subject t)" "str_ok (at_issuer t)"
    "verifier_verify_tag ecdsa_verify now authority (encode_claims t)
       (signer_sign_tag ecdsa_sign clock signer (encode_claims t))"
  shows "map_option role_permissions (authorize ecdsa_verify now (TokenAuth authority)
      (Some (token_issue (signer_sign_tag ecdsa_sign clock signer) t)) cert_cn) =
    (if at_not_before t \<le> now \<and> now < at_not_after t then Some (role_permissions (at_role t)) else None)"
  using token_verify_issue [OF assms(1-3), of "verifier_verify_tag ecdsa_verify now authority" now] assms(4)
  by simp

end
