(* ===== verification/ReportPdu.thy ===== *)
theory ReportPdu imports MmsServices begin

text \<open>
  Information reports of MMS (src/crates/iec61850-mms/src/mms/report.rs): the reports of control
  blocks, guided by their optional fields, command terminations and application errors, each encoded by
  the server and decoded by the client, and the dispatch of unsolicited messages in the reader task of
  the client (client.rs, reader_loop). The properties say that what the server sends is what the client
  sees. Two lemmas show where the program departs from this.
\<close>

unbundle bit_operations_syntax

section \<open>Optional fields\<close>

definition opt_sequence_number :: nat where "opt_sequence_number = 1"
definition opt_report_timestamp :: nat where "opt_report_timestamp = 2"
definition opt_reason_for_inclusion :: nat where "opt_reason_for_inclusion = 3"
definition opt_data_set_name :: nat where "opt_data_set_name = 4"
definition opt_data_reference :: nat where "opt_data_reference = 5"
definition opt_buffer_overflow :: nat where "opt_buffer_overflow = 6"
definition opt_entry_id :: nat where "opt_entry_id = 7"
definition opt_conf_revision :: nat where "opt_conf_revision = 8"
definition opt_segmentation :: nat where "opt_segmentation = 9"

definition information_report :: tag where "information_report = tag_context 0 True"

section \<open>Reports of the server\<close>

record report_data =
  rp_rpt_id :: string
  rp_opt_flds :: bit_string
  rp_seq_num :: u32
  rp_dataset :: "string option"
  rp_conf_rev :: u32
  rp_time_of_entry :: "utc_time option"
  rp_buf_ovfl :: bool
  rp_entry_id :: "bytes option"
  rp_inclusion :: bit_string
  rp_values :: "mms_data list"
  rp_reasons :: "bit_string list option"

definition unwrap_or :: "'a \<Rightarrow> 'a option \<Rightarrow> 'a" where
  "unwrap_or d v = (case v of Some x \<Rightarrow> x | None \<Rightarrow> d)"

definition write_if :: "bool \<Rightarrow> writing \<Rightarrow> writing" where
  "write_if b f = (if b then f else (\<lambda>w. w))"

definition encode_information_report :: "report_data \<Rightarrow> bytes" where
  "encode_information_report d =
    (let o' = rp_opt_flds d in
     into_bytes (w_tlv pdu_unconfirmed (w_tlv information_report (\<lambda>w. w_seq
       [w_tlv (tag_context 1 True) (w_visible_string (tag_context 0 False) ''RPT''),
        w_tlv (tag_context 0 True) (\<lambda>w. w_seq
          [mms_encode (MVisible (rp_rpt_id d)),
           mms_encode (MBitString o'),
           write_if (bs_bit o' opt_sequence_number) (mms_encode (MUint (ucast (rp_seq_num d)))),
           write_if (bs_bit o' opt_report_timestamp)
             (mms_encode (MUtc (unwrap_or (replicate 8 0) (rp_time_of_entry d)))),
           write_if (bs_bit o' opt_data_set_name) (mms_encode (MVisible (unwrap_or [] (rp_dataset d)))),
           write_if (bs_bit o' opt_buffer_overflow) (mms_encode (MBool (rp_buf_ovfl d))),
           write_if (bs_bit o' opt_entry_id) (mms_encode (MOctets (unwrap_or [] (rp_entry_id d)))),
           write_if (bs_bit o' opt_conf_revision) (mms_encode (MUint (ucast (rp_conf_rev d)))),
           mms_encode (MBitString (rp_inclusion d)),
           (\<lambda>w. fold mms_encode (rp_values d) w),
           write_if (bs_bit o' opt_reason_for_inclusion)
             (case rp_reasons d of
                Some reasons \<Rightarrow> (\<lambda>w. fold (\<lambda>r. mms_encode (MBitString r)) reasons w)
              | None \<Rightarrow> (\<lambda>w. w))] w)] w)) writer_new))"

section \<open>Reports at the client\<close>

record report_entry =
  re_member_index :: nat
  re_value :: mms_data
  re_reason :: "bit_string option"
  re_reference :: "object_reference option"

record report =
  rt_rpt_id :: string
  rt_opt_flds :: bit_string
  rt_seq_num :: "u64 option"
  rt_time_of_entry :: "mms_data option"
  rt_dataset :: "string option"
  rt_buffer_overflow :: "bool option"
  rt_entry_id :: "bytes option"
  rt_conf_rev :: "u64 option"
  rt_sub_seq_num :: "u64 option"
  rt_more_segments :: "bool option"
  rt_inclusion :: "bit_string option"
  rt_entries :: "report_entry list"
  rt_raw :: "mms_data list"

text \<open>The accessors of report.rs; \<open>u64::try_from(i)\<close> takes an \<open>i64\<close> that is not negative.\<close>

fun data_u64 :: "mms_data \<Rightarrow> u64 option" where
  "data_u64 (MUint u) = Some u"
| "data_u64 (MInt i) = (if unat i < 2 ^ 63 then Some i else None)"
| "data_u64 _ = None"

fun data_octets :: "mms_data \<Rightarrow> bytes option" where
  "data_octets (MOctets b) = Some b"
| "data_octets _ = None"

text \<open>The values from the position \<open>idx\<close> on; taking one beyond the end gives nothing.\<close>

fun vtake :: "mms_data list \<Rightarrow> mms_data option \<times> mms_data list" where
  "vtake [] = (None, [])"
| "vtake (v # vs) = (Some v, vs)"

definition opt_take :: "bool \<Rightarrow> mms_data list \<Rightarrow> mms_data option \<times> mms_data list" where
  "opt_take present vs = (if present then vtake vs else (None, vs))"

fun take_each :: "(mms_data option \<Rightarrow> 'a) \<Rightarrow> nat \<Rightarrow> mms_data list \<Rightarrow> 'a list \<times> mms_data list" where
  "take_each f 0 vs = ([], vs)"
| "take_each f (Suc n) vs =
    (let (v, vs) = vtake vs; (xs, vs) = take_each f n vs in (f v # xs, vs))"

text \<open>\<open>for _ in 0..n { match take { Some(v) => push, None => break } }\<close>.\<close>

fun take_values :: "nat \<Rightarrow> mms_data list \<Rightarrow> mms_data list \<times> mms_data list" where
  "take_values 0 vs = ([], vs)"
| "take_values (Suc n) [] = ([], [])"
| "take_values (Suc n) (v # vs) = (let (xs, vs) = take_values n vs in (v # xs, vs))"

definition data_reference :: "mms_data option \<Rightarrow> object_reference option" where
  "data_reference v = Option.bind (Option.bind v as_str)
     (\<lambda>s. case reference_from_str s of Inr r \<Rightarrow> Some r | Inl _ \<Rightarrow> None)"

definition data_reason :: "mms_data option \<Rightarrow> bit_string option" where
  "data_reason v = (case v of Some (MBitString b) \<Rightarrow> Some b | _ \<Rightarrow> None)"

definition flatten_at :: "'a option list \<Rightarrow> nat \<Rightarrow> 'a option" where
  "flatten_at xs k = Option.bind (get_at xs k) id"

text \<open>\<open>None\<close> is the panic of \<open>len_bits\<close> on an empty bit string with unused bits.\<close>

definition interpret_report :: "mms_data list \<Rightarrow> string option \<Rightarrow> (mms_error + report) option" where
  "interpret_report values dataset_from_spec =
    (let raw = values; (v, values) = vtake values in
     case Option.bind v as_str of
       None \<Rightarrow> Some (Inl MeUnexpectedPdu)
     | Some rpt_id \<Rightarrow>
    (let (v, values) = vtake values in
     case v of Some (MBitString o') \<Rightarrow>
    (let (seq_num, values) = opt_take (bs_bit o' opt_sequence_number) values;
         (time, values) = opt_take (bs_bit o' opt_report_timestamp) values;
         (ds, values) = opt_take (bs_bit o' opt_data_set_name) values;
         dataset = (if bs_bit o' opt_data_set_name then Option.bind ds as_str else dataset_from_spec);
         (ovfl, values) = opt_take (bs_bit o' opt_buffer_overflow) values;
         (eid, values) = opt_take (bs_bit o' opt_entry_id) values;
         (rev, values) = opt_take (bs_bit o' opt_conf_revision) values;
         (sub, values) = opt_take (bs_bit o' opt_segmentation) values;
         (more, values) = opt_take (bs_bit o' opt_segmentation) values;
         (inc, values) = vtake values;
         base = \<lparr>rt_rpt_id = rpt_id, rt_opt_flds = o', rt_seq_num = Option.bind seq_num data_u64,
            rt_time_of_entry = time, rt_dataset = dataset, rt_buffer_overflow = Option.bind ovfl as_bool,
            rt_entry_id = Option.bind eid data_octets, rt_conf_rev = Option.bind rev data_u64,
            rt_sub_seq_num = Option.bind sub data_u64, rt_more_segments = Option.bind more as_bool,
            rt_inclusion = None, rt_entries = [], rt_raw = raw\<rparr>
     in case inc of Some (MBitString inclusion) \<Rightarrow>
          (case len_bits inclusion of
             None \<Rightarrow> None
           | Some nbits \<Rightarrow>
             (let included = filter (bs_bit inclusion) [0..<nbits];
                  n = length included;
                  (references, values) =
                    (if bs_bit o' opt_data_reference then take_each data_reference n values
                     else (replicate n None, values));
                  (entry_values, values) = take_values n values;
                  (reasons, values) =
                    (if bs_bit o' opt_reason_for_inclusion then take_each data_reason n values
                     else (replicate n None, values));
                  entries = map (\<lambda>(k, member_index). \<lparr>re_member_index = member_index, re_value = entry_values ! k,
                      re_reason = flatten_at reasons k, re_reference = flatten_at references k\<rparr>)
                    (take (length entry_values) (enumerate 0 included))
              in Some (Inr (base\<lparr>rt_inclusion := Some inclusion, rt_entries := entries\<rparr>))))
        | _ \<Rightarrow> Some (Inr base))
     | _ \<Rightarrow> Some (Inl MeUnexpectedPdu)))"

text \<open>The variable list name of a report, \<open>from_utf8\<close> of its octets.\<close>

definition dataset_from_access_spec :: "tlv \<Rightarrow> string option" where
  "dataset_from_access_spec t =
    (if tlv_tag t \<noteq> tag_context 1 True then None
     else case fst (read_tlv (reader_new (tlv_content t))) of
       Inl _ \<Rightarrow> None
     | Inr name \<Rightarrow>
       if tlv_tag name = tag_context 1 True then
         (case fst (thenE (rd_expect u_visible_string (reader_new (tlv_content name))) (\<lambda>domain dr.
                 thenE (rd_expect u_visible_string dr) (\<lambda>item dr. (Inr (domain, item), dr)))) of
            Inl _ \<Rightarrow> None
          | Inr (domain, item) \<Rightarrow> Option.bind (from_utf8 domain) (\<lambda>d.
              Option.bind (from_utf8 item) (\<lambda>i. Some (d @ ''/'' @ i))))
       else from_utf8 (tlv_content name))"

function report_values_loop :: "reader \<Rightarrow> mms_data list \<Rightarrow> mms_error + mms_data list" where
  "report_values_loop ar values =
    (if rd_is_empty ar then Inr values
     else case read_tlv ar of
       (Inl e, _) \<Rightarrow> Inl (MeBer e)
     | (Inr t, ar') \<Rightarrow>
       if tlv_tag t = tag_context 0 False then report_values_loop ar' values
       else bindE (map_errE MeBer (mms_decode t)) (\<lambda>d. report_values_loop ar' (values @ [d])))"
  by pat_completeness auto
termination
  by (relation "measure (remaining \<circ> fst)") (auto dest!: read_tlv_progress(3) [OF sym])

declare report_values_loop.simps [simp del]

definition report_parts :: "bytes \<Rightarrow> mms_error + tlv option \<times> tlv" where
  "report_parts content =
    fst (thenE (map_errR MeBer (read_tlv (reader_new content))) (\<lambda>first r.
      if rd_is_empty r then (Inr (None, first), r)
      else thenE (map_errR MeBer (read_tlv r)) (\<lambda>results r. (Inr (Some first, results), r))))"

definition decode_information_report :: "tlv \<Rightarrow> (mms_error + report) option" where
  "decode_information_report service_tlv =
    (if tlv_tag service_tlv \<noteq> information_report then Some (Inl MeUnexpectedPdu)
     else case report_parts (tlv_content service_tlv) of
       Inl e \<Rightarrow> Some (Inl e)
     | Inr (access_spec, results) \<Rightarrow>
       (let dataset = Option.bind access_spec dataset_from_access_spec
        in case report_values_loop (reader_new (tlv_content results)) [] of
             Inl e \<Rightarrow> Some (Inl e)
           | Inr values \<Rightarrow> interpret_report values dataset))"

section \<open>Command terminations\<close>

record command_termination =
  ct_domain :: string
  ct_object_item :: string
  ct_positive :: bool
  ct_add_cause :: "u64 option"

definition encode_command_termination :: "string \<Rightarrow> string \<Rightarrow> mms_data \<Rightarrow> bool \<Rightarrow> u64 \<Rightarrow> bytes" where
  "encode_command_termination domain object_item oper positive failure_code =
    into_bytes (w_tlv pdu_unconfirmed (w_tlv information_report (\<lambda>w. w_seq
      [w_tlv (tag_context 0 True) (w_sequence (w_tlv (tag_context 0 True) (w_tlv (tag_context 1 True) (\<lambda>w. w_seq
         [w_visible_string u_visible_string domain,
          w_visible_string u_visible_string object_item] w)))),
       w_tlv (tag_context 0 True)
         (if positive then mms_encode oper else w_integer (tag_context 0 False) failure_code)] w)) writer_new)"

text \<open>The two elements of an information report that names variables: \<open>None\<close> for a report of a control
  block, which has one element only.\<close>

definition named_report_parts :: "tlv \<Rightarrow> (tlv \<times> tlv) option" where
  "named_report_parts service_tlv =
    (if tlv_tag service_tlv \<noteq> information_report then None
     else case read_tlv (reader_new (tlv_content service_tlv)) of
       (Inl _, _) \<Rightarrow> None
     | (Inr first, r) \<Rightarrow>
       if rd_is_empty r then None
       else (case fst (read_tlv r) of Inl _ \<Rightarrow> None | Inr results \<Rightarrow> Some (first, results)))"

definition parse_command_termination :: "tlv \<Rightarrow> command_termination option" where
  "parse_command_termination service_tlv =
    Option.bind (named_report_parts service_tlv) (\<lambda>(first, results).
      case parse_list_of_variable (tlv_content first) of
        Inl _ \<Rightarrow> None
      | Inr [] \<Rightarrow> None
      | Inr ((domain, object_item) # _) \<Rightarrow>
        if \<not> (ends_with ''$Oper'' object_item \<or> ends_with ''$Cancel'' object_item) then None
        else (case fst (read_tlv (reader_new (tlv_content results))) of
            Inl _ \<Rightarrow> None
          | Inr res \<Rightarrow> Some \<lparr>ct_domain = domain, ct_object_item = object_item,
              ct_positive = (tlv_tag res \<noteq> tag_context 0 False), ct_add_cause = None\<rparr>))"

section \<open>Application errors\<close>

record last_appl_error =
  lae_cntrl_obj :: string
  lae_error :: u64
  lae_or_cat :: u64
  lae_or_ident :: bytes
  lae_ctl_num :: u64
  lae_add_cause :: u64

definition last_appl_error_name :: string where
  "last_appl_error_name = ''LastApplError''"

definition lae_data :: "last_appl_error \<Rightarrow> mms_data" where
  "lae_data e = MStructure [MVisible (lae_cntrl_obj e), MInt (lae_error e),
     MStructure [MInt (lae_or_cat e), MOctets (lae_or_ident e)], MUint (lae_ctl_num e), MInt (lae_add_cause e)]"

definition encode_last_appl_error :: "last_appl_error \<Rightarrow> bytes" where
  "encode_last_appl_error e =
    into_bytes (w_tlv pdu_unconfirmed (w_tlv information_report (\<lambda>w. w_seq
      [w_tlv (tag_context 0 True) (w_sequence (w_tlv (tag_context 0 True)
         (w_visible_string (tag_context 0 False) last_appl_error_name))),
       w_tlv (tag_context 0 True) (mms_encode (lae_data e))] w)) writer_new)"

text \<open>Reading the first element of a slice, with errors as \<open>None\<close>.\<close>

definition first_tlv :: "bytes \<Rightarrow> tlv option" where
  "first_tlv bs = (case fst (read_tlv (reader_new bs)) of Inr t \<Rightarrow> Some t | Inl _ \<Rightarrow> None)"

text \<open>An \<open>i64\<close> from either integer, as the matches of the parser take it.\<close>

fun either_int :: "mms_data \<Rightarrow> u64 option" where
  "either_int (MInt n) = Some n"
| "either_int (MUint n) = Some n"
| "either_int _ = None"

definition lae_origin :: "mms_data \<Rightarrow> (u64 \<times> bytes) option" where
  "lae_origin d =
    (case d of MStructure origin \<Rightarrow>
       Some (unwrap_or 0 (Option.bind (get_at origin 0) either_int),
             unwrap_or [] (Option.bind (get_at origin 1) data_octets))
     | _ \<Rightarrow> None)"

fun lae_visible :: "mms_data \<Rightarrow> string option" where
  "lae_visible (MVisible s) = Some s"
| "lae_visible _ = None"

definition lae_of_fields :: "mms_data list \<Rightarrow> last_appl_error option" where
  "lae_of_fields fs =
    Option.bind (Option.bind (get_at fs 0) lae_visible) (\<lambda>cntrl_obj.
    Option.bind (Option.bind (get_at fs 1) either_int) (\<lambda>error.
    Option.bind (Option.bind (get_at fs 2) lae_origin) (\<lambda>(or_cat, or_ident).
    Option.bind (Option.bind (get_at fs 3) either_int) (\<lambda>ctl_num.
    Option.bind (Option.bind (get_at fs 4) either_int) (\<lambda>add_cause.
      Some \<lparr>lae_cntrl_obj = cntrl_obj, lae_error = error, lae_or_cat = or_cat, lae_or_ident = or_ident,
            lae_ctl_num = ctl_num, lae_add_cause = add_cause\<rparr>)))))"

definition parse_last_appl_error :: "tlv \<Rightarrow> last_appl_error option" where
  "parse_last_appl_error service_tlv =
    Option.bind (named_report_parts service_tlv) (\<lambda>(first, results).
      if tlv_tag first \<noteq> tag_context 0 True then None
      else Option.bind (first_tlv (tlv_content first)) (\<lambda>sq.
        Option.bind (first_tlv (tlv_content sq)) (\<lambda>name.
        if tlv_tag name \<noteq> tag_context 0 True then None
        else Option.bind (first_tlv (tlv_content name)) (\<lambda>vmd.
          if tlv_tag vmd \<noteq> tag_context 0 False \<or> tlv_content vmd \<noteq> as_bytes last_appl_error_name then None
          else Option.bind (first_tlv (tlv_content results)) (\<lambda>res.
            case mms_decode res of
              Inr (MStructure fs) \<Rightarrow> lae_of_fields fs
            | _ \<Rightarrow> None)))))"

section \<open>Facts\<close>

definition report_items :: "report_data \<Rightarrow> mms_data list" where
  "report_items d = (let o' = rp_opt_flds d in
     MVisible (rp_rpt_id d) # MBitString o' #
     (if bs_bit o' opt_sequence_number then [MUint (ucast (rp_seq_num d))] else []) @
     (if bs_bit o' opt_report_timestamp then [MUtc (unwrap_or (replicate 8 0) (rp_time_of_entry d))] else []) @
     (if bs_bit o' opt_data_set_name then [MVisible (unwrap_or [] (rp_dataset d))] else []) @
     (if bs_bit o' opt_buffer_overflow then [MBool (rp_buf_ovfl d)] else []) @
     (if bs_bit o' opt_entry_id then [MOctets (unwrap_or [] (rp_entry_id d))] else []) @
     (if bs_bit o' opt_conf_revision then [MUint (ucast (rp_conf_rev d))] else []) @
     MBitString (rp_inclusion d) # rp_values d @
     (if bs_bit o' opt_reason_for_inclusion then map MBitString (unwrap_or [] (rp_reasons d)) else []))"

definition items_bytes :: "mms_data list \<Rightarrow> bytes" where
  "items_bytes ds = concat (map mms_bytes ds)"

lemma items_bytes_simps: "items_bytes [] = []" "items_bytes (d # ds) = mms_bytes d @ items_bytes ds"
    "items_bytes (ds @ es) = items_bytes ds @ items_bytes es"
  by (simp_all add: items_bytes_def)

lemma fold_items: "fold mms_encode ds = put (items_bytes ds)"
  unfolding items_bytes_def by (rule w_field) (rule mms_encode_put)

lemma no_writing: "(\<lambda>w. w) = put []"
  by (rule ext) (simp add: put_def)

lemma write_if_item: "write_if b (mms_encode d) = put (items_bytes (if b then [d] else []))"
  by (simp add: write_if_def mms_encode_put items_bytes_simps no_writing w_put)

definition rpt_name :: bytes where
  "rpt_name = tlv_bytes (tag_context 1 True) (tlv_bytes (tag_context 0 False) (as_bytes ''RPT''))"

lemma report_bytes: "encode_information_report d = tlv_bytes pdu_unconfirmed (tlv_bytes information_report
    (rpt_name @ tlv_bytes (tag_context 0 True) (items_bytes (report_items d))))"
proof -
  have r: "write_if b (case rs of Some reasons \<Rightarrow> (\<lambda>w. fold (\<lambda>r. mms_encode (MBitString r)) reasons w)
        | None \<Rightarrow> (\<lambda>w. w)) = put (items_bytes (if b then map MBitString (unwrap_or [] rs) else []))" for b rs
    using fold_items [of "map MBitString (the rs)"]
    by (cases rs) (simp_all add: write_if_def unwrap_or_def items_bytes_simps fold_map comp_def no_writing w_put)
  show ?thesis
    unfolding encode_information_report_def Let_def r write_if_item
    by (simp add: w_put mms_encode_put fold_items rpt_name_def report_items_def Let_def items_bytes_simps del: mms_encode.simps)
qed

lemma values_loop_items:
  assumes "list_all data_ok ds" "slice_ok pre (items_bytes ds)"
  shows "report_values_loop (rd_at pre (items_bytes ds)) out = Inr (out @ ds)"
  using assms
proof (induction ds arbitrary: pre out)
  case Nil
  then show ?case by (simp add: report_values_loop.simps items_bytes_simps)
next
  case (Cons d ds)
  have s: "slice_ok pre (tlv_bytes (mms_tag d) (mms_content d) @ items_bytes ds)"
    using Cons.prems(2) by (simp add: items_bytes_simps mms_bytes_def)
  then have "length (mms_content d) < usize_limit"
    using slice_ok_inner [OF s] by (simp add: slice_ok_def)
  then have "mms_decode \<lparr>tlv_tag = mms_tag d, tlv_content = mms_content d\<rparr> = Inr d"
    using data_decodes [of d] Cons.prems(1) by simp
  then show ?case
    using Cons.IH [of "pre @ tlv_bytes (mms_tag d) (mms_content d)" "out @ [d]"] Cons.prems s
    by (subst report_values_loop.simps)
      (simp add: items_bytes_simps mms_bytes_def read_tlv_head mms_tag_not_error slice_ok_step)
qed

lemma opt_take_present [simp]:
  "opt_take b ((if b then [v] else []) @ vs) = (if b then Some v else None, vs)"
  by (simp add: opt_take_def)

lemma opt_take_absent [simp]: "opt_take False vs = (None, vs)"
  by (simp add: opt_take_def)

lemma take_values_append [simp]: "length vs = n \<Longrightarrow> take_values n (vs @ rest) = (vs, rest)"
  by (induction vs arbitrary: n) auto

lemma take_reasons:
  "length rs = n \<Longrightarrow> take_each data_reason n (map MBitString rs) = (map Some rs, [])"
  by (induction rs arbitrary: n) (auto simp: data_reason_def)

lemma take_no_reasons: "take_each data_reason n [] = (replicate n None, [])"
  by (induction n) (auto simp: data_reason_def)

definition included_members :: "bit_string \<Rightarrow> nat list" where
  "included_members b = filter (bs_bit b) [0..<the (len_bits b)]"

definition report_reasons :: "report_data \<Rightarrow> bit_string option list" where
  "report_reasons d = (let n = length (included_members (rp_inclusion d)) in
     if bs_bit (rp_opt_flds d) opt_reason_for_inclusion
     then (case rp_reasons d of Some rs \<Rightarrow> map Some rs | None \<Rightarrow> replicate n None)
     else replicate n None)"

text \<open>The report a client sees, and what the server must supply for it.\<close>

definition reported :: "report_data \<Rightarrow> report" where
  "reported d = (let o' = rp_opt_flds d in
     \<lparr>rt_rpt_id = rp_rpt_id d, rt_opt_flds = o',
      rt_seq_num = (if bs_bit o' opt_sequence_number then Some (ucast (rp_seq_num d)) else None),
      rt_time_of_entry = (if bs_bit o' opt_report_timestamp
         then Some (MUtc (unwrap_or (replicate 8 0) (rp_time_of_entry d))) else None),
      rt_dataset = Some (if bs_bit o' opt_data_set_name then unwrap_or [] (rp_dataset d) else ''RPT''),
      rt_buffer_overflow = (if bs_bit o' opt_buffer_overflow then Some (rp_buf_ovfl d) else None),
      rt_entry_id = (if bs_bit o' opt_entry_id then Some (unwrap_or [] (rp_entry_id d)) else None),
      rt_conf_rev = (if bs_bit o' opt_conf_revision then Some (ucast (rp_conf_rev d)) else None),
      rt_sub_seq_num = None, rt_more_segments = None, rt_inclusion = Some (rp_inclusion d),
      rt_entries = map (\<lambda>(k, m). \<lparr>re_member_index = m, re_value = rp_values d ! k,
          re_reason = report_reasons d ! k, re_reference = None\<rparr>)
        (enumerate 0 (included_members (rp_inclusion d))),
      rt_raw = report_items d\<rparr>)"

definition report_ok :: "report_data \<Rightarrow> bool" where
  "report_ok d \<longleftrightarrow> list_all data_ok (report_items d) \<and> len_bits (rp_inclusion d) \<noteq> None \<and>
     length (rp_values d) = length (included_members (rp_inclusion d)) \<and>
     \<not> bs_bit (rp_opt_flds d) opt_data_reference \<and> \<not> bs_bit (rp_opt_flds d) opt_segmentation \<and>
     (case rp_reasons d of Some rs \<Rightarrow> length rs = length (included_members (rp_inclusion d)) | None \<Rightarrow> True)"

lemma interpret_items:
  assumes "report_ok d"
  shows "interpret_report (report_items d) (Some ''RPT'') = Some (Inr (reported d))"
proof -
  obtain nbits where nb: "len_bits (rp_inclusion d) = Some nbits"
    using assms by (auto simp: report_ok_def)
  let ?n = "length (included_members (rp_inclusion d))"
  have inc: "filter (bs_bit (rp_inclusion d)) [0..<nbits] = included_members (rp_inclusion d)"
    by (simp add: included_members_def nb)
  have no: "bs_bit (rp_opt_flds d) opt_data_reference = False" "bs_bit (rp_opt_flds d) opt_segmentation = False"
    "length (rp_values d) = ?n"
    using assms by (simp_all add: report_ok_def)
  have rs: "(if bs_bit (rp_opt_flds d) opt_reason_for_inclusion then take_each data_reason ?n
        (if bs_bit (rp_opt_flds d) opt_reason_for_inclusion then map MBitString (unwrap_or [] (rp_reasons d)) else [])
      else (replicate ?n None, if bs_bit (rp_opt_flds d) opt_reason_for_inclusion
        then map MBitString (unwrap_or [] (rp_reasons d)) else [])) = (report_reasons d, [])"
    using assms by (auto simp: report_reasons_def Let_def report_ok_def unwrap_or_def take_reasons take_no_reasons
        split: option.splits)
  have l: "length (report_reasons d) = ?n"
    using assms by (auto simp: report_reasons_def Let_def report_ok_def split: option.splits)
  have e: "take ?n (enumerate 0 (included_members (rp_inclusion d))) = enumerate 0 (included_members (rp_inclusion d))"
    by simp
  have f: "flatten_at (report_reasons d) k = report_reasons d ! k" if "k < ?n" for k
    using that l by (simp add: flatten_at_def get_at_def)
  have g: "flatten_at (replicate ?n None) k = None" for k
    by (simp add: flatten_at_def get_at_def)
  have m: "map (\<lambda>(k, member_index). \<lparr>re_member_index = member_index, re_value = rp_values d ! k,
        re_reason = flatten_at (report_reasons d) k, re_reference = flatten_at (replicate ?n None) k\<rparr>)
        (enumerate 0 (included_members (rp_inclusion d))) =
      map (\<lambda>(k, m). \<lparr>re_member_index = m, re_value = rp_values d ! k, re_reason = report_reasons d ! k, re_reference = None\<rparr>)
        (enumerate 0 (included_members (rp_inclusion d)))"
    by (rule map_cong [OF refl]) (auto simp: in_set_enumerate_eq f g)
  show ?thesis
    by (simp add: interpret_report_def report_items_def Let_def nb inc no rs e m reported_def)
qed

section \<open>Unsolicited messages at the client\<close>

text \<open>What the reader task does with an unconfirmed service: it keeps the last application error, passes
  on a termination with the cause of the error it belongs to, or a report whose entries are named by
  the registered data set. \<open>None\<close> is the panic of the report decoder.\<close>

datatype client_output = OutNothing | OutTermination command_termination | OutReport report

definition name_entry :: "variable_name list \<Rightarrow> report_entry \<Rightarrow> report_entry" where
  "name_entry members e =
    (if re_reference e \<noteq> None then e
     else case get_at members (re_member_index e) of
       None \<Rightarrow> e
     | Some (d, i) \<Rightarrow> e\<lparr>re_reference := (case mms_to_object_reference d i of Inr r \<Rightarrow> Some r | Inl _ \<Rightarrow> None)\<rparr>)"

definition name_entries :: "(string \<rightharpoonup> variable_name list) \<Rightarrow> report \<Rightarrow> report" where
  "name_entries report_members rep =
    (case Option.bind (rt_dataset rep) report_members of
       None \<Rightarrow> rep
     | Some members \<Rightarrow> rep\<lparr>rt_entries := map (name_entry members) (rt_entries rep)\<rparr>)"

definition on_unsolicited ::
    "(string \<rightharpoonup> variable_name list) \<Rightarrow> last_appl_error option \<Rightarrow> tlv \<Rightarrow> (last_appl_error option \<times> client_output) option" where
  "on_unsolicited report_members prev svc =
    (case parse_last_appl_error svc of
       Some e \<Rightarrow> Some (Some e, OutNothing)
     | None \<Rightarrow>
       (case parse_command_termination svc of
          Some ct \<Rightarrow>
            Some (case prev of
               Some e \<Rightarrow> if \<not> ct_positive ct \<and> ends_with (ct_object_item ct) (lae_cntrl_obj e)
                 then (None, OutTermination (ct\<lparr>ct_add_cause := Some (lae_add_cause e)\<rparr>))
                 else (prev, OutTermination ct)
             | None \<Rightarrow> (prev, OutTermination ct))
        | None \<Rightarrow>
          (case decode_information_report svc of
             None \<Rightarrow> None
           | Some (Inr rep) \<Rightarrow> Some (prev, OutReport (name_entries report_members rep))
           | Some (Inl _) \<Rightarrow> Some (prev, OutNothing))))"

section \<open>Facts\<close>

definition report_service :: "bytes \<Rightarrow> tlv" where
  "report_service c = \<lparr>tlv_tag = information_report, tlv_content = c\<rparr>"

lemma parse_unconfirmed_service:
  assumes "length (tlv_bytes pdu_unconfirmed (tlv_bytes information_report c)) < usize_limit"
  shows "parse_unconfirmed (tlv_bytes pdu_unconfirmed (tlv_bytes information_report c)) = Inr (report_service c)"
    "slice_ok [] c"
proof -
  have s: "slice_ok [] (tlv_bytes information_report c)"
    using assms length_content_less [of "tlv_bytes information_report c" pdu_unconfirmed] by (simp add: slice_ok_def)
  then show "parse_unconfirmed (tlv_bytes pdu_unconfirmed (tlv_bytes information_report c)) = Inr (report_service c)"
    using assms by (simp add: parse_unconfirmed_def read_tlv_single tlv_reader_at read_tlv_last report_service_def)
  show "slice_ok [] c" using s by (rule inner_slice)
qed

lemma named_parts:
  assumes "slice_ok [] (tlv_bytes t a @ tlv_bytes u b)"
  shows "named_report_parts (report_service (tlv_bytes t a @ tlv_bytes u b)) =
    Some (\<lparr>tlv_tag = t, tlv_content = a\<rparr>, \<lparr>tlv_tag = u, tlv_content = b\<rparr>)"
    "report_parts (tlv_bytes t a @ tlv_bytes u b) =
      Inr (Some \<lparr>tlv_tag = t, tlv_content = a\<rparr>, \<lparr>tlv_tag = u, tlv_content = b\<rparr>)"
  using assms by (simp_all add: named_report_parts_def report_parts_def report_service_def reads)

lemma rpt_list: "parse_list_of_variable (tlv_bytes (tag_context 0 False) (as_bytes ''RPT'')) =
    Inl (MeBer UnexpectedEof)"
  by (simp add: parse_list_of_variable_def as_bytes_def byte_of_char_def read_each.simps parse_variable_def m_expect_def
      map_errR_def evals)

lemma rpt_dataset: "dataset_from_access_spec \<lparr>tlv_tag = tag_context 1 True,
    tlv_content = tlv_bytes (tag_context 0 False) (as_bytes ''RPT'')\<rparr> = Some ''RPT''"
proof -
  have "str_ok ''RPT''" by (simp add: str_ok_def as_bytes_def byte_of_char_def evals utf8_next.simps)
  moreover have "length (tlv_bytes (tag_context 0 False) (as_bytes ''RPT'')) < usize_limit"
    by (simp add: as_bytes_def byte_of_char_def evals usize_limit_def)
  ultimately show ?thesis
    by (simp add: dataset_from_access_spec_def read_tlv_single)
qed

section \<open>Properties\<close>


lemma mms_bytes_bound: "length (mms_bytes d) \<le> length (mms_content d) + 15"
  unfolding mms_bytes_def by (rule tlv_bytes_bound)

lemma report_bytes_bound: "length (encode_information_report d) \<le> length (items_bytes (report_items d)) + 100"
proof -
  have "length rpt_name \<le> 33"
    using tlv_bytes_bound [of "tag_context 1 True" "tlv_bytes (tag_context 0 False) (as_bytes ''RPT'')"]
      tlv_bytes_bound [of "tag_context 0 False" "as_bytes ''RPT''"] by (simp add: rpt_name_def)
  then show ?thesis
    using tlv_bytes_bound [of "tag_context 0 True" "items_bytes (report_items d)"]
      tlv_bytes_bound [of information_report "rpt_name @ tlv_bytes (tag_context 0 True) (items_bytes (report_items d))"]
      tlv_bytes_bound [of pdu_unconfirmed "tlv_bytes information_report
        (rpt_name @ tlv_bytes (tag_context 0 True) (items_bytes (report_items d)))"]
    unfolding report_bytes by simp
qed


text \<open>A report that announces data references or segmentation in \<open>OptFlds\<close>, which the server writes
  into its control block as the client asks, is sent without these fields and read with them.\<close>

lemma data_reference_misread:
  "let d = \<lparr>rp_rpt_id = ''r'', rp_opt_flds = \<lparr>unused_bits = 6, bs_bytes = [0x04, 0]\<rparr>,
      rp_seq_num = 7, rp_dataset = None, rp_conf_rev = 1, rp_time_of_entry = None, rp_buf_ovfl = False,
      rp_entry_id = None, rp_inclusion = \<lparr>unused_bits = 6, bs_bytes = [0x40]\<rparr>, rp_values = [MInt 5], rp_reasons = None\<rparr>
   in map_option (map_sum id rt_entries) (interpret_report (report_items d) (Some ''RPT'')) = Some (Inr [])"
proof -
  let ?o = "\<lparr>unused_bits = 6, bs_bytes = [0x04, 0]\<rparr> :: bit_string" and ?i = "\<lparr>unused_bits = 6, bs_bytes = [0x40]\<rparr> :: bit_string"
  have b: "map (bs_bit ?o) [1, 2, 3, 4, 5, 6, 7, 8, 9] = [False, False, False, False, True, False, False, False, False]"
    by code_simp
  have m: "filter (bs_bit ?i) [0..<2] = [1]" "len_bits ?i = Some 2" by code_simp+
  show ?thesis
    using b m by (simp add: Let_def report_items_def interpret_report_def opt_take_def opt_sequence_number_def
        opt_report_timestamp_def opt_data_set_name_def opt_buffer_overflow_def opt_entry_id_def opt_conf_revision_def
        opt_reason_for_inclusion_def opt_data_reference_def opt_segmentation_def enumerate_eq_zip)
qed

text \<open>An inclusion bit string without octets but with unused bits stops the client with a panic.\<close>

lemma empty_inclusion_panics:
  "interpret_report [MVisible ''r'', MBitString \<lparr>unused_bits = 6, bs_bytes = [0, 0]\<rparr>,
     MBitString \<lparr>unused_bits = 1, bs_bytes = []\<rparr>] (Some ''RPT'') = None"
proof -
  have "list_all (\<lambda>k. \<not> bs_bit \<lparr>unused_bits = 6, bs_bytes = [0, 0]\<rparr> k) [1, 2, 3, 4, 5, 6, 7, 8, 9]" by code_simp
  then show ?thesis
    by (simp add: interpret_report_def Let_def opt_take_def len_bits_def opt_sequence_number_def
        opt_report_timestamp_def opt_data_set_name_def opt_buffer_overflow_def opt_entry_id_def opt_conf_revision_def
        opt_reason_for_inclusion_def opt_data_reference_def opt_segmentation_def)
qed

lemma termination_bytes: "encode_command_termination domain item oper positive code =
    tlv_bytes pdu_unconfirmed (tlv_bytes information_report
      (tlv_bytes (tag_context 0 True) (one_variable (domain, item)) @
       tlv_bytes (tag_context 0 True)
         (if positive then mms_bytes oper else tlv_bytes (tag_context 0 False) (encode_integer code))))"
  by (simp add: encode_command_termination_def one_variable_def variable_content_def object_name_bytes_def
      names_bytes_def w_put mms_encode_put u_sequence_def)

definition lae_name_bytes :: bytes where
  "lae_name_bytes = tlv_bytes u_sequence (tlv_bytes (tag_context 0 True)
     (tlv_bytes (tag_context 0 False) (as_bytes last_appl_error_name)))"

lemma appl_error_bytes: "encode_last_appl_error e =
    tlv_bytes pdu_unconfirmed (tlv_bytes information_report
      (tlv_bytes (tag_context 0 True) lae_name_bytes @ tlv_bytes (tag_context 0 True) (mms_bytes (lae_data e))))"
  by (simp add: encode_last_appl_error_def lae_name_bytes_def w_put mms_encode_put u_sequence_def)

lemma first_tlv_single: "length (tlv_bytes t c) < usize_limit \<Longrightarrow>
    first_tlv (tlv_bytes t c) = Some \<lparr>tlv_tag = t, tlv_content = c\<rparr>"
  by (simp add: first_tlv_def read_tlv_single)

lemma lae_fields: "data_ok (lae_data e) \<Longrightarrow> length (mms_content (lae_data e)) < usize_limit \<Longrightarrow>
    (case mms_decode \<lparr>tlv_tag = mms_tag (lae_data e), tlv_content = mms_content (lae_data e)\<rparr> of
       Inr (MStructure fs) \<Rightarrow> lae_of_fields fs | _ \<Rightarrow> None) = Some e"
  by (simp add: data_decodes) (simp add: lae_data_def lae_of_fields_def get_at_def lae_origin_def unwrap_or_def)

lemma parse_own_appl_error:
  assumes "data_ok (lae_data e)" "length (encode_last_appl_error e) < usize_limit"
  shows "\<exists>svc. parse_unconfirmed (encode_last_appl_error e) = Inr svc \<and> parse_last_appl_error svc = Some e"
proof -
  let ?a = "tlv_bytes (tag_context 0 False) (as_bytes last_appl_error_name)"
  let ?c = "tlv_bytes (tag_context 0 True) lae_name_bytes @ tlv_bytes (tag_context 0 True) (mms_bytes (lae_data e))"
  have p: "parse_unconfirmed (encode_last_appl_error e) = Inr (report_service ?c)" and s: "slice_ok [] ?c"
    using assms(2) parse_unconfirmed_service unfolding appl_error_bytes by simp_all
  have n: "slice_ok [] lae_name_bytes" "slice_ok [] (mms_bytes (lae_data e))"
    using s inner_slice_first inner_slice_rest by blast+
  then have b: "slice_ok [] (tlv_bytes (tag_context 0 True) ?a)" "slice_ok [] (mms_content (lae_data e))"
    unfolding lae_name_bytes_def mms_bytes_def by (auto intro: inner_slice)
  then have c: "slice_ok [] ?a" by (auto intro: inner_slice)
  have "parse_last_appl_error (report_service ?c) = Some e"
    using named_parts(1) [OF s] n b c lae_fields [OF assms(1)]
    by (simp add: parse_last_appl_error_def lae_name_bytes_def mms_bytes_def first_tlv_single slice_ok_Nil)
  then show ?thesis using p by blast
qed

lemma parse_own_termination:
  assumes "name_ok2 (domain, item)" "ends_with ''$Oper'' item \<or> ends_with ''$Cancel'' item"
    "length (encode_command_termination domain item oper positive code) < usize_limit"
  shows "\<exists>svc. parse_unconfirmed (encode_command_termination domain item oper positive code) = Inr svc \<and>
    parse_last_appl_error svc = None \<and>
    parse_command_termination svc = Some \<lparr>ct_domain = domain, ct_object_item = item, ct_positive = positive, ct_add_cause = None\<rparr>"
proof -
  let ?r = "if positive then mms_bytes oper else tlv_bytes (tag_context 0 False) (encode_integer code)"
  let ?v = "one_variable (domain, item)"
  let ?c = "tlv_bytes (tag_context 0 True) ?v @ tlv_bytes (tag_context 0 True) ?r"
  have p: "parse_unconfirmed (encode_command_termination domain item oper positive code) = Inr (report_service ?c)"
    and s: "slice_ok [] ?c"
    using assms(3) parse_unconfirmed_service unfolding termination_bytes by simp_all
  have n: "slice_ok [] ?v" "slice_ok [] ?r"
    using s inner_slice_first inner_slice_rest by blast+
  have r: "\<exists>c. fst (read_tlv (reader_new ?r)) = Inr \<lparr>tlv_tag = (if positive then mms_tag oper else tag_context 0 False), tlv_content = c\<rparr>"
    using n(2) by (cases positive) (auto simp: mms_bytes_def read_tlv_single slice_ok_Nil)
  have x: "slice_ok [] (tlv_bytes (tag_context 0 True) (object_name_bytes (domain, item)))"
    "slice_ok [] (object_name_bytes (domain, item))"
    using n(1) inner_slice unfolding one_variable_def variable_content_def by blast+
  have "parse_last_appl_error (report_service ?c) = None"
    using named_parts(1) [OF s] n(1) x
    by (simp add: parse_last_appl_error_def one_variable_def variable_content_def object_name_bytes_def first_tlv_single slice_ok_Nil)
  moreover have "parse_command_termination (report_service ?c) =
      Some \<lparr>ct_domain = domain, ct_object_item = item, ct_positive = positive, ct_add_cause = None\<rparr>"
    using named_parts(1) [OF s] r one_variable_parsed [OF n(1) assms(1)] assms(2)
    by (auto simp: parse_command_termination_def mms_tag_not_error split: if_splits)
  ultimately show ?thesis using p by blast
qed

text \<open>The refusal of a command reaches the client whole: the application error the server sends
  before is kept and its cause is attached to the negative termination that follows, once; a positive
  termination is never mistaken and takes nothing.\<close>

theorem refusal_carried:
  assumes "name_ok2 (domain, item)" "ends_with ''$Oper'' item \<or> ends_with ''$Cancel'' item"
    "lae_cntrl_obj e = domain @ ''/'' @ item" "data_ok (lae_data e)"
    "length (encode_last_appl_error e) < usize_limit"
    "length (encode_command_termination domain item oper positive code) < usize_limit"
  shows "\<exists>err term. parse_unconfirmed (encode_last_appl_error e) = Inr err \<and>
    parse_unconfirmed (encode_command_termination domain item oper positive code) = Inr term \<and>
    on_unsolicited members prev err = Some (Some e, OutNothing) \<and>
    on_unsolicited members (Some e) term =
      Some (if positive then Some e else None, OutTermination \<lparr>ct_domain = domain, ct_object_item = item,
        ct_positive = positive, ct_add_cause = (if positive then None else Some (lae_add_cause e))\<rparr>)"
proof -
  have "ends_with item (lae_cntrl_obj e)" by (simp add: assms(3) ends_with_def)
  then show ?thesis
    using parse_own_appl_error [OF assms(4,5)] parse_own_termination [OF assms(1,2,6)]
    by (auto simp: on_unsolicited_def)
qed

lemma termination_bound: "length (encode_command_termination domain item oper positive code) \<le> length domain + length item +
    length (if positive then mms_bytes oper else tlv_bytes (tag_context 0 False) (encode_integer code)) + 150"
proof -
  have "length (one_variable (domain, item)) \<le> length domain + length item + 75"
    using tlv_bytes_bound [of u_sequence "variable_content (domain, item)"]
      tlv_bytes_bound [of "tag_context 0 True" "object_name_bytes (domain, item)"]
      tlv_bytes_bound [of "tag_context 1 True" "names_bytes (domain, item)"]
      tlv_bytes_bound [of u_visible_string "as_bytes domain"] tlv_bytes_bound [of u_visible_string "as_bytes item"]
    by (simp add: one_variable_def variable_content_def object_name_bytes_def names_bytes_def)
  moreover obtain r where r: "r = (if positive then mms_bytes oper else tlv_bytes (tag_context 0 False) (encode_integer code))"
    by blast
  ultimately show ?thesis
    using tlv_bytes_bound [of "tag_context 0 True" "one_variable (domain, item)"] tlv_bytes_bound [of "tag_context 0 True" r]
      tlv_bytes_bound [of information_report "tlv_bytes (tag_context 0 True) (one_variable (domain, item)) @ tlv_bytes (tag_context 0 True) r"]
      tlv_bytes_bound [of pdu_unconfirmed "tlv_bytes information_report (tlv_bytes (tag_context 0 True) (one_variable (domain, item)) @
        tlv_bytes (tag_context 0 True) r)"]
    unfolding termination_bytes r [symmetric] by simp
qed

lemma appl_error_bound: "length (encode_last_appl_error e) \<le> length (lae_cntrl_obj e) + length (lae_or_ident e) + 400"
proof -
  have i: "length (mms_bytes (MInt v)) \<le> 23" "length (mms_bytes (MUint v)) \<le> 24" for v
    using mms_bytes_bound [of "MInt v"] mms_bytes_bound [of "MUint v"] length_encode_integer(2) [of v]
      length_encode_unsigned [of v] by simp_all
  let ?o = "MStructure [MInt (lae_or_cat e), MOctets (lae_or_ident e)]"
  have "length (mms_bytes ?o) \<le> length (lae_or_ident e) + 53"
    using mms_bytes_bound [of ?o] i(1) [of "lae_or_cat e"] mms_bytes_bound [of "MOctets (lae_or_ident e)"]
    by (simp add: mms_bytes_def)
  then have "length (mms_bytes (lae_data e)) \<le> length (lae_cntrl_obj e) + length (lae_or_ident e) + 180"
    using mms_bytes_bound [of "lae_data e"] i(1) [of "lae_error e"] i(2) [of "lae_ctl_num e"] i(1) [of "lae_add_cause e"]
      mms_bytes_bound [of "MVisible (lae_cntrl_obj e)"]
    by (simp add: lae_data_def mms_bytes_def)
  moreover have "length lae_name_bytes \<le> 58"
    using tlv_bytes_bound [of "tag_context 0 False" "as_bytes last_appl_error_name"]
      tlv_bytes_bound [of "tag_context 0 True" "tlv_bytes (tag_context 0 False) (as_bytes last_appl_error_name)"]
      tlv_bytes_bound [of u_sequence "tlv_bytes (tag_context 0 True) (tlv_bytes (tag_context 0 False) (as_bytes last_appl_error_name))"]
    by (simp add: lae_name_bytes_def last_appl_error_name_def)
  ultimately show ?thesis
    using tlv_bytes_bound [of "tag_context 0 True" lae_name_bytes] tlv_bytes_bound [of "tag_context 0 True" "mms_bytes (lae_data e)"]
      tlv_bytes_bound [of information_report "tlv_bytes (tag_context 0 True) lae_name_bytes @ tlv_bytes (tag_context 0 True) (mms_bytes (lae_data e))"]
      tlv_bytes_bound [of pdu_unconfirmed "tlv_bytes information_report (tlv_bytes (tag_context 0 True) lae_name_bytes @
        tlv_bytes (tag_context 0 True) (mms_bytes (lae_data e)))"]
    unfolding appl_error_bytes by simp
qed

end
