(* ===== verification/ServerNamespace.thy ===== *)
theory ServerNamespace imports ReportPdu AccessControl ModelTree "HOL-Library.AList" begin

text \<open>
  The MMS namespace of a server (\<open>crates/iec61850-mms/src/server.rs\<close>: \<open>RcbDef\<close>, \<open>SgcbDef\<close>, \<open>LcbDef\<close>,
  \<open>ServerModel\<close>, \<open>init_store\<close>, \<open>build_name_list\<close>) and the paged listing of a client
  (\<open>client.rs\<close>: \<open>get_name_list_all\<close>). The namespace is computed from the model tree: the items of each
  domain, the data sets, and the report, setting-group and log control blocks; the store of values is an
  association list, whose order stands for the unspecified order of a \<open>HashMap\<close>. The file provider of a
  server is an argument of the file services. The lemmas show that the namespace is in order, which the
  binary search and the paging rely on, that assembling a structure ends, and that paging ends with
  every name once.
\<close>

unbundle bit_operations_syntax

section \<open>Texts\<close>

text \<open>\<open>str::find\<close> of a text, \<open>str::strip_suffix\<close>, and the first two steps of \<open>splitn(3, '$')\<close>.\<close>

fun find_text :: "'a list \<Rightarrow> 'a list \<Rightarrow> nat option" where
  "find_text p [] = (if p = [] then Some 0 else None)"
| "find_text p (x # s) = (if starts_with p (x # s) then Some 0 else map_option Suc (find_text p s))"

definition strip_suffix :: "'a list \<Rightarrow> 'a list \<Rightarrow> 'a list option" where
  "strip_suffix w s = (if ends_with w s then Some (take (length s - length w) s) else None)"

definition split3 :: "string \<Rightarrow> (string \<times> string \<times> string) option" where
  "split3 s = Option.bind (split_once (CHR ''$'') s) (\<lambda>(ln, rest).
     Option.bind (split_once (CHR ''$'') rest) (\<lambda>(fc, tl'). Some (ln, fc, tl')))"

definition dollar :: "string \<Rightarrow> string \<Rightarrow> string" where
  "dollar a b = a @ ''$'' @ b"

section \<open>Control blocks\<close>

record rcb_def =
  rcb_domain :: string
  rcb_base :: string
  rcb_rpt_id :: string
  rcb_dataset :: "string option"
  rcb_conf_rev :: u32
  rcb_buffered :: bool

definition dataset_ref :: "rcb_def \<Rightarrow> string option" where
  "dataset_ref r =
    (case rcb_dataset r of
       None \<Rightarrow> None
     | Some ds \<Rightarrow>
       if CHR ''/'' \<in> set ds \<or> CHR ''$'' \<in> set ds then Some ds
       else Some (rcb_domain r @ ''/'' @ dollar (hd (split_on (CHR ''$'') (rcb_base r))) ds))"

definition default_opt_flds :: "bool \<Rightarrow> bit_string" where
  "default_opt_flds buffered =
    (let b = replicate 10 False;
         b = b[opt_sequence_number := True];
         b = b[opt_data_set_name := True];
         b = (if buffered then b[opt_buffer_overflow := True, opt_entry_id := True] else b)
     in bits_from b)"

definition rcb_components :: "rcb_def \<Rightarrow> (string \<times> mms_data) list" where
  "rcb_components r =
    [(''RptID'', MVisible (rcb_rpt_id r)), (''RptEna'', MBool False)] @
    (if \<not> rcb_buffered r then [(''Resv'', MBool False)] else []) @
    [(''DatSet'', MVisible (unwrap_or [] (dataset_ref r))),
     (''ConfRev'', MUint (ucast (rcb_conf_rev r))),
     (''OptFlds'', MBitString (default_opt_flds (rcb_buffered r))),
     (''BufTm'', MUint 0),
     (''SqNum'', MUint 0),
     (''TrgOps'', MBitString (bits_from [False, True])),
     (''IntgPd'', MUint 0),
     (''GI'', MBool False)] @
    (if rcb_buffered r then
       [(''PurgeBuf'', MBool False),
        (''EntryID'', MOctets []),
        (''TimeofEntry'', MBinaryTime (replicate 6 0)),
        (''ResvTms'', MInt 0)]
     else [])"

record sgcb_def =
  sgcb_domain :: string
  sgcb_base_name :: string
  sgcb_num_of_sgs :: u32
  sgcb_act_sg :: u32
  sgcb_resv_tms :: bool

definition sgcb_components :: "sgcb_def \<Rightarrow> (string \<times> mms_data) list" where
  "sgcb_components s =
    [(''NumOfSG'', MUint (ucast (sgcb_num_of_sgs s))),
     (''ActSG'', MUint (ucast (sgcb_act_sg s))),
     (''EditSG'', MUint 0),
     (''CnfEdit'', MBool False),
     (''LActTm'', MUtc (replicate 8 0))] @
    (if sgcb_resv_tms s then [(''ResvTms'', MUint 0)] else [])"

record lcb_def =
  lcb_domain :: string
  lcb_base :: string
  lcb_log_ena :: bool
  lcb_log_ref :: string
  lcb_dataset :: "string option"

definition lcb_components :: "lcb_def \<Rightarrow> (string \<times> mms_data) list" where
  "lcb_components l =
    [(''LogEna'', MBool (lcb_log_ena l)),
     (''LogRef'', MVisible (lcb_log_ref l)),
     (''DatSet'', MVisible (unwrap_or [] (lcb_dataset l))),
     (''OldEntrTm'', MBinaryTime (replicate 6 0)),
     (''NewEntrTm'', MBinaryTime (replicate 6 0)),
     (''OldEntr'', MOctets (replicate 8 0)),
     (''NewEntr'', MOctets (replicate 8 0)),
     (''TrgOps'', MBitString (bits_from [False, True, True])),
     (''IntgPd'', MUint 0)]"

section \<open>The namespace\<close>

text \<open>A \<open>HashMap\<close> that is only looked up is a map; one that is iterated is an association list, whose
  order stands for the unspecified order of the iteration. A \<open>BTreeMap\<close> is in the order of its keys.\<close>

type_synonym store = "(variable_name \<times> mms_data) list"

fun bt_update :: "'k::linorder \<Rightarrow> ('v option \<Rightarrow> 'v) \<Rightarrow> ('k \<times> 'v) list \<Rightarrow> ('k \<times> 'v) list" where
  "bt_update k f [] = [(k, f None)]"
| "bt_update k f ((k', v') # rest) =
    (if k < k' then (k, f None) # (k', v') # rest
     else if k = k' then (k, f (Some v')) # rest
     else (k', v') # bt_update k f rest)"

text \<open>\<open>items.entry(domain).or_default().push(item)\<close> for each item.\<close>

definition push_items :: "string \<Rightarrow> string list \<Rightarrow> (string \<times> string list) list \<Rightarrow> (string \<times> string list) list" where
  "push_items domain names items = bt_update domain (\<lambda>v. unwrap_or [] v @ names) items"

record server_model =
  sm_domains :: "string list"
  sm_items :: "(string \<times> string list) list"
  sm_datasets :: "variable_name \<rightharpoonup> variable_name list"
  sm_rcbs :: "rcb_def list"
  sm_sgcbs :: "sgcb_def list"
  sm_lcbs :: "lcb_def list"
  sm_sg_domains :: "(string \<times> u32) list"
  sm_ident :: identify_response
  sm_page_size :: nat

definition max_page_items :: nat where
  "max_page_items = 100"

text \<open>What the loop over the logical nodes accumulates.\<close>

record namespace_acc =
  na_items :: "(string \<times> string list) list"
  na_datasets :: "variable_name \<rightharpoonup> variable_name list"
  na_rcbs :: "rcb_def list"
  na_sgcbs :: "sgcb_def list"
  na_lcbs :: "lcb_def list"

definition block_items :: "string \<Rightarrow> (string \<times> mms_data) list \<Rightarrow> string list" where
  "block_items base comps = base # map (\<lambda>(attr, _). dollar base attr) comps"

definition add_log_control :: "string \<Rightarrow> string \<Rightarrow> log_control_block \<Rightarrow> namespace_acc \<Rightarrow> namespace_acc" where
  "add_log_control domain ln lc acc =
    (let base = dollar ln (dollar ''LG'' (lc_name lc));
         def = \<lparr>lcb_domain = domain, lcb_base = base, lcb_log_ena = lc_log_ena lc,
                lcb_log_ref = domain @ ''/'' @ dollar ln (lc_name lc), lcb_dataset = lc_dataset lc\<rparr>
     in acc\<lparr>na_items := push_items domain (block_items base (lcb_components def)) (na_items acc),
            na_lcbs := na_lcbs acc @ [def]\<rparr>)"

definition add_setting_control :: "string \<Rightarrow> string \<Rightarrow> setting_group_control \<Rightarrow> namespace_acc \<Rightarrow> namespace_acc" where
  "add_setting_control domain ln sg acc =
    (let base = dollar ln ''SP$SGCB'';
         def = \<lparr>sgcb_domain = domain, sgcb_base_name = base, sgcb_num_of_sgs = sg_num_of_sgs sg,
                sgcb_act_sg = sg_act_sg sg, sgcb_resv_tms = sg_resv_tms sg\<rparr>
     in acc\<lparr>na_items := push_items domain (block_items base (sgcb_components def)) (na_items acc),
            na_sgcbs := na_sgcbs acc @ [def]\<rparr>)"

definition add_data_set :: "model \<Rightarrow> string \<Rightarrow> string \<Rightarrow> data_set \<Rightarrow> namespace_acc \<Rightarrow> namespace_acc" where
  "add_data_set m domain ln ds acc =
    (let members = (case resolve_dataset m domain (ds_name ds) of
           Some resolved \<Rightarrow> List.map_filter (\<lambda>x. case object_reference_to_mms (dm_reference x) of
               Inr n \<Rightarrow> Some n | Inl _ \<Rightarrow> None) resolved
         | None \<Rightarrow> [])
     in acc\<lparr>na_datasets := (na_datasets acc)((domain, dollar ln (ds_name ds)) \<mapsto> members,
            (domain, ds_name ds) \<mapsto> members)\<rparr>)"

definition add_report_control :: "string \<Rightarrow> string \<Rightarrow> report_control \<Rightarrow> namespace_acc \<Rightarrow> namespace_acc" where
  "add_report_control domain ln rc acc =
    (let fc = (if rc_buffered rc then ''BR'' else ''RP'');
         base = dollar ln (dollar fc (rc_name rc));
         rpt_id = (case rc_rpt_id rc of Some i \<Rightarrow> i | None \<Rightarrow> domain @ ''/'' @ ln @ ''.'' @ rc_name rc);
         def = \<lparr>rcb_domain = domain, rcb_base = base, rcb_rpt_id = rpt_id, rcb_dataset = rc_dataset rc,
                rcb_conf_rev = unwrap_or 1 (rc_conf_rev rc), rcb_buffered = rc_buffered rc\<rparr>
     in acc\<lparr>na_items := push_items domain (block_items base (rcb_components def)) (na_items acc),
            na_rcbs := na_rcbs acc @ [def]\<rparr>)"

definition add_logical_node :: "model \<Rightarrow> object_reference \<times> logical_node \<Rightarrow> namespace_acc \<Rightarrow> namespace_acc" where
  "add_logical_node m = (\<lambda>(objref, ln) acc.
    let domain = or_ld objref; name = or_ln objref;
        acc = fold (add_log_control domain name) (ln_log_controls ln) acc;
        acc = (case ln_setting_group_control ln of Some sg \<Rightarrow> add_setting_control domain name sg acc | None \<Rightarrow> acc);
        acc = fold (add_data_set m domain name) (ln_data_sets ln) acc
    in fold (add_report_control domain name) (ln_report_controls ln) acc)"

definition se_views :: "string list \<Rightarrow> string list" where
  "se_views names = List.map_filter (\<lambda>it. Option.bind (split3 it) (\<lambda>(ln, fc, tl').
     if fc = ''SG'' then Some (dollar ln (dollar ''SE'' tl')) else None)) names"

definition add_se_views :: "string \<times> u32 \<Rightarrow> (string \<times> string list) list \<Rightarrow> (string \<times> string list) list" where
  "add_se_views = (\<lambda>(domain, num) items.
     if num = 0 then items
     else map (\<lambda>(d, names). if d = domain then (d, names @ se_views names) else (d, names)) items)"

definition attribute_item :: "object_reference \<times> data_attribute \<Rightarrow> (string \<times> string list) list \<Rightarrow> (string \<times> string list) list" where
  "attribute_item = (\<lambda>(obj, _) items.
     case object_reference_to_mms obj of
       Inr (domain, item) \<Rightarrow> push_items domain [item] items
     | Inl _ \<Rightarrow> items)"

definition count_groups :: "sgcb_def \<Rightarrow> (string \<times> u32) list \<Rightarrow> (string \<times> u32) list" where
  "count_groups sgcb = bt_update (sgcb_domain sgcb) (\<lambda>n. case n of
     Some n \<Rightarrow> max n (sgcb_num_of_sgs sgcb) | None \<Rightarrow> sgcb_num_of_sgs sgcb)"

definition from_model :: "model \<Rightarrow> identify_response \<Rightarrow> server_model" where
  "from_model m ident =
    (let items = fold attribute_item (iter_data_attributes m) [];
         acc = fold (add_logical_node m) (iter_logical_nodes m)
           \<lparr>na_items = items, na_datasets = Map.empty, na_rcbs = [], na_sgcbs = [], na_lcbs = []\<rparr>;
         sg_domains = fold count_groups (na_sgcbs acc) [];
         items = fold add_se_views sg_domains (na_items acc);
         items = map (\<lambda>(d, names). (d, remdups_adj (sort names))) items
     in \<lparr>sm_domains = map fst items, sm_items = items, sm_datasets = na_datasets acc, sm_rcbs = na_rcbs acc,
         sm_sgcbs = na_sgcbs acc, sm_lcbs = na_lcbs acc, sm_sg_domains = sg_domains, sm_ident = ident,
         sm_page_size = max_page_items\<rparr>)"

definition with_page_size :: "nat \<Rightarrow> server_model \<Rightarrow> server_model" where
  "with_page_size n sm = sm\<lparr>sm_page_size := max n 1\<rparr>"

section \<open>Looking up\<close>

definition items_of :: "server_model \<Rightarrow> string \<Rightarrow> string list option" where
  "items_of sm domain = map_of (sm_items sm) domain"

text \<open>\<open>binary_search\<close> finds the items of a sorted vector, as each of \<open>from_model\<close> is (\<open>namespace_ok\<close>).\<close>

definition sm_contains :: "server_model \<Rightarrow> string \<Rightarrow> string \<Rightarrow> bool" where
  "sm_contains sm domain item = is_some_and (\<lambda>v. item \<in> set v) (items_of sm domain)"

definition find_rcb :: "server_model \<Rightarrow> string \<Rightarrow> string \<Rightarrow> rcb_def option" where
  "find_rcb sm domain base = find (\<lambda>r. rcb_domain r = domain \<and> rcb_base r = base) (sm_rcbs sm)"

definition rcb_component_names :: "server_model \<Rightarrow> string \<Rightarrow> string \<Rightarrow> string list option" where
  "rcb_component_names sm domain item =
    map_option (\<lambda>def. map fst (rcb_components def)) (find_rcb sm domain item)"

definition sgcb_component_names :: "server_model \<Rightarrow> string \<Rightarrow> string \<Rightarrow> string list option" where
  "sgcb_component_names sm domain item =
    map_option (\<lambda>def. map fst (sgcb_components def))
      (find (\<lambda>s. sgcb_domain s = domain \<and> sgcb_base_name s = item) (sm_sgcbs sm))"

definition lcb_component_names :: "server_model \<Rightarrow> string \<Rightarrow> string \<Rightarrow> string list option" where
  "lcb_component_names sm domain item =
    map_option (\<lambda>def. map fst (lcb_components def))
      (find (\<lambda>l. lcb_domain l = domain \<and> lcb_base l = item) (sm_lcbs sm))"

text \<open>The direct children of a name, in the order of the items and without repetition.\<close>

definition add_child :: "string \<Rightarrow> string \<Rightarrow> string list \<Rightarrow> string list" where
  "add_child item it children =
    (case strip_prefix (item @ ''$'') it of
       Some rest \<Rightarrow> (let child = dollar item (hd (split_on (CHR ''$'') rest))
                    in if child \<in> set children then children else children @ [child])
     | None \<Rightarrow> children)"

definition direct_children :: "string list \<Rightarrow> string \<Rightarrow> string list" where
  "direct_children items item = fold (add_child item) items []"

lemma strip_prefix_eq: "strip_prefix p s = Some r \<longleftrightarrow> s = p @ r"
  unfolding strip_prefix_def starts_with_def
  by (metis append_eq_conv_conj option.inject option.distinct(1))

lemma set_add_child:
  "set (add_child item it children) = set children \<union>
    {dollar item (hd (split_on (CHR ''$'') rest)) | rest. it = item @ ''$'' @ rest}"
proof (cases "strip_prefix (item @ ''$'') it")
  case None
  then have "it \<noteq> item @ ''$'' @ rest" for rest
    using strip_prefix_eq [of "item @ ''$''" it rest] by simp
  with None show ?thesis by (simp add: add_child_def)
next
  case (Some rest)
  then have "it = item @ ''$'' @ r \<longleftrightarrow> r = rest" for r
    by (simp add: strip_prefix_eq) auto
  with Some show ?thesis by (simp add: add_child_def Let_def insert_absorb)
qed

lemma set_direct_children:
  "set (direct_children items item) =
    {dollar item (hd (split_on (CHR ''$'') rest)) | rest. item @ ''$'' @ rest \<in> set items}"
proof -
  have "set (fold (add_child item) items cs) = set cs \<union>
      {dollar item (hd (split_on (CHR ''$'') rest)) | rest. item @ ''$'' @ rest \<in> set items}" for cs
    by (induction items arbitrary: cs) (auto simp: set_add_child)
  from this [of "[]"] show ?thesis by (simp add: direct_children_def)
qed

lemma hd_split_on_le: "length (hd (split_on c s)) \<le> length s"
  by (induction c s rule: split_on.induct) (auto split: list.splits)

definition longest :: "string list \<Rightarrow> nat" where
  "longest items = foldr (\<lambda>it n. max (length it) n) items 0"

lemma longest_ge: "it \<in> set items \<Longrightarrow> length it \<le> longest items"
  by (induction items) (auto simp: longest_def le_max_iff_disj)

lemma child_longer:
  assumes "child \<in> set (direct_children items item)"
  shows "length item < length child \<and> length child \<le> longest items"
proof -
  obtain rest where r: "child = dollar item (hd (split_on (CHR ''$'') rest))" "item @ ''$'' @ rest \<in> set items"
    using assms unfolding set_direct_children by blast
  show ?thesis
    using hd_split_on_le [of "CHR ''$''" rest] longest_ge [OF r(2)] by (simp add: r(1) dollar_def)
qed

text \<open>A structure is assembled from the names below its own; a name below another is longer, so the recursion ends.\<close>

function assemble_structured :: "string list \<Rightarrow> (string \<Rightarrow> mms_data option) \<Rightarrow> string \<Rightarrow> mms_data option" where
  "assemble_structured items leaf item =
    (let children = direct_children items item in
     if children = [] then None
     else Some (MStructure (map (\<lambda>child.
       unwrap_or (MBool False) (or_else (assemble_structured items leaf child) (leaf child))) children)))"
  by pat_completeness auto

termination
proof (relation "measure (\<lambda>(items, leaf, item). longest items - length item)")
  fix items :: "string list" and leaf item children child
  assume "children = direct_children items item" "child \<in> set children"
  then show "((items, leaf, child), items, leaf, item) \<in> measure (\<lambda>(items, leaf :: string \<Rightarrow> mms_data option, item). longest items - length item)"
    using child_longer [of child items item] by (simp add: diff_less_mono2)
qed simp

declare assemble_structured.simps [simp del]

definition sm_assemble :: "server_model \<Rightarrow> string \<Rightarrow> string \<Rightarrow> store \<Rightarrow> mms_data option" where
  "sm_assemble sm domain item store = Option.bind (items_of sm domain)
     (\<lambda>items. assemble_structured items (\<lambda>child. map_of store (domain, child)) item)"

section \<open>Names of settings\<close>

record setting_ref =
  sr_editable :: bool
  sr_canonical :: string
  sr_num_of_sgs :: u32

definition sg_group_key :: "u32 \<Rightarrow> string \<Rightarrow> string" where
  "sg_group_key g canonical = ''@sg@'' @ show_nat (unat g) @ ''@'' @ canonical"

definition sg_edit_key :: "string \<Rightarrow> string" where
  "sg_edit_key canonical = ''@se@'' @ canonical"

definition find_setting :: "server_model \<Rightarrow> string \<Rightarrow> string \<Rightarrow> setting_ref option" where
  "find_setting sm domain item =
    Option.bind (map_of (sm_sg_domains sm) domain) (\<lambda>num.
    Option.bind (split3 item) (\<lambda>(ln, fc, tl').
      if fc = ''SG'' then Some \<lparr>sr_editable = False, sr_canonical = dollar ln tl', sr_num_of_sgs = num\<rparr>
      else if fc = ''SE'' then Some \<lparr>sr_editable = True, sr_canonical = dollar ln tl', sr_num_of_sgs = num\<rparr>
      else None))"

definition sgcb_base :: "server_model \<Rightarrow> string \<Rightarrow> string option" where
  "sgcb_base sm domain = map_option sgcb_base_name (find (\<lambda>s. sgcb_domain s = domain) (sm_sgcbs sm))"

definition num_setting_groups :: "server_model \<Rightarrow> string \<Rightarrow> u32 option" where
  "num_setting_groups sm domain = map_of (sm_sg_domains sm) domain"

datatype sg_write = SelectActive | SelectEdit | ConfirmEdit | EditValue setting_ref | ActiveValue

definition classify_sg_write :: "server_model \<Rightarrow> string \<Rightarrow> string \<Rightarrow> sg_write option" where
  "classify_sg_write sm domain item =
    or_else (Option.bind (sgcb_base sm domain) (\<lambda>base.
        if item = dollar base ''ActSG'' then Some SelectActive
        else if item = dollar base ''EditSG'' then Some SelectEdit
        else if item = dollar base ''CnfEdit'' then Some ConfirmEdit
        else None))
      (map_option (\<lambda>sr. if sr_editable sr then EditValue sr else ActiveValue) (find_setting sm domain item))"

section \<open>Journals, instances and data sets\<close>

record journal_entry =
  je_entry_id :: bytes
  je_occurrence_time :: bytes
  je_values :: "mms_data list"

definition journal_entries :: "server_model \<Rightarrow> string \<Rightarrow> string \<Rightarrow> journal_entry list option" where
  "journal_entries sm domain item =
    map_option (\<lambda>_.
      [\<lparr>je_entry_id = to_be (1 :: u64), je_occurrence_time = replicate 6 0, je_values = [MBool True]\<rparr>,
       \<lparr>je_entry_id = to_be (2 :: u64), je_occurrence_time = replicate 6 0, je_values = [MBool False]\<rparr>])
    (find (\<lambda>l. lcb_log_ref l = domain @ ''/'' @ item) (sm_lcbs sm))"

text \<open>One turn of the loop over \<open>$RP$\<close> and \<open>$BR$\<close>.\<close>

definition normalize_with :: "server_model \<Rightarrow> string \<Rightarrow> string \<Rightarrow> string \<Rightarrow> string option" where
  "normalize_with sm domain item fc =
    Option.bind (find_text fc item) (\<lambda>pos.
      let after = drop (pos + length fc) item;
          (name, rest) = (case find_text ''$'' after of
              Some p \<Rightarrow> (take p after, drop p after)
            | None \<Rightarrow> (after, []))
      in Option.bind (strip_suffix ''01'' name) (\<lambda>stripped.
        let base = take pos item @ fc @ stripped
        in if find_rcb sm domain base \<noteq> None then Some (base @ rest) else None))"

definition normalize_rcb_item :: "server_model \<Rightarrow> string \<Rightarrow> string \<Rightarrow> string" where
  "normalize_rcb_item sm domain item =
    unwrap_or item (first_return (normalize_with sm domain item) [''$RP$'', ''$BR$''])"

definition dataset_members :: "server_model \<Rightarrow> string \<Rightarrow> string \<Rightarrow> variable_name list option" where
  "dataset_members sm domain name =
    (let name = (case split_once (CHR ''/'') name of
           Some (d, rest) \<Rightarrow> if d = domain then rest else name
         | None \<Rightarrow> name)
     in sm_datasets sm (domain, name))"

definition buffered_rcb_members :: "server_model \<Rightarrow> (variable_name \<times> variable_name list) list" where
  "buffered_rcb_members sm =
    map (\<lambda>r. ((rcb_domain r, rcb_base r),
        unwrap_or [] (Option.bind (rcb_dataset r) (dataset_members sm (rcb_domain r)))))
      (filter rcb_buffered (sm_rcbs sm))"

section \<open>The initial store\<close>

text \<open>The parser of floating-point text is a parameter: the bits of the double that \<open>str::parse\<close> yields.\<close>

definition value_to_mms :: "(string \<Rightarrow> u64 option) \<Rightarrow> data_attribute \<Rightarrow> cfg_value \<Rightarrow> mms_data option" where
  "value_to_mms parse_f64 da v =
    (let bt = da_basic_type da in
     if bt = BtBoolean then map_option MBool (value_as_bool v)
     else if bt \<in> {BtInt8, BtInt16, BtInt32, BtInt64} then map_option (\<lambda>i. MInt (word_of_int i)) (value_as_i64 v)
     else if bt \<in> {BtInt8u, BtInt16u, BtInt32u} then map_option (\<lambda>i. MUint (word_of_int i)) (value_as_i64 v)
     else if bt \<in> {BtFloat32, BtFloat64} then map_option MFloat (parse_f64 (trim (v_raw v)))
     else if bt \<in> {BtEnum, BtDbpos, BtTcmd} then
       Some (case value_as_i64 v of
           Some ord \<Rightarrow> MInt (word_of_int ord)
         | None \<Rightarrow> (case enum_ordinal da (v_raw v) of
             Some ord \<Rightarrow> MInt (word_of_int ord)
           | None \<Rightarrow> MVisible (v_raw v)))
     else (case bt of
         BtVisString _ \<Rightarrow> Some (MVisible (v_raw v))
       | BtUnicode _ \<Rightarrow> Some (MVisible (v_raw v))
       | BtObjRef \<Rightarrow> Some (MVisible (v_raw v))
       | _ \<Rightarrow> None))"

fun default_for :: "basic_type \<Rightarrow> mms_data" where
  "default_for BtBoolean = MBool False"
| "default_for BtCheck = MBool False"
| "default_for BtInt8u = MUint 0"
| "default_for BtInt16u = MUint 0"
| "default_for BtInt32u = MUint 0"
| "default_for BtFloat32 = MFloat 0"
| "default_for BtFloat64 = MFloat 0"
| "default_for (BtVisString _) = MVisible []"
| "default_for (BtUnicode _) = MVisible []"
| "default_for BtObjRef = MVisible []"
| "default_for BtQuality = MBitString (bits_from (replicate 13 False))"
| "default_for BtTimestamp = MUtc (replicate 8 0)"
| "default_for BtEntryTime = MUtc (replicate 8 0)"
| "default_for (BtOctetString _) = MOctets []"
| "default_for _ = MInt 0"

text \<open>Each group of a setting starts from the value of the attribute.\<close>

definition seed_groups :: "string \<Rightarrow> setting_ref \<Rightarrow> mms_data \<Rightarrow> store \<Rightarrow> store" where
  "seed_groups domain sr value =
    fold (\<lambda>g. AList.update (domain, sg_group_key (word_of_nat g) (sr_canonical sr)) value)
      [1..<Suc (unat (sr_num_of_sgs sr))]"

definition seed_attribute :: "(string \<Rightarrow> u64 option) \<Rightarrow> server_model \<Rightarrow> object_reference \<times> data_attribute \<Rightarrow> store \<Rightarrow> store" where
  "seed_attribute parse_f64 sm = (\<lambda>(obj, da) store.
     case object_reference_to_mms obj of
       Inl _ \<Rightarrow> store
     | Inr (domain, item) \<Rightarrow>
       let value = unwrap_or (default_for (da_basic_type da)) (Option.bind (da_value da) (value_to_mms parse_f64 da));
           store = (case find_setting sm domain item of
               Some sr \<Rightarrow> if sr_editable sr then store else seed_groups domain sr value store
             | None \<Rightarrow> store)
       in AList.update (domain, item) value store)"

definition seed_block :: "string \<Rightarrow> string \<Rightarrow> (string \<times> mms_data) list \<Rightarrow> store \<Rightarrow> store" where
  "seed_block domain base comps = fold (\<lambda>(attr, value). AList.update (domain, dollar base attr) value) comps"

definition init_store :: "(string \<Rightarrow> u64 option) \<Rightarrow> server_model \<Rightarrow> model \<Rightarrow> store" where
  "init_store parse_f64 sm m =
    (let store = fold (seed_attribute parse_f64 sm) (iter_data_attributes m) [];
         store = fold (\<lambda>r. seed_block (rcb_domain r) (rcb_base r) (rcb_components r)) (sm_rcbs sm) store;
         store = fold (\<lambda>s. seed_block (sgcb_domain s) (sgcb_base_name s) (sgcb_components s)) (sm_sgcbs sm) store
     in fold (\<lambda>l. seed_block (lcb_domain l) (lcb_base l) (lcb_components l)) (sm_lcbs sm) store)"

section \<open>Name lists\<close>

text \<open>The names a request is about.\<close>

definition name_source :: "server_model \<Rightarrow> object_class \<Rightarrow> object_scope \<Rightarrow> string list" where
  "name_source sm cls scope =
    (case (cls, scope) of
       (ClassDomain, VmdSpecific) \<Rightarrow> sm_domains sm
     | (ClassNamedVariable, DomainSpecific d) \<Rightarrow> unwrap_or [] (items_of sm d)
     | _ \<Rightarrow> [])"

definition build_name_list :: "server_model \<Rightarrow> name_list_request \<Rightarrow> name_list_response" where
  "build_name_list sm req =
    (let source = name_source sm (nl_class req) (nl_scope req);
         start = (case nl_continue_after req of
           Some ca \<Rightarrow> length (takeWhile (\<lambda>x. x \<le> ca) source)
         | None \<Rightarrow> 0);
         end' = min (start + sm_page_size sm) (length source)
     in \<lparr>nl_identifiers = take (end' - start) (drop start source), nl_more_follows = (end' < length source)\<rparr>)"

text \<open>The client asks page after page; \<open>request\<close> is its connection, which takes the number and the
  service of a request and returns the unit that answers it.\<close>

partial_function (option) get_name_list_loop ::
  "(u32 \<Rightarrow> writing \<Rightarrow> mms_error + bytes) \<Rightarrow> object_class \<Rightarrow> object_scope \<Rightarrow> u32 \<Rightarrow> string option \<Rightarrow> string list \<Rightarrow>
   (mms_error + string list) option" where
  "get_name_list_loop request cls scope i cont out =
    (case bindE (request i (name_list_write_request \<lparr>nl_class = cls, nl_scope = scope, nl_continue_after = cont\<rparr>)) (\<lambda>pdu.
          bindE (parse_confirmed_response pdu) (\<lambda>cr. name_list_decode_response (cr_service cr))) of
       Inl e \<Rightarrow> Some (Inl e)
     | Inr page \<Rightarrow>
       if nl_more_follows page \<and> nl_identifiers page \<noteq> []
       then get_name_list_loop request cls scope (i + 1) (Some (last (nl_identifiers page))) (out @ nl_identifiers page)
       else Some (Inr (out @ nl_identifiers page)))"

definition get_name_list_all ::
  "(u32 \<Rightarrow> writing \<Rightarrow> mms_error + bytes) \<Rightarrow> object_class \<Rightarrow> object_scope \<Rightarrow> u32 \<Rightarrow> (mms_error + string list) option" where
  "get_name_list_all request cls scope i = get_name_list_loop request cls scope i None []"

text \<open>\<open>encode_error\<close>, the answer to what the server does not serve, and the branch of \<open>handle_request\<close>
  for this service.\<close>

definition encode_error :: "u32 \<Rightarrow> bytes" where
  "encode_error invoke = encode_confirmed_error invoke (w_integer (tag_context 0 False) 0)"

definition handle_name_list :: "server_model \<Rightarrow> u32 \<Rightarrow> tlv \<Rightarrow> bytes" where
  "handle_name_list sm invoke service =
    (case name_list_decode_request service of
       Inr req \<Rightarrow> encode_confirmed_response invoke (name_list_encode_response (build_name_list sm req))
     | Inl _ \<Rightarrow> encode_error invoke)"

section \<open>The namespace is in order\<close>

lemma bt_update_keys: "set (map fst (bt_update k f xs)) = insert k (set (map fst xs))"
  by (induction k f xs rule: bt_update.induct) auto

lemma bt_update_sorted: "sorted_wrt (<) (map fst xs) \<Longrightarrow> sorted_wrt (<) (map fst (bt_update k f xs))"
proof (induction k f xs rule: bt_update.induct)
  case (2 k f k' v' rest)
  show ?case
  proof (cases "k < k' \<or> k = k'")
    case True
    then show ?thesis using 2(2) by (auto dest: order.strict_trans)
  next
    case False
    then have "k' < k" by auto
    then show ?thesis
      using 2 False bt_update_keys [of k f rest] by auto
  qed
qed simp

lemma map_of_bt_update: "map_of (bt_update k f xs) = (map_of xs)(k \<mapsto> f (map_of xs k))" if "sorted_wrt (<) (map fst xs)"
  using that
proof (induction k f xs rule: bt_update.induct)
  case (2 k f k' v' rest)
  have "map_of rest k = None" if "k < k'"
    using 2(2) that by (force simp: map_of_eq_None_iff)
  then show ?case using 2 by (auto simp: fun_eq_iff)
qed simp

lemma remdups_adj_strict: "sorted xs \<Longrightarrow> sorted_wrt (<) (remdups_adj xs)" for xs :: "'a::linorder list"
  by (induction xs rule: remdups_adj.induct) (auto simp: order_less_le)

lemma sorted_unique: "sorted_wrt (<) (remdups_adj (sort xs))" for xs :: "'a::linorder list"
  by (rule remdups_adj_strict) simp

text \<open>The domains are in order and so are the items of each, and a page holds at least one name.\<close>

definition namespace_ok :: "server_model \<Rightarrow> bool" where
  "namespace_ok sm \<longleftrightarrow> sorted_wrt (<) (sm_domains sm) \<and> sm_domains sm = map fst (sm_items sm) \<and>
    (\<forall>d v. items_of sm d = Some v \<longrightarrow> sorted_wrt (<) v) \<and> 0 < sm_page_size sm"

lemma push_items_sorted: "sorted_wrt (<) (map fst items) \<Longrightarrow> sorted_wrt (<) (map fst (push_items d names items))"
  by (simp add: push_items_def bt_update_sorted)

lemma fold_keeps: "P a \<Longrightarrow> (\<And>x a. x \<in> set xs \<Longrightarrow> P a \<Longrightarrow> P (f x a)) \<Longrightarrow> P (fold f xs a)"
  by (induction xs arbitrary: a) auto

definition keys_sorted :: "namespace_acc \<Rightarrow> bool" where
  "keys_sorted acc \<longleftrightarrow> sorted_wrt (<) (map fst (na_items acc))"

lemma blocks_sorted:
  "keys_sorted acc \<Longrightarrow> keys_sorted (add_log_control d n lc acc)"
  "keys_sorted acc \<Longrightarrow> keys_sorted (add_setting_control d n sg acc)"
  "keys_sorted acc \<Longrightarrow> keys_sorted (add_data_set m d n ds acc)"
  "keys_sorted acc \<Longrightarrow> keys_sorted (add_report_control d n rc acc)"
  by (simp_all add: keys_sorted_def add_log_control_def add_setting_control_def add_data_set_def
      add_report_control_def Let_def push_items_sorted)

lemma add_logical_node_sorted:
  assumes "keys_sorted acc"
  shows "keys_sorted (add_logical_node m l acc)"
proof -
  have "keys_sorted (fold (add_log_control d n) lcs acc)" for d n lcs
    by (rule fold_keeps [where P = keys_sorted, OF assms]) (rule blocks_sorted)
  with assms show ?thesis
    by (auto simp: add_logical_node_def Let_def blocks_sorted split: prod.split option.split
        intro!: fold_keeps [where P = keys_sorted])
qed

lemma add_se_views_keys: "map fst (fold add_se_views sgs items) = map fst items"
proof -
  have "map fst (add_se_views sg items) = map fst items" for sg and items :: "(string \<times> string list) list"
    by (auto simp: add_se_views_def split: prod.split)
  then show ?thesis by (induction sgs arbitrary: items) auto
qed

lemma unique_items:
  "map_of (map (\<lambda>(d, names). (d, remdups_adj (sort names))) xs) k = Some v \<Longrightarrow> sorted_wrt (<) v"
  by (auto dest!: map_of_SomeD simp: sorted_unique)

lemma from_model_ok: "namespace_ok (from_model m ident)"
proof -
  let ?items = "fold attribute_item (iter_data_attributes m) []"
  have "sorted_wrt (<) (map fst (fold attribute_item xs []))" for xs
    by (rule fold_keeps) (auto simp: attribute_item_def push_items_sorted split: sum.split)
  then have "keys_sorted (fold (add_logical_node m) (iter_logical_nodes m)
      \<lparr>na_items = ?items, na_datasets = Map.empty, na_rcbs = [], na_sgcbs = [], na_lcbs = []\<rparr>)" (is "keys_sorted ?acc")
    by (intro fold_keeps [where P = keys_sorted] add_logical_node_sorted) (simp_all add: keys_sorted_def)
  then have "sorted_wrt (<) (map fst (fold add_se_views sgs (na_items ?acc)))" for sgs
    by (simp add: add_se_views_keys keys_sorted_def)
  moreover have "map fst (map (\<lambda>(d, names). (d, remdups_adj (sort names))) xs) = map fst xs"
    for xs :: "(string \<times> string list) list" by (induction xs) auto
  ultimately show ?thesis
    unfolding namespace_ok_def from_model_def Let_def items_of_def server_model.simps
    by (auto simp only: unique_items) (simp add: max_page_items_def)
qed

lemma with_page_size_ok: "namespace_ok sm \<Longrightarrow> namespace_ok (with_page_size n sm)"
  by (auto simp: namespace_ok_def with_page_size_def items_of_def)

section \<open>Paging\<close>

lemma take_while_le: "sorted_wrt (<) (xs @ x # ys) \<Longrightarrow> takeWhile (\<lambda>y. y \<le> x) (xs @ x # ys) = xs @ [x]"
  for x :: "'a::linorder"
proof -
  assume s: "sorted_wrt (<) (xs @ x # ys)"
  then have "\<forall>y \<in> set xs. y \<le> x" "\<forall>y \<in> set ys. \<not> y \<le> x"
    by (auto simp: sorted_wrt_append less_imp_le not_le)
  then show ?thesis
    by (cases ys) (auto simp: takeWhile_append)
qed

lemma name_source_sorted: "namespace_ok sm \<Longrightarrow> sorted_wrt (<) (name_source sm cls scope)"
  by (auto simp: name_source_def namespace_ok_def unwrap_or_def split: object_class.split object_scope.split option.split)

text \<open>After the names \<open>out\<close>, the page of the rest.\<close>

lemma page_after:
  assumes "namespace_ok sm" "name_source sm cls scope = out @ rest" "cont = (if out = [] then None else Some (last out))"
  shows "build_name_list sm \<lparr>nl_class = cls, nl_scope = scope, nl_continue_after = cont\<rparr> =
    \<lparr>nl_identifiers = take (sm_page_size sm) rest, nl_more_follows = (sm_page_size sm < length rest)\<rparr>"
proof -
  have s: "sorted_wrt (<) (out @ rest)"
    using name_source_sorted [OF assms(1), of cls scope] assms(2) by simp
  have start: "(case cont of Some ca \<Rightarrow> length (takeWhile (\<lambda>x. x \<le> ca) (out @ rest)) | None \<Rightarrow> 0) = length out"
  proof (cases out rule: rev_cases)
    case (snoc xs x)
    then show ?thesis using s take_while_le [of xs x rest] by (simp add: assms(3))
  qed (simp add: assms(3))
  show ?thesis
    by (simp add: build_name_list_def assms(2) start Let_def min_def)
qed

text \<open>The client's connection to the server: the unit of a request reaches the handler of the service,
  whose answer comes back.\<close>

definition server_answers :: "server_model \<Rightarrow> u32 \<Rightarrow> writing \<Rightarrow> mms_error + bytes" where
  "server_answers sm i service =
    bindE (parse_confirmed_request (encode_confirmed_request i service)) (\<lambda>(j, s). Inr (handle_name_list sm j s))"

lemma names_bytes_bound: "length (concat (map (\<lambda>n. tlv_bytes u_visible_string (as_bytes n)) ns)) \<le>
    sum_list (map (\<lambda>n. length n + 15) ns)"
proof (induction ns)
  case (Cons n ns)
  then show ?case using tlv_bytes_bound [of u_visible_string "as_bytes n"] by (simp add: as_bytes_def)
qed simp

text \<open>The octets of the names of a source, far below the address space.\<close>

definition source_ok :: "string list \<Rightarrow> bool" where
  "source_ok names \<longleftrightarrow> list_all str_ok names \<and> sum_list (map (\<lambda>n. length n + 15) names) < 2 ^ 60"

lemma sum_list_take: "sum_list (map f (take n xs)) \<le> sum_list (map f xs)" for f :: "'a \<Rightarrow> nat"
  by (metis append_take_drop_id le_add1 map_append sum_list_append)

lemma page_length:
  assumes "source_ok names"
  shows "length (encode_confirmed_response i (name_list_encode_response
    \<lparr>nl_identifiers = take n names, nl_more_follows = b\<rparr>)) < usize_limit"
proof -
  let ?ns = "concat (map (\<lambda>n. tlv_bytes u_visible_string (as_bytes n)) (take n names))"
  let ?l = "tlv_bytes (tag_context 0 True) ?ns" and ?b = "tlv_bytes (tag_context 1 False) (encode_bool b)"
  let ?i = "tlv_bytes u_integer (encode_integer (ucast i))"
  have "length ?ns < 2 ^ 60"
    using assms names_bytes_bound [of "take n names"] sum_list_take [of "\<lambda>n. length n + 15" n names]
    by (simp add: source_ok_def)
  moreover have "length (encode_bool b) = 1" by (simp add: encode_bool_def)
  moreover have "encode_confirmed_response i (name_list_encode_response
      \<lparr>nl_identifiers = take n names, nl_more_follows = b\<rparr>) =
      tlv_bytes pdu_confirmed_response (?i @ tlv_bytes svc_get_name_list (?l @ ?b))"
    by (simp add: encode_confirmed_response_def name_list_encode_response_def
        w_field [where f = "w_visible_string u_visible_string", OF w_visible_put] w_put)
  ultimately show ?thesis
    using tlv_bytes_bound [of pdu_confirmed_response "?i @ tlv_bytes svc_get_name_list (?l @ ?b)"]
      tlv_bytes_bound [of svc_get_name_list "?l @ ?b"] tlv_bytes_bound [of "tag_context 0 True" ?ns]
      tlv_bytes_bound [of "tag_context 1 False" "encode_bool b"]
      tlv_bytes_bound [of u_integer "encode_integer (ucast i)"] length_encode_integer(2) [of "ucast i"]
    by (simp add: usize_limit_def)
qed

lemma request_length:
  assumes "case scope of DomainSpecific d \<Rightarrow> length d < 2 ^ 60 | VmdSpecific \<Rightarrow> True" "case cont of Some ca \<Rightarrow> length ca < 2 ^ 60 | None \<Rightarrow> True"
  shows "length (encode_confirmed_request i (name_list_write_request
    \<lparr>nl_class = cls, nl_scope = scope, nl_continue_after = cont\<rparr>)) < usize_limit"
proof -
  let ?cl = "encode_integer (class_code cls)"
  let ?c = "tlv_bytes (tag_context 0 True) (tlv_bytes (tag_context 0 False) ?cl)"
  let ?s = "tlv_bytes (tag_context 1 True) (scope_bytes scope)"
  let ?a = "case cont of Some ca \<Rightarrow> tlv_bytes (tag_context 2 False) (as_bytes ca) | None \<Rightarrow> []"
  let ?i = "tlv_bytes u_integer (encode_integer (ucast i))"
  have "encode_confirmed_request i (name_list_write_request
      \<lparr>nl_class = cls, nl_scope = scope, nl_continue_after = cont\<rparr>) =
      tlv_bytes pdu_confirmed_request (?i @ tlv_bytes svc_get_name_list (?c @ ?s @ ?a))"
    by (cases cont) (simp_all add: encode_confirmed_request_def name_list_write_request_def w_put write_scope_put w_seq_simps)
  moreover have "length (scope_bytes scope) < 2 ^ 60 + 16"
    using assms(1) tlv_bytes_bound [of "tag_context 1 False" "as_bytes (case scope of DomainSpecific d \<Rightarrow> d | _ \<Rightarrow> [])"]
      tlv_bytes_bound [of "tag_context 0 False" "[]"]
    by (cases scope) (simp_all add: as_bytes_def)
  moreover have "length ?a < 2 ^ 60 + 16"
    using assms(2) tlv_bytes_bound [of "tag_context 2 False" "as_bytes (the cont)"]
    by (cases cont) (auto simp: as_bytes_def)
  ultimately show ?thesis
    using tlv_bytes_bound [of pdu_confirmed_request "?i @ tlv_bytes svc_get_name_list (?c @ ?s @ ?a)"]
      tlv_bytes_bound [of svc_get_name_list "?c @ ?s @ ?a"] tlv_bytes_bound [of "tag_context 1 True" "scope_bytes scope"]
      tlv_bytes_bound [of "tag_context 0 True" "tlv_bytes (tag_context 0 False) ?cl"]
      tlv_bytes_bound [of "tag_context 0 False" ?cl] length_encode_integer(2) [of "class_code cls"]
      tlv_bytes_bound [of u_integer "encode_integer (ucast i)"] length_encode_integer(2) [of "ucast i"]
    by (simp add: usize_limit_def)
qed

lemma in_source: "source_ok names \<Longrightarrow> n \<in> set names \<Longrightarrow> str_ok n \<and> length n < 2 ^ 60"
  using member_le_sum_list [of "length n + 15" "map (\<lambda>n. length n + 15) names"]
  by (auto simp: source_ok_def list_all_iff)

lemma page_answered:
  assumes ns: "namespace_ok sm" and src: "name_source sm cls scope = out @ rest"
    and ok: "source_ok (out @ rest)" "scope_ok scope" "case scope of DomainSpecific d \<Rightarrow> length d < 2 ^ 60 | VmdSpecific \<Rightarrow> True"
    and cont: "cont = (if out = [] then None else Some (last out))"
  shows "bindE (server_answers sm i (name_list_write_request \<lparr>nl_class = cls, nl_scope = scope, nl_continue_after = cont\<rparr>)) (\<lambda>pdu.
      bindE (parse_confirmed_response pdu) (\<lambda>cr. name_list_decode_response (cr_service cr))) =
    Inr \<lparr>nl_identifiers = take (sm_page_size sm) rest, nl_more_follows = (sm_page_size sm < length rest)\<rparr>" (is "_ = Inr ?page")
proof -
  let ?q = "\<lparr>nl_class = cls, nl_scope = scope, nl_continue_after = cont\<rparr>"
  have ca: "str_ok ca \<and> length ca < 2 ^ 60" if "cont = Some ca" for ca
    using that in_source [OF ok(1)] by (auto simp: cont split: if_splits)
  have "name_request_ok ?q" using ok(2) ca by (auto simp: name_request_ok_def)
  moreover have "length (encode_confirmed_request i (name_list_write_request ?q)) < usize_limit"
    using request_length [OF ok(3)] ca by (auto split: option.split)
  ultimately obtain s where s: "parse_confirmed_request (encode_confirmed_request i (name_list_write_request ?q)) = Inr (i, s)"
    "name_list_decode_request s = Inr ?q"
    using name_list.request_decoded [of ?q i] by auto
  have t: "list_all str_ok (take (sm_page_size sm) rest)"
    using ok(1) by (auto simp: source_ok_def list_all_iff dest: in_set_takeD)
  have "source_ok rest" using ok(1) by (simp add: source_ok_def)
  with name_page.response_decoded [of ?page i] page_length [of rest i "sm_page_size sm" "sm_page_size sm < length rest"] t
  obtain r where "parse_confirmed_response (encode_confirmed_response i (name_list_encode_response ?page)) =
      Inr \<lparr>cr_invoke_id = i, cr_service = r\<rparr>" "name_list_decode_response r = Inr ?page" by auto
  then show ?thesis
    by (simp add: server_answers_def handle_name_list_def s page_after [OF ns src cont])
qed

lemma name_loop:
  assumes "namespace_ok sm" "name_source sm cls scope = out @ rest"
    and "source_ok (out @ rest)" "scope_ok scope" "case scope of DomainSpecific d \<Rightarrow> length d < 2 ^ 60 | VmdSpecific \<Rightarrow> True"
    and "cont = (if out = [] then None else Some (last out))"
  shows "get_name_list_loop (server_answers sm) cls scope i cont out = Some (Inr (out @ rest))"
  using assms(2,3,6)
proof (induction "length rest" arbitrary: out rest cont i rule: less_induct)
  case less
  let ?p = "sm_page_size sm"
  have p: "0 < ?p" using assms(1) by (simp add: namespace_ok_def)
  note page = page_answered [OF assms(1) less.prems(1,2) assms(4,5) less.prems(3)]
  show ?case
  proof (cases "?p < length rest")
    case True
    then have ne: "take ?p rest \<noteq> []" using p by auto
    have "get_name_list_loop (server_answers sm) cls scope (i + 1) (Some (last (take ?p rest))) (out @ take ?p rest) =
        Some (Inr ((out @ take ?p rest) @ drop ?p rest))"
      using True p ne less.prems(1,2) by (intro less.hyps) auto
    then show ?thesis
      using True ne by (subst get_name_list_loop.simps) (simp add: page)
  next
    case False
    then show ?thesis by (subst get_name_list_loop.simps) (simp add: page)
  qed
qed

section \<open>A station\<close>

definition demo_setting :: data_attribute where
  "demo_setting = DataAttribute ''setVal'' FC_SG BtInt32 None None [] (da_trigger_options demo_attribute) (Some (value_new ''7'')) []"

text \<open>A station with a data set and its report control blocks, a setting with two groups, and a log.\<close>

definition demo_station :: model where
  "demo_station = insert_ied ''IED1''
     \<lparr>sv_logical_devices = [\<lparr>ld_inst = ''LD0'', ld_name = None, ld_logical_nodes =
       [\<lparr>ln_prefix = [], ln_class = ''LLN0'', ln_inst = [], ln_type = ''LLN0_0'', ln_desc = None,
         ln_data_objects = [DataObject ''Mod'' CDC_INC None False [demo_attribute, demo_setting] []],
         ln_data_sets = [], ln_report_controls = [], ln_setting_group_control = Some \<lparr>sg_num_of_sgs = 2, sg_act_sg = 1, sg_resv_tms = False\<rparr>,
         ln_log_controls = []\<rparr>]\<rparr>]\<rparr> model_new"

definition demo_ident :: identify_response where
  "demo_ident = \<lparr>id_vendor = [], id_model = [], id_revision = []\<rparr>"

lemma demo_items: "items_of (from_model demo_station demo_ident) ''IED1LD0'' = Some
   [''LLN0$SE$Mod$setVal'', ''LLN0$SG$Mod$setVal'', ''LLN0$SP$SGCB'', ''LLN0$SP$SGCB$ActSG'',
    ''LLN0$SP$SGCB$CnfEdit'', ''LLN0$SP$SGCB$EditSG'', ''LLN0$SP$SGCB$LActTm'', ''LLN0$SP$SGCB$NumOfSG'',
    ''LLN0$ST$Mod$stVal'']"
  by code_simp

lemma demo_source: "name_source (with_page_size n (from_model demo_station demo_ident)) ClassNamedVariable (DomainSpecific ''IED1LD0'') =
   [''LLN0$SE$Mod$setVal'', ''LLN0$SG$Mod$setVal'', ''LLN0$SP$SGCB'', ''LLN0$SP$SGCB$ActSG'',
    ''LLN0$SP$SGCB$CnfEdit'', ''LLN0$SP$SGCB$EditSG'', ''LLN0$SP$SGCB$LActTm'', ''LLN0$SP$SGCB$NumOfSG'',
    ''LLN0$ST$Mod$stVal'']"
proof -
  have "items_of (with_page_size n sm) d = items_of sm d" for sm d
    by (simp add: items_of_def with_page_size_def)
  then show ?thesis by (simp add: name_source_def demo_items unwrap_or_def)
qed

section \<open>Properties\<close>

text \<open>C14: A client that lists a server's domains, or the items of one, page after page over encoded units
  receives every name exactly once, in order, however small the pages are, and the listing ends.\<close>

theorem listing_complete:
  assumes "sm = with_page_size n (from_model m ident)" "source_ok (name_source sm cls scope)" "scope_ok scope"
    "case scope of DomainSpecific d \<Rightarrow> length d < 2 ^ 60 | VmdSpecific \<Rightarrow> True"
  shows "get_name_list_all (server_answers sm) cls scope i = Some (Inr (name_source sm cls scope)) \<and>
    sorted_wrt (<) (name_source sm cls scope)"
proof -
  have ns: "namespace_ok sm" using with_page_size_ok from_model_ok assms(1) by simp
  have "get_name_list_all (server_answers sm) cls scope i = Some (Inr (name_source sm cls scope))"
    unfolding get_name_list_all_def
    by (rule name_loop [OF ns, where out = "[]", simplified]) (use assms in auto)
  then show ?thesis using name_source_sorted [OF ns] by simp
qed

theorem listing_complete_witness:
  "get_name_list_all (server_answers (with_page_size 2 (from_model demo_station demo_ident)))
     ClassNamedVariable (DomainSpecific ''IED1LD0'') 7 = Some (Inr
   [''LLN0$SE$Mod$setVal'', ''LLN0$SG$Mod$setVal'', ''LLN0$SP$SGCB'', ''LLN0$SP$SGCB$ActSG'',
    ''LLN0$SP$SGCB$CnfEdit'', ''LLN0$SP$SGCB$EditSG'', ''LLN0$SP$SGCB$LActTm'', ''LLN0$SP$SGCB$NumOfSG'',
    ''LLN0$ST$Mod$stVal''])"
proof -
  have "source_ok (name_source (with_page_size 2 (from_model demo_station demo_ident)) ClassNamedVariable (DomainSpecific ''IED1LD0''))"
    by (simp add: demo_source source_ok_def str_ok_def as_bytes_def byte_of_char_def evals utf8_next.simps)
  from listing_complete [OF refl this, of 7] show ?thesis
    by (simp add: demo_source str_ok_def as_bytes_def byte_of_char_def evals utf8_next.simps)
qed

end
