(* ===== verification/SettingGroups.thy ===== *)
theory SettingGroups imports ServerNamespace begin

text \<open>
  The store the connections of a server share (\<open>crates/iec61850-mms/src/server.rs\<close>: \<open>apply_value\<close>,
  \<open>store_write\<close>, \<open>ServerHandle\<close>) and the setting groups over it: \<open>resolve_setting\<close>, \<open>handle_sg_write\<close> and
  \<open>confirm_edit_sg\<close>. A change is appended to the list of those sent to the broadcast channel; a
  handler holds the lock of the store, so each is one step. The abstract state of a setting group
  control block (active group, edited group, values of each group, staged values) is a function of
  the store, and the handlers refine its operations; the internal keys are apart from each other and
  from the names of the control block whenever no logical node name begins with an at sign.
\<close>

unbundle bit_operations_syntax

section \<open>The store and its changes\<close>

text \<open>What the connections share: the values, and the changes sent to the broadcast channel, oldest first.\<close>

record value_change =
  vc_domain :: string
  vc_item :: string
  vc_value :: mms_data

record shared =
  sh_store :: store
  sh_changes :: "value_change list"

definition apply_value :: "string \<Rightarrow> string \<Rightarrow> mms_data \<Rightarrow> shared \<Rightarrow> shared" where
  "apply_value domain item value sh =
    sh\<lparr>sh_store := AList.update (domain, item) value (sh_store sh),
       sh_changes := sh_changes sh @ [\<lparr>vc_domain = domain, vc_item = item, vc_value = value\<rparr>]\<rparr>"

definition store_write :: "string \<Rightarrow> string \<Rightarrow> mms_data \<Rightarrow> shared \<Rightarrow> write_result \<times> shared" where
  "store_write domain item value sh = (WriteSuccess, apply_value domain item value sh)"

text \<open>\<open>ServerHandle\<close>, the application's access to the store.\<close>

definition handle_set_value :: "object_reference \<Rightarrow> mms_data \<Rightarrow> shared \<Rightarrow> (mapping_error + unit) \<times> shared" where
  "handle_set_value obj value sh =
    (case object_reference_to_mms obj of
       Inl e \<Rightarrow> (Inl e, sh)
     | Inr (d, i) \<Rightarrow> (Inr (), apply_value d i value sh))"

definition handle_get_value :: "object_reference \<Rightarrow> shared \<Rightarrow> mms_data option" where
  "handle_get_value obj sh =
    (case object_reference_to_mms obj of Inl _ \<Rightarrow> None | Inr n \<Rightarrow> map_of (sh_store sh) n)"

definition handle_set_raw :: "string \<Rightarrow> string \<Rightarrow> mms_data \<Rightarrow> shared \<Rightarrow> shared" where
  "handle_set_raw = apply_value"

definition handle_get_raw :: "string \<Rightarrow> string \<Rightarrow> shared \<Rightarrow> mms_data option" where
  "handle_get_raw domain item sh = map_of (sh_store sh) (domain, item)"

section \<open>Setting groups\<close>

fun mms_u32 :: "mms_data \<Rightarrow> u32 option" where
  "mms_u32 (MUint u) = Some (ucast u)"
| "mms_u32 _ = None"

definition sgcb_u32 :: "store \<Rightarrow> string \<Rightarrow> string option \<Rightarrow> string \<Rightarrow> u32" where
  "sgcb_u32 store domain base attr =
    unwrap_or 0 (Option.bind (Option.bind base (\<lambda>b. map_of store (domain, dollar b attr))) mms_u32)"

text \<open>A group outside \<open>1..=NumOfSG\<close> stands for group 1.\<close>

definition clamp_group :: "u32 \<Rightarrow> u32 \<Rightarrow> u32" where
  "clamp_group num g = (if 1 \<le> g \<and> g \<le> num then g else 1)"

definition resolve_setting :: "server_model \<Rightarrow> store \<Rightarrow> string \<Rightarrow> setting_ref \<Rightarrow> mms_data option" where
  "resolve_setting sm store domain sr =
    (let base = sgcb_base sm domain in
     if sr_editable sr then
       (case map_of store (domain, sg_edit_key (sr_canonical sr)) of
          Some v \<Rightarrow> Some v
        | None \<Rightarrow>
          (let g = clamp_group (sr_num_of_sgs sr) (sgcb_u32 store domain base ''EditSG'')
           in map_of store (domain, sg_group_key g (sr_canonical sr))))
     else
       (let g = clamp_group (sr_num_of_sgs sr) (sgcb_u32 store domain base ''ActSG'')
        in map_of store (domain, sg_group_key g (sr_canonical sr))))"

text \<open>\<open>confirm_edit_sg\<close> collects the staged values first and then moves one after the other.\<close>

definition staged_values :: "string \<Rightarrow> store \<Rightarrow> (string \<times> mms_data) list" where
  "staged_values domain store =
    map (\<lambda>((d, it), v). (it, v)) (filter (\<lambda>((d, it), v). d = domain \<and> starts_with ''@se@'' it) store)"

definition confirm_one :: "string \<Rightarrow> u32 \<Rightarrow> string \<times> mms_data \<Rightarrow> store \<Rightarrow> store" where
  "confirm_one domain edit = (\<lambda>(edit_key, v) store.
     AList.delete (domain, edit_key)
       (case strip_prefix ''@se@'' edit_key of
          Some canonical \<Rightarrow> AList.update (domain, sg_group_key edit canonical) v store
        | None \<Rightarrow> store))"

definition confirm_edit_sg :: "server_model \<Rightarrow> string \<Rightarrow> store \<Rightarrow> store" where
  "confirm_edit_sg sm domain store =
    (let edit = sgcb_u32 store domain (sgcb_base sm domain) ''EditSG'' in
     if \<not> (1 \<le> edit \<and> edit \<le> unwrap_or 0 (num_setting_groups sm domain)) then store
     else fold (confirm_one domain edit) (staged_values domain store) store)"

definition group_exists :: "u32 \<Rightarrow> mms_data \<Rightarrow> bool" where
  "group_exists n value = (case value of MUint g \<Rightarrow> 1 \<le> g \<and> g \<le> ucast n | _ \<Rightarrow> False)"

fun handle_sg_write :: "server_model \<Rightarrow> string \<Rightarrow> string \<Rightarrow> mms_data \<Rightarrow> sg_write \<Rightarrow> shared \<Rightarrow> write_result \<times> shared" where
  "handle_sg_write sm domain item value SelectActive sh =
    (if group_exists (unwrap_or 0 (num_setting_groups sm domain)) value
     then store_write domain item value sh
     else (WriteFailure ObjectValueInvalid, sh))"
| "handle_sg_write sm domain item value SelectEdit sh =
    (if group_exists (unwrap_or 0 (num_setting_groups sm domain)) value
     then store_write domain item value sh
     else (WriteFailure ObjectValueInvalid, sh))"
| "handle_sg_write sm domain item value ConfirmEdit sh =
    (let sh = (if value = MBool True then sh\<lparr>sh_store := confirm_edit_sg sm domain (sh_store sh)\<rparr> else sh)
     in (WriteSuccess,
         (case sgcb_base sm domain of
            Some base \<Rightarrow> snd (store_write domain (dollar base ''CnfEdit'') (MBool False) sh)
          | None \<Rightarrow> sh)))"
| "handle_sg_write sm domain item value (EditValue sr) sh =
    store_write domain (sg_edit_key (sr_canonical sr)) value sh"
| "handle_sg_write sm domain item value ActiveValue sh = (WriteFailure ObjectAccessDenied, sh)"

section \<open>What a setting group control block promises\<close>

text \<open>The groups of settings of a domain: which group is active, which is edited, the value of each
  setting in each group and the values staged for the edited one.\<close>

record sg_state =
  sgs_active :: u32
  sgs_edited :: u32
  sgs_values :: "u32 \<Rightarrow> string \<Rightarrow> mms_data option"
  sgs_staged :: "string \<Rightarrow> mms_data option"

definition sg_abs :: "server_model \<Rightarrow> string \<Rightarrow> store \<Rightarrow> sg_state" where
  "sg_abs sm domain store =
    \<lparr>sgs_active = sgcb_u32 store domain (sgcb_base sm domain) ''ActSG'',
     sgs_edited = sgcb_u32 store domain (sgcb_base sm domain) ''EditSG'',
     sgs_values = (\<lambda>g c. map_of store (domain, sg_group_key g c)),
     sgs_staged = (\<lambda>c. map_of store (domain, sg_edit_key c))\<rparr>"

fun sg_step :: "u32 \<Rightarrow> sg_write \<Rightarrow> mms_data \<Rightarrow> sg_state \<Rightarrow> write_result \<times> sg_state" where
  "sg_step num SelectActive (MUint g) s =
    (if 1 \<le> g \<and> g \<le> ucast num then (WriteSuccess, s\<lparr>sgs_active := ucast g\<rparr>)
     else (WriteFailure ObjectValueInvalid, s))"
| "sg_step num SelectEdit (MUint g) s =
    (if 1 \<le> g \<and> g \<le> ucast num then (WriteSuccess, s\<lparr>sgs_edited := ucast g\<rparr>)
     else (WriteFailure ObjectValueInvalid, s))"
| "sg_step num ConfirmEdit v s =
    (WriteSuccess,
     if v = MBool True \<and> 1 \<le> sgs_edited s \<and> sgs_edited s \<le> num
     then s\<lparr>sgs_values := (sgs_values s)(sgs_edited s := sgs_values s (sgs_edited s) ++ sgs_staged s),
            sgs_staged := Map.empty\<rparr>
     else s)"
| "sg_step num (EditValue sr) v s = (WriteSuccess, s\<lparr>sgs_staged := (sgs_staged s)(sr_canonical sr \<mapsto> v)\<rparr>)"
| "sg_step num ActiveValue v s = (WriteFailure ObjectAccessDenied, s)"
| "sg_step num SelectActive _ s = (WriteFailure ObjectValueInvalid, s)"
| "sg_step num SelectEdit _ s = (WriteFailure ObjectValueInvalid, s)"

definition sg_read :: "u32 \<Rightarrow> setting_ref \<Rightarrow> sg_state \<Rightarrow> mms_data option" where
  "sg_read num sr s =
    (if sr_editable sr
     then or_else (sgs_staged s (sr_canonical sr)) (sgs_values s (clamp_group num (sgs_edited s)) (sr_canonical sr))
     else sgs_values s (clamp_group num (sgs_active s)) (sr_canonical sr))"

section \<open>The keys are apart\<close>

lemma digits_then_at:
  "show_nat m @ CHR ''@'' # c = show_nat n @ CHR ''@'' # c' \<longleftrightarrow> m = n \<and> c = c'"
proof
  have d: "takeWhile is_digit (show_nat k @ CHR ''@'' # x) = show_nat k" for k x
    using show_nat_digits [of k] by (simp add: takeWhile_append list_all_iff is_digit_def)
  assume "show_nat m @ CHR ''@'' # c = show_nat n @ CHR ''@'' # c'"
  then show "m = n \<and> c = c'" using d [of m c] d [of n c'] by (simp add: show_nat_inj)
qed simp

lemma group_key_eq [simp]: "sg_group_key g c = sg_group_key g' c' \<longleftrightarrow> g = g' \<and> c = c'"
  by (simp add: sg_group_key_def digits_then_at word_unat_eq_iff)

lemma edit_key_eq [simp]: "sg_edit_key c = sg_edit_key c' \<longleftrightarrow> c = c'"
  by (simp add: sg_edit_key_def)

lemma keys_apart [simp]: "sg_edit_key c \<noteq> sg_group_key g c'" "sg_group_key g c' \<noteq> sg_edit_key c"
  by (simp_all add: sg_edit_key_def sg_group_key_def)

lemma block_key_apart:
  assumes "\<not> starts_with ''@'' base"
  shows "dollar base a \<noteq> sg_edit_key c" "dollar base a \<noteq> sg_group_key g c"
    "sg_edit_key c \<noteq> dollar base a" "sg_group_key g c \<noteq> dollar base a"
  using assms by (cases base; simp add: dollar_def sg_edit_key_def sg_group_key_def starts_with_def)+

lemma dollar_eq [simp]: "dollar a b = dollar a c \<longleftrightarrow> b = c"
  by (simp add: dollar_def)

section \<open>Confirming\<close>

lemma map_of_update [simp]: "map_of (AList.update k v xs) = (map_of xs)(k \<mapsto> v)"
  by (rule AList.update_conv')

lemma map_of_delete [simp]: "map_of (AList.delete k xs) = (map_of xs)(k := None)"
  by (rule AList.delete_conv')

lemma strip_edit_key [simp]: "strip_prefix ''@se@'' (sg_edit_key c) = Some c"
  by (simp add: strip_prefix_eq sg_edit_key_def)

lemma confirm_one_edit:
  "map_of (confirm_one d e (sg_edit_key c, v) st) = (map_of st)((d, sg_group_key e c) \<mapsto> v, (d, sg_edit_key c) := None)"
  by (simp add: confirm_one_def)

definition edit_keys :: "(string \<times> mms_data) list \<Rightarrow> bool" where
  "edit_keys ps \<longleftrightarrow> distinct (map fst ps) \<and> (\<forall>p \<in> set ps. \<exists>c. fst p = sg_edit_key c)"

lemma edit_keys_Cons:
  "edit_keys (p # ps) \<longleftrightarrow> edit_keys ps \<and> (\<exists>c v. p = (sg_edit_key c, v) \<and> map_of ps (sg_edit_key c) = None)"
  unfolding edit_keys_def map_of_eq_None_iff by (cases p) auto

lemma fold_confirm_group:
  "edit_keys ps \<Longrightarrow> map_of (fold (confirm_one d e) ps st) (d, sg_group_key g c) =
    (if g = e then or_else (map_of ps (sg_edit_key c)) (map_of st (d, sg_group_key g c)) else map_of st (d, sg_group_key g c))"
  by (induction ps arbitrary: st) (auto simp: edit_keys_Cons confirm_one_edit or_else_def split: option.split)

lemma fold_confirm_edit:
  "edit_keys ps \<Longrightarrow> map_of (fold (confirm_one d e) ps st) (d, sg_edit_key c) =
    (if map_of ps (sg_edit_key c) = None then map_of st (d, sg_edit_key c) else None)"
  by (induction ps arbitrary: st) (auto simp: edit_keys_Cons confirm_one_edit)

lemma fold_confirm_other:
  "edit_keys ps \<Longrightarrow> d' \<noteq> d \<or> (\<forall>c. k \<noteq> sg_edit_key c \<and> k \<noteq> sg_group_key e c) \<Longrightarrow>
    map_of (fold (confirm_one d e) ps st) (d', k) = map_of st (d', k)"
  by (induction ps arbitrary: st) (auto simp: edit_keys_Cons confirm_one_edit)

text \<open>A store has one value for each name.\<close>

definition store_ok :: "store \<Rightarrow> bool" where
  "store_ok store \<longleftrightarrow> distinct (map fst store)"

lemma staged_edit_keys: "store_ok store \<Longrightarrow> edit_keys (staged_values d store)"
proof -
  have "map fst (staged_values d store) = map snd (filter (\<lambda>(d', it). d' = d \<and> starts_with ''@se@'' it) (map fst store))"
    by (induction store) (auto simp: staged_values_def)
  moreover assume "store_ok store"
  ultimately have "distinct (map fst (staged_values d store))"
    by (auto simp: store_ok_def distinct_map inj_on_def)
  moreover have "\<exists>c. it = sg_edit_key c" if "starts_with ''@se@'' it" for it
    using that strip_prefix_eq [of "''@se@''" it] by (auto simp: strip_prefix_def sg_edit_key_def)
  ultimately show ?thesis by (auto simp: edit_keys_def staged_values_def)
qed

lemma map_of_staged: "map_of (staged_values d store) (sg_edit_key c) = map_of store (d, sg_edit_key c)"
proof (induction store)
  case (Cons x store)
  have "starts_with ''@se@'' (sg_edit_key c)" by (simp add: starts_with_def sg_edit_key_def)
  then show ?case using Cons by (cases x) (auto simp: staged_values_def)
qed (simp add: staged_values_def)

lemma confirm_store_ok: "store_ok store \<Longrightarrow> store_ok (confirm_edit_sg sm d store)"
proof -
  have "store_ok (fold (confirm_one d e) ps st)" if "store_ok st" for ps e st
    using that by (rule fold_keeps) (auto simp: store_ok_def confirm_one_def distinct_update distinct_delete split: prod.split option.split)
  then show "store_ok store \<Longrightarrow> ?thesis" by (simp add: confirm_edit_sg_def Let_def)
qed

lemma apply_store_ok [simp]: "store_ok (sh_store sh) \<Longrightarrow> store_ok (sh_store (apply_value d i v sh))"
  by (simp add: apply_value_def store_ok_def distinct_update)

section \<open>Refinement\<close>

lemma sgcb_u32_other: "map_of st (d, dollar b a) = map_of st' (d, dollar b a) \<Longrightarrow>
    sgcb_u32 st d (Some b) a = sgcb_u32 st' d (Some b) a"
  by (simp add: sgcb_u32_def)

lemma sgcb_u32_None: "sgcb_u32 st d None a = 0"
  by (simp add: sgcb_u32_def unwrap_or_def)

definition base_apart :: "server_model \<Rightarrow> string \<Rightarrow> bool" where
  "base_apart sm d \<longleftrightarrow> is_none_or (\<lambda>b. \<not> starts_with ''@'' b) (sgcb_base sm d)"

lemma confirm_abs:
  assumes "store_ok st" "base_apart sm d" "num = unwrap_or 0 (num_setting_groups sm d)"
  shows "sg_abs sm d (confirm_edit_sg sm d st) = snd (sg_step num ConfirmEdit (MBool True) (sg_abs sm d st))"
proof (cases "1 \<le> sgcb_u32 st d (sgcb_base sm d) ''EditSG'' \<and> sgcb_u32 st d (sgcb_base sm d) ''EditSG'' \<le> num")
  case True
  let ?e = "sgcb_u32 st d (sgcb_base sm d) ''EditSG''"
  let ?st = "fold (confirm_one d ?e) (staged_values d st) st"
  have c: "confirm_edit_sg sm d st = ?st"
    using True assms(3) by (simp add: confirm_edit_sg_def)
  note k = staged_edit_keys [OF assms(1)]
  have "sgcb_u32 ?st d (sgcb_base sm d) a = sgcb_u32 st d (sgcb_base sm d) a" for a
  proof (cases "sgcb_base sm d")
    case (Some b)
    with assms(2) have "map_of ?st (d, dollar b a) = map_of st (d, dollar b a)"
      by (intro fold_confirm_other [OF k]) (simp add: base_apart_def is_none_or_def block_key_apart)
    then show ?thesis unfolding Some by (rule sgcb_u32_other)
  qed (simp add: sgcb_u32_None)
  moreover have "(\<lambda>c. map_of ?st (d, sg_edit_key c)) = Map.empty"
    by (simp add: fold_confirm_edit [OF k] map_of_staged fun_eq_iff)
  moreover have "(\<lambda>g c. map_of ?st (d, sg_group_key g c)) =
      (\<lambda>g c. map_of st (d, sg_group_key g c))(?e := (\<lambda>c. map_of st (d, sg_group_key ?e c)) ++ (\<lambda>c. map_of st (d, sg_edit_key c)))"
    by (auto simp: fold_confirm_group [OF k] map_of_staged fun_eq_iff map_add_def or_else_def)
  ultimately show ?thesis using True by (simp add: c sg_abs_def)
next
  case False
  then show ?thesis using assms(3) by (auto simp: sg_abs_def confirm_edit_sg_def)
qed

lemma write_block_abs:
  assumes "sgcb_base sm d = Some b" "base_apart sm d" "a \<noteq> ''ActSG''" "a \<noteq> ''EditSG''"
  shows "sg_abs sm d (AList.update (d, dollar b a) v st) = sg_abs sm d st"
  using assms by (simp add: sg_abs_def sgcb_u32_def base_apart_def is_none_or_def block_key_apart)

lemma write_selector_abs:
  assumes "sgcb_base sm d = Some b" "base_apart sm d"
  shows "sg_abs sm d (AList.update (d, dollar b ''ActSG'') (MUint g) st) = (sg_abs sm d st)\<lparr>sgs_active := ucast g\<rparr>"
    "sg_abs sm d (AList.update (d, dollar b ''EditSG'') (MUint g) st) = (sg_abs sm d st)\<lparr>sgs_edited := ucast g\<rparr>"
  using assms by (simp_all add: sg_abs_def sgcb_u32_def base_apart_def is_none_or_def block_key_apart unwrap_or_def)

lemma write_staged_abs:
  assumes "base_apart sm d"
  shows "sg_abs sm d (AList.update (d, sg_edit_key c) v st) =
    (sg_abs sm d st)\<lparr>sgs_staged := (sgs_staged (sg_abs sm d st))(c \<mapsto> v)\<rparr>"
  using assms by (cases "sgcb_base sm d")
    (auto simp: sg_abs_def sgcb_u32_def base_apart_def is_none_or_def block_key_apart unwrap_or_def fun_eq_iff)

lemma classified_selector:
  "classify_sg_write sm d item = Some SelectActive \<Longrightarrow> \<exists>b. sgcb_base sm d = Some b \<and> item = dollar b ''ActSG''"
  "classify_sg_write sm d item = Some SelectEdit \<Longrightarrow> \<exists>b. sgcb_base sm d = Some b \<and> item = dollar b ''EditSG''"
  by (auto simp: classify_sg_write_def or_else_def bind_eq_Some_conv split: option.splits if_splits)

lemma select_step:
  "w = SelectActive \<or> w = SelectEdit \<Longrightarrow> \<not> group_exists num v \<Longrightarrow> sg_step num w v s = (WriteFailure ObjectValueInvalid, s)"
  by (cases v) (auto simp: group_exists_def)

text \<open>C13: Setting groups do what their control block promises, whatever the order of the writes: selecting the
  active or the edited group is refused for a group that does not exist and changes nothing else,
  a setting written through its edit view is only staged, confirming moves every staged setting into the
  edited group and no other, and the view of the active group is read-only.\<close>

theorem setting_groups_refine:
  assumes "store_ok (sh_store sh)" "base_apart sm d" "classify_sg_write sm d item = Some w"
    "handle_sg_write sm d item v w sh = (r, sh')"
  shows "(r, sg_abs sm d (sh_store sh')) =
    sg_step (unwrap_or 0 (num_setting_groups sm d)) w v (sg_abs sm d (sh_store sh))"
proof (cases w)
  case SelectActive
  with classified_selector(1) assms(3) obtain b where "sgcb_base sm d = Some b" "item = dollar b ''ActSG''" by blast
  then show ?thesis
    using assms(2,4) select_step [of w] SelectActive write_selector_abs(1) [of sm d b]
    by (auto simp: store_write_def apply_value_def group_exists_def split: if_splits mms_data.splits)
next
  case SelectEdit
  with classified_selector(2) assms(3) obtain b where "sgcb_base sm d = Some b" "item = dollar b ''EditSG''" by blast
  then show ?thesis
    using assms(2,4) select_step [of w] SelectEdit write_selector_abs(2) [of sm d b]
    by (auto simp: store_write_def apply_value_def group_exists_def split: if_splits mms_data.splits)
next
  case ConfirmEdit
  have "sg_abs sm d (sh_store sh') = sg_abs sm d (if v = MBool True then confirm_edit_sg sm d (sh_store sh) else sh_store sh)"
    using assms(2,4) write_block_abs [of sm d _ "''CnfEdit''"] ConfirmEdit
    by (auto simp: store_write_def apply_value_def Let_def split: option.splits)
  then show ?thesis
    using assms(4) ConfirmEdit confirm_abs [OF assms(1,2) refl] by (auto simp: Let_def)
next
  case (EditValue sr)
  then show ?thesis using assms(2,4) write_staged_abs [of sm d] by (auto simp: store_write_def apply_value_def)
next
  case ActiveValue
  then show ?thesis using assms(4) by simp
qed

text \<open>Reading either view of a setting is the reading of the abstract state, and other domains are not touched.\<close>

lemma resolve_is_read:
  "find_setting sm d item = Some sr \<Longrightarrow> resolve_setting sm st d sr = sg_read (sr_num_of_sgs sr) sr (sg_abs sm d st)"
  by (simp add: resolve_setting_def sg_read_def sg_abs_def Let_def or_else_def split: option.split)

lemma sg_write_other_domain:
  assumes "store_ok (sh_store sh)" "handle_sg_write sm d item v w sh = (r, sh')" "d' \<noteq> d"
  shows "map_of (sh_store sh') (d', k) = map_of (sh_store sh) (d', k)"
proof -
  have "map_of (confirm_edit_sg sm d st) (d', k) = map_of st (d', k)" if "store_ok st" for st
    using fold_confirm_other [OF staged_edit_keys [OF that]] assms(3) by (simp add: confirm_edit_sg_def Let_def)
  then show ?thesis using assms
    by (cases w) (auto simp: store_write_def apply_value_def Let_def split: if_splits option.splits)
qed

lemma sg_write_store_ok:
  "store_ok (sh_store sh) \<Longrightarrow> handle_sg_write sm d item v w sh = (r, sh') \<Longrightarrow> store_ok (sh_store sh')"
  by (cases w) (auto simp: store_write_def Let_def confirm_store_ok split: if_splits option.splits)

lemma demo_sgcb: "sgcb_base (from_model demo_station demo_ident) ''IED1LD0'' = Some ''LLN0$SP$SGCB''"
    "num_setting_groups (from_model demo_station demo_ident) ''IED1LD0'' = Some 2"
  by code_simp+

theorem setting_groups_refine_witness:
  "\<exists>sh'. handle_sg_write (from_model demo_station demo_ident) ''IED1LD0'' ''LLN0$SP$SGCB$CnfEdit'' (MBool True) ConfirmEdit
      \<lparr>sh_store = [((''IED1LD0'', ''LLN0$SP$SGCB$EditSG''), MUint 2), ((''IED1LD0'', ''@se@LLN0$Mod$setVal''), MInt 9)],
       sh_changes = []\<rparr> = (WriteSuccess, sh') \<and>
    sgs_values (sg_abs (from_model demo_station demo_ident) ''IED1LD0'' (sh_store sh')) 2 ''LLN0$Mod$setVal'' = Some (MInt 9) \<and>
    sgs_staged (sg_abs (from_model demo_station demo_ident) ''IED1LD0'' (sh_store sh')) ''LLN0$Mod$setVal'' = None"
    (is "\<exists>sh'. handle_sg_write ?sm ?d ?i ?v ?w ?sh = _ \<and> _ \<and> _")
proof -
  have ok: "store_ok (sh_store ?sh)" "base_apart ?sm ?d" "classify_sg_write ?sm ?d ?i = Some ?w"
    by (simp_all add: store_ok_def base_apart_def is_none_or_def starts_with_def classify_sg_write_def demo_sgcb dollar_def)
  obtain r sh' where h: "handle_sg_write ?sm ?d ?i ?v ?w ?sh = (r, sh')" by force
  have "(r, sg_abs ?sm ?d (sh_store sh')) = sg_step (unwrap_or 0 (num_setting_groups ?sm ?d)) ?w ?v (sg_abs ?sm ?d (sh_store ?sh))"
    by (rule setting_groups_refine [OF ok h])
  then have a: "r = WriteSuccess" "sg_abs ?sm ?d (sh_store sh') = snd (sg_step 2 ?w ?v (sg_abs ?sm ?d (sh_store ?sh)))"
    by (simp_all add: demo_sgcb unwrap_or_def)
  have "sgs_edited (sg_abs ?sm ?d (sh_store ?sh)) = 2" "sgs_staged (sg_abs ?sm ?d (sh_store ?sh)) ''LLN0$Mod$setVal'' = Some (MInt 9)"
    by (simp_all add: sg_abs_def demo_sgcb sgcb_u32_def dollar_def unwrap_or_def sg_edit_key_def)
  then show ?thesis using h by (simp add: a map_add_def)
qed

end
