(* ===== verification/Control.thy ===== *)
theory Control imports SettingGroups ReportPdu begin

text \<open>
  The control model (\<open>crates/iec61850-mms/src/control.rs\<close>; in \<open>server.rs\<close> \<open>operate\<close>, the selections,
  \<open>ctl_model_of\<close>, \<open>sbo_timeout_of\<close>, \<open>last_appl_error_for\<close>; in \<open>client.rs\<close> \<open>control_item\<close>,
  \<open>map_control_failure\<close>, \<open>operate_enhanced\<close>, \<open>select\<close>). The clock is an argument in milliseconds. A
  command is a function of the selections of its connection and of the shared state; the services on
  control objects over a connection are a step relation in which the rest of the server may change
  the shared state at any time. The lemmas show what a command changes and when, that each grant of
  select-before-operate lets at most one command through, and that the cause of a refusal reaches
  the caller.
\<close>

unbundle bit_operations_syntax

section \<open>Texts\<close>

text \<open>\<open>str::replacen(p, r, 1)\<close>, \<open>str::replace\<close> and \<open>str::trim_end_matches\<close> for a pattern with at least one character.\<close>

definition replace_first :: "'a list \<Rightarrow> 'a list \<Rightarrow> 'a list \<Rightarrow> 'a list" where
  "replace_first p r s = (case find_text p s of
     Some i \<Rightarrow> take i s @ r @ drop (i + length p) s
   | None \<Rightarrow> s)"

function replace_all :: "'a list \<Rightarrow> 'a list \<Rightarrow> 'a list \<Rightarrow> 'a list" where
  "replace_all p r [] = []"
| "replace_all p r (x # s) =
    (if p \<noteq> [] \<and> starts_with p (x # s) then r @ replace_all p r (drop (length p) (x # s))
     else x # replace_all p r s)"
  by pat_completeness auto
termination
  by (relation "measure (\<lambda>(p, r, s). length s)") (auto simp: neq_Nil_conv)

function trim_end_text :: "'a list \<Rightarrow> 'a list \<Rightarrow> 'a list" where
  "trim_end_text p s =
    (if p \<noteq> [] \<and> s \<noteq> [] \<and> ends_with p s then trim_end_text p (take (length s - length p) s) else s)"
  by pat_completeness auto
termination
  by (relation "measure (\<lambda>(p, s). length s)") (auto simp: neq_Nil_conv)

declare trim_end_text.simps [simp del]

section \<open>Causes\<close>

definition cause_unknown :: u64 where "cause_unknown = 0"
definition cause_not_supported :: u64 where "cause_not_supported = 1"
definition cause_blocked_by_interlocking :: u64 where "cause_blocked_by_interlocking = 10"
definition cause_time_limit_over :: u64 where "cause_time_limit_over = 16"
definition cause_object_not_selected :: u64 where "cause_object_not_selected = 18"

section \<open>Parameters of a command\<close>

datatype or_cat = OrNotSupported | OrBayControl | OrStationControl | OrRemoteControl | OrAutomaticBay
  | OrAutomaticStation | OrAutomaticRemote | OrMaintenance | OrProcess

fun or_cat_code :: "or_cat \<Rightarrow> u64" where
  "or_cat_code OrNotSupported = 0"
| "or_cat_code OrBayControl = 1"
| "or_cat_code OrStationControl = 2"
| "or_cat_code OrRemoteControl = 3"
| "or_cat_code OrAutomaticBay = 4"
| "or_cat_code OrAutomaticStation = 5"
| "or_cat_code OrAutomaticRemote = 6"
| "or_cat_code OrMaintenance = 7"
| "or_cat_code OrProcess = 8"

text \<open>The timeout is in milliseconds.\<close>

record control_parameters =
  cp_orig_category :: or_cat
  cp_orig_ident :: bytes
  cp_ctl_num :: u8
  cp_test :: bool
  cp_check :: "bool \<times> bool"
  cp_select_timeout :: nat

definition default_parameters :: control_parameters where
  "default_parameters = \<lparr>cp_orig_category = OrBayControl, cp_orig_ident = as_bytes ''iec61850-rs'', cp_ctl_num = 0,
     cp_test = False, cp_check = (False, False), cp_select_timeout = 5000\<rparr>"

text \<open>The time stamp of a command, from the nanoseconds since 1970 that the clock gives (\<open>None\<close>: before).\<close>

definition utc_of_nanos :: "nat option \<Rightarrow> utc_time" where
  "utc_of_nanos clock =
    (case clock of
       None \<Rightarrow> replicate 7 0
     | Some t \<Rightarrow>
       (let secs = t div 1000000000; frac = (t mod 1000000000) * 2 ^ 24 div 1000000000
        in to_be (word_of_nat secs :: u32) @ drop 1 (to_be (word_of_nat frac :: u32)))) @ [0x0A]"

definition build_oper :: "mms_data \<Rightarrow> control_parameters \<Rightarrow> utc_time \<Rightarrow> mms_data" where
  "build_oper ctl_val params t =
    MStructure
      [ctl_val,
       MStructure [MInt (or_cat_code (cp_orig_category params)), MOctets (cp_orig_ident params)],
       MUint (ucast (cp_ctl_num params)),
       MUtc t,
       MBool (cp_test params),
       MBitString (bits_from [fst (cp_check params), snd (cp_check params)])]"

text \<open>The name of a component of a control object; the constraint is CO when the reference has none.\<close>

definition control_item :: "object_reference \<Rightarrow> string \<Rightarrow> mms_error + string \<times> string" where
  "control_item do_control component =
    map_errE MeMapping (object_reference_to_mms
      (do_control\<lparr>or_fc := Some (unwrap_or FC_CO (or_fc do_control)), or_path := or_path do_control @ [component]\<rparr>))"

section \<open>The control model of an object\<close>

definition cf_of_co :: "string \<Rightarrow> string \<Rightarrow> string option" where
  "cf_of_co co_base attr =
    (case split_on (CHR ''$'') co_base of
       ln # co # doi # _ \<Rightarrow> if co \<noteq> ''CO'' then None else Some (dollar ln (dollar ''CF'' (dollar doi attr)))
     | _ \<Rightarrow> None)"

text \<open>\<open>ctlModel\<close>, an \<open>i64\<close>; 0 (status-only) when it is not defined.\<close>

definition ctl_model_of :: "store \<Rightarrow> string \<Rightarrow> string \<Rightarrow> u64" where
  "ctl_model_of store domain co_base =
    (case Option.bind (cf_of_co co_base ''ctlModel'') (\<lambda>cf. map_of store (domain, cf)) of
       Some (MInt n) \<Rightarrow> n
     | Some (MUint n) \<Rightarrow> n
     | _ \<Rightarrow> 0)"

definition default_sbo_timeout_ms :: u64 where
  "default_sbo_timeout_ms = 30000"

definition sbo_timeout_of :: "store \<Rightarrow> string \<Rightarrow> string \<Rightarrow> nat" where
  "sbo_timeout_of store domain co_base =
    (let ms = (case Option.bind (cf_of_co co_base ''sboTimeout'') (\<lambda>cf. map_of store (domain, cf)) of
         Some (MInt n) \<Rightarrow> if sint n < 0 then 0 else n
       | Some (MUint n) \<Rightarrow> n
       | _ \<Rightarrow> 0)
     in unat (if ms = 0 then default_sbo_timeout_ms else ms))"

definition sbo_model :: "u64 \<Rightarrow> bool" where
  "sbo_model kind \<longleftrightarrow> kind = 2 \<or> kind = 4"

text \<open>The error that goes with a refused command: origin and number are those of the command.\<close>

definition last_appl_error_of :: "string \<Rightarrow> string \<Rightarrow> mms_data \<Rightarrow> u64 \<Rightarrow> last_appl_error" where
  "last_appl_error_of domain oper_item oper cause =
    (let (or_cat, or_ident, ctl_num) =
       (case oper of
          MStructure f \<Rightarrow>
            (let (cat, ident) = (case get_at f 1 of
                 Some (MStructure p) \<Rightarrow>
                   ((case get_at p 0 of Some (MInt n) \<Rightarrow> n | Some (MUint n) \<Rightarrow> n | _ \<Rightarrow> 0),
                    (case get_at p 1 of Some (MOctets b) \<Rightarrow> b | _ \<Rightarrow> []))
               | _ \<Rightarrow> (0, []))
             in (cat, ident, (case get_at f 2 of Some (MUint n) \<Rightarrow> n | Some (MInt n) \<Rightarrow> n | _ \<Rightarrow> 0)))
        | _ \<Rightarrow> (0, [], 0))
     in \<lparr>lae_cntrl_obj = domain @ ''/'' @ oper_item, lae_error = 1, lae_or_cat = or_cat, lae_or_ident = or_ident,
         lae_ctl_num = ctl_num, lae_add_cause = cause\<rparr>)"

definition last_appl_error_for :: "string \<Rightarrow> string \<Rightarrow> mms_data \<Rightarrow> u64 \<Rightarrow> bytes" where
  "last_appl_error_for domain oper_item oper cause = encode_last_appl_error (last_appl_error_of domain oper_item oper cause)"

section \<open>Selections\<close>

text \<open>The selections of a connection, with the millisecond at which each expires.\<close>

type_synonym selections = "variable_name \<rightharpoonup> nat"

text \<open>Reading \<open>$SBO\<close>: \<open>None\<close> when the name is not one.\<close>

definition read_sbo :: "nat \<Rightarrow> store \<Rightarrow> string \<Rightarrow> string \<Rightarrow> selections \<Rightarrow> (access_result \<times> selections) option" where
  "read_sbo now store domain item sels =
    map_option (\<lambda>base.
      if \<not> sbo_model (ctl_model_of store domain base) then (AccessSuccess (MVisible []), sels)
      else (AccessSuccess (MVisible item), sels((domain, base) \<mapsto> now + sbo_timeout_of store domain base)))
    (strip_suffix ''$SBO'' item)"

text \<open>Writing \<open>$SBOw\<close>: the result, the units sent before it, and the selections.\<close>

definition write_sbow :: "nat \<Rightarrow> store \<Rightarrow> string \<Rightarrow> string \<Rightarrow> string \<Rightarrow> mms_data \<Rightarrow> selections \<Rightarrow> write_result \<times> bytes list \<times> selections" where
  "write_sbow now store domain item base value sels =
    (if sbo_model (ctl_model_of store domain base)
     then (WriteSuccess, [], sels((domain, base) \<mapsto> now + sbo_timeout_of store domain base))
     else (WriteFailure ObjectAccessDenied, [last_appl_error_for domain item value cause_not_supported], sels))"

definition write_cancel :: "string \<Rightarrow> string \<Rightarrow> selections \<Rightarrow> selections" where
  "write_cancel domain item sels =
    (case strip_suffix ''$Cancel'' item of Some base \<Rightarrow> sels((domain, base) := None) | None \<Rightarrow> sels)"

section \<open>Operate\<close>

text \<open>The value and the interlock check of \<open>{ctlVal, origin, ctlNum, T, Test, Check}\<close>, or of a plain value.\<close>

definition oper_parts :: "mms_data \<Rightarrow> mms_data \<times> bool" where
  "oper_parts value =
    (case value of
       MStructure (v # fs) \<Rightarrow>
         (v, (case get_at (v # fs) 5 of Some (MBitString b) \<Rightarrow> bs_bit b 0 | _ \<Rightarrow> False))
     | _ \<Rightarrow> (value, False))"

definition status_item_of :: "string \<Rightarrow> string" where
  "status_item_of oper_item = replace_all ''$Oper'' ''$stVal'' (replace_first ''$CO$'' ''$ST$'' oper_item)"

definition interlocked :: "store \<Rightarrow> string \<Rightarrow> string \<Rightarrow> bool" where
  "interlocked store domain co_base =
    (case cf_of_co co_base ''intlckBlk'' of
       Some cf \<Rightarrow> map_of store (domain, cf) = Some (MBool True)
     | None \<Rightarrow> False)"

text \<open>Why a selection does not let a command through, if it does not.\<close>

definition selection_cause :: "nat \<Rightarrow> nat option \<Rightarrow> u64 option" where
  "selection_cause now sel =
    (case sel of
       None \<Rightarrow> Some cause_object_not_selected
     | Some expires \<Rightarrow> if expires \<le> now then Some cause_time_limit_over else None)"

text \<open>\<open>operate\<close>: the result, the unsolicited units, the selections and the shared state.\<close>

definition operate ::
  "server_model \<Rightarrow> nat \<Rightarrow> string \<Rightarrow> string \<Rightarrow> mms_data \<Rightarrow> selections \<Rightarrow> shared \<Rightarrow> write_result \<times> bytes list \<times> selections \<times> shared" where
  "operate sm now domain oper_item value sels sh =
    (let (ctl_val, interlock_check) = oper_parts value;
         status_item = status_item_of oper_item
     in if \<not> sm_contains sm domain status_item then (WriteFailure ObjectNonExistent, [], sels, sh)
     else let co_base = trim_end_text ''$Oper'' oper_item;
         kind = ctl_model_of (sh_store sh) domain co_base;
         blocked = (interlock_check \<and> interlocked (sh_store sh) domain co_base);
         enhanced = (kind = 3 \<or> kind = 4);
         lae = last_appl_error_for domain oper_item value
     in if \<not> (1 \<le> sint kind \<and> sint kind \<le> 4)
        then (WriteFailure ObjectAccessDenied, [lae cause_not_supported], sels, sh)
     else let cause = (if sbo_model kind then selection_cause now (sels (domain, co_base)) else None);
         sels = (if sbo_model kind then sels((domain, co_base) := None) else sels)
     in case cause of
       Some cause \<Rightarrow> (WriteFailure ObjectAccessDenied, [lae cause], sels, sh)
     | None \<Rightarrow>
       if \<not> enhanced then
         (if blocked then (WriteFailure ObjectAccessDenied, [lae cause_blocked_by_interlocking], sels, sh)
          else (WriteSuccess, [], sels, apply_value domain status_item ctl_val sh))
       else if blocked then
         (WriteSuccess, [lae cause_blocked_by_interlocking,
            encode_command_termination domain oper_item value False (dae_to_code TemporarilyUnavailable)], sels, sh)
       else (WriteSuccess, [encode_command_termination domain oper_item value True 0], sels,
             apply_value domain status_item ctl_val sh))"

section \<open>The client's side\<close>

text \<open>\<open>map_control_failure\<close>: a refusal with a kept error about the same object becomes its cause.\<close>

definition map_control_failure ::
  "string \<Rightarrow> mms_error + unit \<Rightarrow> last_appl_error option \<Rightarrow> (mms_error + unit) \<times> last_appl_error option" where
  "map_control_failure item res kept =
    (case res of
       Inr _ \<Rightarrow> (Inr (), kept)
     | Inl e \<Rightarrow>
       (case kept of
          Some lae \<Rightarrow> if ends_with item (lae_cntrl_obj lae) then (Inl (MeControlTerminated (lae_add_cause lae)), None)
                      else (Inl e, kept)
        | None \<Rightarrow> (Inl e, kept)))"

text \<open>What \<open>operate_enhanced\<close> makes of the terminations of its subscription, one after the other: its result,
  or \<open>None\<close> while it waits. \<open>TeTimeout\<close> is the end of the waiting time.\<close>

datatype termination_event = TeTermination command_termination | TeLagged | TeClosed | TeTimeout

fun await_termination :: "string \<Rightarrow> termination_event list \<Rightarrow> (mms_error + unit) option" where
  "await_termination item [] = None"
| "await_termination item (TeTermination ct # es) =
    (if ct_object_item ct = item
     then Some (if ct_positive ct then Inr () else Inl (MeControlTerminated (unwrap_or 0 (ct_add_cause ct))))
     else await_termination item es)"
| "await_termination item (TeLagged # es) = await_termination item es"
| "await_termination item (TeClosed # es) = Some (Inl MeConnectionClosed)"
| "await_termination item (TeTimeout # es) = Some (Inl MeControlTimeout)"

definition select_granted :: "access_result \<Rightarrow> mms_error + bool" where
  "select_granted r =
    (case r of
       AccessSuccess (MVisible s) \<Rightarrow> Inr (s \<noteq> [])
     | AccessSuccess _ \<Rightarrow> Inr True
     | AccessFailure e \<Rightarrow> Inl (MeDataAccess e))"

section \<open>Names of control objects\<close>

text \<open>The name of a component of a data object, whose parts hold no separator.\<close>

definition do_item :: "string \<Rightarrow> string \<Rightarrow> string \<Rightarrow> string \<Rightarrow> string" where
  "do_item ln fc d x = dollar ln (dollar fc (dollar d x))"

lemma starts_with_before: "c \<notin> set y \<Longrightarrow> starts_with y (d @ c # s) \<longleftrightarrow> starts_with y d"
proof (induction y arbitrary: d)
  case (Cons a y)
  then show ?case by (cases d) auto
qed simp

lemma find_text_skip: "c \<notin> set a \<Longrightarrow> find_text (c # p) (a @ s) = map_option ((+) (length a)) (find_text (c # p) s)"
proof (induction a)
  case Nil
  then show ?case by (cases "find_text (c # p) s") auto
next
  case (Cons x a)
  then show ?case by (cases "find_text (c # p) s") auto
qed

lemma replace_all_skip: "c \<notin> set a \<Longrightarrow> replace_all (c # p) r (a @ s) = a @ replace_all (c # p) r s"
  by (induction a) auto

lemma find_text_here: "starts_with p (x # s) \<Longrightarrow> find_text p (x # s) = Some 0"
  by simp

lemma split_plain: "CHR ''$'' \<notin> set a \<Longrightarrow> split_on (CHR ''$'') a = [a]"
  by (induction a) auto

lemma split_dollar: "CHR ''$'' \<notin> set a \<Longrightarrow> split_on (CHR ''$'') (dollar a b) = a # split_on (CHR ''$'') b"
  by (induction a) (auto simp: dollar_def)

lemma status_of_oper:
  assumes "name_part ln" "name_part d" "\<not> starts_with ''Oper'' d"
  shows "status_item_of (do_item ln ''CO'' d ''Oper'') = do_item ln ''ST'' d ''stVal''"
proof -
  have n: "CHR ''$'' \<notin> set ln" "CHR ''$'' \<notin> set d" using assms by (auto simp: name_part_def)
  have "find_text ''$CO$'' (ln @ ''$CO$'' @ d @ ''$Oper'') = Some (length ln)"
    by (simp add: find_text_skip n)
  then have "replace_first ''$CO$'' ''$ST$'' (do_item ln ''CO'' d ''Oper'') = ln @ ''$ST$'' @ d @ ''$Oper''"
    by (simp add: replace_first_def do_item_def dollar_def)
  moreover have "replace_all ''$Oper'' r (CHR ''$'' # d @ ''$Oper'') = CHR ''$'' # d @ r" for r
    using assms(3) n starts_with_before [of "CHR ''$''" "''Oper''" d "''Oper''"] by (simp add: replace_all_skip)
  ultimately show ?thesis
    by (simp add: status_item_of_def do_item_def dollar_def replace_all_skip n)
qed

lemma ends_with_iff: "ends_with w s \<longleftrightarrow> (\<exists>z. s = z @ w)"
proof
  assume "ends_with w s"
  then have "s = take (length s - length w) s @ w"
    by (metis append_take_drop_id ends_with_def)
  then show "\<exists>z. s = z @ w" ..
qed (auto simp: ends_with_def)

lemma trim_oper:
  assumes "\<not> ends_with ''$Oper'' s"
  shows "trim_end_text ''$Oper'' (s @ ''$Oper'') = s"
proof -
  have "trim_end_text ''$Oper'' (s @ ''$Oper'') = trim_end_text ''$Oper'' s"
    by (subst trim_end_text.simps) (simp add: ends_with_def)
  then show ?thesis using assms by (subst (asm) (2) trim_end_text.simps) simp
qed

lemma ends_with_dollar:
  assumes "CHR ''$'' \<notin> set d" "d \<noteq> ''Oper''"
  shows "\<not> ends_with ''$Oper'' (x @ ''$'' @ d)"
proof
  have t: "takeWhile (\<lambda>c. c \<noteq> CHR ''$'') (rev (y @ ''$'' @ e)) = rev e" if "CHR ''$'' \<notin> set e" for y e
    using that by (auto simp: takeWhile_append)
  assume "ends_with ''$Oper'' (x @ ''$'' @ d)"
  then obtain z where "x @ ''$'' @ d = z @ ''$'' @ ''Oper''"
    unfolding ends_with_iff by auto
  then have "rev d = rev ''Oper''"
    using t [of d x] t [of "''Oper''" z] assms(1) by simp
  then show False using assms(2) by (metis rev_rev_ident)
qed

lemma co_base_of_oper:
  assumes "name_part ln" "name_part d" "d \<noteq> ''Oper''"
  shows "trim_end_text ''$Oper'' (do_item ln ''CO'' d ''Oper'') = dollar ln (dollar ''CO'' d)"
  using trim_oper [OF ends_with_dollar [of d "ln @ ''$CO''"]] assms by (simp add: do_item_def dollar_def name_part_def)

lemma cf_of_base:
  assumes "name_part ln" "name_part d"
  shows "cf_of_co (dollar ln (dollar ''CO'' d)) attr = Some (do_item ln ''CF'' d attr)"
  using assms by (simp add: cf_of_co_def split_dollar split_plain name_part_def do_item_def dollar_def [of "''CO''"])

section \<open>What a command does\<close>

text \<open>The control object \<open>d\<close> of a logical node, as the store configures it.\<close>

definition co_kind :: "store \<Rightarrow> string \<Rightarrow> string \<Rightarrow> string \<Rightarrow> int" where
  "co_kind st domain ln d =
    (case map_of st (domain, do_item ln ''CF'' d ''ctlModel'') of
       Some (MInt n) \<Rightarrow> sint n | Some (MUint n) \<Rightarrow> sint n | _ \<Rightarrow> 0)"

definition co_locked :: "store \<Rightarrow> string \<Rightarrow> string \<Rightarrow> string \<Rightarrow> mms_data \<Rightarrow> bool" where
  "co_locked st domain ln d value \<longleftrightarrow>
    snd (oper_parts value) \<and> map_of st (domain, do_item ln ''CF'' d ''intlckBlk'') = Some (MBool True)"

definition co_selected :: "nat \<Rightarrow> selections \<Rightarrow> string \<Rightarrow> string \<Rightarrow> string \<Rightarrow> bool" where
  "co_selected now sels domain ln d \<longleftrightarrow> is_some_and (\<lambda>e. now < e) (sels (domain, dollar ln (dollar ''CO'' d)))"

text \<open>The object accepts the command: it exists, it is operable, and under select-before-operate it is selected.\<close>

definition co_accepts :: "server_model \<Rightarrow> nat \<Rightarrow> selections \<Rightarrow> store \<Rightarrow> string \<Rightarrow> string \<Rightarrow> string \<Rightarrow> bool" where
  "co_accepts sm now sels st domain ln d \<longleftrightarrow>
    sm_contains sm domain (do_item ln ''ST'' d ''stVal'') \<and> co_kind st domain ln d \<in> {1..4} \<and>
    (co_kind st domain ln d \<in> {2, 4} \<longrightarrow> co_selected now sels domain ln d)"

lemma sint_small:
  fixes k :: u64
  assumes "n \<in> {1..4}"
  shows "sint k = n \<longleftrightarrow> k = word_of_int n"
proof -
  have "n = 1 \<or> n = 2 \<or> n = 3 \<or> n = 4" using assms by auto
  then have n: "sint (word_of_int n :: u64) = n" by auto
  show ?thesis
  proof
    assume "sint k = n"
    with n have "sint k = sint (word_of_int n :: u64)" by simp
    then show "k = word_of_int n" by (rule signed_word_eqI)
  qed (simp add: n)
qed

lemma kind_cases:
  fixes k :: u64
  assumes "sint k = n"
  shows "k = 1 \<longleftrightarrow> n = 1" "k = 2 \<longleftrightarrow> n = 2" "k = 3 \<longleftrightarrow> n = 3" "k = 4 \<longleftrightarrow> n = 4"
  using assms sint_small [of 1 k] sint_small [of 2 k] sint_small [of 3 k] sint_small [of 4 k] by auto

lemma ctl_model_kind:
  "name_part ln \<Longrightarrow> name_part d \<Longrightarrow> sint (ctl_model_of st domain (dollar ln (dollar ''CO'' d))) = co_kind st domain ln d"
  by (simp add: ctl_model_of_def cf_of_base co_kind_def split: option.split mms_data.split)

lemma interlocked_co:
  "name_part ln \<Longrightarrow> name_part d \<Longrightarrow>
    (snd (oper_parts v) \<and> interlocked st domain (dollar ln (dollar ''CO'' d))) = co_locked st domain ln d v"
  by (simp add: interlocked_def cf_of_base co_locked_def)

lemma selection_cause_None: "selection_cause now s = None \<longleftrightarrow> is_some_and (\<lambda>e. now < e) s"
  by (cases s) (auto simp: selection_cause_def is_some_and_def)

text \<open>C10: A command changes the process value of its object, and nothing else, exactly when the object exists
  and is operable, is selected and the selection has not expired under select-before-operate, and is not
  blocked by an interlock the command asks to check; in every other case the store and its changes
  are untouched. The write succeeds exactly then, or when an enhanced object reports the block in
  its termination.\<close>

theorem command_effect:
  assumes "name_part ln" "name_part d" "\<not> starts_with ''Oper'' d"
    "operate sm now domain (do_item ln ''CO'' d ''Oper'') value sels sh = (r, units, sels', sh')"
  shows "sh' = (if co_accepts sm now sels (sh_store sh) domain ln d \<and> \<not> co_locked (sh_store sh) domain ln d value
      then apply_value domain (do_item ln ''ST'' d ''stVal'') (fst (oper_parts value)) sh else sh) \<and>
    (r = WriteSuccess \<longleftrightarrow> co_accepts sm now sels (sh_store sh) domain ln d \<and>
      (co_locked (sh_store sh) domain ln d value \<longrightarrow> co_kind (sh_store sh) domain ln d \<in> {3, 4}))"
proof -
  let ?k = "ctl_model_of (sh_store sh) domain (dollar ln (dollar ''CO'' d))"
  have "d \<noteq> ''Oper''" using assms(3) by (auto simp: starts_with_def)
  then have b: "trim_end_text ''$Oper'' (do_item ln ''CO'' d ''Oper'') = dollar ln (dollar ''CO'' d)"
    by (rule co_base_of_oper [OF assms(1,2)])
  note kc = kind_cases [OF ctl_model_kind [OF assms(1,2)], of "sh_store sh" domain]
  have rg: "1 \<le> sint ?k \<and> sint ?k \<le> 4 \<longleftrightarrow> co_kind (sh_store sh) domain ln d \<in> {1..4}"
    by (simp add: ctl_model_kind [OF assms(1,2)])
  obtain c i where p: "oper_parts value = (c, i)" by force
  have l: "i \<and> interlocked (sh_store sh) domain (dollar ln (dollar ''CO'' d)) \<longleftrightarrow> co_locked (sh_store sh) domain ln d value"
    using interlocked_co [OF assms(1,2), of "value"] p by simp
  show ?thesis
    using assms(4) selection_cause_None [of now "sels (domain, dollar ln (dollar ''CO'' d))"]
    unfolding operate_def b status_of_oper [OF assms(1-3)] sbo_model_def kc rg l p Let_def prod.case
    by (auto simp: co_accepts_def co_selected_def split: if_splits option.splits)
qed

section \<open>Select before operate\<close>

text \<open>The services on control objects over one connection, the rest of the server changing the shared state
  in between, and what is observed of each.\<close>

datatype ctl_event =
    EvSelect string string
  | EvSelectWith string string mms_data
  | EvCancel string string
  | EvOperate string string mms_data
  | EvShared shared

datatype ctl_outcome = Granted variable_name nat | Executed variable_name nat | Cancelled variable_name | Unobserved

fun ctl_step :: "server_model \<Rightarrow> nat \<Rightarrow> ctl_event \<Rightarrow> selections \<times> shared \<Rightarrow> ctl_outcome \<times> selections \<times> shared" where
  "ctl_step sm now (EvSelect domain base) (sels, sh) =
    (case read_sbo now (sh_store sh) domain (base @ ''$SBO'') sels of
       Some (AccessSuccess (MVisible s), sels') \<Rightarrow>
         (if s = [] then Unobserved else Granted (domain, base) (now + sbo_timeout_of (sh_store sh) domain base), sels', sh)
     | _ \<Rightarrow> (Unobserved, sels, sh))"
| "ctl_step sm now (EvSelectWith domain base v) (sels, sh) =
    (case write_sbow now (sh_store sh) domain (base @ ''$SBOw'') base v sels of (r, _, sels') \<Rightarrow>
       (if r = WriteSuccess then Granted (domain, base) (now + sbo_timeout_of (sh_store sh) domain base) else Unobserved,
        sels', sh))"
| "ctl_step sm now (EvCancel domain base) (sels, sh) =
    (Cancelled (domain, base), write_cancel domain (base @ ''$Cancel'') sels, sh)"
| "ctl_step sm now (EvOperate domain base v) (sels, sh) =
    (case operate sm now domain (base @ ''$Oper'') v sels sh of (_, _, sels', sh') \<Rightarrow>
       (if sbo_model (ctl_model_of (sh_store sh) domain (trim_end_text ''$Oper'' (base @ ''$Oper''))) \<and>
           sh_changes sh' \<noteq> sh_changes sh
        then Executed (domain, trim_end_text ''$Oper'' (base @ ''$Oper'')) now else Unobserved, sels', sh'))"
| "ctl_step sm now (EvShared sh') (sels, sh) = (Unobserved, sels, sh')"

inductive ctl_run :: "server_model \<Rightarrow> ctl_outcome list \<Rightarrow> selections \<times> shared \<Rightarrow> bool" for sm where
  start: "ctl_run sm [] (Map.empty, sh)"
| step: "ctl_run sm h s \<Longrightarrow> ctl_step sm now ev s = (out, s') \<Longrightarrow> ctl_run sm (h @ [out]) s'"

text \<open>The last grant of an object that no command or cancellation has used up.\<close>

definition granted_last :: "ctl_outcome list \<Rightarrow> variable_name \<Rightarrow> nat \<Rightarrow> bool" where
  "granted_last h k e \<longleftrightarrow> (\<exists>p q. h = p @ Granted k e # q \<and> Cancelled k \<notin> set q \<and> (\<forall>t. Executed k t \<notin> set q))"

lemma granted_last_snoc:
  "granted_last h k e \<Longrightarrow> out \<noteq> Cancelled k \<Longrightarrow> (\<And>t. out \<noteq> Executed k t) \<Longrightarrow> granted_last (h @ [out]) k e"
  "granted_last (h @ [Granted k e]) k e"
proof -
  show "granted_last (h @ [Granted k e]) k e"
    unfolding granted_last_def by (intro exI [of _ h] exI [of _ "[]"]) simp
  assume "granted_last h k e" and out: "out \<noteq> Cancelled k" "\<And>t. out \<noteq> Executed k t"
  then obtain p q where "h = p @ Granted k e # q" "Cancelled k \<notin> set q" "\<forall>t. Executed k t \<notin> set q"
    unfolding granted_last_def by blast
  then show "granted_last (h @ [out]) k e"
    using out unfolding granted_last_def by (intro exI [of _ p] exI [of _ "q @ [out]"]) auto
qed

lemma strip_suffix_own [simp]: "strip_suffix w (s @ w) = Some s"
  by (simp add: strip_suffix_def ends_with_def)

lemma operate_selections:
  assumes "operate sm now domain item v sels sh = (r, us, sels', sh')"
  shows "k \<noteq> (domain, trim_end_text ''$Oper'' item) \<Longrightarrow> sels' k = sels k"
    "sels' k = Some e \<Longrightarrow> sels k = Some e"
    "sh_changes sh' \<noteq> sh_changes sh \<Longrightarrow> sbo_model (ctl_model_of (sh_store sh) domain (trim_end_text ''$Oper'' item)) \<Longrightarrow>
      \<exists>e. sels (domain, trim_end_text ''$Oper'' item) = Some e \<and> now < e \<and> sels' (domain, trim_end_text ''$Oper'' item) = None"
  using assms unfolding operate_def
  by (auto simp: Let_def selection_cause_def split: if_splits option.splits prod.splits)


lemma ctl_step_keeps:
  assumes "ctl_step sm now ev (sels, sh) = (out, sels', sh')" "\<And>k e. sels k = Some e \<Longrightarrow> granted_last h k e"
  shows "sels' k = Some e \<Longrightarrow> granted_last (h @ [out]) k e"
    "out = Executed k t \<Longrightarrow> \<exists>e. granted_last h k e \<and> t < e"
proof -
  have keep: "sels' k = sels k \<or> out = Granted k e \<and> sels' k = Some e" if "sels' k = Some e" for k e
    using assms(1) that
    by (cases ev) (auto simp: read_sbo_def write_sbow_def write_cancel_def sbo_model_def split: if_splits prod.splits
        dest: operate_selections(2))
  have used: "sels' k = None" if "out = Cancelled k \<or> out = Executed k t" for k t
    using assms(1) that operate_selections(3)
    by (cases ev) (auto simp: read_sbo_def write_sbow_def write_cancel_def split: if_splits prod.splits, blast)
  show "granted_last (h @ [out]) k e" if k: "sels' k = Some e"
  proof (cases "out = Granted k e")
    case False
    then have "granted_last h k e" using keep [OF k] assms(2) [of k e] k by auto
    then show ?thesis using used [of k] k by (intro granted_last_snoc(1)) auto
  qed (use granted_last_snoc(2) in blast)
  show "\<exists>e. granted_last h k e \<and> t < e" if "out = Executed k t"
    using assms(1) that operate_selections(3) assms(2)
    by (cases ev) (auto simp: read_sbo_def write_sbow_def split: if_splits prod.splits, blast)
qed

lemma ctl_run_selected:
  assumes "ctl_run sm h s"
  shows "fst s k = Some e \<Longrightarrow> granted_last h k e"
    "h = pre @ Executed k' t # post \<Longrightarrow> \<exists>e. granted_last pre k' e \<and> t < e"
proof -
  have "(\<forall>k e. fst s k = Some e \<longrightarrow> granted_last h k e) \<and>
      (\<forall>pre k t post. h = pre @ Executed k t # post \<longrightarrow> (\<exists>e. granted_last pre k e \<and> t < e))"
    using assms
  proof (induction rule: ctl_run.induct)
    case (step h s now ev out s')
    obtain sels sh sels' sh' where s: "s = (sels, sh)" "s' = (sels', sh')" by (metis surj_pair)
    note k = ctl_step_keeps [of sm now ev sels sh out sels' sh' h]
    have "\<exists>e. granted_last pre k e \<and> t < e" if "h @ [out] = pre @ Executed k t # post" for pre k t post
    proof (cases post rule: rev_cases)
      case Nil
      then show ?thesis using that step.hyps(2) step.IH k(2) s by (cases k) auto
    next
      case (snoc ys y)
      then show ?thesis using that step.IH by (cases k) auto
    qed
    then show ?case using step k(1) s by auto
  qed simp
  then show "fst s k = Some e \<Longrightarrow> granted_last h k e"
    "h = pre @ Executed k' t # post \<Longrightarrow> \<exists>e. granted_last pre k' e \<and> t < e" by blast+
qed

text \<open>C11: Whatever selections, commands and cancellations arrive over a connection, and however the rest of
  the server changes the store meanwhile, a select-before-operate object is commanded only under a
  grant of its own that had not expired and that no other command or cancellation had used up: every
  grant lets at most one command through.\<close>

theorem select_before_operate:
  "ctl_run sm (pre @ Executed k t # post) s \<Longrightarrow>
    \<exists>p e q. pre = p @ Granted k e # q \<and> t < e \<and> Cancelled k \<notin> set q \<and> (\<forall>t'. Executed k t' \<notin> set q)"
  using ctl_run_selected(2) [where h = "pre @ Executed k t # post"] unfolding granted_last_def by blast


definition demo_shared :: shared where
  "demo_shared = \<lparr>sh_store = [((''IED1LD0'', ''LLN0$CF$Mod$ctlModel''), MInt 2), ((''IED1LD0'', ''LLN0$ST$Mod$stVal''), MInt 1)],
     sh_changes = []\<rparr>"

lemma demo_contains: "sm_contains (from_model demo_station demo_ident) ''IED1LD0'' ''LLN0$ST$Mod$stVal''"
  by (simp add: sm_contains_def demo_items is_some_and_def)

lemma demo_object: "do_item ''LLN0'' ''CO'' ''Mod'' ''Oper'' = ''LLN0$CO$Mod$Oper''" "do_item ''LLN0'' ''CF'' ''Mod'' a = ''LLN0$CF$Mod$'' @ a"
  "do_item ''LLN0'' ''ST'' ''Mod'' ''stVal'' = ''LLN0$ST$Mod$stVal''" "dollar ''LLN0'' (dollar ''CO'' ''Mod'') = ''LLN0$CO$Mod''"
  by (simp_all add: do_item_def dollar_def)

lemma demo_parts: "name_part ''LLN0''" "name_part ''Mod''" "\<not> starts_with ''Oper'' ''Mod''"
  by (simp_all add: name_part_def)

lemma demo_kind: "ctl_model_of (sh_store demo_shared) ''IED1LD0'' ''LLN0$CO$Mod'' = 2"
    "sbo_timeout_of (sh_store demo_shared) ''IED1LD0'' ''LLN0$CO$Mod'' = 30000"
  using cf_of_base [OF demo_parts(1,2)]
  by (simp_all add: demo_object ctl_model_of_def sbo_timeout_of_def demo_shared_def default_sbo_timeout_ms_def)

theorem command_effect_witness:
  "\<exists>us sels'. operate (from_model demo_station demo_ident) 10 ''IED1LD0'' ''LLN0$CO$Mod$Oper'' (MInt 3)
      [(''IED1LD0'', ''LLN0$CO$Mod'') \<mapsto> 20] demo_shared =
    (WriteSuccess, us, sels', apply_value ''IED1LD0'' ''LLN0$ST$Mod$stVal'' (MInt 3) demo_shared)"
proof -
  let ?s = "[(''IED1LD0'', ''LLN0$CO$Mod'') \<mapsto> 20]"
  obtain r us sels' sh' where o1: "operate (from_model demo_station demo_ident) 10 ''IED1LD0'' (do_item ''LLN0'' ''CO'' ''Mod'' ''Oper'')
      (MInt 3) ?s demo_shared = (r, us, sels', sh')" by (metis surj_pair)
  have "co_accepts (from_model demo_station demo_ident) 10 ?s (sh_store demo_shared) ''IED1LD0'' ''LLN0'' ''Mod''"
    using demo_contains by (simp add: co_accepts_def co_kind_def co_selected_def is_some_and_def demo_object demo_shared_def)
  moreover have "oper_parts (MInt 3) = (MInt 3, False)" by (simp add: oper_parts_def)
  ultimately have "sh' = apply_value ''IED1LD0'' ''LLN0$ST$Mod$stVal'' (MInt 3) demo_shared \<and> r = WriteSuccess"
    using command_effect [OF demo_parts o1] by (simp add: co_locked_def demo_object)
  then show ?thesis using o1 by (auto simp: demo_object)
qed

lemma demo_names: "trim_end_text ''$Oper'' ''LLN0$CO$Mod$Oper'' = ''LLN0$CO$Mod''"
    "status_item_of ''LLN0$CO$Mod$Oper'' = ''LLN0$ST$Mod$stVal''"
  using co_base_of_oper [OF demo_parts(1,2)] status_of_oper [OF demo_parts] by (simp_all add: demo_object)

lemma demo_run:
  "\<exists>s. ctl_run (from_model demo_station demo_ident)
    [Granted (''IED1LD0'', ''LLN0$CO$Mod'') 30000, Executed (''IED1LD0'', ''LLN0$CO$Mod'') 10] s"
proof -
  let ?k = "(''IED1LD0'', ''LLN0$CO$Mod'')"
  have "ctl_step (from_model demo_station demo_ident) 0 (EvSelect ''IED1LD0'' ''LLN0$CO$Mod'') (Map.empty, demo_shared) =
      (Granted ?k 30000, [?k \<mapsto> 30000], demo_shared)"
    using strip_suffix_own [of "''$SBO''" "''LLN0$CO$Mod''"] by (simp add: read_sbo_def demo_kind sbo_model_def)
  then have r: "ctl_run (from_model demo_station demo_ident) [Granted ?k 30000] ([?k \<mapsto> 30000], demo_shared)"
    using ctl_run.step [OF ctl_run.start] by fastforce
  have "ctl_step (from_model demo_station demo_ident) 10 (EvOperate ''IED1LD0'' ''LLN0$CO$Mod'' (MInt 3)) ([?k \<mapsto> 30000], demo_shared) =
      (Executed ?k 10, Map.empty, apply_value ''IED1LD0'' ''LLN0$ST$Mod$stVal'' (MInt 3) demo_shared)"
    by (simp add: operate_def demo_names demo_contains demo_kind oper_parts_def sbo_model_def selection_cause_def)
      (simp add: apply_value_def demo_shared_def)
  from ctl_run.step [OF r this] show ?thesis by auto
qed

theorem select_before_operate_witness:
  "\<exists>p e q. [Granted (''IED1LD0'', ''LLN0$CO$Mod'') 30000] = p @ Granted (''IED1LD0'', ''LLN0$CO$Mod'') e # q \<and> 10 < e"
proof -
  obtain s where "ctl_run (from_model demo_station demo_ident)
      ([Granted (''IED1LD0'', ''LLN0$CO$Mod'') 30000] @ Executed (''IED1LD0'', ''LLN0$CO$Mod'') 10 # []) s"
    using demo_run by auto
  from select_before_operate [OF this] show ?thesis by blast
qed

section \<open>The cause of a refusal\<close>

lemma operate_refused:
  assumes "operate sm now domain item v sels sh = (WriteFailure ObjectAccessDenied, us, sels', sh')"
  shows "\<exists>cause \<in> {cause_not_supported, cause_object_not_selected, cause_time_limit_over, cause_blocked_by_interlocking}.
    us = [last_appl_error_for domain item v cause]"
  using assms unfolding operate_def selection_cause_def
  by (auto simp: Let_def split: if_splits option.splits prod.splits)

lemma object_suffix:
  "ends_with item (lae_cntrl_obj (last_appl_error_of domain item v cause)) \<and>
    lae_add_cause (last_appl_error_of domain item v cause) = cause"
  by (auto simp: last_appl_error_of_def ends_with_iff Let_def split: prod.split)

text \<open>A client whose command is refused learns why: the server sends the cause before its negative
  answer, the client's reader keeps it, and the call ends with exactly that cause, which is used up.\<close>

theorem refusal_explained:
  assumes "operate sm now domain item v sels sh = (WriteFailure ObjectAccessDenied, us, sels', sh')"
    "\<And>cause. data_ok (lae_data (last_appl_error_of domain item v cause))"
    "\<And>cause. length (last_appl_error_for domain item v cause) < usize_limit"
  shows "\<exists>u svc e cause. us = [u] \<and> parse_unconfirmed u = Inr svc \<and>
    on_unsolicited members prev svc = Some (Some e, OutNothing) \<and>
    map_control_failure item (into_result (WriteFailure ObjectAccessDenied)) (Some e) = (Inl (MeControlTerminated cause), None) \<and>
    cause \<in> {cause_not_supported, cause_object_not_selected, cause_time_limit_over, cause_blocked_by_interlocking} \<and>
    u = last_appl_error_for domain item v cause"
proof -
  obtain cause where c: "us = [last_appl_error_for domain item v cause]"
    "cause \<in> {cause_not_supported, cause_object_not_selected, cause_time_limit_over, cause_blocked_by_interlocking}"
    using operate_refused [OF assms(1)] by blast
  obtain svc where "parse_unconfirmed (last_appl_error_for domain item v cause) = Inr svc"
    "parse_last_appl_error svc = Some (last_appl_error_of domain item v cause)"
    using parse_own_appl_error [OF assms(2)] assms(3) by (auto simp: last_appl_error_for_def)
  then show ?thesis
    using c object_suffix [of item domain v cause]
    by (intro exI [of _ "last_appl_error_for domain item v cause"] exI [of _ svc] exI [of _ "last_appl_error_of domain item v cause"]
        exI [of _ cause]) (simp add: on_unsolicited_def map_control_failure_def)
qed


end
