(* ===== verification/Reservations.thy ===== *)
theory Reservations imports SettingGroups begin

text \<open>
  Reservations of report control blocks (\<open>crates/iec61850-mms/src/server.rs\<close>: \<open>Reservation\<close>,
  \<open>ReservationGuard\<close>, \<open>check_rcb_reservation\<close>). The reservations of a server are one map under a lock, so
  a write or the end of a connection is one step, each with its time in milliseconds. The lemmas show
  that a reservation excludes every other connection for as long as it holds, and how long the window
  after the end of its connection is.
\<close>

unbundle bit_operations_syntax

section \<open>Reservations\<close>

text \<open>Times are milliseconds of the monotonic clock.\<close>

record reservation =
  rs_conn_id :: u64
  rs_resv_secs :: u32
  rs_until :: "nat option"

type_synonym reservations = "variable_name \<rightharpoonup> reservation"

definition rs_holds :: "nat \<Rightarrow> reservation \<Rightarrow> bool" where
  "rs_holds now r = (case rs_until r of None \<Rightarrow> True | Some t \<Rightarrow> now < t)"

text \<open>The guard dropped with a connection: its reservations end, or start their window.\<close>

definition release_one :: "u64 \<Rightarrow> nat \<Rightarrow> reservation \<Rightarrow> reservation option" where
  "release_one conn now r =
    (if rs_conn_id r \<noteq> conn then Some r
     else if 0 < rs_resv_secs r then Some (r\<lparr>rs_until := Some (now + 1000 * unat (rs_resv_secs r))\<rparr>)
     else None)"

definition release_all :: "u64 \<Rightarrow> nat \<Rightarrow> reservations \<Rightarrow> reservations" where
  "release_all conn now resv = (\<lambda>k. Option.bind (resv k) (release_one conn now))"

definition rsplit_once :: "'a \<Rightarrow> 'a list \<Rightarrow> ('a list \<times> 'a list) option" where
  "rsplit_once c s = map_option (\<lambda>i. (take i s, drop (Suc i) s)) (rfind c s)"

definition resv_tms_secs :: "mms_data \<Rightarrow> u32" where
  "resv_tms_secs v = (case v of MInt n \<Rightarrow> if sint n < 0 then 0 else ucast n | MUint n \<Rightarrow> ucast n | _ \<Rightarrow> 0)"

text \<open>What a write to an attribute does to the reservation of its block.\<close>

definition reserve :: "u64 \<Rightarrow> variable_name \<Rightarrow> string \<Rightarrow> mms_data \<Rightarrow> reservations \<Rightarrow> reservations" where
  "reserve conn key attr v resv =
    (if attr = ''Resv'' then
       (if v = MBool True then resv(key \<mapsto> \<lparr>rs_conn_id = conn, rs_resv_secs = 0, rs_until = None\<rparr>) else resv(key := None))
     else if attr = ''ResvTms'' then
       (let secs = resv_tms_secs v in
        if 0 < secs then resv(key \<mapsto> \<lparr>rs_conn_id = conn, rs_resv_secs = secs, rs_until = None\<rparr>) else resv(key := None))
     else if attr = ''RptEna'' \<and> v = MBool True then
       (case resv key of
          Some r \<Rightarrow> if rs_conn_id r = conn then resv
            else resv(key \<mapsto> \<lparr>rs_conn_id = conn, rs_resv_secs = 0, rs_until = None\<rparr>)
        | None \<Rightarrow> resv(key \<mapsto> \<lparr>rs_conn_id = conn, rs_resv_secs = 0, rs_until = None\<rparr>))
     else resv)"

definition check_rcb_reservation ::
  "server_model \<Rightarrow> nat \<Rightarrow> u64 \<Rightarrow> string \<Rightarrow> string \<Rightarrow> mms_data \<Rightarrow> reservations \<Rightarrow> write_result option \<times> reservations" where
  "check_rcb_reservation sm now conn domain item v resv =
    (case rsplit_once (CHR ''$'') item of
       None \<Rightarrow> (None, resv)
     | Some (base, attr) \<Rightarrow>
       if find_rcb sm domain base = None then (None, resv)
       else (case resv (domain, base) of
           Some r \<Rightarrow> if rs_conn_id r \<noteq> conn \<and> rs_holds now r then (Some (WriteFailure TemporarilyUnavailable), resv)
             else (None, reserve conn (domain, base) attr v resv)
         | None \<Rightarrow> (None, reserve conn (domain, base) attr v resv)))"

section \<open>Exclusive use\<close>

text \<open>What reaches the reservations: writes of the connections and their ends, each at its time.\<close>

datatype resv_event = RwWrite u64 string string mms_data | RwEnd u64

fun resv_step :: "server_model \<Rightarrow> nat \<times> resv_event \<Rightarrow> reservations \<Rightarrow> write_result option \<times> reservations" where
  "resv_step sm (now, RwWrite conn domain item v) resv = check_rcb_reservation sm now conn domain item v resv"
| "resv_step sm (now, RwEnd conn) resv = (None, release_all conn now resv)"

fun resv_run :: "server_model \<Rightarrow> (nat \<times> resv_event) list \<Rightarrow> reservations \<Rightarrow> write_result option list \<times> reservations" where
  "resv_run sm [] resv = ([], resv)"
| "resv_run sm (e # es) resv =
    (let (r, resv) = resv_step sm e resv; (rs, resv) = resv_run sm es resv in (r # rs, resv))"

fun event_conn :: "resv_event \<Rightarrow> u64" where
  "event_conn (RwWrite conn _ _ _) = conn"
| "event_conn (RwEnd conn) = conn"

text \<open>The event is a write to an attribute of the block.\<close>

fun writes_block :: "server_model \<Rightarrow> variable_name \<Rightarrow> resv_event \<Rightarrow> bool" where
  "writes_block sm k (RwWrite conn domain item v) \<longleftrightarrow>
    (case rsplit_once (CHR ''$'') item of
       Some (base, _) \<Rightarrow> (domain, base) = k \<and> find_rcb sm domain base \<noteq> None
     | None \<Rightarrow> False)"
| "writes_block sm k (RwEnd conn) \<longleftrightarrow> False"

lemma reserve_other: "k' \<noteq> k \<Longrightarrow> reserve conn k attr v resv k' = resv k'"
  by (auto simp: reserve_def Let_def split: option.splits)

lemma resv_step_keeps:
  assumes "resv k = Some r" "rs_holds now r" "event_conn ev \<noteq> rs_conn_id r"
  shows "snd (resv_step sm (now, ev) resv) k = Some r \<and>
    fst (resv_step sm (now, ev) resv) = (if writes_block sm k ev then Some (WriteFailure TemporarilyUnavailable)
      else fst (resv_step sm (now, ev) resv))"
proof (cases ev)
  case (RwWrite conn domain item v)
  then show ?thesis using assms
    by (auto simp: check_rcb_reservation_def reserve_other split: option.splits)
next
  case (RwEnd conn)
  then show ?thesis using assms by (auto simp: release_all_def release_one_def)
qed

text \<open>C37: A report control block reserved by one connection is that connection's alone: for as long as the
  reservation holds, every write of every other connection to any attribute of the block is refused as
  temporarily unavailable, and nothing the others do, ending included, takes or ends the reservation.\<close>

theorem reservation_exclusive:
  assumes "resv k = Some r" "\<forall>(t, ev) \<in> set es. rs_holds t r \<and> event_conn ev \<noteq> rs_conn_id r"
    "resv_run sm es resv = (results, resv')"
  shows "resv' k = Some r \<and>
    list_all2 (\<lambda>(t, ev) res. writes_block sm k ev \<longrightarrow> res = Some (WriteFailure TemporarilyUnavailable)) es results"
  using assms
proof (induction es arbitrary: resv results)
  case (Cons e es)
  obtain t ev where e: "e = (t, ev)" by force
  obtain x resv1 xs where s: "resv_step sm (t, ev) resv = (x, resv1)" "resv_run sm es resv1 = (xs, resv')" "results = x # xs"
    using Cons.prems(3) by (auto simp: e Let_def split: prod.splits)
  have "resv1 k = Some r \<and> x = (if writes_block sm k ev then Some (WriteFailure TemporarilyUnavailable) else x)"
    using resv_step_keeps [of resv k r t ev sm] Cons.prems(1,2) s(1) by (simp add: e)
  then show ?case using Cons.IH [OF _ _ s(2)] Cons.prems(2) s(3) by (auto simp: e)
qed simp

text \<open>The window after the end of the connection is the time it asked for, and it does not outlive it.\<close>

lemma reservation_window:
  assumes "resv k = Some r" "rs_conn_id r = conn"
  shows "release_all conn now resv k = (if rs_resv_secs r = 0 then None
      else Some (r\<lparr>rs_until := Some (now + 1000 * unat (rs_resv_secs r))\<rparr>)) \<and>
    (rs_holds t (r\<lparr>rs_until := Some (now + 1000 * unat (rs_resv_secs r))\<rparr>) \<longleftrightarrow> t < now + 1000 * unat (rs_resv_secs r))"
  using assms by (auto simp: release_all_def release_one_def rs_holds_def word_gt_0)

text \<open>The window is also closed to the client that left: it returns under a new number.\<close>

lemma window_excludes_owner:
  assumes "resv k = Some r" "rs_conn_id r = conn" "0 < rs_resv_secs r" "conn' \<noteq> conn" "t < now + 1000 * unat (rs_resv_secs r)"
    "writes_block sm k (RwWrite conn' (fst k) item v)"
  shows "fst (resv_step sm (t, RwWrite conn' (fst k) item v) (release_all conn now resv)) = Some (WriteFailure TemporarilyUnavailable)"
  using assms by (auto simp: release_all_def release_one_def check_rcb_reservation_def rs_holds_def split: option.splits)

theorem reservation_exclusive_witness:
  "\<exists>sm resv'. find_rcb sm ''LD'' ''L$BR$b'' \<noteq> None \<and>
    resv_run sm [(5, RwWrite 2 ''LD'' ''L$BR$b$RptEna'' (MBool True)), (6, RwEnd 2)]
      [(''LD'', ''L$BR$b'') \<mapsto> \<lparr>rs_conn_id = 1, rs_resv_secs = 0, rs_until = None\<rparr>] =
      ([Some (WriteFailure TemporarilyUnavailable), None], resv') \<and>
    resv' (''LD'', ''L$BR$b'') = Some \<lparr>rs_conn_id = 1, rs_resv_secs = 0, rs_until = None\<rparr>"
proof -
  let ?sm = "(from_model demo_station demo_ident)\<lparr>sm_rcbs := [\<lparr>rcb_domain = ''LD'', rcb_base = ''L$BR$b'', rcb_rpt_id = [],
     rcb_dataset = None, rcb_conf_rev = 1, rcb_buffered = True\<rparr>]\<rparr>"
  let ?r = "\<lparr>rs_conn_id = 1, rs_resv_secs = 0, rs_until = None\<rparr> :: reservation"
  let ?es = "[(5, RwWrite 2 ''LD'' ''L$BR$b$RptEna'' (MBool True)), (6, RwEnd 2)] :: (nat \<times> resv_event) list"
  have f: "find_rcb ?sm ''LD'' ''L$BR$b'' \<noteq> None" by (simp add: find_rcb_def)
  have s: "rsplit_once (CHR ''$'') ''L$BR$b$RptEna'' = Some (''L$BR$b'', ''RptEna'')" by (simp add: rsplit_once_def)
  obtain results resv' where run: "resv_run ?sm ?es [(''LD'', ''L$BR$b'') \<mapsto> ?r] = (results, resv')" by force
  have h: "\<forall>(t, ev) \<in> set ?es. rs_holds t ?r \<and> event_conn ev \<noteq> rs_conn_id ?r" by (simp add: rs_holds_def)
  from reservation_exclusive [OF _ h run, of "(''LD'', ''L$BR$b'')"]
  have "resv' (''LD'', ''L$BR$b'') = Some ?r" by simp
  moreover have "results = [Some (WriteFailure TemporarilyUnavailable), None]"
    using run f s by (auto simp: check_rcb_reservation_def rs_holds_def split: option.splits)
  ultimately show ?thesis using f run by blast
qed

end
