(* ===== verification/Reporting.thy ===== *)
theory Reporting imports Reservations ReportPdu begin

text \<open>
  Reporting by a server (\<open>crates/iec61850-mms/src/server.rs\<close>: \<open>BrcbBuffer\<close>, \<open>buffering_task\<close>, \<open>RcbRuntime\<close>,
  \<open>set_rpt_ena\<close>, \<open>set_entry_id\<close>, \<open>purge_buf\<close>, \<open>drain_buffer\<close>, \<open>general_interrogation\<close>, \<open>on_value_change\<close>,
  \<open>on_integrity\<close>). The buffers are shared by the connections and each is locked for one push or one
  drain, so both are steps; the enabled control blocks of a connection are an association list, whose
  order stands for the unspecified one of the map they are iterated in. The task that fills the buffers
  and the deliveries of a connection run interleaved in any order. The lemmas show that a buffer holds
  the last 64 entries of everything pushed, that a drain sends those after the cursor, and that, while
  deliveries keep up, every change is reported exactly once and in order.
\<close>

unbundle bit_operations_syntax

section \<open>Buffers\<close>

definition brcb_capacity :: nat where
  "brcb_capacity = 64"

record buf_entry =
  be_entry_id :: u64
  be_member_idx :: nat
  be_value :: mms_data

record brcb_buffer =
  bb_entries :: "buf_entry list"
  bb_next_id :: u64
  bb_overflow :: bool
  bb_capacity :: nat

definition buffer_new :: brcb_buffer where
  "buffer_new = \<lparr>bb_entries = [], bb_next_id = 1, bb_overflow = False, bb_capacity = brcb_capacity\<rparr>"

definition buffer_max_id :: "brcb_buffer \<Rightarrow> u64" where
  "buffer_max_id b = (if bb_entries b = [] then 0 else be_entry_id (last (bb_entries b)))"

type_synonym buffers = "variable_name \<rightharpoonup> brcb_buffer"

text \<open>The loop that drops the oldest entries.\<close>

fun trim_entries :: "nat \<Rightarrow> buf_entry list \<Rightarrow> bool \<Rightarrow> buf_entry list \<times> bool" where
  "trim_entries capacity [] overflow = ([], overflow)"
| "trim_entries capacity (e # es) overflow =
    (if capacity < length (e # es) then trim_entries capacity es True else (e # es, overflow))"

definition buffer_push :: "nat \<Rightarrow> mms_data \<Rightarrow> brcb_buffer \<Rightarrow> brcb_buffer" where
  "buffer_push idx v b =
    (let entries = bb_entries b @ [\<lparr>be_entry_id = bb_next_id b, be_member_idx = idx, be_value = v\<rparr>];
         (entries, overflow) = trim_entries (bb_capacity b) entries (bb_overflow b)
     in b\<lparr>bb_entries := entries, bb_next_id := bb_next_id b + 1, bb_overflow := overflow\<rparr>)"

text \<open>\<open>Iterator::position\<close> of the member a changed item belongs to.\<close>

definition covers :: "string \<Rightarrow> string \<Rightarrow> variable_name \<Rightarrow> bool" where
  "covers domain item = (\<lambda>(d, i). d = domain \<and>
     (i = item \<or> is_some_and (\<lambda>rest. starts_with ''$'' rest) (strip_prefix i item)))"

definition member_covering :: "variable_name list \<Rightarrow> string \<Rightarrow> string \<Rightarrow> nat option" where
  "member_covering members domain item = find (\<lambda>k. covers domain item (members ! k)) [0..<length members]"

text \<open>The value of the member that a change belongs to: the change itself, or the whole object.\<close>

definition changed_value :: "server_model \<Rightarrow> store \<Rightarrow> variable_name \<Rightarrow> value_change \<Rightarrow> mms_data" where
  "changed_value sm st m change =
    (if snd m = vc_item change then vc_value change
     else unwrap_or (vc_value change) (sm_assemble sm (fst m) (snd m) st))"

text \<open>\<open>buffering_task\<close>, one change: the buffers, and the keys sent to the connections.\<close>

definition buffer_change ::
  "server_model \<Rightarrow> store \<Rightarrow> value_change \<Rightarrow> variable_name \<times> variable_name list \<Rightarrow> buffers \<times> variable_name list \<Rightarrow>
   buffers \<times> variable_name list" where
  "buffer_change sm st change = (\<lambda>(key, members) (bufs, sent).
     case member_covering members (vc_domain change) (vc_item change) of
       None \<Rightarrow> (bufs, sent)
     | Some idx \<Rightarrow>
       (bufs(key \<mapsto> buffer_push idx (changed_value sm st (members ! idx) change) (unwrap_or buffer_new (bufs key))),
        sent @ [key]))"

definition buffering_step ::
  "server_model \<Rightarrow> store \<Rightarrow> (variable_name \<times> variable_name list) list \<Rightarrow> value_change \<Rightarrow> buffers \<Rightarrow> buffers \<times> variable_name list" where
  "buffering_step sm st brcbs change bufs = fold (buffer_change sm st change) brcbs (bufs, [])"

section \<open>Enabled control blocks\<close>

record rcb_runtime =
  rr_enabled :: bool
  rr_buffered :: bool
  rr_rpt_id :: string
  rr_dataset_name :: "string option"
  rr_members :: "variable_name list"
  rr_opt_flds :: bit_string
  rr_conf_rev :: u32
  rr_intg_pd :: u32
  rr_seq_num :: u32
  rr_next_integrity :: "nat option"
  rr_last_values :: "variable_name \<rightharpoonup> mms_data"
  rr_cursor :: u64

text \<open>Those of a connection; they are iterated, so their order stands for the unspecified one of the map.\<close>

type_synonym runtimes = "(variable_name \<times> rcb_runtime) list"

definition all_included :: "nat \<Rightarrow> bit_string" where
  "all_included n = bits_from (replicate n True)"

definition single_included :: "nat \<Rightarrow> nat \<Rightarrow> bit_string" where
  "single_included n idx = bits_from (map (\<lambda>i. i = idx) [0..<n])"

definition report_data_of :: "rcb_runtime \<Rightarrow> bit_string \<Rightarrow> mms_data list \<Rightarrow> report_data" where
  "report_data_of r inclusion values =
    \<lparr>rp_rpt_id = rr_rpt_id r, rp_opt_flds = rr_opt_flds r, rp_seq_num = rr_seq_num r, rp_dataset = rr_dataset_name r,
     rp_conf_rev = rr_conf_rev r, rp_time_of_entry = None, rp_buf_ovfl = False, rp_entry_id = None,
     rp_inclusion = inclusion, rp_values = values, rp_reasons = None\<rparr>"

definition make_report :: "rcb_runtime \<Rightarrow> bit_string \<Rightarrow> mms_data list \<Rightarrow> bytes" where
  "make_report r inclusion values = encode_information_report (report_data_of r inclusion values)"

definition buffered_report_data :: "rcb_runtime \<Rightarrow> bit_string \<Rightarrow> mms_data list \<Rightarrow> bool \<Rightarrow> bytes \<Rightarrow> report_data" where
  "buffered_report_data r inclusion values overflow entry_id =
    (report_data_of r inclusion values)\<lparr>rp_buf_ovfl := overflow, rp_entry_id := Some entry_id\<rparr>"

definition make_buffered_report :: "rcb_runtime \<Rightarrow> bit_string \<Rightarrow> mms_data list \<Rightarrow> bool \<Rightarrow> bytes \<Rightarrow> bytes" where
  "make_buffered_report r inclusion values overflow entry_id =
    encode_information_report (buffered_report_data r inclusion values overflow entry_id)"

definition decode_entry_id :: "mms_data \<Rightarrow> u64" where
  "decode_entry_id v =
    (case v of
       MOctets p \<Rightarrow>
         if p = [] then 0
         else (let n = min (length p) 8 in from_be (replicate (8 - n) 0 @ drop (length p - n) p))
     | _ \<Rightarrow> 0)"

definition member_value :: "server_model \<Rightarrow> store \<Rightarrow> variable_name \<Rightarrow> mms_data" where
  "member_value sm st m =
    unwrap_or (MBool False) (or_else (sm_assemble sm (fst m) (snd m) st) (map_of st m))"

section \<open>Sending what is buffered\<close>

text \<open>The loop over the pending entries: each takes the next sequence number and moves the cursor.\<close>

fun send_entries :: "bool \<Rightarrow> buf_entry list \<Rightarrow> rcb_runtime \<Rightarrow> bytes list \<times> rcb_runtime" where
  "send_entries overflow [] r = ([], r)"
| "send_entries overflow (e # es) r =
    (let r = r\<lparr>rr_seq_num := rr_seq_num r + 1, rr_cursor := be_entry_id e\<rparr>;
         unit' = make_buffered_report r (single_included (length (rr_members r)) (be_member_idx e)) [be_value e]
            overflow (to_be (be_entry_id e));
         (units, r) = send_entries overflow es r
     in (unit' # units, r))"

definition drain_buffer :: "variable_name \<Rightarrow> buffers \<Rightarrow> runtimes \<Rightarrow> bytes list \<times> buffers \<times> runtimes" where
  "drain_buffer key bufs rcbs =
    (case map_of rcbs key of
       None \<Rightarrow> ([], bufs, rcbs)
     | Some r \<Rightarrow>
       if \<not> rr_enabled r \<or> \<not> rr_buffered r then ([], bufs, rcbs)
       else (case bufs key of
           None \<Rightarrow> ([], bufs, rcbs)
         | Some b \<Rightarrow>
           (let pending = filter (\<lambda>e. rr_cursor r < be_entry_id e) (bb_entries b);
                overflow = bb_overflow b;
                b = (if pending \<noteq> [] then b\<lparr>bb_overflow := False\<rparr> else b);
                (units, r) = send_entries overflow pending r
            in (units, bufs(key \<mapsto> b), AList.update key r rcbs))))"

definition set_entry_id :: "variable_name \<Rightarrow> mms_data \<Rightarrow> buffers \<Rightarrow> runtimes \<Rightarrow> bytes list \<times> buffers \<times> runtimes" where
  "set_entry_id key v bufs rcbs =
    (case map_of rcbs key of
       None \<Rightarrow> ([], bufs, rcbs)
     | Some r \<Rightarrow>
       if \<not> rr_enabled r \<or> \<not> rr_buffered r then ([], bufs, rcbs)
       else drain_buffer key bufs (AList.update key (r\<lparr>rr_cursor := decode_entry_id v\<rparr>) rcbs))"

definition purge_buf :: "variable_name \<Rightarrow> buffers \<Rightarrow> runtimes \<Rightarrow> buffers \<times> runtimes" where
  "purge_buf key bufs rcbs =
    ((case bufs key of Some b \<Rightarrow> bufs(key \<mapsto> b\<lparr>bb_entries := [], bb_overflow := False\<rparr>) | None \<Rightarrow> bufs),
     (case map_of rcbs key of Some r \<Rightarrow> AList.update key (r\<lparr>rr_cursor := 0\<rparr>) rcbs | None \<Rightarrow> rcbs))"

section \<open>Enabling, interrogating, changes and integrity\<close>

definition set_rpt_ena ::
  "server_model \<Rightarrow> nat \<Rightarrow> string \<Rightarrow> string \<Rightarrow> mms_data \<Rightarrow> buffers \<Rightarrow> runtimes \<Rightarrow> shared \<Rightarrow> write_result \<times> runtimes \<times> shared" where
  "set_rpt_ena sm now domain base v bufs rcbs sh =
    (case find_rcb sm domain base of
       None \<Rightarrow> (WriteFailure ObjectNonExistent, rcbs, sh)
     | Some def \<Rightarrow>
       (let sh = apply_value domain (dollar base ''RptEna'') v sh; key = (domain, base)
        in if v \<noteq> MBool True then (WriteSuccess, AList.delete key rcbs, sh)
        else let get = (\<lambda>attr. map_of (sh_store sh) (domain, dollar base attr));
          dataset_name = (case get ''DatSet'' of
              Some (MVisible s) \<Rightarrow> if s \<noteq> [] then Some s else dataset_ref def
            | _ \<Rightarrow> dataset_ref def);
          opt_flds = (case get ''OptFlds'' of Some (MBitString b) \<Rightarrow> b | _ \<Rightarrow> default_opt_flds (rcb_buffered def));
          intg_pd = (case get ''IntgPd'' of Some (MUint u) \<Rightarrow> ucast u | _ \<Rightarrow> 0);
          resume = (case get ''EntryID'' of Some e \<Rightarrow> decode_entry_id e | None \<Rightarrow> 0);
          members = unwrap_or [] (Option.bind dataset_name (dataset_members sm domain));
          cursor = (if \<not> rcb_buffered def then 0
            else if 0 < resume then resume
            else (case bufs key of Some b \<Rightarrow> buffer_max_id b | None \<Rightarrow> 0))
        in (WriteSuccess,
            AList.update key
              \<lparr>rr_enabled = True, rr_buffered = rcb_buffered def, rr_rpt_id = rcb_rpt_id def, rr_dataset_name = dataset_name,
               rr_members = members, rr_opt_flds = opt_flds, rr_conf_rev = rcb_conf_rev def, rr_intg_pd = intg_pd,
               rr_seq_num = 0,
               rr_next_integrity = (if \<not> rcb_buffered def \<and> 0 < intg_pd then Some (now + unat intg_pd) else None),
               rr_last_values = (\<lambda>m. if m \<in> set members then Some (unwrap_or (MBool False) (map_of (sh_store sh) m)) else None),
               rr_cursor = cursor\<rparr> rcbs,
            sh)))"

definition general_interrogation ::
  "server_model \<Rightarrow> store \<Rightarrow> variable_name \<Rightarrow> mms_data \<Rightarrow> runtimes \<Rightarrow> bytes option \<times> runtimes" where
  "general_interrogation sm st key v rcbs =
    (if v \<noteq> MBool True then (None, rcbs)
     else case map_of rcbs key of
       None \<Rightarrow> (None, rcbs)
     | Some r \<Rightarrow>
       if \<not> rr_enabled r then (None, rcbs)
       else (let values = map (member_value sm st) (rr_members r);
                 r = r\<lparr>rr_seq_num := rr_seq_num r + 1\<rparr>
             in (Some (make_report r (all_included (length (rr_members r))) values), AList.update key r rcbs)))"

text \<open>One enabled block, and then all of them in the order of the map.\<close>

definition change_one :: "server_model \<Rightarrow> store \<Rightarrow> value_change \<Rightarrow> rcb_runtime \<Rightarrow> bytes option \<times> rcb_runtime" where
  "change_one sm st change r =
    (if \<not> rr_enabled r \<or> rr_buffered r then (None, r)
     else case member_covering (rr_members r) (vc_domain change) (vc_item change) of
       None \<Rightarrow> (None, r)
     | Some idx \<Rightarrow>
       (let m = rr_members r ! idx; v = changed_value sm st m change
        in if \<not> is_some_and (\<lambda>w. mms_eq w v) (rr_last_values r m)
           then (let r = r\<lparr>rr_last_values := (rr_last_values r)(m \<mapsto> v), rr_seq_num := rr_seq_num r + 1\<rparr>
                 in (Some (make_report r (single_included (length (rr_members r)) idx) [v]), r))
           else (None, r)))"

fun on_each :: "('r \<Rightarrow> bytes option \<times> 'r) \<Rightarrow> ('k \<times> 'r) list \<Rightarrow> bytes list \<times> ('k \<times> 'r) list" where
  "on_each f [] = ([], [])"
| "on_each f ((k, r) # rest) =
    (let (out, r) = f r; (outs, rest) = on_each f rest
     in ((case out of Some u \<Rightarrow> u # outs | None \<Rightarrow> outs), (k, r) # rest))"

definition on_value_change :: "server_model \<Rightarrow> store \<Rightarrow> value_change \<Rightarrow> runtimes \<Rightarrow> bytes list \<times> runtimes" where
  "on_value_change sm st change rcbs = on_each (change_one sm st change) rcbs"

definition integrity_one :: "server_model \<Rightarrow> nat \<Rightarrow> store \<Rightarrow> rcb_runtime \<Rightarrow> bytes option \<times> rcb_runtime" where
  "integrity_one sm now st r =
    (case rr_next_integrity r of
       None \<Rightarrow> (None, r)
     | Some deadline \<Rightarrow>
       if now < deadline then (None, r)
       else (let values = map (member_value sm st) (rr_members r);
                 r = r\<lparr>rr_seq_num := rr_seq_num r + 1\<rparr>
             in (Some (make_report r (all_included (length (rr_members r))) values),
                 r\<lparr>rr_next_integrity := Some (now + unat (rr_intg_pd r))\<rparr>)))"

definition on_integrity :: "server_model \<Rightarrow> nat \<Rightarrow> store \<Rightarrow> runtimes \<Rightarrow> bytes list \<times> runtimes" where
  "on_integrity sm now st rcbs = on_each (integrity_one sm now st) rcbs"

definition next_integrity_deadline :: "runtimes \<Rightarrow> nat option" where
  "next_integrity_deadline rcbs =
    (case List.map_filter (\<lambda>(k, r). rr_next_integrity r) rcbs of
       [] \<Rightarrow> None
     | t # ts \<Rightarrow> Some (fold min ts t))"

section \<open>The entries of a buffer\<close>

lemma trim_entries_drop:
  "trim_entries c es b = (drop (length es - c) es, b \<or> c < length es)"
  by (induction c es b rule: trim_entries.induct) (auto simp: Suc_diff_le not_less)

text \<open>The entries of everything ever pushed, numbered from 1.\<close>

definition log_entries :: "(nat \<times> mms_data) list \<Rightarrow> buf_entry list" where
  "log_entries log = map (\<lambda>(i, idx, v). \<lparr>be_entry_id = word_of_nat (Suc i), be_member_idx = idx, be_value = v\<rparr>) (enumerate 0 log)"

lemma length_log_entries [simp]: "length (log_entries log) = length log"
  by (simp add: log_entries_def)

lemma log_entries_snoc:
  "log_entries (log @ [(idx, v)]) =
    log_entries log @ [\<lparr>be_entry_id = word_of_nat (Suc (length log)), be_member_idx = idx, be_value = v\<rparr>]"
  by (simp add: log_entries_def enumerate_append_eq)

lemma log_entry_id: "i < length log \<Longrightarrow> be_entry_id (log_entries log ! i) = word_of_nat (Suc i)"
  by (simp add: log_entries_def nth_enumerate_eq split: prod.split)

text \<open>A buffer holds the last entries of its log, at most its capacity.\<close>

definition buffer_holds :: "(nat \<times> mms_data) list \<Rightarrow> nat \<Rightarrow> brcb_buffer \<Rightarrow> bool" where
  "buffer_holds log dropped b \<longleftrightarrow> bb_capacity b = brcb_capacity \<and> bb_next_id b = word_of_nat (Suc (length log)) \<and>
    dropped = length log - brcb_capacity \<and> bb_entries b = drop dropped (log_entries log)"

lemma buffer_new_holds: "buffer_holds [] 0 buffer_new"
  by (simp add: buffer_holds_def buffer_new_def log_entries_def)

lemma buffer_push_holds:
  assumes "buffer_holds log dropped b"
  shows "buffer_holds (log @ [(idx, v)]) (Suc (length log) - brcb_capacity) (buffer_push idx v b)"
proof -
  have "bb_entries b @ [\<lparr>be_entry_id = bb_next_id b, be_member_idx = idx, be_value = v\<rparr>] =
      drop dropped (log_entries (log @ [(idx, v)]))"
    using assms by (simp add: buffer_holds_def log_entries_snoc)
  moreover have "Suc (length log) - dropped - brcb_capacity + dropped = Suc (length log) - brcb_capacity"
    using assms by (auto simp: buffer_holds_def brcb_capacity_def)
  ultimately show ?thesis
    using assms by (simp add: buffer_holds_def buffer_push_def trim_entries_drop add.commute)
qed

lemma word_le_nat: "m < 2 ^ 64 \<Longrightarrow> n < 2 ^ 64 \<Longrightarrow> (word_of_nat m :: u64) < word_of_nat n \<longleftrightarrow> m < n"
  by (simp add: word_less_nat_alt unat_of_nat)

lemma filter_suffix:
  assumes "\<forall>x \<in> set (take m xs). \<not> P x" "\<forall>x \<in> set (drop m xs). P x" "m \<le> length xs"
  shows "filter P (drop d xs) = drop (max m d) xs"
proof (cases "m \<le> d")
  case True
  then have "set (drop d xs) \<subseteq> set (drop m xs)" by (rule set_drop_subset_set_drop)
  then show ?thesis using assms(2) True by (auto simp: filter_id_conv max_def)
next
  case False
  then have "drop d xs = drop d (take m xs) @ drop m xs"
    using assms(3) by (metis append_take_drop_id drop_append length_take min.absorb2 diff_is_0_eq drop_0 nat_le_linear)
  moreover have "filter P (drop d (take m xs)) = []"
    using assms(1) by (auto simp: filter_empty_conv dest: in_set_dropD)
  moreover have "filter P (drop m xs) = drop m xs"
    using assms(2) by (simp add: filter_id_conv)
  ultimately show ?thesis using False by (simp add: max_def)
qed

text \<open>What is pending for a cursor: what the log holds after it, less what was dropped.\<close>

lemma pending_entries:
  assumes "buffer_holds log dropped b" "length log < 2 ^ 63" "m \<le> length log"
  shows "filter (\<lambda>e. word_of_nat m < be_entry_id e) (bb_entries b) = drop (max m dropped) (log_entries log)"
proof -
  have "word_of_nat m < be_entry_id (log_entries log ! i) \<longleftrightarrow> m \<le> i" if "i < length log" for i
    using that assms(2,3) word_le_nat [of m "Suc i"] by (simp add: log_entry_id less_Suc_eq_le)
  then have "\<forall>e \<in> set (take m (log_entries log)). \<not> word_of_nat m < be_entry_id e"
    "\<forall>e \<in> set (drop m (log_entries log)). word_of_nat m < be_entry_id e"
    using assms(3) by (auto simp: in_set_conv_nth)
  from filter_suffix [OF this, of dropped] show ?thesis
    using assms(1,3) by (simp add: buffer_holds_def)
qed

section \<open>The reports of entries\<close>

definition entry_report :: "bool \<Rightarrow> rcb_runtime \<Rightarrow> nat \<Rightarrow> buf_entry \<Rightarrow> report_data" where
  "entry_report overflow r k e =
    (buffered_report_data r (single_included (length (rr_members r)) (be_member_idx e)) [be_value e] overflow
      (to_be (be_entry_id e)))\<lparr>rp_seq_num := rr_seq_num r + word_of_nat (Suc k)\<rparr>"

lemma send_entries_reports:
  "send_entries ov es r =
    (map (\<lambda>(k, e). encode_information_report (entry_report ov r k e)) (enumerate 0 es),
     if es = [] then r
     else r\<lparr>rr_seq_num := rr_seq_num r + word_of_nat (length es), rr_cursor := be_entry_id (last es)\<rparr>)"
proof (induction es arbitrary: r)
  case (Cons e es)
  have "map (\<lambda>(k, e). encode_information_report (entry_report ov (r\<lparr>rr_seq_num := rr_seq_num r + 1, rr_cursor := c\<rparr>) k e)) (enumerate 0 es) =
      map (\<lambda>(k, e). encode_information_report (entry_report ov r k e)) (enumerate (Suc 0) es)" for c
    by (auto simp: enumerate_Suc_eq entry_report_def buffered_report_data_def report_data_of_def add.assoc)
  then show ?case
    by (simp add: Cons.IH make_buffered_report_def entry_report_def buffered_report_data_def report_data_of_def add.assoc)
qed simp

section \<open>Changes and deliveries\<close>

text \<open>What reaches the buffers of a server, seen by the connection that enabled the block \<open>key\<close>: changes of
  values, with the store at that moment, and its own deliveries, whatever causes them.\<close>

datatype buf_event = BeChange store value_change | BeDrain

fun buf_step ::
  "server_model \<Rightarrow> (variable_name \<times> variable_name list) list \<Rightarrow> variable_name \<Rightarrow> buf_event \<Rightarrow> buffers \<times> runtimes \<Rightarrow>
   bytes list \<times> buffers \<times> runtimes" where
  "buf_step sm brcbs key (BeChange st change) (bufs, rcbs) = ([], fst (buffering_step sm st brcbs change bufs), rcbs)"
| "buf_step sm brcbs key BeDrain (bufs, rcbs) = drain_buffer key bufs rcbs"

fun buf_run ::
  "server_model \<Rightarrow> (variable_name \<times> variable_name list) list \<Rightarrow> variable_name \<Rightarrow> buf_event list \<Rightarrow> buffers \<times> runtimes \<Rightarrow>
   bytes list \<times> buffers \<times> runtimes" where
  "buf_run sm brcbs key [] s = ([], s)"
| "buf_run sm brcbs key (ev # evs) s =
    (let (units, s) = buf_step sm brcbs key ev s; (units', s) = buf_run sm brcbs key evs s in (units @ units', s))"

text \<open>The member and the value the block captures from an event.\<close>

fun captured :: "server_model \<Rightarrow> (variable_name \<times> variable_name list) list \<Rightarrow> variable_name \<Rightarrow> buf_event \<Rightarrow> (nat \<times> mms_data) list" where
  "captured sm brcbs key (BeChange st change) =
    (case map_of brcbs key of
       None \<Rightarrow> []
     | Some members \<Rightarrow>
       (case member_covering members (vc_domain change) (vc_item change) of
          None \<Rightarrow> []
        | Some idx \<Rightarrow> [(idx, changed_value sm st (members ! idx) change)]))"
| "captured sm brcbs key BeDrain = []"

text \<open>A delivery comes before more than a buffer of events is pending.\<close>

fun timely :: "server_model \<Rightarrow> (variable_name \<times> variable_name list) list \<Rightarrow> variable_name \<Rightarrow> nat \<Rightarrow> buf_event list \<Rightarrow> bool" where
  "timely sm brcbs key n [] \<longleftrightarrow> n \<le> brcb_capacity"
| "timely sm brcbs key n (BeDrain # evs) \<longleftrightarrow> n \<le> brcb_capacity \<and> timely sm brcbs key 0 evs"
| "timely sm brcbs key n (BeChange st change # evs) \<longleftrightarrow>
    timely sm brcbs key (n + length (captured sm brcbs key (BeChange st change))) evs"

definition holds_log :: "(nat \<times> mms_data) list \<Rightarrow> brcb_buffer option \<Rightarrow> bool" where
  "holds_log log b \<longleftrightarrow> (case b of None \<Rightarrow> log = [] | Some b \<Rightarrow> buffer_holds log (length log - brcb_capacity) b)"

lemma holds_log_push:
  "holds_log log b \<Longrightarrow> holds_log (log @ [(idx, v)]) (Some (buffer_push idx v (unwrap_or buffer_new b)))"
  using buffer_push_holds [OF buffer_new_holds, of idx v] buffer_push_holds [of log _ _ idx v]
  by (auto simp: holds_log_def unwrap_or_def split: option.splits)

lemma buffer_change_other: "k \<noteq> key \<Longrightarrow> fst (buffer_change sm st c (k, members) s) key = fst s key"
  by (cases s) (auto simp: buffer_change_def split: option.splits)

lemma fold_buffer_other:
  "key \<notin> fst ` set brcbs \<Longrightarrow> fst (fold (buffer_change sm st c) brcbs s) key = fst s key"
  by (induction brcbs arbitrary: s) (auto simp: buffer_change_other)

lemma buffering_captures:
  assumes "distinct (map fst brcbs)" "holds_log log (bufs key)"
  shows "holds_log (log @ captured sm brcbs key (BeChange st c)) (fst (buffering_step sm st brcbs c bufs) key)"
proof -
  have "holds_log (log @ captured sm brcbs key (BeChange st c)) (fst (fold (buffer_change sm st c) brcbs s) key)"
    if "holds_log log (fst s key)" for s
    using assms(1) that
  proof (induction brcbs arbitrary: s)
    case (Cons kb brcbs)
    obtain k members where kb: "kb = (k, members)" by (metis surj_pair)
    show ?case
    proof (cases "k = key")
      case True
      then have "fst (fold (buffer_change sm st c) brcbs s') key = fst s' key" for s'
        using Cons.prems(1) kb by (intro fold_buffer_other) auto
      then show ?thesis
        using True Cons.prems(2) holds_log_push [of log "fst s key"]
        by (cases s) (auto simp: kb buffer_change_def split: option.splits)
    next
      case False
      have "holds_log log (fst (buffer_change sm st c kb s) key)"
        using Cons.prems(2) False by (simp add: kb buffer_change_other)
      from Cons.IH [OF _ this] Cons.prems(1) False show ?thesis by (simp add: kb)
    qed
  qed simp
  then show ?thesis using assms(2) by (simp add: buffering_step_def)
qed

section \<open>Delivery\<close>

definition delivering :: "variable_name \<Rightarrow> runtimes \<Rightarrow> rcb_runtime \<Rightarrow> nat \<Rightarrow> bool" where
  "delivering key rcbs r m \<longleftrightarrow> map_of rcbs key = Some r \<and> rr_enabled r \<and> rr_buffered r \<and> rr_cursor r = word_of_nat m"

definition drained :: "rcb_runtime \<Rightarrow> buf_entry list \<Rightarrow> bytes list \<Rightarrow> bool" where
  "drained r es units \<longleftrightarrow> (\<exists>ds. units = map encode_information_report ds \<and>
    map (rp_buf_ovfl_update (\<lambda>_. False)) ds = map (\<lambda>(k, e). entry_report False r k e) (enumerate 0 es))"

lemma drained_map: "drained r es (map (\<lambda>(k, e). encode_information_report (entry_report ov r k e)) (enumerate 0 es))"
  unfolding drained_def
  by (rule exI [of _ "map (\<lambda>(k, e). entry_report ov r k e) (enumerate 0 es)"])
    (auto simp: entry_report_def buffered_report_data_def report_data_of_def)

lemma drained_append:
  assumes "drained r es us" "drained (r\<lparr>rr_seq_num := rr_seq_num r + word_of_nat (length es), rr_cursor := c\<rparr>) es' us'"
  shows "drained r (es @ es') (us @ us')"
proof -
  let ?r = "r\<lparr>rr_seq_num := rr_seq_num r + word_of_nat (length es), rr_cursor := c\<rparr>"
  have "map (\<lambda>(k, e). entry_report False ?r k e) (enumerate 0 es') =
      map (\<lambda>(k, e). entry_report False r k e) (enumerate (length es) es')"
  proof (rule nth_equalityI)
    fix i assume "i < length (map (\<lambda>(k, e). entry_report False ?r k e) (enumerate 0 es'))"
    then show "map (\<lambda>(k, e). entry_report False ?r k e) (enumerate 0 es') ! i =
        map (\<lambda>(k, e). entry_report False r k e) (enumerate (length es) es') ! i"
      by (simp add: nth_enumerate_eq entry_report_def buffered_report_data_def report_data_of_def add_ac)
  qed simp
  moreover obtain ds ds' where "us = map encode_information_report ds" "us' = map encode_information_report ds'"
    "map (rp_buf_ovfl_update (\<lambda>_. False)) ds = map (\<lambda>(k, e). entry_report False r k e) (enumerate 0 es)"
    "map (rp_buf_ovfl_update (\<lambda>_. False)) ds' = map (\<lambda>(k, e). entry_report False ?r k e) (enumerate 0 es')"
    using assms unfolding drained_def by blast
  ultimately show ?thesis
    unfolding drained_def by (intro exI [of _ "ds @ ds'"]) (simp add: enumerate_append_eq)
qed

lemma drain_pending:
  assumes "holds_log log (bufs key)" "delivering key rcbs r m" "length log < 2 ^ 63" "m \<le> length log"
    "length log - m \<le> brcb_capacity" "drain_buffer key bufs rcbs = (units, bufs', rcbs')"
  shows "drained r (drop m (log_entries log)) units \<and> holds_log log (bufs' key) \<and>
    delivering key rcbs' (if m = length log then r
      else r\<lparr>rr_seq_num := rr_seq_num r + word_of_nat (length log - m), rr_cursor := word_of_nat (length log)\<rparr>) (length log)"
proof (cases "bufs key")
  case None
  then have "units = []" "bufs' = bufs" "rcbs' = rcbs" "log = []"
    using assms(1,2,6) by (auto simp: drain_buffer_def delivering_def holds_log_def split: if_splits)
  then show ?thesis using assms(2,4) None by (auto simp: drained_def log_entries_def holds_log_def)
next
  case (Some b)
  with assms(1) have h: "buffer_holds log (length log - brcb_capacity) b" by (simp add: holds_log_def)
  have p: "filter (\<lambda>e. word_of_nat m < be_entry_id e) (bb_entries b) = drop m (log_entries log)"
  proof -
    have "max m (length log - brcb_capacity) = m" using assms(5) by simp
    then show ?thesis using pending_entries [OF h assms(3,4)] assms(2) by (simp add: delivering_def)
  qed
  have "drop m (log_entries log) = [] \<longleftrightarrow> m = length log" using assms(4) by auto
  moreover have "be_entry_id (last (drop m (log_entries log))) = word_of_nat (length log)" if "m < length log"
    using that log_entry_id [of "length log - 1" log] by (simp add: last_drop last_conv_nth)
  moreover have "buffer_holds log (length log - brcb_capacity) (b\<lparr>bb_overflow := False\<rparr>)"
    using h by (simp add: buffer_holds_def)
  ultimately have l: "drop m (log_entries log) = [] \<longleftrightarrow> m = length log"
    "m < length log \<Longrightarrow> be_entry_id (last (drop m (log_entries log))) = word_of_nat (length log)"
    "buffer_holds log (length log - brcb_capacity) (b\<lparr>bb_overflow := False\<rparr>)" by blast+
  obtain r' where r': "send_entries (bb_overflow b) (drop m (log_entries log)) r =
      (map (\<lambda>(k, e). encode_information_report (entry_report (bb_overflow b) r k e)) (enumerate 0 (drop m (log_entries log))), r')"
    "r' = (if m = length log then r
      else r\<lparr>rr_seq_num := rr_seq_num r + word_of_nat (length log - m), rr_cursor := word_of_nat (length log)\<rparr>)"
    using l(1,2) assms(4) by (simp add: send_entries_reports)
  have "units = map (\<lambda>(k, e). encode_information_report (entry_report (bb_overflow b) r k e)) (enumerate 0 (drop m (log_entries log))) \<and>
      rcbs' = AList.update key r' rcbs \<and>
      bufs' = bufs(key \<mapsto> if drop m (log_entries log) \<noteq> [] then b\<lparr>bb_overflow := False\<rparr> else b)"
    using assms(2,6) Some by (auto simp: drain_buffer_def delivering_def p r'(1) Let_def)
  moreover have "delivering key (AList.update key r' rcbs) r' (length log)"
    using assms(2,4) by (auto simp: delivering_def r'(2))
  ultimately show ?thesis
    using drained_map h l(3) r'(2) by (auto simp: holds_log_def)
qed

lemma log_entries_append: "log_entries (log @ log') = log_entries log @ drop (length log) (log_entries (log @ log'))"
  by (simp add: log_entries_def enumerate_append_eq)

lemma buf_run_delivers:
  assumes "distinct (map fst brcbs)" "holds_log log (bufs key)" "delivering key rcbs r m" "m \<le> length log"
    "length (log @ concat (map (captured sm brcbs key) evs)) < 2 ^ 63" "timely sm brcbs key (length log - m) evs"
    "buf_run sm brcbs key (evs @ [BeDrain]) (bufs, rcbs) = (units, s)"
  shows "drained r (drop m (log_entries (log @ concat (map (captured sm brcbs key) evs)))) units"
  using assms(2-)
proof (induction evs arbitrary: log bufs rcbs r m units)
  case Nil
  obtain u b rc where d: "drain_buffer key bufs rcbs = (u, b, rc)" by (metis surj_pair)
  then show ?case using Nil drain_pending [OF Nil(1,2) _ Nil(3) _ d] by simp
next
  case (Cons ev evs)
  show ?case
  proof (cases ev)
    case (BeChange st c)
    let ?c = "captured sm brcbs key ev"
    have run: "buf_run sm brcbs key (evs @ [BeDrain]) (fst (buffering_step sm st brcbs c bufs), rcbs) = (units, s)"
      using Cons.prems(6) BeChange by (simp add: Let_def split: prod.splits)
    have "holds_log (log @ ?c) (fst (buffering_step sm st brcbs c bufs) key)"
      using buffering_captures [where key = key and bufs = bufs, OF assms(1) Cons.prems(1)] BeChange by simp
    then have "drained r (drop m (log_entries ((log @ ?c) @ concat (map (captured sm brcbs key) evs)))) units"
      using Cons.prems(2-5) BeChange run by (intro Cons.IH) auto
    then show ?thesis by simp
  next
    case BeDrain
    obtain u b rc where d: "drain_buffer key bufs rcbs = (u, b, rc)" by (metis surj_pair)
    obtain units' where run: "buf_run sm brcbs key (evs @ [BeDrain]) (b, rc) = (units', s)" and units: "units = u @ units'"
      using Cons.prems(6) BeDrain d by (cases "buf_run sm brcbs key (evs @ [BeDrain]) (b, rc)") auto
    let ?r = "if m = length log then r else r\<lparr>rr_seq_num := rr_seq_num r + word_of_nat (length log - m), rr_cursor := word_of_nat (length log)\<rparr>"
    have st: "drained r (drop m (log_entries log)) u" "holds_log log (b key)" "delivering key rc ?r (length log)"
      using drain_pending [OF Cons.prems(1,2) _ Cons.prems(3) _ d] Cons.prems(4,5) BeDrain by simp_all
    have rest: "drained ?r (drop (length log) (log_entries (log @ concat (map (captured sm brcbs key) evs)))) units'"
      using Cons.prems(4,5) BeDrain run by (intro Cons.IH [where bufs = b, OF st(2,3)]) auto
    have all: "drop m (log_entries (log @ concat (map (captured sm brcbs key) evs))) =
        drop m (log_entries log) @ drop (length log) (log_entries (log @ concat (map (captured sm brcbs key) evs)))"
      using log_entries_append [of log "concat (map (captured sm brcbs key) evs)"] Cons.prems(3) by (metis drop_append diff_is_0_eq drop_0 length_log_entries)
    show ?thesis
    proof (cases "m = length log")
      case True
      then have "u = []" using st(1) by (auto simp: drained_def)
      then show ?thesis using rest True by (simp add: units BeDrain)
    next
      case False
      then show ?thesis
        using drained_append [OF st(1), of "word_of_nat (length log)"] rest by (simp add: units BeDrain all)
    qed
  qed
qed

text \<open>The overflow flag does not mean a loss: once a buffer is full every event drops the oldest entry and sets
  it, also when every entry before the event has been delivered.\<close>

lemma overflow_without_loss:
  assumes "buffer_holds log dropped b" "brcb_capacity \<le> length log" "Suc (length log) < 2 ^ 63"
  shows "bb_overflow (buffer_push idx v b) \<and>
    filter (\<lambda>e. word_of_nat (length log) < be_entry_id e) (bb_entries (buffer_push idx v b)) =
      [\<lparr>be_entry_id = word_of_nat (Suc (length log)), be_member_idx = idx, be_value = v\<rparr>]"
proof
  have "length (bb_entries b) = brcb_capacity"
    using assms(1,2) by (auto simp: buffer_holds_def)
  then show "bb_overflow (buffer_push idx v b)"
    using assms(1) by (simp add: buffer_push_def trim_entries_drop Let_def buffer_holds_def)
  have "Suc (length log) - brcb_capacity \<le> length log" using assms(2) by (simp add: brcb_capacity_def)
  then show "filter (\<lambda>e. word_of_nat (length log) < be_entry_id e) (bb_entries (buffer_push idx v b)) =
      [\<lparr>be_entry_id = word_of_nat (Suc (length log)), be_member_idx = idx, be_value = v\<rparr>]"
    using pending_entries [OF buffer_push_holds [OF assms(1), of idx v], of "length log"] assms(3)
    by (simp add: log_entries_snoc max_def)
qed

section \<open>Properties\<close>


definition demo_reporting :: server_model where
  "demo_reporting = (from_model demo_station demo_ident)
     \<lparr>sm_rcbs := [\<lparr>rcb_domain = ''LD'', rcb_base = ''L$BR$b'', rcb_rpt_id = ''r'', rcb_dataset = Some ''ds'', rcb_conf_rev = 1,
        rcb_buffered = True\<rparr>],
      sm_datasets := [(''LD'', ''ds'') \<mapsto> [(''LD'', ''L$ST$x'')]]\<rparr>"

definition demo_runtime :: rcb_runtime where
  "demo_runtime = \<lparr>rr_enabled = True, rr_buffered = True, rr_rpt_id = ''r'', rr_dataset_name = Some ''LD/L$ds'',
     rr_members = [(''LD'', ''L$ST$x'')], rr_opt_flds = default_opt_flds True, rr_conf_rev = 1, rr_intg_pd = 0, rr_seq_num = 0,
     rr_next_integrity = None, rr_last_values = Map.empty, rr_cursor = 0\<rparr>"


end
