(* ===== verification/FilePdu.thy ===== *)
theory FilePdu imports ReportPdu begin

text \<open>
  The units of the MMS file services (\<open>crates/iec61850-mms/src/mms/file.rs\<close>): requests and responses of
  fileDirectory, fileOpen, fileRead, fileClose, fileDelete, fileRename and obtainFile, of both ends.
  Each is an interpretation of the contract \<open>mms_service\<close>: what one end writes, the other reads.
\<close>

unbundle bit_operations_syntax

section \<open>Files\<close>

definition svc_obtain_file :: tag where "svc_obtain_file = tag_context 46 True"
definition svc_file_open :: tag where "svc_file_open = tag_context 72 True"
definition svc_file_read :: tag where "svc_file_read = tag_context 73 False"
definition svc_file_read_response :: tag where "svc_file_read_response = tag_context 73 True"
definition svc_file_close :: tag where "svc_file_close = tag_context 74 False"
definition svc_file_rename :: tag where "svc_file_rename = tag_context 75 True"
definition svc_file_delete :: tag where "svc_file_delete = tag_context 76 True"
definition svc_file_directory :: tag where "svc_file_directory = tag_context 77 True"

definition graphic_string :: tag where
  "graphic_string = tag_universal 0x19 False"

record file_entry =
  fe_name :: string
  fe_size :: u32
  fe_last_modified :: "string option"

record file_attributes =
  fa_size :: u32
  fa_last_modified :: "string option"

record file_open =
  fo_frsm_id :: u32
  fo_attributes :: file_attributes

record file_chunk =
  fc_data :: bytes
  fc_more_follows :: bool

record file_directory =
  fd_entries :: "file_entry list"
  fd_more_follows :: bool

section \<open>Names and attributes\<close>

definition write_file_name :: "string \<Rightarrow> writing" where
  "write_file_name name = w_visible_string graphic_string name"

text \<open>The last component; no component is the empty name.\<close>

definition decode_file_name :: "bytes \<Rightarrow> mms_error + string" where
  "decode_file_name content =
    bindE (read_each (\<lambda>t. map_errE MeBer (decode_visible_string (tlv_content t))) (reader_new content) [])
      (\<lambda>names. Inr (if names = [] then [] else last names))"

definition write_file_attributes :: "file_attributes \<Rightarrow> writing" where
  "write_file_attributes a = w_tlv (tag_context 1 True) (\<lambda>w. w_seq
     [w_unsigned (tag_context 0 False) (ucast (fa_size a)),
      (case fa_last_modified a of Some lm \<Rightarrow> w_visible_string (tag_context 1 False) lm | None \<Rightarrow> (\<lambda>w. w))] w)"

definition read_opt_visible :: "tag \<Rightarrow> (mms_error, string option) reading" where
  "read_opt_visible t r = thenE (map_errR MeBer (rd_read_if t r)) (\<lambda>c r.
     ((case c of
         Some c \<Rightarrow> bindE (map_errE MeBer (decode_visible_string c)) (\<lambda>s. Inr (Some s))
       | None \<Rightarrow> Inr None), r))"

definition decode_file_attributes :: "bytes \<Rightarrow> mms_error + file_attributes" where
  "decode_file_attributes content =
    fst (thenE (read_unsigned (tag_context 0 False) (reader_new content)) (\<lambda>size r.
         thenE (read_opt_visible (tag_context 1 False) r) (\<lambda>last_modified r.
           (Inr \<lparr>fa_size = ucast size, fa_last_modified = last_modified\<rparr>, r))))"

definition read_file_name :: "tag \<Rightarrow> (mms_error, string) reading" where
  "read_file_name t r = thenE (m_expect t r) (\<lambda>c r. (decode_file_name c, r))"

definition read_opt_file_name :: "tag \<Rightarrow> (mms_error, string option) reading" where
  "read_opt_file_name t r = thenE (map_errR MeBer (rd_read_if t r)) (\<lambda>c r.
     ((case c of
         Some c \<Rightarrow> bindE (decode_file_name c) (\<lambda>s. Inr (Some s))
       | None \<Rightarrow> Inr None), r))"

section \<open>fileDirectory\<close>

definition write_directory_request :: "string option \<times> string option \<Rightarrow> writing" where
  "write_directory_request = (\<lambda>(prefix', continue_after). w_tlv svc_file_directory (\<lambda>w. w_seq
     [(case prefix' of Some p \<Rightarrow> w_tlv (tag_context 0 True) (write_file_name p) | None \<Rightarrow> (\<lambda>w. w)),
      (case continue_after of Some c \<Rightarrow> w_tlv (tag_context 1 True) (write_file_name c) | None \<Rightarrow> (\<lambda>w. w))] w))"

definition decode_directory_request :: "tlv \<Rightarrow> mms_error + string option \<times> string option" where
  "decode_directory_request service_tlv =
    bindE (expect_service service_tlv svc_file_directory) (\<lambda>content.
      fst (thenE (read_opt_file_name (tag_context 0 True) (reader_new content)) (\<lambda>prefix' r.
           thenE (read_opt_file_name (tag_context 1 True) r) (\<lambda>continue_after r.
             (Inr (prefix', continue_after), r)))))"

definition write_directory_entry :: "file_entry \<Rightarrow> writing" where
  "write_directory_entry e = w_sequence (\<lambda>w. w_seq
     [w_tlv (tag_context 0 True) (write_file_name (fe_name e)),
      write_file_attributes \<lparr>fa_size = fe_size e, fa_last_modified = fe_last_modified e\<rparr>] w)"

definition encode_directory_response :: "file_directory \<Rightarrow> writing" where
  "encode_directory_response dir = w_tlv svc_file_directory (\<lambda>w. w_seq
     [w_tlv (tag_context 0 True) (\<lambda>w. fold write_directory_entry (fd_entries dir) w),
      write_if (fd_more_follows dir) (w_boolean (tag_context 1 False) True)] w)"

definition decode_directory_entry :: "bytes \<Rightarrow> mms_error + file_entry" where
  "decode_directory_entry content =
    fst (thenE (read_file_name (tag_context 0 True) (reader_new content)) (\<lambda>name r.
         thenE (m_expect (tag_context 1 True) r) (\<lambda>c r.
           (bindE (decode_file_attributes c) (\<lambda>attrs.
              Inr \<lparr>fe_name = name, fe_size = fa_size attrs, fe_last_modified = fa_last_modified attrs\<rparr>), r))))"

text \<open>Entries directly in the list or in wrappers, one below the other; the number is that of the levels left.\<close>

primrec collect_directory_entries :: "nat \<Rightarrow> bytes \<Rightarrow> mms_error + file_entry list" where
  "collect_directory_entries 0 content = Inr []"
| "collect_directory_entries (Suc n) content =
    bindE (read_each (\<lambda>t.
        if peek_tag (reader_new (tlv_content t)) = Inr (tag_context 0 True)
        then bindE (decode_directory_entry (tlv_content t)) (\<lambda>e. Inr [e])
        else collect_directory_entries n (tlv_content t)) (reader_new content) [])
      (\<lambda>ess. Inr (concat ess))"

definition decode_directory_response :: "tlv \<Rightarrow> mms_error + file_directory" where
  "decode_directory_response service_tlv =
    bindE (expect_service service_tlv svc_file_directory) (\<lambda>content.
      fst (thenE (m_expect (tag_context 0 True) (reader_new content)) (\<lambda>list r.
        case collect_directory_entries 3 list of
          Inl e \<Rightarrow> (Inl e, r)
        | Inr entries \<Rightarrow>
          thenE (map_errR MeBer (rd_read_if (tag_context 1 False) r)) (\<lambda>mf r.
            (bindE (case mf of Some c \<Rightarrow> map_errE MeBer (decode_bool c) | None \<Rightarrow> Inr False) (\<lambda>more_follows.
               Inr \<lparr>fd_entries = entries, fd_more_follows = more_follows\<rparr>), r)))))"

section \<open>fileOpen, fileRead and fileClose\<close>

definition write_open_request :: "string \<times> u32 \<Rightarrow> writing" where
  "write_open_request = (\<lambda>(name, initial_position). w_tlv svc_file_open (\<lambda>w. w_seq
     [w_tlv (tag_context 0 True) (write_file_name name),
      w_unsigned (tag_context 1 False) (ucast initial_position)] w))"

definition decode_open_request :: "tlv \<Rightarrow> mms_error + string \<times> u32" where
  "decode_open_request service_tlv =
    bindE (expect_service service_tlv svc_file_open) (\<lambda>content.
      fst (thenE (read_file_name (tag_context 0 True) (reader_new content)) (\<lambda>name r.
           thenE (read_unsigned (tag_context 1 False) r) (\<lambda>pos r. (Inr (name, ucast pos), r)))))"

definition encode_open_response :: "file_open \<Rightarrow> writing" where
  "encode_open_response f = w_tlv svc_file_open (\<lambda>w. w_seq
     [w_integer (tag_context 0 False) (scast (fo_frsm_id f)),
      write_file_attributes (fo_attributes f)] w)"

definition decode_open_response :: "tlv \<Rightarrow> mms_error + file_open" where
  "decode_open_response service_tlv =
    bindE (expect_service service_tlv svc_file_open) (\<lambda>content.
      fst (thenE (read_int (tag_context 0 False) (reader_new content)) (\<lambda>frsm_id r.
           thenE (m_expect (tag_context 1 True) r) (\<lambda>c r.
             (bindE (decode_file_attributes c) (\<lambda>attributes.
                Inr \<lparr>fo_frsm_id = ucast frsm_id, fo_attributes = attributes\<rparr>), r)))))"

definition write_read_request :: "u32 \<Rightarrow> writing" where
  "write_read_request frsm_id = w_integer svc_file_read (scast frsm_id)"

definition decode_read_request :: "tlv \<Rightarrow> mms_error + u32" where
  "decode_read_request service_tlv =
    bindE (expect_service service_tlv svc_file_read) (\<lambda>content.
      bindE (map_errE MeBer (decode_integer content)) (\<lambda>v. Inr (ucast v)))"

definition encode_read_response :: "file_chunk \<Rightarrow> writing" where
  "encode_read_response chunk = w_tlv svc_file_read_response (\<lambda>w. w_seq
     [w_octet_string (tag_context 0 False) (fc_data chunk),
      write_if (\<not> fc_more_follows chunk) (w_boolean (tag_context 1 False) False)] w)"

definition decode_read_response :: "tlv \<Rightarrow> mms_error + file_chunk" where
  "decode_read_response service_tlv =
    bindE (expect_service service_tlv svc_file_read_response) (\<lambda>content.
      fst (thenE (m_expect (tag_context 0 False) (reader_new content)) (\<lambda>data r.
           thenE (map_errR MeBer (rd_read_if (tag_context 1 False) r)) (\<lambda>mf r.
             (bindE (case mf of Some c \<Rightarrow> map_errE MeBer (decode_bool c) | None \<Rightarrow> Inr True) (\<lambda>more_follows.
                Inr \<lparr>fc_data = data, fc_more_follows = more_follows\<rparr>), r)))))"

definition write_close_request :: "u32 \<Rightarrow> writing" where
  "write_close_request frsm_id = w_integer svc_file_close (scast frsm_id)"

definition decode_close_request :: "tlv \<Rightarrow> mms_error + u32" where
  "decode_close_request service_tlv =
    bindE (expect_service service_tlv svc_file_close) (\<lambda>content.
      bindE (map_errE MeBer (decode_integer content)) (\<lambda>v. Inr (ucast v)))"

definition encode_close_response :: writing where
  "encode_close_response = w_null svc_file_close"

section \<open>fileDelete, fileRename and obtainFile\<close>

definition write_file_delete_request :: "string \<Rightarrow> writing" where
  "write_file_delete_request name = w_tlv svc_file_delete (write_file_name name)"

definition decode_file_delete_request :: "tlv \<Rightarrow> mms_error + string" where
  "decode_file_delete_request service_tlv =
    bindE (expect_service service_tlv svc_file_delete) decode_file_name"

definition write_rename_request :: "string \<times> string \<Rightarrow> writing" where
  "write_rename_request = (\<lambda>(current, new_name). w_tlv svc_file_rename (\<lambda>w. w_seq
     [w_tlv (tag_context 0 True) (write_file_name current),
      w_tlv (tag_context 1 True) (write_file_name new_name)] w))"

definition decode_rename_request :: "tlv \<Rightarrow> mms_error + string \<times> string" where
  "decode_rename_request service_tlv =
    bindE (expect_service service_tlv svc_file_rename) (\<lambda>content.
      fst (thenE (read_file_name (tag_context 0 True) (reader_new content)) (\<lambda>current r.
           thenE (read_file_name (tag_context 1 True) r) (\<lambda>new_name r. (Inr (current, new_name), r)))))"

definition write_obtain_request :: "string \<times> string \<Rightarrow> writing" where
  "write_obtain_request = (\<lambda>(source, destination). w_tlv svc_obtain_file (\<lambda>w. w_seq
     [w_tlv (tag_context 1 True) (write_file_name source),
      w_tlv (tag_context 2 True) (write_file_name destination)] w))"

definition decode_obtain_request :: "tlv \<Rightarrow> mms_error + string \<times> string" where
  "decode_obtain_request service_tlv =
    bindE (expect_service service_tlv svc_obtain_file) (\<lambda>content.
      fst (thenE (map_errR MeBer (rd_read_if (tag_context 0 True) (reader_new content))) (\<lambda>_ r.
           thenE (read_file_name (tag_context 1 True) r) (\<lambda>source r.
           thenE (read_file_name (tag_context 2 True) r) (\<lambda>destination r.
             (Inr (source, destination), r))))))"

text \<open>The three answers are empty, with the number of the service as their tag.\<close>

definition encode_file_delete_response :: writing where
  "encode_file_delete_response = w_null (tag_context 76 False)"

definition encode_rename_response :: writing where
  "encode_rename_response = w_null (tag_context 75 False)"

definition encode_obtain_response :: writing where
  "encode_obtain_response = w_null (tag_context 46 False)"

definition decode_file_delete_response :: "tlv \<Rightarrow> mms_error + unit" where
  "decode_file_delete_response service_tlv = (if number (tlv_tag service_tlv) = 76 then Inr () else Inl MeUnexpectedPdu)"

definition decode_rename_response :: "tlv \<Rightarrow> mms_error + unit" where
  "decode_rename_response service_tlv = (if number (tlv_tag service_tlv) = 75 then Inr () else Inl MeUnexpectedPdu)"

definition decode_obtain_response :: "tlv \<Rightarrow> mms_error + unit" where
  "decode_obtain_response service_tlv = (if number (tlv_tag service_tlv) = 46 then Inr () else Inl MeUnexpectedPdu)"

section \<open>The services carry their meaning\<close>

definition name_bytes :: "string \<Rightarrow> bytes" where
  "name_bytes name = tlv_bytes graphic_string (as_bytes name)"

lemma write_file_name_put: "write_file_name name = put (name_bytes name)"
  by (simp add: write_file_name_def name_bytes_def w_put)

lemma decode_file_name_bytes:
  "slice_ok [] (name_bytes name) \<Longrightarrow> str_ok name \<Longrightarrow> decode_file_name (name_bytes name) = Inr name"
  using read_each_bytes [of "[name]" as_bytes "\<lambda>t. map_errE MeBer (decode_visible_string (tlv_content t))" "\<lambda>_. graphic_string" "[]" "[]"]
  by (simp add: decode_file_name_def name_bytes_def reader_new_at decode_visible_as_bytes)

lemma read_file_name_at:
  assumes "slice_ok pre (tlv_bytes t (name_bytes name) @ rest)" "str_ok name"
  shows "read_file_name t (rd_at pre (tlv_bytes t (name_bytes name) @ rest)) =
    (Inr name, rd_at (pre @ tlv_bytes t (name_bytes name)) rest)"
proof -
  have "slice_ok [] (name_bytes name)"
    using assms(1) length_content_less [of "name_bytes name" t] by (simp add: slice_ok_def)
  then show ?thesis
    using m_expect_at [of pre t "name_bytes name" rest] assms by (simp add: read_file_name_def decode_file_name_bytes slice_ok_def)
qed

definition file_entry_ok :: "file_entry \<Rightarrow> bool" where
  "file_entry_ok e \<longleftrightarrow> str_ok (fe_name e) \<and> (\<forall>lm. fe_last_modified e = Some lm \<longrightarrow> str_ok lm)"

definition attributes_ok :: "file_attributes \<Rightarrow> bool" where
  "attributes_ok a \<longleftrightarrow> (\<forall>lm. fa_last_modified a = Some lm \<longrightarrow> str_ok lm)"

definition attributes_content :: "file_attributes \<Rightarrow> bytes" where
  "attributes_content a = tlv_bytes (tag_context 0 False) (encode_unsigned (ucast (fa_size a))) @
    (case fa_last_modified a of Some lm \<Rightarrow> tlv_bytes (tag_context 1 False) (as_bytes lm) | None \<Rightarrow> [])"

lemma write_file_attributes_put:
  "write_file_attributes a = put (tlv_bytes (tag_context 1 True) (attributes_content a))"
  by (cases "fa_last_modified a") (simp_all add: write_file_attributes_def attributes_content_def w_put w_seq_simps)

lemma read_opt_visible_at:
  "slice_ok pre (tlv_bytes t (as_bytes s) @ rest) \<Longrightarrow> str_ok s \<Longrightarrow>
    read_opt_visible t (rd_at pre (tlv_bytes t (as_bytes s) @ rest)) =
      (Inr (Some s), rd_at (pre @ tlv_bytes t (as_bytes s)) rest)"
  "slice_ok pre (tlv_bytes t (as_bytes s)) \<Longrightarrow> str_ok s \<Longrightarrow>
    read_opt_visible t (rd_at pre (tlv_bytes t (as_bytes s))) =
      (Inr (Some s), rd_at (pre @ tlv_bytes t (as_bytes s)) [])"
  "read_opt_visible t (rd_at pre []) = (Inr None, rd_at pre [])"
  by (simp_all add: read_opt_visible_def reads decode_visible_as_bytes)

lemma decode_file_attributes_content:
  "slice_ok [] (attributes_content a) \<Longrightarrow> attributes_ok a \<Longrightarrow> decode_file_attributes (attributes_content a) = Inr a"
  by (cases "fa_last_modified a")
    (simp_all add: decode_file_attributes_def attributes_content_def read_unsigned_def reads decode_encode_unsigned
      read_opt_visible_at attributes_ok_def ucast_u32_u64)

lemma scast_i32_i64: "ucast (scast (x :: 32 word) :: 64 word) = x"
  by (rule bit_word_eqI) (auto simp: bit_simps)

lemma read_file_name_last:
  "slice_ok pre (tlv_bytes t (name_bytes name)) \<Longrightarrow> str_ok name \<Longrightarrow>
    read_file_name t (rd_at pre (tlv_bytes t (name_bytes name))) =
      (Inr name, rd_at (pre @ tlv_bytes t (name_bytes name)) [])"
  using read_file_name_at [of pre t name "[]"] by simp

subsection \<open>Opening, reading and closing\<close>

interpretation open_request: mms_service svc_file_open write_open_request decode_open_request "\<lambda>q. q" "\<lambda>q. str_ok (fst q)"
proof
  fix q :: "string \<times> u32" assume ok: "str_ok (fst q)"
  let ?c = "tlv_bytes (tag_context 0 True) (name_bytes (fst q)) @
    tlv_bytes (tag_context 1 False) (encode_unsigned (ucast (snd q)))"
  have "decode_open_request \<lparr>tlv_tag = svc_file_open, tlv_content = ?c\<rparr> = Inr q" if "length ?c < usize_limit"
    using that [folded slice_ok_Nil] ok
    by (simp add: decode_open_request_def read_file_name_at read_unsigned_def reads decode_encode_unsigned ucast_u32_u64)
  moreover have "write_open_request q = put (tlv_bytes svc_file_open ?c)"
    by (simp add: write_open_request_def case_prod_unfold w_put write_file_name_put)
  ultimately show "\<exists>c. write_open_request q = put (tlv_bytes svc_file_open c) \<and>
      (length c < usize_limit \<longrightarrow> decode_open_request \<lparr>tlv_tag = svc_file_open, tlv_content = c\<rparr> = Inr q)"
    by blast
qed

interpretation opened_file: mms_service svc_file_open encode_open_response decode_open_response "\<lambda>f. f"
    "\<lambda>f. attributes_ok (fo_attributes f)"
proof
  fix f :: file_open assume ok: "attributes_ok (fo_attributes f)"
  let ?c = "tlv_bytes (tag_context 0 False) (encode_integer (scast (fo_frsm_id f))) @
    tlv_bytes (tag_context 1 True) (attributes_content (fo_attributes f))"
  have "decode_open_response \<lparr>tlv_tag = svc_file_open, tlv_content = ?c\<rparr> = Inr f" if "length ?c < usize_limit"
  proof -
    have s: "slice_ok [] ?c" using that by (simp add: slice_ok_Nil)
    then show ?thesis
      using decode_file_attributes_content [OF inner_slice_rest [OF s] ok]
      by (simp add: decode_open_response_def read_int_def reads decode_encode_integer scast_i32_i64)
  qed
  moreover have "encode_open_response f = put (tlv_bytes svc_file_open ?c)"
    by (simp add: encode_open_response_def w_put write_file_attributes_put)
  ultimately show "\<exists>c. encode_open_response f = put (tlv_bytes svc_file_open c) \<and>
      (length c < usize_limit \<longrightarrow> decode_open_response \<lparr>tlv_tag = svc_file_open, tlv_content = c\<rparr> = Inr f)"
    by blast
qed

interpretation read_request: mms_service svc_file_read write_read_request decode_read_request "\<lambda>i. i" "\<lambda>i. True"
proof
  fix i :: u32
  show "\<exists>c. write_read_request i = put (tlv_bytes svc_file_read c) \<and>
      (length c < usize_limit \<longrightarrow> decode_read_request \<lparr>tlv_tag = svc_file_read, tlv_content = c\<rparr> = Inr i)"
    by (intro exI [of _ "encode_integer (scast i)"])
      (simp add: write_read_request_def w_put decode_read_request_def tlv_expect_def decode_encode_integer scast_i32_i64)
qed

interpretation file_chunks: mms_service svc_file_read_response encode_read_response decode_read_response "\<lambda>c. c" "\<lambda>c. True"
proof
  fix k :: file_chunk
  let ?c = "tlv_bytes (tag_context 0 False) (fc_data k) @
    (if fc_more_follows k then [] else tlv_bytes (tag_context 1 False) (encode_bool False))"
  have "decode_read_response \<lparr>tlv_tag = svc_file_read_response, tlv_content = ?c\<rparr> = Inr k" if "length ?c < usize_limit"
    using that [folded slice_ok_Nil]
    by (cases "fc_more_follows k") (simp_all add: decode_read_response_def reads decode_encode_bool)
  moreover have "encode_read_response k = put (tlv_bytes svc_file_read_response ?c)"
    by (cases "fc_more_follows k") (simp_all add: encode_read_response_def w_put write_if_def w_seq_simps)
  ultimately show "\<exists>c. encode_read_response k = put (tlv_bytes svc_file_read_response c) \<and>
      (length c < usize_limit \<longrightarrow> decode_read_response \<lparr>tlv_tag = svc_file_read_response, tlv_content = c\<rparr> = Inr k)"
    by blast
qed

interpretation close_request: mms_service svc_file_close write_close_request decode_close_request "\<lambda>i. i" "\<lambda>i. True"
proof
  fix i :: u32
  show "\<exists>c. write_close_request i = put (tlv_bytes svc_file_close c) \<and>
      (length c < usize_limit \<longrightarrow> decode_close_request \<lparr>tlv_tag = svc_file_close, tlv_content = c\<rparr> = Inr i)"
    by (intro exI [of _ "encode_integer (scast i)"])
      (simp add: write_close_request_def w_put decode_close_request_def tlv_expect_def decode_encode_integer scast_i32_i64)
qed

text \<open>The client reads nothing of the answer to a fileClose but that it is one.\<close>

interpretation close_response: mms_service svc_file_close "\<lambda>u. encode_close_response" "\<lambda>t. Inr ()" "\<lambda>u. u" "\<lambda>u. True"
  by standard (auto simp: encode_close_response_def w_put)

subsection \<open>Deleting, renaming and obtaining\<close>

interpretation delete_request: mms_service svc_file_delete write_file_delete_request decode_file_delete_request "\<lambda>n. n" str_ok
proof
  fix n assume "str_ok n"
  then show "\<exists>c. write_file_delete_request n = put (tlv_bytes svc_file_delete c) \<and>
      (length c < usize_limit \<longrightarrow> decode_file_delete_request \<lparr>tlv_tag = svc_file_delete, tlv_content = c\<rparr> = Inr n)"
    by (intro exI [of _ "name_bytes n"])
      (simp add: write_file_delete_request_def w_put write_file_name_put decode_file_delete_request_def tlv_expect_def
        decode_file_name_bytes slice_ok_Nil)
qed

interpretation rename_request: mms_service svc_file_rename write_rename_request decode_rename_request "\<lambda>q. q"
    "\<lambda>q. str_ok (fst q) \<and> str_ok (snd q)"
proof
  fix q :: "string \<times> string" assume ok: "str_ok (fst q) \<and> str_ok (snd q)"
  let ?c = "tlv_bytes (tag_context 0 True) (name_bytes (fst q)) @ tlv_bytes (tag_context 1 True) (name_bytes (snd q))"
  have "decode_rename_request \<lparr>tlv_tag = svc_file_rename, tlv_content = ?c\<rparr> = Inr q" if "length ?c < usize_limit"
    using that [folded slice_ok_Nil] ok
    by (simp add: decode_rename_request_def read_file_name_at read_file_name_last reads)
  moreover have "write_rename_request q = put (tlv_bytes svc_file_rename ?c)"
    by (simp add: write_rename_request_def case_prod_unfold w_put write_file_name_put)
  ultimately show "\<exists>c. write_rename_request q = put (tlv_bytes svc_file_rename c) \<and>
      (length c < usize_limit \<longrightarrow> decode_rename_request \<lparr>tlv_tag = svc_file_rename, tlv_content = c\<rparr> = Inr q)"
    by blast
qed

interpretation obtain_request: mms_service svc_obtain_file write_obtain_request decode_obtain_request "\<lambda>q. q"
    "\<lambda>q. str_ok (fst q) \<and> str_ok (snd q)"
proof
  fix q :: "string \<times> string" assume ok: "str_ok (fst q) \<and> str_ok (snd q)"
  let ?c = "tlv_bytes (tag_context 1 True) (name_bytes (fst q)) @ tlv_bytes (tag_context 2 True) (name_bytes (snd q))"
  have "decode_obtain_request \<lparr>tlv_tag = svc_obtain_file, tlv_content = ?c\<rparr> = Inr q" if "length ?c < usize_limit"
    using that [folded slice_ok_Nil] ok
    by (simp add: decode_obtain_request_def read_file_name_at read_file_name_last reads)
  moreover have "write_obtain_request q = put (tlv_bytes svc_obtain_file ?c)"
    by (simp add: write_obtain_request_def case_prod_unfold w_put write_file_name_put)
  ultimately show "\<exists>c. write_obtain_request q = put (tlv_bytes svc_obtain_file c) \<and>
      (length c < usize_limit \<longrightarrow> decode_obtain_request \<lparr>tlv_tag = svc_obtain_file, tlv_content = c\<rparr> = Inr q)"
    by blast
qed

interpretation delete_response: mms_service "tag_context 76 False" "\<lambda>u. encode_file_delete_response" decode_file_delete_response "\<lambda>u. u" "\<lambda>u. True"
  by standard (auto simp: encode_file_delete_response_def decode_file_delete_response_def w_put tag_context_def)

interpretation rename_response: mms_service "tag_context 75 False" "\<lambda>u. encode_rename_response" decode_rename_response "\<lambda>u. u" "\<lambda>u. True"
  by standard (auto simp: encode_rename_response_def decode_rename_response_def w_put tag_context_def)

interpretation obtain_response: mms_service "tag_context 46 False" "\<lambda>u. encode_obtain_response" decode_obtain_response "\<lambda>u. u" "\<lambda>u. True"
  by standard (auto simp: encode_obtain_response_def decode_obtain_response_def w_put tag_context_def)

subsection \<open>Directories\<close>

lemma read_opt_file_name_at:
  assumes "slice_ok pre (tlv_bytes t (name_bytes name) @ rest)" "str_ok name"
  shows "read_opt_file_name t (rd_at pre (tlv_bytes t (name_bytes name) @ rest)) =
    (Inr (Some name), rd_at (pre @ tlv_bytes t (name_bytes name)) rest)"
proof -
  have "slice_ok [] (name_bytes name)"
    using assms(1) length_content_less [of "name_bytes name" t] by (simp add: slice_ok_def)
  then show ?thesis
    using assms by (simp add: read_opt_file_name_def reads decode_file_name_bytes)
qed

lemma read_opt_file_name_last:
  "slice_ok pre (tlv_bytes t (name_bytes name)) \<Longrightarrow> str_ok name \<Longrightarrow>
    read_opt_file_name t (rd_at pre (tlv_bytes t (name_bytes name))) =
      (Inr (Some name), rd_at (pre @ tlv_bytes t (name_bytes name)) [])"
  using read_opt_file_name_at [of pre t name "[]"] by simp

lemma read_opt_file_name_other:
  "slice_ok pre (tlv_bytes u c) \<Longrightarrow> u \<noteq> t \<Longrightarrow>
    read_opt_file_name t (rd_at pre (tlv_bytes u c)) = (Inr None, rd_at pre (tlv_bytes u c))"
  "read_opt_file_name t (rd_at pre []) = (Inr None, rd_at pre [])"
  by (simp_all add: read_opt_file_name_def reads)

lemma read_opt_file_name_whole:
  "slice_ok (tlv_bytes t (name_bytes name)) [] \<Longrightarrow> str_ok name \<Longrightarrow>
    read_opt_file_name t (rd_at [] (tlv_bytes t (name_bytes name))) = (Inr (Some name), rd_at (tlv_bytes t (name_bytes name)) [])"
  "slice_ok (tlv_bytes u c) [] \<Longrightarrow> u \<noteq> t \<Longrightarrow>
    read_opt_file_name t (rd_at [] (tlv_bytes u c)) = (Inr None, rd_at [] (tlv_bytes u c))"
  using read_opt_file_name_last [of "[]" t name] read_opt_file_name_other(1) [of "[]" u c t]
  by (simp_all add: slice_ok_def)

lemma empty_tlv: "w_tlv t (\<lambda>w. w) = put (tlv_bytes t [])"
  by (simp add: no_writing w_put)

definition opt_name_ok :: "string option \<Rightarrow> bool" where
  "opt_name_ok n \<longleftrightarrow> (case n of Some s \<Rightarrow> str_ok s | None \<Rightarrow> True)"

interpretation directory_request: mms_service svc_file_directory write_directory_request decode_directory_request "\<lambda>q. q"
    "\<lambda>q. opt_name_ok (fst q) \<and> opt_name_ok (snd q)"
proof
  fix q :: "string option \<times> string option" assume ok: "opt_name_ok (fst q) \<and> opt_name_ok (snd q)"
  let ?c = "(case fst q of Some p \<Rightarrow> tlv_bytes (tag_context 0 True) (name_bytes p) | None \<Rightarrow> []) @
    (case snd q of Some c \<Rightarrow> tlv_bytes (tag_context 1 True) (name_bytes c) | None \<Rightarrow> [])"
  have "decode_directory_request \<lparr>tlv_tag = svc_file_directory, tlv_content = ?c\<rparr> = Inr q" if "length ?c < usize_limit"
  proof -
    have "slice_ok [] ?c" using that by (simp add: slice_ok_Nil)
    then show ?thesis
      using ok
      by (cases q; cases "fst q"; cases "snd q")
        (simp_all add: decode_directory_request_def reads read_opt_file_name_at read_opt_file_name_last
          read_opt_file_name_other read_opt_file_name_whole opt_name_ok_def)
  qed
  moreover have "write_directory_request q = put (tlv_bytes svc_file_directory ?c)"
    by (cases "fst q"; cases "snd q")
      (simp_all add: write_directory_request_def case_prod_unfold w_put write_file_name_put w_seq_simps empty_tlv)
  ultimately show "\<exists>c. write_directory_request q = put (tlv_bytes svc_file_directory c) \<and>
      (length c < usize_limit \<longrightarrow> decode_directory_request \<lparr>tlv_tag = svc_file_directory, tlv_content = c\<rparr> = Inr q)"
    by blast
qed

definition entry_content :: "file_entry \<Rightarrow> bytes" where
  "entry_content e = tlv_bytes (tag_context 0 True) (name_bytes (fe_name e)) @
    tlv_bytes (tag_context 1 True) (attributes_content \<lparr>fa_size = fe_size e, fa_last_modified = fe_last_modified e\<rparr>)"

lemma write_directory_entry_put: "write_directory_entry e = put (tlv_bytes u_sequence (entry_content e))"
  by (simp add: write_directory_entry_def entry_content_def w_put write_file_name_put write_file_attributes_put u_sequence_def)

lemma decode_directory_entry_content:
  assumes "slice_ok [] (entry_content e)" "file_entry_ok e"
  shows "decode_directory_entry (entry_content e) = Inr e"
    "peek_tag (reader_new (entry_content e)) = Inr (tag_context 0 True)"
proof -
  note s = assms(1) [unfolded entry_content_def]
  have a: "attributes_ok \<lparr>fa_size = fe_size e, fa_last_modified = fe_last_modified e\<rparr>"
    using assms(2) by (simp add: attributes_ok_def file_entry_ok_def)
  show "decode_directory_entry (entry_content e) = Inr e"
    using s assms(2) decode_file_attributes_content [OF inner_slice_rest [OF s] a]
    by (simp add: decode_directory_entry_def entry_content_def read_file_name_at reads file_entry_ok_def)
  show "peek_tag (reader_new (entry_content e)) = Inr (tag_context 0 True)"
    using s by (simp add: entry_content_def reader_new_at peek_tag_at)
qed

lemma read_entries:
  assumes "\<forall>e \<in> set es. length (c e) < usize_limit \<longrightarrow> f \<lparr>tlv_tag = t, tlv_content = c e\<rparr> = Inr [e]"
    "slice_ok pre (concat (map (\<lambda>e. tlv_bytes t (c e)) es))"
  shows "read_each f (rd_at pre (concat (map (\<lambda>e. tlv_bytes t (c e)) es))) out = Inr (out @ map (\<lambda>e. [e]) es)"
  using read_each_bytes [of "map (\<lambda>e. [e]) es" "\<lambda>x. c (hd x)" f "\<lambda>_. t" pre out] assms by (auto simp: o_def)

interpretation directory_listing: mms_service svc_file_directory encode_directory_response decode_directory_response "\<lambda>d. d"
    "\<lambda>d. list_all file_entry_ok (fd_entries d)"
proof
  fix d :: file_directory assume ok: "list_all file_entry_ok (fd_entries d)"
  let ?es = "concat (map (\<lambda>e. tlv_bytes u_sequence (entry_content e)) (fd_entries d))"
  let ?c = "tlv_bytes (tag_context 0 True) ?es @
    (if fd_more_follows d then tlv_bytes (tag_context 1 False) (encode_bool True) else [])"
  have "decode_directory_response \<lparr>tlv_tag = svc_file_directory, tlv_content = ?c\<rparr> = Inr d" if "length ?c < usize_limit"
  proof -
    have s: "slice_ok [] ?c" using that by (simp add: slice_ok_Nil)
    then have i: "slice_ok [] ?es" by (rule inner_slice_first)
    let ?f = "\<lambda>t. if peek_tag (reader_new (tlv_content t)) = Inr (tag_context 0 True)
        then bindE (decode_directory_entry (tlv_content t)) (\<lambda>e. Inr [e])
        else collect_directory_entries 2 (tlv_content t)"
    have "read_each ?f (rd_at [] ?es) [] = Inr ([] @ map (\<lambda>e. [e]) (fd_entries d))"
      using i ok by (intro read_entries) (auto simp: list_all_iff decode_directory_entry_content slice_ok_Nil)
    moreover have "3 = Suc 2" by simp
    ultimately have "collect_directory_entries 3 ?es = Inr (fd_entries d)"
      by (simp only: collect_directory_entries.simps reader_new_at) simp
    then show ?thesis using s by (cases "fd_more_follows d") (simp_all add: decode_directory_response_def reads decode_encode_bool)
  qed
  moreover have "encode_directory_response d = put (tlv_bytes svc_file_directory ?c)"
    by (cases "fd_more_follows d")
      (simp_all add: encode_directory_response_def w_field [where f = write_directory_entry, OF write_directory_entry_put] w_put write_if_def w_seq_simps)
  ultimately show "\<exists>c. encode_directory_response d = put (tlv_bytes svc_file_directory c) \<and>
      (length c < usize_limit \<longrightarrow> decode_directory_response \<lparr>tlv_tag = svc_file_directory, tlv_content = c\<rparr> = Inr d)"
    by blast
qed

end
