(* ===== verification/FileStore.thy ===== *)
theory FileStore imports FilePdu Reservations "HOL-Library.AList" "HOL-Library.Sublist" begin

text \<open>
  The file providers of a server (\<open>file.rs\<close>: \<open>FileProvider\<close>, \<open>DirFileProvider\<close>) over the operations of
  \<open>std::fs\<close> and \<open>std::path\<close> they use, on a file system without links (Unix paths; failures other than
  those the tree gives are left out). The lemmas show that a directory's provider is confined to its
  directory, and that it stores what it is given (the contract \<open>file_store\<close>).
\<close>

unbundle bit_operations_syntax

section \<open>File providers\<close>

text \<open>Errors of \<open>std::io\<close>, as far as the operations of a provider give them.\<close>

datatype fs_error = FsNotFound | FsInvalidInput | FsUnsupported | FsIsADirectory | FsNotADirectory | FsDirectoryNotEmpty

text \<open>The trait, over the state its files are kept in. A provider that only reads has the last three
  operations of \<open>read_only\<close>.\<close>

record 'f file_provider =
  fp_list :: "string option \<Rightarrow> 'f \<Rightarrow> fs_error + file_entry list"
  fp_read :: "string \<Rightarrow> 'f \<Rightarrow> fs_error + bytes"
  fp_write :: "string \<Rightarrow> bytes \<Rightarrow> 'f \<Rightarrow> (fs_error + unit) \<times> 'f"
  fp_delete :: "string \<Rightarrow> 'f \<Rightarrow> (fs_error + unit) \<times> 'f"
  fp_rename :: "string \<Rightarrow> string \<Rightarrow> 'f \<Rightarrow> (fs_error + unit) \<times> 'f"

definition read_only :: "(string option \<Rightarrow> 'f \<Rightarrow> fs_error + file_entry list) \<Rightarrow> (string \<Rightarrow> 'f \<Rightarrow> fs_error + bytes) \<Rightarrow> 'f file_provider" where
  "read_only list' read' = \<lparr>fp_list = list', fp_read = read',
     fp_write = (\<lambda>_ _ f. (Inl FsUnsupported, f)), fp_delete = (\<lambda>_ f. (Inl FsUnsupported, f)),
     fp_rename = (\<lambda>_ _ f. (Inl FsUnsupported, f))\<rparr>"

subsection \<open>The file system of the standard library\<close>

text \<open>A tree without links: paths from the root, each a directory or a file with its octets. Operations
  fail for the reasons the tree gives.\<close>

type_synonym path = "string list"
datatype fs_node = FsDir | FsFile bytes
type_synonym fs = "(path \<times> fs_node) list"

definition fs_lookup :: "fs \<Rightarrow> path \<Rightarrow> fs_node option" where
  "fs_lookup fs p = (if p = [] then Some FsDir else map_of fs p)"

definition fs_read :: "path \<Rightarrow> fs \<Rightarrow> fs_error + bytes" where
  "fs_read p fs = (case fs_lookup fs p of
      Some (FsFile d) \<Rightarrow> Inr d | Some FsDir \<Rightarrow> Inl FsIsADirectory | None \<Rightarrow> Inl FsNotFound)"

definition fs_read_dir :: "path \<Rightarrow> fs \<Rightarrow> fs_error + (string \<times> fs_node) list" where
  "fs_read_dir p fs = (case fs_lookup fs p of
      Some FsDir \<Rightarrow> Inr (map (\<lambda>(q, n). (last q, n)) (filter (\<lambda>(q, n). q \<noteq> [] \<and> butlast q = p) fs))
    | Some (FsFile d) \<Rightarrow> Inl FsNotADirectory | None \<Rightarrow> Inl FsNotFound)"

fun fs_create_dirs :: "path \<Rightarrow> path \<Rightarrow> fs \<Rightarrow> (fs_error + unit) \<times> fs" where
  "fs_create_dirs prev [] fs = (Inr (), fs)"
| "fs_create_dirs prev (c # cs) fs =
    (case fs_lookup fs (prev @ [c]) of
       Some FsDir \<Rightarrow> fs_create_dirs (prev @ [c]) cs fs
     | Some (FsFile d) \<Rightarrow> (Inl FsNotADirectory, fs)
     | None \<Rightarrow> fs_create_dirs (prev @ [c]) cs (AList.update (prev @ [c]) FsDir fs))"

definition fs_create_dir_all :: "path \<Rightarrow> fs \<Rightarrow> (fs_error + unit) \<times> fs" where
  "fs_create_dir_all p fs = fs_create_dirs [] p fs"

definition fs_write :: "path \<Rightarrow> bytes \<Rightarrow> fs \<Rightarrow> (fs_error + unit) \<times> fs" where
  "fs_write p d fs =
    (if fs_lookup fs p = Some FsDir then (Inl FsIsADirectory, fs)
     else if fs_lookup fs (butlast p) = Some FsDir then (Inr (), AList.update p (FsFile d) fs)
     else (Inl FsNotFound, fs))"

definition fs_remove_file :: "path \<Rightarrow> fs \<Rightarrow> (fs_error + unit) \<times> fs" where
  "fs_remove_file p fs = (case fs_lookup fs p of
      Some (FsFile d) \<Rightarrow> (Inr (), AList.delete p fs)
    | Some FsDir \<Rightarrow> (Inl FsIsADirectory, fs) | None \<Rightarrow> (Inl FsNotFound, fs))"

definition fs_move_tree :: "path \<Rightarrow> path \<Rightarrow> fs \<Rightarrow> fs" where
  "fs_move_tree a b fs =
    map (\<lambda>(p, n). if prefix a p then (b @ drop (length a) p, n) else (p, n)) (AList.delete b fs)"

definition fs_rename :: "path \<Rightarrow> path \<Rightarrow> fs \<Rightarrow> (fs_error + unit) \<times> fs" where
  "fs_rename a b fs = (case fs_lookup fs a of
      None \<Rightarrow> (Inl FsNotFound, fs)
    | Some n \<Rightarrow>
      if a = b then (Inr (), fs)
      else if fs_lookup fs (butlast b) \<noteq> Some FsDir then (Inl FsNotFound, fs)
      else (case n of
          FsFile d \<Rightarrow> if fs_lookup fs b = Some FsDir then (Inl FsIsADirectory, fs)
            else (Inr (), AList.update b (FsFile d) (AList.delete a fs))
        | FsDir \<Rightarrow> if prefix a b then (Inl FsInvalidInput, fs)
            else (case fs_lookup fs b of
                Some (FsFile d) \<Rightarrow> (Inl FsNotADirectory, fs)
              | Some FsDir \<Rightarrow> if list_ex (\<lambda>(p, n). p \<noteq> b \<and> prefix b p) fs then (Inl FsDirectoryNotEmpty, fs)
                  else (Inr (), fs_move_tree a b fs)
              | None \<Rightarrow> (Inr (), fs_move_tree a b fs))))"

subsection \<open>The provider of a directory\<close>

fun split_slash :: "string \<Rightarrow> string list" where
  "split_slash [] = [[]]"
| "split_slash (c # s) = (if c = CHR ''/'' then [] # split_slash s
     else (case split_slash s of p # ps \<Rightarrow> (c # p) # ps | [] \<Rightarrow> [[c]]))"

text \<open>\<open>Path::components\<close>: empty parts are left out, and \<open>.\<close> except in front.\<close>

datatype path_component = RootDir | CurDir | ParentDir | NormalPart string

definition path_components :: "string \<Rightarrow> path_component list" where
  "path_components s =
    (if starts_with ''/'' s then [RootDir] else if hd (split_slash s) = ''.'' then [CurDir] else []) @
    map (\<lambda>p. if p = ''..'' then ParentDir else NormalPart p) (filter (\<lambda>p. p \<noteq> [] \<and> p \<noteq> ''.'') (split_slash s))"

definition trim_slashes :: "string \<Rightarrow> string" where
  "trim_slashes s = dropWhile (\<lambda>c. c = CHR ''/'') s"

fun push_components :: "path \<Rightarrow> path_component list \<Rightarrow> fs_error + path" where
  "push_components p [] = Inr p"
| "push_components p (NormalPart c # cs) = push_components (p @ [c]) cs"
| "push_components p (_ # cs) = Inl FsInvalidInput"

definition resolve_file :: "path \<Rightarrow> string \<Rightarrow> fs_error + path" where
  "resolve_file base name = push_components base (path_components (trim_slashes name))"

definition directory_entry :: "string \<Rightarrow> string \<times> fs_node \<Rightarrow> file_entry" where
  "directory_entry dir_rel = (\<lambda>(base_name, n).
     let full = (if dir_rel = [] then base_name else dir_rel @ ''/'' @ base_name)
     in case n of
          FsDir \<Rightarrow> \<lparr>fe_name = full @ ''/'', fe_size = 0, fe_last_modified = None\<rparr>
        | FsFile d \<Rightarrow> \<lparr>fe_name = full, fe_size = of_nat (length d), fe_last_modified = None\<rparr>)"

definition dir_list :: "path \<Rightarrow> string option \<Rightarrow> fs \<Rightarrow> fs_error + file_entry list" where
  "dir_list base prefix' fs =
    (let prefix' = (case prefix' of Some p \<Rightarrow> trim_slashes p | None \<Rightarrow> []);
         (dir_rel, filter') = (case rsplit_once (CHR ''/'') prefix' of Some (d, f) \<Rightarrow> (d, f) | None \<Rightarrow> ([], prefix'))
     in bindE (if dir_rel = [] then Inr base else resolve_file base dir_rel) (\<lambda>dir.
        bindE (fs_read_dir dir fs) (\<lambda>entries.
          Inr (sort_key fe_name (map (directory_entry dir_rel)
            (filter (\<lambda>(name, n). filter' = [] \<or> starts_with filter' name) entries))))))"

definition dir_read :: "path \<Rightarrow> string \<Rightarrow> fs \<Rightarrow> fs_error + bytes" where
  "dir_read base name fs = bindE (resolve_file base name) (\<lambda>p. fs_read p fs)"

text \<open>The root has no parent; every other path has its own.\<close>

definition dir_write :: "path \<Rightarrow> string \<Rightarrow> bytes \<Rightarrow> fs \<Rightarrow> (fs_error + unit) \<times> fs" where
  "dir_write base name d fs = (case resolve_file base name of
      Inl e \<Rightarrow> (Inl e, fs)
    | Inr p \<Rightarrow>
      (case if p = [] then (Inr (), fs) else fs_create_dir_all (butlast p) fs of
         (Inl e, fs) \<Rightarrow> (Inl e, fs)
       | (Inr _, fs) \<Rightarrow> fs_write p d fs))"

definition dir_delete :: "path \<Rightarrow> string \<Rightarrow> fs \<Rightarrow> (fs_error + unit) \<times> fs" where
  "dir_delete base name fs = (case resolve_file base name of
      Inl e \<Rightarrow> (Inl e, fs) | Inr p \<Rightarrow> fs_remove_file p fs)"

definition dir_rename :: "path \<Rightarrow> string \<Rightarrow> string \<Rightarrow> fs \<Rightarrow> (fs_error + unit) \<times> fs" where
  "dir_rename base current new_name fs = (case resolve_file base current of
      Inl e \<Rightarrow> (Inl e, fs)
    | Inr a \<Rightarrow> (case resolve_file base new_name of Inl e \<Rightarrow> (Inl e, fs) | Inr b \<Rightarrow> fs_rename a b fs))"

definition dir_file_provider :: "path \<Rightarrow> fs file_provider" where
  "dir_file_provider base = \<lparr>fp_list = dir_list base, fp_read = dir_read base, fp_write = dir_write base,
     fp_delete = dir_delete base, fp_rename = dir_rename base\<rparr>"

section \<open>Confinement\<close>

lemma push_components_below:
  "push_components p cs = Inr q \<Longrightarrow> prefix base p \<Longrightarrow> prefix base q"
  by (induction p cs rule: push_components.induct) auto

lemma resolve_below: "resolve_file base name = Inr p \<Longrightarrow> prefix base p"
  unfolding resolve_file_def by (erule push_components_below) simp

text \<open>What may change outside a directory: the directories on the way to it may come into being.\<close>

definition kept_outside :: "path \<Rightarrow> fs \<Rightarrow> fs \<Rightarrow> bool" where
  "kept_outside base fs fs' \<longleftrightarrow> (\<forall>p. \<not> prefix base p \<longrightarrow>
     fs_lookup fs' p = fs_lookup fs p \<or> fs_lookup fs p = None \<and> fs_lookup fs' p = Some FsDir \<and> prefix p base)"

lemma kept_outside_refl [simp]: "kept_outside base fs fs"
  by (simp add: kept_outside_def)

lemma kept_outside_trans: "kept_outside base f g \<Longrightarrow> kept_outside base g h \<Longrightarrow> kept_outside base f h"
  unfolding kept_outside_def
proof (intro allI impI)
  fix p assume "\<forall>p. \<not> prefix base p \<longrightarrow> fs_lookup g p = fs_lookup f p \<or> fs_lookup f p = None \<and> fs_lookup g p = Some FsDir \<and> prefix p base"
    "\<forall>p. \<not> prefix base p \<longrightarrow> fs_lookup h p = fs_lookup g p \<or> fs_lookup g p = None \<and> fs_lookup h p = Some FsDir \<and> prefix p base"
    "\<not> prefix base p"
  then show "fs_lookup h p = fs_lookup f p \<or> fs_lookup f p = None \<and> fs_lookup h p = Some FsDir \<and> prefix p base"
    by (elim allE [where x = p]) auto
qed

lemma fs_lookup_update: "p \<noteq> [] \<Longrightarrow> fs_lookup (AList.update p n fs) q = (if q = p then Some n else fs_lookup fs q)"
  by (auto simp: fs_lookup_def map_of_update)

lemma fs_lookup_delete: "q \<noteq> p \<Longrightarrow> fs_lookup (AList.delete p fs) q = fs_lookup fs q"
  by (auto simp: fs_lookup_def map_of_delete)

lemma create_dirs_lookup:
  "fs_create_dirs prev cs fs = (r, fs') \<Longrightarrow>
    fs_lookup fs' p = fs_lookup fs p \<or>
      fs_lookup fs p = None \<and> fs_lookup fs' p = Some FsDir \<and> (\<exists>k. k \<noteq> [] \<and> p = prev @ k \<and> prefix k cs)"
proof (induction prev cs fs rule: fs_create_dirs.induct)
  case (2 prev c cs fs)
  have deeper: "(\<exists>k. k \<noteq> [] \<and> p = (prev @ [c]) @ k \<and> prefix k cs) \<Longrightarrow> \<exists>k. k \<noteq> [] \<and> p = prev @ k \<and> prefix k (c # cs)"
    by auto
  have here: "\<exists>k. k \<noteq> [] \<and> prev @ [c] = prev @ k \<and> prefix k (c # cs)" by auto
  show ?case
  proof (cases "fs_lookup fs (prev @ [c])")
    case None
    then have "fs_create_dirs (prev @ [c]) cs (AList.update (prev @ [c]) FsDir fs) = (r, fs')" using 2(3) by simp
    from 2(1) [OF None this] deeper here None show ?thesis
      by (auto simp: fs_lookup_update split: if_splits)
  next
    case (Some n)
    then show ?thesis using 2 deeper by (cases n) auto
  qed
qed simp

lemma dir_write_kept: "dir_write base n d fs = (r, fs') \<Longrightarrow> kept_outside base fs fs'"
proof -
  assume w: "dir_write base n d fs = (r, fs')"
  show ?thesis
  proof (cases "resolve_file base n")
    case (Inr p)
    note b = resolve_below [OF Inr]
    obtain r1 fs1 where c: "(if p = [] then (Inr (), fs) else fs_create_dir_all (butlast p) fs) = (r1, fs1)" by (metis surj_pair)
    have k1: "kept_outside base fs fs1"
      unfolding kept_outside_def
    proof (intro allI impI)
      fix q assume q: "\<not> prefix base q"
      show "fs_lookup fs1 q = fs_lookup fs q \<or> fs_lookup fs q = None \<and> fs_lookup fs1 q = Some FsDir \<and> prefix q base"
      proof (cases "p = []")
        case False
        then have "fs_create_dirs [] (butlast p) fs = (r1, fs1)" using c by (simp add: fs_create_dir_all_def)
        from create_dirs_lookup [OF this, of q] show ?thesis
          using q b prefix_same_cases [of base p q] prefix_order.trans [OF _ prefixeq_butlast, of q p] by auto
      qed (use c in simp)
    qed
    moreover have "kept_outside base fs1 fs'" if "fs_write p d fs1 = (r, fs')"
    proof (cases "p = []")
      case True
      then show ?thesis using that by (simp add: fs_write_def fs_lookup_def)
    next
      case False
      then show ?thesis using that b by (auto simp: fs_write_def kept_outside_def fs_lookup_update split: if_splits)
    qed
    moreover have "fs_write p d fs1 = (r, fs') \<or> fs' = fs1"
      using w Inr c by (auto simp: dir_write_def split: sum.splits)
    ultimately show ?thesis using kept_outside_trans by blast
  qed (use w in \<open>simp add: dir_write_def\<close>)
qed

lemma dir_delete_kept: "dir_delete base n fs = (r, fs') \<Longrightarrow> kept_outside base fs fs'"
  using resolve_below [of base n]
  by (auto simp: dir_delete_def fs_remove_file_def kept_outside_def fs_lookup_delete split: sum.splits option.splits fs_node.splits)

lemma map_of_move:
  assumes "\<not> prefix a q" "\<not> prefix b q"
  shows "map_of (map (\<lambda>(p, n). if prefix a p then (b @ drop (length a) p, n) else (p, n)) xs) q = map_of xs q"
  using assms by (induction xs) auto

lemma dir_rename_kept: "dir_rename base a b fs = (r, fs') \<Longrightarrow> kept_outside base fs fs'"
proof -
  assume r: "dir_rename base a b fs = (r, fs')"
  show ?thesis
  proof (cases "resolve_file base a")
    case a: (Inr p)
    show ?thesis
    proof (cases "resolve_file base b")
      case b: (Inr q)
      have "fs_lookup fs' x = fs_lookup fs x" if x: "\<not> prefix base x" for x
      proof -
        have n: "\<not> prefix p x" "\<not> prefix q x" "x \<noteq> p" "x \<noteq> q"
          using resolve_below [OF a] resolve_below [OF b] x by (auto dest: prefix_order.trans)
        then have "fs_lookup (fs_move_tree p q fs) x = fs_lookup fs x"
          by (simp add: fs_move_tree_def fs_lookup_def map_of_move map_of_delete)
        moreover have "fs_lookup (AList.update q (FsFile d) (AList.delete p fs)) x = fs_lookup fs x" for d
          using n by (cases "x = []") (auto simp: fs_lookup_def map_of_update map_of_delete)
        ultimately show ?thesis
          using r a b by (auto simp: dir_rename_def fs_rename_def split: option.splits if_splits fs_node.splits)
      qed
      then show ?thesis by (simp add: kept_outside_def)
    qed (use r a in \<open>simp add: dir_rename_def\<close>)
  qed (use r in \<open>simp add: dir_rename_def\<close>)
qed

section \<open>What the services rely on\<close>

text \<open>What clients do to the files one after the other.\<close>

fun file_event :: "'f file_provider \<Rightarrow> string \<times> bytes option \<Rightarrow> 'f \<Rightarrow> 'f" where
  "file_event prov (n, Some d) f = snd (fp_write prov n d f)"
| "file_event prov (n, None) f = snd (fp_delete prov n f)"

text \<open>The contract of a provider that stores: names that denote one file are \<open>same\<close>.\<close>

locale file_store =
  fixes prov :: "'f file_provider" and same :: "string \<Rightarrow> string \<Rightarrow> bool"
  assumes write_read: "fp_write prov n d f = (Inr (), f') \<Longrightarrow> fp_read prov n f' = Inr d"
    and write_keeps: "fp_write prov n d f = (r, f') \<Longrightarrow> \<not> same n m \<Longrightarrow> fp_read prov m f' = Inr x \<longleftrightarrow> fp_read prov m f = Inr x"
    and write_failed: "fp_write prov n d f = (Inl e, f') \<Longrightarrow> fp_read prov m f' = Inr x \<longleftrightarrow> fp_read prov m f = Inr x"
    and delete_gone: "fp_delete prov n f = (Inr (), f') \<Longrightarrow> fp_read prov n f' \<noteq> Inr x"
    and delete_keeps: "fp_delete prov n f = (r, f') \<Longrightarrow> \<not> same n m \<Longrightarrow> fp_read prov m f' = Inr x \<longleftrightarrow> fp_read prov m f = Inr x"
    and renamed: "fp_read prov a f = Inr d \<Longrightarrow> fp_rename prov a b f = (Inr (), f') \<Longrightarrow> fp_read prov b f' = Inr d"
    and rename_gone: "fp_read prov a f = Inr d \<Longrightarrow> fp_rename prov a b f = (Inr (), f') \<Longrightarrow> \<not> same a b \<Longrightarrow>
      fp_read prov a f' \<noteq> Inr x"
    and rename_failed: "fp_rename prov a b f = (Inl e, f') \<Longrightarrow> f' = f"
begin

lemma stored_until_named:
  "fp_read prov m f = Inr x \<Longrightarrow> \<forall>ev \<in> set evs. \<not> same (fst ev) m \<Longrightarrow> fp_read prov m (fold (file_event prov) evs f) = Inr x"
proof (induction evs arbitrary: f)
  case (Cons ev evs)
  obtain n d where ev: "ev = (n, d)" by (metis surj_pair)
  have "fp_read prov m (file_event prov ev f) = Inr x"
  proof (cases d)
    case (Some b)
    then show ?thesis using write_keeps [of n b f "fst (fp_write prov n b f)" _ m x] Cons.prems by (simp add: ev)
  next
    case None
    then show ?thesis using delete_keeps [of n f "fst (fp_delete prov n f)" _ m x] Cons.prems by (simp add: ev)
  qed
  then show ?case using Cons by simp
qed simp

lemma written_stays:
  "fp_write prov n d f = (Inr (), f') \<Longrightarrow> \<forall>ev \<in> set evs. \<not> same (fst ev) n \<Longrightarrow>
    fp_read prov n (fold (file_event prov) evs f') = Inr d"
  by (rule stored_until_named [OF write_read])

end

lemma fs_read_Inr: "fs_read p fs = Inr d \<longleftrightarrow> fs_lookup fs p = Some (FsFile d)"
  by (auto simp: fs_read_def split: option.splits fs_node.splits)

lemma create_dirs_file:
  "fs_create_dirs prev cs fs = (r, fs') \<Longrightarrow> fs_lookup fs' p = Some (FsFile d) \<longleftrightarrow> fs_lookup fs p = Some (FsFile d)"
  using create_dirs_lookup [of prev cs fs r fs' p] by auto

lemma write_file_lookup:
  "fs_write p d fs = (r, fs') \<Longrightarrow> fs_lookup fs' q = (if r = Inr () \<and> q = p then Some (FsFile d) else fs_lookup fs q)"
proof (cases "p = []")
  case True
  then show "fs_write p d fs = (r, fs') \<Longrightarrow> ?thesis" by (auto simp: fs_write_def fs_lookup_def)
next
  case False
  then show "fs_write p d fs = (r, fs') \<Longrightarrow> ?thesis" by (auto simp: fs_write_def fs_lookup_update split: if_splits)
qed

lemma dir_write_file:
  assumes "dir_write base n d fs = (r, fs')"
  shows "fs_lookup fs' q = Some (FsFile x) \<longleftrightarrow>
    (if r = Inr () \<and> resolve_file base n = Inr q then x = d else fs_lookup fs q = Some (FsFile x))"
proof (cases "resolve_file base n")
  case (Inr p)
  obtain r1 fs1 where c: "(if p = [] then (Inr (), fs) else fs_create_dir_all (butlast p) fs) = (r1, fs1)" by (metis surj_pair)
  then have k: "fs_lookup fs1 q = Some (FsFile x) \<longleftrightarrow> fs_lookup fs q = Some (FsFile x)"
    using create_dirs_file by (cases "p = []") (auto simp: fs_create_dir_all_def)
  show ?thesis
  proof (cases r1)
    case (Inl e)
    then show ?thesis using assms Inr c k by (auto simp: dir_write_def)
  next
    case r: (Inr u)
    then have "fs_write p d fs1 = (r, fs')" using assms Inr c by (simp add: dir_write_def)
    from write_file_lookup [OF this, of q] show ?thesis using Inr k by auto
  qed
qed (use assms in \<open>auto simp: dir_write_def\<close>)

lemma dir_read_Inr: "dir_read base n fs = Inr d \<longleftrightarrow> (\<exists>p. resolve_file base n = Inr p \<and> fs_lookup fs p = Some (FsFile d))"
  by (auto simp: dir_read_def bindE_Inr_iff fs_read_Inr)

lemma dir_delete_file:
  assumes "dir_delete base n fs = (r, fs')"
  shows "fs_lookup fs' q = (if r = Inr () \<and> resolve_file base n = Inr q then None else fs_lookup fs q)"
  using assms
  by (cases "q = []") (auto simp: dir_delete_def fs_remove_file_def fs_lookup_def map_of_delete split: sum.splits option.splits fs_node.splits if_splits)

lemma dir_rename_file:
  assumes "dir_rename base a b fs = (Inr (), fs')" "resolve_file base a = Inr p" "fs_lookup fs p = Some (FsFile d)"
  shows "\<exists>q. resolve_file base b = Inr q \<and> fs_lookup fs' q = Some (FsFile d) \<and> (q \<noteq> p \<longrightarrow> fs_lookup fs' p = None)"
proof -
  obtain q where q: "resolve_file base b = Inr q" "fs_rename p q fs = (Inr (), fs')"
    using assms(1,2) by (cases "resolve_file base b") (auto simp: dir_rename_def)
  have p: "p \<noteq> []" using assms(3) by (auto simp: fs_lookup_def)
  show ?thesis
  proof (cases "p = q")
    case True
    then show ?thesis using q assms(3) by (auto simp: fs_rename_def split: if_splits)
  next
    case False
    then have f: "fs' = AList.update q (FsFile d) (AList.delete p fs)" "q \<noteq> []"
      using q(2) assms(3) by (auto simp: fs_rename_def split: if_splits)
    then show ?thesis using q(1) False p by (auto simp: fs_lookup_def map_of_update map_of_delete)
  qed
qed

lemma dir_rename_failed: "dir_rename base a b fs = (Inl e, fs') \<Longrightarrow> fs' = fs"
  by (auto simp: dir_rename_def fs_rename_def split: sum.splits option.splits if_splits fs_node.splits)

interpretation dir_store: file_store "dir_file_provider base" "\<lambda>m n. resolve_file base m = resolve_file base n" for base
proof
  show "fp_write (dir_file_provider base) n d f = (Inr (), f') \<Longrightarrow> fp_read (dir_file_provider base) n f' = Inr d" for n d f f'
    using dir_write_file [of base n d f "Inr ()" f' _ d]
    by (cases "resolve_file base n") (auto simp: dir_file_provider_def dir_read_Inr dir_write_def)
  show "fp_write (dir_file_provider base) n d f = (r, f') \<Longrightarrow> resolve_file base n \<noteq> resolve_file base m \<Longrightarrow>
      fp_read (dir_file_provider base) m f' = Inr x \<longleftrightarrow> fp_read (dir_file_provider base) m f = Inr x" for n d f r f' m x
    using dir_write_file [of base n d f r f' _ x] by (auto simp: dir_file_provider_def dir_read_Inr)
  show "fp_write (dir_file_provider base) n d f = (Inl e, f') \<Longrightarrow>
      fp_read (dir_file_provider base) m f' = Inr x \<longleftrightarrow> fp_read (dir_file_provider base) m f = Inr x" for n d f e f' m x
    using dir_write_file [of base n d f "Inl e" f' _ x] by (auto simp: dir_file_provider_def dir_read_Inr)
  show "fp_delete (dir_file_provider base) n f = (Inr (), f') \<Longrightarrow> fp_read (dir_file_provider base) n f' \<noteq> Inr x" for n f f' x
    using dir_delete_file [of base n f "Inr ()" f'] by (auto simp: dir_file_provider_def dir_read_Inr)
  show "fp_delete (dir_file_provider base) n f = (r, f') \<Longrightarrow> resolve_file base n \<noteq> resolve_file base m \<Longrightarrow>
      fp_read (dir_file_provider base) m f' = Inr x \<longleftrightarrow> fp_read (dir_file_provider base) m f = Inr x" for n f r f' m x
    using dir_delete_file [of base n f r f'] by (auto simp: dir_file_provider_def dir_read_Inr)
  show "fp_read (dir_file_provider base) a f = Inr d \<Longrightarrow> fp_rename (dir_file_provider base) a b f = (Inr (), f') \<Longrightarrow>
      fp_read (dir_file_provider base) b f' = Inr d" for a f d b f'
    using dir_rename_file [of base a b f f' _ d] by (auto simp: dir_file_provider_def dir_read_Inr)
  show "fp_read (dir_file_provider base) a f = Inr d \<Longrightarrow> fp_rename (dir_file_provider base) a b f = (Inr (), f') \<Longrightarrow>
      resolve_file base a \<noteq> resolve_file base b \<Longrightarrow> fp_read (dir_file_provider base) a f' \<noteq> Inr x" for a f d b f' x
    using dir_rename_file [of base a b f f' _ d] by (auto simp: dir_file_provider_def dir_read_Inr)
  show "fp_rename (dir_file_provider base) a b f = (Inl e, f') \<Longrightarrow> f' = f" for a b f e f'
    by (simp add: dir_file_provider_def dir_rename_failed)
qed

end
