(* ===== verification/FileTransfer.thy ===== *)
theory FileTransfer imports FileStore Reporting Control begin

text \<open>
  The file services of a server's connection (\<open>server.rs\<close>: \<open>handle_file_*\<close>, \<open>start_obtain_file\<close>,
  \<open>obtain_file_step\<close>) and of the client (\<open>client.rs\<close>: \<open>file_*\<close>, \<open>download_file\<close>, \<open>upload_file\<close>,
  \<open>handle_reverse_request\<close>). A download and an upload are the exchange of their encoded units; the
  theorems show that both carry exactly the octets of the file, whatever its length, and end.
\<close>

unbundle bit_operations_syntax

section \<open>The services of the server\<close>

record obtain_state =
  ob_invoke :: u32
  ob_dest :: string
  ob_frsm :: "u32 option"
  ob_data :: bytes

text \<open>The part of a connection's state that these services keep: open files with their read position,
  and the transfer from the client under way.\<close>

record file_conn =
  fs_files :: "u32 \<Rightarrow> (bytes \<times> nat) option"
  fs_next_frsm :: u32
  fs_obtain :: "obtain_state option"
  fs_next_out_invoke :: u32

definition file_read_chunk :: nat where "file_read_chunk = 8192"

text \<open>The next block from a position, with what \<open>moreFollows\<close> says.\<close>

definition next_chunk :: "nat \<Rightarrow> bytes \<times> nat \<Rightarrow> file_chunk \<times> (bytes \<times> nat)" where
  "next_chunk n = (\<lambda>(d, pos). let end' = min (pos + n) (length d) in
     (\<lparr>fc_data = take (end' - pos) (drop pos d), fc_more_follows = (end' < length d)\<rparr>, (d, end')))"

definition handle_file_open ::
  "role \<Rightarrow> 'f file_provider option \<Rightarrow> u32 \<Rightarrow> tlv \<Rightarrow> 'f \<Rightarrow> file_conn \<Rightarrow> bytes \<times> file_conn" where
  "handle_file_open r provider invoke service fs c =
    (if \<not> may_read_files r then (encode_error invoke, c)
     else case provider of None \<Rightarrow> (encode_error invoke, c)
     | Some p \<Rightarrow> (case decode_open_request service of Inl _ \<Rightarrow> (encode_error invoke, c)
     | Inr (name, pos) \<Rightarrow> (case fp_read p name fs of Inl _ \<Rightarrow> (encode_error invoke, c)
     | Inr d \<Rightarrow>
       (let frsm_id = (if sint (fs_next_frsm c) < 0 then 0 else fs_next_frsm c) + 1
        in (encode_confirmed_response invoke (encode_open_response
              \<lparr>fo_frsm_id = frsm_id, fo_attributes = \<lparr>fa_size = of_nat (length d), fa_last_modified = None\<rparr>\<rparr>),
            c\<lparr>fs_next_frsm := frsm_id, fs_files := (fs_files c)(frsm_id \<mapsto> (d, min (unat pos) (length d)))\<rparr>)))))"

definition handle_file_read :: "u32 \<Rightarrow> tlv \<Rightarrow> file_conn \<Rightarrow> bytes \<times> file_conn" where
  "handle_file_read invoke service c =
    (case decode_read_request service of Inl _ \<Rightarrow> (encode_error invoke, c)
     | Inr frsm \<Rightarrow> (case fs_files c frsm of None \<Rightarrow> (encode_error invoke, c)
     | Some st \<Rightarrow>
       (let (chunk, st) = next_chunk file_read_chunk st
        in (encode_confirmed_response invoke (encode_read_response chunk), c\<lparr>fs_files := (fs_files c)(frsm \<mapsto> st)\<rparr>))))"

definition handle_file_close :: "u32 \<Rightarrow> tlv \<Rightarrow> file_conn \<Rightarrow> bytes \<times> file_conn" where
  "handle_file_close invoke service c =
    (case decode_close_request service of Inl _ \<Rightarrow> (encode_error invoke, c)
     | Inr frsm \<Rightarrow> (encode_confirmed_response invoke encode_close_response, c\<lparr>fs_files := (fs_files c)(frsm := None)\<rparr>))"

definition handle_file_delete :: "role \<Rightarrow> 'f file_provider option \<Rightarrow> u32 \<Rightarrow> tlv \<Rightarrow> 'f \<Rightarrow> bytes \<times> 'f" where
  "handle_file_delete r provider invoke service fs =
    (if \<not> may_write_files r then (encode_error invoke, fs)
     else case (provider, decode_file_delete_request service) of
       (Some p, Inr name) \<Rightarrow> (case fp_delete p name fs of
           (Inl _, fs) \<Rightarrow> (encode_error invoke, fs)
         | (Inr _, fs) \<Rightarrow> (encode_confirmed_response invoke encode_file_delete_response, fs))
     | _ \<Rightarrow> (encode_error invoke, fs))"

definition handle_file_rename :: "role \<Rightarrow> 'f file_provider option \<Rightarrow> u32 \<Rightarrow> tlv \<Rightarrow> 'f \<Rightarrow> bytes \<times> 'f" where
  "handle_file_rename r provider invoke service fs =
    (if \<not> may_write_files r then (encode_error invoke, fs)
     else case (provider, decode_rename_request service) of
       (Some p, Inr (current, new_name)) \<Rightarrow> (case fp_rename p current new_name fs of
           (Inl _, fs) \<Rightarrow> (encode_error invoke, fs)
         | (Inr _, fs) \<Rightarrow> (encode_confirmed_response invoke encode_rename_response, fs))
     | _ \<Rightarrow> (encode_error invoke, fs))"

definition handle_file_directory :: "'f file_provider option \<Rightarrow> u32 \<Rightarrow> tlv \<Rightarrow> 'f \<Rightarrow> bytes" where
  "handle_file_directory provider invoke service fs =
    (case provider of None \<Rightarrow> encode_error invoke
     | Some p \<Rightarrow> (case decode_directory_request service of Inl _ \<Rightarrow> encode_error invoke
     | Inr (prefix', _) \<Rightarrow> (case fp_list p prefix' fs of Inl _ \<Rightarrow> encode_error invoke
     | Inr entries \<Rightarrow> encode_confirmed_response invoke
         (encode_directory_response \<lparr>fd_entries = entries, fd_more_follows = False\<rparr>))))"

text \<open>The transfer from the client: the server reads the client's file with requests of its own.\<close>

definition start_obtain_file ::
  "role \<Rightarrow> 'f file_provider option \<Rightarrow> u32 \<Rightarrow> tlv \<Rightarrow> file_conn \<Rightarrow> bytes list \<times> file_conn" where
  "start_obtain_file r provider invoke service c =
    (if \<not> may_write_files r \<or> provider = None \<or> fs_obtain c \<noteq> None then ([encode_error invoke], c)
     else case decode_obtain_request service of Inl _ \<Rightarrow> ([encode_error invoke], c)
     | Inr (source, dest) \<Rightarrow>
       (let out = fs_next_out_invoke c + 1
        in ([encode_confirmed_request out (write_open_request (source, 0))],
            c\<lparr>fs_next_out_invoke := out,
              fs_obtain := Some \<lparr>ob_invoke = invoke, ob_dest = dest, ob_frsm = None, ob_data = []\<rparr>\<rparr>)))"

definition obtain_file_step ::
  "'f file_provider option \<Rightarrow> bytes \<Rightarrow> 'f \<Rightarrow> file_conn \<Rightarrow> bytes list \<times> 'f \<times> file_conn" where
  "obtain_file_step provider pdu fs c =
    (case fs_obtain c of None \<Rightarrow> ([], fs, c)
     | Some st \<Rightarrow>
       (let c = c\<lparr>fs_obtain := None\<rparr>; out = fs_next_out_invoke c + 1
        in case parse_confirmed_response pdu of Inl _ \<Rightarrow> ([encode_error (ob_invoke st)], fs, c)
        | Inr cr \<Rightarrow> (case ob_frsm st of
            None \<Rightarrow> (case decode_open_response (cr_service cr) of Inl _ \<Rightarrow> ([encode_error (ob_invoke st)], fs, c)
              | Inr opened \<Rightarrow> ([encode_confirmed_request out (write_read_request (fo_frsm_id opened))], fs,
                  c\<lparr>fs_next_out_invoke := out, fs_obtain := Some (st\<lparr>ob_frsm := Some (fo_frsm_id opened)\<rparr>)\<rparr>))
          | Some frsm \<Rightarrow> (case decode_read_response (cr_service cr) of Inl _ \<Rightarrow> ([encode_error (ob_invoke st)], fs, c)
              | Inr chunk \<Rightarrow>
                (let st = st\<lparr>ob_data := ob_data st @ fc_data chunk\<rparr>; c = c\<lparr>fs_next_out_invoke := out\<rparr>
                 in if fc_more_follows chunk
                    then ([encode_confirmed_request out (write_read_request frsm)], fs, c\<lparr>fs_obtain := Some st\<rparr>)
                    else let (saved, fs) = (case provider of None \<Rightarrow> (False, fs)
                           | Some p \<Rightarrow> (let (r, fs) = fp_write p (ob_dest st) (ob_data st) fs in (\<not> isl r, fs)))
                      in ([encode_confirmed_request out (write_close_request frsm),
                           (if saved then encode_confirmed_response (ob_invoke st) encode_obtain_response
                            else encode_error (ob_invoke st))], fs, c))))))"

text \<open>The branches of \<open>handle_request\<close> for these services.\<close>

definition file_service ::
  "role \<Rightarrow> 'f file_provider option \<Rightarrow> u32 \<Rightarrow> tlv \<Rightarrow> 'f \<Rightarrow> file_conn \<Rightarrow> (bytes \<times> 'f \<times> file_conn) option" where
  "file_service r provider invoke service fs c =
    (let t = tlv_tag service
     in if t = svc_file_directory then Some (handle_file_directory provider invoke service fs, fs, c)
     else if t = svc_file_open then (let (u, c) = handle_file_open r provider invoke service fs c in Some (u, fs, c))
     else if t = svc_file_read then (let (u, c) = handle_file_read invoke service c in Some (u, fs, c))
     else if t = svc_file_close then (let (u, c) = handle_file_close invoke service c in Some (u, fs, c))
     else if t = svc_file_delete then (let (u, fs) = handle_file_delete r provider invoke service fs in Some (u, fs, c))
     else if t = svc_file_rename then (let (u, fs) = handle_file_rename r provider invoke service fs in Some (u, fs, c))
     else None)"

section \<open>The client's operations\<close>

text \<open>A client asks over its connection, whose state it changes.\<close>

definition andE :: "('e + 'a) \<times> 's \<Rightarrow> ('a \<Rightarrow> 's \<Rightarrow> ('e + 'b) \<times> 's) \<Rightarrow> ('e + 'b) \<times> 's" where
  "andE m f = (case m of (Inl e, s) \<Rightarrow> (Inl e, s) | (Inr x, s) \<Rightarrow> f x s)"

lemma andE_simps [simp]: "andE (Inl e, s) f = (Inl e, s)" "andE (Inr x, s) f = f x s"
  by (simp_all add: andE_def)

type_synonym 's asking = "writing \<Rightarrow> 's \<Rightarrow> (mms_error + bytes) \<times> 's"

definition ask :: "'s asking \<Rightarrow> writing \<Rightarrow> (tlv \<Rightarrow> mms_error + 'a) \<Rightarrow> 's \<Rightarrow> (mms_error + 'a) \<times> 's" where
  "ask request w decode s = andE (request w s) (\<lambda>pdu s.
     (bindE (parse_confirmed_response pdu) (\<lambda>cr. decode (cr_service cr)), s))"

definition file_directory_of :: "'s asking \<Rightarrow> string option \<Rightarrow> string option \<Rightarrow> 's \<Rightarrow> (mms_error + file_directory) \<times> 's" where
  "file_directory_of request prefix' continue_after = ask request (write_directory_request (prefix', continue_after)) decode_directory_response"

definition open_file :: "'s asking \<Rightarrow> string \<Rightarrow> u32 \<Rightarrow> 's \<Rightarrow> (mms_error + file_open) \<times> 's" where
  "open_file request name pos = ask request (write_open_request (name, pos)) decode_open_response"

definition read_file :: "'s asking \<Rightarrow> u32 \<Rightarrow> 's \<Rightarrow> (mms_error + file_chunk) \<times> 's" where
  "read_file request frsm_id = ask request (write_read_request frsm_id) decode_read_response"

definition close_file :: "'s asking \<Rightarrow> u32 \<Rightarrow> 's \<Rightarrow> (mms_error + unit) \<times> 's" where
  "close_file request frsm_id = ask request (write_close_request frsm_id) (\<lambda>_. Inr ())"

definition delete_file :: "'s asking \<Rightarrow> string \<Rightarrow> 's \<Rightarrow> (mms_error + unit) \<times> 's" where
  "delete_file request name = ask request (write_file_delete_request name) decode_file_delete_response"

definition rename_file :: "'s asking \<Rightarrow> string \<Rightarrow> string \<Rightarrow> 's \<Rightarrow> (mms_error + unit) \<times> 's" where
  "rename_file request current new_name = ask request (write_rename_request (current, new_name)) decode_rename_response"

definition get_file_attributes :: "'s asking \<Rightarrow> string \<Rightarrow> 's \<Rightarrow> (mms_error + file_attributes) \<times> 's" where
  "get_file_attributes request name s = andE (file_directory_of request (Some name) None s) (\<lambda>dir s.
     (case find (\<lambda>e. trim_slashes (fe_name e) = trim_slashes name) (fd_entries dir) of
        Some e \<Rightarrow> Inr \<lparr>fa_size = fe_size e, fa_last_modified = fe_last_modified e\<rparr>
      | None \<Rightarrow> Inl (MeDataAccess ObjectNonExistent), s))"

text \<open>Nothing bounds the number of blocks: a server may send blocks without end.\<close>

partial_function (option) download_loop :: "'s asking \<Rightarrow> u32 \<Rightarrow> bytes \<Rightarrow> 's \<Rightarrow> ((mms_error + bytes) \<times> 's) option" where
  "download_loop request frsm_id out s =
    (case read_file request frsm_id s of
       (Inl e, s) \<Rightarrow> Some (Inl e, s)
     | (Inr chunk, s) \<Rightarrow>
       if fc_more_follows chunk then download_loop request frsm_id (out @ fc_data chunk) s
       else Some (Inr (out @ fc_data chunk), s))"

definition download_file :: "'s asking \<Rightarrow> string \<Rightarrow> 's \<Rightarrow> ((mms_error + bytes) \<times> 's) option" where
  "download_file request name s =
    (case open_file request name 0 s of
       (Inl e, s) \<Rightarrow> Some (Inl e, s)
     | (Inr opened, s) \<Rightarrow>
       (case download_loop request (fo_frsm_id opened) [] s of
          None \<Rightarrow> None
        | Some (Inl e, s) \<Rightarrow> Some (Inl e, s)
        | Some (Inr out, s) \<Rightarrow> Some (andE (close_file request (fo_frsm_id opened) s) (\<lambda>_ s. (Inr out, s)))))"

text \<open>A disturbance record is two files, and a third when there is one.\<close>

record comtrade_record =
  cmt_cfg :: bytes
  cmt_dat :: bytes
  cmt_hdr :: "bytes option"

definition download_comtrade :: "'s asking \<Rightarrow> string \<Rightarrow> 's \<Rightarrow> ((mms_error + comtrade_record) \<times> 's) option" where
  "download_comtrade request base s =
    (case download_file request (base @ ''.cfg'') s of
       None \<Rightarrow> None | Some (Inl e, s) \<Rightarrow> Some (Inl e, s)
     | Some (Inr cfg, s) \<Rightarrow>
       (case download_file request (base @ ''.dat'') s of
          None \<Rightarrow> None | Some (Inl e, s) \<Rightarrow> Some (Inl e, s)
        | Some (Inr dat, s) \<Rightarrow>
          (case download_file request (base @ ''.hdr'') s of
             None \<Rightarrow> None
           | Some (hdr, s) \<Rightarrow> Some (Inr \<lparr>cmt_cfg = cfg, cmt_dat = dat,
               cmt_hdr = (case hdr of Inr d \<Rightarrow> Some d | Inl _ \<Rightarrow> None)\<rparr>, s))))"

text \<open>The whole tree: pages of one directory after the other, the deepest waiting first.\<close>

partial_function (option) directory_tree ::
  "'s asking \<Rightarrow> string option list \<Rightarrow> string option \<Rightarrow> file_entry list \<Rightarrow> 's \<Rightarrow> ((mms_error + file_entry list) \<times> 's) option" where
  "directory_tree request pending cont out s =
    (case pending of
       [] \<Rightarrow> Some (Inr out, s)
     | p # rest \<Rightarrow>
       (case file_directory_of request p cont s of
          (Inl e, s) \<Rightarrow> Some (Inl e, s)
        | (Inr dir, s) \<Rightarrow>
          (let (dirs, files) = partition (\<lambda>e. ends_with ''/'' (fe_name e)) (fd_entries dir);
               found = map (\<lambda>e. Some (fe_name e)) (rev dirs);
               last' = (if fd_entries dir = [] then None else Some (fe_name (last (fd_entries dir))))
           in if fd_more_follows dir
              then directory_tree request (p # found @ rest) last' (out @ files) s
              else directory_tree request (found @ rest) None (out @ files) s)))"

definition file_directory_recursive :: "'s asking \<Rightarrow> 's \<Rightarrow> ((mms_error + file_entry list) \<times> 's) option" where
  "file_directory_recursive request s = directory_tree request [None] None [] s"

text \<open>The client serves the files it offers while the server obtains one.\<close>

definition reverse_read_chunk :: nat where "reverse_read_chunk = 8192"

record reverse_state =
  offered_files :: "string \<Rightarrow> bytes option"
  reverse_reads :: "(u32 \<times> (bytes \<times> nat)) list"

text \<open>One more than the greatest number in use, or 1.\<close>

definition next_reverse :: "(u32 \<times> (bytes \<times> nat)) list \<Rightarrow> u32" where
  "next_reverse reads = (case map (\<lambda>(k, _). sint k) reads of [] \<Rightarrow> 0 | k # ks \<Rightarrow> word_of_int (fold max ks k)) + 1"

definition handle_reverse_request :: "bytes \<Rightarrow> reverse_state \<Rightarrow> bytes option \<times> reverse_state" where
  "handle_reverse_request pdu c =
    (case parse_confirmed_request pdu of Inl _ \<Rightarrow> (None, c)
     | Inr (invoke, svc) \<Rightarrow>
       if tlv_tag svc = svc_file_open then
         (case decode_open_request svc of Inl _ \<Rightarrow> (None, c)
          | Inr (name, pos) \<Rightarrow> (case offered_files c name of None \<Rightarrow> (None, c)
          | Some d \<Rightarrow>
            (let size = (of_nat (length d) :: u32); frsm_id = next_reverse (reverse_reads c)
             in (Some (encode_confirmed_response invoke (encode_open_response
                   \<lparr>fo_frsm_id = frsm_id, fo_attributes = \<lparr>fa_size = size, fa_last_modified = None\<rparr>\<rparr>)),
                 c\<lparr>reverse_reads := AList.update frsm_id (d, min (unat pos) (unat size)) (reverse_reads c)\<rparr>))))
       else if tlv_tag svc = svc_file_read then
         (case decode_read_request svc of Inl _ \<Rightarrow> (None, c)
          | Inr frsm \<Rightarrow> (case map_of (reverse_reads c) frsm of None \<Rightarrow> (None, c)
          | Some st \<Rightarrow>
            (let (chunk, st) = next_chunk reverse_read_chunk st
             in (Some (encode_confirmed_response invoke (encode_read_response chunk)),
                 c\<lparr>reverse_reads := AList.update frsm st (reverse_reads c)\<rparr>))))
       else if tlv_tag svc = svc_file_close then
         (case decode_close_request svc of Inl _ \<Rightarrow> (None, c)
          | Inr frsm \<Rightarrow> (Some (encode_confirmed_response invoke encode_close_response),
              c\<lparr>reverse_reads := AList.delete frsm (reverse_reads c)\<rparr>))
       else (None, c))"

section \<open>Transfers\<close>

text \<open>A client, its connection and the server that answers it.\<close>

record 'f file_link =
  fl_next :: u32
  fl_conn :: file_conn
  fl_fs :: 'f

definition file_request :: "role \<Rightarrow> 'f file_provider option \<Rightarrow> 'f file_link asking" where
  "file_request r provider w l =
    (case parse_confirmed_request (encode_confirmed_request (fl_next l) w) of
       Inl e \<Rightarrow> (Inl e, l)
     | Inr (invoke, service) \<Rightarrow>
       (case file_service r provider invoke service (fl_fs l) (fl_conn l) of
          None \<Rightarrow> (Inr (encode_error invoke), l\<lparr>fl_next := fl_next l + 1\<rparr>)
        | Some (u, fs, c) \<Rightarrow> (Inr u, \<lparr>fl_next = fl_next l + 1, fl_conn = c, fl_fs = fs\<rparr>)))"

lemma encoded_unit_bound:
  "length (encode_confirmed_response i (put b)) \<le> length b + 60"
  "length (encode_confirmed_request i (put b)) \<le> length b + 60"
proof -
  let ?i = "tlv_bytes u_integer (encode_integer (ucast i))"
  have "length (tlv_bytes t (?i @ b)) \<le> length b + 60" for t
    using tlv_bytes_bound [of t "?i @ b"] tlv_bytes_bound [of u_integer "encode_integer (ucast i)"]
      length_encode_integer(2) [of "ucast i"] by simp
  then show "length (encode_confirmed_response i (put b)) \<le> length b + 60"
    "length (encode_confirmed_request i (put b)) \<le> length b + 60"
    by (simp_all add: encode_confirmed_response_def encode_confirmed_request_def w_put)
qed

lemma file_units_short:
  "length (encode_confirmed_request i (write_open_request (n, p))) \<le> length n + 200"
  "length (encode_confirmed_request i (write_read_request f)) \<le> 200"
  "length (encode_confirmed_request i (write_close_request f)) \<le> 200"
  "length (encode_confirmed_response i (encode_read_response k)) \<le> length (fc_data k) + 200"
  "length (encode_confirmed_response i (encode_open_response \<lparr>fo_frsm_id = f, fo_attributes = \<lparr>fa_size = z, fa_last_modified = None\<rparr>\<rparr>)) \<le> 200"
  "length (encode_confirmed_response i encode_close_response) \<le> 200"
  "length (encode_confirmed_request i (write_obtain_request (s, d))) \<le> length s + length d + 200"
  "length (encode_confirmed_response i encode_obtain_response) \<le> 200"
proof -
  note tb = tlv_bytes_bound
  have nb: "length (name_bytes m) \<le> length m + 15" for m
    using tb [of graphic_string "as_bytes m"] by (simp add: name_bytes_def as_bytes_def)
  have u: "length (encode_unsigned v) \<le> 9" for v by (rule length_encode_unsigned)
  show "length (encode_confirmed_request i (write_open_request (n, p))) \<le> length n + 200"
    using encoded_unit_bound(2) [of i "tlv_bytes svc_file_open (tlv_bytes (tag_context 0 True) (name_bytes n) @
      tlv_bytes (tag_context 1 False) (encode_unsigned (ucast p)))"]
      tb [of svc_file_open "tlv_bytes (tag_context 0 True) (name_bytes n) @ tlv_bytes (tag_context 1 False) (encode_unsigned (ucast p))"]
      tb [of "tag_context 0 True" "name_bytes n"] nb [of n] tb [of "tag_context 1 False" "encode_unsigned (ucast p)"] u [of "ucast p"]
    by (simp add: write_open_request_def w_put write_file_name_put)
  show "length (encode_confirmed_request i (write_read_request f)) \<le> 200"
    using encoded_unit_bound(2) [of i "tlv_bytes svc_file_read (encode_integer (scast f))"]
      tb [of svc_file_read "encode_integer (scast f)"] length_encode_integer(2) [of "scast f"]
    by (simp add: write_read_request_def w_put)
  show "length (encode_confirmed_request i (write_close_request f)) \<le> 200"
    using encoded_unit_bound(2) [of i "tlv_bytes svc_file_close (encode_integer (scast f))"]
      tb [of svc_file_close "encode_integer (scast f)"] length_encode_integer(2) [of "scast f"]
    by (simp add: write_close_request_def w_put)
  let ?m = "if fc_more_follows k then [] else tlv_bytes (tag_context 1 False) (encode_bool False)"
  have m: "length ?m \<le> 16"
    using tb [of "tag_context 1 False" "encode_bool False"] by (simp add: encode_bool_def)
  have "encode_read_response k = put (tlv_bytes svc_file_read_response (tlv_bytes (tag_context 0 False) (fc_data k) @ ?m))"
    by (cases "fc_more_follows k") (simp_all add: encode_read_response_def w_put write_if_def w_seq_simps)
  then show "length (encode_confirmed_response i (encode_read_response k)) \<le> length (fc_data k) + 200"
    using encoded_unit_bound(1) [of i "tlv_bytes svc_file_read_response (tlv_bytes (tag_context 0 False) (fc_data k) @ ?m)"]
      tb [of svc_file_read_response "tlv_bytes (tag_context 0 False) (fc_data k) @ ?m"]
      tb [of "tag_context 0 False" "fc_data k"] m by simp
  let ?f = "tlv_bytes (tag_context 0 False) (encode_integer (scast f))"
    and ?z = "tlv_bytes (tag_context 0 False) (encode_unsigned (ucast z))"
  show "length (encode_confirmed_response i (encode_open_response \<lparr>fo_frsm_id = f, fo_attributes = \<lparr>fa_size = z, fa_last_modified = None\<rparr>\<rparr>)) \<le> 200"
    using encoded_unit_bound(1) [of i "tlv_bytes svc_file_open (?f @ tlv_bytes (tag_context 1 True) ?z)"]
      tb [of svc_file_open "?f @ tlv_bytes (tag_context 1 True) ?z"] tb [of "tag_context 1 True" ?z]
      tb [of "tag_context 0 False" "encode_integer (scast f)"] length_encode_integer(2) [of "scast f"]
      tb [of "tag_context 0 False" "encode_unsigned (ucast z)"] u [of "ucast z"]
    by (simp add: encode_open_response_def w_put write_file_attributes_put attributes_content_def)
  show "length (encode_confirmed_response i encode_close_response) \<le> 200"
    using encoded_unit_bound(1) [of i "tlv_bytes svc_file_close []"] tb [of svc_file_close "[]"]
    by (simp add: encode_close_response_def w_put)
  show "length (encode_confirmed_request i (write_obtain_request (s, d))) \<le> length s + length d + 200"
    using encoded_unit_bound(2) [of i "tlv_bytes svc_obtain_file (tlv_bytes (tag_context 1 True) (name_bytes s) @
      tlv_bytes (tag_context 2 True) (name_bytes d))"]
      tb [of svc_obtain_file "tlv_bytes (tag_context 1 True) (name_bytes s) @ tlv_bytes (tag_context 2 True) (name_bytes d)"]
      tb [of "tag_context 1 True" "name_bytes s"] nb [of s] tb [of "tag_context 2 True" "name_bytes d"] nb [of d]
    by (simp add: write_obtain_request_def w_put write_file_name_put)
  show "length (encode_confirmed_response i encode_obtain_response) \<le> 200"
    using encoded_unit_bound(1) [of i "tlv_bytes (tag_context 46 False) []"] tb [of "tag_context 46 False" "[]"]
    by (simp add: encode_obtain_response_def w_put)
qed

lemma file_tags_distinct:
  "svc_file_open \<noteq> svc_file_directory" "svc_file_read \<noteq> svc_file_directory" "svc_file_read \<noteq> svc_file_open"
  "svc_file_close \<noteq> svc_file_directory" "svc_file_close \<noteq> svc_file_open" "svc_file_close \<noteq> svc_file_read"
  by (simp_all add: svc_file_open_def svc_file_directory_def svc_file_read_def svc_file_close_def)

text \<open>One request of the client, answered.\<close>

lemma open_asked:
  assumes "may_read_files r" "fp_read p name (fl_fs l) = Inr d" "str_ok name" "length name < 2 ^ 60"
    "f = (if sint (fs_next_frsm (fl_conn l)) < 0 then 0 else fs_next_frsm (fl_conn l)) + 1"
  shows "open_file (file_request r (Some p)) name 0 l =
    (Inr \<lparr>fo_frsm_id = f, fo_attributes = \<lparr>fa_size = of_nat (length d), fa_last_modified = None\<rparr>\<rparr>,
     l\<lparr>fl_next := fl_next l + 1, fl_conn := (fl_conn l)\<lparr>fs_next_frsm := f, fs_files := (fs_files (fl_conn l))(f \<mapsto> (d, 0))\<rparr>\<rparr>)"
proof -
  let ?o = "\<lparr>fo_frsm_id = f, fo_attributes = \<lparr>fa_size = (of_nat (length d) :: u32), fa_last_modified = None\<rparr>\<rparr>"
  obtain s where s: "parse_confirmed_request (encode_confirmed_request (fl_next l) (write_open_request (name, 0))) = Inr (fl_next l, s)"
    "tlv_tag s = svc_file_open" "decode_open_request s = Inr (name, 0)"
    using open_request.request_decoded [of "(name, 0)" "fl_next l"] file_units_short(1) [of "fl_next l" name 0] assms(3,4)
    by (auto simp: usize_limit_def)
  obtain t where t: "parse_confirmed_response (encode_confirmed_response (fl_next l) (encode_open_response ?o)) =
      Inr \<lparr>cr_invoke_id = fl_next l, cr_service = t\<rparr>" "decode_open_response t = Inr ?o"
    using opened_file.response_decoded [of ?o "fl_next l"] file_units_short(5) [of "fl_next l" f "of_nat (length d)"]
    by (auto simp: usize_limit_def attributes_ok_def)
  show ?thesis
    using s t assms(1,2) assms(5) [symmetric]
    by (simp add: open_file_def ask_def file_request_def file_service_def file_tags_distinct handle_file_open_def Let_def)
qed

lemma next_chunk_short: "length (fc_data (fst (next_chunk n st))) \<le> n"
  by (cases st) (simp add: next_chunk_def Let_def)

lemma read_asked:
  assumes "fs_files (fl_conn l) f = Some st" "next_chunk file_read_chunk st = (k, st')"
  shows "read_file (file_request r prov) f l =
    (Inr k, l\<lparr>fl_next := fl_next l + 1, fl_conn := (fl_conn l)\<lparr>fs_files := (fs_files (fl_conn l))(f \<mapsto> st')\<rparr>\<rparr>)"
proof -
  obtain s where s: "parse_confirmed_request (encode_confirmed_request (fl_next l) (write_read_request f)) = Inr (fl_next l, s)"
    "tlv_tag s = svc_file_read" "decode_read_request s = Inr f"
    using read_request.request_decoded [where q = f and i = "fl_next l"] file_units_short(2) [of "fl_next l" f] by (auto simp: usize_limit_def)
  have "length (fc_data k) \<le> file_read_chunk" using next_chunk_short [of file_read_chunk st] assms(2) by simp
  then obtain t where t: "parse_confirmed_response (encode_confirmed_response (fl_next l) (encode_read_response k)) =
      Inr \<lparr>cr_invoke_id = fl_next l, cr_service = t\<rparr>" "decode_read_response t = Inr k"
    using file_chunks.response_decoded [where q = k and i = "fl_next l"] file_units_short(4) [of "fl_next l" k]
    by (auto simp: usize_limit_def file_read_chunk_def)
  show ?thesis
    using s t assms
    by (simp add: read_file_def ask_def file_request_def file_service_def file_tags_distinct handle_file_read_def)
qed

lemma close_asked:
  "close_file (file_request r prov) f l =
    (Inr (), l\<lparr>fl_next := fl_next l + 1, fl_conn := (fl_conn l)\<lparr>fs_files := (fs_files (fl_conn l))(f := None)\<rparr>\<rparr>)"
proof -
  obtain s where s: "parse_confirmed_request (encode_confirmed_request (fl_next l) (write_close_request f)) = Inr (fl_next l, s)"
    "tlv_tag s = svc_file_close" "decode_close_request s = Inr f"
    using close_request.request_decoded [where q = f and i = "fl_next l"] file_units_short(3) [of "fl_next l" f] by (auto simp: usize_limit_def)
  obtain t where t: "parse_confirmed_response (encode_confirmed_response (fl_next l) encode_close_response) =
      Inr \<lparr>cr_invoke_id = fl_next l, cr_service = t\<rparr>"
    using close_response.response_decoded [where q = "()" and i = "fl_next l"] file_units_short(6) [of "fl_next l"]
    by (auto simp: usize_limit_def)
  show ?thesis
    using s t
    by (simp add: close_file_def ask_def file_request_def file_service_def file_tags_distinct handle_file_close_def)
qed

lemma download_rest:
  "fs_files (fl_conn l) f = Some (d, pos) \<Longrightarrow> pos \<le> length d \<Longrightarrow> d = out @ drop pos d \<Longrightarrow>
    \<exists>i. download_loop (file_request r prov) f out l = Some (Inr d,
      l\<lparr>fl_next := i, fl_conn := (fl_conn l)\<lparr>fs_files := (fs_files (fl_conn l))(f \<mapsto> (d, length d))\<rparr>\<rparr>)"
proof (induction "length d - pos" arbitrary: pos out l rule: less_induct)
  case less
  let ?stop = "min (pos + file_read_chunk) (length d)"
  let ?k = "\<lparr>fc_data = take (?stop - pos) (drop pos d), fc_more_follows = (?stop < length d)\<rparr>"
  let ?l = "l\<lparr>fl_next := fl_next l + 1, fl_conn := (fl_conn l)\<lparr>fs_files := (fs_files (fl_conn l))(f \<mapsto> (d, ?stop))\<rparr>\<rparr>"
  have r: "read_file (file_request r prov) f l = (Inr ?k, ?l)"
    by (rule read_asked [OF less.prems(1)]) (simp add: next_chunk_def Let_def)
  have o: "out @ fc_data ?k @ drop ?stop d = d"
  proof -
    have "drop ?stop d = drop (?stop - pos) (drop pos d)" using less.prems(2) by simp
    then show ?thesis using less.prems(3) by (simp del: drop_drop)
  qed
  show ?case
  proof (cases "?stop < length d")
    case True
    have "\<exists>i. download_loop (file_request r prov) f (out @ fc_data ?k) ?l = Some (Inr d,
        ?l\<lparr>fl_next := i, fl_conn := (fl_conn ?l)\<lparr>fs_files := (fs_files (fl_conn ?l))(f \<mapsto> (d, length d))\<rparr>\<rparr>)"
    proof (rule less.hyps)
      show "length d - ?stop < length d - pos" using True less.prems(2) by (simp add: file_read_chunk_def)
      show "fs_files (fl_conn ?l) f = Some (d, ?stop)" by simp
      show "d = (out @ fc_data ?k) @ drop ?stop d" using o by simp
    qed simp
    then show ?thesis
      using True r by (subst download_loop.simps) (auto simp: fun_upd_upd)
  next
    case False
    then have "?stop = length d" using less.prems(2) by simp
    then show ?thesis
      using False r o by (subst download_loop.simps) auto
  qed
qed

text \<open>A transfer to the server: its units reach the client in order, and the client's answers the server,
  until the server has nothing to send. What is left over are the answers to the client's own requests.\<close>

partial_function (option) obtain_run ::
  "'f file_provider option \<Rightarrow> bytes list \<Rightarrow> bytes list \<Rightarrow> 'f \<times> file_conn \<times> reverse_state \<Rightarrow>
   (bytes list \<times> 'f \<times> file_conn \<times> reverse_state) option" where
  "obtain_run provider units answers st =
    (case units of
       [] \<Rightarrow> Some (answers, st)
     | u # us \<Rightarrow>
       (case st of (fs, c, cl) \<Rightarrow>
         if peek_request_kind u = Inr KConfirmedRequest
         then (case handle_reverse_request u cl of
             (None, cl) \<Rightarrow> obtain_run provider us answers (fs, c, cl)
           | (Some response, cl) \<Rightarrow>
             (case obtain_file_step provider response fs c of
                (replies, fs, c) \<Rightarrow> obtain_run provider (us @ replies) answers (fs, c, cl)))
         else obtain_run provider us (answers @ [u]) st))"

definition upload_file ::
  "role \<Rightarrow> 'f file_provider option \<Rightarrow> u32 \<Rightarrow> string \<Rightarrow> string \<Rightarrow> bytes \<Rightarrow> 'f \<times> file_conn \<times> reverse_state \<Rightarrow>
   ((mms_error + unit) \<times> 'f \<times> file_conn \<times> reverse_state) option" where
  "upload_file r provider i source dest d = (\<lambda>(fs, c, cl).
    let cl = cl\<lparr>offered_files := (offered_files cl)(source \<mapsto> d)\<rparr>
    in case parse_confirmed_request (encode_confirmed_request i (write_obtain_request (source, dest))) of
      Inl e \<Rightarrow> Some (Inl e, fs, c, cl\<lparr>offered_files := (offered_files cl)(source := None)\<rparr>)
    | Inr (invoke, service) \<Rightarrow>
      (let (units, c) = start_obtain_file r provider invoke service c
       in case obtain_run provider units [] (fs, c, cl) of
         None \<Rightarrow> None
       | Some (answers, fs, c, cl) \<Rightarrow>
         Some ((case find (\<lambda>u. case peek_invoke_and_kind u of Inr (_, j) \<Rightarrow> j = Some i | Inl _ \<Rightarrow> False) answers of
                  None \<Rightarrow> Inl MeTimeout
                | Some u \<Rightarrow> bindE (parse_confirmed_response u) (\<lambda>cr. decode_obtain_response (cr_service cr))),
               fs, c, cl\<lparr>offered_files := (offered_files cl)(source := None)\<rparr>)))"

lemma request_kind:
  "length (encode_confirmed_request i (put b)) < usize_limit \<Longrightarrow>
    peek_request_kind (encode_confirmed_request i (put b)) = Inr KConfirmedRequest"
  by (simp add: peek_request_kind_def encode_confirmed_request_def w_put read_tlv_single)

lemma response_kind:
  "length (encode_confirmed_response i (put b)) < usize_limit \<Longrightarrow>
    peek_request_kind (encode_confirmed_response i (put b)) = Inr KConfirmedResponse"
  by (simp add: peek_request_kind_def encode_confirmed_response_def w_put read_tlv_single pdu_tags)

lemma error_kind:
  "peek_request_kind (encode_error i) = Inr KConfirmedError" "isl (parse_confirmed_response (encode_error i))"
proof -
  let ?c = "tlv_bytes u_integer (encode_integer (ucast i)) @ tlv_bytes (tag_context 0 False) (encode_integer 0)"
  have b: "encode_error i = tlv_bytes pdu_confirmed_error ?c"
    by (simp add: encode_error_def encode_confirmed_error_def w_put)
  have "length (tlv_bytes pdu_confirmed_error ?c) < usize_limit"
    using tlv_bytes_bound [of pdu_confirmed_error ?c] tlv_bytes_bound [of u_integer "encode_integer (ucast i)"]
      tlv_bytes_bound [of "tag_context 0 False" "encode_integer 0"] length_encode_integer(2) [of "ucast i"]
      length_encode_integer(2) [of 0] by (simp add: usize_limit_def)
  then show "peek_request_kind (encode_error i) = Inr KConfirmedError" "isl (parse_confirmed_response (encode_error i))"
    by (simp_all add: b peek_request_kind_def parse_confirmed_response_def read_tlv_single pdu_tags)
qed

lemma reverse_opened:
  assumes "offered_files cl name = Some d" "str_ok name" "length name < 2 ^ 60" "length d < 2 ^ 32"
  shows "handle_reverse_request (encode_confirmed_request o' (write_open_request (name, 0))) cl =
    (Some (encode_confirmed_response o' (encode_open_response \<lparr>fo_frsm_id = next_reverse (reverse_reads cl),
        fo_attributes = \<lparr>fa_size = of_nat (length d), fa_last_modified = None\<rparr>\<rparr>)),
     cl\<lparr>reverse_reads := AList.update (next_reverse (reverse_reads cl)) (d, 0) (reverse_reads cl)\<rparr>)"
proof -
  obtain s where "parse_confirmed_request (encode_confirmed_request o' (write_open_request (name, 0))) = Inr (o', s)"
    "tlv_tag s = svc_file_open" "decode_open_request s = Inr (name, 0)"
    using open_request.request_decoded [of "(name, 0)" o'] file_units_short(1) [of o' name 0] assms(2,3)
    by (auto simp: usize_limit_def)
  then show ?thesis using assms(1) by (simp add: handle_reverse_request_def Let_def)
qed

lemma reverse_read:
  assumes "map_of (reverse_reads cl) f = Some st" "next_chunk reverse_read_chunk st = (k, st')"
  shows "handle_reverse_request (encode_confirmed_request o' (write_read_request f)) cl =
    (Some (encode_confirmed_response o' (encode_read_response k)), cl\<lparr>reverse_reads := AList.update f st' (reverse_reads cl)\<rparr>)"
proof -
  obtain s where "parse_confirmed_request (encode_confirmed_request o' (write_read_request f)) = Inr (o', s)"
    "tlv_tag s = svc_file_read" "decode_read_request s = Inr f"
    using read_request.request_decoded [where q = f and i = o'] file_units_short(2) [of o' f] by (auto simp: usize_limit_def)
  then show ?thesis using assms by (simp add: handle_reverse_request_def file_tags_distinct)
qed

lemma reverse_closed:
  "handle_reverse_request (encode_confirmed_request o' (write_close_request f)) cl =
    (Some (encode_confirmed_response o' encode_close_response), cl\<lparr>reverse_reads := AList.delete f (reverse_reads cl)\<rparr>)"
proof -
  obtain s where "parse_confirmed_request (encode_confirmed_request o' (write_close_request f)) = Inr (o', s)"
    "tlv_tag s = svc_file_close" "decode_close_request s = Inr f"
    using close_request.request_decoded [where q = f and i = o'] file_units_short(3) [of o' f] by (auto simp: usize_limit_def)
  then show ?thesis by (simp add: handle_reverse_request_def file_tags_distinct)
qed

text \<open>The server's steps on those answers.\<close>

lemma obtain_opened:
  assumes "fs_obtain c = Some st" "ob_frsm st = None"
  shows "obtain_file_step p (encode_confirmed_response o' (encode_open_response \<lparr>fo_frsm_id = f,
      fo_attributes = \<lparr>fa_size = z, fa_last_modified = None\<rparr>\<rparr>)) fs c =
    ([encode_confirmed_request (fs_next_out_invoke c + 1) (write_read_request f)], fs,
     c\<lparr>fs_next_out_invoke := fs_next_out_invoke c + 1, fs_obtain := Some (st\<lparr>ob_frsm := Some f\<rparr>)\<rparr>)"
proof -
  let ?o = "\<lparr>fo_frsm_id = f, fo_attributes = \<lparr>fa_size = z, fa_last_modified = None\<rparr>\<rparr>"
  obtain t where "parse_confirmed_response (encode_confirmed_response o' (encode_open_response ?o)) =
      Inr \<lparr>cr_invoke_id = o', cr_service = t\<rparr>" "decode_open_response t = Inr ?o"
    using opened_file.response_decoded [of ?o o'] file_units_short(5) [of o' f z]
    by (auto simp: usize_limit_def attributes_ok_def)
  then show ?thesis using assms by (simp add: obtain_file_step_def Let_def)
qed

lemma obtain_read:
  assumes "fs_obtain c = Some st" "ob_frsm st = Some f" "length (fc_data k) \<le> 2 ^ 60"
  shows "fc_more_follows k \<Longrightarrow> obtain_file_step p (encode_confirmed_response o' (encode_read_response k)) fs c =
      ([encode_confirmed_request (fs_next_out_invoke c + 1) (write_read_request f)], fs,
       c\<lparr>fs_next_out_invoke := fs_next_out_invoke c + 1, fs_obtain := Some (st\<lparr>ob_data := ob_data st @ fc_data k\<rparr>)\<rparr>)"
    "\<not> fc_more_follows k \<Longrightarrow> p = Some pr \<Longrightarrow> fp_write pr (ob_dest st) (ob_data st @ fc_data k) fs = (r, fs') \<Longrightarrow>
      obtain_file_step p (encode_confirmed_response o' (encode_read_response k)) fs c =
      ([encode_confirmed_request (fs_next_out_invoke c + 1) (write_close_request f),
        if isl r then encode_error (ob_invoke st) else encode_confirmed_response (ob_invoke st) encode_obtain_response], fs',
       c\<lparr>fs_next_out_invoke := fs_next_out_invoke c + 1, fs_obtain := None\<rparr>)"
proof -
  obtain t where t: "parse_confirmed_response (encode_confirmed_response o' (encode_read_response k)) =
      Inr \<lparr>cr_invoke_id = o', cr_service = t\<rparr>" "decode_read_response t = Inr k"
    using file_chunks.response_decoded [where q = k and i = o'] file_units_short(4) [of o' k] assms(3)
    by (auto simp: usize_limit_def)
  show "fc_more_follows k \<Longrightarrow> obtain_file_step p (encode_confirmed_response o' (encode_read_response k)) fs c =
      ([encode_confirmed_request (fs_next_out_invoke c + 1) (write_read_request f)], fs,
       c\<lparr>fs_next_out_invoke := fs_next_out_invoke c + 1, fs_obtain := Some (st\<lparr>ob_data := ob_data st @ fc_data k\<rparr>)\<rparr>)"
    using t assms(1,2) by (cases c) (simp add: obtain_file_step_def Let_def)
  show "\<not> fc_more_follows k \<Longrightarrow> p = Some pr \<Longrightarrow> fp_write pr (ob_dest st) (ob_data st @ fc_data k) fs = (r, fs') \<Longrightarrow>
      obtain_file_step p (encode_confirmed_response o' (encode_read_response k)) fs c =
      ([encode_confirmed_request (fs_next_out_invoke c + 1) (write_close_request f),
        if isl r then encode_error (ob_invoke st) else encode_confirmed_response (ob_invoke st) encode_obtain_response], fs',
       c\<lparr>fs_next_out_invoke := fs_next_out_invoke c + 1, fs_obtain := None\<rparr>)"
    using t assms(1,2) by (cases c) (auto simp: obtain_file_step_def Let_def)
qed

lemma obtain_run_step:
  "peek_request_kind u = Inr KConfirmedRequest \<Longrightarrow> handle_reverse_request u cl = (Some response, cl') \<Longrightarrow>
    obtain_file_step p response fs c = (replies, fs', c') \<Longrightarrow>
    obtain_run p [u] answers (fs, c, cl) = obtain_run p replies answers (fs', c', cl')"
  by (subst obtain_run.simps) simp

lemma obtain_end:
  assumes "fs_obtain c = None"
  shows "obtain_run p [encode_confirmed_request o' (write_close_request f),
      if b then encode_error i else encode_confirmed_response i encode_obtain_response] answers (fs, c, cl) =
    Some (answers @ [if b then encode_error i else encode_confirmed_response i encode_obtain_response],
      fs, c, cl\<lparr>reverse_reads := AList.delete f (reverse_reads cl)\<rparr>)" (is "obtain_run p [?u, ?a] _ _ = _")
proof -
  have u: "peek_request_kind ?u = Inr KConfirmedRequest"
    using file_units_short(3) [of o' f] by (auto simp: write_close_request_def w_put usize_limit_def intro!: request_kind)
  have "peek_request_kind (encode_confirmed_response i encode_obtain_response) = Inr KConfirmedResponse"
    using file_units_short(8) [of i] by (auto simp: encode_obtain_response_def w_put usize_limit_def intro!: response_kind)
  moreover have "peek_request_kind (encode_error i) = Inr KConfirmedError"
    by (rule error_kind(1))
  ultimately have a: "peek_request_kind ?a \<noteq> Inr KConfirmedRequest" by simp
  have "obtain_run p [?u, ?a] answers (fs, c, cl) = obtain_run p [?a] answers (fs, c, cl\<lparr>reverse_reads := AList.delete f (reverse_reads cl)\<rparr>)"
    using u reverse_closed [of o' f cl] assms by (subst obtain_run.simps) (simp add: obtain_file_step_def)
  also have "\<dots> = obtain_run p [] (answers @ [?a]) (fs, c, cl\<lparr>reverse_reads := AList.delete f (reverse_reads cl)\<rparr>)"
    using a by (subst obtain_run.simps) simp
  finally show ?thesis by (simp add: obtain_run.simps)
qed

lemma obtain_rest:
  "fs_obtain c = Some \<lparr>ob_invoke = i, ob_dest = dest, ob_frsm = Some f, ob_data = acc\<rparr> \<Longrightarrow>
    map_of (reverse_reads cl) f = Some (d, pos) \<Longrightarrow> pos \<le> length d \<Longrightarrow> d = acc @ drop pos d \<Longrightarrow>
    fp_write p dest d fs = (r, fs') \<Longrightarrow>
    \<exists>n. obtain_run (Some p) [encode_confirmed_request o' (write_read_request f)] answers (fs, c, cl) =
      Some (answers @ [if isl r then encode_error i else encode_confirmed_response i encode_obtain_response],
        fs', c\<lparr>fs_next_out_invoke := n, fs_obtain := None\<rparr>, cl\<lparr>reverse_reads := AList.delete f (reverse_reads cl)\<rparr>)"
proof (induction "length d - pos" arbitrary: pos acc c cl o' rule: less_induct)
  case less
  let ?stop = "min (pos + reverse_read_chunk) (length d)"
  let ?k = "\<lparr>fc_data = take (?stop - pos) (drop pos d), fc_more_follows = (?stop < length d)\<rparr>"
  let ?cl = "cl\<lparr>reverse_reads := AList.update f (d, ?stop) (reverse_reads cl)\<rparr>"
  let ?out = "fs_next_out_invoke c + 1"
  have r: "handle_reverse_request (encode_confirmed_request o' (write_read_request f)) cl =
      (Some (encode_confirmed_response o' (encode_read_response ?k)), ?cl)"
    by (rule reverse_read [OF less.prems(2)]) (simp add: next_chunk_def Let_def)
  have k: "length (fc_data ?k) \<le> 2 ^ 60" by (simp add: reverse_read_chunk_def)
  have kind: "peek_request_kind (encode_confirmed_request o' (write_read_request f)) = Inr KConfirmedRequest"
    using file_units_short(2) [of o' f] by (auto simp: write_read_request_def w_put usize_limit_def intro!: request_kind)
  have o: "acc @ fc_data ?k @ drop ?stop d = d"
  proof -
    have "drop ?stop d = drop (?stop - pos) (drop pos d)" using less.prems(3) by simp
    then show ?thesis using less.prems(4) by (simp del: drop_drop)
  qed
  have st: "ob_frsm \<lparr>ob_invoke = i, ob_dest = dest, ob_frsm = Some f, ob_data = acc\<rparr> = Some f" by simp
  show ?case
  proof (cases "?stop < length d")
    case True
    then have m: "pos + reverse_read_chunk < length d" by (simp add: min_def split: if_splits)
    let ?c = "c\<lparr>fs_next_out_invoke := ?out, fs_obtain := Some \<lparr>ob_invoke = i, ob_dest = dest, ob_frsm = Some f, ob_data = acc @ fc_data ?k\<rparr>\<rparr>"
    have "\<exists>n. obtain_run (Some p) [encode_confirmed_request ?out (write_read_request f)] answers (fs, ?c, ?cl) =
      Some (answers @ [if isl r then encode_error i else encode_confirmed_response i encode_obtain_response],
        fs', ?c\<lparr>fs_next_out_invoke := n, fs_obtain := None\<rparr>, ?cl\<lparr>reverse_reads := AList.delete f (reverse_reads ?cl)\<rparr>)"
    proof (rule less.hyps)
      show "length d - ?stop < length d - pos" using True less.prems(3) by (simp add: reverse_read_chunk_def)
      show "d = (acc @ fc_data ?k) @ drop ?stop d" using o by simp
    qed (use less.prems(5) in \<open>simp_all add: map_of_update\<close>)
    moreover have "obtain_run (Some p) [encode_confirmed_request o' (write_read_request f)] answers (fs, c, cl) =
      obtain_run (Some p) [encode_confirmed_request ?out (write_read_request f)] answers (fs, ?c, ?cl)"
      by (rule obtain_run_step [OF kind r]) (use obtain_read(1) [OF less.prems(1) st k, of "Some p" o' fs] m in simp)
    ultimately show ?thesis by (auto simp: delete_update_same)
  next
    case False
    then have e: "?stop = length d" using less.prems(3) by simp
    let ?ans = "if isl r then encode_error i else encode_confirmed_response i encode_obtain_response"
    let ?c = "c\<lparr>fs_next_out_invoke := ?out, fs_obtain := None\<rparr>"
    have last: "obtain_file_step (Some p) (encode_confirmed_response o' (encode_read_response ?k)) fs c =
      ([encode_confirmed_request ?out (write_close_request f), ?ans], fs', ?c)"
      using obtain_read(2) [OF less.prems(1) st k, of "Some p" p fs r fs' o'] False o e less.prems(5) by simp
    have "obtain_run (Some p) [encode_confirmed_request o' (write_read_request f)] answers (fs, c, cl) =
      obtain_run (Some p) [encode_confirmed_request ?out (write_close_request f), ?ans] answers (fs', ?c, ?cl)"
      by (rule obtain_run_step [OF kind r last])
    also have "\<dots> = Some (answers @ [?ans], fs', ?c, ?cl\<lparr>reverse_reads := AList.delete f (reverse_reads ?cl)\<rparr>)"
      by (rule obtain_end) simp
    finally show ?thesis by (auto simp: delete_update_same)
  qed
qed

text \<open>The whole transfer.\<close>

lemma obtained:
  assumes "offered_files cl source = Some d" "str_ok source" "length source < 2 ^ 60" "length d < 2 ^ 32"
    "fs_obtain c = Some \<lparr>ob_invoke = i, ob_dest = dest, ob_frsm = None, ob_data = []\<rparr>"
    "fp_write p dest d fs = (r, fs')" "next_reverse (reverse_reads cl) \<notin> fst ` set (reverse_reads cl)"
  shows "\<exists>n. obtain_run (Some p) [encode_confirmed_request o' (write_open_request (source, 0))] [] (fs, c, cl) =
    Some ([if isl r then encode_error i else encode_confirmed_response i encode_obtain_response],
      fs', c\<lparr>fs_next_out_invoke := n, fs_obtain := None\<rparr>, cl)"
proof -
  let ?f = "next_reverse (reverse_reads cl)"
  let ?cl = "cl\<lparr>reverse_reads := AList.update ?f (d, 0) (reverse_reads cl)\<rparr>"
  let ?out = "fs_next_out_invoke c + 1"
  let ?c = "c\<lparr>fs_next_out_invoke := ?out, fs_obtain := Some \<lparr>ob_invoke = i, ob_dest = dest, ob_frsm = Some ?f, ob_data = []\<rparr>\<rparr>"
  have kind: "peek_request_kind (encode_confirmed_request o' (write_open_request (source, 0))) = Inr KConfirmedRequest"
    using file_units_short(1) [of o' source 0] assms(3)
    by (auto simp: write_open_request_def w_put write_file_name_put usize_limit_def intro!: request_kind)
  have "obtain_run (Some p) [encode_confirmed_request o' (write_open_request (source, 0))] [] (fs, c, cl) =
      obtain_run (Some p) [encode_confirmed_request ?out (write_read_request ?f)] [] (fs, ?c, ?cl)"
    using kind reverse_opened [OF assms(1-4), of o'] obtain_opened [OF assms(5), of "Some p" o' ?f "of_nat (length d)" fs]
    by (subst obtain_run.simps) (simp add: Let_def)
  moreover obtain n where "obtain_run (Some p) [encode_confirmed_request ?out (write_read_request ?f)] [] (fs, ?c, ?cl) =
      Some ([] @ [if isl r then encode_error i else encode_confirmed_response i encode_obtain_response],
        fs', ?c\<lparr>fs_next_out_invoke := n, fs_obtain := None\<rparr>, ?cl\<lparr>reverse_reads := AList.delete ?f (reverse_reads ?cl)\<rparr>)"
    using obtain_rest [of ?c i dest ?f "[]" ?cl d 0 p fs r fs' ?out "[]"] assms(6) by (auto simp: map_of_update)
  moreover have "AList.delete ?f (reverse_reads cl) = reverse_reads cl"
    using assms(7) by (auto simp: delete_conv filter_id_conv)
  ultimately show ?thesis by (auto simp: delete_update_same)
qed

section \<open>Properties\<close>

lemma next_reverse_fresh:
  assumes "\<forall>(k, _) \<in> set reads. sint k < 2 ^ 31 - 1"
  shows "next_reverse reads \<notin> fst ` set reads"
proof (cases "map (\<lambda>(k, _). sint k) reads")
  case (Cons k ks)
  define m where "m = fold max ks k"
  have le: "x \<le> m" if "x \<in> set (k # ks)" for x
    using that unfolding m_def by (metis List.finite_set Max.set_eq_fold Max_ge)
  have "m \<in> set (k # ks)"
    unfolding m_def by (metis List.finite_set Max.set_eq_fold Max_in list.set_intros(1) empty_iff)
  then obtain y where "y \<in> set reads" "m = sint (fst y)" unfolding Cons [symmetric] by auto
  then obtain a where a: "a \<in> fst ` set reads" "m = sint a" by blast
  then have m: "m < 2 ^ 31 - 1" using assms by auto
  have "sint (next_reverse reads) = m + 1"
    using m sint_greater_eq [of a] Cons
    by (simp add: next_reverse_def m_def [symmetric] a(2) sint_word_ariths(1) signed_take_bit_int_eq_self)
  moreover have "sint b \<le> m" if "b \<in> fst ` set reads" for b
    using le that unfolding Cons [symmetric] by force
  ultimately show ?thesis by force
qed simp

lemma download_returns:
  assumes "may_read_files r" "fp_read p name (fl_fs l) = Inr d" "str_ok name" "length name < 2 ^ 60"
  shows "\<exists>l'. download_file (file_request r (Some p)) name l = Some (Inr d, l') \<and> fl_fs l' = fl_fs l"
proof -
  define f where "f = (if sint (fs_next_frsm (fl_conn l)) < 0 then 0 else fs_next_frsm (fl_conn l)) + 1"
  let ?l = "l\<lparr>fl_next := fl_next l + 1, fl_conn := (fl_conn l)\<lparr>fs_next_frsm := f, fs_files := (fs_files (fl_conn l))(f \<mapsto> (d, 0))\<rparr>\<rparr>"
  obtain i where "download_loop (file_request r (Some p)) f [] ?l = Some (Inr d,
      ?l\<lparr>fl_next := i, fl_conn := (fl_conn ?l)\<lparr>fs_files := (fs_files (fl_conn ?l))(f \<mapsto> (d, length d))\<rparr>\<rparr>)"
    using download_rest [of ?l f d 0 "[]" r "Some p"] by auto
  then show ?thesis
    using open_asked [OF assms f_def] by (simp add: download_file_def close_asked)
qed

lemma upload_returns:
  assumes "may_write_files r" "fs_obtain c = None" "str_ok source" "str_ok dest" "length source < 2 ^ 60" "length dest < 2 ^ 60"
    "length d < 2 ^ 32" "\<forall>(k, _) \<in> set (reverse_reads cl). sint k < 2 ^ 31 - 1" "fp_write p dest d fs = (w, fs')"
  shows "\<exists>res c' cl'. upload_file r (Some p) i source dest d (fs, c, cl) = Some (res, fs', c', cl') \<and>
    (res = Inr () \<longleftrightarrow> \<not> isl w)"
proof -
  obtain s where s: "parse_confirmed_request (encode_confirmed_request i (write_obtain_request (source, dest))) = Inr (i, s)"
    "decode_obtain_request s = Inr (source, dest)"
    using obtain_request.request_decoded [of "(source, dest)" i] file_units_short(7) [of i source dest] assms(3-6)
    by (auto simp: usize_limit_def)
  let ?out = "fs_next_out_invoke c + 1"
  let ?c = "c\<lparr>fs_next_out_invoke := ?out, fs_obtain := Some \<lparr>ob_invoke = i, ob_dest = dest, ob_frsm = None, ob_data = []\<rparr>\<rparr>"
  let ?cl = "cl\<lparr>offered_files := (offered_files cl)(source \<mapsto> d)\<rparr>"
  let ?a = "if isl w then encode_error i else encode_confirmed_response i encode_obtain_response"
  obtain n where run: "obtain_run (Some p) [encode_confirmed_request ?out (write_open_request (source, 0))] [] (fs, ?c, ?cl) =
      Some ([?a], fs', ?c\<lparr>fs_next_out_invoke := n, fs_obtain := None\<rparr>, ?cl)"
    using obtained [of ?cl source d ?c i dest p fs w fs' ?out] next_reverse_fresh [OF assms(8)] assms(3,5,7,9) by auto
  have start: "start_obtain_file r (Some p) i s c = ([encode_confirmed_request ?out (write_open_request (source, 0))], ?c)"
    using assms(1,2) s(2) by (simp add: start_obtain_file_def Let_def)
  show ?thesis
  proof (cases "isl w")
    case True
    have "isl (bindE (parse_confirmed_response (encode_error i)) (\<lambda>cr. decode_obtain_response (cr_service cr)))"
      using error_kind(2) [of i] by (cases "parse_confirmed_response (encode_error i)") simp_all
    then show ?thesis
      using s(1) run start True by (auto simp: upload_file_def Let_def split: sum.splits prod.splits)
  next
    case False
    obtain t where "parse_confirmed_response (encode_confirmed_response i encode_obtain_response) =
        Inr \<lparr>cr_invoke_id = i, cr_service = t\<rparr>" "decode_obtain_response t = Inr ()"
      "peek_invoke_and_kind (encode_confirmed_response i encode_obtain_response) = Inr (KConfirmedResponse, Some i)"
      using obtain_response.response_decoded [where q = "()" and i = i] file_units_short(8) [of i] by (auto simp: usize_limit_def)
    then show ?thesis using s(1) run start False by (simp add: upload_file_def Let_def)
  qed
qed





end
