(* ===== verification/Journal.thy ===== *)
theory Journal imports FilePdu ServerNamespace begin

text \<open>
  The reading of journals (\<open>crates/iec61850-mms/src/mms/journal.rs\<close>, and \<open>handle_read_journal\<close> of
  \<open>server.rs\<close>): requests, entries with their recorded values, and pages, of both ends.
\<close>

unbundle bit_operations_syntax

section \<open>Journals\<close>

definition journal_write_request :: "string \<times> string \<Rightarrow> writing" where
  "journal_write_request = (\<lambda>(domain, item). w_tlv svc_read_journal (\<lambda>w. w_seq
     [write_variable_spec domain item,
      w_tlv (tag_context 1 True) (w_octet_string (tag_context 0 False) (replicate 6 0)),
      w_tlv (tag_context 2 True) (w_octet_string (tag_context 0 False) (replicate 6 0xff))] w))"

definition journal_decode_request :: "tlv \<Rightarrow> mms_error + string \<times> string" where
  "journal_decode_request service_tlv =
    bindE (expect_service service_tlv svc_read_journal) (\<lambda>content.
      bindE (fst (m_expect (tag_context 0 True) (reader_new content))) read_object_name)"

definition write_journal_variable :: "mms_data \<Rightarrow> writing" where
  "write_journal_variable v = w_sequence (\<lambda>w. w_seq
     [w_visible_string (tag_context 0 False) [], w_tlv (tag_context 1 True) (mms_encode v)] w)"

definition write_journal_entry :: "journal_entry \<Rightarrow> writing" where
  "write_journal_entry e = w_sequence (\<lambda>w. w_seq
     [w_octet_string (tag_context 0 False) (je_entry_id e),
      w_tlv (tag_context 2 True) (\<lambda>w. w_seq
        [w_octet_string (tag_context 0 False) (je_occurrence_time e),
         write_if (je_values e \<noteq> []) (w_tlv (tag_context 2 True) (\<lambda>w. fold write_journal_variable (je_values e) w))] w)] w)"

definition journal_encode_response :: "journal_entry list \<times> bool \<Rightarrow> writing" where
  "journal_encode_response = (\<lambda>(entries, more_follows). w_tlv svc_read_journal (\<lambda>w. w_seq
     [w_tlv (tag_context 0 True) (\<lambda>w. fold write_journal_entry entries w),
      w_boolean (tag_context 1 False) more_follows] w))"

text \<open>A value that cannot be decoded is left out; a TLV that cannot be read is an error.\<close>

definition journal_field :: "tlv \<Rightarrow> mms_error + mms_data list" where
  "journal_field f =
    (if tlv_tag f = tag_context 1 True then
       (case bindE (fst (read_tlv (reader_new (tlv_content f)))) mms_decode of Inr v \<Rightarrow> Inr [v] | Inl _ \<Rightarrow> Inr [])
     else Inr [])"

definition journal_variable :: "tlv \<Rightarrow> mms_error + mms_data list" where
  "journal_variable vseq = bindE (read_each journal_field (reader_new (tlv_content vseq)) []) (\<lambda>vs. Inr (concat vs))"

text \<open>What a part of an entry adds: an occurrence time that takes the place of the one before, and values.\<close>

definition journal_part :: "tlv \<Rightarrow> mms_error + bytes option \<times> mms_data list" where
  "journal_part inner =
    (if tlv_tag inner = tag_context 0 False then Inr (Some (tlv_content inner), [])
     else if tlv_tag inner = tag_context 2 True then
       bindE (read_each journal_variable (reader_new (tlv_content inner)) []) (\<lambda>vs. Inr (None, concat vs))
     else Inr (None, []))"

definition merge_parts :: "(bytes option \<times> mms_data list) list \<Rightarrow> bytes option \<times> mms_data list" where
  "merge_parts ps = (fold (\<lambda>(t, _) prev. if t = None then prev else t) ps None, concat (map snd ps))"

definition journal_content :: "tlv \<Rightarrow> mms_error + bytes option \<times> mms_data list" where
  "journal_content t =
    (if tlv_tag t = tag_context 2 True then
       bindE (read_each journal_part (reader_new (tlv_content t)) []) (\<lambda>ps. Inr (merge_parts ps))
     else Inr (None, []))"

definition journal_decode_entry :: "tlv \<Rightarrow> mms_error + journal_entry" where
  "journal_decode_entry je =
    fst (thenE (m_expect (tag_context 0 False) (reader_new (tlv_content je))) (\<lambda>entry_id r.
      (bindE (read_each journal_content r []) (\<lambda>ps.
        Inr \<lparr>je_entry_id = entry_id, je_occurrence_time = unwrap_or [] (fst (merge_parts ps)),
             je_values = snd (merge_parts ps)\<rparr>), r)))"

definition journal_decode_response :: "tlv \<Rightarrow> mms_error + journal_entry list \<times> bool" where
  "journal_decode_response service_tlv =
    bindE (expect_service service_tlv svc_read_journal) (\<lambda>content.
      fst (thenE (m_expect (tag_context 0 True) (reader_new content)) (\<lambda>list r.
        case read_each journal_decode_entry (reader_new list) [] of
          Inl e \<Rightarrow> (Inl e, r)
        | Inr entries \<Rightarrow>
          thenE (map_errR MeBer (rd_read_if (tag_context 1 False) r)) (\<lambda>mf r.
            (bindE (case mf of Some c \<Rightarrow> map_errE MeBer (decode_bool c) | None \<Rightarrow> Inr False) (\<lambda>more_follows.
               Inr (entries, more_follows)), r)))))"

text \<open>The handler and the client's operation.\<close>

definition handle_read_journal :: "u32 \<Rightarrow> tlv \<Rightarrow> server_model \<Rightarrow> bytes" where
  "handle_read_journal invoke service sm =
    (case journal_decode_request service of
       Inl _ \<Rightarrow> encode_error invoke
     | Inr (domain, item) \<Rightarrow>
       (case journal_entries sm domain item of
          Some entries \<Rightarrow> encode_confirmed_response invoke (journal_encode_response (entries, False))
        | None \<Rightarrow> encode_error invoke))"

section \<open>What a journal carries\<close>

interpretation journal_request: mms_service svc_read_journal journal_write_request journal_decode_request "\<lambda>q. q" name_ok2
proof
  fix q assume ok: "name_ok2 q"
  let ?o = "tlv_bytes (tag_context 0 True) (object_name_bytes q)"
  let ?c = "?o @ tlv_bytes (tag_context 1 True) (tlv_bytes (tag_context 0 False) (replicate 6 0)) @
    tlv_bytes (tag_context 2 True) (tlv_bytes (tag_context 0 False) (replicate 6 0xff))"
  have "journal_decode_request \<lparr>tlv_tag = svc_read_journal, tlv_content = ?c\<rparr> = Inr q" if "length ?c < usize_limit"
  proof -
    have s: "slice_ok [] ?c" using that by (simp add: slice_ok_Nil)
    then show ?thesis
      using read_object_name_bytes [OF inner_slice_first [OF s] ok]
      by (simp add: journal_decode_request_def reads)
  qed
  moreover have "journal_write_request q = put (tlv_bytes svc_read_journal ?c)"
    by (simp add: journal_write_request_def case_prod_unfold write_variable_spec_def write_object_name_put w_put)
  ultimately show "\<exists>c. journal_write_request q = put (tlv_bytes svc_read_journal c) \<and>
      (length c < usize_limit \<longrightarrow> journal_decode_request \<lparr>tlv_tag = svc_read_journal, tlv_content = c\<rparr> = Inr q)"
    by blast
qed

definition journal_variable_content :: "mms_data \<Rightarrow> bytes" where
  "journal_variable_content v = tlv_bytes (tag_context 0 False) [] @ tlv_bytes (tag_context 1 True) (mms_bytes v)"

lemma write_journal_variable_put: "write_journal_variable v = put (tlv_bytes u_sequence (journal_variable_content v))"
  by (simp add: write_journal_variable_def journal_variable_content_def w_put mms_encode_put u_sequence_def as_bytes_def)

lemma read_each_one_more:
  "slice_ok pre (tlv_bytes t c @ rest) \<Longrightarrow> f \<lparr>tlv_tag = t, tlv_content = c\<rparr> = Inr x \<Longrightarrow>
    read_each f (rd_at pre (tlv_bytes t c @ rest)) out = read_each f (rd_at (pre @ tlv_bytes t c) rest) (out @ [x])"
  by (subst read_each.simps) (simp add: read_tlv_at slice_ok_def)

lemma read_each_done: "read_each f (rd_at pre []) out = Inr out"
  by (simp add: read_each.simps)

lemma read_each_last:
  "slice_ok pre (tlv_bytes t c) \<Longrightarrow> f \<lparr>tlv_tag = t, tlv_content = c\<rparr> = Inr x \<Longrightarrow>
    read_each f (rd_at pre (tlv_bytes t c)) out = Inr (out @ [x])"
  using read_each_one_more [of pre t c "[]" f x out] by (simp add: read_each_done)

lemma journal_field_value:
  "length (mms_bytes v) < usize_limit \<Longrightarrow> data_ok v \<Longrightarrow>
    journal_field \<lparr>tlv_tag = tag_context 1 True, tlv_content = mms_bytes v\<rparr> = Inr [v]"
  using data_decodes [of v] length_content_less [of "mms_content v" "mms_tag v"]
  by (simp add: journal_field_def mms_bytes_def reader_new_at read_tlv_last slice_ok_Nil)

lemma journal_variable_read:
  assumes "length (journal_variable_content v) < usize_limit" "data_ok v"
  shows "journal_variable \<lparr>tlv_tag = t, tlv_content = journal_variable_content v\<rparr> = Inr [v]"
proof -
  have s: "slice_ok [] (tlv_bytes (tag_context 0 False) [] @ tlv_bytes (tag_context 1 True) (mms_bytes v))"
    using assms(1) by (simp add: slice_ok_Nil journal_variable_content_def)
  have "length (mms_bytes v) < usize_limit"
    using inner_slice_rest [OF s] by (simp add: slice_ok_Nil)
  then have f: "journal_field \<lparr>tlv_tag = tag_context 1 True, tlv_content = mms_bytes v\<rparr> = Inr [v]"
    using assms(2) by (rule journal_field_value)
  have "read_each journal_field (rd_at [] (tlv_bytes (tag_context 0 False) [] @ tlv_bytes (tag_context 1 True) (mms_bytes v))) [] =
      read_each journal_field (rd_at ([] @ tlv_bytes (tag_context 0 False) []) (tlv_bytes (tag_context 1 True) (mms_bytes v))) ([] @ [[]])"
    by (rule read_each_one_more [OF s]) (simp add: journal_field_def)
  also have "\<dots> = Inr ([[]] @ [[v]])"
    using read_each_last [of "tlv_bytes (tag_context 0 False) []" "tag_context 1 True" "mms_bytes v" journal_field "[v]" "[[]]"] s f
    by (simp add: slice_ok_step)
  finally show ?thesis by (simp add: journal_variable_def journal_variable_content_def reader_new_at)
qed

definition entry_part :: "journal_entry \<Rightarrow> bytes" where
  "entry_part e = tlv_bytes (tag_context 0 False) (je_occurrence_time e) @
    (if je_values e = [] then []
     else tlv_bytes (tag_context 2 True) (concat (map (\<lambda>v. tlv_bytes u_sequence (journal_variable_content v)) (je_values e))))"

definition journal_entry_content :: "journal_entry \<Rightarrow> bytes" where
  "journal_entry_content e = tlv_bytes (tag_context 0 False) (je_entry_id e) @ tlv_bytes (tag_context 2 True) (entry_part e)"

lemma write_journal_entry_put: "write_journal_entry e = put (tlv_bytes u_sequence (journal_entry_content e))"
  by (simp add: write_journal_entry_def journal_entry_content_def entry_part_def w_put u_sequence_def write_if_def w_seq_simps
      w_field [where f = write_journal_variable, OF write_journal_variable_put])

lemma journal_part_values:
  assumes "length (concat (map (\<lambda>v. tlv_bytes u_sequence (journal_variable_content v)) vs)) < usize_limit" "list_all data_ok vs"
  shows "journal_part \<lparr>tlv_tag = tag_context 2 True,
      tlv_content = concat (map (\<lambda>v. tlv_bytes u_sequence (journal_variable_content v)) vs)\<rparr> = Inr (None, vs)"
proof -
  have "read_each journal_variable (rd_at [] (concat (map (\<lambda>v. tlv_bytes u_sequence (journal_variable_content v)) vs))) [] =
      Inr ([] @ map (\<lambda>v. [v]) vs)"
    by (rule read_entries) (use assms journal_variable_read in \<open>auto simp: slice_ok_Nil list_all_iff\<close>)
  then show ?thesis by (simp add: journal_part_def reader_new_at)
qed

lemma journal_content_read:
  assumes "length (entry_part e) < usize_limit" "list_all data_ok (je_values e)"
  shows "journal_content \<lparr>tlv_tag = tag_context 2 True, tlv_content = entry_part e\<rparr> =
    Inr (Some (je_occurrence_time e), je_values e)"
proof -
  let ?t = "tlv_bytes (tag_context 0 False) (je_occurrence_time e)"
  let ?vs = "concat (map (\<lambda>v. tlv_bytes u_sequence (journal_variable_content v)) (je_values e))"
  have time: "journal_part \<lparr>tlv_tag = tag_context 0 False, tlv_content = je_occurrence_time e\<rparr> = Inr (Some (je_occurrence_time e), [])"
    by (simp add: journal_part_def)
  have s: "slice_ok [] (entry_part e)" using assms(1) by (simp add: slice_ok_Nil)
  show ?thesis
  proof (cases "je_values e = []")
    case True
    then show ?thesis
      using read_each_last [of "[]" "tag_context 0 False" "je_occurrence_time e" journal_part, OF _ time, of "[]"] s
      by (simp add: journal_content_def entry_part_def reader_new_at merge_parts_def)
  next
    case False
    then have e: "entry_part e = ?t @ tlv_bytes (tag_context 2 True) ?vs" by (simp add: entry_part_def)
    note s2 = s [unfolded e]
    have "length ?vs < usize_limit" using inner_slice_rest [OF s2] by (simp add: slice_ok_Nil)
    from journal_part_values [OF this assms(2)]
    have "read_each journal_part (rd_at [] (?t @ tlv_bytes (tag_context 2 True) ?vs)) [] =
        Inr [(Some (je_occurrence_time e), []), (None, je_values e)]"
      using read_each_one_more [of "[]" "tag_context 0 False" "je_occurrence_time e" _ journal_part, OF s2 time, of "[]"] s2
        read_each_last [of ?t "tag_context 2 True" ?vs journal_part "(None, je_values e)" "[(Some (je_occurrence_time e), [])]"]
      by (simp add: slice_ok_step)
    then show ?thesis by (simp add: journal_content_def e reader_new_at merge_parts_def)
  qed
qed

definition journal_entry_ok :: "journal_entry \<Rightarrow> bool" where
  "journal_entry_ok e \<longleftrightarrow> list_all data_ok (je_values e)"

lemma journal_entry_read:
  assumes "length (journal_entry_content e) < usize_limit" "journal_entry_ok e"
  shows "journal_decode_entry \<lparr>tlv_tag = t, tlv_content = journal_entry_content e\<rparr> = Inr e"
proof -
  let ?i = "tlv_bytes (tag_context 0 False) (je_entry_id e)"
  have s: "slice_ok [] (?i @ tlv_bytes (tag_context 2 True) (entry_part e))"
    using assms(1) by (simp add: slice_ok_Nil journal_entry_content_def)
  have "length (entry_part e) < usize_limit" using inner_slice_rest [OF s] by (simp add: slice_ok_Nil)
  from journal_content_read [OF this] assms(2)
  have "read_each journal_content (rd_at ?i (tlv_bytes (tag_context 2 True) (entry_part e))) [] =
      Inr [(Some (je_occurrence_time e), je_values e)]"
    using read_each_last [of ?i "tag_context 2 True" "entry_part e" journal_content _ "[]"] s
    by (simp add: slice_ok_step journal_entry_ok_def)
  then show ?thesis
    using s by (simp add: journal_decode_entry_def journal_entry_content_def reads merge_parts_def unwrap_or_def)
qed

interpretation journal_page: mms_service svc_read_journal journal_encode_response journal_decode_response "\<lambda>r. r"
    "\<lambda>r. list_all journal_entry_ok (fst r)"
proof
  fix r :: "journal_entry list \<times> bool" assume ok: "list_all journal_entry_ok (fst r)"
  let ?es = "concat (map (\<lambda>e. tlv_bytes u_sequence (journal_entry_content e)) (fst r))"
  let ?c = "tlv_bytes (tag_context 0 True) ?es @ tlv_bytes (tag_context 1 False) (encode_bool (snd r))"
  have "journal_decode_response \<lparr>tlv_tag = svc_read_journal, tlv_content = ?c\<rparr> = Inr r" if "length ?c < usize_limit"
  proof -
    have s: "slice_ok [] ?c" using that by (simp add: slice_ok_Nil)
    then have i: "slice_ok [] ?es" by (rule inner_slice_first)
    have "read_each journal_decode_entry (rd_at [] ?es) [] = Inr ([] @ fst r)"
      by (rule read_each_bytes [OF _ i]) (use ok journal_entry_read in \<open>auto simp: list_all_iff\<close>)
    then show ?thesis using s by (simp add: journal_decode_response_def reads decode_encode_bool)
  qed
  moreover have "journal_encode_response r = put (tlv_bytes svc_read_journal ?c)"
    by (simp add: journal_encode_response_def case_prod_unfold w_field [where f = write_journal_entry, OF write_journal_entry_put] w_put)
  ultimately show "\<exists>c. journal_encode_response r = put (tlv_bytes svc_read_journal c) \<and>
      (length c < usize_limit \<longrightarrow> journal_decode_response \<lparr>tlv_tag = svc_read_journal, tlv_content = c\<rparr> = Inr r)"
    by blast
qed

end
