(* ===== verification/TypeAttr.thy ===== *)
theory TypeAttr imports Journal begin

text \<open>
  The types of variables (\<open>crates/iec61850-mms/src/mms/type_attr.rs\<close>, and \<open>handle_get_var_attr\<close> of
  \<open>server.rs\<close>): the recursive type specification with its bound of 16 levels, its text, and the type the
  server derives from a stored value. The lemmas show that a type is read back as written and that a
  value has the type derived from it.
\<close>

unbundle bit_operations_syntax

section \<open>Types of variables\<close>

datatype 't struct_component = StructComponent (sc_name: "string option") (sc_ty: 't)

lemma component_size [termination_simp]:
  "c \<in> set cs \<Longrightarrow> size (sc_ty c) < Suc (size_list (size_struct_component size) cs)"
proof (induction cs)
  case (Cons d cs)
  have "size (sc_ty d) \<le> size_struct_component size d" by (cases d) simp
  then show ?case using Cons by auto
qed simp

datatype type_spec =
    TsBoolean
  | TsInteger u8
  | TsUnsigned u8
  | TsFloatingPoint u8 u8
  | TsBitString u32
  | TsOctetString u32
  | TsVisibleString u32
  | TsMmsString u32
  | TsBinaryTime bool
  | TsGeneralizedTime
  | TsUtcTime
  | TsBcd u8
  | TsObjId
  | TsArray u32 type_spec
  | TsStructure "type_spec struct_component list"
  | TsTypeName string
  | TsOther u32

record variable_attributes =
  va_mms_deletable :: bool
  va_type_spec :: type_spec

definition svc_get_variable_attributes :: tag where
  "svc_get_variable_attributes = tag_context 6 True"

definition ts_type_name :: tag where "ts_type_name = tag_context 0 True"
definition ts_array :: tag where "ts_array = tag_context 1 True"
definition ts_structure :: tag where "ts_structure = tag_context 2 True"
definition ts_boolean :: tag where "ts_boolean = tag_context 3 False"
definition ts_bit_string :: tag where "ts_bit_string = tag_context 4 False"
definition ts_integer :: tag where "ts_integer = tag_context 5 False"
definition ts_unsigned :: tag where "ts_unsigned = tag_context 6 False"
definition ts_float :: tag where "ts_float = tag_context 7 True"
definition ts_octet_string :: tag where "ts_octet_string = tag_context 9 False"
definition ts_visible_string :: tag where "ts_visible_string = tag_context 10 False"
definition ts_generalized_time :: tag where "ts_generalized_time = tag_context 11 False"
definition ts_binary_time :: tag where "ts_binary_time = tag_context 12 False"
definition ts_bcd :: tag where "ts_bcd = tag_context 13 False"
definition ts_obj_id :: tag where "ts_obj_id = tag_context 15 False"
definition ts_mms_string :: tag where "ts_mms_string = tag_context 16 False"
definition ts_utc_time :: tag where "ts_utc_time = tag_context 17 False"

lemmas ts_tags = ts_type_name_def ts_array_def ts_structure_def ts_boolean_def ts_bit_string_def ts_integer_def
  ts_unsigned_def ts_float_def ts_octet_string_def ts_visible_string_def ts_generalized_time_def ts_binary_time_def
  ts_bcd_def ts_obj_id_def ts_mms_string_def ts_utc_time_def

definition attr_write_request :: "string \<times> string \<Rightarrow> writing" where
  "attr_write_request = (\<lambda>(domain, item). w_tlv svc_get_variable_attributes
     (w_tlv (tag_context 0 True) (write_object_name domain item)))"

definition attr_decode_request :: "tlv \<Rightarrow> mms_error + string \<times> string" where
  "attr_decode_request service_tlv =
    bindE (expect_service service_tlv svc_get_variable_attributes) (\<lambda>content.
      bindE (fst (m_expect (tag_context 0 True) (reader_new content))) read_object_name)"

subsection \<open>Reading a type\<close>

definition max_type_spec_depth :: nat where "max_type_spec_depth = 16"

text \<open>Integers clamped into \<open>u8\<close> and \<open>i32\<close>.\<close>

definition small_u8 :: "bytes \<Rightarrow> mms_error + u8" where
  "small_u8 content = bindE (map_errE MeBer (decode_integer content)) (\<lambda>v. Inr (word_of_int (max 0 (min 255 (sint v)))))"

definition small_i32 :: "bytes \<Rightarrow> mms_error + u32" where
  "small_i32 content = bindE (map_errE MeBer (decode_integer content)) (\<lambda>v.
    Inr (word_of_int (max (- (2 ^ 31)) (min (2 ^ 31 - 1) (sint v)))))"

text \<open>The last visible string at any depth; a TLV that cannot be read leaves none.\<close>

function last_visible_string :: "bytes \<Rightarrow> string option"
  and last_visible_loop :: "reader \<Rightarrow> string option \<Rightarrow> string option" where
  "last_visible_string content = last_visible_loop (reader_new content) None"
| "last_visible_loop r found =
    (if rd_is_empty r then found
     else case read_tlv r of
       (Inl e, _) \<Rightarrow> None
     | (Inr t, r') \<Rightarrow>
       last_visible_loop r'
         (if tlv_tag t = u_visible_string then
            (case decode_visible_string (tlv_content t) of Inr s \<Rightarrow> Some s | Inl _ \<Rightarrow> None)
          else if constructed (tlv_tag t) then
            (case last_visible_string (tlv_content t) of Some s \<Rightarrow> Some s | None \<Rightarrow> found)
          else found))"
  by pat_completeness auto
termination
  by (relation "measure (\<lambda>x. case x of Inl c \<Rightarrow> 2 * length c + 1 | Inr (r, _) \<Rightarrow> 2 * remaining r)")
    (auto dest!: read_tlv_progress(3) [OF sym])

declare last_visible_string.simps [simp del] last_visible_loop.simps [simp del]

definition decode_float_spec :: "bytes \<Rightarrow> mms_error + type_spec" where
  "decode_float_spec content =
    fst (thenE (m_expect u_integer (reader_new content)) (\<lambda>c r.
      case small_u8 c of
        Inl e \<Rightarrow> (Inl e, r)
      | Inr format_width \<Rightarrow>
        thenE (m_expect u_integer r) (\<lambda>c r.
          (bindE (small_u8 c) (\<lambda>exponent_width. Inr (TsFloatingPoint format_width exponent_width)), r))))"

text \<open>The two compound forms, over the decoder of what is inside.\<close>

definition decode_array_spec :: "(tlv \<Rightarrow> mms_error + type_spec) \<Rightarrow> bytes \<Rightarrow> mms_error + type_spec" where
  "decode_array_spec decode content =
    fst (thenE (map_errR MeBer (rd_read_if (tag_context 0 False) (reader_new content))) (\<lambda>_ r.
      thenE (read_unsigned (tag_context 1 False) r) (\<lambda>elements r.
      thenE (m_expect (tag_context 2 True) r) (\<lambda>element r.
        (bindE (map_errE MeBer (fst (read_tlv (reader_new element)))) (\<lambda>inner.
         bindE (decode inner) (\<lambda>ty. Inr (TsArray (ucast elements) ty))), r)))))"

definition decode_component :: "(tlv \<Rightarrow> mms_error + type_spec) \<Rightarrow> tlv \<Rightarrow> mms_error + type_spec struct_component" where
  "decode_component decode comp_seq =
    fst (thenE (read_opt_visible (tag_context 0 False) (reader_new (tlv_content comp_seq))) (\<lambda>name r.
      thenE (m_expect (tag_context 1 True) r) (\<lambda>ct r.
        (bindE (map_errE MeBer (fst (read_tlv (reader_new ct)))) (\<lambda>ty_tlv.
         bindE (decode ty_tlv) (\<lambda>ty. Inr (StructComponent name ty))), r))))"

definition decode_structure :: "(tlv \<Rightarrow> mms_error + type_spec) \<Rightarrow> bytes \<Rightarrow> mms_error + type_spec struct_component list" where
  "decode_structure decode content =
    fst (thenE (map_errR MeBer (rd_read_if (tag_context 0 False) (reader_new content))) (\<lambda>_ r.
      thenE (m_expect (tag_context 1 True) r) (\<lambda>comps r.
        (read_each (decode_component decode) (reader_new comps) [], r))))"

text \<open>The number is that of the levels left, \<open>MAX_TYPE_SPEC_DEPTH\<close> less the depth.\<close>

primrec decode_type_spec_at :: "nat \<Rightarrow> tlv \<Rightarrow> mms_error + type_spec" where
  "decode_type_spec_at 0 t = Inl (MeBer DepthExceeded)"
| "decode_type_spec_at (Suc n) t =
    (let c = tlv_content t; g = tlv_tag t
     in if g = ts_boolean then Inr TsBoolean
        else if g = ts_integer then bindE (small_u8 c) (\<lambda>v. Inr (TsInteger v))
        else if g = ts_unsigned then bindE (small_u8 c) (\<lambda>v. Inr (TsUnsigned v))
        else if g = ts_bit_string then bindE (small_i32 c) (\<lambda>v. Inr (TsBitString v))
        else if g = ts_octet_string then bindE (small_i32 c) (\<lambda>v. Inr (TsOctetString v))
        else if g = ts_visible_string then bindE (small_i32 c) (\<lambda>v. Inr (TsVisibleString v))
        else if g = ts_mms_string then bindE (small_i32 c) (\<lambda>v. Inr (TsMmsString v))
        else if g = ts_bcd then bindE (small_u8 c) (\<lambda>v. Inr (TsBcd v))
        else if g = ts_binary_time then bindE (map_errE MeBer (decode_bool c)) (\<lambda>b. Inr (TsBinaryTime b))
        else if g = ts_generalized_time then Inr TsGeneralizedTime
        else if g = ts_utc_time then Inr TsUtcTime
        else if g = ts_obj_id then Inr TsObjId
        else if g = ts_float then decode_float_spec c
        else if g = ts_array then decode_array_spec (decode_type_spec_at n) c
        else if g = ts_structure then bindE (decode_structure (decode_type_spec_at n) c) (\<lambda>cs. Inr (TsStructure cs))
        else if g = ts_type_name then Inr (TsTypeName (unwrap_or [] (last_visible_string c)))
        else Inr (TsOther (number g)))"

definition decode_type_spec :: "tlv \<Rightarrow> mms_error + type_spec" where
  "decode_type_spec t = decode_type_spec_at max_type_spec_depth t"

definition attr_decode_response :: "tlv \<Rightarrow> mms_error + variable_attributes" where
  "attr_decode_response service_tlv =
    bindE (expect_service service_tlv svc_get_variable_attributes) (\<lambda>content.
      fst (thenE (map_errR MeBer (rd_read_if (tag_context 0 False) (reader_new content))) (\<lambda>md r.
        case (case md of Some c \<Rightarrow> map_errE MeBer (decode_bool c) | None \<Rightarrow> Inr False) of
          Inl e \<Rightarrow> (Inl e, r)
        | Inr mms_deletable \<Rightarrow>
          thenE (map_errR MeBer (read_tlv r)) (\<lambda>ts r.
            (bindE (decode_type_spec ts) (\<lambda>type_spec.
               Inr \<lparr>va_mms_deletable = mms_deletable, va_type_spec = type_spec\<rparr>), r)))))"

subsection \<open>Writing a type\<close>

text \<open>An alternative that was not recognised is written as a boolean.\<close>

fun encode_type_spec :: "type_spec \<Rightarrow> writing" where
  "encode_type_spec TsBoolean = w_null ts_boolean"
| "encode_type_spec (TsInteger n) = w_integer ts_integer (ucast n)"
| "encode_type_spec (TsUnsigned n) = w_integer ts_unsigned (ucast n)"
| "encode_type_spec (TsBitString n) = w_integer ts_bit_string (scast n)"
| "encode_type_spec (TsOctetString n) = w_integer ts_octet_string (scast n)"
| "encode_type_spec (TsVisibleString n) = w_integer ts_visible_string (scast n)"
| "encode_type_spec (TsMmsString n) = w_integer ts_mms_string (scast n)"
| "encode_type_spec (TsBcd n) = w_integer ts_bcd (ucast n)"
| "encode_type_spec (TsBinaryTime b) = w_boolean ts_binary_time b"
| "encode_type_spec TsGeneralizedTime = w_null ts_generalized_time"
| "encode_type_spec TsUtcTime = w_null ts_utc_time"
| "encode_type_spec TsObjId = w_null ts_obj_id"
| "encode_type_spec (TsFloatingPoint f e) = w_tlv ts_float (\<lambda>w. w_seq [w_integer u_integer (ucast f), w_integer u_integer (ucast e)] w)"
| "encode_type_spec (TsArray elements ty) = w_tlv ts_array (\<lambda>w. w_seq
     [w_unsigned (tag_context 1 False) (ucast elements), w_tlv (tag_context 2 True) (encode_type_spec ty)] w)"
| "encode_type_spec (TsStructure comps) = w_tlv ts_structure (w_tlv (tag_context 1 True)
     (\<lambda>w. fold (\<lambda>c. w_sequence (\<lambda>w. w_seq
        [(case sc_name c of Some name \<Rightarrow> w_visible_string (tag_context 0 False) name | None \<Rightarrow> (\<lambda>w. w)),
         w_tlv (tag_context 1 True) (encode_type_spec (sc_ty c))] w)) comps w))"
| "encode_type_spec (TsTypeName name) = w_tlv ts_type_name (w_visible_string u_visible_string name)"
| "encode_type_spec (TsOther _) = w_null ts_boolean"

definition attr_encode_response :: "variable_attributes \<Rightarrow> writing" where
  "attr_encode_response a = w_tlv svc_get_variable_attributes (\<lambda>w. w_seq
     [w_boolean (tag_context 0 False) (va_mms_deletable a), encode_type_spec (va_type_spec a)] w)"

subsection \<open>The type of a value\<close>

text \<open>\<open>len_bits\<close> does not overflow on the values of a store (\<open>mms_ok\<close>).\<close>

fun from_mms_data :: "mms_data \<Rightarrow> type_spec" where
  "from_mms_data (MBool _) = TsBoolean"
| "from_mms_data (MInt _) = TsInteger 32"
| "from_mms_data (MUint _) = TsUnsigned 32"
| "from_mms_data (MFloat _) = TsFloatingPoint 32 8"
| "from_mms_data (MBitString b) = TsBitString (of_nat (unwrap_or 0 (len_bits b)))"
| "from_mms_data (MOctets v) = TsOctetString (of_nat (length v))"
| "from_mms_data (MVisible s) = TsVisibleString (of_nat (length s))"
| "from_mms_data (MMmsString s) = TsMmsString (of_nat (length s))"
| "from_mms_data (MUtc _) = TsUtcTime"
| "from_mms_data (MBinaryTime v) = TsBinaryTime (length v = 6)"
| "from_mms_data (MStructure items) = TsStructure (map (\<lambda>v. StructComponent None (from_mms_data v)) items)"
| "from_mms_data (MArray items) = TsArray (of_nat (length items))
     (case items of [] \<Rightarrow> TsBoolean | v # _ \<Rightarrow> from_mms_data v)"

subsection \<open>As text\<close>

fun join_text :: "string \<Rightarrow> string list \<Rightarrow> string" where
  "join_text sep [] = []"
| "join_text sep [x] = x"
| "join_text sep (x # xs) = x @ sep @ join_text sep xs"

fun type_spec_show :: "type_spec \<Rightarrow> string" where
  "type_spec_show TsBoolean = ''bool''"
| "type_spec_show (TsInteger n) = ''int'' @ show_nat (unat n)"
| "type_spec_show (TsUnsigned n) = ''uint'' @ show_nat (unat n)"
| "type_spec_show (TsFloatingPoint f _) = ''float'' @ show_nat (unat f)"
| "type_spec_show (TsBitString n) = ''bitstring('' @ show_int (sint n) @ '')''"
| "type_spec_show (TsOctetString n) = ''octets('' @ show_int (sint n) @ '')''"
| "type_spec_show (TsVisibleString n) = ''vstring('' @ show_int (sint n) @ '')''"
| "type_spec_show (TsMmsString n) = ''mmsstring('' @ show_int (sint n) @ '')''"
| "type_spec_show (TsBinaryTime _) = ''binary-time''"
| "type_spec_show TsGeneralizedTime = ''generalized-time''"
| "type_spec_show TsUtcTime = ''utc-time''"
| "type_spec_show (TsBcd n) = ''bcd('' @ show_nat (unat n) @ '')''"
| "type_spec_show TsObjId = ''objid''"
| "type_spec_show (TsArray elements ty) = type_spec_show ty @ ''['' @ show_nat (unat elements) @ '']''"
| "type_spec_show (TsStructure comps) = ''struct{'' @ join_text '', '' (map (\<lambda>c.
     (case sc_name c of Some name \<Rightarrow> name @ '': '' | None \<Rightarrow> []) @ type_spec_show (sc_ty c)) comps) @ ''}''"
| "type_spec_show (TsTypeName name) = ''@'' @ name"
| "type_spec_show (TsOther n) = ''other('' @ show_nat (unat n) @ '')''"

subsection \<open>The handler\<close>

definition handle_get_var_attr :: "u32 \<Rightarrow> tlv \<Rightarrow> server_model \<Rightarrow> store \<Rightarrow> bytes" where
  "handle_get_var_attr invoke service sm store =
    (case attr_decode_request service of
       Inl _ \<Rightarrow> encode_error invoke
     | Inr (domain, item) \<Rightarrow>
       if \<not> sm_contains sm domain item then encode_error invoke
       else (case map_of store (domain, item) of
           None \<Rightarrow> encode_error invoke
         | Some v \<Rightarrow> encode_confirmed_response invoke
             (attr_encode_response \<lparr>va_mms_deletable = False, va_type_spec = from_mms_data v\<rparr>)))"

section \<open>What a type carries\<close>

fun ts_tag :: "type_spec \<Rightarrow> tag" where
  "ts_tag TsBoolean = ts_boolean"
| "ts_tag (TsInteger n) = ts_integer"
| "ts_tag (TsUnsigned n) = ts_unsigned"
| "ts_tag (TsBitString n) = ts_bit_string"
| "ts_tag (TsOctetString n) = ts_octet_string"
| "ts_tag (TsVisibleString n) = ts_visible_string"
| "ts_tag (TsMmsString n) = ts_mms_string"
| "ts_tag (TsBcd n) = ts_bcd"
| "ts_tag (TsBinaryTime b) = ts_binary_time"
| "ts_tag TsGeneralizedTime = ts_generalized_time"
| "ts_tag TsUtcTime = ts_utc_time"
| "ts_tag TsObjId = ts_obj_id"
| "ts_tag (TsFloatingPoint f e) = ts_float"
| "ts_tag (TsArray n ty) = ts_array"
| "ts_tag (TsStructure cs) = ts_structure"
| "ts_tag (TsTypeName name) = ts_type_name"
| "ts_tag (TsOther n) = ts_boolean"

fun ts_content :: "type_spec \<Rightarrow> bytes" where
  "ts_content (TsInteger n) = encode_integer (ucast n)"
| "ts_content (TsUnsigned n) = encode_integer (ucast n)"
| "ts_content (TsBitString n) = encode_integer (scast n)"
| "ts_content (TsOctetString n) = encode_integer (scast n)"
| "ts_content (TsVisibleString n) = encode_integer (scast n)"
| "ts_content (TsMmsString n) = encode_integer (scast n)"
| "ts_content (TsBcd n) = encode_integer (ucast n)"
| "ts_content (TsBinaryTime b) = encode_bool b"
| "ts_content (TsFloatingPoint f e) = tlv_bytes u_integer (encode_integer (ucast f)) @ tlv_bytes u_integer (encode_integer (ucast e))"
| "ts_content (TsArray n ty) = tlv_bytes (tag_context 1 False) (encode_unsigned (ucast n)) @
     tlv_bytes (tag_context 2 True) (tlv_bytes (ts_tag ty) (ts_content ty))"
| "ts_content (TsStructure cs) = tlv_bytes (tag_context 1 True) (concat (map (\<lambda>c. tlv_bytes u_sequence
     ((case sc_name c of Some name \<Rightarrow> tlv_bytes (tag_context 0 False) (as_bytes name) | None \<Rightarrow> []) @
      tlv_bytes (tag_context 1 True) (tlv_bytes (ts_tag (sc_ty c)) (ts_content (sc_ty c))))) cs))"
| "ts_content (TsTypeName name) = tlv_bytes u_visible_string (as_bytes name)"
| "ts_content _ = []"

definition component_content :: "type_spec struct_component \<Rightarrow> bytes" where
  "component_content c = (case sc_name c of Some name \<Rightarrow> tlv_bytes (tag_context 0 False) (as_bytes name) | None \<Rightarrow> []) @
     tlv_bytes (tag_context 1 True) (tlv_bytes (ts_tag (sc_ty c)) (ts_content (sc_ty c)))"

lemma structure_content:
  "ts_content (TsStructure cs) = tlv_bytes (tag_context 1 True) (concat (map (\<lambda>c. tlv_bytes u_sequence (component_content c)) cs))"
  by (simp add: component_content_def)

fun ts_depth :: "type_spec \<Rightarrow> nat" where
  "ts_depth (TsArray n ty) = Suc (ts_depth ty)"
| "ts_depth (TsStructure cs) = Suc (fold max (map (\<lambda>c. ts_depth (sc_ty c)) cs) 0)"
| "ts_depth _ = 0"

fun ts_ok :: "type_spec \<Rightarrow> bool" where
  "ts_ok (TsArray n ty) \<longleftrightarrow> ts_ok ty"
| "ts_ok (TsStructure cs) \<longleftrightarrow> (\<forall>c \<in> set cs. (case sc_name c of Some name \<Rightarrow> str_ok name | None \<Rightarrow> True) \<and> ts_ok (sc_ty c))"
| "ts_ok (TsTypeName name) \<longleftrightarrow> str_ok name"
| "ts_ok (TsOther n) \<longleftrightarrow> False"
| "ts_ok _ \<longleftrightarrow> True"

lemma fold_max_less: "fold max (xs :: nat list) a < n \<longleftrightarrow> a < n \<and> (\<forall>x \<in> set xs. x < n)"
  by (induction xs arbitrary: a) auto

lemma encode_type_spec_put: "encode_type_spec ts = put (tlv_bytes (ts_tag ts) (ts_content ts))"
proof (induction ts)
  case (TsStructure cs)
  have "fold (\<lambda>c. w_sequence (\<lambda>w. w_seq
        [(case sc_name c of Some name \<Rightarrow> w_visible_string (tag_context 0 False) name | None \<Rightarrow> (\<lambda>w. w)),
         w_tlv (tag_context 1 True) (encode_type_spec (sc_ty c))] w)) cs =
      put (concat (map (\<lambda>c. tlv_bytes u_sequence (component_content c)) cs))"
    using TsStructure
  proof (induction cs)
    case (Cons c cs)
    have t: "encode_type_spec (sc_ty c) = put (tlv_bytes (ts_tag (sc_ty c)) (ts_content (sc_ty c)))"
      using Cons.prems [of c "sc_ty c"] by (cases c) auto
    have "w_sequence (\<lambda>w. w_seq
        [(case sc_name c of Some name \<Rightarrow> w_visible_string (tag_context 0 False) name | None \<Rightarrow> (\<lambda>w. w)),
         w_tlv (tag_context 1 True) (encode_type_spec (sc_ty c))] w) = put (tlv_bytes u_sequence (component_content c))"
      by (cases "sc_name c") (simp_all add: t component_content_def w_put u_sequence_def w_seq_simps)
    moreover have "fold (\<lambda>c. w_sequence (\<lambda>w. w_seq
        [(case sc_name c of Some name \<Rightarrow> w_visible_string (tag_context 0 False) name | None \<Rightarrow> (\<lambda>w. w)),
         w_tlv (tag_context 1 True) (encode_type_spec (sc_ty c))] w)) cs =
        put (concat (map (\<lambda>c. tlv_bytes u_sequence (component_content c)) cs))"
      by (rule Cons.IH) (use Cons.prems in auto)
    ultimately show ?case by (simp add: put_put comp_def)
  qed (simp add: no_writing [symmetric] id_def)
  then show ?case by (simp add: structure_content w_put del: ts_content.simps(11))
qed (simp_all add: w_put u_integer_def)

lemma small_u8_back: "small_u8 (encode_integer (ucast (n :: u8))) = Inr n"
proof -
  have "0 \<le> uint n" by simp
  then have "- (2 ^ 63) \<le> uint n" by (rule order.trans [rotated]) simp
  then have "sint (ucast n :: u64) = uint n"
    using uint_bounded [of n] signed_take_bit_int_eq_self [of 63 "uint n"] by (simp add: signed_ucast_eq)
  moreover have "uint n \<le> 255" using uint_bounded [of n] by simp
  ultimately show ?thesis by (simp add: small_u8_def decode_encode_integer)
qed

lemma small_i32_back: "small_i32 (encode_integer (scast (n :: u32))) = Inr n"
proof -
  have "sint (scast n :: u64) = sint n" by (rule sint_up_scast) (simp add: is_up)
  moreover have "- (2 ^ 31) \<le> sint n" "sint n \<le> 2 ^ 31 - 1"
    using sint_greater_eq [of n] sint_less [of n] by simp_all
  ultimately show ?thesis by (simp add: small_i32_def decode_encode_integer)
qed

lemma decode_component_content:
  assumes "length (component_content c) < usize_limit" "case sc_name c of Some name \<Rightarrow> str_ok name | None \<Rightarrow> True"
    "length (ts_content (sc_ty c)) < usize_limit \<Longrightarrow> f \<lparr>tlv_tag = ts_tag (sc_ty c), tlv_content = ts_content (sc_ty c)\<rparr> = Inr (sc_ty c)"
  shows "decode_component f \<lparr>tlv_tag = t, tlv_content = component_content c\<rparr> = Inr c"
proof -
  let ?ty = "tlv_bytes (ts_tag (sc_ty c)) (ts_content (sc_ty c))"
  have s: "slice_ok [] (component_content c)" using assms(1) by (simp add: slice_ok_Nil)
  have i: "slice_ok [] ?ty"
    using s length_content_less [of ?ty "tag_context 1 True"] by (simp add: component_content_def slice_ok_def)
  then have "f \<lparr>tlv_tag = ts_tag (sc_ty c), tlv_content = ts_content (sc_ty c)\<rparr> = Inr (sc_ty c)"
    using assms(3) length_content_less [of "ts_content (sc_ty c)" "ts_tag (sc_ty c)"] by (simp add: slice_ok_def)
  then show ?thesis
    using s i assms(2)
    by (cases c; cases "sc_name c")
      (simp_all add: decode_component_def component_content_def reads read_opt_visible_def decode_visible_as_bytes)
qed

lemma decode_type_spec_bytes:
  "ts_ok ts \<Longrightarrow> ts_depth ts < n \<Longrightarrow> length (ts_content ts) < usize_limit \<Longrightarrow>
    decode_type_spec_at n \<lparr>tlv_tag = ts_tag ts, tlv_content = ts_content ts\<rparr> = Inr ts"
proof (induction ts arbitrary: n)
  case (TsArray k ty)
  then obtain m where n: "n = Suc m" by (cases n) auto
  let ?ty = "tlv_bytes (ts_tag ty) (ts_content ty)"
  let ?c = "tlv_bytes (tag_context 1 False) (encode_unsigned (ucast k)) @ tlv_bytes (tag_context 2 True) ?ty"
  have s: "slice_ok [] ?c" using TsArray.prems(3) by (simp add: slice_ok_Nil)
  have i: "slice_ok [] ?ty" by (rule inner_slice_rest [OF s])
  have "decode_type_spec_at m \<lparr>tlv_tag = ts_tag ty, tlv_content = ts_content ty\<rparr> = Inr ty"
    by (rule TsArray.IH)
      (use TsArray.prems(1,2) n i length_content_less [of "ts_content ty" "ts_tag ty"] in \<open>simp_all add: slice_ok_def\<close>)
  then have "decode_array_spec (decode_type_spec_at m) ?c = Inr (TsArray k ty)"
    using s i by (simp add: decode_array_spec_def reads read_unsigned_def decode_encode_unsigned ucast_u32_u64)
  then show ?case by (simp add: n ts_tags)
next
  case (TsStructure cs)
  then obtain m where n: "n = Suc m" by (cases n) auto
  let ?cs = "concat (map (\<lambda>c. tlv_bytes u_sequence (component_content c)) cs)"
  have s: "slice_ok [] (tlv_bytes (tag_context 1 True) ?cs)"
    using TsStructure.prems(3) by (simp add: slice_ok_Nil structure_content del: ts_content.simps(11))
  then have i: "slice_ok [] ?cs"
    using length_content_less [of ?cs "tag_context 1 True"] by (simp add: slice_ok_def)
  have "read_each (decode_component (decode_type_spec_at m)) (rd_at [] ?cs) [] = Inr ([] @ cs)"
  proof (rule read_each_bytes [OF _ i], intro ballI impI)
    fix c assume c: "c \<in> set cs" and l: "length (component_content c) < usize_limit"
    have "sc_ty c \<in> set_struct_component c" by (cases c) simp
    moreover have "ts_ok (sc_ty c)" "ts_depth (sc_ty c) < m" using TsStructure.prems(1,2) c n by (auto simp: fold_max_less)
    ultimately show "decode_component (decode_type_spec_at m) \<lparr>tlv_tag = u_sequence, tlv_content = component_content c\<rparr> = Inr c"
      using TsStructure.IH [OF c] TsStructure.prems(1) c by (intro decode_component_content [OF l]) auto
  qed
  then have "decode_structure (decode_type_spec_at m) (ts_content (TsStructure cs)) = Inr cs"
    using s by (simp add: decode_structure_def structure_content reads del: ts_content.simps(11))
  then show ?case by (simp add: n ts_tags del: ts_content.simps(11))
next
  case (TsTypeName name)
  then obtain m where n: "n = Suc m" by (cases n) auto
  have "last_visible_string (tlv_bytes u_visible_string (as_bytes name)) = Some name"
    using TsTypeName.prems
    by (simp add: last_visible_string.simps last_visible_loop.simps reader_new_at read_tlv_last slice_ok_Nil decode_visible_as_bytes)
  then show ?case by (simp add: n ts_tags unwrap_or_def)
next
  case (TsFloatingPoint f e)
  then obtain m where n: "n = Suc m" by (cases n) auto
  have s: "slice_ok [] (ts_content (TsFloatingPoint f e))" using TsFloatingPoint.prems(3) by (simp only: slice_ok_Nil)
  have "decode_float_spec (ts_content (TsFloatingPoint f e)) = Inr (TsFloatingPoint f e)"
    using s by (simp add: decode_float_spec_def reads small_u8_back)
  then show ?case by (simp add: n ts_tags)
qed (case_tac n; simp add: ts_tags small_u8_back small_i32_back decode_encode_bool)+

definition attributes_ok2 :: "variable_attributes \<Rightarrow> bool" where
  "attributes_ok2 a \<longleftrightarrow> ts_ok (va_type_spec a) \<and> ts_depth (va_type_spec a) < max_type_spec_depth"

interpretation attr_request: mms_service svc_get_variable_attributes attr_write_request attr_decode_request "\<lambda>q. q" name_ok2
proof
  fix q assume ok: "name_ok2 q"
  let ?c = "tlv_bytes (tag_context 0 True) (object_name_bytes q)"
  have "attr_decode_request \<lparr>tlv_tag = svc_get_variable_attributes, tlv_content = ?c\<rparr> = Inr q" if "length ?c < usize_limit"
  proof -
    have s: "slice_ok [] ?c" using that by (simp add: slice_ok_Nil)
    then have "slice_ok [] (object_name_bytes q)"
      using length_content_less [of "object_name_bytes q" "tag_context 0 True"] by (simp add: slice_ok_def)
    then show ?thesis
      using s read_object_name_bytes [OF _ ok] by (simp add: attr_decode_request_def reads)
  qed
  moreover have "attr_write_request q = put (tlv_bytes svc_get_variable_attributes ?c)"
    by (simp add: attr_write_request_def case_prod_unfold write_object_name_put w_put)
  ultimately show "\<exists>c. attr_write_request q = put (tlv_bytes svc_get_variable_attributes c) \<and>
      (length c < usize_limit \<longrightarrow> attr_decode_request \<lparr>tlv_tag = svc_get_variable_attributes, tlv_content = c\<rparr> = Inr q)"
    by blast
qed

interpretation attr_answer: mms_service svc_get_variable_attributes attr_encode_response attr_decode_response "\<lambda>a. a" attributes_ok2
proof
  fix a assume ok: "attributes_ok2 a"
  let ?t = "tlv_bytes (ts_tag (va_type_spec a)) (ts_content (va_type_spec a))"
  let ?c = "tlv_bytes (tag_context 0 False) (encode_bool (va_mms_deletable a)) @ ?t"
  have "attr_decode_response \<lparr>tlv_tag = svc_get_variable_attributes, tlv_content = ?c\<rparr> = Inr a" if "length ?c < usize_limit"
  proof -
    have s: "slice_ok [] ?c" using that by (simp add: slice_ok_Nil)
    have "length (ts_content (va_type_spec a)) < usize_limit"
      using inner_slice_rest [OF s] by (simp add: slice_ok_Nil)
    then have "decode_type_spec \<lparr>tlv_tag = ts_tag (va_type_spec a), tlv_content = ts_content (va_type_spec a)\<rparr> = Inr (va_type_spec a)"
      using ok by (simp add: decode_type_spec_def decode_type_spec_bytes attributes_ok2_def)
    then show ?thesis using s by (simp add: attr_decode_response_def reads decode_encode_bool)
  qed
  moreover have "attr_encode_response a = put (tlv_bytes svc_get_variable_attributes ?c)"
    by (simp add: attr_encode_response_def encode_type_spec_put w_put)
  ultimately show "\<exists>c. attr_encode_response a = put (tlv_bytes svc_get_variable_attributes c) \<and>
      (length c < usize_limit \<longrightarrow> attr_decode_response \<lparr>tlv_tag = svc_get_variable_attributes, tlv_content = c\<rparr> = Inr a)"
    by blast
qed

section \<open>Types of values\<close>

text \<open>What it means for a value to have a type, and which values have the type their first elements suggest.\<close>

fun has_type :: "mms_data \<Rightarrow> type_spec \<Rightarrow> bool" where
  "has_type (MBool _) ts \<longleftrightarrow> ts = TsBoolean"
| "has_type (MInt _) ts \<longleftrightarrow> ts = TsInteger 32"
| "has_type (MUint _) ts \<longleftrightarrow> ts = TsUnsigned 32"
| "has_type (MFloat _) ts \<longleftrightarrow> ts = TsFloatingPoint 32 8"
| "has_type (MBitString b) ts \<longleftrightarrow> (case len_bits b of Some k \<Rightarrow> ts = TsBitString (of_nat k) | None \<Rightarrow> False)"
| "has_type (MOctets b) ts \<longleftrightarrow> ts = TsOctetString (of_nat (length b))"
| "has_type (MVisible s) ts \<longleftrightarrow> ts = TsVisibleString (of_nat (length s))"
| "has_type (MMmsString s) ts \<longleftrightarrow> ts = TsMmsString (of_nat (length s))"
| "has_type (MUtc _) ts \<longleftrightarrow> ts = TsUtcTime"
| "has_type (MBinaryTime b) ts \<longleftrightarrow> ts = TsBinaryTime (length b = 6)"
| "has_type (MStructure vs) ts \<longleftrightarrow> (case ts of TsStructure cs \<Rightarrow> list_all2 (\<lambda>v c. has_type v (sc_ty c)) vs cs | _ \<Rightarrow> False)"
| "has_type (MArray vs) ts \<longleftrightarrow> (case ts of TsArray n ty \<Rightarrow> n = of_nat (length vs) \<and> list_all (\<lambda>v. has_type v ty) vs | _ \<Rightarrow> False)"

fun uniform :: "mms_data \<Rightarrow> bool" where
  "uniform (MStructure vs) \<longleftrightarrow> list_all uniform vs"
| "uniform (MArray vs) \<longleftrightarrow> list_all uniform vs \<and> (\<forall>v \<in> set vs. from_mms_data v = from_mms_data (hd vs))"
| "uniform _ \<longleftrightarrow> True"

text \<open>Bit strings have at least as many bits as they leave unused, as those of the store have.\<close>

fun bits_ok :: "mms_data \<Rightarrow> bool" where
  "bits_ok (MBitString b) \<longleftrightarrow> len_bits b \<noteq> None"
| "bits_ok (MStructure vs) \<longleftrightarrow> list_all bits_ok vs"
| "bits_ok (MArray vs) \<longleftrightarrow> list_all bits_ok vs"
| "bits_ok _ \<longleftrightarrow> True"

lemma has_own_type: "uniform v \<Longrightarrow> bits_ok v \<Longrightarrow> has_type v (from_mms_data v)"
proof (induction v)
  case (MStructure vs)
  then show ?case by (auto simp: list_all2_map2 list_all_iff list_all2_same)
next
  case (MArray vs)
  then have "has_type v (from_mms_data v)" "from_mms_data v = from_mms_data (hd vs)" if "v \<in> set vs" for v
    using that by (auto simp: list_all_iff)
  then have "\<forall>v \<in> set vs. has_type v (from_mms_data (hd vs))" by metis
  then show ?case by (cases vs) (simp_all add: list_all_iff)
qed (auto simp: unwrap_or_def split: option.splits)

lemma type_of_value_ok: "ts_ok (from_mms_data v)"
proof (induction v)
  case (MArray vs)
  then show ?case by (cases vs) auto
qed auto

lemma depth_member: "v \<in> set vs \<Longrightarrow> mms_depth v \<le> foldr (\<lambda>d m. max (mms_depth d) m) vs 0"
  by (induction vs) auto

lemma type_of_value_depth: "ts_depth (from_mms_data v) \<le> mms_depth v"
proof (induction v)
  case (MStructure vs)
  have "ts_depth (from_mms_data v) < Suc (foldr (\<lambda>d m. max (mms_depth d) m) vs 0)" if "v \<in> set vs" for v
    using MStructure [OF that] depth_member [OF that] by simp
  then show ?case by (simp add: fold_max_less flip: less_Suc_eq_le)
next
  case (MArray vs)
  then show ?case by (cases vs) (auto simp: le_max_iff_disj)
qed auto

section \<open>Properties\<close>


definition demo_typed :: server_model where
  "demo_typed = \<lparr>sm_domains = [''D''], sm_items = [(''D'', [''A''])], sm_datasets = Map.empty, sm_rcbs = [], sm_sgcbs = [],
     sm_lcbs = [], sm_sg_domains = [], sm_ident = demo_ident, sm_page_size = 1\<rparr>"


end
