(* ===== verification/ServerConnection.thy ===== *)
theory ServerConnection imports FileTransfer TypeAttr begin

text \<open>
  The connection of a client at the server (\<open>ConnState\<close>, \<open>ServiceOutput\<close>, \<open>ServerLimits\<close>, \<open>handle_request\<close>,
  \<open>handle_read\<close>, \<open>handle_write\<close>, the data sets of a connection and the loop of \<open>handle_connection\<close> in
  crates/iec61850-mms/src/server.rs). The shared store, buffers and reservations are one record that each
  handler returns updated; an event of the loop is one step, and a connection is a run of events. The lemmas
  show that a viewer changes nothing whatever it sends, and that every request is answered by one unit with
  its own number, among units that are not answers.
\<close>

unbundle bit_operations_syntax

section \<open>State\<close>

text \<open>A connection: its enabled report control blocks, selections, files, data sets of its own, role and
  number.\<close>

record conn_state =
  cs_rcbs :: runtimes
  cs_selections :: selections
  cs_files :: file_conn
  cs_datasets :: "variable_name \<rightharpoonup> variable_name list"
  cs_role :: role
  cs_conn_id :: u64

text \<open>What the connections of a server share: the store with its changes, the buffers and the
  reservations.\<close>

record server_world =
  sw_shared :: shared
  sw_buffers :: buffers
  sw_reservations :: reservations

definition sw_store :: "server_world \<Rightarrow> store" where
  "sw_store w = sh_store (sw_shared w)"

text \<open>The units a service gives, in the order they are sent.\<close>

record service_output =
  so_pre :: "bytes list"
  so_resp :: bytes
  so_post :: "bytes list"

definition output_only :: "bytes \<Rightarrow> service_output" where
  "output_only resp = \<lparr>so_pre = [], so_resp = resp, so_post = []\<rparr>"

definition output_units :: "service_output \<Rightarrow> bytes list" where
  "output_units out = so_pre out @ [so_resp out] @ so_post out"

section \<open>Data sets of a connection\<close>

definition handle_define_dataset :: "u32 \<Rightarrow> tlv \<Rightarrow> conn_state \<Rightarrow> bytes \<times> conn_state" where
  "handle_define_dataset invoke service c =
    (if \<not> may_define_dataset (cs_role c) then (encode_error invoke, c)
     else case decode_define_request service of
       Inl _ \<Rightarrow> (encode_error invoke, c)
     | Inr (n, members) \<Rightarrow>
       (encode_confirmed_response invoke encode_define_response, c\<lparr>cs_datasets := (cs_datasets c)(n \<mapsto> members)\<rparr>))"

fun delete_each :: "variable_name list \<Rightarrow> delete_result \<Rightarrow> (variable_name \<rightharpoonup> variable_name list) \<Rightarrow>
    delete_result \<times> (variable_name \<rightharpoonup> variable_name list)" where
  "delete_each [] r ds = (r, ds)"
| "delete_each (n # ns) r ds =
    delete_each ns
      (r\<lparr>dr_matched := dr_matched r + 1, dr_deleted := dr_deleted r + (if ds n \<noteq> None then 1 else 0)\<rparr>)
      (ds(n := None))"

definition handle_delete_dataset :: "u32 \<Rightarrow> tlv \<Rightarrow> conn_state \<Rightarrow> bytes \<times> conn_state" where
  "handle_delete_dataset invoke service c =
    (if \<not> may_define_dataset (cs_role c) then (encode_error invoke, c)
     else case decode_delete_request service of
       Inl _ \<Rightarrow> (encode_error invoke, c)
     | Inr names \<Rightarrow>
       (let (r, ds) = delete_each names \<lparr>dr_matched = 0, dr_deleted = 0\<rparr> (cs_datasets c)
        in (encode_confirmed_response invoke (encode_delete_response r), c\<lparr>cs_datasets := ds\<rparr>)))"

definition handle_get_dataset_attrs :: "u32 \<Rightarrow> tlv \<Rightarrow> server_model \<Rightarrow> conn_state \<Rightarrow> bytes" where
  "handle_get_dataset_attrs invoke service sm c =
    (case decode_get_attributes_request service of
       Inl _ \<Rightarrow> encode_error invoke
     | Inr (domain, name) \<Rightarrow>
       (case cs_datasets c (domain, name) of
          Some m \<Rightarrow> encode_confirmed_response invoke (encode_get_attributes_response True m)
        | None \<Rightarrow>
          (case dataset_members sm domain name of
             Some m \<Rightarrow> encode_confirmed_response invoke (encode_get_attributes_response False m)
           | None \<Rightarrow> encode_error invoke)))"

section \<open>Read\<close>

definition block_component_names :: "server_model \<Rightarrow> string \<Rightarrow> string \<Rightarrow> string list option" where
  "block_component_names sm domain item =
    or_else (rcb_component_names sm domain item)
      (or_else (sgcb_component_names sm domain item) (lcb_component_names sm domain item))"

text \<open>The value of an item that is neither denied nor a selection, in the order the code looks for it.\<close>

definition item_value :: "server_model \<Rightarrow> store \<Rightarrow> string \<Rightarrow> string \<Rightarrow> access_result" where
  "item_value sm store domain item =
    (case block_component_names sm domain item of
       Some names \<Rightarrow> AccessSuccess (MStructure (map (\<lambda>attr.
         unwrap_or (MBool False) (map_of store (domain, dollar item attr))) names))
     | None \<Rightarrow>
       (case find_setting sm domain item of
          Some sr \<Rightarrow> (case resolve_setting sm store domain sr of
              Some v \<Rightarrow> AccessSuccess v | None \<Rightarrow> AccessFailure ObjectNonExistent)
        | None \<Rightarrow>
          (case map_of store (domain, item) of
             Some v \<Rightarrow> AccessSuccess v
           | None \<Rightarrow>
             (case sm_assemble sm domain item store of
                Some s \<Rightarrow> AccessSuccess s
              | None \<Rightarrow> AccessFailure ObjectNonExistent))))"

definition read_item ::
  "server_model \<Rightarrow> nat \<Rightarrow> role \<Rightarrow> store \<Rightarrow> variable_name \<Rightarrow> selections \<Rightarrow> access_result \<times> selections" where
  "read_item sm now r store = (\<lambda>(domain, item) sels.
    if \<not> may_read r item then (AccessFailure ObjectAccessDenied, sels)
    else case read_sbo now store domain item sels of
      Some (res, sels) \<Rightarrow> (res, sels)
    | None \<Rightarrow> (item_value sm store domain (normalize_rcb_item sm domain item), sels))"

fun read_items ::
  "server_model \<Rightarrow> nat \<Rightarrow> role \<Rightarrow> store \<Rightarrow> variable_name list \<Rightarrow> selections \<Rightarrow> access_result list \<times> selections" where
  "read_items sm now r store [] sels = ([], sels)"
| "read_items sm now r store (n # ns) sels =
    (let (res, sels) = read_item sm now r store n sels; (rest, sels) = read_items sm now r store ns sels
     in (res # rest, sels))"

text \<open>The variables a request names; no data set of that name is a single failure.\<close>

definition read_variables :: "server_model \<Rightarrow> conn_state \<Rightarrow> read_target \<Rightarrow> variable_name list option" where
  "read_variables sm c target =
    (case target of
       RtVariables v \<Rightarrow> Some v
     | RtNamedList domain name \<Rightarrow> or_else (cs_datasets c (domain, name)) (dataset_members sm domain name))"

definition handle_read :: "server_model \<Rightarrow> nat \<Rightarrow> u32 \<Rightarrow> tlv \<Rightarrow> store \<Rightarrow> conn_state \<Rightarrow> bytes \<times> conn_state" where
  "handle_read sm now invoke service store c =
    (case read_decode_request service of
       Inl _ \<Rightarrow> (encode_error invoke, c)
     | Inr target \<Rightarrow>
       (case read_variables sm c target of
          None \<Rightarrow> (encode_confirmed_response invoke (read_encode_response [AccessFailure ObjectNonExistent]), c)
        | Some vars \<Rightarrow>
          (let (results, sels) = read_items sm now (cs_role c) store vars (cs_selections c)
           in (encode_confirmed_response invoke (read_encode_response results), c\<lparr>cs_selections := sels\<rparr>))))"

section \<open>Write\<close>

text \<open>What the value does, once the item is known to be allowed and not reserved: the result, the units
  before the answer and after it.\<close>

definition write_allowed ::
  "server_model \<Rightarrow> nat \<Rightarrow> string \<Rightarrow> string \<Rightarrow> mms_data \<Rightarrow> conn_state \<times> server_world \<Rightarrow>
   write_result \<times> bytes list \<times> bytes list \<times> conn_state \<times> server_world" where
  "write_allowed sm now domain item value = (\<lambda>(c, w).
    let sh = sw_shared w; bufs = sw_buffers w; rcbs = cs_rcbs c;
        stored = (\<lambda>units c w. let (r, sh) = store_write domain item value (sw_shared w) in (r, [], units, c, w\<lparr>sw_shared := sh\<rparr>))
    in case strip_suffix ''$RptEna'' item of
      Some base \<Rightarrow>
        (let (r, rcbs, sh) = set_rpt_ena sm now domain base value bufs rcbs sh;
             (units, bufs, rcbs) = (if value = MBool True then drain_buffer (domain, base) bufs rcbs else ([], bufs, rcbs))
         in (r, [], units, c\<lparr>cs_rcbs := rcbs\<rparr>, w\<lparr>sw_shared := sh, sw_buffers := bufs\<rparr>))
    | None \<Rightarrow> (case strip_suffix ''$GI'' item of
      Some base \<Rightarrow>
        (let (unit', rcbs) = general_interrogation sm (sh_store sh) (domain, base) value rcbs
         in stored (case unit' of Some u \<Rightarrow> [u] | None \<Rightarrow> []) (c\<lparr>cs_rcbs := rcbs\<rparr>) w)
    | None \<Rightarrow> (case strip_suffix ''$EntryID'' item of
      Some base \<Rightarrow>
        (let (units, bufs, rcbs) = set_entry_id (domain, base) value bufs rcbs
         in stored units (c\<lparr>cs_rcbs := rcbs\<rparr>) (w\<lparr>sw_buffers := bufs\<rparr>))
    | None \<Rightarrow> (case strip_suffix ''$PurgeBuf'' item of
      Some base \<Rightarrow>
        (let (bufs, rcbs) = (if value = MBool True then purge_buf (domain, base) bufs rcbs else (bufs, rcbs))
         in stored [] (c\<lparr>cs_rcbs := rcbs\<rparr>) (w\<lparr>sw_buffers := bufs\<rparr>))
    | None \<Rightarrow>
      if contains_text ''$CO$'' item \<and> ends_with ''$Oper'' item then
        (let (r, units, sels, sh) = operate sm now domain item value (cs_selections c) sh;
             c = c\<lparr>cs_selections := sels\<rparr>; w = w\<lparr>sw_shared := sh\<rparr>
         in case r of WriteFailure _ \<Rightarrow> (r, units, [], c, w) | WriteSuccess \<Rightarrow> (r, [], units, c, w))
      else if contains_text ''$CO$'' item \<and> ends_with ''$Cancel'' item then
        (WriteSuccess, [], [], c\<lparr>cs_selections := write_cancel domain item (cs_selections c)\<rparr>, w)
      else (case strip_suffix ''$SBOw'' item of
        Some base \<Rightarrow>
          (let (r, units, sels) = write_sbow now (sh_store sh) domain item base value (cs_selections c)
           in (r, units, [], c\<lparr>cs_selections := sels\<rparr>, w))
      | None \<Rightarrow> (case classify_sg_write sm domain item of
        Some sgw \<Rightarrow>
          (let (r, sh) = handle_sg_write sm domain item value sgw sh in (r, [], [], c, w\<lparr>sw_shared := sh\<rparr>))
      | None \<Rightarrow>
        if sm_contains sm domain item then stored [] c w
        else (WriteFailure ObjectNonExistent, [], [], c, w)))))))"

definition write_item ::
  "server_model \<Rightarrow> nat \<Rightarrow> variable_name \<Rightarrow> mms_data \<Rightarrow> conn_state \<times> server_world \<Rightarrow>
   write_result \<times> bytes list \<times> bytes list \<times> conn_state \<times> server_world" where
  "write_item sm now = (\<lambda>(domain, item) value (c, w).
    let item = normalize_rcb_item sm domain item
    in if \<not> may_write (cs_role c) item then (WriteFailure ObjectAccessDenied, [], [], c, w)
    else case check_rcb_reservation sm now (cs_conn_id c) domain item value (sw_reservations w) of
      (Some denied, resv) \<Rightarrow> (denied, [], [], c, w\<lparr>sw_reservations := resv\<rparr>)
    | (None, resv) \<Rightarrow> write_allowed sm now domain item value (c, w\<lparr>sw_reservations := resv\<rparr>))"

text \<open>The variables in order; one without a value fails.\<close>

fun write_items ::
  "server_model \<Rightarrow> nat \<Rightarrow> variable_name list \<Rightarrow> mms_data list \<Rightarrow> conn_state \<times> server_world \<Rightarrow>
   write_result list \<times> bytes list \<times> bytes list \<times> conn_state \<times> server_world" where
  "write_items sm now [] data st = ([], [], [], st)"
| "write_items sm now (n # ns) [] st =
    (let (rs, pre, post, st) = write_items sm now ns [] st
     in (WriteFailure ObjectAttributeInconsistent # rs, pre, post, st))"
| "write_items sm now (n # ns) (v # data) st =
    (let (r, pre1, post1, st) = write_item sm now n v st; (rs, pre, post, st) = write_items sm now ns data st
     in (r # rs, pre1 @ pre, post1 @ post, st))"

definition handle_write ::
  "server_model \<Rightarrow> nat \<Rightarrow> u32 \<Rightarrow> tlv \<Rightarrow> conn_state \<times> server_world \<Rightarrow> service_output \<times> conn_state \<times> server_world" where
  "handle_write sm now invoke service st =
    (case write_decode_request service of
       Inl _ \<Rightarrow> (output_only (encode_error invoke), st)
     | Inr (vars, data) \<Rightarrow>
       (let (results, pre, post, st) = write_items sm now vars data st
        in (\<lparr>so_pre = pre, so_resp = encode_confirmed_response invoke (write_encode_response results), so_post = post\<rparr>, st)))"

section \<open>Requests\<close>


text \<open>\<open>handle_request\<close>: every confirmed service but obtainFile.\<close>

definition handle_request ::
  "server_model \<Rightarrow> 'f file_provider option \<Rightarrow> nat \<Rightarrow> u32 \<Rightarrow> tlv \<Rightarrow> conn_state \<times> server_world \<times> 'f \<Rightarrow>
   service_output \<times> conn_state \<times> server_world \<times> 'f" where
  "handle_request sm provider now invoke service = (\<lambda>(c, w, fs).
    let t = tlv_tag service
    in if t = svc_identify_request then
         (output_only (encode_confirmed_response invoke (identify_encode_response (sm_ident sm))), c, w, fs)
       else if t = svc_get_name_list then (output_only (handle_name_list sm invoke service), c, w, fs)
       else if t = svc_read then
         (let (u, c) = handle_read sm now invoke service (sw_store w) c in (output_only u, c, w, fs))
       else if t = svc_get_variable_attributes then
         (output_only (handle_get_var_attr invoke service sm (sw_store w)), c, w, fs)
       else case file_service (cs_role c) provider invoke service fs (cs_files c) of
         Some (u, fs, fc) \<Rightarrow> (output_only u, c\<lparr>cs_files := fc\<rparr>, w, fs)
       | None \<Rightarrow>
         if t = svc_write then
           (let (out, c, w) = handle_write sm now invoke service (c, w) in (out, c, w, fs))
         else if t = svc_define_list then
           (let (u, c) = handle_define_dataset invoke service c in (output_only u, c, w, fs))
         else if t = svc_delete_list then
           (let (u, c) = handle_delete_dataset invoke service c in (output_only u, c, w, fs))
         else if t = svc_get_list_attributes then (output_only (handle_get_dataset_attrs invoke service sm c), c, w, fs)
         else if t = svc_read_journal then (output_only (handle_read_journal invoke service sm), c, w, fs)
         else (output_only (encode_error invoke), c, w, fs))"

section \<open>The loop of a connection\<close>

record server_limits =
  max_connections :: nat
  handshake_timeout_ms :: nat
  idle_timeout_ms :: nat
  max_report_lag :: u64

definition default_limits :: server_limits where
  "default_limits = \<lparr>max_connections = 64, handshake_timeout_ms = 10000, idle_timeout_ms = 120000, max_report_lag = 256\<rparr>"

definition conclude_response :: bytes where
  "conclude_response = into_bytes (w_tlv (tag_context 12 True) (\<lambda>w. w) writer_new)"

text \<open>What wakes a connection: nothing for too long, a unit of session data or the end of them, a change of
  the store, an entry of a buffer, changes or entries it missed, or the time of an integrity report.\<close>

datatype conn_event =
    EvIdle
  | EvPayload bytes
  | EvReceiveFailed
  | EvChange value_change
  | EvBuffer variable_name
  | EvLagged u64
  | EvClosed
  | EvIntegrity

text \<open>The connection goes on, has ended, or has failed.\<close>

datatype conn_outcome = GoesOn | HasEnded | HasFailed mms_error

text \<open>A unit of the client.\<close>

definition on_pdu ::
  "server_model \<Rightarrow> 'f file_provider option \<Rightarrow> nat \<Rightarrow> bytes \<Rightarrow> conn_state \<times> server_world \<times> 'f \<Rightarrow>
   bytes list \<times> conn_outcome \<times> conn_state \<times> server_world \<times> 'f" where
  "on_pdu sm provider now pdu = (\<lambda>(c, w, fs).
    case peek_request_kind pdu of
      Inl e \<Rightarrow> ([], HasFailed e, c, w, fs)
    | Inr KConfirmedRequest \<Rightarrow>
      (case parse_confirmed_request pdu of
         Inl e \<Rightarrow> ([], HasFailed e, c, w, fs)
       | Inr (invoke, service) \<Rightarrow>
         if tlv_tag service = svc_obtain_file then
           (let (units, fc) = start_obtain_file (cs_role c) provider invoke service (cs_files c)
            in (units, GoesOn, c\<lparr>cs_files := fc\<rparr>, w, fs))
         else (let (out, st) = handle_request sm provider now invoke service (c, w, fs) in (output_units out, GoesOn, st)))
    | Inr KConcludeRequest \<Rightarrow> ([conclude_response], HasEnded, c, w, fs)
    | Inr k \<Rightarrow>
      if k \<in> {KConfirmedResponse, KConfirmedError, KReject} then
        (let (units, fs, fc) = obtain_file_step provider pdu fs (cs_files c)
         in (units, GoesOn, c\<lparr>cs_files := fc\<rparr>, w, fs))
      else ([], HasEnded, c, w, fs))"

text \<open>One turn of the \<open>select!\<close>; the number counts the reports the client missed.\<close>

definition add_lag :: "u64 \<Rightarrow> u64 \<Rightarrow> u64" where
  "add_lag lag n = (if 2 ^ 64 \<le> unat lag + unat n then - 1 else lag + n)"

fun conn_step ::
  "server_model \<Rightarrow> 'f file_provider option \<Rightarrow> server_limits \<Rightarrow> nat \<Rightarrow> conn_event \<Rightarrow> u64 \<times> conn_state \<times> server_world \<times> 'f \<Rightarrow>
   bytes list \<times> conn_outcome \<times> u64 \<times> conn_state \<times> server_world \<times> 'f" where
  "conn_step sm provider limits now EvIdle st = ([], HasEnded, st)"
| "conn_step sm provider limits now (EvPayload payload) (lag, st) =
    (case extract_inner_pdu payload of
       Inl e \<Rightarrow> ([], HasFailed e, lag, st)
     | Inr pdu \<Rightarrow> (let (units, outcome, st) = on_pdu sm provider now pdu st in (units, outcome, lag, st)))"
| "conn_step sm provider limits now EvReceiveFailed st = ([], HasEnded, st)"
| "conn_step sm provider limits now (EvChange change) (lag, c, w, fs) =
    (let (units, rcbs) = on_value_change sm (sw_store w) change (cs_rcbs c)
     in (units, GoesOn, lag, c\<lparr>cs_rcbs := rcbs\<rparr>, w, fs))"
| "conn_step sm provider limits now (EvBuffer key) (lag, c, w, fs) =
    (let (units, bufs, rcbs) = drain_buffer key (sw_buffers w) (cs_rcbs c)
     in (units, GoesOn, lag, c\<lparr>cs_rcbs := rcbs\<rparr>, w\<lparr>sw_buffers := bufs\<rparr>, fs))"
| "conn_step sm provider limits now (EvLagged n) (lag, st) =
    (let lag = add_lag lag n in ([], if max_report_lag limits < lag then HasEnded else GoesOn, lag, st))"
| "conn_step sm provider limits now EvClosed st = ([], HasEnded, st)"
| "conn_step sm provider limits now EvIntegrity (lag, c, w, fs) =
    (let (units, rcbs) = on_integrity sm now (sw_store w) (cs_rcbs c)
     in (units, GoesOn, lag, c\<lparr>cs_rcbs := rcbs\<rparr>, w, fs))"

definition new_conn :: "role \<Rightarrow> u64 \<Rightarrow> conn_state" where
  "new_conn r n = \<lparr>cs_rcbs = [], cs_selections = Map.empty,
     cs_files = \<lparr>fs_files = Map.empty, fs_next_frsm = 0, fs_obtain = None, fs_next_out_invoke = 0\<rparr>,
     cs_datasets = Map.empty, cs_role = r, cs_conn_id = n\<rparr>"

text \<open>A connection runs until it ends or fails; its reservations go with it.\<close>

fun conn_run ::
  "server_model \<Rightarrow> 'f file_provider option \<Rightarrow> server_limits \<Rightarrow> (nat \<times> conn_event) list \<Rightarrow> u64 \<times> conn_state \<times> server_world \<times> 'f \<Rightarrow>
   bytes list \<times> conn_outcome \<times> u64 \<times> conn_state \<times> server_world \<times> 'f" where
  "conn_run sm provider limits [] st = ([], GoesOn, st)"
| "conn_run sm provider limits ((now, ev) # evs) st =
    (case conn_step sm provider limits now ev st of
       (units, GoesOn, st) \<Rightarrow> (let (more, outcome, st) = conn_run sm provider limits evs st in (units @ more, outcome, st))
     | (units, outcome, lag, c, w, fs) \<Rightarrow>
         (units, outcome, lag, c, w\<lparr>sw_reservations := release_all (cs_conn_id c) now (sw_reservations w)\<rparr>, fs))"

section \<open>What a viewer can do\<close>

lemma viewer_denied: "\<not> may_write Viewer item" "\<not> may_write_files Viewer" "\<not> may_define_dataset Viewer"
  by (simp_all add: may_write_def may_write_files_def may_define_dataset_def write_permission_def role_permissions.simps
      perm_contains_def perm_bitor_def perm_values)

text \<open>A connection of a viewer: no report, data set or transfer of its own.\<close>

definition viewer_conn :: "u64 \<Rightarrow> conn_state \<Rightarrow> bool" where
  "viewer_conn n c \<longleftrightarrow> cs_role c = Viewer \<and> cs_rcbs c = [] \<and> cs_datasets c = Map.empty \<and> fs_obtain (cs_files c) = None \<and>
     cs_conn_id c = n"

lemma viewer_writes: "cs_role c = Viewer \<Longrightarrow> \<exists>rs. write_items sm now vars data (c, w) = (rs, [], [], c, w)"
proof (induction vars arbitrary: data)
  case (Cons v vars)
  have one: "write_item sm now v d (c, w) = (WriteFailure ObjectAccessDenied, [], [], c, w)" for d
    using Cons.prems by (cases v) (simp add: write_item_def viewer_denied)
  show ?case
  proof (cases data)
    case Nil
    then show ?thesis using Cons.IH [OF Cons.prems, of "[]"] by auto
  next
    case (Cons d ds)
    then show ?thesis using Cons.IH [OF Cons.prems, of ds] one by auto
  qed
qed simp

lemma viewer_file_service:
  assumes "file_service Viewer provider i s fs fc = Some (u, fs', fc')" "fs_obtain fc = None"
  shows "fs' = fs \<and> fs_obtain fc' = None"
  using assms
  by (auto simp: file_service_def Let_def handle_file_delete_def handle_file_rename_def viewer_denied handle_file_open_def
      handle_file_read_def handle_file_close_def split: if_splits prod.splits sum.splits option.splits)

lemma viewer_request:
  assumes "viewer_conn n c" "handle_request sm provider now i s (c, w, fs) = (out, c', w', fs')"
  shows "viewer_conn n c' \<and> w' = w \<and> fs' = fs \<and> length (output_units out) = 1"
proof (cases "file_service (cs_role c) provider i s fs (cs_files c)")
  case None
  have wr: "\<exists>u. handle_write sm now i s (c, w) = (output_only u, c, w)"
    using viewer_writes [of c sm now _ _ w] assms(1)
    by (auto simp: handle_write_def viewer_conn_def output_only_def output_units_def split: sum.split) (metis (no_types, lifting) case_prod_conv)
  show ?thesis
    using assms wr None
    by (auto simp: handle_request_def Let_def viewer_conn_def handle_read_def handle_define_dataset_def handle_delete_dataset_def
        viewer_denied output_only_def output_units_def split: if_splits prod.splits sum.splits option.splits)
next
  case (Some r)
  then show ?thesis
    using assms viewer_file_service [of provider i s fs "cs_files c"]
    by (cases r) (auto simp: handle_request_def Let_def viewer_conn_def handle_read_def output_only_def output_units_def
        split: if_splits prod.splits sum.splits option.splits)
qed

lemma viewer_pdu:
  assumes "viewer_conn n c" "on_pdu sm provider now pdu (c, w, fs) = (units, outcome, c', w', fs')"
  shows "viewer_conn n c' \<and> w' = w \<and> fs' = fs \<and> length units \<le> 1"
proof (cases "peek_request_kind pdu = Inr KConfirmedRequest")
  case True
  show ?thesis
  proof (cases "parse_confirmed_request pdu")
    case (Inr r)
    obtain i s where r: "r = (i, s)" by (cases r)
    show ?thesis
      using assms True Inr r viewer_request [OF assms(1), of sm provider now i s w fs]
      by (auto simp: on_pdu_def start_obtain_file_def viewer_conn_def viewer_denied split: if_splits prod.splits)
  qed (use assms True in \<open>auto simp: on_pdu_def\<close>)
next
  case False
  then show ?thesis using assms
    by (auto simp: on_pdu_def obtain_file_step_def viewer_conn_def split: sum.splits pdu_kind.splits if_splits prod.splits)
qed

fun is_payload :: "conn_event \<Rightarrow> bool" where
  "is_payload (EvPayload p) \<longleftrightarrow> True"
| "is_payload _ \<longleftrightarrow> False"

lemma viewer_step:
  assumes "viewer_conn n c" "conn_step sm provider limits now ev (lag, c, w, fs) = (units, outcome, lag', c', w', fs')"
  shows "viewer_conn n c' \<and> w' = w \<and> fs' = fs \<and> length units \<le> (if is_payload ev then 1 else 0)"
proof (cases ev)
  case (EvPayload payload)
  show ?thesis
  proof (cases "extract_inner_pdu payload")
    case (Inr pdu)
    then show ?thesis
      using assms(2) EvPayload viewer_pdu [OF assms(1), of sm provider now pdu w fs] by (auto split: prod.splits)
  qed (use assms EvPayload in auto)
next
  case (EvBuffer key)
  then show ?thesis using assms by (auto simp: viewer_conn_def drain_buffer_def)
qed (use assms in \<open>auto simp: viewer_conn_def on_value_change_def on_integrity_def Let_def split: prod.splits\<close>)

lemma viewer_conn_new: "viewer_conn n (new_conn Viewer n)"
  by (simp add: viewer_conn_def new_conn_def)

lemma release_none:
  assumes "\<forall>k r. resv k = Some r \<longrightarrow> rs_conn_id r \<noteq> n"
  shows "release_all n now resv = resv"
proof
  show "release_all n now resv k = resv k" for k
    using assms by (cases k; cases "resv k") (auto simp: release_all_def release_one_def)
qed

text \<open>C9: Whatever a client with the role of a viewer sends, in whatever order with the changes and reports of the
  server, it changes neither a value, a buffer, a reservation nor a file, and the server sends nothing to it
  but the answers to its own requests.\<close>

theorem viewer_changes_nothing:
  assumes "\<forall>k r. sw_reservations w k = Some r \<longrightarrow> rs_conn_id r \<noteq> n"
    "conn_run sm provider limits evs (lag, new_conn Viewer n, w, fs) = (units, outcome, lag', c', w', fs')"
  shows "w' = w \<and> fs' = fs \<and> length units \<le> length (filter is_payload (map snd evs))"
proof -
  have "w' = w \<and> fs' = fs \<and> length units \<le> length (filter is_payload (map snd evs))"
    if "viewer_conn n c" "conn_run sm provider limits evs (lag, c, w, fs) = (units, outcome, lag', c', w', fs')" for c units
    using that
  proof (induction evs arbitrary: c lag units)
    case (Cons e evs)
    obtain now ev where e: "e = (now, ev)" by (cases e)
    obtain u1 o1 lag1 c1 w1 fs1 where st: "conn_step sm provider limits now ev (lag, c, w, fs) = (u1, o1, lag1, c1, w1, fs1)"
      by (metis prod_cases6)
    have k: "viewer_conn n c1" "w1 = w" "fs1 = fs" "length u1 \<le> (if is_payload ev then 1 else 0)"
      using viewer_step [OF Cons.prems(1) st] by auto
    have r: "release_all (cs_conn_id c1) now (sw_reservations w) = sw_reservations w"
      using release_none [OF assms(1)] k(1) by (simp add: viewer_conn_def)
    show ?case
    proof (cases o1)
      case GoesOn
      obtain u2 o2 st2 where run: "conn_run sm provider limits evs (lag1, c1, w1, fs1) = (u2, o2, st2)" by (metis prod_cases3)
      then have eq: "st2 = (lag', c', w', fs')" "o2 = outcome" "units = u1 @ u2" using GoesOn Cons.prems(2) e st by auto
      show ?thesis using Cons.IH [OF k(1), of lag1 u2] run e k eq by (auto split: if_splits)
    qed (use Cons.prems(2) e st k r in auto)
  qed simp
  then show ?thesis using assms(2) viewer_conn_new by blast
qed

theorem viewer_changes_nothing_witness:
  "\<exists>units outcome lag' c'.
    conn_run (from_model demo_station demo_ident) (Some (dir_file_provider [''srv''])) default_limits
      [(1, EvLagged 3), (2, EvIntegrity), (3, EvPayload [1]), (9, EvIdle)]
      (0, new_conn Viewer 7, \<lparr>sw_shared = \<lparr>sh_store = [], sh_changes = []\<rparr>, sw_buffers = Map.empty, sw_reservations = Map.empty\<rparr>, [])
    = (units, outcome, lag', c', \<lparr>sw_shared = \<lparr>sh_store = [], sh_changes = []\<rparr>, sw_buffers = Map.empty, sw_reservations = Map.empty\<rparr>, [])
    \<and> length units \<le> 1"
proof -
  let ?w = "\<lparr>sw_shared = \<lparr>sh_store = [], sh_changes = []\<rparr>, sw_buffers = Map.empty, sw_reservations = Map.empty\<rparr>"
  obtain units outcome lag' c' w' fs' where run:
    "conn_run (from_model demo_station demo_ident) (Some (dir_file_provider [''srv''])) default_limits
      [(1, EvLagged 3), (2, EvIntegrity), (3, EvPayload [1]), (9, EvIdle)] (0, new_conn Viewer 7, ?w, []) =
      (units, outcome, lag', c', w', fs')" by (metis prod_cases6)
  show ?thesis using viewer_changes_nothing [OF _ run] run by simp
qed

section \<open>Every request is answered\<close>

text \<open>A program of writer calls that only appends, whatever it is given.\<close>

definition appends :: "writing \<Rightarrow> bool" where
  "appends f \<longleftrightarrow> (\<exists>b. f = put b)"

named_theorems appending

lemma appends_put [appending]: "appends (put b)"
  unfolding appends_def by blast

lemma appends_none [appending]: "appends (\<lambda>w. w)"
  by (simp add: no_writing appends_put)

lemma appends_tlv [appending]: "appends f \<Longrightarrow> appends (w_tlv t f)"
  unfolding appends_def by (auto simp: w_tlv_put)

lemma appends_then: "appends f \<Longrightarrow> appends g \<Longrightarrow> appends (\<lambda>w. g (f w))"
  unfolding appends_def by (auto simp: put_put)

lemma appends_seq [appending]: "list_all appends fs \<Longrightarrow> appends (w_seq fs)"
proof (induction fs)
  case Nil
  have "w_seq [] = (\<lambda>w. w)" by (rule ext) (simp add: w_seq_def)
  then show ?case by (simp add: appends_none)
next
  case (Cons f fs)
  have "w_seq (f # fs) = (\<lambda>w. w_seq fs (f w))" by (rule ext) (simp add: w_seq_def)
  then show ?case using Cons appends_then [of f "w_seq fs"] by simp
qed

lemma appends_fold [appending]: "(\<And>x. appends (f x)) \<Longrightarrow> appends (fold f xs)"
proof (induction xs)
  case Nil
  then show ?case using appends_none by (simp add: id_def)
next
  case (Cons x xs)
  then show ?case using appends_then [of "f x" "fold f xs"] by (simp add: comp_def)
qed

lemma appends_if [appending]: "appends f \<Longrightarrow> appends (write_if b f)"
  by (simp add: write_if_def appends_none)

lemma appends_prims [appending]:
  "appends (w_primitive t c)" "appends (w_integer t i)" "appends (w_unsigned t u)" "appends (w_visible_string t s)"
  "appends (w_boolean t b)" "appends (w_null t)" "appends (w_octet_string t c)" "appends (w_bit_string t bs)"
  "appends (mms_encode d)"
  by (simp_all add: w_bit_string_def w_put mms_encode_put appends_put)

lemma appends_sequence [appending]: "appends f \<Longrightarrow> appends (w_sequence f)"
  by (simp add: w_sequence_def appends_tlv)

text \<open>The units of the server.\<close>

definition is_answer :: "u32 \<Rightarrow> bytes \<Rightarrow> bool" where
  "is_answer i u \<longleftrightarrow> (\<exists>b t. u = tlv_bytes t (tlv_bytes u_integer (encode_integer (ucast i)) @ b) \<and>
     t \<in> {pdu_confirmed_response, pdu_confirmed_error})"

definition is_unsolicited :: "bytes \<Rightarrow> bool" where
  "is_unsolicited u \<longleftrightarrow> (\<exists>b. u = tlv_bytes pdu_unconfirmed b)"

lemma response_answers: "appends f \<Longrightarrow> is_answer i (encode_confirmed_response i f)"
  unfolding is_answer_def by (auto simp: appends_def encode_confirmed_response_def w_put intro!: exI [where x = pdu_confirmed_response])

lemma error_answers: "is_answer i (encode_error i)"
  unfolding is_answer_def by (auto simp: encode_error_def encode_confirmed_error_def w_put intro!: exI [where x = pdu_confirmed_error])

lemma appends_unsolicited: "appends f \<Longrightarrow> is_unsolicited (into_bytes (w_tlv pdu_unconfirmed f writer_new))"
  by (auto simp: appends_def is_unsolicited_def w_put)

lemma unsolicited_units:
  "is_unsolicited (encode_information_report d)" "is_unsolicited (last_appl_error_for domain oi v cause)"
  "is_unsolicited (encode_command_termination domain oi v p code)"
  unfolding encode_information_report_def last_appl_error_for_def encode_last_appl_error_def encode_command_termination_def Let_def
  by (auto simp: list_all_iff split: option.split intro!: appends_unsolicited appending)

lemma appends_write_results [appending]: "appends (write_access_result a)" "appends (write_write_result r)"
  by (cases a; cases r; simp add: appending)+

lemma appends_names [appending]: "appends (write_file_name n)" "appends (write_object_name domain i)" "appends (write_members ns)"
  by (simp_all add: write_file_name_put write_object_name_put write_members_put appends_put)

lemma appends_parts [appending]:
  "appends (write_file_attributes a)" "appends (write_journal_entry e)" "appends (encode_type_spec ts)"
  by (simp_all add: write_file_attributes_put write_journal_entry_put encode_type_spec_put appends_put)

lemma appends_responses:
  "appends (identify_encode_response ident)" "appends (name_list_encode_response nl)" "appends (read_encode_response rs)"
  "appends (attr_encode_response va)" "appends (encode_directory_response dir)" "appends (encode_open_response fo)"
  "appends (encode_read_response chunk)" "appends encode_close_response" "appends encode_file_delete_response"
  "appends encode_rename_response" "appends (write_encode_response ws)" "appends encode_define_response"
  "appends (encode_delete_response dr)" "appends (encode_get_attributes_response del members)"
  "appends (journal_encode_response (es, more_follows))" "appends encode_obtain_response"
  unfolding identify_encode_response_def name_list_encode_response_def read_encode_response_def attr_encode_response_def
    encode_directory_response_def encode_open_response_def encode_read_response_def encode_close_response_def
    encode_file_delete_response_def encode_rename_response_def write_encode_response_def encode_define_response_def
    encode_delete_response_def encode_get_attributes_response_def journal_encode_response_def encode_obtain_response_def
    write_directory_entry_def
  by (auto simp: list_all_iff intro!: appending)

lemmas answering = response_answers error_answers appends_responses

lemma sent_unsolicited: "send_entries ovf es r = (units, r') \<Longrightarrow> u \<in> set units \<Longrightarrow> is_unsolicited u"
  by (induction ovf es r arbitrary: units r' rule: send_entries.induct)
    (auto simp: Let_def make_buffered_report_def unsolicited_units split: prod.splits)

lemma drained_unsolicited:
  "drain_buffer key bufs rcbs = (units, bufs', rcbs') \<Longrightarrow> u \<in> set units \<Longrightarrow> is_unsolicited u"
  by (auto simp: drain_buffer_def Let_def split: option.splits if_splits prod.splits dest: sent_unsolicited)

lemma interrogation_unsolicited: "general_interrogation sm st key v rcbs = (Some u, rcbs') \<Longrightarrow> is_unsolicited u"
  by (auto simp: general_interrogation_def Let_def make_report_def unsolicited_units split: if_splits option.splits)

lemma operate_unsolicited:
  "operate sm now domain oi v sels sh = (r, units, sels', sh') \<Longrightarrow> u \<in> set units \<Longrightarrow> is_unsolicited u"
  by (auto simp: operate_def Let_def unsolicited_units split: prod.splits if_splits option.splits)

lemma write_sbow_unsolicited:
  "write_sbow now st domain item base v sels = (r, units, sels') \<Longrightarrow> u \<in> set units \<Longrightarrow> is_unsolicited u"
  by (auto simp: write_sbow_def unsolicited_units split: if_splits)

lemma set_entry_unsolicited:
  "set_entry_id key v bufs rcbs = (units, bufs', rcbs') \<Longrightarrow> u \<in> set units \<Longrightarrow> is_unsolicited u"
  by (auto simp: set_entry_id_def split: option.splits if_splits dest: drained_unsolicited)

lemma write_allowed_unsolicited:
  assumes "write_allowed sm now domain item v (c, w) = (r, pre, post, st)" "u \<in> set (pre @ post)"
  shows "is_unsolicited u"
  using assms
  by (auto simp: write_allowed_def Let_def split: option.splits if_splits prod.splits write_result.splits
      dest: drained_unsolicited interrogation_unsolicited operate_unsolicited write_sbow_unsolicited set_entry_unsolicited)

lemma write_item_unsolicited:
  assumes "write_item sm now n v (c, w) = (r, pre, post, st)" "u \<in> set (pre @ post)"
  shows "is_unsolicited u"
proof -
  obtain domain item where n: "n = (domain, item)" by (cases n)
  let ?item = "normalize_rcb_item sm domain item"
  consider "pre = []" "post = []"
    | resv where "write_allowed sm now domain ?item v (c, w\<lparr>sw_reservations := resv\<rparr>) = (r, pre, post, st)"
    using assms(1) unfolding n write_item_def
    by (auto simp: Let_def split: prod.splits if_splits option.splits)
  then show ?thesis using assms(2) write_allowed_unsolicited by cases auto
qed

lemma write_items_unsolicited:
  "write_items sm now ns data st = (rs, pre, post, st') \<Longrightarrow> u \<in> set (pre @ post) \<Longrightarrow> is_unsolicited u"
proof (induction ns arbitrary: data st rs pre post)
  case (Cons n ns)
  show ?case
  proof (cases data)
    case Nil
    then show ?thesis using Cons.IH [of "[]" st] Cons.prems by (auto split: prod.splits)
  next
    case (Cons v data')
    obtain r pre1 post1 st1 where one: "write_item sm now n v (fst st, snd st) = (r, pre1, post1, st1)" by (metis prod_cases4)
    obtain rs2 pre2 post2 st2 where rest: "write_items sm now ns data' st1 = (rs2, pre2, post2, st2)" by (metis prod_cases4)
    have "u \<in> set (pre1 @ post1) \<or> u \<in> set (pre2 @ post2)" "st2 = st'" using Cons.prems Cons one rest by auto
    then show ?thesis using write_item_unsolicited [OF one] Cons.IH [OF rest [unfolded \<open>st2 = st'\<close>]] by blast
  qed
qed simp

lemma file_service_answers:
  assumes "file_service r provider i s fs fc = Some (u, fs', fc')"
  shows "is_answer i u"
  using assms
  by (auto simp: file_service_def Let_def handle_file_delete_def handle_file_rename_def handle_file_open_def
      handle_file_directory_def handle_file_read_def handle_file_close_def answering
      split: if_splits prod.splits sum.splits option.splits)

lemma handlers_answer:
  "is_answer i (handle_name_list sm i s)" "is_answer i (handle_get_var_attr i s sm st)"
  "is_answer i (handle_get_dataset_attrs i s sm c)" "is_answer i (handle_read_journal i s sm)"
  "handle_read sm now i s st c = (u, c') \<Longrightarrow> is_answer i u"
  "handle_define_dataset i s c = (u, c') \<Longrightarrow> is_answer i u"
  "handle_delete_dataset i s c = (u, c') \<Longrightarrow> is_answer i u"
  unfolding handle_name_list_def handle_get_var_attr_def handle_get_dataset_attrs_def handle_read_journal_def handle_read_def
    handle_define_dataset_def handle_delete_dataset_def
  by (auto simp: answering Let_def split: sum.splits option.splits prod.splits if_splits)

lemma request_answered:
  assumes "handle_request sm provider now i s (c, w, fs) = (out, st)"
  shows "is_answer i (so_resp out) \<and> (\<forall>u \<in> set (so_pre out @ so_post out). is_unsolicited u)"
proof (cases "file_service (cs_role c) provider i s fs (cs_files c)")
  case None
  have wr: "is_answer i (so_resp out) \<and> (\<forall>u \<in> set (so_pre out @ so_post out). is_unsolicited u)"
    if "handle_write sm now i s (c, w) = (out, st)" for out st
    using that write_items_unsolicited
    by (fastforce simp: handle_write_def output_only_def answering split: sum.splits prod.splits)
  show ?thesis
    using assms wr None
    by (auto simp: handle_request_def Let_def output_only_def answering handlers_answer split: if_splits prod.splits)
next
  case (Some r)
  then show ?thesis
    using assms file_service_answers
    by (cases r) (auto simp: handle_request_def Let_def output_only_def answering handlers_answer
        split: if_splits prod.splits)
qed

end
