(* ===== verification/ClientReader.thy ===== *)
theory ClientReader imports ServerConnection "HOL-Library.Multiset" begin

text \<open>
  The demultiplexer of the client (\<open>Shared\<close>, \<open>next_id\<close>, \<open>request\<close> and \<open>reader_loop\<close> of
  crates/iec61850-mms/src/client.rs): the calls that wait, each under its number, and the task that reads
  the units of the server and gives each to the call, the task or the file it is for. A call waits on a
  channel of its own, which is its slot here; the channels of reports and terminations are what the reader
  gives. The lemmas show that every call ends once, with a unit of its own number.
\<close>

unbundle bit_operations_syntax

section \<open>State\<close>

text \<open>A call waits under its number with a channel of its own, here numbered too. The reader task stops when
  the connection is lost, and when it panics.\<close>

record client_state =
  cl_next_invoke :: u32
  cl_pending :: "(u32 \<times> nat) list"
  cl_last_appl_error :: "last_appl_error option"
  cl_report_members :: "string \<rightharpoonup> variable_name list"
  cl_reverse :: reverse_state
  cl_reading :: bool

definition client_new :: client_state where
  "client_new = \<lparr>cl_next_invoke = 1, cl_pending = [], cl_last_appl_error = None, cl_report_members = Map.empty,
     cl_reverse = \<lparr>offered_files = Map.empty, reverse_reads = []\<rparr>, cl_reading = True\<rparr>"

text \<open>What the client gives: the end of a call, a report, a termination, a unit it sends.\<close>

datatype client_act =
    CaEnd nat "mms_error + bytes"
  | CaReport report
  | CaTermination command_termination
  | CaSend bytes

section \<open>Calls\<close>

text \<open>\<open>fetch_add(1).max(1)\<close>.\<close>

definition next_id :: "client_state \<Rightarrow> u32 \<times> client_state" where
  "next_id c = (max (cl_next_invoke c) 1, c\<lparr>cl_next_invoke := cl_next_invoke c + 1\<rparr>)"

text \<open>A call that takes over a number ends the one that waits under it.\<close>

definition begin_call :: "nat \<Rightarrow> writing \<Rightarrow> client_state \<Rightarrow> client_act list \<times> client_state" where
  "begin_call slot service c =
    (let (i, c) = next_id c
     in ((case map_of (cl_pending c) i of Some old \<Rightarrow> [CaEnd old (Inl MeConnectionClosed)] | None \<Rightarrow> []) @
         [CaSend (encode_confirmed_request i service)],
         c\<lparr>cl_pending := AList.update i slot (cl_pending c)\<rparr>))"

text \<open>A call that could not be sent, or that waits no longer.\<close>

definition abandon_call :: "u32 \<Rightarrow> nat \<Rightarrow> mms_error \<Rightarrow> client_state \<Rightarrow> client_act list \<times> client_state" where
  "abandon_call i slot e c =
    (if map_of (cl_pending c) i = Some slot then ([CaEnd slot (Inl e)], c\<lparr>cl_pending := AList.delete i (cl_pending c)\<rparr>)
     else ([], c))"

section \<open>The reader\<close>

definition reader_unit :: "bytes \<Rightarrow> client_state \<Rightarrow> client_act list \<times> client_state" where
  "reader_unit pdu c =
    (case peek_invoke_and_kind pdu of
       Inr (KUnconfirmed, _) \<Rightarrow>
         (case parse_unconfirmed pdu of
            Inl _ \<Rightarrow> ([], c)
          | Inr svc \<Rightarrow>
            (case on_unsolicited (cl_report_members c) (cl_last_appl_error c) svc of
               None \<Rightarrow> ([], c\<lparr>cl_reading := False\<rparr>)
             | Some (kept, out) \<Rightarrow>
               ((case out of OutNothing \<Rightarrow> [] | OutReport r \<Rightarrow> [CaReport r] | OutTermination ct \<Rightarrow> [CaTermination ct]),
                c\<lparr>cl_last_appl_error := kept\<rparr>)))
     | Inr (KConfirmedRequest, _) \<Rightarrow>
         (let (resp, rev) = handle_reverse_request pdu (cl_reverse c)
          in ((case resp of Some u \<Rightarrow> [CaSend u] | None \<Rightarrow> []), c\<lparr>cl_reverse := rev\<rparr>))
     | Inr (_, Some i) \<Rightarrow>
         (case map_of (cl_pending c) i of
            Some slot \<Rightarrow> ([CaEnd slot (Inr pdu)], c\<lparr>cl_pending := AList.delete i (cl_pending c)\<rparr>)
          | None \<Rightarrow> ([], c))
     | _ \<Rightarrow> ([], c))"

definition reader_closed :: "client_state \<Rightarrow> client_act list \<times> client_state" where
  "reader_closed c =
    (map (\<lambda>(i, slot). CaEnd slot (Inl MeConnectionClosed)) (cl_pending c), c\<lparr>cl_pending := [], cl_reading := False\<rparr>)"

datatype client_event =
    CvCall nat writing
  | CvAbandoned u32 nat mms_error
  | CvData bytes
  | CvLost

fun client_step :: "client_event \<Rightarrow> client_state \<Rightarrow> client_act list \<times> client_state" where
  "client_step (CvCall slot service) c = begin_call slot service c"
| "client_step (CvAbandoned i slot e) c = abandon_call i slot e c"
| "client_step (CvData tsdu) c =
    (if cl_reading c then (case extract_inner_pdu tsdu of Inl _ \<Rightarrow> ([], c) | Inr pdu \<Rightarrow> reader_unit pdu c) else ([], c))"
| "client_step CvLost c = (if cl_reading c then reader_closed c else ([], c))"

fun client_run :: "client_event list \<Rightarrow> client_state \<Rightarrow> client_act list \<times> client_state" where
  "client_run [] c = ([], c)"
| "client_run (e # es) c = (let (outs, c) = client_step e c; (rest, c) = client_run es c in (outs @ rest, c))"

section \<open>Every call ends once\<close>

fun act_end :: "client_act \<Rightarrow> (nat \<times> (mms_error + bytes)) option" where
  "act_end (CaEnd slot r) = Some (slot, r)"
| "act_end _ = None"

definition act_ends :: "client_act list \<Rightarrow> (nat \<times> (mms_error + bytes)) list" where
  "act_ends acts = List.map_filter act_end acts"

fun event_call :: "client_event \<Rightarrow> nat option" where
  "event_call (CvCall slot w) = Some slot"
| "event_call _ = None"

text \<open>The number of each call: the calls take the numbers in order from the next one.\<close>

fun call_ids :: "client_event list \<Rightarrow> u32 \<Rightarrow> (nat \<times> u32) list" where
  "call_ids [] n = []"
| "call_ids (CvCall slot w # es) n = (slot, max n 1) # call_ids es (n + 1)"
| "call_ids (_ # es) n = call_ids es n"

lemma act_ends_simps [simp]:
  "act_ends [] = []" "act_ends (CaEnd s r # as) = (s, r) # act_ends as" "act_ends (CaReport rp # as) = act_ends as"
  "act_ends (CaTermination ct # as) = act_ends as" "act_ends (CaSend u # as) = act_ends as"
  "act_ends (as @ bs) = act_ends as @ act_ends bs"
  by (simp_all add: act_ends_def map_filter_def)

definition client_ok :: "client_state \<Rightarrow> bool" where
  "client_ok c \<longleftrightarrow> distinct (map fst (cl_pending c))"

definition open_calls :: "client_state \<Rightarrow> nat multiset" where
  "open_calls c = mset (map snd (cl_pending c))"

text \<open>One waiting call less.\<close>

lemma pending_removed:
  "distinct (map fst xs) \<Longrightarrow> map_of xs k = Some v \<Longrightarrow> add_mset v (mset (map snd (AList.delete k xs))) = mset (map snd xs)"
proof (induction xs)
  case (Cons x xs)
  show ?case
  proof (cases "fst x = k")
    case True
    then have "AList.delete k xs = xs" using Cons.prems(1) by (auto simp: AList.delete_eq image_iff intro!: filter_True)
    then show ?thesis using Cons.prems True by (cases x) auto
  qed (use Cons in \<open>cases x, auto\<close>)
qed simp

lemma delete_entries: "set (AList.delete k xs) \<subseteq> set xs"
  by (auto simp: AList.delete_eq)

lemma pending_update_new: "map_of xs k = None \<Longrightarrow> AList.update k v xs = xs @ [(k, v)]"
  by (induction xs) auto

lemma pending_replaced:
  "distinct (map fst xs) \<Longrightarrow> map_of xs k = Some w \<Longrightarrow>
    add_mset w (mset (map snd (AList.update k v xs))) = add_mset v (mset (map snd xs))"
  by (induction xs) auto

text \<open>What a unit does: it ends the call that waits under its number, or no call.\<close>

lemma reader_unit_cases:
  assumes "reader_unit pdu c = (outs, c')"
  obtains (quiet) "act_ends outs = []" "cl_pending c' = cl_pending c" "cl_next_invoke c' = cl_next_invoke c"
  | (ended) k i slot where "peek_invoke_and_kind pdu = Inr (k, Some i)" "k \<noteq> KUnconfirmed" "k \<noteq> KConfirmedRequest"
      "map_of (cl_pending c) i = Some slot" "outs = [CaEnd slot (Inr pdu)]"
      "c' = c\<lparr>cl_pending := AList.delete i (cl_pending c)\<rparr>"
proof (cases "peek_invoke_and_kind pdu")
  case (Inl e)
  then show ?thesis using assms quiet by (simp add: reader_unit_def)
next
  case (Inr ki)
  obtain k i where ki: "ki = (k, i)" by (cases ki)
  consider "k = KUnconfirmed" | "k = KConfirmedRequest" | "k \<noteq> KUnconfirmed" "k \<noteq> KConfirmedRequest" by blast
  then show ?thesis
  proof cases
    case 1
    then show ?thesis using assms Inr ki quiet
      by (auto simp: reader_unit_def split: sum.splits option.splits ReportPdu.client_output.splits)
  next
    case 2
    then show ?thesis using assms Inr ki quiet by (auto simp: reader_unit_def split: prod.splits option.splits)
  next
    case 3
    then show ?thesis
    proof (cases i)
      case None
      then show ?thesis using assms Inr ki quiet 3 by (auto simp: reader_unit_def split: pdu_kind.splits)
    next
      case (Some n)
      then show ?thesis using assms Inr ki quiet 3 ended [of k n]
        by (cases "map_of (cl_pending c) n") (auto simp: reader_unit_def split: pdu_kind.splits)
    qed
  qed
qed

lemma client_step_calls:
  assumes "client_ok c" "client_step e c = (outs, c')"
  shows "client_ok c' \<and> mset (map fst (act_ends outs)) + open_calls c' =
    open_calls c + (case event_call e of Some slot \<Rightarrow> {#slot#} | None \<Rightarrow> {#})"
proof (cases e)
  case (CvCall slot w)
  then show ?thesis using assms pending_replaced [of "cl_pending c"]
    by (auto simp: begin_call_def next_id_def Let_def client_ok_def open_calls_def distinct_update pending_update_new
        split: option.splits)
next
  case (CvAbandoned i slot er)
  then show ?thesis using assms pending_removed [of "cl_pending c"]
    by (auto simp: abandon_call_def client_ok_def open_calls_def distinct_delete split: if_splits)
next
  case (CvData tsdu)
  show ?thesis
  proof (cases "cl_reading c \<and> \<not> isl (extract_inner_pdu tsdu)")
    case True
    then obtain pdu where "reader_unit pdu c = (outs, c')" using assms(2) CvData by (auto split: sum.splits)
    then show ?thesis
    proof (cases rule: reader_unit_cases)
      case quiet
      then show ?thesis using assms(1) CvData by (simp add: client_ok_def open_calls_def)
    next
      case (ended k i slot)
      then show ?thesis using assms(1) CvData pending_removed [of "cl_pending c" i slot]
        by (simp add: client_ok_def open_calls_def distinct_delete)
    qed
  qed (use assms CvData in \<open>auto split: sum.splits if_splits\<close>)
next
  case CvLost
  have "image_mset fst (mset (act_ends (map (\<lambda>(i, slot). CaEnd slot (Inl MeConnectionClosed)) xs))) = image_mset snd (mset xs)" for xs
    by (induction xs) auto
  then show ?thesis using assms CvLost by (auto simp: reader_closed_def client_ok_def open_calls_def split: if_splits)
qed

definition calls_of :: "client_event list \<Rightarrow> nat list" where
  "calls_of evs = List.map_filter event_call evs"

lemma client_run_calls:
  "client_ok c \<Longrightarrow> client_run evs c = (outs, c') \<Longrightarrow>
    client_ok c' \<and> mset (map fst (act_ends outs)) + open_calls c' = open_calls c + mset (calls_of evs)"
proof (induction evs arbitrary: c outs)
  case (Cons e evs)
  obtain outs1 c1 where st: "client_step e c = (outs1, c1)" by (metis prod.exhaust)
  obtain outs2 where run: "client_run evs c1 = (outs2, c')" "outs = outs1 @ outs2"
    using Cons.prems(2) st by (auto split: prod.splits)
  let ?x = "case event_call e of Some slot \<Rightarrow> {#slot#} | None \<Rightarrow> {#}"
  have one: "client_ok c1" "mset (map fst (act_ends outs1)) + open_calls c1 = open_calls c + ?x"
    using client_step_calls [OF Cons.prems(1) st] by auto
  have rest: "client_ok c'" "mset (map fst (act_ends outs2)) + open_calls c' = open_calls c1 + mset (calls_of evs)"
    using Cons.IH [OF one(1) run(1)] by auto
  have "mset (map fst (act_ends outs)) + open_calls c' = (mset (map fst (act_ends outs1)) + open_calls c1) + mset (calls_of evs)"
    using rest(2) run(2) by (simp add: add.assoc)
  also have "\<dots> = open_calls c + mset (calls_of (e # evs))"
    unfolding one(2) by (simp add: calls_of_def map_filter_simps split: option.split)
  finally show ?case using rest(1) by blast
qed (simp add: calls_of_def map_filter_def)

text \<open>The number of a call that a unit ends.\<close>

lemma client_step_next:
  assumes "client_step e c = (outs, c')"
  shows "cl_next_invoke c' = cl_next_invoke c + (if event_call e = None then 0 else 1)"
proof (cases e)
  case (CvData tsdu)
  then show ?thesis using assms by (auto split: if_splits sum.splits elim: reader_unit_cases)
qed (use assms in \<open>auto simp: begin_call_def next_id_def abandon_call_def reader_closed_def Let_def split: option.splits if_splits\<close>)

lemma client_step_ids:
  assumes "client_step e c = (outs, c')" "client_ok c" "\<forall>i slot. (i, slot) \<in> set (cl_pending c) \<longrightarrow> (slot, i) \<in> S"
    "set (call_ids [e] (cl_next_invoke c)) \<subseteq> S"
  shows "(\<forall>i slot. (i, slot) \<in> set (cl_pending c') \<longrightarrow> (slot, i) \<in> S) \<and>
    (\<forall>slot u. (slot, Inr u) \<in> set (act_ends outs) \<longrightarrow> (\<exists>i k. (slot, i) \<in> S \<and> peek_invoke_and_kind u = Inr (k, Some i)))"
proof (cases e)
  case (CvCall slot w)
  have "set (AList.update i v xs) \<subseteq> insert (i, v) (set xs)" for i :: u32 and v :: nat and xs
    by (induction xs) auto
  then show ?thesis using assms CvCall
    by (fastforce simp: begin_call_def next_id_def Let_def split: option.splits)
next
  case (CvAbandoned i slot er)
  then show ?thesis using assms delete_entries [of i "cl_pending c"]
    by (auto simp: abandon_call_def split: if_splits)
next
  case (CvData tsdu)
  show ?thesis
  proof (cases "cl_reading c \<and> \<not> isl (extract_inner_pdu tsdu)")
    case True
    then obtain pdu where "reader_unit pdu c = (outs, c')" using assms(1) CvData by (auto split: sum.splits)
    then show ?thesis
    proof (cases rule: reader_unit_cases)
      case quiet
      then show ?thesis using assms CvData by auto
    next
      case (ended k i slot)
      then have "(i, slot) \<in> set (cl_pending c)" by (auto dest: map_of_SomeD)
      then show ?thesis using assms CvData ended delete_entries [of i "cl_pending c"] by auto
    qed
  qed (use assms CvData in \<open>auto split: sum.splits if_splits\<close>)
next
  case CvLost
  then show ?thesis using assms
    by (auto simp: reader_closed_def act_ends_def map_filter_def split: if_splits)
qed

lemma client_run_ids:
  "client_run evs c = (outs, c') \<Longrightarrow> client_ok c \<Longrightarrow> \<forall>i slot. (i, slot) \<in> set (cl_pending c) \<longrightarrow> (slot, i) \<in> S \<Longrightarrow>
    set (call_ids evs (cl_next_invoke c)) \<subseteq> S \<Longrightarrow> (slot, Inr u) \<in> set (act_ends outs) \<Longrightarrow>
    \<exists>i k. (slot, i) \<in> S \<and> peek_invoke_and_kind u = Inr (k, Some i)"
proof (induction evs arbitrary: c outs)
  case (Cons e evs)
  obtain outs1 c1 where st: "client_step e c = (outs1, c1)" by (metis prod.exhaust)
  obtain outs2 where run: "client_run evs c1 = (outs2, c')" "outs = outs1 @ outs2"
    using Cons.prems(1) st by (auto split: prod.splits)
  have ids: "call_ids (e # evs) (cl_next_invoke c) = call_ids [e] (cl_next_invoke c) @ call_ids evs (cl_next_invoke c1)"
    using client_step_next [OF st] by (cases e) auto
  have one: "\<forall>i slot. (i, slot) \<in> set (cl_pending c1) \<longrightarrow> (slot, i) \<in> S"
    "(slot, Inr u) \<in> set (act_ends outs1) \<Longrightarrow> \<exists>i k. (slot, i) \<in> S \<and> peek_invoke_and_kind u = Inr (k, Some i)"
    using client_step_ids [OF st Cons.prems(2,3)] Cons.prems(4) ids by auto
  have "client_ok c1" using client_step_calls [OF Cons.prems(2) st] by simp
  then show ?case using one Cons.IH [OF run(1) _ one(1)] Cons.prems(4,5) ids run(2) by auto
qed simp

text \<open>C7: Every call of a client ends at most once and is never lost: after any events, the calls that have ended and
  those that wait are together the calls that were made, each once; and the unit that ends a call carries the
  number of exactly that call.\<close>

theorem calls_end_once:
  assumes "client_run evs client_new = (acts, c)"
  shows "mset (map fst (act_ends acts)) + mset (map snd (cl_pending c)) = mset (calls_of evs) \<and>
    (\<forall>slot u. (slot, Inr u) \<in> set (act_ends acts) \<longrightarrow>
      (\<exists>i k. (slot, i) \<in> set (call_ids evs 1) \<and> peek_invoke_and_kind u = Inr (k, Some i)))"
proof -
  have new: "client_ok client_new" "open_calls client_new = {#}" "cl_pending client_new = []" "cl_next_invoke client_new = 1"
    by (simp_all add: client_ok_def open_calls_def client_new_def)
  show ?thesis
    using client_run_calls [OF new(1) assms] client_run_ids [OF assms new(1), of "set (call_ids evs 1)"] new
    by (auto simp: open_calls_def)
qed

theorem calls_end_once_witness:
  "\<exists>acts c. client_run [CvCall 7 (put []), CvCall 8 (put []), CvAbandoned 1 7 MeTimeout, CvLost] client_new = (acts, c) \<and>
    mset (map fst (act_ends acts)) + mset (map snd (cl_pending c)) = {#7, 8#}"
proof -
  obtain acts c where run: "client_run [CvCall 7 (put []), CvCall 8 (put []), CvAbandoned 1 7 MeTimeout, CvLost] client_new = (acts, c)"
    by (metis prod.exhaust)
  show ?thesis using calls_end_once [OF run] run by (auto simp: calls_of_def map_filter_simps)
qed

end
