(* ===== verification/ClientSession.thy ===== *)
theory ClientSession imports ClientReader begin

text \<open>
  The services of the client (crates/iec61850-mms/src/client.rs: reading, writing, data sets, types,
  journals, setting groups, control and reports), each over the function that asks, and the session of a
  client at a server, where a call is a request that the connection at the server answers and whose units the
  reader of the client takes in. An exchange is an interface of its own: a request and its response, as both
  ends read them. The theorems are end to end: what is written is read, a data set is its client's, and the
  caller of a command is told exactly what the server did.
\<close>

unbundle bit_operations_syntax

section \<open>The services of the client\<close>

text \<open>Each is a request with the decoder of its response; \<open>request\<close> is how a client asks.\<close>

definition identify_server :: "'s asking \<Rightarrow> 's \<Rightarrow> (mms_error + identify_response) \<times> 's" where
  "identify_server request = ask request identify_write_request identify_decode_response"

definition get_server_directory :: "(u32 \<Rightarrow> writing \<Rightarrow> mms_error + bytes) \<Rightarrow> u32 \<Rightarrow> (mms_error + string list) option" where
  "get_server_directory request i = get_name_list_all request ClassDomain VmdSpecific i"

text \<open>The names of a logical device that are references.\<close>

definition get_logical_device_directory ::
  "(u32 \<Rightarrow> writing \<Rightarrow> mms_error + bytes) \<Rightarrow> string \<Rightarrow> u32 \<Rightarrow> (mms_error + object_reference list) option" where
  "get_logical_device_directory request ld i =
    map_option (\<lambda>r. bindE r (\<lambda>names. Inr (List.map_filter
        (\<lambda>item. case mms_to_object_reference ld item of Inr obj \<Rightarrow> Some obj | Inl _ \<Rightarrow> None) names)))
      (get_name_list_all request ClassNamedVariable (DomainSpecific ld) i)"

text \<open>\<open>pop().ok_or(UnexpectedPdu)\<close>.\<close>

definition pop_result :: "'a list \<Rightarrow> mms_error + 'a" where
  "pop_result rs = (if rs = [] then Inl MeUnexpectedPdu else Inr (last rs))"

definition read_raw :: "'s asking \<Rightarrow> string \<Rightarrow> string \<Rightarrow> 's \<Rightarrow> (mms_error + access_result) \<times> 's" where
  "read_raw request domain item =
    ask request (read_write_request domain item) (\<lambda>sv. bindE (read_decode_response sv) pop_result)"

text \<open>A name that does not map is an error before anything is sent.\<close>

definition with_name :: "object_reference \<Rightarrow> (string \<Rightarrow> string \<Rightarrow> 's \<Rightarrow> (mms_error + 'a) \<times> 's) \<Rightarrow> 's \<Rightarrow> (mms_error + 'a) \<times> 's" where
  "with_name obj f s =
    (case object_reference_to_mms obj of Inl e \<Rightarrow> (Inl (MeMapping e), s) | Inr (domain, item) \<Rightarrow> f domain item s)"

definition client_read :: "'s asking \<Rightarrow> object_reference \<Rightarrow> 's \<Rightarrow> (mms_error + mms_data) \<times> 's" where
  "client_read request obj = with_name obj (\<lambda>domain item s.
    andE (read_raw request domain item s) (\<lambda>r s. (into_data r, s)))"

text \<open>Collecting into a \<open>Result\<close> stops at the first error.\<close>

fun collect_data :: "access_result list \<Rightarrow> mms_error + mms_data list" where
  "collect_data [] = Inr []"
| "collect_data (r # rs) = bindE (into_data r) (\<lambda>v. bindE (collect_data rs) (\<lambda>vs. Inr (v # vs)))"

definition read_data_set :: "'s asking \<Rightarrow> string \<Rightarrow> string \<Rightarrow> 's \<Rightarrow> (mms_error + mms_data list) \<times> 's" where
  "read_data_set request domain name =
    ask request (read_write_data_set_request domain name) (\<lambda>sv. bindE (read_decode_response sv) collect_data)"

definition read_journal :: "'s asking \<Rightarrow> string \<Rightarrow> string \<Rightarrow> 's \<Rightarrow> (mms_error + journal_entry list \<times> bool) \<times> 's" where
  "read_journal request domain item = ask request (journal_write_request (domain, item)) journal_decode_response"

definition write_raw :: "'s asking \<Rightarrow> string \<Rightarrow> string \<Rightarrow> mms_data \<Rightarrow> 's \<Rightarrow> (mms_error + write_result) \<times> 's" where
  "write_raw request domain item v =
    ask request (write_write_request domain item v) (\<lambda>sv. bindE (write_decode_response sv) pop_result)"

definition client_write :: "'s asking \<Rightarrow> object_reference \<Rightarrow> mms_data \<Rightarrow> 's \<Rightarrow> (mms_error + unit) \<times> 's" where
  "client_write request obj v = with_name obj (\<lambda>domain item s.
    andE (write_raw request domain item v s) (\<lambda>r s. (into_result r, s)))"

definition sub_reference :: "object_reference \<Rightarrow> string \<Rightarrow> object_reference" where
  "sub_reference obj part = obj\<lparr>or_path := or_path obj @ [part]\<rparr>"

definition select_active_sg :: "'s asking \<Rightarrow> object_reference \<Rightarrow> u32 \<Rightarrow> 's \<Rightarrow> (mms_error + unit) \<times> 's" where
  "select_active_sg request sgcb grp = client_write request (sub_reference sgcb ''ActSG'') (MUint (ucast grp))"

definition select_edit_sg :: "'s asking \<Rightarrow> object_reference \<Rightarrow> u32 \<Rightarrow> 's \<Rightarrow> (mms_error + unit) \<times> 's" where
  "select_edit_sg request sgcb grp = client_write request (sub_reference sgcb ''EditSG'') (MUint (ucast grp))"

definition client_confirm_edit_sg :: "'s asking \<Rightarrow> object_reference \<Rightarrow> 's \<Rightarrow> (mms_error + unit) \<times> 's" where
  "client_confirm_edit_sg request sgcb = client_write request (sub_reference sgcb ''CnfEdit'') (MBool True)"

text \<open>Any confirmed response is a success.\<close>

definition create_data_set ::
  "'s asking \<Rightarrow> string \<Rightarrow> string \<Rightarrow> variable_name list \<Rightarrow> 's \<Rightarrow> (mms_error + unit) \<times> 's" where
  "create_data_set request domain name members = ask request (write_define_request domain name members) (\<lambda>_. Inr ())"

definition delete_data_set :: "'s asking \<Rightarrow> string \<Rightarrow> string \<Rightarrow> 's \<Rightarrow> (mms_error + delete_result) \<times> 's" where
  "delete_data_set request domain name = ask request (write_delete_request domain name) decode_delete_response"

definition get_data_set_directory ::
  "'s asking \<Rightarrow> string \<Rightarrow> string \<Rightarrow> 's \<Rightarrow> (mms_error + list_attributes) \<times> 's" where
  "get_data_set_directory request domain name =
    ask request (write_get_attributes_request domain name) decode_get_attributes_response"

definition type_attributes_raw :: "'s asking \<Rightarrow> string \<Rightarrow> string \<Rightarrow> 's \<Rightarrow> (mms_error + variable_attributes) \<times> 's" where
  "type_attributes_raw request domain item = ask request (attr_write_request (domain, item)) attr_decode_response"

definition type_attributes :: "'s asking \<Rightarrow> object_reference \<Rightarrow> 's \<Rightarrow> (mms_error + variable_attributes) \<times> 's" where
  "type_attributes request obj = with_name obj (type_attributes_raw request)"

section \<open>A client at a server\<close>

text \<open>One client with all that its reader has given, its connection at the server, and what the connections of the
  server share.\<close>

record 'f session =
  se_client :: client_state
  se_conn :: conn_state
  se_world :: server_world
  se_files :: 'f
  se_acts :: "client_act list"

fun reader_units :: "bytes list \<Rightarrow> client_state \<Rightarrow> client_act list \<times> client_state" where
  "reader_units [] c = ([], c)"
| "reader_units (u # us) c =
    (if cl_reading c
     then (let (acts, c) = reader_unit u c; (rest, c) = reader_units us c in (acts @ rest, c))
     else ([], c))"

text \<open>A call of the client at a time when no other waits, answered by the server at \<open>now\<close>; without an answer it
  ends when its time is over.\<close>

definition session_request :: "server_model \<Rightarrow> 'f file_provider option \<Rightarrow> nat \<Rightarrow> 'f session asking" where
  "session_request sm provider now service se =
    (let (i, c) = next_id (se_client se);
         (units, outcome, conn, w, fs) = on_pdu sm provider now (encode_confirmed_request i service)
           (se_conn se, se_world se, se_files se);
         (acts, c) = reader_units units (c\<lparr>cl_pending := AList.update i 0 (cl_pending c)\<rparr>)
     in ((case map_of (act_ends acts) 0 of Some r \<Rightarrow> r | None \<Rightarrow> Inl MeTimeout),
         \<lparr>se_client = c\<lparr>cl_pending := AList.delete i (cl_pending c)\<rparr>, se_conn = conn, se_world = w, se_files = fs,
           se_acts = se_acts se @ acts\<rparr>))"

section \<open>Control\<close>

definition kept_failure :: "string \<Rightarrow> mms_error + unit \<Rightarrow> 'f session \<Rightarrow> (mms_error + unit) \<times> 'f session" where
  "kept_failure item res se =
    (let (res, kept) = map_control_failure item res (cl_last_appl_error (se_client se))
     in (res, se\<lparr>se_client := (se_client se)\<lparr>cl_last_appl_error := kept\<rparr>\<rparr>))"

text \<open>Writing a component of a control object, and what a refusal becomes.\<close>

definition write_control ::
  "'f session asking \<Rightarrow> object_reference \<Rightarrow> string \<Rightarrow> mms_data \<Rightarrow> 'f session \<Rightarrow> (mms_error + unit) \<times> 'f session" where
  "write_control request do_control component v se =
    (case control_item do_control component of
       Inl e \<Rightarrow> (Inl e, se)
     | Inr (domain, item) \<Rightarrow>
       andE (write_raw request domain item v se) (\<lambda>r se. kept_failure item (into_result r) se))"

definition operate_with ::
  "'f session asking \<Rightarrow> utc_time \<Rightarrow> object_reference \<Rightarrow> mms_data \<Rightarrow> control_parameters \<Rightarrow> 'f session \<Rightarrow> (mms_error + unit) \<times> 'f session" where
  "operate_with request t do_control ctl_val params = write_control request do_control ''Oper'' (build_oper ctl_val params t)"

definition client_operate ::
  "'f session asking \<Rightarrow> utc_time \<Rightarrow> object_reference \<Rightarrow> mms_data \<Rightarrow> 'f session \<Rightarrow> (mms_error + unit) \<times> 'f session" where
  "client_operate request t do_control ctl_val = operate_with request t do_control ctl_val default_parameters"

text \<open>Enhanced security: the call waits for the termination of its object, among those that came after it
  subscribed; \<open>later\<close> is what comes after the answer.\<close>

fun act_termination :: "client_act \<Rightarrow> termination_event option" where
  "act_termination (CaTermination ct) = Some (TeTermination ct)"
| "act_termination _ = None"

definition operate_enhanced ::
  "'f session asking \<Rightarrow> utc_time \<Rightarrow> object_reference \<Rightarrow> mms_data \<Rightarrow> control_parameters \<Rightarrow> termination_event list \<Rightarrow>
   'f session \<Rightarrow> (mms_error + unit) \<times> 'f session" where
  "operate_enhanced request t do_control ctl_val params later se =
    (case control_item do_control ''Oper'' of
       Inl e \<Rightarrow> (Inl e, se)
     | Inr (domain, item) \<Rightarrow>
       andE (write_control request do_control ''Oper'' (build_oper ctl_val params t) se) (\<lambda>_ se'.
         (case await_termination item
             (List.map_filter act_termination (drop (length (se_acts se)) (se_acts se')) @ later) of
            Some res \<Rightarrow> res | None \<Rightarrow> Inl MeControlTimeout, se')))"

definition select_with_value ::
  "'f session asking \<Rightarrow> utc_time \<Rightarrow> object_reference \<Rightarrow> mms_data \<Rightarrow> control_parameters \<Rightarrow> 'f session \<Rightarrow> (mms_error + unit) \<times> 'f session" where
  "select_with_value request t do_control ctl_val params = write_control request do_control ''SBOw'' (build_oper ctl_val params t)"

definition select_control :: "'s asking \<Rightarrow> object_reference \<Rightarrow> 's \<Rightarrow> (mms_error + bool) \<times> 's" where
  "select_control request do_control s =
    (case control_item do_control ''SBO'' of
       Inl e \<Rightarrow> (Inl e, s)
     | Inr (domain, item) \<Rightarrow> andE (read_raw request domain item s) (\<lambda>r s. (select_granted r, s)))"

definition cancel_control ::
  "'s asking \<Rightarrow> utc_time \<Rightarrow> object_reference \<Rightarrow> control_parameters \<Rightarrow> 's \<Rightarrow> (mms_error + unit) \<times> 's" where
  "cancel_control request t do_control params s =
    (case control_item do_control ''Cancel'' of
       Inl e \<Rightarrow> (Inl e, s)
     | Inr (domain, item) \<Rightarrow>
       andE (write_raw request domain item (build_oper (MBool False) params t) s) (\<lambda>r s. (into_result r, s)))"

definition take_last_appl_error :: "client_state \<Rightarrow> last_appl_error option \<times> client_state" where
  "take_last_appl_error c = (cl_last_appl_error c, c\<lparr>cl_last_appl_error := None\<rparr>)"

section \<open>Reports\<close>

record report_config =
  rg_dataset :: "string option"
  rg_trg_ops :: "bit_string option"
  rg_opt_flds :: "bit_string option"
  rg_integrity_period :: "u32 option"
  rg_buf_time :: "u32 option"
  rg_general_interrogation :: bool

definition write_rcb_attr :: "'s asking \<Rightarrow> object_reference \<Rightarrow> string \<Rightarrow> mms_data \<Rightarrow> 's \<Rightarrow> (mms_error + unit) \<times> 's" where
  "write_rcb_attr request rcb attr v = client_write request (sub_reference rcb attr) v"

definition read_rcb_attr :: "'s asking \<Rightarrow> object_reference \<Rightarrow> string \<Rightarrow> 's \<Rightarrow> (mms_error + mms_data) \<times> 's" where
  "read_rcb_attr request rcb attr = client_read request (sub_reference rcb attr)"

definition resolve_report_dataset :: "'f session asking \<Rightarrow> string \<Rightarrow> 'f session \<Rightarrow> (mms_error + nat) \<times> 'f session" where
  "resolve_report_dataset request dataset se =
    (case split_once (CHR ''/'') dataset of
       None \<Rightarrow> (Inl (MeServiceReject (''dataset sin dominio: '' @ dataset)), se)
     | Some (domain, name) \<Rightarrow>
       andE (get_data_set_directory request domain name se) (\<lambda>attrs se.
         (Inr (length (la_members attrs)),
          se\<lparr>se_client := (se_client se)\<lparr>cl_report_members := (cl_report_members (se_client se))(dataset \<mapsto> la_members attrs)\<rparr>\<rparr>)))"

text \<open>An attribute that the configuration sets.\<close>

definition write_optional ::
  "'s asking \<Rightarrow> object_reference \<Rightarrow> string \<Rightarrow> mms_data option \<Rightarrow> 's \<Rightarrow> (mms_error + unit) \<times> 's" where
  "write_optional request rcb attr v s = (case v of None \<Rightarrow> (Inr (), s) | Some v \<Rightarrow> write_rcb_attr request rcb attr v s)"

definition effective_dataset ::
  "'s asking \<Rightarrow> object_reference \<Rightarrow> report_config \<Rightarrow> 's \<Rightarrow> string option \<times> 's" where
  "effective_dataset request rcb cfg s =
    (case rg_dataset cfg of
       Some ds \<Rightarrow> (Some ds, s)
     | None \<Rightarrow>
       (case read_rcb_attr request rcb ''DatSet'' s of
          (Inr (MVisible ds), s) \<Rightarrow> (if ds \<noteq> [] then Some ds else None, s)
        | (_, s) \<Rightarrow> (None, s)))"

definition enable_report :: "'f session asking \<Rightarrow> object_reference \<Rightarrow> report_config \<Rightarrow> 'f session \<Rightarrow> (mms_error + unit) \<times> 'f session" where
  "enable_report request rcb cfg se =
    andE (write_optional request rcb ''DatSet'' (map_option MVisible (rg_dataset cfg)) se) (\<lambda>_ se.
      let (dataset, se) = effective_dataset request rcb cfg se;
          se = (case dataset of Some ds \<Rightarrow> snd (resolve_report_dataset request ds se) | None \<Rightarrow> se)
      in andE (write_optional request rcb ''TrgOps'' (map_option MBitString (rg_trg_ops cfg)) se) (\<lambda>_ se.
      andE (write_optional request rcb ''OptFlds'' (map_option MBitString (rg_opt_flds cfg)) se) (\<lambda>_ se.
      andE (write_optional request rcb ''IntgPd'' (map_option (\<lambda>p. MUint (ucast p)) (rg_integrity_period cfg)) se) (\<lambda>_ se.
      andE (write_optional request rcb ''BufTm'' (map_option (\<lambda>b. MUint (ucast b)) (rg_buf_time cfg)) se) (\<lambda>_ se.
      andE (write_rcb_attr request rcb ''RptEna'' (MBool True) se) (\<lambda>_ se.
        if rg_general_interrogation cfg then write_rcb_attr request rcb ''GI'' (MBool True) se else (Inr (), se)))))))"

definition disable_report :: "'s asking \<Rightarrow> object_reference \<Rightarrow> 's \<Rightarrow> (mms_error + unit) \<times> 's" where
  "disable_report request rcb = write_rcb_attr request rcb ''RptEna'' (MBool False)"

definition interrogate_report :: "'s asking \<Rightarrow> object_reference \<Rightarrow> 's \<Rightarrow> (mms_error + unit) \<times> 's" where
  "interrogate_report request rcb = write_rcb_attr request rcb ''GI'' (MBool True)"

section \<open>A call and its answer\<close>

lemma reader_stopped: "\<not> cl_reading c \<Longrightarrow> reader_units us c = ([], c)"
  by (cases us) auto

lemma reader_units_append:
  "reader_units (us @ vs) c = (let (as, c) = reader_units us c; (bs, c) = reader_units vs c in (as @ bs, c))"
  by (induction us arbitrary: c) (auto simp: reader_stopped split: prod.split)

text \<open>Units that are not answers end no call.\<close>

lemma unsolicited_kind:
  assumes "is_unsolicited u" "length u < usize_limit"
  shows "peek_invoke_and_kind u = Inr (KUnconfirmed, None)"
  using assms by (auto simp: is_unsolicited_def peek_invoke_and_kind_def read_tlv_single pdu_tags)

lemma unsolicited_ends_none:
  assumes "is_unsolicited u" "length u < usize_limit" "reader_unit u c = (acts, c')"
  shows "act_ends acts = [] \<and> cl_pending c' = cl_pending c \<and> cl_next_invoke c' = cl_next_invoke c"
  using assms(3)
proof (cases rule: reader_unit_cases)
  case (ended k i slot)
  then show ?thesis using unsolicited_kind [OF assms(1,2)] by simp
qed simp

lemma unsolicited_units_end_none:
  assumes "\<forall>u \<in> set us. is_unsolicited u \<and> length u < usize_limit" "reader_units us c = (acts, c')"
  shows "act_ends acts = [] \<and> cl_pending c' = cl_pending c \<and> cl_next_invoke c' = cl_next_invoke c"
  using assms
proof (induction us arbitrary: c acts c')
  case (Cons u us)
  obtain as c1 where one: "reader_unit u c = (as, c1)" by (metis prod.exhaust)
  obtain bs c2 where rest: "reader_units us c1 = (bs, c2)" by (metis prod.exhaust)
  show ?case
    using Cons.IH [OF _ rest] Cons.prems one rest unsolicited_ends_none [OF _ _ one] by (auto split: if_splits)
qed simp

lemma answer_kind:
  assumes "is_answer i u" "length u < usize_limit"
  shows "\<exists>k. peek_invoke_and_kind u = Inr (k, Some i) \<and> k \<in> {KConfirmedResponse, KConfirmedError}"
proof -
  obtain b t where u: "u = tlv_bytes t (tlv_bytes u_integer (encode_integer (ucast i)) @ b)"
    "t \<in> {pdu_confirmed_response, pdu_confirmed_error}" using assms(1) by (auto simp: is_answer_def)
  let ?i = "tlv_bytes u_integer (encode_integer (ucast i))"
  have s: "slice_ok [] (?i @ b)"
    using assms(2) length_content_less [of "?i @ b" t] u by (simp add: slice_ok_def)
  show ?thesis
    using u(2) read_unsigned_integer_at [OF s] assms(2)
    by (auto simp: u(1) peek_invoke_and_kind_def read_tlv_single pdu_tags tlv_reader_at)
qed

lemma answer_ends:
  assumes "is_answer i u" "length u < usize_limit" "map_of (cl_pending c) i = Some slot"
  shows "reader_unit u c = ([CaEnd slot (Inr u)], c\<lparr>cl_pending := AList.delete i (cl_pending c)\<rparr>)"
  using answer_kind [OF assms(1,2)] assms(3) by (auto simp: reader_unit_def)

lemma answers_end:
  assumes "is_answer i resp" "\<forall>u \<in> set (pre @ post). is_unsolicited u" "\<forall>u \<in> set (pre @ [resp] @ post). length u < usize_limit"
    "reader_units pre c = (as, c1)" "cl_reading c1" "map_of (cl_pending c) i = Some slot"
    "reader_units (pre @ [resp] @ post) c = (acts, c')"
  shows "act_ends acts = [(slot, Inr resp)] \<and> cl_pending c' = AList.delete i (cl_pending c) \<and>
    cl_next_invoke c' = cl_next_invoke c"
proof -
  have p: "act_ends as = []" "cl_pending c1 = cl_pending c" "cl_next_invoke c1 = cl_next_invoke c"
    using unsolicited_units_end_none [OF _ assms(4)] assms(2,3) by auto
  let ?c2 = "c1\<lparr>cl_pending := AList.delete i (cl_pending c)\<rparr>"
  have r: "reader_unit resp c1 = ([CaEnd slot (Inr resp)], ?c2)"
    using answer_ends [OF assms(1)] assms(3,6) p(2) by simp
  obtain bs c3 where q: "reader_units post ?c2 = (bs, c3)" by (metis prod.exhaust)
  have "act_ends bs = []" "cl_pending c3 = AList.delete i (cl_pending c)" "cl_next_invoke c3 = cl_next_invoke c"
    using unsolicited_units_end_none [OF _ q] assms(2,3) p by auto
  moreover have "acts = as @ CaEnd slot (Inr resp) # bs" "c' = c3"
    using assms(4,5,7) r q reader_units_append [of pre "resp # post" c] by auto
  ultimately show ?thesis using p by simp
qed

text \<open>What \<open>next_id\<close> gives.\<close>

definition call_id :: "client_state \<Rightarrow> u32" where
  "call_id c = max (cl_next_invoke c) 1"

text \<open>A call whose request the server takes in, and whose answer it sends first or after units that leave the
  reader alive, gives the answer.\<close>

lemma session_answered:
  assumes "cl_reading (se_client se)" "i = call_id (se_client se)"
    "peek_request_kind (encode_confirmed_request i service) = Inr KConfirmedRequest"
    "parse_confirmed_request (encode_confirmed_request i service) = Inr (i, s)" "tlv_tag s \<noteq> svc_obtain_file"
    "handle_request sm provider now i s (se_conn se, se_world se, se_files se) = (out, conn, w, fs)"
    "\<forall>u \<in> set (output_units out). length u < usize_limit"
    "\<forall>c. c = (se_client se)\<lparr>cl_next_invoke := cl_next_invoke (se_client se) + 1,
        cl_pending := AList.update i 0 (cl_pending (se_client se))\<rparr> \<longrightarrow> cl_reading (snd (reader_units (so_pre out) c))"
  shows "\<exists>c acts. session_request sm provider now service se =
      (Inr (so_resp out), \<lparr>se_client = c, se_conn = conn, se_world = w, se_files = fs, se_acts = se_acts se @ acts\<rparr>) \<and>
    cl_next_invoke c = cl_next_invoke (se_client se) + 1 \<and>
    cl_pending c = AList.delete i (AList.update i 0 (cl_pending (se_client se))) \<and>
    act_ends acts = [(0, Inr (so_resp out))] \<and>
    (\<exists>c0. reader_units (output_units out) c0 = (acts, c) \<and> cl_reading c0 \<and>
      c0 = (se_client se)\<lparr>cl_next_invoke := cl_next_invoke (se_client se) + 1,
        cl_pending := AList.update i 0 (cl_pending (se_client se))\<rparr>)"
proof -
  let ?c = "(se_client se)\<lparr>cl_next_invoke := cl_next_invoke (se_client se) + 1,
        cl_pending := AList.update i 0 (cl_pending (se_client se))\<rparr>"
  have ans: "is_answer i (so_resp out)" "\<forall>u \<in> set (so_pre out @ so_post out). is_unsolicited u"
    using request_answered [OF assms(6)] by auto
  obtain acts c where run: "reader_units (output_units out) ?c = (acts, c)" by (metis prod.exhaust)
  obtain as c1 where pre: "reader_units (so_pre out) ?c = (as, c1)" by (metis prod.exhaust)
  then have "cl_reading c1" using assms(8) by simp
  then have ends: "act_ends acts = [(0, Inr (so_resp out))]" "cl_next_invoke c = cl_next_invoke (se_client se) + 1"
    "cl_pending c = AList.delete i (AList.update i 0 (cl_pending (se_client se)))"
    using answers_end [OF ans _ pre, of 0 acts c] assms(7) run by (auto simp: output_units_def update_conv')
  have "on_pdu sm provider now (encode_confirmed_request i service) (se_conn se, se_world se, se_files se) =
      (output_units out, GoesOn, conn, w, fs)"
    using assms(3-6) by (simp add: on_pdu_def)
  then have "session_request sm provider now service se = (Inr (so_resp out),
      \<lparr>se_client = c\<lparr>cl_pending := AList.delete i (cl_pending c)\<rparr>, se_conn = conn, se_world = w, se_files = fs,
       se_acts = se_acts se @ acts\<rparr>)"
    using assms(2) run ends(1) by (simp add: session_request_def next_id_def call_id_def Let_def)
  moreover have "c\<lparr>cl_pending := AList.delete i (cl_pending c)\<rparr> = c"
    using ends(3) by (cases c) (simp add: delete_idem)
  ultimately show ?thesis using run ends assms(1) by auto
qed

section \<open>Exchanges\<close>

definition client_ready :: "client_state \<Rightarrow> bool" where
  "client_ready c \<longleftrightarrow> cl_reading c \<and> cl_pending c = []"

text \<open>The client after one call without unsolicited units.\<close>

definition after_call :: "client_state \<Rightarrow> client_state" where
  "after_call c = c\<lparr>cl_next_invoke := cl_next_invoke c + 1\<rparr>"

lemma after_call_ready [simp]:
  "client_ready (after_call c) = client_ready c" "cl_last_appl_error (after_call c) = cl_last_appl_error c"
  "cl_report_members (after_call c) = cl_report_members c"
  by (simp_all add: client_ready_def after_call_def)

text \<open>The units of an answer, once the call is open.\<close>

lemma session_step:
  assumes "client_ready (se_client se)" "i = call_id (se_client se)"
    "peek_request_kind (encode_confirmed_request i service) = Inr KConfirmedRequest"
    "parse_confirmed_request (encode_confirmed_request i service) = Inr (i, s)" "tlv_tag s \<noteq> svc_obtain_file"
    "handle_request sm provider now i s (se_conn se, se_world se, se_files se) = (out, conn, w, fs)"
    "length (so_resp out) < usize_limit"
    "reader_units (so_pre out) ((after_call (se_client se))\<lparr>cl_pending := [(i, 0)]\<rparr>) = (as, c1)" "cl_reading c1"
    "cl_pending c1 = [(i, 0)]" "act_ends as = []"
    "reader_units (so_post out) (c1\<lparr>cl_pending := []\<rparr>) = (bs, c2)" "cl_pending c2 = []"
  shows "session_request sm provider now service se =
      (Inr (so_resp out), \<lparr>se_client = c2, se_conn = conn, se_world = w, se_files = fs,
        se_acts = se_acts se @ as @ CaEnd 0 (Inr (so_resp out)) # bs\<rparr>)"
proof -
  have ans: "is_answer i (so_resp out)" using request_answered [OF assms(6)] by auto
  have "reader_unit (so_resp out) c1 = ([CaEnd 0 (Inr (so_resp out))], c1\<lparr>cl_pending := []\<rparr>)"
    using answer_ends [OF ans assms(7), of c1 0] assms(10) by simp
  then have run: "reader_units (output_units out) ((after_call (se_client se))\<lparr>cl_pending := [(i, 0)]\<rparr>) =
      (as @ CaEnd 0 (Inr (so_resp out)) # bs, c2)"
    using assms(8,9,12) by (simp add: output_units_def reader_units_append)
  have "on_pdu sm provider now (encode_confirmed_request i service) (se_conn se, se_world se, se_files se) =
      (output_units out, GoesOn, conn, w, fs)"
    using assms(3-6) by (simp add: on_pdu_def)
  then show ?thesis
    using assms(1,2,11,13) run
    by (simp add: session_request_def next_id_def call_id_def Let_def client_ready_def after_call_def)
qed

lemma error_bytes_short: "length (encode_error i) < usize_limit"
proof -
  let ?c = "tlv_bytes u_integer (encode_integer (ucast i)) @ tlv_bytes (tag_context 0 False) (encode_integer 0)"
  have b: "encode_error i = tlv_bytes pdu_confirmed_error ?c"
    by (simp add: encode_error_def encode_confirmed_error_def w_put)
  show ?thesis
    using tlv_bytes_bound [of pdu_confirmed_error ?c] tlv_bytes_bound [of u_integer "encode_integer (ucast i)"]
      tlv_bytes_bound [of "tag_context 0 False" "encode_integer 0"] length_encode_integer(2) [of "ucast i"]
      length_encode_integer(2) [of 0] by (simp add: b usize_limit_def)
qed

text \<open>A request and its response, as both ends read them.\<close>

locale mms_exchange =
  request: mms_service rtag rwr rdecode rmeaning rok + response: mms_service atag awr adecode ameaning aok
  for rtag :: tag and rwr :: "'q \<Rightarrow> writing" and rdecode :: "tlv \<Rightarrow> mms_error + 'r" and rmeaning :: "'q \<Rightarrow> 'r"
    and rok :: "'q \<Rightarrow> bool" and atag :: tag and awr :: "'a \<Rightarrow> writing" and adecode :: "tlv \<Rightarrow> mms_error + 'b"
    and ameaning :: "'a \<Rightarrow> 'b" and aok :: "'a \<Rightarrow> bool" +
  assumes not_obtain: "rtag \<noteq> svc_obtain_file"
begin

lemma request_taken:
  assumes "rok q" "length (encode_confirmed_request i (rwr q)) < usize_limit"
  shows "peek_request_kind (encode_confirmed_request i (rwr q)) = Inr KConfirmedRequest"
  using request.carried [OF assms(1)] request_kind [of i] assms(2) by auto

text \<open>A call without unsolicited units.\<close>

lemma exchanged:
  assumes "rok q" "aok a" "client_ready (se_client se)"
    "length (encode_confirmed_request (call_id (se_client se)) (rwr q)) < usize_limit"
    "length (encode_confirmed_response (call_id (se_client se)) (awr a)) < usize_limit"
    "\<And>s. tlv_tag s = rtag \<Longrightarrow> rdecode s = Inr (rmeaning q) \<Longrightarrow>
      handle_request sm provider now (call_id (se_client se)) s (se_conn se, se_world se, se_files se) =
        (output_only (encode_confirmed_response (call_id (se_client se)) (awr a)), conn, w, fs)"
  shows "\<exists>acts. ask (session_request sm provider now) (rwr q) (\<lambda>sv. bindE (adecode sv) f) se =
    (f (ameaning a), \<lparr>se_client = after_call (se_client se), se_conn = conn, se_world = w, se_files = fs, se_acts = acts\<rparr>)"
proof -
  let ?i = "call_id (se_client se)"
  obtain s where s: "parse_confirmed_request (encode_confirmed_request ?i (rwr q)) = Inr (?i, s)" "tlv_tag s = rtag"
    "rdecode s = Inr (rmeaning q)" using request.request_decoded [OF assms(1,4)] by blast
  obtain sv where sv: "parse_confirmed_response (encode_confirmed_response ?i (awr a)) = Inr \<lparr>cr_invoke_id = ?i, cr_service = sv\<rparr>"
    "adecode sv = Inr (ameaning a)" using response.response_decoded [OF assms(2,5)] by blast
  have "session_request sm provider now (rwr q) se = (Inr (encode_confirmed_response ?i (awr a)),
      \<lparr>se_client = after_call (se_client se), se_conn = conn, se_world = w, se_files = fs,
       se_acts = se_acts se @ [] @ CaEnd 0 (Inr (encode_confirmed_response ?i (awr a))) # []\<rparr>)"
    using session_step [OF assms(3) refl request_taken [OF assms(1,4)] s(1) _ assms(6) [OF s(2,3)], of "[]"
        "(after_call (se_client se))\<lparr>cl_pending := [(?i, 0)]\<rparr>" "[]" "after_call (se_client se)"]
      s(2) not_obtain assms(3,5)
    by (simp add: output_only_def client_ready_def after_call_def)
  then show ?thesis using sv by (simp add: ask_def)
qed

lemma exchanged_plain:
  assumes "rok q" "aok a" "client_ready (se_client se)"
    "length (encode_confirmed_request (call_id (se_client se)) (rwr q)) < usize_limit"
    "length (encode_confirmed_response (call_id (se_client se)) (awr a)) < usize_limit"
    "\<And>s. tlv_tag s = rtag \<Longrightarrow> rdecode s = Inr (rmeaning q) \<Longrightarrow>
      handle_request sm provider now (call_id (se_client se)) s (se_conn se, se_world se, se_files se) =
        (output_only (encode_confirmed_response (call_id (se_client se)) (awr a)), conn, w, fs)"
  shows "\<exists>acts. ask (session_request sm provider now) (rwr q) adecode se =
    (Inr (ameaning a), \<lparr>se_client = after_call (se_client se), se_conn = conn, se_world = w, se_files = fs, se_acts = acts\<rparr>)"
proof -
  have "(\<lambda>sv. bindE (adecode sv) Inr) = adecode" proof (rule ext)
    fix sv show "bindE (adecode sv) Inr = adecode sv" by (cases "adecode sv") simp_all
  qed
  then show ?thesis using exchanged [OF assms, of Inr] by simp
qed

text \<open>A call with units before and after its answer, which may change the error the client keeps.\<close>

lemma exchanged_among:
  assumes "rok q" "aok a" "client_ready (se_client se)"
    "length (encode_confirmed_request (call_id (se_client se)) (rwr q)) < usize_limit"
    "length (encode_confirmed_response (call_id (se_client se)) (awr a)) < usize_limit"
    "\<And>s. tlv_tag s = rtag \<Longrightarrow> rdecode s = Inr (rmeaning q) \<Longrightarrow>
      handle_request sm provider now (call_id (se_client se)) s (se_conn se, se_world se, se_files se) =
        (\<lparr>so_pre = pre, so_resp = encode_confirmed_response (call_id (se_client se)) (awr a), so_post = post\<rparr>, conn, w, fs)"
    "\<And>c. cl_reading c \<Longrightarrow> cl_last_appl_error c = cl_last_appl_error (se_client se) \<Longrightarrow>
      reader_units pre c = (as, c\<lparr>cl_last_appl_error := k1\<rparr>)" "act_ends as = []"
    "\<And>c. cl_reading c \<Longrightarrow> cl_last_appl_error c = k1 \<Longrightarrow> reader_units post c = (bs, c\<lparr>cl_last_appl_error := k2\<rparr>)"
  shows "ask (session_request sm provider now) (rwr q) (\<lambda>sv. bindE (adecode sv) f) se =
    (f (ameaning a), \<lparr>se_client = (after_call (se_client se))\<lparr>cl_last_appl_error := k2\<rparr>, se_conn = conn, se_world = w, se_files = fs,
      se_acts = se_acts se @ as @ CaEnd 0 (Inr (encode_confirmed_response (call_id (se_client se)) (awr a))) # bs\<rparr>)"
proof -
  let ?i = "call_id (se_client se)"
  obtain s where s: "parse_confirmed_request (encode_confirmed_request ?i (rwr q)) = Inr (?i, s)" "tlv_tag s = rtag"
    "rdecode s = Inr (rmeaning q)" using request.request_decoded [OF assms(1,4)] by blast
  obtain sv where sv: "parse_confirmed_response (encode_confirmed_response ?i (awr a)) = Inr \<lparr>cr_invoke_id = ?i, cr_service = sv\<rparr>"
    "adecode sv = Inr (ameaning a)" using response.response_decoded [OF assms(2,5)] by blast
  have c: "cl_reading (se_client se)" "cl_pending (se_client se) = []" using assms(3) by (simp_all add: client_ready_def)
  let ?o = "(after_call (se_client se))\<lparr>cl_pending := [(?i, 0)]\<rparr>"
  have pre: "reader_units pre ?o = (as, ?o\<lparr>cl_last_appl_error := k1\<rparr>)" using assms(7) c by (simp add: after_call_def)
  have post: "reader_units post ((?o\<lparr>cl_last_appl_error := k1\<rparr>)\<lparr>cl_pending := []\<rparr>) =
      (bs, (after_call (se_client se))\<lparr>cl_last_appl_error := k2\<rparr>)"
    using assms(9) [of "(?o\<lparr>cl_last_appl_error := k1\<rparr>)\<lparr>cl_pending := []\<rparr>"] c
    by (cases "se_client se") (simp add: after_call_def)
  have "session_request sm provider now (rwr q) se = (Inr (encode_confirmed_response ?i (awr a)),
      \<lparr>se_client = (after_call (se_client se))\<lparr>cl_last_appl_error := k2\<rparr>, se_conn = conn, se_world = w, se_files = fs,
       se_acts = se_acts se @ as @ CaEnd 0 (Inr (encode_confirmed_response ?i (awr a))) # bs\<rparr>)"
    using session_step [OF assms(3) refl request_taken [OF assms(1,4)] s(1) _ assms(6) [OF s(2,3)], of as
        "?o\<lparr>cl_last_appl_error := k1\<rparr>" bs "(after_call (se_client se))\<lparr>cl_last_appl_error := k2\<rparr>"]
      s(2) not_obtain c assms(5,8) pre post
    by (simp add: after_call_def)
  then show ?thesis using sv by (simp add: ask_def)
qed

text \<open>A refusal.\<close>

lemma refused:
  assumes "rok q" "client_ready (se_client se)"
    "length (encode_confirmed_request (call_id (se_client se)) (rwr q)) < usize_limit"
    "\<And>s. tlv_tag s = rtag \<Longrightarrow> rdecode s = Inr (rmeaning q) \<Longrightarrow>
      handle_request sm provider now (call_id (se_client se)) s (se_conn se, se_world se, se_files se) =
        (output_only (encode_error (call_id (se_client se))), conn, w, fs)"
  shows "\<exists>e acts. ask (session_request sm provider now) (rwr q) decode se =
    (Inl e, \<lparr>se_client = after_call (se_client se), se_conn = conn, se_world = w, se_files = fs, se_acts = acts\<rparr>)"
proof -
  let ?i = "call_id (se_client se)"
  obtain s where s: "parse_confirmed_request (encode_confirmed_request ?i (rwr q)) = Inr (?i, s)" "tlv_tag s = rtag"
    "rdecode s = Inr (rmeaning q)" using request.request_decoded [OF assms(1,3)] by blast
  have "session_request sm provider now (rwr q) se = (Inr (encode_error ?i),
      \<lparr>se_client = after_call (se_client se), se_conn = conn, se_world = w, se_files = fs,
       se_acts = se_acts se @ [] @ CaEnd 0 (Inr (encode_error ?i)) # []\<rparr>)"
    using session_step [OF assms(2) refl request_taken [OF assms(1,3)] s(1) _ assms(4) [OF s(2,3)], of "[]"
        "(after_call (se_client se))\<lparr>cl_pending := [(?i, 0)]\<rparr>" "[]" "after_call (se_client se)"]
      s(2) not_obtain assms(2) error_bytes_short
    by (simp add: output_only_def client_ready_def after_call_def)
  then show ?thesis using error_kind(2) [of ?i] by (cases "parse_confirmed_response (encode_error ?i)") (auto simp: ask_def)
qed

end

lemmas service_tags_differ = svc_obtain_file_def svc_read_def svc_write_def svc_define_list_def svc_delete_list_def
  svc_get_list_attributes_def svc_get_variable_attributes_def svc_read_journal_def svc_identify_request_def svc_get_name_list_def
  svc_file_directory_def svc_file_open_def svc_file_read_def svc_file_close_def svc_file_delete_def svc_file_rename_def

interpretation define_response: mms_service svc_define_list_response "\<lambda>u. encode_define_response" "\<lambda>t. Inr ()" "\<lambda>u. u" "\<lambda>u. True"
  by standard (auto simp: encode_define_response_def w_put no_writing)

interpretation reading: mms_exchange svc_read "\<lambda>(d, i). read_write_request d i" read_decode_request "\<lambda>n. RtVariables [n]" name_ok2
    svc_read read_encode_response read_decode_response "\<lambda>rs. rs" "list_all access_ok"
  by standard (simp add: service_tags_differ)

interpretation list_reading: mms_exchange svc_read "\<lambda>(d, n). read_write_data_set_request d n" read_decode_request
    "\<lambda>(d, n). RtNamedList d n" name_ok2
    svc_read read_encode_response read_decode_response "\<lambda>rs. rs" "list_all access_ok"
  by standard (simp add: service_tags_differ)

interpretation writing: mms_exchange svc_write "\<lambda>q. write_write_request (fst (fst q)) (snd (fst q)) (snd q)" write_decode_request
    "\<lambda>q. ([fst q], [snd q])" "\<lambda>q. name_ok2 (fst q) \<and> data_ok (snd q)"
    svc_write write_encode_response write_decode_response "\<lambda>rs. rs" "list_all write_ok"
  by standard (simp add: service_tags_differ)

interpretation defining: mms_exchange svc_define_list
    "\<lambda>q. write_define_request (fst (fst q)) (snd (fst q)) (snd q)" decode_define_request "\<lambda>q. q" list_ok
    svc_define_list_response "\<lambda>u. encode_define_response" "\<lambda>t. Inr ()" "\<lambda>u. u" "\<lambda>u. True"
  by standard (simp add: service_tags_differ)

interpretation deleting: mms_exchange svc_delete_list "\<lambda>n. write_delete_request (fst n) (snd n)" decode_delete_request
    "\<lambda>n. [n]" name_ok2
    svc_delete_list encode_delete_response decode_delete_response "\<lambda>r. r" "\<lambda>r. True"
  by standard (simp add: service_tags_differ)

interpretation listing: mms_exchange svc_get_list_attributes "\<lambda>n. write_get_attributes_request (fst n) (snd n)"
    decode_get_attributes_request "\<lambda>n. n" name_ok2
    svc_get_list_attributes "\<lambda>a. encode_get_attributes_response (la_deletable a) (la_members a)" decode_get_attributes_response "\<lambda>a. a"
    "\<lambda>a. list_all name_ok2 (la_members a)"
  by standard (simp add: service_tags_differ)

text \<open>The services, by their tags.\<close>

lemma request_by_tag:
  "tlv_tag s = svc_read \<Longrightarrow> handle_request sm provider now i s (c, w, fs) =
    (let (u, c) = handle_read sm now i s (sw_store w) c in (output_only u, c, w, fs))"
  "tlv_tag s = svc_write \<Longrightarrow> handle_request sm provider now i s (c, w, fs) =
    (let (out, c, w) = handle_write sm now i s (c, w) in (out, c, w, fs))"
  "tlv_tag s = svc_define_list \<Longrightarrow> handle_request sm provider now i s (c, w, fs) =
    (let (u, c) = handle_define_dataset i s c in (output_only u, c, w, fs))"
  "tlv_tag s = svc_delete_list \<Longrightarrow> handle_request sm provider now i s (c, w, fs) =
    (let (u, c) = handle_delete_dataset i s c in (output_only u, c, w, fs))"
  "tlv_tag s = svc_get_list_attributes \<Longrightarrow> handle_request sm provider now i s (c, w, fs) =
    (output_only (handle_get_dataset_attrs i s sm c), c, w, fs)"
  by (simp_all add: handle_request_def file_service_def service_tags_differ Let_def)

section \<open>What is written is read\<close>

text \<open>No unit of this service or its answer is too long.\<close>

definition request_fits :: "writing \<Rightarrow> bool" where
  "request_fits service \<longleftrightarrow> (\<forall>i. length (encode_confirmed_request i service) < usize_limit)"

definition response_fits :: "writing \<Rightarrow> bool" where
  "response_fits service \<longleftrightarrow> (\<forall>i. length (encode_confirmed_response i service) < usize_limit)"

text \<open>An item that only holds a value: it is no attribute of a control block, no control object, no setting.\<close>

definition plain_item :: "server_model \<Rightarrow> string \<Rightarrow> string \<Rightarrow> bool" where
  "plain_item sm domain item \<longleftrightarrow> normalize_rcb_item sm domain item = item \<and> sm_contains sm domain item \<and>
     list_all (\<lambda>s. strip_suffix s item = None) [''$RptEna'', ''$GI'', ''$EntryID'', ''$PurgeBuf'', ''$SBOw'', ''$SBO''] \<and>
     \<not> contains_text ''$CO$'' item \<and> classify_sg_write sm domain item = None \<and> find_setting sm domain item = None \<and>
     block_component_names sm domain item = None \<and>
     (case rsplit_once (CHR ''$'') item of Some (base, attr) \<Rightarrow> find_rcb sm domain base = None | None \<Rightarrow> True)"

lemma plain_write:
  assumes "plain_item sm domain item" "may_write (cs_role c) item"
  shows "write_item sm now (domain, item) v (c, w) =
    (WriteSuccess, [], [], c, w\<lparr>sw_shared := apply_value domain item v (sw_shared w)\<rparr>)"
proof -
  have "check_rcb_reservation sm now (cs_conn_id c) domain item v (sw_reservations w) = (None, sw_reservations w)"
    using assms(1) by (auto simp: check_rcb_reservation_def plain_item_def split: option.split)
  then show ?thesis
    using assms by (simp add: write_item_def plain_item_def Let_def write_allowed_def store_write_def)
qed

lemma plain_read:
  assumes "plain_item sm domain item" "may_read r item" "map_of st (domain, item) = Some v"
  shows "read_item sm now r st (domain, item) sels = (AccessSuccess v, sels)"
  using assms by (simp add: read_item_def read_sbo_def plain_item_def item_value_def)

lemma applied_value: "map_of (sh_store (apply_value d i v sh)) k = (if k = (d, i) then Some v else map_of (sh_store sh) k)"
  by (simp add: apply_value_def update_conv')

text \<open>A call with nothing unsolicited around its answer.\<close>

lemma write_call:
  assumes "client_ready (se_client se)" "name_ok2 (domain, item)" "data_ok v" "write_ok r"
    "request_fits (write_write_request domain item v)" "response_fits (write_encode_response [r])"
    "write_item sm now (domain, item) v (se_conn se, se_world se) = (r, [], [], conn, w)"
  shows "\<exists>acts. write_raw (session_request sm provider now) domain item v se =
    (Inr r, \<lparr>se_client = after_call (se_client se), se_conn = conn, se_world = w, se_files = se_files se, se_acts = acts\<rparr>)"
proof -
  have "pop_result [r] = Inr r" by (simp add: pop_result_def)
  moreover have "handle_request sm provider now i s (se_conn se, se_world se, se_files se) =
      (output_only (encode_confirmed_response i (write_encode_response [r])), conn, w, se_files se)"
    if "tlv_tag s = svc_write" "write_decode_request s = Inr ([(domain, item)], [v])" for i s
    using that assms(7) by (simp add: request_by_tag(2) handle_write_def output_only_def)
  ultimately show ?thesis
    using writing.exchanged [of "((domain, item), v)" "[r]" se sm provider now conn w "se_files se" pop_result] assms
    by (simp add: write_raw_def request_fits_def response_fits_def)
qed

lemma read_call:
  assumes "client_ready (se_client se)" "name_ok2 (domain, item)" "access_ok r"
    "request_fits (read_write_request domain item)" "response_fits (read_encode_response [r])"
    "read_item sm now (cs_role (se_conn se)) (sw_store (se_world se)) (domain, item) (cs_selections (se_conn se)) = (r, sels)"
  shows "\<exists>acts. read_raw (session_request sm provider now) domain item se =
    (Inr r, \<lparr>se_client = after_call (se_client se), se_conn = (se_conn se)\<lparr>cs_selections := sels\<rparr>, se_world = se_world se,
      se_files = se_files se, se_acts = acts\<rparr>)"
proof -
  have "pop_result [r] = Inr r" by (simp add: pop_result_def)
  moreover have "handle_request sm provider now i s (se_conn se, se_world se, se_files se) =
      (output_only (encode_confirmed_response i (read_encode_response [r])), (se_conn se)\<lparr>cs_selections := sels\<rparr>, se_world se, se_files se)"
    if "tlv_tag s = svc_read" "read_decode_request s = Inr (RtVariables [(domain, item)])" for i s
    using that assms(6) by (simp add: request_by_tag(1) handle_read_def read_variables_def)
  ultimately show ?thesis
    using reading.exchanged [of "(domain, item)" "[r]" se sm provider now "(se_conn se)\<lparr>cs_selections := sels\<rparr>" "se_world se"
        "se_files se" pop_result] assms
    by (simp add: read_raw_def request_fits_def response_fits_def)
qed


section \<open>Data sets of a client\<close>

lemma read_items_plain:
  assumes "\<forall>m \<in> set ms. plain_item sm (fst m) (snd m) \<and> may_read r (snd m) \<and> map_of st m \<noteq> None"
  shows "read_items sm now r st ms sels = (map (\<lambda>m. AccessSuccess (the (map_of st m))) ms, sels)"
  using assms
proof (induction ms)
  case (Cons m ms)
  then have "read_item sm now r st m sels = (AccessSuccess (the (map_of st m)), sels)"
    using plain_read [of sm "fst m" "snd m" r st "the (map_of st m)" now sels] by auto
  then show ?case using Cons by simp
qed simp

lemma collect_successes: "collect_data (map (\<lambda>m. AccessSuccess (f m)) ms) = Inr (map f ms)"
  by (induction ms) auto

text \<open>The sizes of the units about a data set.\<close>

definition data_set_fits :: "string \<Rightarrow> string \<Rightarrow> variable_name list \<Rightarrow> mms_data list \<Rightarrow> bool" where
  "data_set_fits domain name members vs \<longleftrightarrow>
    request_fits (write_define_request domain name members) \<and> response_fits encode_define_response \<and>
    request_fits (write_get_attributes_request domain name) \<and>
    response_fits (encode_get_attributes_response True members) \<and>
    request_fits (read_write_data_set_request domain name) \<and> response_fits (read_encode_response (map AccessSuccess vs)) \<and>
    request_fits (write_delete_request domain name) \<and> response_fits (encode_delete_response \<lparr>dr_matched = 1, dr_deleted = 1\<rparr>)"

text \<open>C8: A data set that a client defines is its own for as long as it wants: the client gets its members back,
  reads all of their values in order by its name, deletes exactly it, and then it is gone. None of this changes
  what the clients of the server share.\<close>

theorem data_set_lifecycle:
  assumes "client_ready (se_client se)" "may_define_dataset (cs_role (se_conn se))"
    "list_ok ((domain, name), members)" "dataset_members sm domain name = None"
    "\<forall>m \<in> set members. plain_item sm (fst m) (snd m) \<and> may_read (cs_role (se_conn se)) (snd m) \<and>
      map_of (sw_store (se_world se)) m \<noteq> None"
    "vs = map (\<lambda>m. the (map_of (sw_store (se_world se)) m)) members" "list_all data_ok vs"
    "data_set_fits domain name members vs"
  shows "\<exists>se1 se2 se3 se4 se5 e.
    create_data_set (session_request sm provider now) domain name members se = (Inr (), se1) \<and>
    get_data_set_directory (session_request sm provider now) domain name se1 = (Inr \<lparr>la_deletable = True, la_members = members\<rparr>, se2) \<and>
    read_data_set (session_request sm provider now) domain name se2 = (Inr vs, se3) \<and>
    delete_data_set (session_request sm provider now) domain name se3 = (Inr \<lparr>dr_matched = 1, dr_deleted = 1\<rparr>, se4) \<and>
    get_data_set_directory (session_request sm provider now) domain name se4 = (Inl e, se5) \<and>
    se_world se5 = se_world se \<and> cs_datasets (se_conn se5) = (cs_datasets (se_conn se))((domain, name) := None)"
proof -
  note fit = assms(8) [unfolded data_set_fits_def request_fits_def response_fits_def]
  let ?at = "\<lambda>n ds acts. \<lparr>se_client = (after_call ^^ n) (se_client se), se_conn = (se_conn se)\<lparr>cs_datasets := ds\<rparr>,
    se_world = se_world se, se_files = se_files se, se_acts = acts\<rparr>"
  let ?ds = "(cs_datasets (se_conn se))((domain, name) \<mapsto> members)"
  let ?gone = "(cs_datasets (se_conn se))((domain, name) := None)"
  let ?ask = "session_request sm provider now"
  have n: "name_ok2 (domain, name)" "list_all name_ok2 members" using assms(3) by (simp_all add: list_ok_def)
  have ready: "client_ready ((after_call ^^ n) (se_client se))" for n using assms(1) by (induction n) simp_all
  obtain a1 where 1: "create_data_set ?ask domain name members se = (Inr (), ?at 1 ?ds a1)"
    using defining.exchanged_plain [of "((domain, name), members)" se sm provider now "(se_conn se)\<lparr>cs_datasets := ?ds\<rparr>"
        "se_world se" "se_files se"] assms(1-3) fit
    by (auto simp: create_data_set_def request_by_tag(3) handle_define_dataset_def)
  obtain a2 where 2: "get_data_set_directory ?ask domain name (?at 1 ?ds a1) = (Inr \<lparr>la_deletable = True, la_members = members\<rparr>, ?at 2 ?ds a2)"
    using listing.exchanged_plain [of "(domain, name)" "\<lparr>la_deletable = True, la_members = members\<rparr>" "?at 1 ?ds a1" sm provider now
        "(se_conn se)\<lparr>cs_datasets := ?ds\<rparr>" "se_world se" "se_files se"] n fit assms(1)
    by (auto simp: get_data_set_directory_def request_by_tag(5) handle_get_dataset_attrs_def numeral_2_eq_2)
  have rs: "read_items sm now (cs_role (se_conn se)) (sw_store (se_world se)) members (cs_selections (se_conn se)) =
      (map AccessSuccess vs, cs_selections (se_conn se))"
    using read_items_plain [OF assms(5)] assms(6) by (simp add: comp_def)
  obtain a3 where 3: "read_data_set ?ask domain name (?at 2 ?ds a2) = (Inr vs, ?at 3 ?ds a3)"
    using list_reading.exchanged [of "(domain, name)" "map AccessSuccess vs" "?at 2 ?ds a2" sm provider now
        "(se_conn se)\<lparr>cs_datasets := ?ds\<rparr>" "se_world se" "se_files se" collect_data] n fit assms(7) ready [of 2]
      collect_successes [of "\<lambda>v. v" vs] rs
    by (auto simp: read_data_set_def request_by_tag(1) handle_read_def read_variables_def list_all_iff numeral_3_eq_3 numeral_2_eq_2)
  obtain a4 where 4: "delete_data_set ?ask domain name (?at 3 ?ds a3) = (Inr \<lparr>dr_matched = 1, dr_deleted = 1\<rparr>, ?at 4 ?gone a4)"
    using deleting.exchanged_plain [where q = "(domain, name)" and a = "\<lparr>dr_matched = 1, dr_deleted = 1\<rparr>" and se = "?at 3 ?ds a3"
        and sm = sm and provider = provider and now = now and conn = "(se_conn se)\<lparr>cs_datasets := ?gone\<rparr>" and w = "se_world se"
        and fs = "se_files se"] n fit assms(2) ready [of 3]
    by (auto simp: delete_data_set_def request_by_tag(4) handle_delete_dataset_def eval_nat_numeral)
  obtain e a5 where 5: "get_data_set_directory ?ask domain name (?at 4 ?gone a4) = (Inl e, ?at 5 ?gone a5)"
    using listing.refused [where q = "(domain, name)" and se = "?at 4 ?gone a4" and sm = sm and provider = provider and now = now
        and conn = "(se_conn se)\<lparr>cs_datasets := ?gone\<rparr>" and w = "se_world se" and fs = "se_files se"
        and decode = decode_get_attributes_response] n fit assms(4) ready [of 4]
    by (auto simp: get_data_set_directory_def request_by_tag(5) handle_get_dataset_attrs_def eval_nat_numeral)
  show ?thesis
    by (intro exI conjI, rule 1, rule 2, rule 3, rule 4, rule 5) simp_all
qed

section \<open>Commands of a client\<close>

lemma lae_unit_read:
  assumes "data_ok (lae_data (last_appl_error_of domain item v cause))" "length (last_appl_error_for domain item v cause) < usize_limit"
  shows "reader_unit (last_appl_error_for domain item v cause) c =
    ([], c\<lparr>cl_last_appl_error := Some (last_appl_error_of domain item v cause)\<rparr>)"
proof -
  obtain svc where "parse_unconfirmed (last_appl_error_for domain item v cause) = Inr svc"
    "parse_last_appl_error svc = Some (last_appl_error_of domain item v cause)"
    using parse_own_appl_error [OF assms(1)] assms(2) by (auto simp: last_appl_error_for_def)
  then show ?thesis
    using unsolicited_kind [OF unsolicited_units(2) assms(2)] by (simp add: reader_unit_def on_unsolicited_def)
qed

definition received_termination :: "string \<Rightarrow> string \<Rightarrow> bool \<Rightarrow> u64 option \<Rightarrow> command_termination" where
  "received_termination domain item positive cause =
    \<lparr>ct_domain = domain, ct_object_item = item, ct_positive = positive, ct_add_cause = cause\<rparr>"

lemma termination_unit_read:
  assumes "name_ok2 (domain, item)" "ends_with ''$Oper'' item"
    "length (encode_command_termination domain item v positive code) < usize_limit"
  shows "reader_unit (encode_command_termination domain item v positive code) c =
    (case cl_last_appl_error c of
       Some e \<Rightarrow> if \<not> positive \<and> ends_with item (lae_cntrl_obj e)
         then ([CaTermination (received_termination domain item positive (Some (lae_add_cause e)))], c\<lparr>cl_last_appl_error := None\<rparr>)
         else ([CaTermination (received_termination domain item positive None)], c)
     | None \<Rightarrow> ([CaTermination (received_termination domain item positive None)], c))"
proof -
  obtain svc where "parse_unconfirmed (encode_command_termination domain item v positive code) = Inr svc"
    "parse_last_appl_error svc = None"
    "parse_command_termination svc = Some \<lparr>ct_domain = domain, ct_object_item = item, ct_positive = positive, ct_add_cause = None\<rparr>"
    using parse_own_termination [OF assms(1) _ assms(3)] assms(2) by blast
  then show ?thesis
    using unsolicited_kind [OF unsolicited_units(3) assms(3)]
    by (cases c) (auto simp: reader_unit_def on_unsolicited_def received_termination_def split: option.split)
qed

lemma operate_cases:
  assumes "operate sm now domain item v sels sh = (r, us, sels', sh')"
  obtains (missing) "r = WriteFailure ObjectNonExistent" "us = []" "sh' = sh"
  | (refused) cause where "r = WriteFailure ObjectAccessDenied" "us = [last_appl_error_for domain item v cause]" "sh' = sh"
  | (accepted) "r = WriteSuccess" "us = []" "ctl_model_of (sh_store sh) domain (trim_end_text ''$Oper'' item) \<notin> {3, 4}"
  | (blocked) cause code where "r = WriteSuccess" "sh' = sh" "ctl_model_of (sh_store sh) domain (trim_end_text ''$Oper'' item) \<in> {3, 4}"
      "snd (oper_parts v) \<and> interlocked (sh_store sh) domain (trim_end_text ''$Oper'' item)"
      "us = [last_appl_error_for domain item v cause, encode_command_termination domain item v False code]"
  | (terminated) code where "r = WriteSuccess" "us = [encode_command_termination domain item v True code]"
      "ctl_model_of (sh_store sh) domain (trim_end_text ''$Oper'' item) \<in> {3, 4}"
      "\<not> (snd (oper_parts v) \<and> interlocked (sh_store sh) domain (trim_end_text ''$Oper'' item))"
  using assms unfolding operate_def
  by (auto simp: Let_def split: if_splits option.splits prod.splits)

text \<open>A name that a command is written to.\<close>

definition command_name :: "server_model \<Rightarrow> string \<Rightarrow> string \<Rightarrow> bool" where
  "command_name sm domain item \<longleftrightarrow> normalize_rcb_item sm domain item = item \<and> contains_text ''$CO$'' item \<and> ends_with ''$Oper'' item \<and>
     (case rsplit_once (CHR ''$'') item of Some (base, attr) \<Rightarrow> find_rcb sm domain base = None | None \<Rightarrow> True)"

lemma oper_suffix: "ends_with ''$Oper'' item \<Longrightarrow> s \<in> {''$RptEna'', ''$GI'', ''$EntryID'', ''$PurgeBuf''} \<Longrightarrow> strip_suffix s item = None"
proof -
  assume "ends_with ''$Oper'' item" "s \<in> {''$RptEna'', ''$GI'', ''$EntryID'', ''$PurgeBuf''}"
  then obtain z where i: "item = z @ ''$Oper''" unfolding ends_with_iff by blast
  have "\<not> ends_with s item"
  proof
    assume "ends_with s item"
    then obtain y where "item = y @ s" unfolding ends_with_iff by blast
    then have "last (z @ ''$Oper'') = last s" using i \<open>s \<in> _\<close> by auto
    then show False using \<open>s \<in> _\<close> by (elim insertE) simp_all
  qed
  then show "strip_suffix s item = None" by (simp add: strip_suffix_def)
qed

lemma command_written:
  assumes "command_name sm domain item" "may_write (cs_role c) item"
    "operate sm now domain item v (cs_selections c) (sw_shared w) = (r, us, sels', sh')"
  shows "write_item sm now (domain, item) v (c, w) =
    (r, (if r = WriteSuccess then [] else us), (if r = WriteSuccess then us else []),
     c\<lparr>cs_selections := sels'\<rparr>, w\<lparr>sw_shared := sh'\<rparr>)"
proof -
  have "check_rcb_reservation sm now (cs_conn_id c) domain item v (sw_reservations w) = (None, sw_reservations w)"
    using assms(1) by (auto simp: check_rcb_reservation_def command_name_def split: option.splits prod.splits)
  moreover have "ends_with ''$Oper'' item" using assms(1) by (simp add: command_name_def)
  ultimately show ?thesis
    using assms oper_suffix [of item]
    by (cases r) (simp_all add: write_item_def command_name_def Let_def write_allowed_def)
qed

text \<open>The units that a command may bring, and the sizes of its request and answers.\<close>

definition command_fits :: "string \<Rightarrow> string \<Rightarrow> mms_data \<Rightarrow> bool" where
  "command_fits domain item v \<longleftrightarrow> request_fits (write_write_request domain item v) \<and>
     (\<forall>r \<in> {WriteSuccess, WriteFailure ObjectNonExistent, WriteFailure ObjectAccessDenied}. response_fits (write_encode_response [r])) \<and>
     (\<forall>cause. data_ok (lae_data (last_appl_error_of domain item v cause)) \<and>
        length (last_appl_error_for domain item v cause) < usize_limit) \<and>
     (\<forall>positive code. length (encode_command_termination domain item v positive code) < usize_limit)"

lemma command_call:
  assumes "client_ready (se_client se)" "cl_last_appl_error (se_client se) = None" "name_ok2 (domain, item)" "data_ok v"
    "command_name sm domain item" "may_write (cs_role (se_conn se)) item" "command_fits domain item v"
    "operate sm now domain item v (cs_selections (se_conn se)) (sw_shared (se_world se)) = (r, us, sels', sh')"
    "r \<in> {WriteSuccess, WriteFailure ObjectNonExistent, WriteFailure ObjectAccessDenied}"
    "\<And>c. cl_reading c \<Longrightarrow> cl_last_appl_error c = None \<Longrightarrow>
      reader_units (if r = WriteSuccess then [] else us) c = ([], c\<lparr>cl_last_appl_error := k1\<rparr>)"
    "\<And>c. cl_reading c \<Longrightarrow> cl_last_appl_error c = k1 \<Longrightarrow>
      reader_units (if r = WriteSuccess then us else []) c = (bs, c\<lparr>cl_last_appl_error := k2\<rparr>)"
  shows "\<exists>u. write_raw (session_request sm provider now) domain item v se =
    (Inr r, \<lparr>se_client = (after_call (se_client se))\<lparr>cl_last_appl_error := k2\<rparr>, se_conn = (se_conn se)\<lparr>cs_selections := sels'\<rparr>,
      se_world = (se_world se)\<lparr>sw_shared := sh'\<rparr>, se_files = se_files se, se_acts = se_acts se @ CaEnd 0 (Inr u) # bs\<rparr>)"
proof -
  have p: "pop_result [r] = Inr r" by (simp add: pop_result_def)
  have h: "handle_request sm provider now i s (se_conn se, se_world se, se_files se) =
      (\<lparr>so_pre = (if r = WriteSuccess then [] else us), so_resp = encode_confirmed_response i (write_encode_response [r]),
        so_post = (if r = WriteSuccess then us else [])\<rparr>, (se_conn se)\<lparr>cs_selections := sels'\<rparr>,
       (se_world se)\<lparr>sw_shared := sh'\<rparr>, se_files se)"
    if "tlv_tag s = svc_write" "write_decode_request s = Inr ([(domain, item)], [v])" for i s
    using that command_written [OF assms(5,6,8)] by (simp add: request_by_tag(2) handle_write_def)
  have ok: "list_all write_ok [r]" using assms(9) by (auto simp: error_ok_def dae_from_code_def)
  let ?u = "encode_confirmed_response (call_id (se_client se)) (write_encode_response [r])"
  have len: "length (encode_confirmed_request (call_id (se_client se)) (write_write_request domain item v)) < usize_limit"
    "length ?u < usize_limit"
    using assms(7,9) by (auto simp: command_fits_def request_fits_def response_fits_def)
  have "ask (session_request sm provider now) (write_write_request domain item v)
      (\<lambda>sv. bindE (write_decode_response sv) pop_result) se =
    (pop_result [r], \<lparr>se_client = (after_call (se_client se))\<lparr>cl_last_appl_error := k2\<rparr>, se_conn = (se_conn se)\<lparr>cs_selections := sels'\<rparr>,
      se_world = (se_world se)\<lparr>sw_shared := sh'\<rparr>, se_files = se_files se, se_acts = se_acts se @ [] @ CaEnd 0 (Inr ?u) # bs\<rparr>)"
  proof (rule writing.exchanged_among [where q = "((domain, item), v)" and a = "[r]", unfolded fst_conv snd_conv, OF _ ok assms(1) len])
    show "name_ok2 (domain, item) \<and> data_ok v" using assms(3,4) by simp
    show "\<And>c. cl_reading c \<Longrightarrow> cl_last_appl_error c = cl_last_appl_error (se_client se) \<Longrightarrow>
        reader_units (if r = WriteSuccess then [] else us) c = ([], c\<lparr>cl_last_appl_error := k1\<rparr>)"
      using assms(2,10) by simp
  qed (use h assms(11) in simp_all)
  then show ?thesis by (simp add: write_raw_def p)
qed

text \<open>The result of each outcome at the server.\<close>

lemma refused_command:
  assumes "client_ready (se_client se)" "cl_last_appl_error (se_client se) = None" "name_ok2 (domain, item)" "data_ok v"
    "command_name sm domain item" "may_write (cs_role (se_conn se)) item" "command_fits domain item v"
    "control_item obj ''Oper'' = Inr (domain, item)"
    "operate sm now domain item v (cs_selections (se_conn se)) (sw_shared (se_world se)) = (r, us, sels', sh')" "r \<noteq> WriteSuccess"
  shows "\<exists>e se'. write_control (session_request sm provider now) obj ''Oper'' v se = (Inl e, se') \<and> sw_shared (se_world se') = sh' \<and>
    (e = MeDataAccess ObjectNonExistent \<or> (\<exists>cause. e = MeControlTerminated cause))"
  using assms(9)
proof (cases rule: operate_cases)
  case missing
  then show ?thesis
    using command_call [OF assms(1-7,9), of None "[]" None provider] assms(2,8)
    by (fastforce simp: write_control_def kept_failure_def map_control_failure_def)
next
  case (refused cause)
  let ?k = "Some (last_appl_error_of domain item v cause)"
  have l: "data_ok (lae_data (last_appl_error_of domain item v cause))" "length (last_appl_error_for domain item v cause) < usize_limit"
    using assms(7) by (simp_all add: command_fits_def)
  obtain u where w: "write_raw (session_request sm provider now) domain item v se =
    (Inr r, \<lparr>se_client = (after_call (se_client se))\<lparr>cl_last_appl_error := ?k\<rparr>, se_conn = (se_conn se)\<lparr>cs_selections := sels'\<rparr>,
      se_world = (se_world se)\<lparr>sw_shared := sh'\<rparr>, se_files = se_files se, se_acts = se_acts se @ CaEnd 0 (Inr u) # []\<rparr>)"
    using command_call [OF assms(1-7,9), of ?k "[]" ?k provider] refused lae_unit_read [OF l] by auto
  then show ?thesis
    using assms(8) refused(1) object_suffix [of item domain v cause]
    by (simp add: write_control_def kept_failure_def map_control_failure_def)
qed (use assms(10) in simp_all)

text \<open>C5: A client of a control object of normal security is told the truth: the call of a command succeeds exactly
  when the server has carried it out, and otherwise nothing has changed and the call ends with the cause of the
  refusal or the error that there is no such object.\<close>

theorem command_told_truly:
  assumes "client_ready (se_client se)" "cl_last_appl_error (se_client se) = None"
    "name_part ln" "name_part d" "\<not> starts_with ''Oper'' d"
    "control_item obj ''Oper'' = Inr (domain, do_item ln ''CO'' d ''Oper'')"
    "v = build_oper ctl_val params t" "data_ok v"
    "name_ok2 (domain, do_item ln ''CO'' d ''Oper'')" "command_name sm domain (do_item ln ''CO'' d ''Oper'')"
    "may_write (cs_role (se_conn se)) (do_item ln ''CO'' d ''Oper'')" "command_fits domain (do_item ln ''CO'' d ''Oper'') v"
    "st = sw_store (se_world se)" "co_kind st domain ln d \<notin> {3, 4}"
    "executed \<longleftrightarrow> co_accepts sm now (cs_selections (se_conn se)) st domain ln d \<and> \<not> co_locked st domain ln d v"
  shows "\<exists>res se'. operate_with (session_request sm provider now) t obj ctl_val params se = (res, se') \<and>
    (res = Inr () \<longleftrightarrow> executed) \<and>
    sw_shared (se_world se') = (if executed
      then apply_value domain (do_item ln ''ST'' d ''stVal'') ctl_val (sw_shared (se_world se)) else sw_shared (se_world se)) \<and>
    (\<not> executed \<longrightarrow> (\<exists>cause. res = Inl (MeControlTerminated cause)) \<or> res = Inl (MeDataAccess ObjectNonExistent))"
proof -
  obtain r us sels' sh' where op: "operate sm now domain (do_item ln ''CO'' d ''Oper'') v (cs_selections (se_conn se))
      (sw_shared (se_world se)) = (r, us, sels', sh')" by (metis prod_cases4)
  have p: "fst (oper_parts v) = ctl_val" by (simp add: assms(7) build_oper_def oper_parts_def)
  have eff: "sh' = (if executed then apply_value domain (do_item ln ''ST'' d ''stVal'') ctl_val (sw_shared (se_world se))
      else sw_shared (se_world se))" "r = WriteSuccess \<longleftrightarrow> executed"
    using command_effect [OF assms(3-5) op] assms(13-15) p by (auto simp: sw_store_def)
  have "d \<noteq> ''Oper''" using assms(5) by (auto simp: starts_with_def)
  then have b: "trim_end_text ''$Oper'' (do_item ln ''CO'' d ''Oper'') = dollar ln (dollar ''CO'' d)"
    by (rule co_base_of_oper [OF assms(3,4)])
  have kind: "ctl_model_of (sh_store (sw_shared (se_world se))) domain (trim_end_text ''$Oper'' (do_item ln ''CO'' d ''Oper'')) \<in> {3, 4}
      \<longleftrightarrow> co_kind st domain ln d \<in> {3, 4}"
    using kind_cases(3,4) [OF ctl_model_kind [OF assms(3,4)], of "sh_store (sw_shared (se_world se))" domain]
    by (auto simp: b assms(13) sw_store_def)
  show ?thesis
  proof (cases executed)
    case False
    then show ?thesis
      using refused_command [OF assms(1,2,9,8,10-12,6) op, of provider] eff assms(7) by (auto simp: operate_with_def)
  next
    case True
    then have s: "r = WriteSuccess" using eff by simp
    have us: "us = []"
      using op
    proof (cases rule: operate_cases)
      case (blocked cause code)
      then show ?thesis using kind assms(14) by simp
    next
      case (terminated code)
      then show ?thesis using kind assms(14) by simp
    qed (use s in simp_all)
    then show ?thesis
      using command_call [OF assms(1,2,9,8,10-12) op, of None "[]" None provider] assms(2,6,7) s eff True
      by (fastforce simp: operate_with_def write_control_def kept_failure_def map_control_failure_def)
  qed
qed

text \<open>C6: A client of a control object of enhanced security is told the truth too, by the termination that follows the
  answer: its call succeeds exactly when the server has carried the command out; if the server only accepted
  it, the call ends with the cause of the negative termination, and nothing has changed.\<close>

theorem enhanced_command_told_truly:
  assumes "client_ready (se_client se)" "cl_last_appl_error (se_client se) = None"
    "name_part ln" "name_part d" "\<not> starts_with ''Oper'' d"
    "control_item obj ''Oper'' = Inr (domain, do_item ln ''CO'' d ''Oper'')"
    "v = build_oper ctl_val params t" "data_ok v"
    "name_ok2 (domain, do_item ln ''CO'' d ''Oper'')" "command_name sm domain (do_item ln ''CO'' d ''Oper'')"
    "may_write (cs_role (se_conn se)) (do_item ln ''CO'' d ''Oper'')" "command_fits domain (do_item ln ''CO'' d ''Oper'') v"
    "st = sw_store (se_world se)" "co_kind st domain ln d \<in> {3, 4}"
    "executed \<longleftrightarrow> co_accepts sm now (cs_selections (se_conn se)) st domain ln d \<and> \<not> co_locked st domain ln d v"
  shows "\<exists>res se'. operate_enhanced (session_request sm provider now) t obj ctl_val params later se = (res, se') \<and>
    (res = Inr () \<longleftrightarrow> executed) \<and>
    sw_shared (se_world se') = (if executed
      then apply_value domain (do_item ln ''ST'' d ''stVal'') ctl_val (sw_shared (se_world se)) else sw_shared (se_world se)) \<and>
    (\<not> executed \<longrightarrow> (\<exists>cause. res = Inl (MeControlTerminated cause)) \<or> res = Inl (MeDataAccess ObjectNonExistent))"
proof -
  let ?item = "do_item ln ''CO'' d ''Oper''"
  obtain r us sels' sh' where op: "operate sm now domain ?item v (cs_selections (se_conn se))
      (sw_shared (se_world se)) = (r, us, sels', sh')" by (metis prod_cases4)
  have p: "fst (oper_parts v) = ctl_val" by (simp add: assms(7) build_oper_def oper_parts_def)
  have eff: "sh' = (if executed then apply_value domain (do_item ln ''ST'' d ''stVal'') ctl_val (sw_shared (se_world se))
      else sw_shared (se_world se))" "executed \<Longrightarrow> r = WriteSuccess"
    using command_effect [OF assms(3-5) op] assms(13-15) p by (auto simp: sw_store_def)
  have "d \<noteq> ''Oper''" using assms(5) by (auto simp: starts_with_def)
  then have b: "trim_end_text ''$Oper'' ?item = dollar ln (dollar ''CO'' d)" by (rule co_base_of_oper [OF assms(3,4)])
  have kind: "ctl_model_of (sh_store (sw_shared (se_world se))) domain (trim_end_text ''$Oper'' ?item) \<in> {3, 4}"
    using kind_cases(3,4) [OF ctl_model_kind [OF assms(3,4)], of "sh_store (sw_shared (se_world se))" domain] assms(13,14)
    by (auto simp: b sw_store_def)
  have lock: "snd (oper_parts v) \<and> interlocked (sh_store (sw_shared (se_world se))) domain (trim_end_text ''$Oper'' ?item)
      \<longleftrightarrow> co_locked st domain ln d v"
    using interlocked_co [OF assms(3,4)] by (simp add: b assms(13) sw_store_def)
  have succ: "r = WriteSuccess \<Longrightarrow> co_accepts sm now (cs_selections (se_conn se)) st domain ln d"
    using command_effect [OF assms(3-5) op] assms(13) by (simp add: sw_store_def)
  have ends: "ends_with ''$Oper'' ?item" using assms(10) by (simp add: command_name_def)
  have fit: "data_ok (lae_data (last_appl_error_of domain ?item v cause))"
    "length (last_appl_error_for domain ?item v cause) < usize_limit"
    "length (encode_command_termination domain ?item v positive code) < usize_limit" for cause positive code
    using assms(12) by (simp_all add: command_fits_def)
  note told = termination_unit_read [OF assms(9) ends fit(3)]
  note call = command_call [OF assms(1,2,9,8,10-12) op, where provider = provider]
  have wait: "operate_enhanced (session_request sm provider now) t obj ctl_val params later se =
      (if positive then Inr () else Inl (MeControlTerminated (unwrap_or 0 cause)), se')"
    if "write_raw (session_request sm provider now) domain ?item v se = (Inr WriteSuccess, se')"
      "se_acts se' = se_acts se @ CaEnd 0 (Inr u) # [CaTermination (received_termination domain ?item positive cause)]"
      "cl_last_appl_error (se_client se') = None" for se' u positive cause
    using that assms(6) unfolding operate_enhanced_def assms(7)
    by (cases se'; cases "se_client se'")
      (simp add: write_control_def kept_failure_def map_control_failure_def map_filter_simps received_termination_def)
  show ?thesis
    using op
  proof (cases rule: operate_cases)
    case missing
    then show ?thesis
      using refused_command [OF assms(1,2,9,8,10-12,6) op, of provider] eff assms(6,7) by (auto simp: operate_enhanced_def)
  next
    case (refused cause)
    then show ?thesis
      using refused_command [OF assms(1,2,9,8,10-12,6) op, of provider] eff assms(6,7) by (auto simp: operate_enhanced_def)
  next
    case accepted
    then show ?thesis using kind by simp
  next
    case (blocked cause code)
    let ?k = "Some (last_appl_error_of domain ?item v cause)"
    have "reader_units us c = ([CaTermination (received_termination domain ?item False (Some cause))], c\<lparr>cl_last_appl_error := None\<rparr>)"
      if "cl_reading c" "cl_last_appl_error c = None" for c
      using that object_suffix [of ?item domain v cause] by (simp add: blocked lae_unit_read [OF fit(1,2)] told)
    then obtain u where w: "write_raw (session_request sm provider now) domain ?item v se =
      (Inr r, \<lparr>se_client = (after_call (se_client se))\<lparr>cl_last_appl_error := None\<rparr>, se_conn = (se_conn se)\<lparr>cs_selections := sels'\<rparr>,
        se_world = (se_world se)\<lparr>sw_shared := sh'\<rparr>, se_files = se_files se,
        se_acts = se_acts se @ CaEnd 0 (Inr u) # [CaTermination (received_termination domain ?item False (Some cause))]\<rparr>)"
      using call [of None "[CaTermination (received_termination domain ?item False (Some cause))]" None] blocked(1) by auto
    have "\<not> executed" using lock blocked(4) assms(15) by simp
    then show ?thesis using wait [OF w [unfolded blocked(1)]] eff by auto
  next
    case (terminated code)
    have "reader_units us c = ([CaTermination (received_termination domain ?item True None)], c\<lparr>cl_last_appl_error := None\<rparr>)"
      if "cl_reading c" "cl_last_appl_error c = None" for c
      using that by (cases c) (simp add: terminated told)
    then obtain u where w: "write_raw (session_request sm provider now) domain ?item v se =
      (Inr r, \<lparr>se_client = (after_call (se_client se))\<lparr>cl_last_appl_error := None\<rparr>, se_conn = (se_conn se)\<lparr>cs_selections := sels'\<rparr>,
        se_world = (se_world se)\<lparr>sw_shared := sh'\<rparr>, se_files = se_files se,
        se_acts = se_acts se @ CaEnd 0 (Inr u) # [CaTermination (received_termination domain ?item True None)]\<rparr>)"
      using call [of None "[CaTermination (received_termination domain ?item True None)]" None] terminated(1) by auto
    have "executed" using lock terminated(4) succ assms(15) terminated(1) by simp
    then show ?thesis using wait [OF w [unfolded terminated(1)]] eff by auto
  qed
qed

section \<open>Sizes\<close>

lemma fits_put:
  assumes "length b < 2 ^ 60"
  shows "request_fits (put b)" "response_fits (put b)"
proof -
  have "length b + 60 < usize_limit" using assms by (simp add: usize_limit_def)
  then show "request_fits (put b)" "response_fits (put b)"
    using le_less_trans [OF encoded_unit_bound(2)] le_less_trans [OF encoded_unit_bound(1)]
    by (simp_all add: request_fits_def response_fits_def)
qed

lemma one_variable_bound: "length (one_variable (domain, item)) \<le> length domain + length item + 75"
  using tlv_bytes_bound [of u_sequence "variable_content (domain, item)"]
    tlv_bytes_bound [of "tag_context 0 True" "object_name_bytes (domain, item)"]
    tlv_bytes_bound [of "tag_context 1 True" "names_bytes (domain, item)"]
    tlv_bytes_bound [of u_visible_string "as_bytes domain"] tlv_bytes_bound [of u_visible_string "as_bytes item"]
  by (simp add: one_variable_def variable_content_def object_name_bytes_def names_bytes_def)

lemma object_name_bound: "length (object_name_bytes (domain, item)) \<le> length domain + length item + 45"
  using tlv_bytes_bound [of "tag_context 1 True" "names_bytes (domain, item)"]
    tlv_bytes_bound [of u_visible_string "as_bytes domain"] tlv_bytes_bound [of u_visible_string "as_bytes item"]
  by (simp add: object_name_bytes_def names_bytes_def)

lemma write_fits: "length domain + length item + length (mms_bytes v) < 2 ^ 50 \<Longrightarrow> request_fits (write_write_request domain item v)"
proof -
  let ?c = "tlv_bytes (tag_context 0 True) (one_variable (domain, item)) @ tlv_bytes (tag_context 0 True) (mms_bytes v)"
  assume "length domain + length item + length (mms_bytes v) < 2 ^ 50"
  then have "length (tlv_bytes svc_write ?c) < 2 ^ 60"
    using tlv_bytes_bound [of svc_write ?c] tlv_bytes_bound [of "tag_context 0 True" "one_variable (domain, item)"]
      tlv_bytes_bound [of "tag_context 0 True" "mms_bytes v"] one_variable_bound [of domain item] by simp
  moreover have "write_write_request domain item v = put (tlv_bytes svc_write ?c)"
    by (simp add: write_write_request_def one_variable_def variable_content_def object_name_bytes_def names_bytes_def
        w_put u_sequence_def mms_encode_put case_prod_unfold)
  ultimately show ?thesis by (simp add: fits_put)
qed

lemma result_fits: "response_fits (write_encode_response [r])"
proof -
  have "length (tlv_bytes (fst (write_field r)) (snd (write_field r))) < 2 ^ 50"
  proof (cases r)
    case (WriteFailure e)
    then show ?thesis
      using tlv_bytes_bound [of "fst (write_field r)" "snd (write_field r)"] length_encode_integer(2) [of "dae_to_code e"] by simp
  qed (use tlv_bytes_bound [of "fst (write_field r)" "snd (write_field r)"] in simp)
  then show ?thesis
    using tlv_bytes_bound [of svc_write "tlv_bytes (fst (write_field r)) (snd (write_field r))"]
    by (simp add: write_encode_response_def write_result_put w_put fits_put)
qed

lemma read_fits: "length domain + length item < 2 ^ 50 \<Longrightarrow> request_fits (read_write_request domain item)"
  using one_variable_bound [of domain item] tlv_bytes_bound [of "tag_context 0 True" "one_variable (domain, item)"]
    tlv_bytes_bound [of "tag_context 1 True" "tlv_bytes (tag_context 0 True) (one_variable (domain, item))"]
    tlv_bytes_bound [of svc_read "tlv_bytes (tag_context 1 True) (tlv_bytes (tag_context 0 True) (one_variable (domain, item)))"]
  by (simp add: read_request_put fits_put)

lemma value_fits: "length (mms_bytes v) < 2 ^ 50 \<Longrightarrow> response_fits (read_encode_response [AccessSuccess v])"
  using tlv_bytes_bound [of "tag_context 1 True" "mms_bytes v"]
    tlv_bytes_bound [of svc_read "tlv_bytes (tag_context 1 True) (mms_bytes v)"]
  by (simp add: read_encode_response_def w_put mms_encode_put fits_put)

lemma command_fits_small:
  assumes "length domain + length item + length (mms_bytes v) < 2 ^ 50" "\<And>cause. data_ok (lae_data (last_appl_error_of domain item v cause))"
    "\<And>cause. length (lae_or_ident (last_appl_error_of domain item v cause)) < 2 ^ 50"
  shows "command_fits domain item v"
proof -
  have o: "lae_cntrl_obj (last_appl_error_of domain item v cause) = domain @ ''/'' @ item" for cause
    by (auto simp: last_appl_error_of_def Let_def split: prod.split)
  have "length (last_appl_error_for domain item v cause) < usize_limit" for cause
    using appl_error_bound [of "last_appl_error_of domain item v cause"] assms(1) assms(3) [of cause]
    by (simp add: last_appl_error_for_def o usize_limit_def)
  moreover have "length (encode_command_termination domain item v positive code) < usize_limit" for positive code
    using termination_bound [of domain item v positive code] assms(1) length_encode_integer(2) [of code]
      tlv_bytes_bound [of "tag_context 0 False" "encode_integer code"] by (auto simp: usize_limit_def split: if_splits)
  ultimately show ?thesis using assms(2) write_fits [OF assms(1)] result_fits by (simp add: command_fits_def)
qed

section \<open>A client of the station\<close>

definition demo_session :: "role \<Rightarrow> selections \<Rightarrow> store \<Rightarrow> unit session" where
  "demo_session r sels st = \<lparr>se_client = client_new, se_conn = (new_conn r 1)\<lparr>cs_selections := sels\<rparr>,
     se_world = \<lparr>sw_shared = \<lparr>sh_store = st, sh_changes = []\<rparr>, sw_buffers = Map.empty, sw_reservations = Map.empty\<rparr>,
     se_files = (), se_acts = []\<rparr>"

lemma demo_session_simps [simp]:
  "client_ready (se_client (demo_session r sels st))" "cl_last_appl_error (se_client (demo_session r sels st)) = None"
  "cs_role (se_conn (demo_session r sels st)) = r" "cs_selections (se_conn (demo_session r sels st)) = sels"
  "sw_store (se_world (demo_session r sels st)) = st" "sw_shared (se_world (demo_session r sels st)) = \<lparr>sh_store = st, sh_changes = []\<rparr>"
  by (simp_all add: demo_session_def client_ready_def client_new_def new_conn_def sw_store_def)

lemma demo_plain: "plain_item (from_model demo_station demo_ident) ''IED1LD0'' ''LLN0$ST$Mod$stVal''"
  by code_simp

lemma demo_command: "command_name (from_model demo_station demo_ident) ''IED1LD0'' ''LLN0$CO$Mod$Oper''"
  by code_simp

lemma demo_roles: "may_write Engineer ''LLN0$ST$Mod$stVal''" "may_read Viewer ''LLN0$ST$Mod$stVal''"
  "may_write Operator ''LLN0$CO$Mod$Oper''" "may_define_dataset Operator" "may_read Operator ''LLN0$ST$Mod$stVal''"
  by code_simp+

lemma demo_name_ok: "name_ok2 (''IED1LD0'', ''LLN0$ST$Mod$stVal'')" "name_ok2 (''IED1LD0'', ''LLN0$CO$Mod$Oper'')" "name_ok2 (''IED1LD0'', ''ds'')"
  by (simp_all add: name_ok2_def str_ok_def as_bytes_def byte_of_char_def evals utf8_next.simps)

lemma small_value: "data_ok (MInt n)" "length (mms_bytes (MInt n)) < 2 ^ 40"
  using mms_bytes_bound [of "MInt n"] length_encode_integer(2) [of n] by (simp_all add: data_ok_def max_nesting_depth_def)


lemma members_bytes_one: "members_bytes [n] = one_variable n"
  by (simp add: members_bytes_def)

lemma data_set_fits_one:
  assumes "length domain + length name + length (fst m) + length (snd m) < 2 ^ 40" "length (mms_bytes v) < 2 ^ 40"
  shows "data_set_fits domain name [m] [v]"
proof -
  note tb = tlv_bytes_bound
  have o: "length (object_name_bytes (domain, name)) < 2 ^ 41" using object_name_bound [of domain name] assms(1) by simp
  have v: "length (one_variable m) < 2 ^ 41" using one_variable_bound [of "fst m" "snd m"] assms(1) by simp
  have "write_define_request domain name [m] = put (tlv_bytes svc_define_list
      (object_name_bytes (domain, name) @ tlv_bytes (tag_context 0 True) (one_variable m)))"
    by (simp add: write_define_request_def write_object_name_put write_members_put members_bytes_one w_put)
  then have 1: "request_fits (write_define_request domain name [m])"
    using tb [of svc_define_list "object_name_bytes (domain, name) @ tlv_bytes (tag_context 0 True) (one_variable m)"]
      tb [of "tag_context 0 True" "one_variable m"] o v by (simp add: fits_put)
  have 2: "response_fits encode_define_response"
    using tb [of svc_define_list_response "[]"] by (simp add: encode_define_response_def no_writing w_put fits_put)
  have 3: "request_fits (write_get_attributes_request domain name)"
    using tb [of svc_get_list_attributes "object_name_bytes (domain, name)"] o
    by (simp add: write_get_attributes_request_def write_object_name_put w_put fits_put)
  have "encode_get_attributes_response True [m] = put (tlv_bytes svc_get_list_attributes
      (tlv_bytes (tag_context 0 False) (encode_bool True) @ tlv_bytes (tag_context 1 True) (one_variable m)))"
    by (simp add: encode_get_attributes_response_def write_members_put members_bytes_one w_put)
  then have 4: "response_fits (encode_get_attributes_response True [m])"
    using tb [of svc_get_list_attributes "tlv_bytes (tag_context 0 False) (encode_bool True) @ tlv_bytes (tag_context 1 True) (one_variable m)"]
      tb [of "tag_context 1 True" "one_variable m"] tb [of "tag_context 0 False" "encode_bool True"] v
    by (simp add: fits_put encode_bool_def)
  have 5: "request_fits (read_write_data_set_request domain name)"
    using tb [of "tag_context 1 True" "object_name_bytes (domain, name)"]
      tb [of "tag_context 1 True" "tlv_bytes (tag_context 1 True) (object_name_bytes (domain, name))"]
      tb [of svc_read "tlv_bytes (tag_context 1 True) (tlv_bytes (tag_context 1 True) (object_name_bytes (domain, name)))"] o
    by (simp add: read_list_put fits_put)
  have "write_delete_request domain name = put (tlv_bytes svc_delete_list
      (tlv_bytes (tag_context 0 False) (encode_integer 0) @ tlv_bytes (tag_context 1 True) (object_name_bytes (domain, name))))"
    by (simp add: write_delete_request_def write_object_name_put w_put)
  then have 6: "request_fits (write_delete_request domain name)"
    using tb [of svc_delete_list "tlv_bytes (tag_context 0 False) (encode_integer 0) @ tlv_bytes (tag_context 1 True) (object_name_bytes (domain, name))"]
      tb [of "tag_context 0 False" "encode_integer 0"] tb [of "tag_context 1 True" "object_name_bytes (domain, name)"]
      length_encode_integer(2) [of 0] o by (simp add: fits_put)
  have "encode_delete_response \<lparr>dr_matched = 1, dr_deleted = 1\<rparr> = put (tlv_bytes svc_delete_list
      (tlv_bytes (tag_context 0 False) (encode_unsigned 1) @ tlv_bytes (tag_context 1 False) (encode_unsigned 1)))"
    by (simp add: encode_delete_response_def w_put)
  then have 7: "response_fits (encode_delete_response \<lparr>dr_matched = 1, dr_deleted = 1\<rparr>)"
    using tb [of svc_delete_list "tlv_bytes (tag_context 0 False) (encode_unsigned 1) @ tlv_bytes (tag_context 1 False) (encode_unsigned 1)"]
      tb [of "tag_context 0 False" "encode_unsigned 1"] tb [of "tag_context 1 False" "encode_unsigned 1"] length_encode_unsigned [of 1]
    by (simp add: fits_put)
  have 8: "response_fits (read_encode_response (map AccessSuccess [v]))" using value_fits [of v] assms(2) by simp
  show ?thesis unfolding data_set_fits_def using 1 2 3 4 5 6 7 8 by blast
qed

theorem data_set_lifecycle_witness:
  "\<exists>se1 se2 se3.
    create_data_set (session_request (from_model demo_station demo_ident) None 5) ''IED1LD0'' ''ds'' [(''IED1LD0'', ''LLN0$ST$Mod$stVal'')]
      (demo_session Operator Map.empty [((''IED1LD0'', ''LLN0$ST$Mod$stVal''), MInt 4)]) = (Inr (), se1) \<and>
    get_data_set_directory (session_request (from_model demo_station demo_ident) None 5) ''IED1LD0'' ''ds'' se1 =
      (Inr \<lparr>la_deletable = True, la_members = [(''IED1LD0'', ''LLN0$ST$Mod$stVal'')]\<rparr>, se2) \<and>
    read_data_set (session_request (from_model demo_station demo_ident) None 5) ''IED1LD0'' ''ds'' se2 = (Inr [MInt 4], se3)"
proof -
  let ?st = "[((''IED1LD0'', ''LLN0$ST$Mod$stVal''), MInt 4)]" and ?m = "(''IED1LD0'', ''LLN0$ST$Mod$stVal'')"
  have d: "dataset_members (from_model demo_station demo_ident) ''IED1LD0'' ''ds'' = None" by code_simp
  have f: "data_set_fits ''IED1LD0'' ''ds'' [?m] [MInt 4]" using small_value(2) [of 4] by (intro data_set_fits_one) simp_all
  show ?thesis
    using data_set_lifecycle [OF _ _ _ d _ _ _ f, where se = "demo_session Operator Map.empty ?st" and provider = None and now = 5]
      demo_roles demo_plain demo_name_ok small_value(1) [of 4] by (fastforce simp: list_ok_def)
qed

lemma demo_command_fits:
  assumes "\<forall>cause. length (lae_or_ident (last_appl_error_of ''IED1LD0'' ''LLN0$CO$Mod$Oper'' v cause)) < 2 ^ 50"
    "\<forall>cause. data_ok (lae_data (last_appl_error_of ''IED1LD0'' ''LLN0$CO$Mod$Oper'' v cause))" "length (mms_bytes v) < 2 ^ 40"
  shows "command_fits ''IED1LD0'' ''LLN0$CO$Mod$Oper'' v"
  by (rule command_fits_small) (use assms in simp_all)

definition demo_time :: utc_time where "demo_time = replicate 8 0"

lemma demo_oper:
  "data_ok (build_oper (MInt 3) default_parameters demo_time)"
  "command_fits ''IED1LD0'' ''LLN0$CO$Mod$Oper'' (build_oper (MInt 3) default_parameters demo_time)"
proof -
  let ?v = "build_oper (MInt 3) default_parameters demo_time"
  show "data_ok ?v" by code_simp
  have e: "last_appl_error_of ''IED1LD0'' ''LLN0$CO$Mod$Oper'' ?v cause =
      \<lparr>lae_cntrl_obj = ''IED1LD0/LLN0$CO$Mod$Oper'', lae_error = 1, lae_or_cat = 1, lae_or_ident = as_bytes ''iec61850-rs'',
       lae_ctl_num = 0, lae_add_cause = cause\<rparr>" for cause
    by (simp add: last_appl_error_of_def build_oper_def default_parameters_def get_at_def)
  let ?o = "MStructure [MInt 1, MOctets (as_bytes ''iec61850-rs'')]"
  have "length (mms_bytes ?o) \<le> 64"
    using mms_bytes_bound [of ?o] mms_bytes_bound [of "MInt 1"] mms_bytes_bound [of "MOctets (as_bytes ''iec61850-rs'')"]
      length_encode_integer(2) [of 1] by (simp add: mms_bytes_def as_bytes_def)
  moreover have "length (mms_bytes (MInt 3)) \<le> 23" "length (mms_bytes (MUint 0)) \<le> 24" "length (mms_bytes (MUtc demo_time)) \<le> 23"
    "length (mms_bytes (MBool False)) \<le> 16" "length (mms_bytes (MBitString (bits_from [False, False]))) \<le> length (bs_bytes (bits_from [False, False])) + 16"
    using mms_bytes_bound [of "MInt 3"] length_encode_integer(2) [of 3] mms_bytes_bound [of "MUint 0"] length_encode_unsigned [of 0]
      mms_bytes_bound [of "MUtc demo_time"] mms_bytes_bound [of "MBool False"] mms_bytes_bound [of "MBitString (bits_from [False, False])"]
    by (simp_all add: demo_time_def encode_bool_def)
  moreover have "length (bs_bytes (bits_from [False, False])) = 1" by code_simp
  ultimately have "length (mms_bytes ?v) < 300"
    using mms_bytes_bound [of ?v] by (simp add: build_oper_def default_parameters_def mms_bytes_def)
  then have "length (mms_bytes ?v) < 2 ^ 40" by simp
  then show "command_fits ''IED1LD0'' ''LLN0$CO$Mod$Oper'' ?v"
    by (intro demo_command_fits)
      (simp_all add: e lae_data_def data_ok_def max_nesting_depth_def str_ok_def as_bytes_def byte_of_char_def evals utf8_next.simps)
qed

definition demo_co :: object_reference where
  "demo_co = \<lparr>or_ld = ''IED1LD0'', or_ln = ''LLN0'', or_path = [''Mod''], or_fc = None\<rparr>"

lemma demo_item: "control_item demo_co ''Oper'' = Inr (''IED1LD0'', do_item ''LLN0'' ''CO'' ''Mod'' ''Oper'')"
  by code_simp

theorem command_told_truly_witness:
  "\<exists>res se'. operate_with (session_request (from_model demo_station demo_ident) None 10) demo_time demo_co (MInt 3) default_parameters
      (demo_session Operator Map.empty (sh_store demo_shared)) = (res, se') \<and> res \<noteq> Inr () \<and> sw_shared (se_world se') = demo_shared"
proof -
  have k: "co_kind (sh_store demo_shared) ''IED1LD0'' ''LLN0'' ''Mod'' = 2"
    by (simp add: co_kind_def demo_object demo_shared_def)
  then have n: "\<not> co_accepts (from_model demo_station demo_ident) 10 Map.empty (sh_store demo_shared) ''IED1LD0'' ''LLN0'' ''Mod''"
    by (simp add: co_accepts_def co_selected_def is_some_and_def)
  have s: "sw_shared (se_world (demo_session Operator Map.empty (sh_store demo_shared))) = demo_shared"
    by (simp add: demo_shared_def)
  show ?thesis
    using command_told_truly [OF _ _ demo_parts demo_item refl demo_oper(1), where se = "demo_session Operator Map.empty (sh_store demo_shared)"
        and sm = "from_model demo_station demo_ident" and provider = None and now = 10 and executed = False]
      demo_command demo_name_ok demo_roles demo_oper(2) k n s by (fastforce simp: demo_object)
qed

theorem enhanced_command_told_truly_witness:
  "\<exists>se'. operate_enhanced (session_request (from_model demo_station demo_ident) None 10) demo_time demo_co (MInt 3) default_parameters []
      (demo_session Operator Map.empty [((''IED1LD0'', ''LLN0$CF$Mod$ctlModel''), MInt 3)]) = (Inr (), se') \<and>
    map_of (sh_store (sw_shared (se_world se'))) (''IED1LD0'', ''LLN0$ST$Mod$stVal'') = Some (MInt 3)"
proof -
  let ?st = "[((''IED1LD0'', ''LLN0$CF$Mod$ctlModel''), MInt 3)]"
  have k: "co_kind ?st ''IED1LD0'' ''LLN0'' ''Mod'' = 3" by (simp add: co_kind_def demo_object)
  then have n: "co_accepts (from_model demo_station demo_ident) 10 Map.empty ?st ''IED1LD0'' ''LLN0'' ''Mod''"
    using demo_contains by (simp add: co_accepts_def demo_object)
  have l: "\<not> co_locked ?st ''IED1LD0'' ''LLN0'' ''Mod'' v" for v by (simp add: co_locked_def demo_object)
  obtain res se' where r: "operate_enhanced (session_request (from_model demo_station demo_ident) None 10) demo_time demo_co (MInt 3)
      default_parameters [] (demo_session Operator Map.empty ?st) = (res, se')" "res = Inr ()"
    "sw_shared (se_world se') = apply_value ''IED1LD0'' ''LLN0$ST$Mod$stVal'' (MInt 3) \<lparr>sh_store = ?st, sh_changes = []\<rparr>"
    using enhanced_command_told_truly [OF _ _ demo_parts demo_item refl demo_oper(1), where se = "demo_session Operator Map.empty ?st"
        and sm = "from_model demo_station demo_ident" and provider = None and now = 10 and executed = True and later = "[]"]
      demo_command demo_name_ok demo_roles demo_oper(2) k n l by (auto simp: demo_object)
  then show ?thesis by (simp add: applied_value)
qed

end
