(* ===== verification/SclDocument.thy ===== *)
theory SclDocument imports ModelTree begin

text \<open>
  The document of a substation configuration: \<open>crates/iec61850-scl/src/model/\<close>, \<open>error.rs\<close>,
  \<open>validate.rs\<close> and \<open>parse/mod.rs\<close>. One record per element, with the conversions that accept children
  in any order. Deserialization and tokens of XML belong to quick-xml and are parameters. The lemmas say
  what an empty list of diagnostics promises about the type templates.
\<close>

unbundle bit_operations_syntax

section \<open>Diagnostics\<close>

text \<open>The texts quote names with an apostrophe and use the UTF-8 octets of an accented \<open>u\<close>.\<close>

definition quoted :: "string \<Rightarrow> string" where
  "quoted s = [CHR 0x27] @ s @ [CHR 0x27]"

definition u_acute :: string where
  "u_acute = [char_of (0xC3 :: nat), char_of (0xBA :: nat)]"

datatype severity = SevWarning | SevError

record diagnostic =
  dg_severity :: severity
  dg_message :: string
  dg_location :: string

definition diagnostic_error :: "string \<Rightarrow> string \<Rightarrow> diagnostic" where
  "diagnostic_error message location =
    \<lparr>dg_severity = SevError, dg_message = message, dg_location = location\<rparr>"

definition diagnostic_warning :: "string \<Rightarrow> string \<Rightarrow> diagnostic" where
  "diagnostic_warning message location =
    \<lparr>dg_severity = SevWarning, dg_message = message, dg_location = location\<rparr>"

text \<open>The payloads of the first two variants belong to the operating system and the XML crate.\<close>

datatype ('io, 'xml) scl_error =
    SclIo string 'io
  | SclXml 'xml
  | SclUnresolvedTypeRef string string
  | SclResolution string string

section \<open>Instances\<close>

record scl_val =
  val_s_group :: "u32 option"
  val_text :: string

record scl_dai =
  dai_name :: string
  dai_ix :: "string option"
  dai_s_group :: "u32 option"
  dai_val :: "scl_val list"

datatype scl_sdi =
  Sdi (sdi_name: string) (sdi_ix: "string option") (sdi_sdi: "scl_sdi list") (sdi_dai: "scl_dai list")

record scl_doi =
  doi_name :: string
  doi_ix :: "string option"
  doi_desc :: "string option"
  doi_sdi :: "scl_sdi list"
  doi_dai :: "scl_dai list"

text \<open>Deserialization takes the children of a \<open>DOI\<close> or \<open>SDI\<close> in any order and splits them.\<close>

datatype instance_item = ItemSDI scl_sdi | ItemDAI scl_dai | ItemOther

record raw_doi =
  rdoi_name :: string
  rdoi_ix :: "string option"
  rdoi_desc :: "string option"
  rdoi_items :: "instance_item list"

record raw_sdi =
  rsdi_name :: string
  rsdi_ix :: "string option"
  rsdi_items :: "instance_item list"

definition split_items :: "instance_item list \<Rightarrow> scl_sdi list \<times> scl_dai list" where
  "split_items items = fold (\<lambda>item (sdi, dai).
     case item of
       ItemSDI s \<Rightarrow> (sdi @ [s], dai)
     | ItemDAI d \<Rightarrow> (sdi, dai @ [d])
     | ItemOther \<Rightarrow> (sdi, dai)) items ([], [])"

definition doi_from_raw :: "raw_doi \<Rightarrow> scl_doi" where
  "doi_from_raw raw = (case split_items (rdoi_items raw) of (sdi, dai) \<Rightarrow>
     \<lparr>doi_name = rdoi_name raw, doi_ix = rdoi_ix raw, doi_desc = rdoi_desc raw,
      doi_sdi = sdi, doi_dai = dai\<rparr>)"

definition sdi_from_raw :: "raw_sdi \<Rightarrow> scl_sdi" where
  "sdi_from_raw raw = (case split_items (rsdi_items raw) of (sdi, dai) \<Rightarrow>
     Sdi (rsdi_name raw) (rsdi_ix raw) sdi dai)"

section \<open>Data sets and control blocks\<close>

record scl_fcda =
  sf_ld_inst :: "string option"
  sf_prefix :: "string option"
  sf_ln_class :: "string option"
  sf_ln_inst :: "string option"
  sf_do_name :: "string option"
  sf_da_name :: "string option"
  sf_fc :: "string option"
  sf_ix :: "string option"

record scl_data_set =
  sds_name :: string
  sds_desc :: "string option"
  sds_fcda :: "scl_fcda list"

record trg_ops =
  trg_dchg :: "bool option"
  trg_qchg :: "bool option"
  trg_dupd :: "bool option"
  trg_period :: "bool option"
  trg_gi :: "bool option"

record scl_report_control =
  srep_name :: string
  srep_rpt_id :: "string option"
  srep_dat_set :: "string option"
  srep_conf_rev :: "u32 option"
  srep_buffered :: "bool option"
  srep_intg_pd :: "u32 option"
  srep_trg_ops :: "trg_ops option"

record scl_log_control =
  slog_name :: string
  slog_dat_set :: "string option"
  slog_log_name :: "string option"
  slog_log_ena :: "bool option"
  slog_intg_pd :: "u32 option"
  slog_trg_ops :: "trg_ops option"

record scl_setting_control =
  sset_desc :: "string option"
  sset_num_of_sgs :: u32
  sset_act_sg :: "u32 option"
  sset_resv_tms :: "u32 option"

record gse_control =
  gse_name :: string
  gse_dat_set :: "string option"
  gse_conf_rev :: "u32 option"
  gse_kind :: "string option"
  gse_app_id :: "string option"

record smv_control =
  smv_name :: string
  smv_dat_set :: "string option"
  smv_conf_rev :: "u32 option"
  smv_smv_id :: "string option"

section \<open>Devices\<close>

record scl_ln =
  sln_prefix :: string
  sln_ln_class :: string
  sln_inst :: string
  sln_ln_type :: string
  sln_desc :: "string option"
  sln_data_sets :: "scl_data_set list"
  sln_report_controls :: "scl_report_control list"
  sln_gse_controls :: "gse_control list"
  sln_smv_controls :: "smv_control list"
  sln_setting_control :: "scl_setting_control option"
  sln_log_controls :: "scl_log_control list"
  sln_dois :: "scl_doi list"

record l_device =
  ldev_inst :: string
  ldev_ld_name :: "string option"
  ldev_desc :: "string option"
  ldev_ln0 :: "scl_ln option"
  ldev_lns :: "scl_ln list"

datatype l_device_item = ItemLN0 scl_ln | ItemLN scl_ln | ItemOtherChild

record raw_l_device =
  rldev_inst :: string
  rldev_ld_name :: "string option"
  rldev_desc :: "string option"
  rldev_items :: "l_device_item list"

text \<open>The last \<open>LN0\<close> stays.\<close>

definition l_device_from_raw :: "raw_l_device \<Rightarrow> l_device" where
  "l_device_from_raw raw =
    (case fold (\<lambda>item (ln0, lns).
       case item of
         ItemLN0 ln \<Rightarrow> (Some ln, lns)
       | ItemLN ln \<Rightarrow> (ln0, lns @ [ln])
       | ItemOtherChild \<Rightarrow> (ln0, lns)) (rldev_items raw) (None, []) of (ln0, lns) \<Rightarrow>
     \<lparr>ldev_inst = rldev_inst raw, ldev_ld_name = rldev_ld_name raw, ldev_desc = rldev_desc raw,
      ldev_ln0 = ln0, ldev_lns = lns\<rparr>)"

definition all_lns :: "l_device \<Rightarrow> scl_ln list" where
  "all_lns ld = (case ldev_ln0 ld of Some ln \<Rightarrow> [ln] | None \<Rightarrow> []) @ ldev_lns ld"

record scl_server =
  srv_ldevices :: "l_device list"

record access_point =
  apt_name :: string
  apt_server :: "scl_server option"

record scl_ied =
  ied_name :: string
  ied_kind :: "string option"
  ied_manufacturer :: "string option"
  ied_config_version :: "string option"
  ied_access_points :: "access_point list"

section \<open>Communication\<close>

record scl_p =
  par_kind :: string
  par_value :: string

record address =
  adr_params :: "scl_p list"

definition address_param :: "address \<Rightarrow> string \<Rightarrow> string option" where
  "address_param a kind = map_option par_value (find (\<lambda>p. par_kind p = kind) (adr_params a))"

record scl_gse =
  cgse_ld_inst :: "string option"
  cgse_cb_name :: "string option"
  cgse_address :: "address option"

record scl_smv =
  csmv_ld_inst :: "string option"
  csmv_cb_name :: "string option"
  csmv_address :: "address option"

record connected_ap =
  cap_ied_name :: string
  cap_ap_name :: string
  cap_address :: "address option"
  cap_gse :: "scl_gse list"
  cap_smv :: "scl_smv list"

record sub_network =
  net_name :: string
  net_kind :: "string option"
  net_connected_aps :: "connected_ap list"

record communication =
  com_sub_networks :: "sub_network list"

section \<open>Substations\<close>

record conducting_equipment =
  ceq_name :: string
  ceq_kind :: "string option"
  ceq_desc :: "string option"

record bay =
  bay_name :: string
  bay_desc :: "string option"
  bay_equipment :: "conducting_equipment list"

record voltage_level =
  vlev_name :: string
  vlev_desc :: "string option"
  vlev_bays :: "bay list"

record substation =
  sub_name :: string
  sub_desc :: "string option"
  sub_voltage_levels :: "voltage_level list"

section \<open>Type templates\<close>

record t_do =
  tdo_name :: string
  tdo_kind :: string
  tdo_transient :: "bool option"
  tdo_desc :: "string option"

record l_node_type =
  lnt_id :: string
  lnt_ln_class :: string
  lnt_desc :: "string option"
  lnt_dos :: "t_do list"

record t_da =
  tda_name :: string
  tda_desc :: "string option"
  tda_fc :: string
  tda_b_type :: string
  tda_kind :: "string option"
  tda_dchg :: "bool option"
  tda_qchg :: "bool option"
  tda_dupd :: "bool option"
  tda_val :: "scl_val list"

record t_sdo =
  sdo_name :: string
  sdo_kind :: string
  sdo_desc :: "string option"

record do_type =
  dot_id :: string
  dot_cdc :: string
  dot_desc :: "string option"
  dot_das :: "t_da list"
  dot_sdos :: "t_sdo list"

record t_bda =
  bda_name :: string
  bda_desc :: "string option"
  bda_b_type :: string
  bda_kind :: "string option"
  bda_val :: "scl_val list"

record da_type =
  dat_id :: string
  dat_desc :: "string option"
  dat_bdas :: "t_bda list"

text \<open>An \<open>i64\<close> ordinal is an integer, as in the model.\<close>

record enum_val =
  env_ord :: int
  env_text :: string

record enum_type =
  ent_id :: string
  ent_values :: "enum_val list"

record data_type_templates =
  tpl_lnode_types :: "l_node_type list"
  tpl_do_types :: "do_type list"
  tpl_da_types :: "da_type list"
  tpl_enum_types :: "enum_type list"

definition templates_default :: data_type_templates where
  "templates_default =
    \<lparr>tpl_lnode_types = [], tpl_do_types = [], tpl_da_types = [], tpl_enum_types = []\<rparr>"

datatype template_item =
    ItemLNodeType l_node_type
  | ItemDOType do_type
  | ItemDAType da_type
  | ItemEnumType enum_type
  | ItemOtherType

definition templates_from_raw :: "template_item list \<Rightarrow> data_type_templates" where
  "templates_from_raw items = fold (\<lambda>item t.
     case item of
       ItemLNodeType x \<Rightarrow> t\<lparr>tpl_lnode_types := tpl_lnode_types t @ [x]\<rparr>
     | ItemDOType x \<Rightarrow> t\<lparr>tpl_do_types := tpl_do_types t @ [x]\<rparr>
     | ItemDAType x \<Rightarrow> t\<lparr>tpl_da_types := tpl_da_types t @ [x]\<rparr>
     | ItemEnumType x \<Rightarrow> t\<lparr>tpl_enum_types := tpl_enum_types t @ [x]\<rparr>
     | ItemOtherType \<Rightarrow> t) items templates_default"

definition lnode_type :: "data_type_templates \<Rightarrow> string \<Rightarrow> l_node_type option" where
  "lnode_type t i = find (\<lambda>x. lnt_id x = i) (tpl_lnode_types t)"

definition do_type_of :: "data_type_templates \<Rightarrow> string \<Rightarrow> do_type option" where
  "do_type_of t i = find (\<lambda>x. dot_id x = i) (tpl_do_types t)"

definition da_type_of :: "data_type_templates \<Rightarrow> string \<Rightarrow> da_type option" where
  "da_type_of t i = find (\<lambda>x. dat_id x = i) (tpl_da_types t)"

definition enum_type_of :: "data_type_templates \<Rightarrow> string \<Rightarrow> enum_type option" where
  "enum_type_of t i = find (\<lambda>x. ent_id x = i) (tpl_enum_types t)"

section \<open>The document\<close>

record scl_header =
  hdr_id :: string
  hdr_version :: "string option"
  hdr_revision :: "string option"
  hdr_tool_id :: "string option"
  hdr_name_structure :: "string option"

record scl_document =
  scl_header :: "scl_header option"
  scl_substations :: "substation list"
  scl_communication :: "communication option"
  scl_ieds :: "scl_ied list"
  scl_templates :: "data_type_templates option"

definition scl_ied_of :: "scl_document \<Rightarrow> string \<Rightarrow> scl_ied option" where
  "scl_ied_of d name = find (\<lambda>i. ied_name i = name) (scl_ieds d)"

definition scl_is_empty :: "scl_document \<Rightarrow> bool" where
  "scl_is_empty d \<longleftrightarrow> scl_header d = None \<and> scl_substations d = [] \<and> scl_communication d = None
     \<and> scl_ieds d = [] \<and> scl_templates d = None"

section \<open>Reading a document\<close>

text \<open>
  The crate quick-xml is a parameter: its deserializer (\<open>de\<close>), its tokenizer (\<open>read\<close>), the unescaping of
  attribute values (\<open>unescape\<close>) and its writer (\<open>render\<close>). An attribute it cannot read is \<open>None\<close>. Names
  are rewritten to their local part; declarations of namespaces and prefixed attributes are dropped.
\<close>

datatype 'o xml_token =
    TokStart string "(string \<times> string) option list"
  | TokEmpty string "(string \<times> string) option list"
  | TokEnd string
  | TokOther 'o

definition local_name :: "string \<Rightarrow> string" where
  "local_name n = (case rfind (CHR '':'') n of Some i \<Rightarrow> drop (i + 1) n | None \<Rightarrow> n)"

fun rewrite_attributes ::
    "(string \<Rightarrow> string option) \<Rightarrow> (string \<times> string) option list \<Rightarrow> (string \<times> string) option list option" where
  "rewrite_attributes unescape [] = Some []"
| "rewrite_attributes unescape (None # attrs) = None"
| "rewrite_attributes unescape (Some (key, raw) # attrs) =
    (if key = ''xmlns'' \<or> CHR '':'' \<in> set key then rewrite_attributes unescape attrs
     else case unescape raw of
       None \<Rightarrow> None
     | Some v \<Rightarrow> map_option (\<lambda>out. Some (key, v) # out) (rewrite_attributes unescape attrs))"

fun rewrite_token :: "(string \<Rightarrow> string option) \<Rightarrow> 'o xml_token \<Rightarrow> 'o xml_token option" where
  "rewrite_token unescape (TokStart n attrs) = map_option (TokStart (local_name n)) (rewrite_attributes unescape attrs)"
| "rewrite_token unescape (TokEmpty n attrs) = map_option (TokEmpty (local_name n)) (rewrite_attributes unescape attrs)"
| "rewrite_token unescape (TokEnd n) = Some (TokEnd (local_name n))"
| "rewrite_token unescape (TokOther x) = Some (TokOther x)"

definition strip_namespace_prefixes ::
    "(string \<Rightarrow> string option) \<Rightarrow> (string \<Rightarrow> 'o xml_token list option) \<Rightarrow> ('o xml_token list \<Rightarrow> string option)
      \<Rightarrow> string \<Rightarrow> string option" where
  "strip_namespace_prefixes unescape read render xml =
    Option.bind (Option.bind (read xml) (\<lambda>toks. those (map (rewrite_token unescape) toks))) render"

text \<open>A document without a section, and a failure, are tried once more on the rewritten text.\<close>

definition parse_scl_str ::
    "(string \<Rightarrow> 'xml + scl_document) \<Rightarrow> (string \<Rightarrow> string option) \<Rightarrow> (string \<Rightarrow> 'o xml_token list option)
      \<Rightarrow> ('o xml_token list \<Rightarrow> string option) \<Rightarrow> string \<Rightarrow> ('io, 'xml) scl_error + scl_document" where
  "parse_scl_str de unescape read render xml =
    (let direct = de xml;
         retry = (case direct of Inr doc \<Rightarrow> scl_is_empty doc | Inl _ \<Rightarrow> True);
         again = (if retry then
             (case strip_namespace_prefixes unescape read render xml of
                Some normalized \<Rightarrow>
                  (case de normalized of
                     Inr doc2 \<Rightarrow> if \<not> scl_is_empty doc2 then Some doc2 else None
                   | Inl _ \<Rightarrow> None)
              | None \<Rightarrow> None)
           else None)
     in case again of Some doc2 \<Rightarrow> Inr doc2 | None \<Rightarrow> map_errE SclXml direct)"

definition parse_scl_file ::
    "(string \<Rightarrow> ('io, 'xml) scl_error + scl_document) \<Rightarrow> (string \<Rightarrow> 'io + string) \<Rightarrow> string
      \<Rightarrow> ('io, 'xml) scl_error + scl_document" where
  "parse_scl_file parse read_to_string path =
    bindE (map_errE (SclIo path) (read_to_string path)) parse"

text \<open>What is rewritten has local names and attributes of the language itself only.\<close>

fun token_local :: "'o xml_token \<Rightarrow> bool" where
  "token_local (TokStart n attrs) \<longleftrightarrow> CHR '':'' \<notin> set n \<and>
     (\<forall>a \<in> set attrs. \<exists>k v. a = Some (k, v) \<and> k \<noteq> ''xmlns'' \<and> CHR '':'' \<notin> set k)"
| "token_local (TokEmpty n attrs) \<longleftrightarrow> CHR '':'' \<notin> set n \<and>
     (\<forall>a \<in> set attrs. \<exists>k v. a = Some (k, v) \<and> k \<noteq> ''xmlns'' \<and> CHR '':'' \<notin> set k)"
| "token_local (TokEnd n) \<longleftrightarrow> CHR '':'' \<notin> set n"
| "token_local (TokOther x) \<longleftrightarrow> True"

lemma local_name_plain: "CHR '':'' \<notin> set (local_name n)"
proof -
  have r: "rfind c (xs :: string) = Some i \<Longrightarrow> c \<notin> set (drop (Suc i) xs)"
    and s: "rfind c xs = None \<Longrightarrow> c \<notin> set xs" for c xs i
    by (induction xs arbitrary: i) (auto split: option.splits if_splits)
  show ?thesis using r s by (auto simp: local_name_def split: option.splits)
qed

lemma rewrite_attributes_local:
  "rewrite_attributes unescape attrs = Some out \<Longrightarrow> a \<in> set out \<Longrightarrow>
    \<exists>k v. a = Some (k, v) \<and> k \<noteq> ''xmlns'' \<and> CHR '':'' \<notin> set k"
  by (induction unescape attrs arbitrary: out rule: rewrite_attributes.induct)
    (auto split: if_splits option.splits)

lemma rewrite_token_local: "rewrite_token unescape tok = Some out \<Longrightarrow> token_local out"
  by (cases tok) (auto simp: local_name_plain; blast dest: rewrite_attributes_local)+

lemma parsed_document:
  "parse_scl_str de unescape read render xml = Inr doc \<Longrightarrow>
    de xml = Inr doc \<or> (\<exists>normalized. strip_namespace_prefixes unescape read render xml = Some normalized \<and>
      de normalized = Inr doc \<and> \<not> scl_is_empty doc)"
  by (cases "de xml") (auto simp: parse_scl_str_def split: option.splits sum.splits if_splits)

section \<open>Validation\<close>

text \<open>\<open>HashSet::insert\<close> in a loop that reports the keys already seen.\<close>

definition type_ids :: "data_type_templates \<Rightarrow> (string \<times> string) list" where
  "type_ids dtt =
    map (\<lambda>t. (lnt_id t, ''LNodeType'')) (tpl_lnode_types dtt) @
    map (\<lambda>t. (dot_id t, ''DOType'')) (tpl_do_types dtt) @
    map (\<lambda>t. (dat_id t, ''DAType'')) (tpl_da_types dtt) @
    map (\<lambda>t. (ent_id t, ''EnumType'')) (tpl_enum_types dtt)"

definition check_id :: "string \<times> string \<Rightarrow> string list \<times> diagnostic list \<Rightarrow> string list \<times> diagnostic list" where
  "check_id = (\<lambda>(i, kind) (seen, diags).
     if i \<in> set seen then
       (seen, diags @ [diagnostic_error (''id de tipo duplicado '' @ quoted i)
                         (''DataTypeTemplates/'' @ kind)])
     else (i # seen, diags))"

definition check_do :: "string list \<Rightarrow> l_node_type \<Rightarrow> t_do \<Rightarrow> diagnostic list" where
  "check_do do_ids lt d =
    (if tdo_kind d \<notin> set do_ids then
       [diagnostic_error (''DO '' @ quoted (tdo_name d) @ '' referencia un DOType '' @
          quoted (tdo_kind d) @ '' inexistente'') (''LNodeType['' @ lnt_id lt @ '']'')]
     else [])"

definition check_sdo :: "string list \<Rightarrow> do_type \<Rightarrow> t_sdo \<Rightarrow> diagnostic list" where
  "check_sdo do_ids dt sdo =
    (if sdo_kind sdo \<notin> set do_ids then
       [diagnostic_error (''SDO '' @ quoted (sdo_name sdo) @ '' referencia un DOType '' @
          quoted (sdo_kind sdo) @ '' inexistente'') (''DOType['' @ dot_id dt @ '']'')]
     else [])"

text \<open>The references of a \<open>DA\<close> and a \<open>BDA\<close>; the word and the place differ.\<close>

definition check_da :: "string list \<Rightarrow> string list \<Rightarrow> do_type \<Rightarrow> t_da \<Rightarrow> diagnostic list" where
  "check_da da_ids enum_ids dt da =
    (case tda_kind da of
       None \<Rightarrow> []
     | Some kind \<Rightarrow>
         if \<not> (kind \<in> set da_ids \<or> kind \<in> set enum_ids) then
           [diagnostic_error (''DA '' @ quoted (tda_name da) @ '' referencia un tipo '' @
              quoted kind @ '' (DAType/EnumType) inexistente'') (''DOType['' @ dot_id dt @ '']'')]
         else [])"

definition check_bda :: "string list \<Rightarrow> string list \<Rightarrow> da_type \<Rightarrow> t_bda \<Rightarrow> diagnostic list" where
  "check_bda da_ids enum_ids dat bda =
    (case bda_kind bda of
       None \<Rightarrow> []
     | Some kind \<Rightarrow>
         if \<not> (kind \<in> set da_ids \<or> kind \<in> set enum_ids) then
           [diagnostic_error (''BDA '' @ quoted (bda_name bda) @ '' referencia un tipo '' @
              quoted kind @ '' (DAType/EnumType) inexistente'') (''DAType['' @ dat_id dat @ '']'')]
         else [])"

definition scl_validate :: "scl_document \<Rightarrow> diagnostic list" where
  "scl_validate doc =
    (case scl_templates doc of
       None \<Rightarrow> []
     | Some dtt \<Rightarrow>
         (let (seen, diags) = fold check_id (type_ids dtt) ([], []);
              do_ids = map dot_id (tpl_do_types dtt);
              da_ids = map dat_id (tpl_da_types dtt);
              enum_ids = map ent_id (tpl_enum_types dtt)
          in diags @
             concat (map (\<lambda>lt. concat (map (check_do do_ids lt) (lnt_dos lt))) (tpl_lnode_types dtt)) @
             concat (map (\<lambda>dt. concat (map (check_sdo do_ids dt) (dot_sdos dt)) @
               concat (map (check_da da_ids enum_ids dt) (dot_das dt))) (tpl_do_types dtt)) @
             concat (map (\<lambda>dat. concat (map (check_bda da_ids enum_ids dat) (dat_bdas dat)))
               (tpl_da_types dtt))))"

section \<open>Facts\<close>

lemma split_items_parts: "split_items items =
    (List.map_filter (\<lambda>i. case i of ItemSDI s \<Rightarrow> Some s | _ \<Rightarrow> None) items,
     List.map_filter (\<lambda>i. case i of ItemDAI d \<Rightarrow> Some d | _ \<Rightarrow> None) items)"
proof -
  have "fold (\<lambda>item (sdi, dai). case item of ItemSDI s \<Rightarrow> (sdi @ [s], dai) | ItemDAI d \<Rightarrow> (sdi, dai @ [d])
        | ItemOther \<Rightarrow> (sdi, dai)) items (ss, ds) =
      (ss @ List.map_filter (\<lambda>i. case i of ItemSDI s \<Rightarrow> Some s | _ \<Rightarrow> None) items,
       ds @ List.map_filter (\<lambda>i. case i of ItemDAI d \<Rightarrow> Some d | _ \<Rightarrow> None) items)" for ss ds
    by (induction items arbitrary: ss ds) (auto simp: map_filter_simps split: instance_item.splits)
  from this [of "[]" "[]"] show ?thesis by (simp add: split_items_def)
qed

lemma check_ids_fold: "\<exists>seen more_diags. fold check_id ids (s, ds) = (seen, ds @ more_diags) \<and>
    (more_diags = [] \<longleftrightarrow> distinct (map fst ids) \<and> fst ` set ids \<inter> set s = {}) \<and>
    (\<forall>d \<in> set more_diags. dg_severity d = SevError)"
proof (induction ids arbitrary: s ds)
  case Nil
  then show ?case by simp
next
  case (Cons i ids)
  obtain a k where i: "i = (a, k)" by (cases i)
  show ?case
  proof (cases "a \<in> set s")
    case True
    let ?d = "diagnostic_error (''id de tipo duplicado '' @ quoted a) (''DataTypeTemplates/'' @ k)"
    obtain seen md where f: "fold check_id ids (s, ds @ [?d]) = (seen, (ds @ [?d]) @ md)"
      and md: "\<forall>d \<in> set md. dg_severity d = SevError"
      using Cons [of s "ds @ [?d]"] by blast
    have "fold check_id (i # ids) (s, ds) = (seen, ds @ (?d # md))"
      using f True by (simp add: i check_id_def)
    moreover have "dg_severity ?d = SevError" by (simp add: diagnostic_error_def)
    ultimately show ?thesis using True md by (intro exI [of _ seen] exI [of _ "?d # md"]) (simp add: i)
  next
    case False
    obtain seen md where f: "fold check_id ids (a # s, ds) = (seen, ds @ md)"
      and md: "md = [] \<longleftrightarrow> distinct (map fst ids) \<and> fst ` set ids \<inter> set (a # s) = {}"
        "\<forall>d \<in> set md. dg_severity d = SevError"
      using Cons [of "a # s" ds] by blast
    have "fold check_id (i # ids) (s, ds) = (seen, ds @ md)"
      using f False by (simp add: i check_id_def)
    then show ?thesis using False md by (intro exI [of _ seen] exI [of _ md]) (auto simp: i)
  qed
qed

text \<open>What an empty list of diagnostics promises.\<close>

definition templates_coherent :: "data_type_templates \<Rightarrow> bool" where
  "templates_coherent t \<longleftrightarrow>
    distinct (map fst (type_ids t)) \<and>
    (\<forall>lt \<in> set (tpl_lnode_types t). \<forall>d \<in> set (lnt_dos lt). do_type_of t (tdo_kind d) \<noteq> None) \<and>
    (\<forall>dt \<in> set (tpl_do_types t).
      (\<forall>s \<in> set (dot_sdos dt). do_type_of t (sdo_kind s) \<noteq> None) \<and>
      (\<forall>d \<in> set (dot_das dt). \<forall>k. tda_kind d = Some k \<longrightarrow>
         da_type_of t k \<noteq> None \<or> enum_type_of t k \<noteq> None)) \<and>
    (\<forall>dat \<in> set (tpl_da_types t). \<forall>b \<in> set (dat_bdas dat). \<forall>k. bda_kind b = Some k \<longrightarrow>
         da_type_of t k \<noteq> None \<or> enum_type_of t k \<noteq> None)"

lemma type_lookup_defined:
  "do_type_of t i \<noteq> None \<longleftrightarrow> i \<in> set (map dot_id (tpl_do_types t))"
  "da_type_of t i \<noteq> None \<longleftrightarrow> i \<in> set (map dat_id (tpl_da_types t))"
  "enum_type_of t i \<noteq> None \<longleftrightarrow> i \<in> set (map ent_id (tpl_enum_types t))"
  by (auto simp: do_type_of_def da_type_of_def enum_type_of_def find_None_iff)

lemma check_nil:
  "check_do ids lt d = [] \<longleftrightarrow> tdo_kind d \<in> set ids"
  "check_sdo ids dt s = [] \<longleftrightarrow> sdo_kind s \<in> set ids"
  "check_da as es dt a = [] \<longleftrightarrow> (\<forall>k. tda_kind a = Some k \<longrightarrow> k \<in> set as \<or> k \<in> set es)"
  "check_bda as es dat b = [] \<longleftrightarrow> (\<forall>k. bda_kind b = Some k \<longrightarrow> k \<in> set as \<or> k \<in> set es)"
  by (auto simp: check_do_def check_sdo_def check_da_def check_bda_def split: option.splits)

lemma validate_coherent:
  assumes "scl_templates doc = Some t"
  shows "scl_validate doc = [] \<longleftrightarrow> templates_coherent t"
proof -
  obtain seen md where f: "fold check_id (type_ids t) ([], []) = (seen, [] @ md)"
    and md: "md = [] \<longleftrightarrow> distinct (map fst (type_ids t)) \<and> fst ` set (type_ids t) \<inter> set [] = {}"
    using check_ids_fold [of "type_ids t" "[]" "[]"] by blast
  show ?thesis
    unfolding scl_validate_def templates_coherent_def Let_def assms option.case f prod.case
      append_Nil append_is_Nil_conv concat_eq_Nil_conv set_map ball_simps type_lookup_defined check_nil
    using md by auto
qed

lemma validate_severity: "d \<in> set (scl_validate doc) \<Longrightarrow> dg_severity d = SevError"
proof -
  assume d: "d \<in> set (scl_validate doc)"
  show ?thesis
  proof (cases "scl_templates doc")
    case None
    then show ?thesis using d by (simp add: scl_validate_def)
  next
    case (Some t)
    obtain seen md where "fold check_id (type_ids t) ([], []) = (seen, [] @ md)"
      and "\<forall>d \<in> set md. dg_severity d = SevError"
      using check_ids_fold [of "type_ids t" "[]" "[]"] by blast
    then show ?thesis using d Some
      by (auto simp: scl_validate_def Let_def check_do_def check_sdo_def check_da_def check_bda_def
        diagnostic_error_def split: option.splits if_splits)
  qed
qed

end
