(* ===== verification/SclWrite.thy ===== *)
theory SclWrite imports SclDocument begin

text \<open>
  Writing a document: \<open>crates/iec61850-scl/src/write.rs\<close>, as the events handed to the XML writer of
  quick-xml, whose indentation and escaping are parameters. Every writer has three lemmas: the name it
  opens, that it can be read back from what follows it, and that it closes what it opens.
\<close>

unbundle bit_operations_syntax

section \<open>Attributes\<close>

text \<open>\<open>Attrs\<close>: the list of pairs pushed so far; an absent option pushes nothing.\<close>

type_synonym attrs = "(string \<times> string) list"

definition attr_put :: "string \<Rightarrow> string \<Rightarrow> attrs" where
  "attr_put key v = [(key, v)]"

definition attr_opt :: "string \<Rightarrow> string option \<Rightarrow> attrs" where
  "attr_opt key v = (case v of Some x \<Rightarrow> [(key, x)] | None \<Rightarrow> [])"

definition show_u32 :: "u32 \<Rightarrow> string" where
  "show_u32 v = show_nat (unat v)"

definition show_bool :: "bool \<Rightarrow> string" where
  "show_bool b = (if b then ''true'' else ''false'')"

section \<open>Events\<close>

text \<open>What is handed to the XML writer, in order. Indentation and escaping are its own.\<close>

datatype xml_event =
    EvRaw string
  | EvStart string attrs
  | EvEmpty string attrs
  | EvEnd string
  | EvText string

definition x_text_elem :: "string \<Rightarrow> attrs \<Rightarrow> string \<Rightarrow> xml_event list" where
  "x_text_elem name a text = [EvStart name a, EvText text, EvEnd name]"

section \<open>Communication\<close>

definition write_header :: "scl_header \<Rightarrow> xml_event list" where
  "write_header h =
    [EvEmpty ''Header'' (attr_put ''id'' (hdr_id h) @ attr_opt ''version'' (hdr_version h) @
      attr_opt ''revision'' (hdr_revision h) @ attr_opt ''toolID'' (hdr_tool_id h) @
      attr_opt ''nameStructure'' (hdr_name_structure h))]"

definition write_p :: "scl_p \<Rightarrow> xml_event list" where
  "write_p p = x_text_elem ''P'' [(''type'', par_kind p)] (par_value p)"

definition write_address :: "address \<Rightarrow> xml_event list" where
  "write_address adr = EvStart ''Address'' [] # concat (map write_p (adr_params adr)) @ [EvEnd ''Address'']"

definition write_gse :: "scl_gse \<Rightarrow> xml_event list" where
  "write_gse g =
    (let a = attr_opt ''ldInst'' (cgse_ld_inst g) @ attr_opt ''cbName'' (cgse_cb_name g)
     in case cgse_address g of
          None \<Rightarrow> [EvEmpty ''GSE'' a]
        | Some adr \<Rightarrow> EvStart ''GSE'' a # write_address adr @ [EvEnd ''GSE''])"

definition write_smv :: "scl_smv \<Rightarrow> xml_event list" where
  "write_smv s =
    (let a = attr_opt ''ldInst'' (csmv_ld_inst s) @ attr_opt ''cbName'' (csmv_cb_name s)
     in case csmv_address s of
          None \<Rightarrow> [EvEmpty ''SMV'' a]
        | Some adr \<Rightarrow> EvStart ''SMV'' a # write_address adr @ [EvEnd ''SMV''])"

definition write_opt :: "('a \<Rightarrow> xml_event list) \<Rightarrow> 'a option \<Rightarrow> xml_event list" where
  "write_opt w x = (case x of Some y \<Rightarrow> w y | None \<Rightarrow> [])"

definition write_connected_ap :: "connected_ap \<Rightarrow> xml_event list" where
  "write_connected_ap ap =
    EvStart ''ConnectedAP'' [(''iedName'', cap_ied_name ap), (''apName'', cap_ap_name ap)] #
    write_opt write_address (cap_address ap) @
    concat (map write_gse (cap_gse ap)) @
    concat (map write_smv (cap_smv ap)) @
    [EvEnd ''ConnectedAP'']"

definition write_subnetwork :: "sub_network \<Rightarrow> xml_event list" where
  "write_subnetwork sn =
    EvStart ''SubNetwork'' (attr_put ''name'' (net_name sn) @ attr_opt ''type'' (net_kind sn)) #
    concat (map write_connected_ap (net_connected_aps sn)) @
    [EvEnd ''SubNetwork'']"

definition write_communication :: "communication \<Rightarrow> xml_event list" where
  "write_communication c =
    EvStart ''Communication'' [] # concat (map write_subnetwork (com_sub_networks c)) @
    [EvEnd ''Communication'']"

section \<open>Data sets and control blocks\<close>

definition write_fcda :: "scl_fcda \<Rightarrow> xml_event list" where
  "write_fcda f =
    [EvEmpty ''FCDA'' (attr_opt ''ldInst'' (sf_ld_inst f) @ attr_opt ''prefix'' (sf_prefix f) @
      attr_opt ''lnClass'' (sf_ln_class f) @ attr_opt ''lnInst'' (sf_ln_inst f) @
      attr_opt ''doName'' (sf_do_name f) @ attr_opt ''daName'' (sf_da_name f) @
      attr_opt ''fc'' (sf_fc f) @ attr_opt ''ix'' (sf_ix f))]"

definition write_dataset :: "scl_data_set \<Rightarrow> xml_event list" where
  "write_dataset ds =
    EvStart ''DataSet'' (attr_put ''name'' (sds_name ds) @ attr_opt ''desc'' (sds_desc ds)) #
    concat (map write_fcda (sds_fcda ds)) @ [EvEnd ''DataSet'']"

text \<open>Written inline for reports and for logs.\<close>

definition write_trg_ops :: "trg_ops \<Rightarrow> xml_event list" where
  "write_trg_ops t =
    [EvEmpty ''TrgOps'' (attr_opt ''dchg'' (map_option show_bool (trg_dchg t)) @
      attr_opt ''qchg'' (map_option show_bool (trg_qchg t)) @
      attr_opt ''dupd'' (map_option show_bool (trg_dupd t)) @
      attr_opt ''period'' (map_option show_bool (trg_period t)) @
      attr_opt ''gi'' (map_option show_bool (trg_gi t)))]"

definition write_report_control :: "scl_report_control \<Rightarrow> xml_event list" where
  "write_report_control rc =
    (let a = attr_put ''name'' (srep_name rc) @ attr_opt ''rptID'' (srep_rpt_id rc) @
           attr_opt ''datSet'' (srep_dat_set rc) @
           attr_opt ''confRev'' (map_option show_u32 (srep_conf_rev rc)) @
           attr_opt ''buffered'' (map_option show_bool (srep_buffered rc)) @
           attr_opt ''intgPd'' (map_option show_u32 (srep_intg_pd rc))
     in case srep_trg_ops rc of
          None \<Rightarrow> [EvEmpty ''ReportControl'' a]
        | Some t \<Rightarrow> EvStart ''ReportControl'' a # write_trg_ops t @ [EvEnd ''ReportControl''])"

definition write_gse_control :: "gse_control \<Rightarrow> xml_event list" where
  "write_gse_control gc =
    [EvEmpty ''GSEControl'' (attr_put ''name'' (gse_name gc) @ attr_opt ''datSet'' (gse_dat_set gc) @
      attr_opt ''confRev'' (map_option show_u32 (gse_conf_rev gc)) @
      attr_opt ''type'' (gse_kind gc) @ attr_opt ''appID'' (gse_app_id gc))]"

definition write_smv_control :: "smv_control \<Rightarrow> xml_event list" where
  "write_smv_control sc =
    [EvEmpty ''SampledValueControl'' (attr_put ''name'' (smv_name sc) @
      attr_opt ''datSet'' (smv_dat_set sc) @
      attr_opt ''confRev'' (map_option show_u32 (smv_conf_rev sc)) @
      attr_opt ''smvID'' (smv_smv_id sc))]"

definition write_log_control :: "scl_log_control \<Rightarrow> xml_event list" where
  "write_log_control lc =
    (let a = attr_put ''name'' (slog_name lc) @ attr_opt ''datSet'' (slog_dat_set lc) @
           attr_opt ''logName'' (slog_log_name lc) @
           attr_opt ''logEna'' (map_option show_bool (slog_log_ena lc)) @
           attr_opt ''intgPd'' (map_option show_u32 (slog_intg_pd lc))
     in case slog_trg_ops lc of
          None \<Rightarrow> [EvEmpty ''LogControl'' a]
        | Some t \<Rightarrow> EvStart ''LogControl'' a # write_trg_ops t @ [EvEnd ''LogControl''])"

definition write_setting_control :: "scl_setting_control \<Rightarrow> xml_event list" where
  "write_setting_control sc =
    [EvEmpty ''SettingControl'' (attr_opt ''desc'' (sset_desc sc) @
      attr_put ''numOfSGs'' (show_u32 (sset_num_of_sgs sc)) @
      attr_opt ''actSG'' (map_option show_u32 (sset_act_sg sc)) @
      attr_opt ''resvTms'' (map_option show_u32 (sset_resv_tms sc)))]"

section \<open>Instances\<close>

definition write_val :: "scl_val \<Rightarrow> xml_event list" where
  "write_val v = x_text_elem ''Val'' (attr_opt ''sGroup'' (map_option show_u32 (val_s_group v))) (val_text v)"

definition write_dai :: "scl_dai \<Rightarrow> xml_event list" where
  "write_dai dai =
    (let a = attr_put ''name'' (dai_name dai) @ attr_opt ''ix'' (dai_ix dai) @
           attr_opt ''sGroup'' (map_option show_u32 (dai_s_group dai))
     in if dai_val dai = [] then [EvEmpty ''DAI'' a]
        else EvStart ''DAI'' a # concat (map write_val (dai_val dai)) @ [EvEnd ''DAI''])"

fun write_sdi :: "scl_sdi \<Rightarrow> xml_event list" where
  "write_sdi (Sdi name ix sdis dais) =
    EvStart ''SDI'' (attr_put ''name'' name @ attr_opt ''ix'' ix) #
    concat (map write_sdi sdis) @ concat (map write_dai dais) @ [EvEnd ''SDI'']"

definition write_doi :: "scl_doi \<Rightarrow> xml_event list" where
  "write_doi doi =
    EvStart ''DOI'' (attr_put ''name'' (doi_name doi) @ attr_opt ''ix'' (doi_ix doi) @
      attr_opt ''desc'' (doi_desc doi)) #
    concat (map write_sdi (doi_sdi doi)) @ concat (map write_dai (doi_dai doi)) @ [EvEnd ''DOI'']"

section \<open>Devices\<close>

definition write_ln :: "bool \<Rightarrow> scl_ln \<Rightarrow> xml_event list" where
  "write_ln is_ln0 ln =
    (let tag = (if is_ln0 then ''LN0'' else ''LN'')
     in EvStart tag ((if sln_prefix ln \<noteq> [] then attr_put ''prefix'' (sln_prefix ln) else []) @
          attr_put ''lnClass'' (sln_ln_class ln) @ attr_put ''inst'' (sln_inst ln) @
          attr_put ''lnType'' (sln_ln_type ln) @ attr_opt ''desc'' (sln_desc ln)) #
        concat (map write_dataset (sln_data_sets ln)) @
        concat (map write_report_control (sln_report_controls ln)) @
        concat (map write_gse_control (sln_gse_controls ln)) @
        concat (map write_smv_control (sln_smv_controls ln)) @
        write_opt write_setting_control (sln_setting_control ln) @
        concat (map write_log_control (sln_log_controls ln)) @
        concat (map write_doi (sln_dois ln)) @
        [EvEnd tag])"

definition write_ldevice :: "l_device \<Rightarrow> xml_event list" where
  "write_ldevice ld =
    EvStart ''LDevice'' (attr_put ''inst'' (ldev_inst ld) @ attr_opt ''ldName'' (ldev_ld_name ld) @
      attr_opt ''desc'' (ldev_desc ld)) #
    write_opt (write_ln True) (ldev_ln0 ld) @
    concat (map (write_ln False) (ldev_lns ld)) @
    [EvEnd ''LDevice'']"

definition write_server :: "scl_server \<Rightarrow> xml_event list" where
  "write_server server =
    EvStart ''Server'' [] # concat (map write_ldevice (srv_ldevices server)) @ [EvEnd ''Server'']"

definition write_access_point :: "access_point \<Rightarrow> xml_event list" where
  "write_access_point ap =
    EvStart ''AccessPoint'' [(''name'', apt_name ap)] # write_opt write_server (apt_server ap) @
    [EvEnd ''AccessPoint'']"

definition write_ied :: "scl_ied \<Rightarrow> xml_event list" where
  "write_ied ied =
    EvStart ''IED'' (attr_put ''name'' (ied_name ied) @ attr_opt ''type'' (ied_kind ied) @
      attr_opt ''manufacturer'' (ied_manufacturer ied) @
      attr_opt ''configVersion'' (ied_config_version ied)) #
    concat (map write_access_point (ied_access_points ied)) @ [EvEnd ''IED'']"

section \<open>Type templates\<close>

definition write_tdo :: "t_do \<Rightarrow> xml_event list" where
  "write_tdo d =
    [EvEmpty ''DO'' (attr_put ''name'' (tdo_name d) @ attr_put ''type'' (tdo_kind d) @
      attr_opt ''transient'' (map_option show_bool (tdo_transient d)) @ attr_opt ''desc'' (tdo_desc d))]"

definition write_lnode_type :: "l_node_type \<Rightarrow> xml_event list" where
  "write_lnode_type lt =
    EvStart ''LNodeType'' (attr_put ''id'' (lnt_id lt) @ attr_put ''lnClass'' (lnt_ln_class lt) @
      attr_opt ''desc'' (lnt_desc lt)) #
    concat (map write_tdo (lnt_dos lt)) @ [EvEnd ''LNodeType'']"

definition write_sdo :: "t_sdo \<Rightarrow> xml_event list" where
  "write_sdo sdo =
    [EvEmpty ''SDO'' (attr_put ''name'' (sdo_name sdo) @ attr_put ''type'' (sdo_kind sdo) @
      attr_opt ''desc'' (sdo_desc sdo))]"

definition write_da :: "t_da \<Rightarrow> xml_event list" where
  "write_da da =
    (let a = attr_put ''name'' (tda_name da) @ attr_opt ''desc'' (tda_desc da) @
           attr_put ''fc'' (tda_fc da) @ attr_put ''bType'' (tda_b_type da) @
           attr_opt ''type'' (tda_kind da) @
           attr_opt ''dchg'' (map_option show_bool (tda_dchg da)) @
           attr_opt ''qchg'' (map_option show_bool (tda_qchg da)) @
           attr_opt ''dupd'' (map_option show_bool (tda_dupd da))
     in if tda_val da = [] then [EvEmpty ''DA'' a]
        else EvStart ''DA'' a # concat (map write_val (tda_val da)) @ [EvEnd ''DA''])"

definition write_do_type :: "do_type \<Rightarrow> xml_event list" where
  "write_do_type dt =
    EvStart ''DOType'' (attr_put ''id'' (dot_id dt) @ attr_put ''cdc'' (dot_cdc dt) @
      attr_opt ''desc'' (dot_desc dt)) #
    concat (map write_da (dot_das dt)) @ concat (map write_sdo (dot_sdos dt)) @ [EvEnd ''DOType'']"

definition write_bda :: "t_bda \<Rightarrow> xml_event list" where
  "write_bda bda =
    (let a = attr_put ''name'' (bda_name bda) @ attr_opt ''desc'' (bda_desc bda) @
           attr_put ''bType'' (bda_b_type bda) @ attr_opt ''type'' (bda_kind bda)
     in if bda_val bda = [] then [EvEmpty ''BDA'' a]
        else EvStart ''BDA'' a # concat (map write_val (bda_val bda)) @ [EvEnd ''BDA''])"

definition write_da_type :: "da_type \<Rightarrow> xml_event list" where
  "write_da_type dat =
    EvStart ''DAType'' (attr_put ''id'' (dat_id dat) @ attr_opt ''desc'' (dat_desc dat)) #
    concat (map write_bda (dat_bdas dat)) @ [EvEnd ''DAType'']"

definition write_enum_val :: "enum_val \<Rightarrow> xml_event list" where
  "write_enum_val ev = x_text_elem ''EnumVal'' [(''ord'', show_int (env_ord ev))] (env_text ev)"

definition write_enum_type :: "enum_type \<Rightarrow> xml_event list" where
  "write_enum_type et =
    EvStart ''EnumType'' [(''id'', ent_id et)] # concat (map write_enum_val (ent_values et)) @
    [EvEnd ''EnumType'']"

definition write_templates :: "data_type_templates \<Rightarrow> xml_event list" where
  "write_templates dtt =
    EvStart ''DataTypeTemplates'' [] #
    concat (map write_lnode_type (tpl_lnode_types dtt)) @
    concat (map write_do_type (tpl_do_types dtt)) @
    concat (map write_da_type (tpl_da_types dtt)) @
    concat (map write_enum_type (tpl_enum_types dtt)) @
    [EvEnd ''DataTypeTemplates'']"

section \<open>The document\<close>

definition scl_ns :: string where
  "scl_ns = ''http://www.iec.ch/61850/2003/SCL''"

definition xml_declaration :: string where
  "xml_declaration = ''<?xml version='' @ [CHR 0x22] @ ''1.0'' @ [CHR 0x22] @ '' encoding='' @ [CHR 0x22]
     @ ''UTF-8'' @ [CHR 0x22] @ ''?>''"

definition write_document :: "scl_document \<Rightarrow> xml_event list" where
  "write_document doc =
    EvRaw xml_declaration # EvRaw [CHR 0x0A] # EvStart ''SCL'' [(''xmlns'', scl_ns)] #
    write_opt write_header (scl_header doc) @
    write_opt write_communication (scl_communication doc) @
    concat (map write_ied (scl_ieds doc)) @
    write_opt write_templates (scl_templates doc) @
    [EvEnd ''SCL'']"

text \<open>\<open>write_scl_str\<close> and \<open>write_scl_file\<close>: the rendering of events (\<open>render\<close>) and the error of
  \<open>String::from_utf8\<close> (\<open>not_utf8\<close>) are parameters, as is writing the file.\<close>

definition write_scl_str ::
    "(xml_event list \<Rightarrow> bytes) \<Rightarrow> (bytes \<Rightarrow> 'xml) \<Rightarrow> scl_document \<Rightarrow> ('io, 'xml) scl_error + string" where
  "write_scl_str render not_utf8 doc =
    (let out = render (write_document doc)
     in case from_utf8 out of Some s \<Rightarrow> Inr s | None \<Rightarrow> Inl (SclXml (not_utf8 out)))"

definition write_scl_file ::
    "(xml_event list \<Rightarrow> bytes) \<Rightarrow> (bytes \<Rightarrow> 'xml) \<Rightarrow> (string \<Rightarrow> string \<Rightarrow> 'io + unit) \<Rightarrow> scl_document
      \<Rightarrow> string \<Rightarrow> ('io, 'xml) scl_error + unit" where
  "write_scl_file render not_utf8 write doc path =
    bindE (write_scl_str render not_utf8 doc) (\<lambda>xml. map_errE (SclIo path) (write path xml))"

section \<open>Nothing is lost in writing\<close>

named_theorems xml "heads and injectivity of what is written"

lemma show_inj [xml]: "show_u32 v = show_u32 w \<longleftrightarrow> v = w" "show_bool b = show_bool c \<longleftrightarrow> b = c"
  "map_option show_u32 ov = map_option show_u32 ow \<longleftrightarrow> ov = ow"
  "map_option show_bool ob = map_option show_bool oc \<longleftrightarrow> ob = oc" "show_int i = show_int j \<longleftrightarrow> i = j"
proof -
  show u: "show_u32 v = show_u32 w \<longleftrightarrow> v = w" for v w
    by (simp add: show_u32_def show_nat_inj word_unat_eq_iff)
  show b: "show_bool b = show_bool c \<longleftrightarrow> b = c" for b c by (simp add: show_bool_def)
  show "map_option show_u32 ov = map_option show_u32 ow \<longleftrightarrow> ov = ow"
    by (cases ov; cases ow) (simp_all add: u)
  show "map_option show_bool ob = map_option show_bool oc \<longleftrightarrow> ob = oc"
    by (cases ob; cases oc) (simp_all add: b)
qed (rule show_int_inj)

text \<open>The key of the first attribute, and the name that opens a list of events.\<close>

fun key_of :: "attrs \<Rightarrow> string option" where
  "key_of [] = None"
| "key_of ((k, v) # a) = Some k"

fun ev_name :: "xml_event list \<Rightarrow> string option" where
  "ev_name (EvStart n a # es) = Some n"
| "ev_name (EvEmpty n a # es) = Some n"
| "ev_name es = None"

text \<open>Every element is closed by its own name; the first argument holds the open ones.\<close>

fun nested :: "string list \<Rightarrow> xml_event list \<Rightarrow> bool" where
  "nested open_names [] \<longleftrightarrow> open_names = []"
| "nested open_names (EvStart n a # es) \<longleftrightarrow> nested (n # open_names) es"
| "nested (m # open_names) (EvEnd n # es) \<longleftrightarrow> m = n \<and> nested open_names es"
| "nested [] (EvEnd n # es) \<longleftrightarrow> False"
| "nested open_names (e # es) \<longleftrightarrow> nested open_names es"

lemma nested_many:
  assumes "\<And>x r st. nested st (w x @ r) = nested st r"
  shows "nested st (concat (map w xs) @ r) = nested st r"
  using assms by (induction xs) simp_all

lemma nested_opt:
  assumes "\<And>x r st. nested st (w x @ r) = nested st r"
  shows "nested st (write_opt w x @ r) = nested st r"
  using assms by (cases x) (simp_all add: write_opt_def)

lemma key_of_opt [xml]: "key_of (attr_opt k v @ a) = (if v = None then key_of a else Some k)"
  "key_of (attr_opt k v) = (if v = None then None else Some k)"
  by (auto simp: attr_opt_def split: option.splits)

lemma attr_opt_eq [xml]:
  "key_of a \<noteq> Some k \<Longrightarrow> key_of b \<noteq> Some k \<Longrightarrow> attr_opt k v @ a = attr_opt k w @ b \<longleftrightarrow> v = w \<and> a = b"
  "attr_opt k v = attr_opt k w \<longleftrightarrow> v = w"
  by (auto simp: attr_opt_def split: option.splits)

lemmas attr_put_cons [xml] = attr_put_def

lemma many_eq:
  assumes "\<And>x y r s. w x @ r = w y @ s \<longleftrightarrow> x = y \<and> r = s" "\<And>x r. ev_name (w x @ r) = Some t"
  shows "ev_name r \<noteq> Some t \<Longrightarrow> ev_name s \<noteq> Some t \<Longrightarrow>
    concat (map w xs) @ r = concat (map w ys) @ s \<longleftrightarrow> xs = ys \<and> r = s"
proof (induction xs arbitrary: ys)
  case Nil
  then show ?case using assms(2) by (cases ys) auto
next
  case (Cons x xs)
  then show ?case using assms(1) assms(2) [of x "concat (map w xs) @ r"] by (cases ys) auto
qed

lemma ev_name_many:
  assumes "\<And>x r. ev_name (w x @ r) = Some t"
  shows "ev_name (concat (map w xs) @ r) = (if xs = [] then ev_name r else Some t)"
  using assms by (cases xs) auto

lemma opt_eq:
  assumes "\<And>x y r s. w x @ r = w y @ s \<longleftrightarrow> x = y \<and> r = s" "\<And>x r. ev_name (w x @ r) = Some t"
  shows "ev_name r \<noteq> Some t \<Longrightarrow> ev_name s \<noteq> Some t \<Longrightarrow>
    write_opt w x @ r = write_opt w y @ s \<longleftrightarrow> x = y \<and> r = s"
  using assms(1) assms(2) [of "the x" r] assms(2) [of "the y" s]
  by (cases x; cases y) (auto simp: write_opt_def)

lemma ev_name_opt:
  assumes "\<And>x r. ev_name (w x @ r) = Some t"
  shows "ev_name (write_opt w x @ r) = (if x = None then ev_name r else Some t)"
  using assms by (cases x) (auto simp: write_opt_def)

lemma header_head: "ev_name (write_header x @ r) = Some ''Header''"
  by (simp add: write_header_def x_text_elem_def Let_def split: option.splits)

lemma header_eq: "write_header x @ r = write_header y @ s \<longleftrightarrow> x = y \<and> r = s"
  by (cases x; cases y) (auto simp: write_header_def x_text_elem_def Let_def xml split: option.splits if_splits)

lemma header_nested: "nested st (write_header x @ r) = nested st r"
  by (simp add: write_header_def x_text_elem_def Let_def xml split: option.splits)

lemmas header_xml [xml] = header_head
  header_eq
  header_nested
  opt_eq [of write_header, OF header_eq header_head]
  ev_name_opt [of write_header, OF header_head]
  nested_opt [of write_header, OF header_nested]

lemma p_head: "ev_name (write_p x @ r) = Some ''P''"
  by (simp add: write_p_def x_text_elem_def Let_def split: option.splits)

lemma p_eq: "write_p x @ r = write_p y @ s \<longleftrightarrow> x = y \<and> r = s"
  by (cases x; cases y) (auto simp: write_p_def x_text_elem_def Let_def xml split: option.splits if_splits)

lemma p_nested: "nested st (write_p x @ r) = nested st r"
  by (simp add: write_p_def x_text_elem_def Let_def xml split: option.splits)

lemmas p_xml [xml] = p_head
  p_eq
  p_nested
  many_eq [of write_p, OF p_eq p_head]
  ev_name_many [of write_p, OF p_head]
  nested_many [of write_p, OF p_nested]

lemma address_head: "ev_name (write_address x @ r) = Some ''Address''"
  by (simp add: write_address_def x_text_elem_def Let_def split: option.splits)

lemma address_eq: "write_address x @ r = write_address y @ s \<longleftrightarrow> x = y \<and> r = s"
  by (cases x; cases y) (auto simp: write_address_def x_text_elem_def Let_def xml split: option.splits if_splits)

lemma address_nested: "nested st (write_address x @ r) = nested st r"
  by (simp add: write_address_def x_text_elem_def Let_def xml split: option.splits)

lemmas address_xml [xml] = address_head
  address_eq
  address_nested
  opt_eq [of write_address, OF address_eq address_head]
  ev_name_opt [of write_address, OF address_head]
  nested_opt [of write_address, OF address_nested]

lemma gse_head: "ev_name (write_gse x @ r) = Some ''GSE''"
  by (simp add: write_gse_def x_text_elem_def Let_def split: option.splits)

lemma gse_eq: "write_gse x @ r = write_gse y @ s \<longleftrightarrow> x = y \<and> r = s"
  by (cases x; cases y) (auto simp: write_gse_def x_text_elem_def Let_def xml split: option.splits if_splits)

lemma gse_nested: "nested st (write_gse x @ r) = nested st r"
  by (simp add: write_gse_def x_text_elem_def Let_def xml split: option.splits)

lemmas gse_xml [xml] = gse_head
  gse_eq
  gse_nested
  many_eq [of write_gse, OF gse_eq gse_head]
  ev_name_many [of write_gse, OF gse_head]
  nested_many [of write_gse, OF gse_nested]

lemma smv_head: "ev_name (write_smv x @ r) = Some ''SMV''"
  by (simp add: write_smv_def x_text_elem_def Let_def split: option.splits)

lemma smv_eq: "write_smv x @ r = write_smv y @ s \<longleftrightarrow> x = y \<and> r = s"
  by (cases x; cases y) (auto simp: write_smv_def x_text_elem_def Let_def xml split: option.splits if_splits)

lemma smv_nested: "nested st (write_smv x @ r) = nested st r"
  by (simp add: write_smv_def x_text_elem_def Let_def xml split: option.splits)

lemmas smv_xml [xml] = smv_head
  smv_eq
  smv_nested
  many_eq [of write_smv, OF smv_eq smv_head]
  ev_name_many [of write_smv, OF smv_head]
  nested_many [of write_smv, OF smv_nested]

lemma connected_ap_head: "ev_name (write_connected_ap x @ r) = Some ''ConnectedAP''"
  by (simp add: write_connected_ap_def x_text_elem_def Let_def split: option.splits)

lemma connected_ap_eq: "write_connected_ap x @ r = write_connected_ap y @ s \<longleftrightarrow> x = y \<and> r = s"
  by (cases x; cases y) (auto simp: write_connected_ap_def x_text_elem_def Let_def xml split: option.splits if_splits)

lemma connected_ap_nested: "nested st (write_connected_ap x @ r) = nested st r"
  by (simp add: write_connected_ap_def x_text_elem_def Let_def xml split: option.splits)

lemmas connected_ap_xml [xml] = connected_ap_head
  connected_ap_eq
  connected_ap_nested
  many_eq [of write_connected_ap, OF connected_ap_eq connected_ap_head]
  ev_name_many [of write_connected_ap, OF connected_ap_head]
  nested_many [of write_connected_ap, OF connected_ap_nested]

lemma subnetwork_head: "ev_name (write_subnetwork x @ r) = Some ''SubNetwork''"
  by (simp add: write_subnetwork_def x_text_elem_def Let_def split: option.splits)

lemma subnetwork_eq: "write_subnetwork x @ r = write_subnetwork y @ s \<longleftrightarrow> x = y \<and> r = s"
  by (cases x; cases y) (auto simp: write_subnetwork_def x_text_elem_def Let_def xml split: option.splits if_splits)

lemma subnetwork_nested: "nested st (write_subnetwork x @ r) = nested st r"
  by (simp add: write_subnetwork_def x_text_elem_def Let_def xml split: option.splits)

lemmas subnetwork_xml [xml] = subnetwork_head
  subnetwork_eq
  subnetwork_nested
  many_eq [of write_subnetwork, OF subnetwork_eq subnetwork_head]
  ev_name_many [of write_subnetwork, OF subnetwork_head]
  nested_many [of write_subnetwork, OF subnetwork_nested]

lemma communication_head: "ev_name (write_communication x @ r) = Some ''Communication''"
  by (simp add: write_communication_def x_text_elem_def Let_def split: option.splits)

lemma communication_eq: "write_communication x @ r = write_communication y @ s \<longleftrightarrow> x = y \<and> r = s"
  by (cases x; cases y) (auto simp: write_communication_def x_text_elem_def Let_def xml split: option.splits if_splits)

lemma communication_nested: "nested st (write_communication x @ r) = nested st r"
  by (simp add: write_communication_def x_text_elem_def Let_def xml split: option.splits)

lemmas communication_xml [xml] = communication_head
  communication_eq
  communication_nested
  opt_eq [of write_communication, OF communication_eq communication_head]
  ev_name_opt [of write_communication, OF communication_head]
  nested_opt [of write_communication, OF communication_nested]

lemma fcda_head: "ev_name (write_fcda x @ r) = Some ''FCDA''"
  by (simp add: write_fcda_def x_text_elem_def Let_def split: option.splits)

lemma fcda_eq: "write_fcda x @ r = write_fcda y @ s \<longleftrightarrow> x = y \<and> r = s"
  by (cases x; cases y) (auto simp: write_fcda_def x_text_elem_def Let_def xml split: option.splits if_splits)

lemma fcda_nested: "nested st (write_fcda x @ r) = nested st r"
  by (simp add: write_fcda_def x_text_elem_def Let_def xml split: option.splits)

lemmas fcda_xml [xml] = fcda_head
  fcda_eq
  fcda_nested
  many_eq [of write_fcda, OF fcda_eq fcda_head]
  ev_name_many [of write_fcda, OF fcda_head]
  nested_many [of write_fcda, OF fcda_nested]

lemma dataset_head: "ev_name (write_dataset x @ r) = Some ''DataSet''"
  by (simp add: write_dataset_def x_text_elem_def Let_def split: option.splits)

lemma dataset_eq: "write_dataset x @ r = write_dataset y @ s \<longleftrightarrow> x = y \<and> r = s"
  by (cases x; cases y) (auto simp: write_dataset_def x_text_elem_def Let_def xml split: option.splits if_splits)

lemma dataset_nested: "nested st (write_dataset x @ r) = nested st r"
  by (simp add: write_dataset_def x_text_elem_def Let_def xml split: option.splits)

lemmas dataset_xml [xml] = dataset_head
  dataset_eq
  dataset_nested
  many_eq [of write_dataset, OF dataset_eq dataset_head]
  ev_name_many [of write_dataset, OF dataset_head]
  nested_many [of write_dataset, OF dataset_nested]

lemma trg_ops_head: "ev_name (write_trg_ops x @ r) = Some ''TrgOps''"
  by (simp add: write_trg_ops_def x_text_elem_def Let_def split: option.splits)

lemma trg_ops_eq: "write_trg_ops x @ r = write_trg_ops y @ s \<longleftrightarrow> x = y \<and> r = s"
  by (cases x; cases y) (auto simp: write_trg_ops_def x_text_elem_def Let_def xml split: option.splits if_splits)

lemma trg_ops_nested: "nested st (write_trg_ops x @ r) = nested st r"
  by (simp add: write_trg_ops_def x_text_elem_def Let_def xml split: option.splits)

lemmas trg_ops_xml [xml] = trg_ops_head
  trg_ops_eq
  trg_ops_nested

lemma report_control_head: "ev_name (write_report_control x @ r) = Some ''ReportControl''"
  by (simp add: write_report_control_def x_text_elem_def Let_def split: option.splits)

lemma report_control_eq: "write_report_control x @ r = write_report_control y @ s \<longleftrightarrow> x = y \<and> r = s"
  by (cases x; cases y) (auto simp: write_report_control_def x_text_elem_def Let_def xml split: option.splits if_splits)

lemma report_control_nested: "nested st (write_report_control x @ r) = nested st r"
  by (simp add: write_report_control_def x_text_elem_def Let_def xml split: option.splits)

lemmas report_control_xml [xml] = report_control_head
  report_control_eq
  report_control_nested
  many_eq [of write_report_control, OF report_control_eq report_control_head]
  ev_name_many [of write_report_control, OF report_control_head]
  nested_many [of write_report_control, OF report_control_nested]

lemma gse_control_head: "ev_name (write_gse_control x @ r) = Some ''GSEControl''"
  by (simp add: write_gse_control_def x_text_elem_def Let_def split: option.splits)

lemma gse_control_eq: "write_gse_control x @ r = write_gse_control y @ s \<longleftrightarrow> x = y \<and> r = s"
  by (cases x; cases y) (auto simp: write_gse_control_def x_text_elem_def Let_def xml split: option.splits if_splits)

lemma gse_control_nested: "nested st (write_gse_control x @ r) = nested st r"
  by (simp add: write_gse_control_def x_text_elem_def Let_def xml split: option.splits)

lemmas gse_control_xml [xml] = gse_control_head
  gse_control_eq
  gse_control_nested
  many_eq [of write_gse_control, OF gse_control_eq gse_control_head]
  ev_name_many [of write_gse_control, OF gse_control_head]
  nested_many [of write_gse_control, OF gse_control_nested]

lemma smv_control_head: "ev_name (write_smv_control x @ r) = Some ''SampledValueControl''"
  by (simp add: write_smv_control_def x_text_elem_def Let_def split: option.splits)

lemma smv_control_eq: "write_smv_control x @ r = write_smv_control y @ s \<longleftrightarrow> x = y \<and> r = s"
  by (cases x; cases y) (auto simp: write_smv_control_def x_text_elem_def Let_def xml split: option.splits if_splits)

lemma smv_control_nested: "nested st (write_smv_control x @ r) = nested st r"
  by (simp add: write_smv_control_def x_text_elem_def Let_def xml split: option.splits)

lemmas smv_control_xml [xml] = smv_control_head
  smv_control_eq
  smv_control_nested
  many_eq [of write_smv_control, OF smv_control_eq smv_control_head]
  ev_name_many [of write_smv_control, OF smv_control_head]
  nested_many [of write_smv_control, OF smv_control_nested]

lemma log_control_head: "ev_name (write_log_control x @ r) = Some ''LogControl''"
  by (simp add: write_log_control_def x_text_elem_def Let_def split: option.splits)

lemma log_control_eq: "write_log_control x @ r = write_log_control y @ s \<longleftrightarrow> x = y \<and> r = s"
  by (cases x; cases y) (auto simp: write_log_control_def x_text_elem_def Let_def xml split: option.splits if_splits)

lemma log_control_nested: "nested st (write_log_control x @ r) = nested st r"
  by (simp add: write_log_control_def x_text_elem_def Let_def xml split: option.splits)

lemmas log_control_xml [xml] = log_control_head
  log_control_eq
  log_control_nested
  many_eq [of write_log_control, OF log_control_eq log_control_head]
  ev_name_many [of write_log_control, OF log_control_head]
  nested_many [of write_log_control, OF log_control_nested]

lemma setting_control_head: "ev_name (write_setting_control x @ r) = Some ''SettingControl''"
  by (simp add: write_setting_control_def x_text_elem_def Let_def split: option.splits)

lemma setting_control_eq: "write_setting_control x @ r = write_setting_control y @ s \<longleftrightarrow> x = y \<and> r = s"
  by (cases x; cases y) (auto simp: write_setting_control_def x_text_elem_def Let_def xml split: option.splits if_splits)

lemma setting_control_nested: "nested st (write_setting_control x @ r) = nested st r"
  by (simp add: write_setting_control_def x_text_elem_def Let_def xml split: option.splits)

lemmas setting_control_xml [xml] = setting_control_head
  setting_control_eq
  setting_control_nested
  opt_eq [of write_setting_control, OF setting_control_eq setting_control_head]
  ev_name_opt [of write_setting_control, OF setting_control_head]
  nested_opt [of write_setting_control, OF setting_control_nested]

lemma val_head: "ev_name (write_val x @ r) = Some ''Val''"
  by (simp add: write_val_def x_text_elem_def Let_def split: option.splits)

lemma val_eq: "write_val x @ r = write_val y @ s \<longleftrightarrow> x = y \<and> r = s"
  by (cases x; cases y) (auto simp: write_val_def x_text_elem_def Let_def xml split: option.splits if_splits)

lemma val_nested: "nested st (write_val x @ r) = nested st r"
  by (simp add: write_val_def x_text_elem_def Let_def xml split: option.splits)

lemmas val_xml [xml] = val_head
  val_eq
  val_nested
  many_eq [of write_val, OF val_eq val_head]
  ev_name_many [of write_val, OF val_head]
  nested_many [of write_val, OF val_nested]

lemma dai_head: "ev_name (write_dai x @ r) = Some ''DAI''"
  by (simp add: write_dai_def x_text_elem_def Let_def split: option.splits)

lemma dai_eq: "write_dai x @ r = write_dai y @ s \<longleftrightarrow> x = y \<and> r = s"
  by (cases x; cases y) (auto simp: write_dai_def x_text_elem_def Let_def xml split: option.splits if_splits)

lemma dai_nested: "nested st (write_dai x @ r) = nested st r"
  by (simp add: write_dai_def x_text_elem_def Let_def xml split: option.splits)

lemmas dai_xml [xml] = dai_head
  dai_eq
  dai_nested
  many_eq [of write_dai, OF dai_eq dai_head]
  ev_name_many [of write_dai, OF dai_head]
  nested_many [of write_dai, OF dai_nested]

lemma sdi_head: "ev_name (write_sdi x @ r) = Some ''SDI''"
  by (cases x) simp

lemma sdi_eq: "write_sdi x @ r = write_sdi y @ s \<longleftrightarrow> x = y \<and> r = s"
proof (induction x arbitrary: y r s)
  case (Sdi n ix sdis dais)
  obtain n' ix' sdis' dais' where y: "y = Sdi n' ix' sdis' dais'" by (cases y)
  have "ev_name r \<noteq> Some ''SDI'' \<Longrightarrow> ev_name s \<noteq> Some ''SDI'' \<Longrightarrow>
      concat (map write_sdi xs) @ r = concat (map write_sdi ys) @ s \<longleftrightarrow> xs = ys \<and> r = s"
    if "set xs \<subseteq> set sdis" for xs ys r s
    using that
  proof (induction xs arbitrary: ys)
    case Nil
    then show ?case using sdi_head by (cases ys) auto
  next
    case (Cons a xs)
    then show ?case using Sdi.IH [of a] sdi_head [of a "concat (map write_sdi xs) @ r"] by (cases ys) auto
  qed
  then show ?case by (auto simp: y xml)
qed

lemma sdi_nested: "nested st (write_sdi x @ r) = nested st r"
proof (induction x arbitrary: st r)
  case (Sdi n ix sdis dais)
  have "nested st (concat (map write_sdi xs) @ r) = nested st r" if "set xs \<subseteq> set sdis" for xs st r
    using that Sdi.IH by (induction xs) simp_all
  then show ?case by (simp add: xml)
qed

lemmas sdi_xml [xml] = sdi_head sdi_eq sdi_nested nested_many [of write_sdi, OF sdi_nested]
  many_eq [of write_sdi, OF sdi_eq sdi_head] ev_name_many [of write_sdi, OF sdi_head]

lemma doi_head: "ev_name (write_doi x @ r) = Some ''DOI''"
  by (simp add: write_doi_def x_text_elem_def Let_def split: option.splits)

lemma doi_eq: "write_doi x @ r = write_doi y @ s \<longleftrightarrow> x = y \<and> r = s"
  by (cases x; cases y) (auto simp: write_doi_def x_text_elem_def Let_def xml split: option.splits if_splits)

lemma doi_nested: "nested st (write_doi x @ r) = nested st r"
  by (simp add: write_doi_def x_text_elem_def Let_def xml split: option.splits)

lemmas doi_xml [xml] = doi_head
  doi_eq
  doi_nested
  many_eq [of write_doi, OF doi_eq doi_head]
  ev_name_many [of write_doi, OF doi_head]
  nested_many [of write_doi, OF doi_nested]

lemma ln_head: "ev_name (write_ln z x @ r) = Some (if z then ''LN0'' else ''LN'')"
  by (simp add: write_ln_def Let_def)

lemma ln_eq: "write_ln z x @ r = write_ln z y @ s \<longleftrightarrow> x = y \<and> r = s"
  by (cases x; cases y) (auto simp: write_ln_def Let_def xml split: if_splits)

lemma ln_nested: "nested st (write_ln z x @ r) = nested st r"
  by (simp add: write_ln_def Let_def xml)

lemmas ln_xml [xml] = ln_head ln_eq ln_nested
  nested_many [of "write_ln False", OF ln_nested] nested_opt [of "write_ln True", OF ln_nested]
  many_eq [of "write_ln False", OF ln_eq ln_head] ev_name_many [of "write_ln False", OF ln_head]
  opt_eq [of "write_ln True", OF ln_eq ln_head] ev_name_opt [of "write_ln True", OF ln_head]

lemma ldevice_head: "ev_name (write_ldevice x @ r) = Some ''LDevice''"
  by (simp add: write_ldevice_def x_text_elem_def Let_def split: option.splits)

lemma ldevice_eq: "write_ldevice x @ r = write_ldevice y @ s \<longleftrightarrow> x = y \<and> r = s"
  by (cases x; cases y) (auto simp: write_ldevice_def x_text_elem_def Let_def xml split: option.splits if_splits)

lemma ldevice_nested: "nested st (write_ldevice x @ r) = nested st r"
  by (simp add: write_ldevice_def x_text_elem_def Let_def xml split: option.splits)

lemmas ldevice_xml [xml] = ldevice_head
  ldevice_eq
  ldevice_nested
  many_eq [of write_ldevice, OF ldevice_eq ldevice_head]
  ev_name_many [of write_ldevice, OF ldevice_head]
  nested_many [of write_ldevice, OF ldevice_nested]

lemma server_head: "ev_name (write_server x @ r) = Some ''Server''"
  by (simp add: write_server_def x_text_elem_def Let_def split: option.splits)

lemma server_eq: "write_server x @ r = write_server y @ s \<longleftrightarrow> x = y \<and> r = s"
  by (cases x; cases y) (auto simp: write_server_def x_text_elem_def Let_def xml split: option.splits if_splits)

lemma server_nested: "nested st (write_server x @ r) = nested st r"
  by (simp add: write_server_def x_text_elem_def Let_def xml split: option.splits)

lemmas server_xml [xml] = server_head
  server_eq
  server_nested
  opt_eq [of write_server, OF server_eq server_head]
  ev_name_opt [of write_server, OF server_head]
  nested_opt [of write_server, OF server_nested]

lemma access_point_head: "ev_name (write_access_point x @ r) = Some ''AccessPoint''"
  by (simp add: write_access_point_def x_text_elem_def Let_def split: option.splits)

lemma access_point_eq: "write_access_point x @ r = write_access_point y @ s \<longleftrightarrow> x = y \<and> r = s"
  by (cases x; cases y) (auto simp: write_access_point_def x_text_elem_def Let_def xml split: option.splits if_splits)

lemma access_point_nested: "nested st (write_access_point x @ r) = nested st r"
  by (simp add: write_access_point_def x_text_elem_def Let_def xml split: option.splits)

lemmas access_point_xml [xml] = access_point_head
  access_point_eq
  access_point_nested
  many_eq [of write_access_point, OF access_point_eq access_point_head]
  ev_name_many [of write_access_point, OF access_point_head]
  nested_many [of write_access_point, OF access_point_nested]

lemma ied_head: "ev_name (write_ied x @ r) = Some ''IED''"
  by (simp add: write_ied_def x_text_elem_def Let_def split: option.splits)

lemma ied_eq: "write_ied x @ r = write_ied y @ s \<longleftrightarrow> x = y \<and> r = s"
  by (cases x; cases y) (auto simp: write_ied_def x_text_elem_def Let_def xml split: option.splits if_splits)

lemma ied_nested: "nested st (write_ied x @ r) = nested st r"
  by (simp add: write_ied_def x_text_elem_def Let_def xml split: option.splits)

lemmas ied_xml [xml] = ied_head
  ied_eq
  ied_nested
  many_eq [of write_ied, OF ied_eq ied_head]
  ev_name_many [of write_ied, OF ied_head]
  nested_many [of write_ied, OF ied_nested]

lemma tdo_head: "ev_name (write_tdo x @ r) = Some ''DO''"
  by (simp add: write_tdo_def x_text_elem_def Let_def split: option.splits)

lemma tdo_eq: "write_tdo x @ r = write_tdo y @ s \<longleftrightarrow> x = y \<and> r = s"
  by (cases x; cases y) (auto simp: write_tdo_def x_text_elem_def Let_def xml split: option.splits if_splits)

lemma tdo_nested: "nested st (write_tdo x @ r) = nested st r"
  by (simp add: write_tdo_def x_text_elem_def Let_def xml split: option.splits)

lemmas tdo_xml [xml] = tdo_head
  tdo_eq
  tdo_nested
  many_eq [of write_tdo, OF tdo_eq tdo_head]
  ev_name_many [of write_tdo, OF tdo_head]
  nested_many [of write_tdo, OF tdo_nested]

lemma lnode_type_head: "ev_name (write_lnode_type x @ r) = Some ''LNodeType''"
  by (simp add: write_lnode_type_def x_text_elem_def Let_def split: option.splits)

lemma lnode_type_eq: "write_lnode_type x @ r = write_lnode_type y @ s \<longleftrightarrow> x = y \<and> r = s"
  by (cases x; cases y) (auto simp: write_lnode_type_def x_text_elem_def Let_def xml split: option.splits if_splits)

lemma lnode_type_nested: "nested st (write_lnode_type x @ r) = nested st r"
  by (simp add: write_lnode_type_def x_text_elem_def Let_def xml split: option.splits)

lemmas lnode_type_xml [xml] = lnode_type_head
  lnode_type_eq
  lnode_type_nested
  many_eq [of write_lnode_type, OF lnode_type_eq lnode_type_head]
  ev_name_many [of write_lnode_type, OF lnode_type_head]
  nested_many [of write_lnode_type, OF lnode_type_nested]

lemma sdo_head: "ev_name (write_sdo x @ r) = Some ''SDO''"
  by (simp add: write_sdo_def x_text_elem_def Let_def split: option.splits)

lemma sdo_eq: "write_sdo x @ r = write_sdo y @ s \<longleftrightarrow> x = y \<and> r = s"
  by (cases x; cases y) (auto simp: write_sdo_def x_text_elem_def Let_def xml split: option.splits if_splits)

lemma sdo_nested: "nested st (write_sdo x @ r) = nested st r"
  by (simp add: write_sdo_def x_text_elem_def Let_def xml split: option.splits)

lemmas sdo_xml [xml] = sdo_head
  sdo_eq
  sdo_nested
  many_eq [of write_sdo, OF sdo_eq sdo_head]
  ev_name_many [of write_sdo, OF sdo_head]
  nested_many [of write_sdo, OF sdo_nested]

lemma da_head: "ev_name (write_da x @ r) = Some ''DA''"
  by (simp add: write_da_def x_text_elem_def Let_def split: option.splits)

lemma da_eq: "write_da x @ r = write_da y @ s \<longleftrightarrow> x = y \<and> r = s"
  by (cases x; cases y) (auto simp: write_da_def x_text_elem_def Let_def xml split: option.splits if_splits)

lemma da_nested: "nested st (write_da x @ r) = nested st r"
  by (simp add: write_da_def x_text_elem_def Let_def xml split: option.splits)

lemmas da_xml [xml] = da_head
  da_eq
  da_nested
  many_eq [of write_da, OF da_eq da_head]
  ev_name_many [of write_da, OF da_head]
  nested_many [of write_da, OF da_nested]

lemma do_type_head: "ev_name (write_do_type x @ r) = Some ''DOType''"
  by (simp add: write_do_type_def x_text_elem_def Let_def split: option.splits)

lemma do_type_eq: "write_do_type x @ r = write_do_type y @ s \<longleftrightarrow> x = y \<and> r = s"
  by (cases x; cases y) (auto simp: write_do_type_def x_text_elem_def Let_def xml split: option.splits if_splits)

lemma do_type_nested: "nested st (write_do_type x @ r) = nested st r"
  by (simp add: write_do_type_def x_text_elem_def Let_def xml split: option.splits)

lemmas do_type_xml [xml] = do_type_head
  do_type_eq
  do_type_nested
  many_eq [of write_do_type, OF do_type_eq do_type_head]
  ev_name_many [of write_do_type, OF do_type_head]
  nested_many [of write_do_type, OF do_type_nested]

lemma bda_head: "ev_name (write_bda x @ r) = Some ''BDA''"
  by (simp add: write_bda_def x_text_elem_def Let_def split: option.splits)

lemma bda_eq: "write_bda x @ r = write_bda y @ s \<longleftrightarrow> x = y \<and> r = s"
  by (cases x; cases y) (auto simp: write_bda_def x_text_elem_def Let_def xml split: option.splits if_splits)

lemma bda_nested: "nested st (write_bda x @ r) = nested st r"
  by (simp add: write_bda_def x_text_elem_def Let_def xml split: option.splits)

lemmas bda_xml [xml] = bda_head
  bda_eq
  bda_nested
  many_eq [of write_bda, OF bda_eq bda_head]
  ev_name_many [of write_bda, OF bda_head]
  nested_many [of write_bda, OF bda_nested]

lemma da_type_head: "ev_name (write_da_type x @ r) = Some ''DAType''"
  by (simp add: write_da_type_def x_text_elem_def Let_def split: option.splits)

lemma da_type_eq: "write_da_type x @ r = write_da_type y @ s \<longleftrightarrow> x = y \<and> r = s"
  by (cases x; cases y) (auto simp: write_da_type_def x_text_elem_def Let_def xml split: option.splits if_splits)

lemma da_type_nested: "nested st (write_da_type x @ r) = nested st r"
  by (simp add: write_da_type_def x_text_elem_def Let_def xml split: option.splits)

lemmas da_type_xml [xml] = da_type_head
  da_type_eq
  da_type_nested
  many_eq [of write_da_type, OF da_type_eq da_type_head]
  ev_name_many [of write_da_type, OF da_type_head]
  nested_many [of write_da_type, OF da_type_nested]

lemma enum_val_head: "ev_name (write_enum_val x @ r) = Some ''EnumVal''"
  by (simp add: write_enum_val_def x_text_elem_def Let_def split: option.splits)

lemma enum_val_eq: "write_enum_val x @ r = write_enum_val y @ s \<longleftrightarrow> x = y \<and> r = s"
  by (cases x; cases y) (auto simp: write_enum_val_def x_text_elem_def Let_def xml split: option.splits if_splits)

lemma enum_val_nested: "nested st (write_enum_val x @ r) = nested st r"
  by (simp add: write_enum_val_def x_text_elem_def Let_def xml split: option.splits)

lemmas enum_val_xml [xml] = enum_val_head
  enum_val_eq
  enum_val_nested
  many_eq [of write_enum_val, OF enum_val_eq enum_val_head]
  ev_name_many [of write_enum_val, OF enum_val_head]
  nested_many [of write_enum_val, OF enum_val_nested]

lemma enum_type_head: "ev_name (write_enum_type x @ r) = Some ''EnumType''"
  by (simp add: write_enum_type_def x_text_elem_def Let_def split: option.splits)

lemma enum_type_eq: "write_enum_type x @ r = write_enum_type y @ s \<longleftrightarrow> x = y \<and> r = s"
  by (cases x; cases y) (auto simp: write_enum_type_def x_text_elem_def Let_def xml split: option.splits if_splits)

lemma enum_type_nested: "nested st (write_enum_type x @ r) = nested st r"
  by (simp add: write_enum_type_def x_text_elem_def Let_def xml split: option.splits)

lemmas enum_type_xml [xml] = enum_type_head
  enum_type_eq
  enum_type_nested
  many_eq [of write_enum_type, OF enum_type_eq enum_type_head]
  ev_name_many [of write_enum_type, OF enum_type_head]
  nested_many [of write_enum_type, OF enum_type_nested]

lemma templates_head: "ev_name (write_templates x @ r) = Some ''DataTypeTemplates''"
  by (simp add: write_templates_def x_text_elem_def Let_def split: option.splits)

lemma templates_eq: "write_templates x @ r = write_templates y @ s \<longleftrightarrow> x = y \<and> r = s"
  by (cases x; cases y) (auto simp: write_templates_def x_text_elem_def Let_def xml split: option.splits if_splits)

lemma templates_nested: "nested st (write_templates x @ r) = nested st r"
  by (simp add: write_templates_def x_text_elem_def Let_def xml split: option.splits)

lemmas templates_xml [xml] = templates_head
  templates_eq
  templates_nested
  opt_eq [of write_templates, OF templates_eq templates_head]
  ev_name_opt [of write_templates, OF templates_head]
  nested_opt [of write_templates, OF templates_nested]

text \<open>C18: what is written is well formed, every element closed by its own name, and keeps everything but the
  section of substations: two documents with the same events are equal up to it.\<close>

theorem writing_is_lossless:
  "nested [] (write_document x) \<and>
   (write_document x = write_document y \<longleftrightarrow> x\<lparr>scl_substations := []\<rparr> = y\<lparr>scl_substations := []\<rparr>)"
proof
  show "nested [] (write_document x)" by (simp add: write_document_def xml)
next
  have "write_opt write_templates v = write_opt write_templates w \<longleftrightarrow> v = w" for v w
    using opt_eq [of write_templates, OF templates_eq templates_head, of "[]" "[]" v w] by simp
  then show "write_document x = write_document y \<longleftrightarrow> x\<lparr>scl_substations := []\<rparr> = y\<lparr>scl_substations := []\<rparr>"
    by (cases x; cases y) (auto simp: write_document_def xml split: if_splits)
qed

end
