(* ===== verification/SclResolve.thy ===== *)
theory SclResolve imports SclDocument begin

text \<open>
  From a document to the data model: \<open>crates/iec61850-scl/src/resolve.rs\<close>. Type references are followed
  with a number of stack frames, \<open>None\<close> being the overflow of the stack; the diagnostics are threaded
  through every step. The lemmas relate termination to the cycles of the type references, validation
  to the absence of errors, and the configured values to what the model holds.
\<close>

unbundle bit_operations_syntax

section \<open>The resolver\<close>

text \<open>
  The list of diagnostics is threaded through every step. The functions that follow type references
  count the stack frames they may still open: \<open>None\<close> is the overflow that ends the process.
\<close>

type_synonym 'a resolving = "diagnostic list \<Rightarrow> ('a \<times> diagnostic list) option"

definition r_error :: "string \<Rightarrow> string \<Rightarrow> diagnostic list \<Rightarrow> diagnostic list" where
  "r_error message location diags = diags @ [diagnostic_error message location]"

definition r_warn :: "string \<Rightarrow> string \<Rightarrow> diagnostic list \<Rightarrow> diagnostic list" where
  "r_warn message location diags = diags @ [diagnostic_warning message location]"

text \<open>A loop over a list that collects results, and the one that keeps those present.\<close>

fun r_map :: "('a \<Rightarrow> 'b resolving) \<Rightarrow> 'a list \<Rightarrow> 'b list resolving" where
  "r_map f [] diags = Some ([], diags)"
| "r_map f (x # xs) diags =
    (case f x diags of
       None \<Rightarrow> None
     | Some (y, diags) \<Rightarrow>
         (case r_map f xs diags of None \<Rightarrow> None | Some (ys, diags) \<Rightarrow> Some (y # ys, diags)))"

definition r_filter_map :: "('a \<Rightarrow> 'b option resolving) \<Rightarrow> 'a list \<Rightarrow> 'b list resolving" where
  "r_filter_map f xs diags =
    map_option (\<lambda>(ys, diags). (List.map_filter (\<lambda>y. y) ys, diags)) (r_map f xs diags)"

definition to_value :: "scl_val \<Rightarrow> cfg_value" where
  "to_value v =
    (case val_s_group v of
       Some g \<Rightarrow> value_with_group (val_text v) g
     | None \<Rightarrow> value_new (val_text v))"

definition first_val :: "scl_val list \<Rightarrow> scl_val option" where
  "first_val vs = (case vs of [] \<Rightarrow> None | v # _ \<Rightarrow> Some v)"

definition no_triggers :: trigger_options where
  "no_triggers = \<lparr>to_dchg = False, to_qchg = False, to_dupd = False\<rparr>"

definition or_default :: "'a \<Rightarrow> 'a option \<Rightarrow> 'a" where
  "or_default d o' = (case o' of Some x \<Rightarrow> x | None \<Rightarrow> d)"

definition enum_table :: "data_type_templates \<Rightarrow> string option \<Rightarrow> enum_value list" where
  "enum_table t type_ref =
    (case type_ref of
       None \<Rightarrow> []
     | Some i \<Rightarrow>
         (case enum_type_of t i of
            None \<Rightarrow> []
          | Some et \<Rightarrow> map (\<lambda>ev. \<lparr>en_ord = env_ord ev, en_literal = env_text ev\<rparr>) (ent_values et)))"

text \<open>\<open>build_attribute\<close>: a constructed attribute takes its children from its \<open>DAType\<close>.\<close>

primrec build_attribute ::
    "nat \<Rightarrow> data_type_templates \<Rightarrow> string \<Rightarrow> functional_constraint \<Rightarrow> string \<Rightarrow> string option
      \<Rightarrow> scl_val option \<Rightarrow> trigger_options \<Rightarrow> string option \<Rightarrow> string \<Rightarrow> data_attribute resolving" where
  "build_attribute 0 t name fc b_type type_ref val trg desc location diags = None"
| "build_attribute (Suc n) t name fc b_type type_ref val trg desc location diags =
    map_option (\<lambda>(children, diags).
        (DataAttribute name fc (from_btype b_type) desc
          (if from_btype b_type = BtEnum then type_ref else None)
          (if from_btype b_type = BtEnum then enum_table t type_ref else [])
          trg (map_option to_value val) children, diags))
      (if bt_is_struct (from_btype b_type) then
         (case Option.bind type_ref (da_type_of t) of
            Some datype \<Rightarrow>
              r_map (\<lambda>bda. build_attribute n t (bda_name bda) fc (bda_b_type bda) (bda_kind bda)
                (first_val (bda_val bda)) no_triggers (bda_desc bda) location) (dat_bdas datype) diags
          | None \<Rightarrow>
              (case type_ref of
                 Some i \<Rightarrow>
                   Some ([], r_error (''DAType '' @ quoted i @ '' no encontrado para DA '' @ quoted name)
                     location diags)
               | None \<Rightarrow> Some ([], diags)))
       else Some ([], diags))"

definition resolve_da :: "nat \<Rightarrow> data_type_templates \<Rightarrow> string \<Rightarrow> t_da \<Rightarrow> data_attribute option resolving" where
  "resolve_da n t location da diags =
    (case fc_from_str (tda_fc da) of
       Inl _ \<Rightarrow>
         Some (None, r_warn (''FC '' @ quoted (tda_fc da) @ '' inv'' @ a_acute @ ''lida en DA '' @
           quoted (tda_name da) @ ''; se omite el atributo'') location diags)
     | Inr fc \<Rightarrow>
         map_option (\<lambda>(a, diags). (Some a, diags))
           (build_attribute n t (tda_name da) fc (tda_b_type da) (tda_kind da) (first_val (tda_val da))
             \<lparr>to_dchg = or_default False (tda_dchg da), to_qchg = or_default False (tda_qchg da),
              to_dupd = or_default False (tda_dupd da)\<rparr>
             (tda_desc da) location diags))"

primrec resolve_do ::
    "nat \<Rightarrow> data_type_templates \<Rightarrow> string \<Rightarrow> string \<Rightarrow> bool \<Rightarrow> string option \<Rightarrow> string
      \<Rightarrow> data_object option resolving" where
  "resolve_do 0 t name do_type_id transient desc location diags = None"
| "resolve_do (Suc n) t name do_type_id transient desc location diags =
    (case do_type_of t do_type_id of
       None \<Rightarrow>
         Some (None, r_error (''DOType '' @ quoted do_type_id @ '' no encontrado'') location diags)
     | Some dotype \<Rightarrow>
         (case r_filter_map (resolve_da n t location) (dot_das dotype) diags of
            None \<Rightarrow> None
          | Some (attributes, diags) \<Rightarrow>
              (case r_filter_map (\<lambda>sdo. resolve_do n t (sdo_name sdo) (sdo_kind sdo) False (sdo_desc sdo)
                      location) (dot_sdos dotype) diags of
                 None \<Rightarrow> None
               | Some (sub_objects, diags) \<Rightarrow>
                   Some (Some (DataObject name (from_cdc (dot_cdc dotype)) (or_else desc (dot_desc dotype))
                     transient attributes sub_objects), diags))))"

section \<open>Configured values\<close>

text \<open>\<open>iter_mut().find\<close>: the first element that satisfies the test is changed in place.\<close>

fun update_first :: "('a \<Rightarrow> bool) \<Rightarrow> ('a \<Rightarrow> 'a) \<Rightarrow> 'a list \<Rightarrow> 'a list" where
  "update_first P f [] = []"
| "update_first P f (x # xs) = (if P x then f x # xs else x # update_first P f xs)"

fun set_value :: "cfg_value option \<Rightarrow> data_attribute \<Rightarrow> data_attribute" where
  "set_value v (DataAttribute n fc bt d et ev tr v' ch) = DataAttribute n fc bt d et ev tr v ch"

definition dai_value :: "scl_dai \<Rightarrow> cfg_value option" where
  "dai_value dai = map_option to_value (first_val (dai_val dai))"

definition overlay_dais :: "scl_dai list \<Rightarrow> data_attribute list \<Rightarrow> data_attribute list" where
  "overlay_dais dais attrs =
    fold (\<lambda>dai. update_first (\<lambda>a. da_name a = dai_name dai) (set_value (dai_value dai))) dais attrs"

fun overlay_sdi_on_attr :: "scl_sdi \<Rightarrow> data_attribute \<Rightarrow> data_attribute" where
  "overlay_sdi_on_attr (Sdi sn ix sdis dais) (DataAttribute n fc bt d et ev tr v ch) =
    DataAttribute n fc bt d et ev tr v
      (fold (\<lambda>nested. update_first (\<lambda>c. da_name c = sdi_name nested) (overlay_sdi_on_attr nested)) sdis
        (overlay_dais dais ch))"

fun overlay_sdi_on_do :: "scl_sdi \<Rightarrow> data_object \<Rightarrow> data_object" where
  "overlay_sdi_on_do (Sdi sn ix sdis dais) (DataObject n c d tr attrs subs) =
    (case fold (\<lambda>nested (attrs, subs).
        if \<exists>a \<in> set attrs. da_name a = sdi_name nested then
          (update_first (\<lambda>a. da_name a = sdi_name nested) (overlay_sdi_on_attr nested) attrs, subs)
        else
          (attrs, update_first (\<lambda>s. do_name s = sdi_name nested) (overlay_sdi_on_do nested) subs))
      sdis (overlay_dais dais attrs, subs) of
       (attrs, subs) \<Rightarrow> DataObject n c d tr attrs subs)"

definition overlay_doi :: "data_object \<Rightarrow> scl_doi \<Rightarrow> data_object" where
  "overlay_doi dobj doi =
    (case dobj of DataObject n c d tr attrs subs \<Rightarrow>
      (case fold (\<lambda>sdi (attrs, subs).
          if \<exists>a \<in> set attrs. da_name a = sdi_name sdi then
            (update_first (\<lambda>a. da_name a = sdi_name sdi) (overlay_sdi_on_attr sdi) attrs, subs)
          else
            (attrs, update_first (\<lambda>s. do_name s = sdi_name sdi) (overlay_sdi_on_do sdi) subs))
        (doi_sdi doi) (overlay_dais (doi_dai doi) attrs, subs) of
         (attrs, subs) \<Rightarrow> DataObject n c d tr attrs subs))"

section \<open>Control blocks\<close>

definition convert_fcda :: "scl_fcda \<Rightarrow> fcda" where
  "convert_fcda f =
    \<lparr>fcda_ld_inst = or_default [] (sf_ld_inst f), fcda_prefix = or_default [] (sf_prefix f),
     fcda_ln_class = or_default [] (sf_ln_class f), fcda_ln_inst = or_default [] (sf_ln_inst f),
     fcda_do_name = or_default [] (sf_do_name f), fcda_da_name = or_default [] (sf_da_name f),
     fcda_fc = Option.bind (sf_fc f) (\<lambda>s. case fc_from_str s of Inr fc \<Rightarrow> Some fc | Inl _ \<Rightarrow> None)\<rparr>"

definition convert_data_set :: "scl_data_set \<Rightarrow> data_set" where
  "convert_data_set ds = \<lparr>ds_name = sds_name ds, ds_entries = map convert_fcda (sds_fcda ds)\<rparr>"

definition convert_report_control :: "scl_report_control \<Rightarrow> report_control" where
  "convert_report_control rc =
    \<lparr>rc_name = srep_name rc, rc_rpt_id = srep_rpt_id rc, rc_dataset = srep_dat_set rc,
     rc_buffered = or_default False (srep_buffered rc), rc_conf_rev = srep_conf_rev rc,
     rc_trigger_options =
       (case srep_trg_ops rc of
          Some t \<Rightarrow> \<lparr>to_dchg = or_default False (trg_dchg t), to_qchg = or_default False (trg_qchg t),
                     to_dupd = or_default False (trg_dupd t)\<rparr>
        | None \<Rightarrow> no_triggers)\<rparr>"

definition convert_setting_control :: "scl_setting_control \<Rightarrow> setting_group_control" where
  "convert_setting_control sc =
    \<lparr>sg_num_of_sgs = sset_num_of_sgs sc, sg_act_sg = or_default 1 (sset_act_sg sc),
     sg_resv_tms = (sset_resv_tms sc \<noteq> None)\<rparr>"

definition non_empty :: "string option \<Rightarrow> string option" where
  "non_empty s = (case s of Some x \<Rightarrow> if x = [] then None else Some x | None \<Rightarrow> None)"

definition convert_log_control :: "scl_log_control \<Rightarrow> log_control_block" where
  "convert_log_control lc =
    \<lparr>lc_name = slog_name lc, lc_dataset = non_empty (slog_dat_set lc),
     lc_log_name = non_empty (slog_log_name lc), lc_log_ena = or_default False (slog_log_ena lc)\<rparr>"

section \<open>Nodes, devices and servers\<close>

definition resolve_dos ::
    "nat \<Rightarrow> data_type_templates \<Rightarrow> string \<Rightarrow> scl_ln \<Rightarrow> data_object list resolving" where
  "resolve_dos n t location ln diags =
    (case lnode_type t (sln_ln_type ln) of
       Some lnt \<Rightarrow>
         r_filter_map (\<lambda>tdo. resolve_do n t (tdo_name tdo) (tdo_kind tdo)
           (or_default False (tdo_transient tdo)) (tdo_desc tdo) location) (lnt_dos lnt) diags
     | None \<Rightarrow>
         Some ([], r_error (''LNodeType '' @ quoted (sln_ln_type ln) @ '' no encontrado'') location diags))"

definition overlay_dois ::
    "string \<Rightarrow> scl_doi list \<Rightarrow> data_object list \<times> diagnostic list \<Rightarrow> data_object list \<times> diagnostic list" where
  "overlay_dois location dois st =
    fold (\<lambda>doi (dobjs, diags).
      if \<exists>d \<in> set dobjs. do_name d = doi_name doi then
        (update_first (\<lambda>d. do_name d = doi_name doi) (\<lambda>d. overlay_doi d doi) dobjs, diags)
      else
        (dobjs, r_warn (''DOI '' @ quoted (doi_name doi) @ '' no corresponde a ning'' @ u_acute @
           ''n DO del tipo'') location diags)) dois st"

definition resolve_ln ::
    "nat \<Rightarrow> data_type_templates \<Rightarrow> string \<Rightarrow> string \<Rightarrow> scl_ln \<Rightarrow> logical_node resolving" where
  "resolve_ln n t ied ld ln diags =
    (let name = sln_prefix ln @ sln_ln_class ln @ sln_inst ln;
         location = ied @ ''/'' @ ld @ ''/'' @ name
     in case resolve_dos n t location ln diags of
          None \<Rightarrow> None
        | Some st \<Rightarrow>
            (case overlay_dois location (sln_dois ln) st of (dobjs, diags) \<Rightarrow>
               Some (\<lparr>ln_prefix = sln_prefix ln, ln_class = sln_ln_class ln, ln_inst = sln_inst ln,
                 ln_type = sln_ln_type ln,
                 ln_desc = or_else (sln_desc ln) (Option.bind (lnode_type t (sln_ln_type ln)) lnt_desc),
                 ln_data_objects = dobjs,
                 ln_data_sets = map convert_data_set (sln_data_sets ln),
                 ln_report_controls = map convert_report_control (sln_report_controls ln),
                 ln_setting_group_control = map_option convert_setting_control (sln_setting_control ln),
                 ln_log_controls = map convert_log_control (sln_log_controls ln)\<rparr>, diags)))"

definition resolve_ldevice ::
    "nat \<Rightarrow> data_type_templates \<Rightarrow> string \<Rightarrow> l_device \<Rightarrow> logical_device resolving" where
  "resolve_ldevice n t ied ld diags =
    map_option (\<lambda>(lns, diags).
        (\<lparr>ld_inst = ldev_inst ld, ld_name = ldev_ld_name ld, ld_logical_nodes = lns\<rparr>, diags))
      (r_map (resolve_ln n t ied (ldev_inst ld)) (all_lns ld) diags)"

definition ied_devices :: "scl_ied \<Rightarrow> l_device list" where
  "ied_devices ied =
    concat (map (\<lambda>ap. case apt_server ap of Some s \<Rightarrow> srv_ldevices s | None \<Rightarrow> []) (ied_access_points ied))"

definition resolve_ied :: "nat \<Rightarrow> data_type_templates \<Rightarrow> scl_ied \<Rightarrow> server resolving" where
  "resolve_ied n t ied diags =
    map_option (\<lambda>(lds, diags). (\<lparr>sv_logical_devices = lds\<rparr>, diags))
      (r_map (resolve_ldevice n t (ied_name ied)) (ied_devices ied) diags)"

text \<open>\<open>resolve_lenient\<close> and \<open>resolve\<close>.\<close>

definition document_templates :: "scl_document \<Rightarrow> data_type_templates" where
  "document_templates doc = or_default templates_default (scl_templates doc)"

fun resolve_ieds :: "nat \<Rightarrow> data_type_templates \<Rightarrow> scl_ied list \<Rightarrow> model \<Rightarrow> model resolving" where
  "resolve_ieds n t [] m diags = Some (m, diags)"
| "resolve_ieds n t (ied # ieds) m diags =
    (case resolve_ied n t ied diags of
       None \<Rightarrow> None
     | Some (sv, diags) \<Rightarrow> resolve_ieds n t ieds (insert_ied (ied_name ied) sv m) diags)"

definition resolve_lenient :: "nat \<Rightarrow> scl_document \<Rightarrow> (model \<times> diagnostic list) option" where
  "resolve_lenient n doc = resolve_ieds n (document_templates doc) (scl_ieds doc) model_new []"

definition scl_resolve :: "nat \<Rightarrow> scl_document \<Rightarrow> (('io, 'xml) scl_error + model) option" where
  "scl_resolve n doc =
    map_option (\<lambda>(m, diags).
      case find (\<lambda>d. dg_severity d = SevError) diags of
        Some err \<Rightarrow> Inl (SclResolution (dg_message err) (dg_location err))
      | None \<Rightarrow> Inr m) (resolve_lenient n doc)"

section \<open>Loops of the resolver\<close>

lemma r_map_ConsE:
  assumes "r_map f (x # xs) diags = Some r"
  obtains y d ys d' where "f x diags = Some (y, d)" "r_map f xs d = Some (ys, d')" "r = (y # ys, d')"
  using assms by (auto split: option.splits)

lemma r_map_defined: "(\<And>x d. x \<in> set xs \<Longrightarrow> f x d \<noteq> None) \<Longrightarrow> r_map f xs diags \<noteq> None"
proof (induction xs arbitrary: diags)
  case (Cons x xs)
  obtain y d where x: "f x diags = Some (y, d)" using Cons.prems [of x diags] by auto
  moreover have "r_map f xs d \<noteq> None" using Cons by simp
  ultimately show ?case by auto
qed simp

lemma r_map_overflow: "x \<in> set xs \<Longrightarrow> (\<And>d. f x d = None) \<Longrightarrow> r_map f xs diags = None"
  by (induction xs arbitrary: diags) (auto split: option.splits)

lemma r_map_mono:
  "r_map f xs diags = Some r \<Longrightarrow> (\<And>x d r. x \<in> set xs \<Longrightarrow> f x d = Some r \<Longrightarrow> g x d = Some r) \<Longrightarrow>
    r_map g xs diags = Some r"
proof (induction xs arbitrary: diags r)
  case (Cons x xs)
  obtain y d ys d' where x: "f x diags = Some (y, d)" and xs: "r_map f xs d = Some (ys, d')"
    and r: "r = (y # ys, d')" using Cons.prems(1) by (rule r_map_ConsE)
  have "g x diags = Some (y, d)" using Cons.prems(2) x by simp
  moreover have "r_map g xs d = Some (ys, d')" using Cons.IH [OF xs] Cons.prems(2) by simp
  ultimately show ?case by (simp add: r)
qed simp

lemma r_map_keeps:
  "r_map f xs diags = Some r \<Longrightarrow> P diags \<Longrightarrow>
    (\<And>x d y d'. x \<in> set xs \<Longrightarrow> f x d = Some (y, d') \<Longrightarrow> P d \<Longrightarrow> P d') \<Longrightarrow> P (snd r)"
proof (induction xs arbitrary: diags r)
  case (Cons x xs)
  obtain y d ys d' where x: "f x diags = Some (y, d)" and xs: "r_map f xs d = Some (ys, d')"
    and r: "r = (y # ys, d')" using Cons.prems(1) by (rule r_map_ConsE)
  have "P d" using Cons.prems(3) [OF _ x] Cons.prems(2) by simp
  have "P (snd (ys, d'))" by (rule Cons.IH [OF xs \<open>P d\<close>]) (rule Cons.prems(3), simp_all)
  then show ?case by (simp add: r)
qed simp

lemma r_map_all2:
  "r_map f xs diags = Some r \<Longrightarrow> list_all2 (\<lambda>x y. \<exists>d d'. f x d = Some (y, d')) xs (fst r)"
proof (induction xs arbitrary: diags r)
  case (Cons x xs)
  obtain y d ys d' where x: "f x diags = Some (y, d)" and xs: "r_map f xs d = Some (ys, d')"
    and r: "r = (y # ys, d')" using Cons.prems(1) by (rule r_map_ConsE)
  show ?case using x Cons.IH [OF xs] by (auto simp: r)
qed simp

lemma r_filter_map_Some:
  assumes "r_filter_map f xs diags = Some r"
  obtains ys d where "r_map f xs diags = Some (ys, d)" "r = (List.map_filter (\<lambda>y. y) ys, d)"
  using assms by (auto simp: r_filter_map_def)

lemma r_filter_map_defined:
  "(\<And>x d. x \<in> set xs \<Longrightarrow> f x d \<noteq> None) \<Longrightarrow> r_filter_map f xs diags \<noteq> None"
  using r_map_defined [of xs f diags] by (simp add: r_filter_map_def)

lemma r_filter_map_overflow:
  "x \<in> set xs \<Longrightarrow> (\<And>d. f x d = None) \<Longrightarrow> r_filter_map f xs diags = None"
  using r_map_overflow [of x xs f diags] by (simp add: r_filter_map_def)

lemma r_filter_map_mono:
  assumes "r_filter_map f xs diags = Some r"
    and "\<And>x d r. x \<in> set xs \<Longrightarrow> f x d = Some r \<Longrightarrow> g x d = Some r"
  shows "r_filter_map g xs diags = Some r"
proof -
  obtain ys d where m: "r_map f xs diags = Some (ys, d)" and r: "r = (List.map_filter (\<lambda>y. y) ys, d)"
    using assms(1) by (rule r_filter_map_Some)
  show ?thesis using r_map_mono [OF m assms(2)] by (simp add: r_filter_map_def r)
qed

lemma r_filter_map_keeps:
  assumes "r_filter_map f xs diags = Some r" "P diags"
    and "\<And>x d y d'. x \<in> set xs \<Longrightarrow> f x d = Some (y, d') \<Longrightarrow> P d \<Longrightarrow> P d'"
  shows "P (snd r)"
proof -
  obtain ys d where m: "r_map f xs diags = Some (ys, d)" and r: "r = (List.map_filter (\<lambda>y. y) ys, d)"
    using assms(1) by (rule r_filter_map_Some)
  show ?thesis using r_map_keeps [where P = P, OF m assms(2) assms(3)] by (simp add: r)
qed

section \<open>References between types\<close>

definition da_refs :: "data_type_templates \<Rightarrow> (string \<times> string) set" where
  "da_refs t = {(c, p). \<exists>dat b. da_type_of t p = Some dat \<and> b \<in> set (dat_bdas dat) \<and>
     bt_is_struct (from_btype (bda_b_type b)) \<and> bda_kind b = Some c \<and> da_type_of t c \<noteq> None}"

definition do_refs :: "data_type_templates \<Rightarrow> (string \<times> string) set" where
  "do_refs t = {(c, p). \<exists>dt s. do_type_of t p = Some dt \<and> s \<in> set (dot_sdos dt) \<and>
     sdo_kind s = c \<and> do_type_of t c \<noteq> None}"

text \<open>The height of a type: how many types it reaches.\<close>

definition height :: "('a \<times> 'a) set \<Rightarrow> 'a \<Rightarrow> nat" where
  "height R x = card {y. (y, x) \<in> R\<^sup>+}"

lemma below_Domain: "{y. (y, x) \<in> R\<^sup>+} \<subseteq> Domain R"
  by (auto dest: tranclD)

lemma height_step:
  assumes fin: "finite (Domain R)" and ac: "(c, c) \<notin> R\<^sup>+" and ref: "(c, p) \<in> R"
  shows "height R c < height R p"
  unfolding height_def
proof (rule psubset_card_mono)
  show "finite {y. (y, p) \<in> R\<^sup>+}" using finite_subset [OF below_Domain fin] .
  have "c \<in> {y. (y, p) \<in> R\<^sup>+}" using ref by blast
  moreover have "{y. (y, c) \<in> R\<^sup>+} \<subseteq> {y. (y, p) \<in> R\<^sup>+}" using ref by (auto intro: trancl_into_trancl)
  ultimately show "{y. (y, c) \<in> R\<^sup>+} \<subset> {y. (y, p) \<in> R\<^sup>+}" using ac by blast
qed

lemma height_bound:
  assumes ids: "Domain R \<subseteq> set ids" and ac: "(x, x) \<notin> R\<^sup>+" and x: "x \<in> set ids"
  shows "height R x < length ids"
proof -
  have "{y. (y, x) \<in> R\<^sup>+} \<subseteq> set ids - {x}"
    using below_Domain [of x R] ids ac by auto
  then have "height R x \<le> card (set ids - {x})"
    unfolding height_def by (intro card_mono) auto
  also have "\<dots> < card (set ids)" using x by (intro psubset_card_mono) auto
  also have "\<dots> \<le> length ids" by (rule card_length)
  finally show ?thesis .
qed

text \<open>No cycle is reached from a type.\<close>

definition grounded :: "('a \<times> 'a) set \<Rightarrow> 'a \<Rightarrow> bool" where
  "grounded R i \<longleftrightarrow> (\<forall>j. (j, i) \<in> R\<^sup>* \<longrightarrow> (j, j) \<notin> R\<^sup>+)"

lemma grounded_here: "grounded R i \<Longrightarrow> (i, i) \<notin> R\<^sup>+"
  by (simp add: grounded_def)

lemma grounded_below: "grounded R i \<Longrightarrow> (c, i) \<in> R \<Longrightarrow> grounded R c"
  unfolding grounded_def by (meson rtrancl_into_rtrancl)

definition da_grounded :: "data_type_templates \<Rightarrow> t_da \<Rightarrow> bool" where
  "da_grounded t da \<longleftrightarrow> (\<forall>fc k. fc_from_str (tda_fc da) = Inr fc \<longrightarrow>
     bt_is_struct (from_btype (tda_b_type da)) \<longrightarrow> tda_kind da = Some k \<longrightarrow> grounded (da_refs t) k)"

definition do_grounded :: "data_type_templates \<Rightarrow> string \<Rightarrow> bool" where
  "do_grounded t i \<longleftrightarrow> grounded (do_refs t) i \<and>
    (\<forall>j dt. (j, i) \<in> (do_refs t)\<^sup>* \<longrightarrow> do_type_of t j = Some dt \<longrightarrow>
       (\<forall>da \<in> set (dot_das dt). da_grounded t da))"

lemma do_grounded_below: "do_grounded t i \<Longrightarrow> (c, i) \<in> do_refs t \<Longrightarrow> do_grounded t c"
  unfolding do_grounded_def by (meson grounded_below rtrancl_into_rtrancl)

lemma refs_Domain:
  "Domain (da_refs t) \<subseteq> set (map dat_id (tpl_da_types t))"
  "Domain (do_refs t) \<subseteq> set (map dot_id (tpl_do_types t))"
  using type_lookup_defined(1,2) [of t] by (auto simp: da_refs_def do_refs_def)

lemma refs_finite: "finite (Domain (da_refs t))" "finite (Domain (do_refs t))"
  using finite_subset [OF refs_Domain(1)] finite_subset [OF refs_Domain(2)] by blast+

section \<open>Acyclic types\<close>

lemma build_attribute_ends:
  "1 \<le> n \<Longrightarrow>
    (\<And>i. bt_is_struct (from_btype b_type) \<Longrightarrow> type_ref = Some i \<Longrightarrow> da_type_of t i \<noteq> None \<Longrightarrow>
       grounded (da_refs t) i \<and> height (da_refs t) i + 2 \<le> n) \<Longrightarrow>
    build_attribute n t name fc b_type type_ref val trg desc location diags \<noteq> None"
proof (induction n arbitrary: name b_type type_ref val trg desc diags)
  case 0
  then show ?case by simp
next
  case (Suc n)
  show ?case
  proof (cases "bt_is_struct (from_btype b_type) \<and> Option.bind type_ref (da_type_of t) \<noteq> None")
    case False
    then show ?thesis by (cases type_ref) (simp_all split: option.splits)
  next
    case True
    then obtain i dat where i: "type_ref = Some i" "da_type_of t i = Some dat"
      by (cases type_ref) auto
    then have g: "grounded (da_refs t) i" and h: "height (da_refs t) i + 2 \<le> Suc n"
      using Suc.prems(2) True by simp_all
    have "r_map (\<lambda>bda. build_attribute n t (bda_name bda) fc (bda_b_type bda) (bda_kind bda)
        (first_val (bda_val bda)) no_triggers (bda_desc bda) location) (dat_bdas dat) diags \<noteq> None"
    proof (rule r_map_defined, rule Suc.IH)
      show "1 \<le> n" using h by simp
      fix b c
      assume "b \<in> set (dat_bdas dat)" "bt_is_struct (from_btype (bda_b_type b))" "bda_kind b = Some c"
        "da_type_of t c \<noteq> None"
      then have c: "(c, i) \<in> da_refs t" using i(2) unfolding da_refs_def by blast
      then show "grounded (da_refs t) c \<and> height (da_refs t) c + 2 \<le> n"
        using height_step [OF refs_finite(1) grounded_here c] grounded_below [OF g c] h by fastforce
    qed
    then show ?thesis using True i by simp
  qed
qed

definition da_depth :: "data_type_templates \<Rightarrow> nat" where
  "da_depth t = length (tpl_da_types t) + 1"

lemma resolve_da_ends:
  assumes g: "da_grounded t da" and n: "da_depth t \<le> n"
  shows "resolve_da n t location da diags \<noteq> None"
proof (cases "fc_from_str (tda_fc da)")
  case (Inl e)
  then show ?thesis by (simp add: resolve_da_def)
next
  case (Inr fc)
  have "build_attribute n t name fc (tda_b_type da) (tda_kind da) val trg desc location diags \<noteq> None"
    for name val trg desc
  proof (rule build_attribute_ends)
    show "1 \<le> n" using n by (simp add: da_depth_def)
    fix i
    assume i: "bt_is_struct (from_btype (tda_b_type da))" "tda_kind da = Some i" "da_type_of t i \<noteq> None"
    then have gi: "grounded (da_refs t) i" using g Inr by (simp add: da_grounded_def)
    have "height (da_refs t) i < length (map dat_id (tpl_da_types t))"
      using height_bound [OF refs_Domain(1) grounded_here [OF gi]] i(3) by (simp only: type_lookup_defined)
    then show "grounded (da_refs t) i \<and> height (da_refs t) i + 2 \<le> n"
      using n gi by (simp add: da_depth_def)
  qed
  then show ?thesis using Inr by (simp add: resolve_da_def)
qed

lemma resolve_do_ends:
  "do_grounded t i \<Longrightarrow> 1 \<le> n \<Longrightarrow>
    (do_type_of t i \<noteq> None \<Longrightarrow> height (do_refs t) i + da_depth t + 1 \<le> n) \<Longrightarrow>
    resolve_do n t name i transient desc location diags \<noteq> None"
proof (induction n arbitrary: name i transient desc diags)
  case 0
  then show ?case by simp
next
  case (Suc n)
  show ?case
  proof (cases "do_type_of t i")
    case None
    then show ?thesis by simp
  next
    case (Some dt)
    then have h: "height (do_refs t) i + da_depth t + 1 \<le> Suc n" using Suc.prems(3) by simp
    have "\<forall>da \<in> set (dot_das dt). da_grounded t da"
      using Suc.prems(1) Some unfolding do_grounded_def by blast
    then have das: "r_filter_map (resolve_da n t location) (dot_das dt) diags \<noteq> None" for diags
      using h by (intro r_filter_map_defined resolve_da_ends) simp_all
    have sdos: "r_filter_map (\<lambda>sdo. resolve_do n t (sdo_name sdo) (sdo_kind sdo) False (sdo_desc sdo)
        location) (dot_sdos dt) diags \<noteq> None" for diags
    proof (rule r_filter_map_defined)
      fix s d
      assume s: "s \<in> set (dot_sdos dt)"
      have c: "(sdo_kind s, i) \<in> do_refs t" if "do_type_of t (sdo_kind s) \<noteq> None"
        using s that Some unfolding do_refs_def by blast
      have g: "do_grounded t (sdo_kind s)"
      proof (cases "do_type_of t (sdo_kind s)")
        case None
        then have "(y, sdo_kind s) \<notin> do_refs t" for y by (simp add: do_refs_def)
        then have "(y, sdo_kind s) \<in> (do_refs t)\<^sup>* \<Longrightarrow> y = sdo_kind s"
          and "(y, sdo_kind s) \<notin> (do_refs t)\<^sup>+" for y
          by (meson rtranclE, meson tranclE)
        then show ?thesis using None unfolding do_grounded_def grounded_def by (metis option.distinct(1))
      next
        case (Some dt')
        then show ?thesis using do_grounded_below [OF Suc.prems(1)] c by blast
      qed
      have "height (do_refs t) (sdo_kind s) + da_depth t + 1 \<le> n" if "do_type_of t (sdo_kind s) \<noteq> None"
        using height_step [OF refs_finite(2) _ c [OF that]] g h
        by (fastforce simp: do_grounded_def dest: grounded_here)
      then show "resolve_do n t (sdo_name s) (sdo_kind s) False (sdo_desc s) location d \<noteq> None"
        using h by (intro Suc.IH [OF g]) (simp_all add: da_depth_def)
    qed
    obtain attrs d where a: "r_filter_map (resolve_da n t location) (dot_das dt) diags = Some (attrs, d)"
      using das [of diags] by auto
    show ?thesis using sdos [of d] Some a by (auto simp del: not_None_eq split: option.splits)
  qed
qed

text \<open>Frames enough for every document.\<close>

definition frames :: "data_type_templates \<Rightarrow> nat" where
  "frames t = length (tpl_do_types t) + da_depth t"

lemma resolve_do_frames:
  assumes g: "do_grounded t i" and n: "frames t \<le> n"
  shows "resolve_do n t name i transient desc location diags \<noteq> None"
proof (rule resolve_do_ends [OF g])
  show "1 \<le> n" using n by (simp add: frames_def da_depth_def)
  assume i: "do_type_of t i \<noteq> None"
  have "(i, i) \<notin> (do_refs t)\<^sup>+" using g by (simp add: do_grounded_def grounded_here)
  then have "height (do_refs t) i < length (map dot_id (tpl_do_types t))"
    using height_bound [OF refs_Domain(2)] i by (simp only: type_lookup_defined)
  then show "height (do_refs t) i + da_depth t + 1 \<le> n" using n by (simp add: frames_def)
qed

section \<open>Cyclic types\<close>

lemma cycle_step:
  assumes "(i, i) \<in> R\<^sup>+"
  obtains c where "(c, i) \<in> R" "(c, c) \<in> R\<^sup>+"
proof -
  obtain c where "(i, c) \<in> R\<^sup>*" "(c, i) \<in> R" using assms by (meson tranclD2)
  then show thesis using that by (meson rtrancl_into_trancl2)
qed

lemma not_grounded_step:
  assumes "\<not> grounded R i"
  obtains c where "(c, i) \<in> R" "\<not> grounded R c"
proof -
  obtain j where j: "(j, i) \<in> R\<^sup>*" "(j, j) \<in> R\<^sup>+" using assms by (auto simp: grounded_def)
  show thesis
  proof (cases "j = i")
    case True
    then obtain c where "(c, i) \<in> R" "(c, c) \<in> R\<^sup>+" using cycle_step j(2) by metis
    then show thesis using that by (auto simp: grounded_def)
  next
    case False
    then obtain c where "(j, c) \<in> R\<^sup>*" "(c, i) \<in> R" using j(1) by (meson rtranclE)
    then show thesis using that j(2) by (auto simp: grounded_def)
  qed
qed

lemma build_attribute_overflow:
  "\<not> grounded (da_refs t) i \<Longrightarrow> bt_is_struct (from_btype b_type) \<Longrightarrow>
    build_attribute n t name fc b_type (Some i) val trg desc location diags = None"
proof (induction n arbitrary: i name b_type val trg desc diags)
  case 0
  then show ?case by simp
next
  case (Suc n)
  obtain c where c: "(c, i) \<in> da_refs t" "\<not> grounded (da_refs t) c"
    using not_grounded_step [OF Suc.prems(1)] .
  then obtain dat b where dat: "da_type_of t i = Some dat" and b: "b \<in> set (dat_bdas dat)"
    "bt_is_struct (from_btype (bda_b_type b))" "bda_kind b = Some c"
    unfolding da_refs_def by blast
  have "r_map (\<lambda>bda. build_attribute n t (bda_name bda) fc (bda_b_type bda) (bda_kind bda)
      (first_val (bda_val bda)) no_triggers (bda_desc bda) location) (dat_bdas dat) diags = None"
    by (rule r_map_overflow [OF b(1)]) (simp only: b(3) Suc.IH [OF c(2) b(2)])
  then show ?case using dat Suc.prems(2) by simp
qed

lemma resolve_da_overflow: "\<not> da_grounded t da \<Longrightarrow> resolve_da n t location da diags = None"
  by (auto simp: da_grounded_def resolve_da_def build_attribute_overflow)

lemma not_do_grounded_step:
  assumes "\<not> do_grounded t i"
  obtains (sub) c where "(c, i) \<in> do_refs t" "\<not> do_grounded t c"
  | (attr) dt da where "do_type_of t i = Some dt" "da \<in> set (dot_das dt)" "\<not> da_grounded t da"
proof (cases "grounded (do_refs t) i")
  case False
  then obtain c where "(c, i) \<in> do_refs t" "\<not> grounded (do_refs t) c" by (rule not_grounded_step)
  then show thesis by (intro sub) (auto simp: do_grounded_def)
next
  case True
  then obtain j dt da where j: "(j, i) \<in> (do_refs t)\<^sup>*" "do_type_of t j = Some dt"
    "da \<in> set (dot_das dt)" "\<not> da_grounded t da"
    using assms by (auto simp: do_grounded_def)
  show thesis
  proof (cases "j = i")
    case True
    then show thesis using j by (intro attr) auto
  next
    case False
    then obtain c where "(j, c) \<in> (do_refs t)\<^sup>*" "(c, i) \<in> do_refs t" using j(1) by (meson rtranclE)
    then show thesis using j by (intro sub) (auto simp: do_grounded_def)
  qed
qed

lemma resolve_do_overflow:
  "\<not> do_grounded t i \<Longrightarrow> resolve_do n t name i transient desc location diags = None"
proof (induction n arbitrary: i name transient desc diags)
  case 0
  then show ?case by simp
next
  case (Suc n)
  from Suc.prems show ?case
  proof (cases rule: not_do_grounded_step)
    case (sub c)
    then obtain dt s where dt: "do_type_of t i = Some dt" and s: "s \<in> set (dot_sdos dt)" "sdo_kind s = c"
      unfolding do_refs_def by blast
    have "r_filter_map (\<lambda>sdo. resolve_do n t (sdo_name sdo) (sdo_kind sdo) False (sdo_desc sdo)
        location) (dot_sdos dt) d = None" for d
      by (rule r_filter_map_overflow [OF s(1)]) (simp only: s(2) Suc.IH [OF sub(2)])
    then show ?thesis using dt by (auto split: option.splits)
  next
    case (attr dt da)
    have "r_filter_map (resolve_da n t location) (dot_das dt) diags = None"
      by (rule r_filter_map_overflow [OF attr(2)]) (rule resolve_da_overflow [OF attr(3)])
    then show ?thesis using attr(1) by simp
  qed
qed

section \<open>More frames change nothing\<close>

lemma build_attribute_flat:
  assumes "\<not> (bt_is_struct (from_btype b_type) \<and> Option.bind type_ref (da_type_of t) \<noteq> None)"
  shows "build_attribute (Suc n) t name fc b_type type_ref val trg desc location diags =
    build_attribute (Suc m) t name fc b_type type_ref val trg desc location diags"
  using assms by (cases "bt_is_struct (from_btype b_type)"; cases type_ref) simp_all

lemma build_attribute_mono:
  "build_attribute n t name fc b_type type_ref val trg desc location diags = Some r \<Longrightarrow>
    build_attribute (Suc n) t name fc b_type type_ref val trg desc location diags = Some r"
proof (induction n arbitrary: name b_type type_ref val trg desc diags r)
  case 0
  then show ?case by simp
next
  case (Suc n)
  show ?case
  proof (cases "bt_is_struct (from_btype b_type) \<and> Option.bind type_ref (da_type_of t) \<noteq> None")
    case False
    then show ?thesis using Suc.prems build_attribute_flat [OF False, of n _ _ _ _ _ _ _ "Suc n"] by metis
  next
    case True
    then obtain i dat where i: "type_ref = Some i" "da_type_of t i = Some dat"
      by (cases type_ref) auto
    let ?f = "\<lambda>n bda. build_attribute n t (bda_name bda) fc (bda_b_type bda) (bda_kind bda)
      (first_val (bda_val bda)) no_triggers (bda_desc bda) location"
    have m: "r_map (?f n) (dat_bdas dat) diags = Some x \<Longrightarrow> r_map (?f (Suc n)) (dat_bdas dat) diags = Some x"
      for x by (erule r_map_mono) (rule Suc.IH)
    from Suc.prems [unfolded build_attribute.simps(2) [of n]] show ?thesis
      unfolding build_attribute.simps(2) [of "Suc n"] using i True
      by (auto simp del: build_attribute.simps dest!: m)
  qed
qed

lemma resolve_da_mono:
  "resolve_da n t location da diags = Some r \<Longrightarrow> resolve_da (Suc n) t location da diags = Some r"
  unfolding resolve_da_def
  by (cases "fc_from_str (tda_fc da)")
    (simp, auto simp del: build_attribute.simps intro: build_attribute_mono)

lemma resolve_do_mono:
  "resolve_do n t name i transient desc location diags = Some r \<Longrightarrow>
    resolve_do (Suc n) t name i transient desc location diags = Some r"
proof (induction n arbitrary: name i transient desc diags r)
  case 0
  then show ?case by simp
next
  case (Suc n)
  show ?case
  proof (cases "do_type_of t i")
    case None
    then show ?thesis using Suc.prems by simp
  next
    case (Some dt)
    let ?f = "\<lambda>n sdo. resolve_do n t (sdo_name sdo) (sdo_kind sdo) False (sdo_desc sdo) location"
    have das: "r_filter_map (resolve_da n t location) (dot_das dt) d = Some x \<Longrightarrow>
      r_filter_map (resolve_da (Suc n) t location) (dot_das dt) d = Some x" for d x
      by (erule r_filter_map_mono) (rule resolve_da_mono)
    have sdos: "r_filter_map (?f n) (dot_sdos dt) d = Some x \<Longrightarrow>
      r_filter_map (?f (Suc n)) (dot_sdos dt) d = Some x" for d x
      by (erule r_filter_map_mono) (rule Suc.IH)
    from Suc.prems [unfolded resolve_do.simps(2) [of n]] show ?thesis
      unfolding resolve_do.simps(2) [of "Suc n"] using Some
      by (auto split: option.splits simp del: resolve_do.simps dest!: das sdos)
  qed
qed

section \<open>From data objects to the document\<close>

text \<open>The data objects a document declares, and whether the types it reaches end.\<close>

definition document_nodes :: "scl_document \<Rightarrow> scl_ln list" where
  "document_nodes doc = concat (map (\<lambda>ied. concat (map all_lns (ied_devices ied))) (scl_ieds doc))"

definition node_grounded :: "data_type_templates \<Rightarrow> scl_ln \<Rightarrow> bool" where
  "node_grounded t ln \<longleftrightarrow> (\<forall>lnt. lnode_type t (sln_ln_type ln) = Some lnt \<longrightarrow>
     (\<forall>d \<in> set (lnt_dos lnt). do_grounded t (tdo_kind d)))"

definition document_grounded :: "scl_document \<Rightarrow> bool" where
  "document_grounded doc \<longleftrightarrow> (\<forall>ln \<in> set (document_nodes doc). node_grounded (document_templates doc) ln)"

lemma resolve_ln_None: "resolve_ln n t ied ld ln diags = None \<longleftrightarrow>
    resolve_dos n t (ied @ ''/'' @ ld @ ''/'' @ sln_prefix ln @ sln_ln_class ln @ sln_inst ln) ln diags = None"
  by (auto simp: resolve_ln_def Let_def split: option.splits prod.splits)

lemma resolve_ln_ends:
  "node_grounded t ln \<Longrightarrow> frames t \<le> n \<Longrightarrow> resolve_ln n t ied ld ln diags \<noteq> None"
  unfolding resolve_ln_None resolve_dos_def
  by (cases "lnode_type t (sln_ln_type ln)")
    (simp_all add: node_grounded_def r_filter_map_defined resolve_do_frames del: not_None_eq)

lemma resolve_ln_overflow:
  assumes "\<not> node_grounded t ln"
  shows "resolve_ln n t ied ld ln diags = None"
proof -
  obtain lnt d where l: "lnode_type t (sln_ln_type ln) = Some lnt" and d: "d \<in> set (lnt_dos lnt)"
    and g: "\<not> do_grounded t (tdo_kind d)" using assms by (auto simp: node_grounded_def)
  have "r_filter_map (\<lambda>tdo. resolve_do n t (tdo_name tdo) (tdo_kind tdo)
      (or_default False (tdo_transient tdo)) (tdo_desc tdo) loc) (lnt_dos lnt) diags = None" for loc
    by (rule r_filter_map_overflow [OF d]) (rule resolve_do_overflow [OF g])
  then show ?thesis by (simp add: resolve_ln_None resolve_dos_def l)
qed

lemma resolve_ied_ends:
  assumes "\<forall>ld \<in> set (ied_devices ied). \<forall>ln \<in> set (all_lns ld). node_grounded t ln" "frames t \<le> n"
  shows "resolve_ied n t ied diags \<noteq> None"
  unfolding resolve_ied_def map_option_is_None
proof (rule r_map_defined)
  fix ld d
  assume "ld \<in> set (ied_devices ied)"
  then have "r_map (resolve_ln n t (ied_name ied) (ldev_inst ld)) (all_lns ld) d \<noteq> None"
    using assms by (intro r_map_defined resolve_ln_ends) auto
  then show "resolve_ldevice n t (ied_name ied) ld d \<noteq> None" by (simp add: resolve_ldevice_def)
qed

lemma resolve_ied_overflow:
  assumes "ld \<in> set (ied_devices ied)" "ln \<in> set (all_lns ld)" "\<not> node_grounded t ln"
  shows "resolve_ied n t ied diags = None"
  unfolding resolve_ied_def map_option_is_None
proof (rule r_map_overflow [OF assms(1)])
  fix d
  show "resolve_ldevice n t (ied_name ied) ld d = None"
    unfolding resolve_ldevice_def map_option_is_None
    by (rule r_map_overflow [OF assms(2)]) (rule resolve_ln_overflow [OF assms(3)])
qed

lemma resolve_ieds_ends:
  "(\<And>ied ld ln. ied \<in> set ieds \<Longrightarrow> ld \<in> set (ied_devices ied) \<Longrightarrow> ln \<in> set (all_lns ld) \<Longrightarrow>
     node_grounded t ln) \<Longrightarrow> frames t \<le> n \<Longrightarrow> resolve_ieds n t ieds m diags \<noteq> None"
proof (induction ieds arbitrary: m diags)
  case (Cons ied ieds)
  have "resolve_ied n t ied diags \<noteq> None" using Cons.prems by (intro resolve_ied_ends) auto
  then obtain sv d where i: "resolve_ied n t ied diags = Some (sv, d)" by auto
  have "resolve_ieds n t ieds (insert_ied (ied_name ied) sv m) d \<noteq> None"
    by (rule Cons.IH [OF Cons.prems(1) Cons.prems(2)]) simp_all
  then show ?case using i by simp
qed simp

lemma resolve_ieds_overflow:
  "ied \<in> set ieds \<Longrightarrow> (\<And>d. resolve_ied n t ied d = None) \<Longrightarrow> resolve_ieds n t ieds m diags = None"
  by (induction ieds arbitrary: m diags) (auto split: option.splits)

lemma resolve_lenient_ends_iff:
  assumes "frames (document_templates doc) \<le> n"
  shows "resolve_lenient n doc \<noteq> None \<longleftrightarrow> document_grounded doc"
proof
  assume "document_grounded doc"
  then show "resolve_lenient n doc \<noteq> None"
    unfolding resolve_lenient_def
    by (intro resolve_ieds_ends assms) (auto simp: document_grounded_def document_nodes_def)
next
  assume "resolve_lenient n doc \<noteq> None"
  then show "document_grounded doc"
    unfolding resolve_lenient_def document_grounded_def document_nodes_def
    using resolve_ied_overflow resolve_ieds_overflow by (fastforce simp del: not_None_eq)
qed

section \<open>More frames, at every level\<close>

lemma resolve_ln_mono:
  assumes "resolve_ln n t ied ld ln diags = Some r"
  shows "resolve_ln (Suc n) t ied ld ln diags = Some r"
proof -
  let ?loc = "ied @ ''/'' @ ld @ ''/'' @ sln_prefix ln @ sln_ln_class ln @ sln_inst ln"
  obtain st where st: "resolve_dos n t ?loc ln diags = Some st"
    using assms resolve_ln_None [of n t ied ld ln diags] by fastforce
  have "resolve_dos (Suc n) t ?loc ln diags = Some st"
    using st unfolding resolve_dos_def
    by (cases "lnode_type t (sln_ln_type ln)")
      (simp, simp del: resolve_do.simps, erule r_filter_map_mono, rule resolve_do_mono)
  then show ?thesis using assms st by (simp add: resolve_ln_def Let_def)
qed

lemma resolve_ied_mono:
  assumes "resolve_ied n t ied diags = Some r"
  shows "resolve_ied (Suc n) t ied diags = Some r"
proof -
  have ld: "resolve_ldevice (Suc n) t i l d = Some x" if x: "resolve_ldevice n t i l d = Some x" for i l d x
  proof -
    obtain y where y: "r_map (resolve_ln n t i (ldev_inst l)) (all_lns l) d = Some y"
      using x by (auto simp: resolve_ldevice_def)
    have "r_map (resolve_ln (Suc n) t i (ldev_inst l)) (all_lns l) d = Some y"
      by (rule r_map_mono [OF y]) (rule resolve_ln_mono)
    then show ?thesis using x y by (simp add: resolve_ldevice_def)
  qed
  obtain y where y: "r_map (resolve_ldevice n t (ied_name ied)) (ied_devices ied) diags = Some y"
    using assms by (auto simp: resolve_ied_def)
  have "r_map (resolve_ldevice (Suc n) t (ied_name ied)) (ied_devices ied) diags = Some y"
    by (rule r_map_mono [OF y]) (rule ld)
  then show ?thesis using assms y by (simp add: resolve_ied_def)
qed

lemma resolve_ieds_mono:
  "resolve_ieds n t ieds m diags = Some r \<Longrightarrow> resolve_ieds (Suc n) t ieds m diags = Some r"
proof (induction ieds arbitrary: m diags)
  case (Cons ied ieds)
  obtain sv d where i: "resolve_ied n t ied diags = Some (sv, d)" using Cons.prems by (auto split: option.splits)
  have "resolve_ieds (Suc n) t ieds (insert_ied (ied_name ied) sv m) d = Some r"
    using Cons i by simp
  then show ?case using resolve_ied_mono [OF i] by simp
qed simp

lemma resolve_lenient_mono:
  assumes "resolve_lenient n doc = Some r" "n \<le> m"
  shows "resolve_lenient m doc = Some r"
  using assms(2)
proof (induction m rule: dec_induct)
  case base
  then show ?case using assms(1) by simp
next
  case (step k)
  then show ?case using resolve_ieds_mono by (simp add: resolve_lenient_def)
qed

lemma resolve_lenient_frames:
  assumes "resolve_lenient n doc = Some r"
  shows "resolve_lenient (frames (document_templates doc)) doc = Some r"
proof -
  let ?f = "frames (document_templates doc)"
  have m: "resolve_lenient (n + ?f) doc = Some r" by (rule resolve_lenient_mono [OF assms]) simp
  have "document_grounded doc"
    unfolding resolve_lenient_ends_iff [of doc "n + ?f", OF le_add2, symmetric] m by blast
  then have "resolve_lenient ?f doc \<noteq> None" using resolve_lenient_ends_iff [of doc ?f] by blast
  then obtain r' where r': "resolve_lenient ?f doc = Some r'" by blast
  have "resolve_lenient (n + ?f) doc = Some r'" by (rule resolve_lenient_mono [OF r']) simp
  then show ?thesis using m r' by (simp only: option.inject)
qed

text \<open>C15: resolving a document ends exactly when no type it uses is reached by a cycle of type references;
  a stack of \<open>frames\<close> frames is then enough, and every larger stack gives the same result. (A cycle
  overflows every stack: the source has no test for it.)\<close>

theorem resolution_ends:
  "(resolve_lenient (frames (document_templates doc) + k) doc \<noteq> None \<longleftrightarrow> document_grounded doc) \<and>
   resolve_lenient n doc \<in> {None, resolve_lenient (frames (document_templates doc) + k) doc}"
proof
  let ?f = "frames (document_templates doc)"
  show "resolve_lenient (?f + k) doc \<noteq> None \<longleftrightarrow> document_grounded doc"
    by (rule resolve_lenient_ends_iff) simp
  show "resolve_lenient n doc \<in> {None, resolve_lenient (?f + k) doc}"
  proof (cases "resolve_lenient n doc")
    case (Some r)
    then show ?thesis using resolve_lenient_mono [OF resolve_lenient_frames [OF Some], of "?f + k"] by simp
  qed simp
qed

section \<open>Validated documents\<close>

text \<open>What the validation leaves open: a constructed attribute may name an \<open>EnumType\<close>, and a node a type
  that does not exist.\<close>

definition struct_typed :: "data_type_templates \<Rightarrow> bool" where
  "struct_typed t \<longleftrightarrow>
    (\<forall>dt \<in> set (tpl_do_types t). \<forall>d \<in> set (dot_das dt). \<forall>k.
       bt_is_struct (from_btype (tda_b_type d)) \<longrightarrow> tda_kind d = Some k \<longrightarrow> enum_type_of t k = None) \<and>
    (\<forall>dat \<in> set (tpl_da_types t). \<forall>b \<in> set (dat_bdas dat). \<forall>k.
       bt_is_struct (from_btype (bda_b_type b)) \<longrightarrow> bda_kind b = Some k \<longrightarrow> enum_type_of t k = None)"

definition nodes_typed :: "scl_document \<Rightarrow> bool" where
  "nodes_typed doc \<longleftrightarrow>
    (\<forall>ln \<in> set (document_nodes doc). lnode_type (document_templates doc) (sln_ln_type ln) \<noteq> None)"

definition error_free :: "diagnostic list \<Rightarrow> bool" where
  "error_free diags \<longleftrightarrow> (\<forall>d \<in> set diags. dg_severity d \<noteq> SevError)"

lemma error_free_simps [simp]: "error_free []" "error_free (r_warn m l diags) = error_free diags"
  by (auto simp: error_free_def r_warn_def diagnostic_warning_def)

lemma lookup_members:
  "lnode_type t i = Some lt \<Longrightarrow> lt \<in> set (tpl_lnode_types t)"
  "do_type_of t i = Some dt \<Longrightarrow> dt \<in> set (tpl_do_types t)"
  "da_type_of t i = Some dat \<Longrightarrow> dat \<in> set (tpl_da_types t)"
  by (auto simp: lnode_type_def do_type_of_def da_type_of_def find_Some_iff)

lemma coherent_default: "templates_coherent templates_default"
  by (simp add: templates_coherent_def templates_default_def type_ids_def)

lemma build_attribute_error_free:
  assumes co: "templates_coherent t" and st: "struct_typed t"
  shows "build_attribute n t name fc b_type type_ref val trg desc location diags = Some r \<Longrightarrow>
    (\<forall>i. bt_is_struct (from_btype b_type) \<longrightarrow> type_ref = Some i \<longrightarrow> da_type_of t i \<noteq> None) \<Longrightarrow>
    error_free diags \<Longrightarrow> error_free (snd r)"
proof (induction n arbitrary: name b_type type_ref val trg desc diags r)
  case 0
  then show ?case by simp
next
  case (Suc n)
  let ?f = "\<lambda>bda. build_attribute n t (bda_name bda) fc (bda_b_type bda) (bda_kind bda)
      (first_val (bda_val bda)) no_triggers (bda_desc bda) location"
  show ?case
  proof (cases "bt_is_struct (from_btype b_type) \<and> type_ref \<noteq> None")
    case False
    then show ?thesis using Suc.prems by (cases type_ref) (auto split: if_splits)
  next
    case True
    then obtain i dat where i: "type_ref = Some i" and dat: "da_type_of t i = Some dat"
      using Suc.prems(2) by blast
    have ok: "\<forall>i. bt_is_struct (from_btype (bda_b_type b)) \<longrightarrow> bda_kind b = Some i \<longrightarrow> da_type_of t i \<noteq> None"
      if "b \<in> set (dat_bdas dat)" for b
      using co st lookup_members(3) [OF dat] that unfolding templates_coherent_def struct_typed_def by blast
    obtain p where p: "r_map ?f (dat_bdas dat) diags = Some p" and r: "snd r = snd p"
      using Suc.prems(1) True i dat by auto
    have "error_free (snd p)"
      by (rule r_map_keeps [where P = error_free, OF p Suc.prems(3)])
        (drule Suc.IH [OF _ ok], simp_all)
    then show ?thesis by (simp add: r)
  qed
qed

lemma resolve_da_error_free:
  assumes co: "templates_coherent t" and st: "struct_typed t"
    and dt: "dt \<in> set (tpl_do_types t)" "da \<in> set (dot_das dt)"
    and r: "resolve_da n t location da diags = Some r" and ef: "error_free diags"
  shows "error_free (snd r)"
proof (cases "fc_from_str (tda_fc da)")
  case (Inl e)
  then show ?thesis using r ef by (auto simp: resolve_da_def)
next
  case (Inr fc)
  have "\<forall>i. bt_is_struct (from_btype (tda_b_type da)) \<longrightarrow> tda_kind da = Some i \<longrightarrow> da_type_of t i \<noteq> None"
    using co st dt unfolding templates_coherent_def struct_typed_def by blast
  then show ?thesis using r Inr ef build_attribute_error_free [OF co st]
    by (fastforce simp: resolve_da_def simp del: build_attribute.simps)
qed

lemma resolve_do_error_free:
  assumes co: "templates_coherent t" and st: "struct_typed t"
  shows "resolve_do n t name i transient desc location diags = Some r \<Longrightarrow> do_type_of t i \<noteq> None \<Longrightarrow>
    error_free diags \<Longrightarrow> error_free (snd r)"
proof (induction n arbitrary: name i transient desc diags r)
  case 0
  then show ?case by simp
next
  case (Suc n)
  obtain dt where dt: "do_type_of t i = Some dt" using Suc.prems(2) by auto
  note mem = lookup_members(2) [OF dt]
  let ?f = "\<lambda>sdo. resolve_do n t (sdo_name sdo) (sdo_kind sdo) False (sdo_desc sdo) location"
  obtain p q where p: "r_filter_map (resolve_da n t location) (dot_das dt) diags = Some p"
    and q: "r_filter_map ?f (dot_sdos dt) (snd p) = Some q" and r: "snd r = snd q"
    using Suc.prems(1) dt by (auto split: option.splits)
  have "error_free (snd p)"
    by (rule r_filter_map_keeps [where P = error_free, OF p Suc.prems(3)])
      (use resolve_da_error_free [OF co st mem] in fastforce)
  moreover have "do_type_of t (sdo_kind s) \<noteq> None" if "s \<in> set (dot_sdos dt)" for s
    using co mem that unfolding templates_coherent_def by blast
  ultimately have "error_free (snd q)"
    by (intro r_filter_map_keeps [where P = error_free, OF q]) (assumption, drule Suc.IH, simp_all)
  then show ?case by (simp add: r)
qed

lemma overlay_dois_error_free: "error_free (snd (overlay_dois loc dois st)) = error_free (snd st)"
  unfolding overlay_dois_def by (induction dois arbitrary: st) (auto split: prod.splits)

lemma resolve_ln_error_free:
  assumes co: "templates_coherent t" and st: "struct_typed t" and ty: "lnode_type t (sln_ln_type ln) \<noteq> None"
    and r: "resolve_ln n t ied ld ln diags = Some r" and ef: "error_free diags"
  shows "error_free (snd r)"
proof -
  let ?loc = "ied @ ''/'' @ ld @ ''/'' @ sln_prefix ln @ sln_ln_class ln @ sln_inst ln"
  obtain lnt where lnt: "lnode_type t (sln_ln_type ln) = Some lnt" using ty by auto
  obtain p where p: "resolve_dos n t ?loc ln diags = Some p"
    and sr: "snd r = snd (overlay_dois ?loc (sln_dois ln) p)"
    using r by (auto simp: resolve_ln_def Let_def split: option.splits prod.splits)
  have "do_type_of t (tdo_kind d) \<noteq> None" if "d \<in> set (lnt_dos lnt)" for d
    using co lookup_members(1) [OF lnt] that unfolding templates_coherent_def by blast
  then have "error_free (snd p)"
    using p lnt by (auto simp: resolve_dos_def intro!: r_filter_map_keeps [where P = error_free, OF _ ef]
      dest!: resolve_do_error_free [OF co st])
  then show ?thesis by (simp add: sr overlay_dois_error_free)
qed

lemma resolve_ied_error_free:
  assumes co: "templates_coherent t" "struct_typed t"
    and ty: "\<forall>ld \<in> set (ied_devices ied). \<forall>ln \<in> set (all_lns ld). lnode_type t (sln_ln_type ln) \<noteq> None"
    and r: "resolve_ied n t ied diags = Some r" and ef: "error_free diags"
  shows "error_free (snd r)"
proof -
  obtain p where p: "r_map (resolve_ldevice n t (ied_name ied)) (ied_devices ied) diags = Some p"
    and sr: "snd r = snd p" using r by (auto simp: resolve_ied_def)
  have "error_free (snd p)"
  proof (rule r_map_keeps [where P = error_free, OF p ef])
    fix ld d y d'
    assume ld: "ld \<in> set (ied_devices ied)" and e: "error_free d"
      and l: "resolve_ldevice n t (ied_name ied) ld d = Some (y, d')"
    obtain q where q: "r_map (resolve_ln n t (ied_name ied) (ldev_inst ld)) (all_lns ld) d = Some q"
      and d': "d' = snd q" using l by (auto simp: resolve_ldevice_def)
    show "error_free d'" unfolding d'
      by (rule r_map_keeps [where P = error_free, OF q e])
        (use resolve_ln_error_free [OF co] ty ld in fastforce)
  qed
  then show ?thesis by (simp add: sr)
qed

lemma resolve_ieds_error_free:
  assumes co: "templates_coherent t" "struct_typed t"
  shows "resolve_ieds n t ieds m diags = Some r \<Longrightarrow>
    (\<And>ied ld ln. ied \<in> set ieds \<Longrightarrow> ld \<in> set (ied_devices ied) \<Longrightarrow> ln \<in> set (all_lns ld) \<Longrightarrow>
       lnode_type t (sln_ln_type ln) \<noteq> None) \<Longrightarrow> error_free diags \<Longrightarrow> error_free (snd r)"
proof (induction ieds arbitrary: m diags)
  case (Cons ied ieds)
  obtain sv d where i: "resolve_ied n t ied diags = Some (sv, d)"
    and rest: "resolve_ieds n t ieds (insert_ied (ied_name ied) sv m) d = Some r"
    using Cons.prems(1) by (auto split: option.splits)
  have "\<forall>ld \<in> set (ied_devices ied). \<forall>ln \<in> set (all_lns ld). lnode_type t (sln_ln_type ln) \<noteq> None"
    using Cons.prems(2) [of ied] by simp
  from resolve_ied_error_free [OF co this i Cons.prems(3)] have "error_free d" by simp
  then show ?case by (intro Cons.IH [OF rest]) (use Cons.prems(2) in auto)
qed (metis option.inject resolve_ieds.simps(1) snd_conv)

text \<open>C16: a document that passes the validation, whose constructed attributes do not name an
  \<open>EnumType\<close>, whose nodes have existing types and whose types have no cycle in use resolves to a model.\<close>

theorem validated_resolves:
  assumes "scl_validate doc = []" "struct_typed (document_templates doc)" "nodes_typed doc"
    and "document_grounded doc"
  shows "\<exists>m. scl_resolve (frames (document_templates doc) + k) doc = Some (Inr m)"
proof -
  let ?t = "document_templates doc"
  have co: "templates_coherent ?t"
    using assms(1) validate_coherent [of doc] coherent_default
    by (cases "scl_templates doc") (simp_all add: document_templates_def or_default_def)
  obtain m diags where r: "resolve_lenient (frames ?t + k) doc = Some (m, diags)"
    using resolve_lenient_ends_iff [of doc "frames ?t + k"] assms(4) by fastforce
  have "error_free (snd (m, diags))"
    by (rule resolve_ieds_error_free [OF co assms(2) r [unfolded resolve_lenient_def]])
      (use assms(3) in \<open>auto simp: nodes_typed_def document_nodes_def\<close>)
  then have "find (\<lambda>d. dg_severity d = SevError) diags = None"
    by (auto simp: error_free_def find_None_iff)
  then show ?thesis by (simp add: scl_resolve_def r)
qed

section \<open>Configured values\<close>

text \<open>A data object without its values.\<close>

fun erase_da :: "data_attribute \<Rightarrow> data_attribute" where
  "erase_da (DataAttribute n fc bt d et ev tr v ch) = DataAttribute n fc bt d et ev tr None (map erase_da ch)"

fun erase_do :: "data_object \<Rightarrow> data_object" where
  "erase_do (DataObject n c d tr attrs subs) =
    DataObject n c d tr (map erase_da attrs) (map erase_do subs)"

lemma erase_set_value [simp]: "erase_da (set_value v a) = erase_da a"
  by (cases a) simp

lemma names_of_erased: "erase_da a = erase_da b \<Longrightarrow> da_name a = da_name b"
  "erase_do d = erase_do e \<Longrightarrow> do_name d = do_name e"
  by (cases a; cases b; simp) (cases d; cases e; simp)

lemma map_update_first: "(\<And>x. g (f x) = g x) \<Longrightarrow> map g (update_first P f xs) = map g xs"
  by (induction xs) auto

lemma fold_same: "(\<And>x s. x \<in> set xs \<Longrightarrow> g (f x s) = g s) \<Longrightarrow> g (fold f xs s) = g s"
  by (induction xs arbitrary: s) auto

lemma erase_overlay_dais [simp]: "map erase_da (overlay_dais dais attrs) = map erase_da attrs"
  unfolding overlay_dais_def by (rule fold_same) (simp add: map_update_first)

lemma erase_overlay_sdi_attr [simp]: "erase_da (overlay_sdi_on_attr s a) = erase_da a"
proof (induction s arbitrary: a)
  case (Sdi sn ix sdis dais)
  obtain n fc bt d et ev tr v ch where a: "a = DataAttribute n fc bt d et ev tr v ch" by (cases a)
  have "map erase_da (fold (\<lambda>nested. update_first (\<lambda>c. da_name c = sdi_name nested)
      (overlay_sdi_on_attr nested)) sdis cs) = map erase_da cs" for cs
    by (rule fold_same) (simp add: map_update_first Sdi.IH)
  then show ?case by (simp add: a)
qed

text \<open>One step of the loops over the instances of sub-data.\<close>

definition overlay_sub :: "scl_sdi \<Rightarrow> data_attribute list \<times> data_object list \<Rightarrow>
    data_attribute list \<times> data_object list" where
  "overlay_sub s = (\<lambda>(attrs, subs).
     if \<exists>a \<in> set attrs. da_name a = sdi_name s then
       (update_first (\<lambda>a. da_name a = sdi_name s) (overlay_sdi_on_attr s) attrs, subs)
     else (attrs, update_first (\<lambda>x. do_name x = sdi_name s) (overlay_sdi_on_do s) subs))"

lemma overlay_sub_step: "overlay_sub = (\<lambda>s (attrs, subs).
     if \<exists>a \<in> set attrs. da_name a = sdi_name s then
       (update_first (\<lambda>a. da_name a = sdi_name s) (overlay_sdi_on_attr s) attrs, subs)
     else (attrs, update_first (\<lambda>x. do_name x = sdi_name s) (overlay_sdi_on_do s) subs))"
  by (rule ext) (simp add: overlay_sub_def)

lemma overlay_sdi_on_do_sub: "overlay_sdi_on_do (Sdi sn ix sdis dais) (DataObject n c d tr attrs subs) =
    (case fold overlay_sub sdis (overlay_dais dais attrs, subs) of
       (attrs, subs) \<Rightarrow> DataObject n c d tr attrs subs)"
  by (simp add: overlay_sub_step)

lemma overlay_doi_sub: "overlay_doi (DataObject n c d tr attrs subs) doi =
    (case fold overlay_sub (doi_sdi doi) (overlay_dais (doi_dai doi) attrs, subs) of
       (attrs, subs) \<Rightarrow> DataObject n c d tr attrs subs)"
  by (simp add: overlay_doi_def overlay_sub_step)

lemma erase_overlay_sub:
  assumes "\<And>x. erase_do (overlay_sdi_on_do s x) = erase_do x"
  shows "map_prod (map erase_da) (map erase_do) (overlay_sub s st) = map_prod (map erase_da) (map erase_do) st"
  using assms by (cases st) (simp add: overlay_sub_def map_update_first)

lemma erase_overlay_sdi_do [simp]: "erase_do (overlay_sdi_on_do s x) = erase_do x"
proof (induction s arbitrary: x)
  case (Sdi sn ix sdis dais)
  obtain n c d tr attrs subs where x: "x = DataObject n c d tr attrs subs" by (cases x)
  have "map_prod (map erase_da) (map erase_do) (fold overlay_sub sdis st) =
      map_prod (map erase_da) (map erase_do) st" for st
    by (rule fold_same) (rule erase_overlay_sub, rule Sdi.IH)
  from this [of "(overlay_dais dais attrs, subs)"] show ?case
    by (cases "fold overlay_sub sdis (overlay_dais dais attrs, subs)")
      (simp add: x overlay_sdi_on_do_sub del: overlay_sdi_on_do.simps)
qed

lemma erase_overlay_doi [simp]: "erase_do (overlay_doi x doi) = erase_do x"
proof -
  obtain n c d tr attrs subs where x: "x = DataObject n c d tr attrs subs" by (cases x)
  have "map_prod (map erase_da) (map erase_do) (fold overlay_sub sdis st) =
      map_prod (map erase_da) (map erase_do) st" for sdis st
    by (rule fold_same) (rule erase_overlay_sub, simp)
  from this [of "doi_sdi doi" "(overlay_dais (doi_dai doi) attrs, subs)"] show ?thesis
    by (cases "fold overlay_sub (doi_sdi doi) (overlay_dais (doi_dai doi) attrs, subs)")
      (simp add: x overlay_doi_sub)
qed

lemma find_update_first:
  assumes "\<And>x. k (f x) = k x"
  shows "find (\<lambda>x. k x = n) (update_first (\<lambda>x. k x = m) f xs) =
    (if m = n then map_option f (find (\<lambda>x. k x = n) xs) else find (\<lambda>x. k x = n) xs)"
  using assms by (induction xs) auto

lemma da_name_overlay [simp]: "da_name (set_value v a) = da_name a" "da_name (overlay_sdi_on_attr s a) = da_name a"
  "da_value (overlay_sdi_on_attr s a) = da_value a" "da_value (set_value v a) = v"
  by (cases a; simp; fail | cases a; cases s; simp)+

lemma do_name_overlay [simp]: "do_name (overlay_doi x doi) = do_name x"
  by (rule names_of_erased) simp

text \<open>The value of a direct attribute: that of the last \<open>DAI\<close> with its name.\<close>

definition last_dai :: "string \<Rightarrow> scl_dai list \<Rightarrow> scl_dai option" where
  "last_dai n dais = find (\<lambda>d. dai_name d = n) (rev dais)"

lemma find_overlay_dais: "find (\<lambda>a. da_name a = n) (overlay_dais dais attrs) =
    map_option (\<lambda>a. case last_dai n dais of Some d \<Rightarrow> set_value (dai_value d) a | None \<Rightarrow> a)
      (find (\<lambda>a. da_name a = n) attrs)"
proof (induction dais rule: rev_induct)
  case Nil
  then show ?case by (simp add: overlay_dais_def last_dai_def option.map_ident)
next
  case (snoc d dais)
  have set2: "set_value v (set_value w a) = set_value v a" for v w a by (cases a) simp
  have "overlay_dais (dais @ [d]) attrs =
      update_first (\<lambda>a. da_name a = dai_name d) (set_value (dai_value d)) (overlay_dais dais attrs)"
    by (simp add: overlay_dais_def)
  then show ?case using snoc.IH
    by (cases "find (\<lambda>a. da_name a = n) attrs"; cases "last_dai n dais")
      (simp_all add: find_update_first last_dai_def set2)
qed

lemma value_overlay_doi: "map_option da_value (do_attribute (overlay_doi x doi) n) =
    (case last_dai n (doi_dai doi) of
       Some dai \<Rightarrow> map_option (\<lambda>_. dai_value dai) (do_attribute x n)
     | None \<Rightarrow> map_option da_value (do_attribute x n))"
proof -
  obtain nm c d tr attrs subs where x: "x = DataObject nm c d tr attrs subs" by (cases x)
  have "map_option da_value (find (\<lambda>a. da_name a = n) (fst (fold overlay_sub sdis st))) =
      map_option da_value (find (\<lambda>a. da_name a = n) (fst st))" for sdis st
  proof (rule fold_same [where g = "\<lambda>st. map_option da_value (find (\<lambda>a. da_name a = n) (fst st))"])
    fix s :: scl_sdi and st :: "data_attribute list \<times> data_object list"
    show "map_option da_value (find (\<lambda>a. da_name a = n) (fst (overlay_sub s st))) =
      map_option da_value (find (\<lambda>a. da_name a = n) (fst st))"
      by (cases st) (simp add: overlay_sub_def find_update_first option.map_comp o_def)
  qed
  from this [of "doi_sdi doi" "(overlay_dais (doi_dai doi) attrs, subs)"] show ?thesis
    by (cases "fold overlay_sub (doi_sdi doi) (overlay_dais (doi_dai doi) attrs, subs)";
        cases "find (\<lambda>a. da_name a = n) attrs"; cases "last_dai n (doi_dai doi)")
      (simp_all add: x overlay_doi_sub do_attribute_def find_overlay_dais)
qed

text \<open>The instances of a node, one after the other.\<close>

lemma overlay_dois_fst: "fst (overlay_dois loc dois st) =
    fold (\<lambda>doi. update_first (\<lambda>d. do_name d = doi_name doi) (\<lambda>d. overlay_doi d doi)) dois (fst st)"
proof (induction dois arbitrary: st)
  case (Cons doi dois)
  obtain dobjs diags where st: "st = (dobjs, diags)" by (cases st)
  have none: "update_first P f xs = xs" if "\<not> (\<exists>x \<in> set xs. P x)" for P f and xs :: "data_object list"
    using that by (induction xs) auto
  show ?case
  proof (cases "\<exists>d \<in> set dobjs. do_name d = doi_name doi")
    case True
    then show ?thesis using Cons.IH by (simp add: overlay_dois_def st)
  next
    case False
    then have "update_first (\<lambda>d. do_name d = doi_name doi) (\<lambda>d. overlay_doi d doi) dobjs = dobjs"
      by (rule none)
    then show ?thesis using Cons.IH False by (simp add: overlay_dois_def st)
  qed
qed (simp add: overlay_dois_def)

lemma find_overlay_dois:
  "distinct (map doi_name dois) \<Longrightarrow> doi \<in> set dois \<Longrightarrow>
    find (\<lambda>d. do_name d = doi_name doi) (fst (overlay_dois loc dois st)) =
    map_option (\<lambda>d. overlay_doi d doi) (find (\<lambda>d. do_name d = doi_name doi) (fst st))"
  unfolding overlay_dois_fst
proof (induction dois arbitrary: st rule: rev_induct)
  case (snoc x dois)
  let ?u = "\<lambda>doi. update_first (\<lambda>d. do_name d = doi_name doi) (\<lambda>d. overlay_doi d doi)"
  have other: "find (\<lambda>d. do_name d = n) (fold ?u ds dobjs) = find (\<lambda>d. do_name d = n) dobjs"
    if "n \<notin> doi_name ` set ds" for n and ds and dobjs
    by (rule fold_same) (use that in \<open>auto simp: find_update_first\<close>)
  show ?case
  proof (cases "doi = x")
    case True
    then have "doi_name x \<notin> doi_name ` set dois" using snoc.prems(1) by simp
    then show ?thesis using other True by (simp add: find_update_first)
  next
    case False
    then have "doi \<in> set dois" "doi_name x \<noteq> doi_name doi" using snoc.prems by auto
    then show ?thesis using snoc by (simp add: find_update_first)
  qed
qed simp

text \<open>C17: a \<open>DOI\<close> of a node changes the values of its data object and nothing else, and each direct
  attribute then holds the value of the last \<open>DAI\<close> with its name (none when that has no \<open>Val\<close>), or
  the default of its type when no \<open>DAI\<close> names it.\<close>

theorem configured_values:
  assumes "resolve_ln n t ied ld ln diags = Some (node, diags')"
    and "distinct (map doi_name (sln_dois ln))" "doi \<in> set (sln_dois ln)"
    and "ln_data_object node (doi_name doi) = Some d"
  shows "\<exists>dobjs diags1 d0. resolve_dos n t (ied @ ''/'' @ ld @ ''/'' @ ln_name node) ln diags = Some (dobjs, diags1) \<and>
    find (\<lambda>x. do_name x = doi_name doi) dobjs = Some d0 \<and> erase_do d = erase_do d0 \<and>
    (\<forall>m. map_option da_value (do_attribute d m) =
      (case last_dai m (doi_dai doi) of
         Some dai \<Rightarrow> map_option (\<lambda>_. dai_value dai) (do_attribute d0 m)
       | None \<Rightarrow> map_option da_value (do_attribute d0 m)))"
proof -
  let ?loc = "ied @ ''/'' @ ld @ ''/'' @ sln_prefix ln @ sln_ln_class ln @ sln_inst ln"
  obtain st where st: "resolve_dos n t ?loc ln diags = Some st"
    and obs: "ln_data_objects node = fst (overlay_dois ?loc (sln_dois ln) st)"
    and nm: "ln_name node = sln_prefix ln @ sln_ln_class ln @ sln_inst ln"
    using assms(1) by (auto simp: resolve_ln_def Let_def ln_name_def split: option.splits prod.splits)
  obtain d0 where d0: "find (\<lambda>x. do_name x = doi_name doi) (fst st) = Some d0" and d: "d = overlay_doi d0 doi"
    using assms(4) unfolding ln_data_object_def obs find_overlay_dois [OF assms(2,3)] by blast
  show ?thesis using st d0 value_overlay_doi [of d0 doi]
    by (intro exI [of _ "fst st"] exI [of _ "snd st"] exI [of _ d0]) (simp add: d nm)
qed

section \<open>A document\<close>

definition demo_templates :: data_type_templates where
  "demo_templates =
    \<lparr>tpl_lnode_types = [\<lparr>lnt_id = ''L'', lnt_ln_class = ''LLN0'', lnt_desc = None,
       lnt_dos = [\<lparr>tdo_name = ''Mod'', tdo_kind = ''D'', tdo_transient = None, tdo_desc = None\<rparr>]\<rparr>],
     tpl_do_types = [\<lparr>dot_id = ''D'', dot_cdc = ''ENC'', dot_desc = None,
       dot_das = [\<lparr>tda_name = ''ctlNum'', tda_desc = None, tda_fc = ''CF'', tda_b_type = ''INT32'',
           tda_kind = None, tda_dchg = None, tda_qchg = None, tda_dupd = None,
           tda_val = [\<lparr>val_s_group = None, val_text = ''1''\<rparr>]\<rparr>,
         \<lparr>tda_name = ''u'', tda_desc = None, tda_fc = ''CF'', tda_b_type = ''Struct'',
           tda_kind = Some ''A'', tda_dchg = None, tda_qchg = None, tda_dupd = None, tda_val = []\<rparr>],
       dot_sdos = [\<lparr>sdo_name = ''s'', sdo_kind = ''E'', sdo_desc = None\<rparr>]\<rparr>,
      \<lparr>dot_id = ''E'', dot_cdc = ''SPS'', dot_desc = None, dot_das = [], dot_sdos = []\<rparr>],
     tpl_da_types = [\<lparr>dat_id = ''A'', dat_desc = None,
       dat_bdas = [\<lparr>bda_name = ''f'', bda_desc = None, bda_b_type = ''BOOLEAN'', bda_kind = None,
         bda_val = []\<rparr>]\<rparr>],
     tpl_enum_types = []\<rparr>"

definition demo_ln :: scl_ln where
  "demo_ln =
    \<lparr>sln_prefix = [], sln_ln_class = ''LLN0'', sln_inst = [], sln_ln_type = ''L'', sln_desc = None,
     sln_data_sets = [], sln_report_controls = [], sln_gse_controls = [], sln_smv_controls = [],
     sln_setting_control = None, sln_log_controls = [],
     sln_dois = [\<lparr>doi_name = ''Mod'', doi_ix = None, doi_desc = None, doi_sdi = [],
       doi_dai = [\<lparr>dai_name = ''ctlNum'', dai_ix = None, dai_s_group = None,
         dai_val = [\<lparr>val_s_group = None, val_text = ''7''\<rparr>]\<rparr>]\<rparr>]\<rparr>"

definition demo_document :: scl_document where
  "demo_document =
    \<lparr>scl_header = None, scl_substations = [], scl_communication = None,
     scl_ieds = [\<lparr>ied_name = ''I'', ied_kind = None, ied_manufacturer = None, ied_config_version = None,
       ied_access_points = [\<lparr>apt_name = ''P'', apt_server = Some \<lparr>srv_ldevices =
         [\<lparr>ldev_inst = ''LD'', ldev_ld_name = None, ldev_desc = None, ldev_ln0 = Some demo_ln,
           ldev_lns = []\<rparr>]\<rparr>\<rparr>]\<rparr>],
     scl_templates = Some demo_templates\<rparr>"

lemma demo_grounded: "document_grounded demo_document"
proof -
  have "resolve_lenient (frames (document_templates demo_document)) demo_document \<noteq> None"
    by code_simp
  then show ?thesis using resolve_lenient_ends_iff [of demo_document] by blast
qed

lemma demo_validates: "scl_validate demo_document = []" "struct_typed (document_templates demo_document)"
  "nodes_typed demo_document"
  by (code_simp, simp_all add: struct_typed_def nodes_typed_def document_nodes_def demo_document_def
    document_templates_def or_default_def demo_templates_def enum_type_of_def ied_devices_def all_lns_def
    demo_ln_def lnode_type_def)

theorem validated_resolves_witness:
  "\<exists>m. scl_resolve (frames (document_templates demo_document) + 0) demo_document = Some (Inr m)"
  by (rule validated_resolves [OF demo_validates demo_grounded])

theorem configured_values_witness:
  "\<exists>node diags d d0. resolve_ln 4 demo_templates ''I'' ''LD'' demo_ln [] = Some (node, diags) \<and>
     ln_data_object node ''Mod'' = Some d \<and> erase_do d = erase_do d0 \<and>
     map_option da_value (do_attribute d ''ctlNum'') =
       map_option (\<lambda>_. Some (value_new ''7'')) (do_attribute d0 ''ctlNum'')"
proof -
  have "Option.bind (resolve_ln 4 demo_templates ''I'' ''LD'' demo_ln [])
      (\<lambda>(node, diags). ln_data_object node ''Mod'') \<noteq> None"
    by code_simp
  then obtain node diags d where r: "resolve_ln 4 demo_templates ''I'' ''LD'' demo_ln [] = Some (node, diags)"
    and d: "ln_data_object node ''Mod'' = Some d" by (auto simp: bind_eq_Some_conv)
  have dois: "distinct (map doi_name (sln_dois demo_ln))" "hd (sln_dois demo_ln) \<in> set (sln_dois demo_ln)"
    and nm: "doi_name (hd (sln_dois demo_ln)) = ''Mod''" by (simp_all add: demo_ln_def)
  have "last_dai ''ctlNum'' (doi_dai (hd (sln_dois demo_ln))) \<noteq> None \<and>
      map_option dai_value (last_dai ''ctlNum'' (doi_dai (hd (sln_dois demo_ln)))) =
        Some (Some (value_new ''7''))" by code_simp
  then obtain dai where "last_dai ''ctlNum'' (doi_dai (hd (sln_dois demo_ln))) = Some dai"
    "dai_value dai = Some (value_new ''7'')" by auto
  with configured_values [OF r dois d [folded nm]] show ?thesis using r d by fastforce
qed

end
