(* ===== verification/SclConfig.thy ===== *)
theory SclConfig imports SclResolve GoosePublisher SvStream begin

text \<open>
  From a document to the configuration of publishers: \<open>crates/iec61850/src/config.rs\<close>. The lemmas say
  that a configuration comes from the document and that the members of a data set are found, and show
  on concrete documents what the source leaves open.
\<close>

unbundle bit_operations_syntax

section \<open>Errors\<close>

datatype config_error =
    CfgIedNotFound string
  | CfgControlNotFound string
  | CfgAddressNotFound string
  | CfgBadMac string
  | CfgBadAppid string
  | CfgDatasetNotFound string

section \<open>Numbers in the text of addresses\<close>

definition hex_value :: "char \<Rightarrow> nat option" where
  "hex_value c =
    (let v = (of_char c :: nat)
     in if 48 \<le> v \<and> v \<le> 57 then Some (v - 48)
        else if 65 \<le> v \<and> v \<le> 70 then Some (v - 55)
        else if 97 \<le> v \<and> v \<le> 102 then Some (v - 87)
        else None)"

text \<open>\<open>from_str_radix\<close> with radix 16, of a type with values below \<open>bound\<close>.\<close>

definition parse_hex :: "nat \<Rightarrow> string \<Rightarrow> nat option" where
  "parse_hex bound s =
    (case those (map hex_value (if starts_with ''+'' s then drop 1 s else s)) of
       None \<Rightarrow> None
     | Some ds \<Rightarrow>
         (let n = foldl (\<lambda>a d. a * 16 + d) 0 ds
          in if ds \<noteq> [] \<and> n < bound then Some n else None))"

text \<open>\<open>parse\<close> of a \<open>u8\<close>.\<close>

definition parse_u8 :: "string \<Rightarrow> u8 option" where
  "parse_u8 s =
    (case parse_nat (if starts_with ''+'' s then drop 1 s else s) of
       Some n \<Rightarrow> if n < 2 ^ 8 then Some (word_of_nat n) else None
     | None \<Rightarrow> None)"

text \<open>\<open>split\<close> at any of several characters, and \<open>trim_start_matches\<close> of \<open>0x\<close>.\<close>

fun split_by :: "('a \<Rightarrow> bool) \<Rightarrow> 'a list \<Rightarrow> 'a list list" where
  "split_by P [] = [[]]"
| "split_by P (c # s) = (if P c then [] # split_by P s
     else case split_by P s of p # ps \<Rightarrow> (c # p) # ps | [] \<Rightarrow> [[c]])"

definition prefix_0x :: string where
  "prefix_0x = ''0x''"

fun trim_0x :: "string \<Rightarrow> string" where
  "trim_0x (a # b # s) = (if [a, b] = prefix_0x then trim_0x s else a # b # s)"
| "trim_0x s = s"

definition mac_separator :: "char \<Rightarrow> bool" where
  "mac_separator c \<longleftrightarrow> c = CHR ''-'' \<or> c = CHR '':''"

definition parse_mac :: "string \<Rightarrow> config_error + mac_addr" where
  "parse_mac s =
    (let parts = split_by mac_separator s
     in if length parts \<noteq> 6 then Inl (CfgBadMac s)
        else case those (map (\<lambda>p. parse_hex (2 ^ 8) (trim p)) parts) of
          None \<Rightarrow> Inl (CfgBadMac s)
        | Some ns \<Rightarrow> Inr (map word_of_nat ns))"

definition parse_appid :: "string \<Rightarrow> config_error + u16" where
  "parse_appid s =
    (let s = trim_0x (trim s)
     in case parse_hex (2 ^ 16) s of
          None \<Rightarrow> Inl (CfgBadAppid s)
        | Some n \<Rightarrow> Inr (word_of_nat n))"

definition vlan_of_address :: "address \<Rightarrow> vlan_tag option" where
  "vlan_of_address adr =
    (case address_param adr ''VLAN-ID'' of
       None \<Rightarrow> None
     | Some vid_s \<Rightarrow>
         (case parse_hex (2 ^ 16) (trim_0x (trim vid_s)) of
            None \<Rightarrow> None
          | Some v \<Rightarrow>
              Some \<lparr>pcp = or_default 4 (Option.bind (address_param adr ''VLAN-PRIORITY'') (\<lambda>p. parse_u8 (trim p))),
                    dei = False, vid = word_of_nat v AND 0x0FFF\<rparr>))"

section \<open>Lookup\<close>

definition node_text :: "scl_ln \<Rightarrow> string" where
  "node_text ln = sln_prefix ln @ sln_ln_class ln @ sln_inst ln"

definition find_gse_control :: "scl_document \<Rightarrow> string \<Rightarrow> string \<Rightarrow> (gse_control \<times> string \<times> string) option" where
  "find_gse_control doc ied cb_name =
    (case find (\<lambda>i. ied_name i = ied) (scl_ieds doc) of
       None \<Rightarrow> None
     | Some ied \<Rightarrow>
         first_return (\<lambda>ap. case apt_server ap of
             None \<Rightarrow> None
           | Some server \<Rightarrow>
               first_return (\<lambda>ld. first_return (\<lambda>ln. first_return (\<lambda>gc.
                 if gse_name gc = cb_name then Some (gc, ldev_inst ld, node_text ln) else None)
                 (sln_gse_controls ln)) (all_lns ld)) (srv_ldevices server))
           (ied_access_points ied))"

definition find_smv_control :: "scl_document \<Rightarrow> string \<Rightarrow> string \<Rightarrow> (smv_control \<times> string) option" where
  "find_smv_control doc ied cb_name =
    (case find (\<lambda>i. ied_name i = ied) (scl_ieds doc) of
       None \<Rightarrow> None
     | Some ied \<Rightarrow>
         first_return (\<lambda>ap. case apt_server ap of
             None \<Rightarrow> None
           | Some server \<Rightarrow>
               first_return (\<lambda>ld. first_return (\<lambda>ln.
                 map_option (\<lambda>sc. (sc, ldev_inst ld)) (find (\<lambda>s. smv_name s = cb_name) (sln_smv_controls ln)))
                 (all_lns ld)) (srv_ldevices server))
           (ied_access_points ied))"

text \<open>The first block with the name decides, even without an address.\<close>

definition find_gse_address :: "scl_document \<Rightarrow> string \<Rightarrow> string \<Rightarrow> address option" where
  "find_gse_address doc ied cb_name =
    (case scl_communication doc of
       None \<Rightarrow> None
     | Some comm \<Rightarrow>
         Option.bind (first_return (\<lambda>sn. first_return (\<lambda>ap.
             if cap_ied_name ap \<noteq> ied then None
             else first_return (\<lambda>gse. if cgse_cb_name gse = Some cb_name then Some (cgse_address gse) else None)
               (cap_gse ap)) (net_connected_aps sn)) (com_sub_networks comm)) (\<lambda>x. x))"

definition find_smv_address :: "scl_document \<Rightarrow> string \<Rightarrow> string \<Rightarrow> address option" where
  "find_smv_address doc ied cb_name =
    (case scl_communication doc of
       None \<Rightarrow> None
     | Some comm \<Rightarrow>
         Option.bind (first_return (\<lambda>sn. first_return (\<lambda>ap.
             if cap_ied_name ap \<noteq> ied then None
             else first_return (\<lambda>smv. if csmv_cb_name smv = Some cb_name then Some (csmv_address smv) else None)
               (cap_smv ap)) (net_connected_aps sn)) (com_sub_networks comm)) (\<lambda>x. x))"

section \<open>Configurations\<close>

definition goose_from_scl ::
    "scl_document \<Rightarrow> string \<Rightarrow> string \<Rightarrow> mac_addr \<Rightarrow> config_error + 'sk goose_config" where
  "goose_from_scl doc ied cb_name src =
    bindE (ok_or (CfgControlNotFound cb_name) (find_gse_control doc ied cb_name)) (\<lambda>(gc, inst, node).
    bindE (ok_or (CfgAddressNotFound cb_name) (find_gse_address doc ied cb_name)) (\<lambda>adr.
    bindE (parse_mac (or_default [] (address_param adr ''MAC-Address''))) (\<lambda>dst.
    bindE (parse_appid (or_default [] (address_param adr ''APPID''))) (\<lambda>appid.
      Inr ((goose_config_new dst src appid (ied @ inst @ ''/'' @ node @ ''$GO$'' @ cb_name))
        \<lparr>gc_dat_set := or_default [] (gse_dat_set gc),
         gc_go_id := or_default cb_name (gse_app_id gc),
         gc_conf_rev := or_default 1 (gse_conf_rev gc),
         gc_vlan := vlan_of_address adr\<rparr>)))))"

definition sv_from_scl ::
    "scl_document \<Rightarrow> string \<Rightarrow> string \<Rightarrow> mac_addr \<Rightarrow> config_error + 'sk sv_config" where
  "sv_from_scl doc ied cb_name src =
    bindE (ok_or (CfgControlNotFound cb_name) (find_smv_control doc ied cb_name)) (\<lambda>(sc, inst).
    bindE (ok_or (CfgAddressNotFound cb_name) (find_smv_address doc ied cb_name)) (\<lambda>adr.
    bindE (parse_mac (or_default [] (address_param adr ''MAC-Address''))) (\<lambda>dst.
    bindE (parse_appid (or_default [] (address_param adr ''APPID''))) (\<lambda>appid.
      Inr ((sv_config_new dst src appid (or_default cb_name (smv_smv_id sc)))
        \<lparr>svc_dat_set := smv_dat_set sc,
         svc_conf_rev := or_default 1 (smv_conf_rev sc),
         svc_vlan := vlan_of_address adr\<rparr>)))))"

definition goose_dataset_members ::
    "scl_document \<Rightarrow> model \<Rightarrow> string \<Rightarrow> string \<Rightarrow> config_error + dataset_member list" where
  "goose_dataset_members doc m ied cb_name =
    bindE (ok_or (CfgControlNotFound cb_name) (find_gse_control doc ied cb_name)) (\<lambda>(gc, inst, node).
    bindE (ok_or (CfgDatasetNotFound cb_name) (gse_dat_set gc)) (\<lambda>ds.
      ok_or (CfgDatasetNotFound ds) (resolve_dataset m (ied @ inst) ds)))"

definition sv_dataset_members ::
    "scl_document \<Rightarrow> model \<Rightarrow> string \<Rightarrow> string \<Rightarrow> config_error + dataset_member list" where
  "sv_dataset_members doc m ied cb_name =
    bindE (ok_or (CfgControlNotFound cb_name) (find_smv_control doc ied cb_name)) (\<lambda>(sc, inst).
    bindE (ok_or (CfgDatasetNotFound cb_name) (smv_dat_set sc)) (\<lambda>ds.
      ok_or (CfgDatasetNotFound ds) (resolve_dataset m (ied @ inst) ds)))"

section \<open>Addresses in text\<close>

definition hex_pair :: "u8 \<Rightarrow> string" where
  "hex_pair b = [hex_digit (unat b div 16), hex_digit (unat b mod 16)]"

fun mac_text :: "char \<Rightarrow> mac_addr \<Rightarrow> string" where
  "mac_text sep [] = []"
| "mac_text sep [b] = hex_pair b"
| "mac_text sep (b # bs) = hex_pair b @ sep # mac_text sep bs"

lemma hex_digit_value: "n < 16 \<Longrightarrow> hex_value (hex_digit n) = Some n \<and> \<not> mac_separator (hex_digit n)
    \<and> visible (hex_digit n) \<and> hex_digit n \<noteq> CHR ''+''"
proof -
  have "list_all (\<lambda>n. hex_value (hex_digit n) = Some n \<and> \<not> mac_separator (hex_digit n)
      \<and> visible (hex_digit n) \<and> hex_digit n \<noteq> CHR ''+'') [0..<16]"
    by code_simp
  then show "n < 16 \<Longrightarrow> ?thesis" by (simp add: list_all_iff)
qed

lemma hex_pair_parses:
  "parse_hex 256 (trim (hex_pair b)) = Some (unat b)" "\<forall>c \<in> set (hex_pair b). \<not> mac_separator c"
proof -
  have lt: "unat b < 256" by simp
  then have h: "unat b div 16 < 16" and l: "unat b mod 16 < 16"
    by (simp_all add: less_mult_imp_div_less)
  note d = hex_digit_value [OF h] hex_digit_value [OF l]
  have t: "trim (hex_pair b) = hex_pair b" using d by (intro trim_visible) (simp_all add: hex_pair_def)
  have ns: "\<not> starts_with ''+'' (hex_pair b)" using d by (simp add: hex_pair_def starts_with_def)
  have "unat b div 16 * 16 + unat b mod 16 = unat b" by simp
  then show "parse_hex 256 (trim (hex_pair b)) = Some (unat b)"
    using d lt ns by (simp add: t parse_hex_def Let_def) (simp add: hex_pair_def)
  show "\<forall>c \<in> set (hex_pair b). \<not> mac_separator c" using d by (simp add: hex_pair_def)
qed

lemma split_by_plain: "\<forall>c \<in> set p. \<not> P c \<Longrightarrow> split_by P p = [p]"
  by (induction p) auto

lemma split_by_at: "\<forall>c \<in> set p. \<not> P c \<Longrightarrow> P x \<Longrightarrow> split_by P (p @ x # s) = p # split_by P s"
  by (induction p) auto

lemma split_mac_text:
  "mac_separator sep \<Longrightarrow> bs \<noteq> [] \<Longrightarrow> split_by mac_separator (mac_text sep bs) = map hex_pair bs"
  by (induction sep bs rule: mac_text.induct)
    (simp_all add: split_by_plain split_by_at hex_pair_parses(2))

lemma those_Some: "those (map (\<lambda>x. Some (f x)) xs) = Some (map f xs)"
  by (induction xs) simp_all

lemma mac_text_parses:
  assumes "mac_separator sep" "length m = 6"
  shows "parse_mac (mac_text sep m) = Inr m"
proof -
  have "split_by mac_separator (mac_text sep m) = map hex_pair m"
    using assms by (intro split_mac_text) auto
  then show ?thesis using assms(2)
    by (simp add: parse_mac_def o_def hex_pair_parses(1) those_Some)
qed

section \<open>Configurations come from the document\<close>

lemma ok_or_Inr [simp]: "ok_or e x = Inr y \<longleftrightarrow> x = Some y" "ok_or e x = Inl f \<longleftrightarrow> x = None \<and> f = e"
  by (cases x; auto)+

lemma bindE_InrE: "bindE x f = Inr y \<Longrightarrow> (\<And>z. x = Inr z \<Longrightarrow> f z = Inr y \<Longrightarrow> thesis) \<Longrightarrow> thesis"
  by (cases x) auto

lemma in_ied_devices: "ld \<in> set (ied_devices i) \<longleftrightarrow>
    (\<exists>ap \<in> set (ied_access_points i). \<exists>srv. apt_server ap = Some srv \<and> ld \<in> set (srv_ldevices srv))"
  unfolding ied_devices_def set_concat set_map UN_iff image_iff
  by (auto split: option.splits) (metis, metis)

lemma found_gse_control:
  assumes "find_gse_control doc ied cb = Some (gc, inst, node)"
  obtains i ld ln where "find (\<lambda>i. ied_name i = ied) (scl_ieds doc) = Some i"
    "ld \<in> set (ied_devices i)" "ln \<in> set (all_lns ld)" "gc \<in> set (sln_gse_controls ln)"
    "gse_name gc = cb" "inst = ldev_inst ld" "node = node_text ln"
  using assms unfolding find_gse_control_def
  by (auto simp: in_ied_devices split: option.splits if_splits dest!: first_return_Some) blast

lemma first_return_None: "first_return f xs = None \<longleftrightarrow> (\<forall>x \<in> set xs. f x = None)"
  by (induction xs) (auto split: option.splits)

lemma no_gse_control:
  assumes "find_gse_control doc ied cb = None" "find (\<lambda>i. ied_name i = ied) (scl_ieds doc) = Some i"
    "ld \<in> set (ied_devices i)" "ln \<in> set (all_lns ld)" "gc \<in> set (sln_gse_controls ln)"
  shows "gse_name gc \<noteq> cb"
proof -
  obtain ap srv where ap: "ap \<in> set (ied_access_points i)" "apt_server ap = Some srv" "ld \<in> set (srv_ldevices srv)"
    using assms(3) by (auto simp: in_ied_devices)
  show ?thesis using assms(1,2,4,5) ap
    by (fastforce simp: find_gse_control_def first_return_None split: option.splits if_splits)
qed

lemma found_gse_address:
  assumes "find_gse_address doc ied cb = Some adr"
  obtains comm sn ap gse where "scl_communication doc = Some comm" "sn \<in> set (com_sub_networks comm)"
    "ap \<in> set (net_connected_aps sn)" "cap_ied_name ap = ied" "gse \<in> set (cap_gse ap)"
    "cgse_cb_name gse = Some cb" "cgse_address gse = Some adr"
  using assms unfolding find_gse_address_def
  by (auto simp: bind_eq_Some_conv split: option.splits if_splits dest!: first_return_Some)

section \<open>Data sets of the published streams\<close>

lemma btree_insert_member: "(k, v) \<in> set (btree_insert k v xs)"
  "(k', v') \<in> set xs \<Longrightarrow> k' \<noteq> k \<Longrightarrow> (k', v') \<in> set (btree_insert k v xs)"
  by (induction k v xs rule: btree_insert.induct) auto

lemma resolve_ieds_keeps:
  "resolve_ieds n t ieds m diags = Some (m', diags') \<Longrightarrow> (k, sv) \<in> set (m_ieds m) \<Longrightarrow>
    k \<notin> ied_name ` set ieds \<Longrightarrow> (k, sv) \<in> set (m_ieds m')"
proof (induction ieds arbitrary: m diags)
  case (Cons ied ieds)
  then show ?case
    by (auto simp: insert_ied_def btree_insert_member split: option.splits)
qed simp

lemma resolved_ied:
  "resolve_ieds n t ieds m diags = Some (m', diags') \<Longrightarrow> distinct (map ied_name ieds) \<Longrightarrow> ied \<in> set ieds \<Longrightarrow>
    \<exists>sv d d'. resolve_ied n t ied d = Some (sv, d') \<and> (ied_name ied, sv) \<in> set (m_ieds m')"
proof (induction ieds arbitrary: m diags)
  case (Cons i ieds)
  obtain sv d where i: "resolve_ied n t i diags = Some (sv, d)"
    and rest: "resolve_ieds n t ieds (insert_ied (ied_name i) sv m) d = Some (m', diags')"
    using Cons.prems(1) by (auto split: option.splits)
  show ?case
  proof (cases "ied = i")
    case True
    have "(ied_name i, sv) \<in> set (m_ieds m')"
      by (rule resolve_ieds_keeps [OF rest])
        (use Cons.prems(2) in \<open>auto simp: insert_ied_def btree_insert_member\<close>)
    then show ?thesis using i True by blast
  next
    case False
    then show ?thesis using Cons.IH [OF rest] Cons.prems(2,3) by simp
  qed
qed simp

lemma all2_member: "list_all2 R xs ys \<Longrightarrow> x \<in> set xs \<Longrightarrow> \<exists>y \<in> set ys. R x y"
  by (induction rule: list_all2_induct) auto

lemma resolved_device:
  assumes "resolve_ied n t ied d = Some (sv, d')" "ld \<in> set (ied_devices ied)"
  obtains dev e e' where "dev \<in> set (sv_logical_devices sv)" "resolve_ldevice n t (ied_name ied) ld e = Some (dev, e')"
proof -
  obtain p where p: "r_map (resolve_ldevice n t (ied_name ied)) (ied_devices ied) d = Some p"
    and sv: "sv = \<lparr>sv_logical_devices = fst p\<rparr>" using assms(1) by (auto simp: resolve_ied_def)
  show thesis using all2_member [OF r_map_all2 [OF p] assms(2)] that by (auto simp: sv)
qed

lemma resolved_node:
  assumes "resolve_ldevice n t ied ld e = Some (dev, e')" "ln \<in> set (all_lns ld)"
  obtains node f f' where "node \<in> set (ld_logical_nodes dev)" "resolve_ln n t ied (ldev_inst ld) ln f = Some (node, f')"
    "ld_inst dev = ldev_inst ld" "ld_name dev = ldev_ld_name ld"
proof -
  obtain p where p: "r_map (resolve_ln n t ied (ldev_inst ld)) (all_lns ld) e = Some p"
    and dev: "dev = \<lparr>ld_inst = ldev_inst ld, ld_name = ldev_ld_name ld, ld_logical_nodes = fst p\<rparr>"
    using assms(1) by (auto simp: resolve_ldevice_def)
  show thesis using all2_member [OF r_map_all2 [OF p] assms(2)] that by (auto simp: dev)
qed

lemma resolved_data_set:
  assumes "resolve_ln n t ied inst ln f = Some (node, f')" "s \<in> set (sln_data_sets ln)"
  shows "ln_data_set node (sds_name s) \<noteq> None"
proof -
  have "ln_data_sets node = map convert_data_set (sln_data_sets ln)"
    using assms(1) by (auto simp: resolve_ln_def Let_def split: option.splits prod.splits)
  then show ?thesis using assms(2) by (auto simp: ln_data_set_def find_None_iff convert_data_set_def)
qed

lemma first_return_defined: "x \<in> set xs \<Longrightarrow> f x \<noteq> None \<Longrightarrow> first_return f xs \<noteq> None"
  by (auto simp: first_return_None)

text \<open>The data set of a control block, in a device that keeps its name, is one of the model.\<close>

lemma resolved_members:
  assumes r: "resolve_lenient n doc = Some (m, diags)" and di: "distinct (map ied_name (scl_ieds doc))"
    and i: "i \<in> set (scl_ieds doc)" and ld: "ld \<in> set (ied_devices i)" "ldev_ld_name ld = None"
    and s: "ln \<in> set (all_lns ld)" "s \<in> set (sln_data_sets ln)"
  shows "resolve_dataset m (ied_name i @ ldev_inst ld) (sds_name s) \<noteq> None"
proof -
  let ?t = "document_templates doc"
  obtain sv d d' where sv: "resolve_ied n ?t i d = Some (sv, d')" "(ied_name i, sv) \<in> set (m_ieds m)"
    using resolved_ied [OF r [unfolded resolve_lenient_def] di i] by blast
  obtain dev e e' where dev: "dev \<in> set (sv_logical_devices sv)"
    "resolve_ldevice n ?t (ied_name i) ld e = Some (dev, e')" using resolved_device [OF sv(1) ld(1)] .
  obtain node f f' where node: "node \<in> set (ld_logical_nodes dev)"
    "resolve_ln n ?t (ied_name i) (ldev_inst ld) ln f = Some (node, f')"
    "ld_inst dev = ldev_inst ld" "ld_name dev = ldev_ld_name ld" using resolved_node [OF dev(2) s(1)] .
  have "ln_data_set node (sds_name s) \<noteq> None" using resolved_data_set [OF node(2) s(2)] .
  then have n: "first_return (\<lambda>ln. case ln_data_set ln (sds_name s) of None \<Rightarrow> None | Some ds \<Rightarrow> Some (g ds))
      (ld_logical_nodes dev) \<noteq> None" for g :: "data_set \<Rightarrow> dataset_member list"
    by (intro first_return_defined [OF node(1)]) auto
  have "effective_ld_name (ied_name i) dev = ied_name i @ ldev_inst ld"
    using ld(2) node(3,4) by (simp add: effective_ld_name_def)
  then show ?thesis unfolding resolve_dataset_def
    by (intro first_return_defined [OF sv(2)], unfold prod.case, intro first_return_defined [OF dev(1)])
      (simp add: n del: not_None_eq)
qed



section \<open>A document with a publisher\<close>

definition published_ln :: scl_ln where
  "published_ln = demo_ln
    \<lparr>sln_data_sets := [\<lparr>sds_name = ''ds'', sds_desc = None,
       sds_fcda = [\<lparr>sf_ld_inst = None, sf_prefix = None, sf_ln_class = Some ''LLN0'', sf_ln_inst = None,
         sf_do_name = Some ''Mod'', sf_da_name = Some ''ctlNum'', sf_fc = Some ''CF'', sf_ix = None\<rparr>]\<rparr>],
     sln_gse_controls := [\<lparr>gse_name = ''g'', gse_dat_set = Some ''ds'', gse_conf_rev = Some 3,
       gse_kind = None, gse_app_id = None\<rparr>]\<rparr>"

definition published :: "string option \<Rightarrow> scl_document" where
  "published own_name = demo_document
    \<lparr>scl_communication := Some \<lparr>com_sub_networks = [\<lparr>net_name = ''N'', net_kind = None,
       net_connected_aps = [\<lparr>cap_ied_name = ''I'', cap_ap_name = ''P'', cap_address = None,
         cap_gse = [\<lparr>cgse_ld_inst = Some ''LD'', cgse_cb_name = Some ''g'',
           cgse_address = Some \<lparr>adr_params = [\<lparr>par_kind = ''MAC-Address'', par_value = ''01-0C-CD-01-00-01''\<rparr>,
             \<lparr>par_kind = ''APPID'', par_value = ''4001''\<rparr>]\<rparr>\<rparr>],
         cap_smv = []\<rparr>]\<rparr>]\<rparr>,
     scl_ieds := [\<lparr>ied_name = ''I'', ied_kind = None, ied_manufacturer = None, ied_config_version = None,
       ied_access_points = [\<lparr>apt_name = ''P'', apt_server = Some \<lparr>srv_ldevices =
         [\<lparr>ldev_inst = ''LD'', ldev_ld_name = own_name, ldev_desc = None, ldev_ln0 = Some published_ln,
           ldev_lns = []\<rparr>]\<rparr>\<rparr>]\<rparr>]\<rparr>"

lemma published_address: "find_gse_address (published d) ''I'' ''g'' = Some
    \<lparr>adr_params = [\<lparr>par_kind = ''MAC-Address'', par_value = ''01-0C-CD-01-00-01''\<rparr>,
       \<lparr>par_kind = ''APPID'', par_value = ''4001''\<rparr>]\<rparr>"
  by (simp add: find_gse_address_def published_def)

lemma published_numbers: "parse_mac ''01-0C-CD-01-00-01'' = Inr [1, 12, 205, 1, 0, 1]"
  "parse_appid ''4001'' = Inr 0x4001"
proof -
  have "mac_text (CHR ''-'') [1, 12, 205, 1, 0, 1] = ''01-0C-CD-01-00-01''"
    by (simp add: hex_pair_def hex_digit_def)
  then show "parse_mac ''01-0C-CD-01-00-01'' = Inr [1, 12, 205, 1, 0, 1]"
    using mac_text_parses [of "CHR ''-''" "[1, 12, 205, 1, 0, 1]"] by (simp add: mac_separator_def)
  have "trim ''4001'' = ''4001''" by (rule trim_visible) (simp add: visible_def)
  then show "parse_appid ''4001'' = Inr 0x4001"
    by (simp add: parse_appid_def prefix_0x_def parse_hex_def hex_value_def starts_with_def)
qed

lemma published_control: "\<exists>gc. find_gse_control (published None) ''I'' ''g'' = Some (gc, ''LD'', ''LLN0'') \<and>
    gse_dat_set gc = Some ''ds''"
proof -
  have "map_option (\<lambda>(gc, rest). (gse_dat_set gc, rest)) (find_gse_control (published None) ''I'' ''g'') =
      Some (Some ''ds'', ''LD'', ''LLN0'')" by code_simp
  then show ?thesis by auto
qed


lemma published_resolves: "resolve_lenient 9 (published None) \<noteq> None"
  by code_simp


section \<open>What the source leaves open\<close>

text \<open>A device with a name of its own: the data set is declared and resolved, and yet not found.\<close>

lemma named_device_loses_data_set:
  "map_option (\<lambda>(m, diags). goose_dataset_members (published (Some ''X'')) m ''I'' ''g'')
     (resolve_lenient 9 (published (Some ''X''))) = Some (Inl (CfgDatasetNotFound ''ds''))"
  by code_simp

text \<open>A type that contains itself passes the validation and resolves on no stack.\<close>

definition endless_document :: scl_document where
  "endless_document = demo_document\<lparr>scl_templates := Some (demo_templates
    \<lparr>tpl_do_types := [\<lparr>dot_id = ''D'', dot_cdc = ''ENC'', dot_desc = None, dot_das = [],
       dot_sdos = [\<lparr>sdo_name = ''s'', sdo_kind = ''D'', sdo_desc = None\<rparr>]\<rparr>]\<rparr>)\<rparr>"

lemma endless_document_overflows:
  "scl_validate endless_document = []" "resolve_lenient n endless_document = None"
proof -
  show "scl_validate endless_document = []" by code_simp
  let ?t = "document_templates endless_document"
  have "(''D'', ''D'') \<in> do_refs ?t"
    by (simp add: do_refs_def endless_document_def demo_document_def document_templates_def
      or_default_def do_type_of_def)
  then have "\<not> do_grounded ?t ''D''"
    unfolding do_grounded_def grounded_def by blast
  then have "\<not> document_grounded endless_document"
    by (simp add: document_grounded_def document_nodes_def node_grounded_def endless_document_def
      demo_document_def document_templates_def or_default_def ied_devices_def all_lns_def demo_ln_def
      lnode_type_def demo_templates_def)
  moreover have "resolve_lenient n endless_document \<noteq> None \<Longrightarrow> document_grounded endless_document"
    using resolve_lenient_frames resolve_lenient_ends_iff [of endless_document "frames ?t"] by fastforce
  ultimately show "resolve_lenient n endless_document = None" by blast
qed

text \<open>A constructed attribute that names an \<open>EnumType\<close> passes the validation and fails to resolve.\<close>

definition mistyped_document :: scl_document where
  "mistyped_document = demo_document\<lparr>scl_templates := Some (demo_templates
    \<lparr>tpl_da_types := [], tpl_enum_types := [\<lparr>ent_id = ''A'', ent_values = []\<rparr>]\<rparr>)\<rparr>"

lemma mistyped_document_fails:
  "scl_validate mistyped_document = []"
  "map_option (\<lambda>r. case r of Inl e \<Rightarrow> True | Inr m \<Rightarrow> False)
     (scl_resolve 9 mistyped_document :: ((unit, unit) scl_error + model) option) = Some True"
  by (code_simp, code_simp)

text \<open>A \<open>DAI\<close> without \<open>Val\<close> takes away the default of the type.\<close>

lemma empty_dai_erases:
  "last_dai m (doi_dai doi) = Some dai \<Longrightarrow> dai_val dai = [] \<Longrightarrow>
    map_option da_value (do_attribute (overlay_doi x doi) m) = map_option (\<lambda>_. None) (do_attribute x m)"
  by (simp add: value_overlay_doi dai_value_def first_val_def)

end
