(* ===== verification/Spec2Isabelle.thy ===== *)
theory Spec2Isabelle imports GooseLink Pcap SvStream ModelTree Association MmsServices AccessControl ReportPdu ServerNamespace SettingGroups Control Reservations Reporting ClientSession SclWrite SclConfig begin

text \<open>
  A model of the Rust workspace IEC-61850-Studio: the codecs, the publish/subscribe protocols, the
  data model and the MMS client/server stack of crates/. Each theory translates the source files it
  names; definitions carry the source's names, with a prefix where two crates use one name.

  \<^bold>\<open>Conventions.\<close> Octets are \<open>8 word\<close>, machine integers \<open>w word\<close> at the width of the source, \<open>usize\<close> a
  natural number (with \<open>usize_limit\<close> where an overflow matters), strings the list of their
  characters with UTF-8 octets where they cross the wire. \<open>Result\<close> is a sum with the error on the
  left, \<open>?\<close> is \<open>bindE\<close>; a method on \<open>&mut self\<close> that may fail returns the result and the new state
  (\<open>thenE\<close>), so that the state after an error is modelled too. Loops of a task are step functions
  over the branches of its \<open>select!\<close>, with the clock as an argument. Recursions over a reader
  terminate because every successful read advances (\<open>read_tlv_progress\<close>); no fuel is used there.

  \<^bold>\<open>crates/iec61850-ber.\<close> BerTagLength, BerPrim, BerCodec (tags, lengths, primitives, the cursor
  \<open>BerReader\<close> and the back-patching \<open>BerWriter\<close>) and MmsData (the recursive value with its bound of
  32 levels): round trips, canonical forms, progress and confinement of the cursor.

  \<^bold>\<open>crates/iec61850-l2, -goose, -sv.\<close> Sha256, L2Auth (incremental SHA-256, HMAC, key rings), EthFrame,
  Pcap; GoosePdu, GoosePublisher, GooseSubscriber and GooseLink; SvPdu and SvStream: wire formats,
  authentication (what is reported valid was signed), the retransmission and expiry state machines
  and the composition of a publisher, a lossless link and a subscriber. ECDSA (the crate p256) is a
  parameter; opening sockets and files is not modelled.

  \<^bold>\<open>crates/iec61850-model.\<close> ModelReference, ModelTypes, ModelTree: references and their text form,
  type names, quality and time, the tree, resolution and listing. Conversions to \<open>f64\<close> are not
  modelled.

  \<^bold>\<open>crates/iec61850-mms.\<close> MmsNames (mapping of names), IsoTransport (TPKT, COTP, segmentation over a
  byte stream), IsoSession, IsoPresentation, IsoAcse, MmsPdu (framing of units, initiation),
  MmsServices (the confirmed services, as interpretations of one contract \<open>mms_service\<close>) and
  Association (the two handshakes, composed as the code composes them).
  AccessControl holds the roles, the permission each item requires, the authentication policy and the
  signed access tokens of the server; ReportPdu the information reports, command terminations and
  application errors with the dispatch at the client.
\<close>

end
